(* ===== verification/Flow_Prelude.thy ===== *)
theory Flow_Prelude
  imports Main "HOL-Library.Word" "HOL-Library.Monad_Syntax"
begin

unbundle bit_operations_syntax

text \<open>
  Shared vocabulary of the development.

  The C code is modelled with explicit state passing.  A function that contains \<open>ASSERT\<close>s,
  dereferences a pointer or accesses a buffer returns an \<open>option\<close>: \<open>None\<close> is "an assertion
  fails, a null pointer is followed or memory outside the buffer is touched", so that a theorem
  saying that a handler returns \<open>Some\<close> is a statement of memory and assertion safety.
  C's \<open>int\<close> is \<open>int\<close>: the components state the bounds that keep every value inside the
  32-bit range.  Fixed-width unsigned fields are words.

  The theory holds the assertion primitive, byte buffers (\<open>mem_read\<close>, \<open>mem_write\<close>), the byte
  layout of little-endian and network-order fields (\<open>misc/byteorder.h\<close>), and the generic list
  lemmas the components share.
\<close>

named_theorems flow_defs \<open>definitions of handlers, unfolded by the component proofs\<close>

type_synonym byte = "8 word"
type_synonym bytes = "byte list"
type_synonym ptr = nat

section \<open>Assertions\<close>

definition ASSERT :: "bool \<Rightarrow> unit option" where
  "ASSERT b = (if b then Some () else None)"

lemma ASSERT_True [simp]: "ASSERT True = Some ()"
  by (simp add: ASSERT_def)

lemma ASSERT_False [simp]: "ASSERT False = None"
  by (simp add: ASSERT_def)

lemma ASSERT_bind_Some [simp]: "(ASSERT b \<bind> f = Some r) \<longleftrightarrow> b \<and> f () = Some r"
  by (cases b) simp_all

lemma ASSERT_conj: "ASSERT (p \<and> q) = (ASSERT p \<bind> (\<lambda>_. ASSERT q))"
  by (simp add: ASSERT_def)

lemma ASSERT_holds [simp]: "b \<Longrightarrow> ASSERT b \<bind> f = f ()"
  by simp

section \<open>Byte buffers\<close>

definition mem_read :: "'a list \<Rightarrow> int \<Rightarrow> int \<Rightarrow> 'a list option" where
  "mem_read buf off n =
     (if 0 \<le> off \<and> 0 \<le> n \<and> off + n \<le> int (length buf)
      then Some (take (nat n) (drop (nat off) buf)) else None)"

definition mem_write :: "'a list \<Rightarrow> int \<Rightarrow> 'a list \<Rightarrow> 'a list option" where
  "mem_write buf off ys =
     (if 0 \<le> off \<and> off + int (length ys) \<le> int (length buf)
      then Some (take (nat off) buf @ ys @ drop (nat off + length ys) buf) else None)"

lemma mem_read_ok:
  "0 \<le> off \<Longrightarrow> 0 \<le> n \<Longrightarrow> off + n \<le> int (length buf) \<Longrightarrow>
   mem_read buf off n = Some (take (nat n) (drop (nat off) buf))"
  by (simp add: mem_read_def)

lemma mem_read_length: "mem_read buf off n = Some ys \<Longrightarrow> int (length ys) = n"
  by (auto simp: mem_read_def split: if_splits)

lemma mem_write_ok:
  "0 \<le> off \<Longrightarrow> off + int (length ys) \<le> int (length buf) \<Longrightarrow>
   mem_write buf off ys = Some (take (nat off) buf @ ys @ drop (nat off + length ys) buf)"
  by (simp add: mem_write_def)

lemma mem_write_Some:
  "mem_write buf off ys = Some buf' \<longleftrightarrow>
   0 \<le> off \<and> off + int (length ys) \<le> int (length buf) \<and>
   buf' = take (nat off) buf @ ys @ drop (nat off + length ys) buf"
  by (auto simp: mem_write_def)

lemma mem_write_length: "mem_write buf off ys = Some buf' \<Longrightarrow> length buf' = length buf"
  by (auto simp: mem_write_Some)

lemma mem_read_write_same:
  "mem_write buf off ys = Some buf' \<Longrightarrow> mem_read buf' off (int (length ys)) = Some ys"
  by (auto simp: mem_write_Some mem_read_def min_def)

lemma take_drop_splice_before:
  "off' + n \<le> off \<Longrightarrow> off + length ys \<le> length buf \<Longrightarrow>
   take n (drop off' (take off buf @ ys @ drop (off + length ys) buf)) = take n (drop off' buf)"
  by (rule nth_equalityI) (auto simp: nth_append)

lemma take_drop_splice_after:
  "off + length ys \<le> off' \<Longrightarrow> off + length ys \<le> length buf \<Longrightarrow>
   take n (drop off' (take off buf @ ys @ drop (off + length ys) buf)) = take n (drop off' buf)"
  by (rule nth_equalityI) (auto simp: nth_append)

lemma mem_read_write_other:
  assumes "mem_write buf off ys = Some buf'"
    and "off' + n \<le> off \<or> off + int (length ys) \<le> off'"
  shows "mem_read buf' off' n = mem_read buf off' n"
proof (cases "0 \<le> off' \<and> 0 \<le> n \<and> off' + n \<le> int (length buf)")
  case False
  with assms(1) show ?thesis by (auto simp: mem_write_Some mem_read_def)
next
  case True
  from assms(1) have w: "0 \<le> off" "off + int (length ys) \<le> int (length buf)"
    "buf' = take (nat off) buf @ ys @ drop (nat off + length ys) buf"
    by (auto simp: mem_write_Some)
  have "nat off' + nat n \<le> nat off \<or> nat off + length ys \<le> nat off'"
    using assms(2) True w(1) by linarith
  moreover have "nat off + length ys \<le> length buf"
    using w by linarith
  ultimately show ?thesis
    using True w take_drop_splice_before [of "nat off'" "nat n" "nat off" ys buf]
      take_drop_splice_after [of "nat off" ys "nat off'" buf "nat n"]
    by (simp add: mem_read_def del: take_append drop_append) argo
qed

text \<open>Two adjacent reads are one read of the joint range.\<close>

lemma mem_read_split:
  assumes "mem_read buf off (n + m) = Some ys" and "0 \<le> n" and "0 \<le> m"
  shows "mem_read buf off n = Some (take (nat n) ys)"
    and "mem_read buf (off + n) m = Some (drop (nat n) ys)"
proof -
  from assms have r: "0 \<le> off" "off + (n + m) \<le> int (length buf)"
    "ys = take (nat (n + m)) (drop (nat off) buf)"
    by (auto simp: mem_read_def split: if_splits)
  show "mem_read buf off n = Some (take (nat n) ys)"
    using r assms(2,3) by (simp add: mem_read_def min_def)
  have "nat (n + m) = nat n + nat m" "nat (off + n) = nat n + nat off"
    using assms(2,3) r(1) by simp_all
  then show "mem_read buf (off + n) m = Some (drop (nat n) ys)"
    using r assms(2,3) by (simp add: mem_read_def drop_take)
qed

section \<open>Byte order\<close>

text \<open>
  The build defines \<open>BADVPN_LITTLE_ENDIAN\<close>: a \<open>memcpy\<close> of a 16- or 32-bit field writes its
  bytes least significant first; \<open>htol16\<close> and \<open>ltoh16\<close> are the identity, \<open>hton16\<close> swaps.
\<close>

definition le16_bytes :: "16 word \<Rightarrow> bytes" where
  "le16_bytes w = [ucast w, ucast (drop_bit 8 w)]"

definition le16_of :: "bytes \<Rightarrow> 16 word" where
  "le16_of bs = (case bs of [a, b] \<Rightarrow> ucast a OR push_bit 8 (ucast b) | _ \<Rightarrow> 0)"

definition le32_bytes :: "32 word \<Rightarrow> bytes" where
  "le32_bytes w = [ucast w, ucast (drop_bit 8 w), ucast (drop_bit 16 w), ucast (drop_bit 24 w)]"

definition le32_of :: "bytes \<Rightarrow> 32 word" where
  "le32_of bs = (case bs of
     [a, b, c, d] \<Rightarrow> ucast a OR push_bit 8 (ucast b) OR push_bit 16 (ucast c) OR push_bit 24 (ucast d)
   | _ \<Rightarrow> 0)"

definition hton16 :: "16 word \<Rightarrow> 16 word" where
  "hton16 w = push_bit 8 w OR drop_bit 8 w"

lemma length_le16_bytes [simp]: "length (le16_bytes w) = 2"
  by (simp add: le16_bytes_def)

lemma length_le32_bytes [simp]: "length (le32_bytes w) = 4"
  by (simp add: le32_bytes_def)

lemma le16_of_bytes [simp]: "le16_of (le16_bytes w) = w"
  by (rule bit_word_eqI)
    (auto simp: le16_of_def le16_bytes_def bit_simps)

lemma le32_of_bytes [simp]: "le32_of (le32_bytes w) = w"
proof (rule bit_word_eqI)
  fix n assume "n < LENGTH(32)"
  then have n: "n < 8 \<or> 8 \<le> n \<and> n - 8 < 8 \<and> \<not> 16 \<le> n \<or> 16 \<le> n \<and> n - 16 < 8 \<and> \<not> 24 \<le> n \<or>
    24 \<le> n \<and> n - 24 < 8"
    by (simp; arith)
  show "bit (le32_of (le32_bytes w)) n = bit w n"
    using n \<open>n < LENGTH(32)\<close> by (elim disjE) (auto simp: le32_of_def le32_bytes_def bit_simps)
qed

lemma le32_bytes_of:
  assumes "length h = 4"
  shows "le32_bytes (le32_of h) = h"
proof -
  from assms obtain a b c d where h: "h = [a, b, c, d]"
    by (auto simp: length_Suc_conv numeral_eq_Suc)
  let ?w = "ucast a OR push_bit 8 (ucast b) OR push_bit 16 (ucast c) OR push_bit 24 (ucast d) :: 32 word"
  have "(ucast ?w :: 8 word) = a" "(ucast (drop_bit 8 ?w) :: 8 word) = b"
    "(ucast (drop_bit 16 ?w) :: 8 word) = c" "(ucast (drop_bit 24 ?w) :: 8 word) = d"
    by (rule bit_word_eqI; auto simp: bit_simps dest: bit_imp_le_length)+
  then show ?thesis by (simp add: h le32_of_def le32_bytes_def)
qed

lemma hton16_hton16 [simp]: "hton16 (hton16 w) = w"
  by (rule bit_word_eqI) (auto simp: hton16_def bit_simps)

lemma le16_of_bound: "unat (le16_of bs) \<le> 65535"
  using unsigned_less [where ?'a = nat, of "le16_of bs"] by simp

lemma unat_of_nat_16: "n \<le> 65535 \<Longrightarrow> unat (of_nat n :: 16 word) = n"
  by (simp add: unat_of_nat)

section \<open>Sets and lists\<close>

lemma Collect_upd_True: "Collect (f(x := True)) = insert x (Collect f)"
  by auto

lemma Collect_upd_False: "Collect (f(x := False)) = Collect f - {x}"
  by (auto split: if_splits)

lemma remove1_append_Cons: "x \<notin> set xs \<Longrightarrow> remove1 x (xs @ x # ys) = xs @ ys"
  by (induction xs) auto

lemma distinct_split_unique:
  assumes "distinct (xs @ x # ys)"
  shows "x \<notin> set xs" and "x \<notin> set ys"
  using assms by auto

end
