(* ===== verification/SLinkedList.thy ===== *)
theory SLinkedList
  imports Flow_Prelude
begin

text \<open>
  The intrusive list of \<open>structure/SLinkedList_impl.h\<close>, as \<open>BPending_list.h\<close> instantiates it
  (\<open>SLINKEDLIST_PARAM_FEATURE_LAST\<close> is 0): a \<open>first\<close> pointer and, in every entry, a \<open>next\<close> and
  a \<open>prev\<close> pointer.  The entries live on a heap; \<open>next\<close> and \<open>prev\<close> are maps from an entry's
  address.  An entry that is in no list is marked by \<open>next\<close> pointing to itself.  The \<open>prev\<close>
  field of the first entry is stale: nothing resets it, and nothing may read it.

  \<open>slist_rel\<close> relates the pointers to the sequence of entries; every operation is shown to
  refine the corresponding operation on sequences, without following a null pointer.
\<close>

record 'a slist =
  sl_first :: "'a option"
  sl_next :: "'a \<Rightarrow> 'a option"
  sl_prev :: "'a \<Rightarrow> 'a option"

section \<open>Operations\<close>

definition SLinkedListMarkRemoved :: "'a \<Rightarrow> 'a slist \<Rightarrow> 'a slist" where
  "SLinkedListMarkRemoved entry o1 = o1\<lparr>sl_next := (sl_next o1)(entry := Some entry)\<rparr>"

definition SLinkedListIsRemoved :: "'a \<Rightarrow> 'a slist \<Rightarrow> bool" where
  "SLinkedListIsRemoved entry o1 = (sl_next o1 entry = Some entry)"

definition SLinkedList_Init :: "'a slist \<Rightarrow> 'a slist" where
  "SLinkedList_Init o1 = o1\<lparr>sl_first := None\<rparr>"

definition SLinkedList_Next :: "'a slist \<Rightarrow> 'a \<Rightarrow> 'a option" where
  "SLinkedList_Next o1 entry = sl_next o1 entry"

definition SLinkedList_Prev :: "'a slist \<Rightarrow> 'a \<Rightarrow> 'a option" where
  "SLinkedList_Prev o1 entry = (if Some entry = sl_first o1 then None else sl_prev o1 entry)"

definition SLinkedList_Prepend :: "'a \<Rightarrow> 'a slist \<Rightarrow> 'a slist" where
  "SLinkedList_Prepend entry o1 =
     (let o2 = o1\<lparr>sl_next := (sl_next o1)(entry := sl_first o1)\<rparr>;
          o3 = (case sl_first o2 of
                  Some f \<Rightarrow> o2\<lparr>sl_prev := (sl_prev o2)(f := Some entry)\<rparr>
                | None \<Rightarrow> o2)
      in o3\<lparr>sl_first := Some entry\<rparr>)"

definition SLinkedList_InsertBefore :: "'a \<Rightarrow> 'a \<Rightarrow> 'a slist \<Rightarrow> 'a slist option" where
  "SLinkedList_InsertBefore entry before_entry o1 =
     (let o2 = o1\<lparr>sl_next := (sl_next o1)(entry := Some before_entry)\<rparr>
      in do {
        o3 \<leftarrow> (if Some before_entry \<noteq> sl_first o2 then do {
                  p \<leftarrow> sl_prev o2 before_entry;
                  Some (o2\<lparr>sl_prev := (sl_prev o2)(entry := Some p),
                           sl_next := (sl_next o2)(p := Some entry)\<rparr>)
                } else Some (o2\<lparr>sl_first := Some entry\<rparr>));
        Some (o3\<lparr>sl_prev := (sl_prev o3)(before_entry := Some entry)\<rparr>)
      })"

definition SLinkedList_InsertAfter :: "'a \<Rightarrow> 'a \<Rightarrow> 'a slist \<Rightarrow> 'a slist" where
  "SLinkedList_InsertAfter entry after_entry o1 =
     (let o2 = o1\<lparr>sl_next := (sl_next o1)(entry := sl_next o1 after_entry)\<rparr>;
          o3 = o2\<lparr>sl_prev := (sl_prev o2)(entry := Some after_entry)\<rparr>;
          o4 = (case sl_next o3 after_entry of
                  Some n \<Rightarrow> o3\<lparr>sl_prev := (sl_prev o3)(n := Some entry)\<rparr>
                | None \<Rightarrow> o3)
      in o4\<lparr>sl_next := (sl_next o4)(after_entry := Some entry)\<rparr>)"

definition SLinkedList_Remove :: "'a \<Rightarrow> 'a slist \<Rightarrow> 'a slist option" where
  "SLinkedList_Remove entry o1 =
     (if Some entry \<noteq> sl_first o1 then do {
        p \<leftarrow> sl_prev o1 entry;
        let o2 = o1\<lparr>sl_next := (sl_next o1)(p := sl_next o1 entry)\<rparr>;
        Some (case sl_next o2 entry of
                Some n \<Rightarrow> o2\<lparr>sl_prev := (sl_prev o2)(n := sl_prev o2 entry)\<rparr>
              | None \<Rightarrow> o2)
      } else Some (o1\<lparr>sl_first := sl_next o1 entry\<rparr>))"

definition SLinkedList_RemoveFirst :: "'a slist \<Rightarrow> 'a slist option" where
  "SLinkedList_RemoveFirst o1 = do {
     f \<leftarrow> sl_first o1;
     Some (o1\<lparr>sl_first := sl_next o1 f\<rparr>)
   }"

definition SLinkedList_First :: "'a slist \<Rightarrow> 'a option" where
  "SLinkedList_First o1 = sl_first o1"

definition SLinkedList_IsEmpty :: "'a slist \<Rightarrow> bool" where
  "SLinkedList_IsEmpty o1 = (sl_first o1 = None)"

lemmas slist_defs = SLinkedListMarkRemoved_def SLinkedListIsRemoved_def SLinkedList_Init_def
  SLinkedList_Next_def SLinkedList_Prev_def SLinkedList_Prepend_def SLinkedList_InsertBefore_def
  SLinkedList_InsertAfter_def SLinkedList_Remove_def SLinkedList_RemoveFirst_def
  SLinkedList_First_def SLinkedList_IsEmpty_def

section \<open>Sequences on the heap\<close>

primrec sl_path :: "('a \<Rightarrow> 'a option) \<Rightarrow> 'a option \<Rightarrow> 'a list \<Rightarrow> 'a option \<Rightarrow> bool" where
  "sl_path nx p [] q \<longleftrightarrow> p = q"
| "sl_path nx p (x # xs) q \<longleftrightarrow> p = Some x \<and> sl_path nx (nx x) xs q"

fun sl_back :: "('a \<Rightarrow> 'a option) \<Rightarrow> 'a list \<Rightarrow> bool" where
  "sl_back pv (x # y # ys) \<longleftrightarrow> pv y = Some x \<and> sl_back pv (y # ys)"
| "sl_back pv _ \<longleftrightarrow> True"

definition slist_rel :: "'a slist \<Rightarrow> 'a list \<Rightarrow> bool" where
  "slist_rel o1 xs \<longleftrightarrow>
     sl_path (sl_next o1) (sl_first o1) xs None \<and> sl_back (sl_prev o1) xs \<and> distinct xs"

lemma sl_path_append [simp]:
  "sl_path nx p (xs @ ys) q \<longleftrightarrow> (\<exists>r. sl_path nx p xs r \<and> sl_path nx r ys q)"
  by (induction xs arbitrary: p) auto

lemma sl_path_upd [simp]: "x \<notin> set xs \<Longrightarrow> sl_path (nx(x := v)) p xs q = sl_path nx p xs q"
  by (induction xs arbitrary: p) auto

lemma sl_back_append_Cons:
  "sl_back pv (xs @ y # ys) \<longleftrightarrow>
     sl_back pv xs \<and> sl_back pv (y # ys) \<and> (xs \<noteq> [] \<longrightarrow> pv y = Some (last xs))"
  by (induction xs rule: induct_list012) (auto split: if_splits)

lemma sl_back_upd: "x \<notin> set (tl xs) \<Longrightarrow> sl_back (pv(x := v)) xs = sl_back pv xs"
  by (induction pv xs rule: sl_back.induct) auto

lemma sl_back_upd_notin [simp]: "x \<notin> set xs \<Longrightarrow> sl_back (pv(x := v)) xs = sl_back pv xs"
  by (rule sl_back_upd) (cases xs, auto)

lemma sl_path_None [simp]: "sl_path nx None xs q \<longleftrightarrow> xs = [] \<and> q = None"
  by (cases xs) auto

lemma sl_path_to_last: "sl_path nx p (xs @ [x]) q \<Longrightarrow> nx x = q"
  by auto

lemma slist_rel_first: "slist_rel o1 xs \<Longrightarrow> sl_first o1 = (case xs of [] \<Rightarrow> None | x # _ \<Rightarrow> Some x)"
  by (cases xs) (auto simp: slist_rel_def)

lemma slist_rel_next_notin: "slist_rel o1 xs \<Longrightarrow> x \<in> set xs \<Longrightarrow> sl_next o1 x \<noteq> Some x"
proof -
  assume rel: "slist_rel o1 xs" and "x \<in> set xs"
  then obtain as bs where xs: "xs = as @ x # bs"
    by (auto dest: split_list)
  with rel have "sl_path (sl_next o1) (sl_next o1 x) bs None" "x \<notin> set bs"
    by (auto simp: slist_rel_def)
  then show ?thesis by (cases bs) auto
qed

section \<open>Refinement of the sequence operations\<close>

lemma slist_Init: "slist_rel (SLinkedList_Init o1) []"
  by (simp add: SLinkedList_Init_def slist_rel_def)

lemma slist_First: "slist_rel o1 xs \<Longrightarrow> SLinkedList_First o1 = (if xs = [] then None else Some (hd xs))"
  by (cases xs) (auto simp: SLinkedList_First_def slist_rel_def)

lemma slist_IsEmpty: "slist_rel o1 xs \<Longrightarrow> SLinkedList_IsEmpty o1 \<longleftrightarrow> xs = []"
  by (cases xs) (auto simp: SLinkedList_IsEmpty_def slist_rel_def)

lemma slist_Prepend:
  assumes "slist_rel o1 xs" and "x \<notin> set xs"
  shows "slist_rel (SLinkedList_Prepend x o1) (x # xs)"
proof (cases xs)
  case Nil
  with assms show ?thesis
    by (auto simp: slist_rel_def SLinkedList_Prepend_def Let_def)
next
  case (Cons y ys)
  with assms show ?thesis
    by (auto simp: slist_rel_def SLinkedList_Prepend_def Let_def sl_back_upd)
qed

lemma slist_RemoveFirst:
  assumes "slist_rel o1 (x # xs)"
  shows "\<exists>o2. SLinkedList_RemoveFirst o1 = Some o2 \<and> slist_rel o2 xs \<and>
    sl_next o2 = sl_next o1 \<and> sl_prev o2 = sl_prev o1"
  using assms by (cases xs) (auto simp: SLinkedList_RemoveFirst_def slist_rel_def)

lemma slist_MarkRemoved:
  assumes "slist_rel o1 xs" and "x \<notin> set xs"
  shows "slist_rel (SLinkedListMarkRemoved x o1) xs"
  using assms by (simp add: slist_rel_def SLinkedListMarkRemoved_def)

lemma slist_Remove_inner:
  assumes rel: "slist_rel o1 (as @ x # bs)" and ne: "as \<noteq> []"
  shows "\<exists>o2. SLinkedList_Remove x o1 = Some o2 \<and> slist_rel o2 (as @ bs) \<and>
    (\<forall>y. y \<notin> set as \<longrightarrow> sl_next o2 y = sl_next o1 y)"
proof -
  obtain cs p where as: "as = cs @ [p]"
    using ne by (cases as rule: rev_cases) auto
  have d: "distinct (cs @ p # x # bs)" and b: "sl_back (sl_prev o1) (cs @ p # x # bs)"
    and pt: "sl_path (sl_next o1) (sl_first o1) (cs @ p # x # bs) None"
    using rel by (simp_all add: slist_rel_def as)
  have pv: "sl_prev o1 x = Some p"
    using b by (simp add: sl_back_append_Cons)
  have nf: "Some x \<noteq> sl_first o1"
    using pt d by (cases cs) auto
  let ?o2 = "o1\<lparr>sl_next := (sl_next o1)(p := sl_next o1 x)\<rparr>"
  have px: "p \<noteq> x" using d by auto
  show ?thesis
  proof (cases bs)
    case Nil
    with pt d px have "slist_rel ?o2 (as @ bs)"
      using b by (auto simp: slist_rel_def as sl_back_append_Cons)
    moreover have "SLinkedList_Remove x o1 = Some ?o2"
      using nf pv px Nil pt by (simp add: SLinkedList_Remove_def)
    ultimately show ?thesis by (auto simp: as)
  next
    case (Cons y ys)
    let ?o3 = "?o2\<lparr>sl_prev := (sl_prev o1)(y := Some p)\<rparr>"
    have ny: "sl_next o1 x = Some y"
      using pt Cons by auto
    have "SLinkedList_Remove x o1 = Some ?o3"
      using nf pv px ny by (simp add: SLinkedList_Remove_def)
    moreover have "slist_rel ?o3 (as @ bs)"
      using pt d b px by (auto simp: slist_rel_def as Cons sl_back_append_Cons sl_back_upd)
    ultimately show ?thesis by (auto simp: as)
  qed
qed

text \<open>Removing any member of the list removes exactly it; entries outside keep their mark.\<close>

lemma slist_Remove:
  assumes rel: "slist_rel o1 xs" and x: "x \<in> set xs"
  shows "\<exists>o2. SLinkedList_Remove x o1 = Some o2 \<and> slist_rel o2 (remove1 x xs) \<and>
    (\<forall>y. y \<notin> set xs \<or> y = x \<longrightarrow> sl_next o2 y = sl_next o1 y)"
proof -
  obtain as bs where xs: "xs = as @ x # bs" using x by (auto dest: split_list)
  have nas: "x \<notin> set as" using rel by (simp add: slist_rel_def xs)
  then have r: "remove1 x xs = as @ bs" by (simp add: xs remove1_append_Cons)
  show ?thesis
  proof (cases "as = []")
    case True
    with rel have "slist_rel (o1\<lparr>sl_first := sl_next o1 x\<rparr>) bs"
      by (cases bs) (auto simp: slist_rel_def xs)
    with rel True r show ?thesis
      by (simp add: SLinkedList_Remove_def slist_rel_def xs)
  next
    case False
    from slist_Remove_inner [OF rel [unfolded xs] False] show ?thesis
      using nas unfolding r by (auto simp: xs)
  qed
qed

lemma slist_InsertAfter:
  assumes rel: "slist_rel o1 (as @ a # bs)" and e: "e \<notin> set (as @ a # bs)"
  shows "slist_rel (SLinkedList_InsertAfter e a o1) (as @ a # e # bs)"
proof -
  have d: "distinct (as @ a # bs)" and pt: "sl_path (sl_next o1) (sl_first o1) (as @ a # bs) None"
    and b: "sl_back (sl_prev o1) (as @ a # bs)"
    using rel by (simp_all add: slist_rel_def)
  show ?thesis
  proof (cases bs)
    case Nil
    with d pt b e show ?thesis
      by (auto simp: slist_rel_def SLinkedList_InsertAfter_def Let_def sl_back_append_Cons sl_back_upd)
  next
    case (Cons y ys)
    with d pt b e show ?thesis
      by (auto simp: slist_rel_def SLinkedList_InsertAfter_def Let_def sl_back_append_Cons sl_back_upd)
  qed
qed

lemma slist_InsertBefore:
  assumes rel: "slist_rel o1 (as @ a # bs)" and e: "e \<notin> set (as @ a # bs)"
  shows "\<exists>o2. SLinkedList_InsertBefore e a o1 = Some o2 \<and> slist_rel o2 (as @ e # a # bs)"
proof -
  have d: "distinct (as @ a # bs)" and pt: "sl_path (sl_next o1) (sl_first o1) (as @ a # bs) None"
    and b: "sl_back (sl_prev o1) (as @ a # bs)"
    using rel by (simp_all add: slist_rel_def)
  show ?thesis
  proof (cases as rule: rev_cases)
    case Nil
    with d pt b e show ?thesis
      by (auto simp: slist_rel_def SLinkedList_InsertBefore_def Let_def sl_back_upd)
  next
    case (snoc cs p)
    have nf: "Some a \<noteq> sl_first o1"
      using pt d snoc by (cases cs) auto
    have pv: "sl_prev o1 a = Some p"
      using b snoc by (simp add: sl_back_append_Cons)
    with nf d pt b e show ?thesis
      by (auto simp: slist_rel_def SLinkedList_InsertBefore_def Let_def snoc sl_back_append_Cons
          sl_back_upd)
  qed
qed

end
