(* ===== verification/Pending.thy ===== *)
theory Pending
  imports SLinkedList
begin

text \<open>
  The job queue of \<open>base/BPending.c\<close>, on which every component schedules its work: a group
  holds a list of pending jobs, \<open>BPending_Set\<close> pushes a job to the top (moving it there when it
  is already set), \<open>BPending_Unset\<close> removes it, \<open>BPendingGroup_ExecuteJob\<close> pops the top job
  and calls its handler.  The list is the pointer structure of theory \<open>SLinkedList\<close>; "is
  set" is read off the self-pointing mark of an entry.

  A group state keeps, per job object (by address), its handler, the debug flag \<open>pending\<close> and
  whether its debug object is valid, and the leak counter \<open>pending_ctr\<close>.  A handler of type
  \<open>'h\<close> stands for the pair of function pointer and user value; \<open>BPendingGroup_ExecuteJob\<close>
  returns the handler that the C code calls last.

  The interface \<open>job_group\<close> states what clients rely on, a stack of jobs; the pointer
  implementation is its instance \<open>bp\<close>.
\<close>

section \<open>Leak counters\<close>

definition INT32_MAX :: int where
  "INT32_MAX = 2147483647"

definition DebugCounter_Free :: "int \<Rightarrow> unit option" where
  "DebugCounter_Free c = ASSERT (c = 0 \<or> c = INT32_MAX)"

definition DebugCounter_Increment :: "int \<Rightarrow> int option" where
  "DebugCounter_Increment c = do {
     ASSERT (c \<ge> 0);
     Some (if c \<noteq> INT32_MAX then c + 1 else c)
   }"

definition DebugCounter_Decrement :: "int \<Rightarrow> int option" where
  "DebugCounter_Decrement c = do {
     ASSERT (c > 0);
     Some (if c \<noteq> INT32_MAX then c - 1 else c)
   }"

section \<open>State and operations\<close>

record 'h BPendingGroup =
  pg_jobs :: "ptr slist"
  pending_ctr :: int
  pg_d_obj :: bool
  job_handler :: "ptr \<Rightarrow> 'h"
  job_pending :: "ptr \<Rightarrow> bool"
  job_d_obj :: "ptr \<Rightarrow> bool"

definition BPendingGroup_Init :: "'h BPendingGroup \<Rightarrow> 'h BPendingGroup" where
  "BPendingGroup_Init g =
     g\<lparr>pg_jobs := SLinkedList_Init (pg_jobs g), pending_ctr := 0, pg_d_obj := True\<rparr>"

definition BPendingGroup_Free :: "'h BPendingGroup \<Rightarrow> 'h BPendingGroup option" where
  "BPendingGroup_Free g = do {
     DebugCounter_Free (pending_ctr g);
     ASSERT (SLinkedList_IsEmpty (pg_jobs g));
     ASSERT (pg_d_obj g);
     Some (g\<lparr>pg_d_obj := False\<rparr>)
   }"

definition BPendingGroup_HasJobs :: "'h BPendingGroup \<Rightarrow> bool option" where
  "BPendingGroup_HasJobs g = do {
     ASSERT (pg_d_obj g);
     Some (\<not> SLinkedList_IsEmpty (pg_jobs g))
   }"

definition BPendingGroup_ExecuteJob :: "'h BPendingGroup \<Rightarrow> ('h \<times> 'h BPendingGroup) option" where
  "BPendingGroup_ExecuteJob g = do {
     ASSERT (\<not> SLinkedList_IsEmpty (pg_jobs g));
     ASSERT (pg_d_obj g);
     p \<leftarrow> SLinkedList_First (pg_jobs g);
     ASSERT (\<not> SLinkedListIsRemoved p (pg_jobs g));
     ASSERT (job_pending g p);
     l \<leftarrow> SLinkedList_RemoveFirst (pg_jobs g);
     let g' = g\<lparr>pg_jobs := SLinkedListMarkRemoved p l, job_pending := (job_pending g)(p := False)\<rparr>;
     Some (job_handler g' p, g')
   }"

definition BPendingGroup_PeekJob :: "'h BPendingGroup \<Rightarrow> ptr option option" where
  "BPendingGroup_PeekJob g = do {
     ASSERT (pg_d_obj g);
     Some (SLinkedList_First (pg_jobs g))
   }"

definition BSmallPending_Init :: "ptr \<Rightarrow> 'h \<Rightarrow> 'h BPendingGroup \<Rightarrow> 'h BPendingGroup option" where
  "BSmallPending_Init p handler g = do {
     c \<leftarrow> DebugCounter_Increment (pending_ctr g);
     Some (g\<lparr>job_handler := (job_handler g)(p := handler),
             pg_jobs := SLinkedListMarkRemoved p (pg_jobs g),
             job_pending := (job_pending g)(p := False),
             pending_ctr := c,
             job_d_obj := (job_d_obj g)(p := True)\<rparr>)
   }"

definition BSmallPending_Free :: "ptr \<Rightarrow> 'h BPendingGroup \<Rightarrow> 'h BPendingGroup option" where
  "BSmallPending_Free p g = do {
     c \<leftarrow> DebugCounter_Decrement (pending_ctr g);
     ASSERT (job_d_obj g p);
     let g = g\<lparr>pending_ctr := c, job_d_obj := (job_d_obj g)(p := False)\<rparr>;
     ASSERT (job_pending g p = (\<not> SLinkedListIsRemoved p (pg_jobs g)));
     if \<not> SLinkedListIsRemoved p (pg_jobs g) then do {
       l \<leftarrow> SLinkedList_Remove p (pg_jobs g);
       Some (g\<lparr>pg_jobs := l\<rparr>)
     } else Some g
   }"

definition BSmallPending_SetHandler :: "ptr \<Rightarrow> 'h \<Rightarrow> 'h BPendingGroup \<Rightarrow> 'h BPendingGroup option" where
  "BSmallPending_SetHandler p handler g = do {
     ASSERT (job_d_obj g p);
     Some (g\<lparr>job_handler := (job_handler g)(p := handler)\<rparr>)
   }"

definition BSmallPending_Set :: "ptr \<Rightarrow> 'h BPendingGroup \<Rightarrow> 'h BPendingGroup option" where
  "BSmallPending_Set p g = do {
     ASSERT (job_d_obj g p);
     ASSERT (job_pending g p = (\<not> SLinkedListIsRemoved p (pg_jobs g)));
     l \<leftarrow> (if \<not> SLinkedListIsRemoved p (pg_jobs g)
           then SLinkedList_Remove p (pg_jobs g) else Some (pg_jobs g));
     Some (g\<lparr>pg_jobs := SLinkedList_Prepend p l, job_pending := (job_pending g)(p := True)\<rparr>)
   }"

definition BSmallPending_Unset :: "ptr \<Rightarrow> 'h BPendingGroup \<Rightarrow> 'h BPendingGroup option" where
  "BSmallPending_Unset p g = do {
     ASSERT (job_d_obj g p);
     ASSERT (job_pending g p = (\<not> SLinkedListIsRemoved p (pg_jobs g)));
     if \<not> SLinkedListIsRemoved p (pg_jobs g) then do {
       l \<leftarrow> SLinkedList_Remove p (pg_jobs g);
       Some (g\<lparr>pg_jobs := SLinkedListMarkRemoved p l, job_pending := (job_pending g)(p := False)\<rparr>)
     } else Some g
   }"

definition BSmallPending_IsSet :: "ptr \<Rightarrow> 'h BPendingGroup \<Rightarrow> bool option" where
  "BSmallPending_IsSet p g = do {
     ASSERT (job_d_obj g p);
     ASSERT (job_pending g p = (\<not> SLinkedListIsRemoved p (pg_jobs g)));
     Some (\<not> SLinkedListIsRemoved p (pg_jobs g))
   }"

text \<open>
  \<open>BPending\<close> is \<open>BSmallPending\<close> with the group remembered in the object; there is one group
  per reactor, so its operations are those of the base object on that group.
\<close>

definition BPending_Init :: "ptr \<Rightarrow> 'h \<Rightarrow> 'h BPendingGroup \<Rightarrow> 'h BPendingGroup option" where
  "BPending_Init p handler g = BSmallPending_Init p handler g"

definition BPending_Free :: "ptr \<Rightarrow> 'h BPendingGroup \<Rightarrow> 'h BPendingGroup option" where
  "BPending_Free p g = BSmallPending_Free p g"

definition BPending_Set :: "ptr \<Rightarrow> 'h BPendingGroup \<Rightarrow> 'h BPendingGroup option" where
  "BPending_Set p g = BSmallPending_Set p g"

definition BPending_Unset :: "ptr \<Rightarrow> 'h BPendingGroup \<Rightarrow> 'h BPendingGroup option" where
  "BPending_Unset p g = BSmallPending_Unset p g"

definition BPending_IsSet :: "ptr \<Rightarrow> 'h BPendingGroup \<Rightarrow> bool option" where
  "BPending_IsSet p g = BSmallPending_IsSet p g"

section \<open>Invariant: the pointers hold a stack of jobs\<close>

text \<open>
  \<open>pending_models g js\<close>: the list structure is well-formed and holds the jobs \<open>js\<close>, top first;
  every job in it is alive; for every live job the self-pointing mark and the debug flag agree
  with membership; the leak counter counts the live jobs (until it saturates).
\<close>

definition pending_models :: "'h BPendingGroup \<Rightarrow> ptr list \<Rightarrow> bool" where
  "pending_models g js \<longleftrightarrow>
     pg_d_obj g \<and> slist_rel (pg_jobs g) js \<and> (\<forall>p \<in> set js. job_d_obj g p) \<and>
     (\<forall>p. job_d_obj g p \<longrightarrow>
        job_pending g p = (p \<in> set js) \<and> SLinkedListIsRemoved p (pg_jobs g) = (p \<notin> set js)) \<and>
     finite {p. job_d_obj g p} \<and> 0 \<le> pending_ctr g \<and>
     (pending_ctr g = int (card {p. job_d_obj g p}) \<or> pending_ctr g = INT32_MAX)"

lemma pending_modelsD:
  assumes "pending_models g js"
  shows "pg_d_obj g" "slist_rel (pg_jobs g) js" "distinct js"
    and "p \<in> set js \<Longrightarrow> job_d_obj g p"
    and "job_d_obj g p \<Longrightarrow> job_pending g p = (p \<in> set js)"
    and "job_d_obj g p \<Longrightarrow> SLinkedListIsRemoved p (pg_jobs g) = (p \<notin> set js)"
  using assms by (auto simp: pending_models_def slist_rel_def)

text \<open>Replacing the list structure by one for other jobs, with the marks and flags to match.\<close>

lemma pending_models_relist:
  assumes "pending_models g js" and "slist_rel l js'"
    and "\<And>p. p \<in> set js' \<Longrightarrow> job_d_obj g p"
    and "\<And>p. job_d_obj g p \<Longrightarrow> SLinkedListIsRemoved p l = (p \<notin> set js')"
    and "\<And>p. job_d_obj g p \<Longrightarrow> pend p = (p \<in> set js')"
  shows "pending_models (g\<lparr>pg_jobs := l, job_pending := pend\<rparr>) js'"
  using assms by (simp add: pending_models_def)

lemma BPendingGroup_Init_models:
  "(\<forall>p. \<not> job_d_obj g p) \<Longrightarrow> pending_models (BPendingGroup_Init g) []"
  by (simp add: pending_models_def BPendingGroup_Init_def slist_Init)

lemma removed_prepend:
  assumes "slist_rel l js" "p \<notin> set js"
    and "\<And>q. q \<in> set js \<Longrightarrow> \<not> SLinkedListIsRemoved q l"
  shows "SLinkedListIsRemoved q (SLinkedList_Prepend p l) \<longleftrightarrow>
    q \<noteq> p \<and> SLinkedListIsRemoved q l"
  using assms slist_rel_first [OF assms(1)]
  by (auto simp: SLinkedListIsRemoved_def SLinkedList_Prepend_def Let_def split: list.splits)

lemma slist_rel_not_removed:
  "slist_rel l js \<Longrightarrow> q \<in> set js \<Longrightarrow> \<not> SLinkedListIsRemoved q l"
  by (auto simp: SLinkedListIsRemoved_def dest: slist_rel_next_notin)

text \<open>Taking a set job out of the list: the marks of the other jobs keep their meaning.\<close>

lemma pending_remove:
  assumes m: "pending_models g js" and p: "p \<in> set js"
  obtains l where "SLinkedList_Remove p (pg_jobs g) = Some l" "slist_rel l (remove1 p js)"
    "\<And>q. job_d_obj g q \<Longrightarrow> q \<noteq> p \<Longrightarrow> SLinkedListIsRemoved q l = (q \<notin> set js)"
proof -
  from slist_Remove [OF pending_modelsD(2) [OF m] p] obtain l where
    l: "SLinkedList_Remove p (pg_jobs g) = Some l" "slist_rel l (remove1 p js)"
      "\<And>y. y \<notin> set js \<or> y = p \<Longrightarrow> sl_next l y = sl_next (pg_jobs g) y" by blast
  have "SLinkedListIsRemoved q l = (q \<notin> set js)" if q: "job_d_obj g q" "q \<noteq> p" for q
  proof (cases "q \<in> set js")
    case True
    then have "q \<in> set (remove1 p js)" using q(2) by simp
    with l(2) True show ?thesis by (auto dest: slist_rel_not_removed)
  next
    case False
    with l(3) [of q] pending_modelsD(6) [OF m q(1)] show ?thesis
      by (simp add: SLinkedListIsRemoved_def)
  qed
  with l show thesis by (intro that) auto
qed

lemma BPending_Set_models:
  assumes m: "pending_models g js" and v: "job_d_obj g p"
  shows "\<exists>g'. BPending_Set p g = Some g' \<and> pending_models g' (p # remove1 p js) \<and>
    job_d_obj g' = job_d_obj g \<and> job_handler g' = job_handler g \<and> pending_ctr g' = pending_ctr g"
proof -
  note d = pending_modelsD [OF m]
  obtain l where l: "(if \<not> SLinkedListIsRemoved p (pg_jobs g)
      then SLinkedList_Remove p (pg_jobs g) else Some (pg_jobs g)) = Some l"
    and rel: "slist_rel l (remove1 p js)"
    and rem: "\<And>q. job_d_obj g q \<Longrightarrow> q \<noteq> p \<Longrightarrow> SLinkedListIsRemoved q l = (q \<notin> set js)"
  proof (cases "p \<in> set js")
    case True
    from pending_remove [OF m True] that show thesis
      using d(6) [OF v] True by auto
  next
    case False
    with d(2,6) v that show thesis by (simp add: remove1_idem)
  qed
  have np: "p \<notin> set (remove1 p js)" using d(3) by simp
  have "pending_models (g\<lparr>pg_jobs := SLinkedList_Prepend p l, job_pending := (job_pending g)(p := True)\<rparr>)
    (p # remove1 p js)"
  proof (rule pending_models_relist [OF m])
    show "slist_rel (SLinkedList_Prepend p l) (p # remove1 p js)"
      by (rule slist_Prepend [OF rel np])
    show "\<And>q. q \<in> set (p # remove1 p js) \<Longrightarrow> job_d_obj g q"
      using v d(4) by (auto dest: set_remove1_subset [THEN subsetD])
    show "\<And>q. job_d_obj g q \<Longrightarrow> ((job_pending g)(p := True)) q = (q \<in> set (p # remove1 p js))"
      using d(5) by auto
    fix q assume q: "job_d_obj g q"
    show "SLinkedListIsRemoved q (SLinkedList_Prepend p l) = (q \<notin> set (p # remove1 p js))"
      using rem [OF q]
      by (cases "q = p") (simp_all add: removed_prepend [OF rel np slist_rel_not_removed [OF rel]])
  qed
  moreover have "job_pending g p = (\<not> SLinkedListIsRemoved p (pg_jobs g))"
    using d(5) [OF v] d(6) [OF v] by simp
  ultimately show ?thesis
    using v unfolding BPending_Set_def BSmallPending_Set_def l by simp
qed

lemma BPending_Unset_models:
  assumes m: "pending_models g js" and v: "job_d_obj g p"
  shows "\<exists>g'. BPending_Unset p g = Some g' \<and> pending_models g' (remove1 p js) \<and>
    job_d_obj g' = job_d_obj g \<and> job_handler g' = job_handler g \<and> pending_ctr g' = pending_ctr g"
proof (cases "p \<in> set js")
  case False
  with pending_modelsD [OF m] v m show ?thesis
    by (simp add: BPending_Unset_def BSmallPending_Unset_def remove1_idem)
next
  case True
  note d = pending_modelsD [OF m]
  from pending_remove [OF m True] obtain l where
    l: "SLinkedList_Remove p (pg_jobs g) = Some l" "slist_rel l (remove1 p js)"
      "\<And>q. job_d_obj g q \<Longrightarrow> q \<noteq> p \<Longrightarrow> SLinkedListIsRemoved q l = (q \<notin> set js)" by blast
  have np: "p \<notin> set (remove1 p js)" using d(3) by simp
  have "pending_models (g\<lparr>pg_jobs := SLinkedListMarkRemoved p l, job_pending := (job_pending g)(p := False)\<rparr>)
    (remove1 p js)"
  proof (rule pending_models_relist [OF m])
    show "slist_rel (SLinkedListMarkRemoved p l) (remove1 p js)"
      by (rule slist_MarkRemoved [OF l(2) np])
    show "\<And>q. q \<in> set (remove1 p js) \<Longrightarrow> job_d_obj g q"
      using d(4) by (auto dest: set_remove1_subset [THEN subsetD])
    show "\<And>q. job_d_obj g q \<Longrightarrow> SLinkedListIsRemoved q (SLinkedListMarkRemoved p l) = (q \<notin> set (remove1 p js))"
      using l(3) np by (auto simp: SLinkedListIsRemoved_def SLinkedListMarkRemoved_def)
    show "\<And>q. job_d_obj g q \<Longrightarrow> ((job_pending g)(p := False)) q = (q \<in> set (remove1 p js))"
      using d(5) np by auto
  qed
  with True l d v show ?thesis
    by (simp add: BPending_Unset_def BSmallPending_Unset_def)
qed

lemma BPendingGroup_ExecuteJob_models:
  assumes m: "pending_models g (p # js)"
  shows "\<exists>g'. BPendingGroup_ExecuteJob g = Some (job_handler g p, g') \<and> pending_models g' js \<and>
    job_d_obj g' = job_d_obj g \<and> job_handler g' = job_handler g \<and> pending_ctr g' = pending_ctr g"
proof -
  note d = pending_modelsD [OF m]
  have v: "job_d_obj g p" using d(4) by simp
  from slist_RemoveFirst [OF d(2)] obtain l where
    l: "SLinkedList_RemoveFirst (pg_jobs g) = Some l" "slist_rel l js" "sl_next l = sl_next (pg_jobs g)"
    by blast
  have np: "p \<notin> set js" using d(3) by simp
  have "pending_models (g\<lparr>pg_jobs := SLinkedListMarkRemoved p l, job_pending := (job_pending g)(p := False)\<rparr>) js"
  proof (rule pending_models_relist [OF m])
    show "slist_rel (SLinkedListMarkRemoved p l) js" by (rule slist_MarkRemoved [OF l(2) np])
    show "\<And>q. q \<in> set js \<Longrightarrow> job_d_obj g q" using d(4) by simp
    show "\<And>q. job_d_obj g q \<Longrightarrow> SLinkedListIsRemoved q (SLinkedListMarkRemoved p l) = (q \<notin> set js)"
      using d(6) l(3) np by (auto simp: SLinkedListIsRemoved_def SLinkedListMarkRemoved_def)
    show "\<And>q. job_d_obj g q \<Longrightarrow> ((job_pending g)(p := False)) q = (q \<in> set js)"
      using d(5) np by auto
  qed
  with l d v slist_First [OF d(2)] slist_IsEmpty [OF d(2)] show ?thesis
    by (simp add: BPendingGroup_ExecuteJob_def)
qed

lemma BPending_IsSet_models:
  "pending_models g js \<Longrightarrow> job_d_obj g p \<Longrightarrow> BPending_IsSet p g = Some (p \<in> set js)"
  using pending_modelsD(5,6) [of g js p]
  by (simp add: BPending_IsSet_def BSmallPending_IsSet_def)

lemma BPendingGroup_HasJobs_models:
  "pending_models g js \<Longrightarrow> BPendingGroup_HasJobs g = Some (js \<noteq> [])"
  using pending_modelsD(1,2) [of g js] slist_IsEmpty [of "pg_jobs g" js]
  by (simp add: BPendingGroup_HasJobs_def)

lemma BPendingGroup_PeekJob_models:
  "pending_models g js \<Longrightarrow> BPendingGroup_PeekJob g = Some (if js = [] then None else Some (hd js))"
  using pending_modelsD(1,2) [of g js] slist_First [of "pg_jobs g" js]
  by (simp add: BPendingGroup_PeekJob_def)

text \<open>Creating and destroying job objects.\<close>

lemma BPending_Init_models:
  assumes m: "pending_models g js" and v: "\<not> job_d_obj g p"
  shows "\<exists>g'. BPending_Init p h g = Some g' \<and> pending_models g' js \<and>
    job_d_obj g' = (job_d_obj g)(p := True) \<and> job_handler g' = (job_handler g)(p := h)"
proof -
  note d = pending_modelsD [OF m]
  have np: "p \<notin> set js" using d(4) v by blast
  have c: "0 \<le> pending_ctr g" "pending_ctr g = int (card {p. job_d_obj g p}) \<or> pending_ctr g = INT32_MAX"
    and f: "finite {p. job_d_obj g p}"
    using m by (auto simp: pending_models_def)
  have "finite (Collect ((job_d_obj g)(p := True)))"
    "card (Collect ((job_d_obj g)(p := True))) = Suc (card {p. job_d_obj g p})"
    using f v by (simp_all add: Collect_upd_True)
  with c slist_MarkRemoved [OF d(2) np] d np show ?thesis
    by (auto simp: BPending_Init_def BSmallPending_Init_def DebugCounter_Increment_def
        pending_models_def SLinkedListIsRemoved_def SLinkedListMarkRemoved_def)
qed

lemma BPending_Free_models:
  assumes m: "pending_models g js" and v: "job_d_obj g p"
  shows "\<exists>g'. BPending_Free p g = Some g' \<and> pending_models g' (remove1 p js) \<and>
    job_d_obj g' = (job_d_obj g)(p := False) \<and> job_handler g' = job_handler g"
proof -
  note d = pending_modelsD [OF m]
  have f: "finite {q. job_d_obj g q}"
    and c: "pending_ctr g = int (card {p. job_d_obj g p}) \<or> pending_ctr g = INT32_MAX"
    using m by (auto simp: pending_models_def)
  have pos: "card {q. job_d_obj g q} > 0" using f v by (auto simp: card_gt_0_iff)
  have eq: "{q. q \<noteq> p \<and> (q \<noteq> p \<longrightarrow> job_d_obj g q)} = {q. job_d_obj g q} - {p}"
    by auto
  have card: "int (card ({q. job_d_obj g q} - {p})) = int (card {q. job_d_obj g q}) - 1"
    using f v pos by (simp add: card_Diff_singleton of_nat_diff)
  have dc: "DebugCounter_Decrement (pending_ctr g) =
      Some (if pending_ctr g \<noteq> INT32_MAX then pending_ctr g - 1 else pending_ctr g)"
    using c pos by (auto simp: DebugCounter_Decrement_def INT32_MAX_def)
  obtain l where l: "(if p \<in> set js then SLinkedList_Remove p (pg_jobs g) else Some (pg_jobs g)) = Some l"
    and rel: "slist_rel l (remove1 p js)"
    and rem: "\<And>q. job_d_obj g q \<Longrightarrow> q \<noteq> p \<Longrightarrow> SLinkedListIsRemoved q l = (q \<notin> set js)"
  proof (cases "p \<in> set js")
    case True
    from pending_remove [OF m True] that True show thesis by auto
  next
    case False
    with d(2,6) that show thesis by (simp add: remove1_idem)
  qed
  let ?g = "g\<lparr>pending_ctr := (if pending_ctr g \<noteq> INT32_MAX then pending_ctr g - 1 else pending_ctr g),
    job_d_obj := (job_d_obj g)(p := False), pg_jobs := l\<rparr>"
  have "pending_models ?g (remove1 p js)"
    using rel rem d card c pos f by (auto simp: pending_models_def INT32_MAX_def eq)
  moreover have "BPending_Free p g = Some ?g"
    using l v d(5) [OF v] d(6) [OF v]
    by (auto simp: BPending_Free_def BSmallPending_Free_def dc split: if_splits)
  ultimately show ?thesis by simp
qed

section \<open>The interface: a stack of jobs\<close>

locale job_group =
  fixes models :: "'g \<Rightarrow> 'j list \<Rightarrow> bool"
    and live :: "'g \<Rightarrow> 'j \<Rightarrow> bool"
    and set_job :: "'j \<Rightarrow> 'g \<Rightarrow> 'g option"
    and unset_job :: "'j \<Rightarrow> 'g \<Rightarrow> 'g option"
    and is_set :: "'j \<Rightarrow> 'g \<Rightarrow> bool option"
    and handler :: "'g \<Rightarrow> 'j \<Rightarrow> 'h"
    and execute :: "'g \<Rightarrow> ('h \<times> 'g) option"
  assumes models_distinct: "models g js \<Longrightarrow> distinct js"
    and set_law: "models g js \<Longrightarrow> live g j \<Longrightarrow>
      \<exists>g'. set_job j g = Some g' \<and> models g' (j # remove1 j js) \<and> live g' = live g \<and> handler g' = handler g"
    and unset_law: "models g js \<Longrightarrow> live g j \<Longrightarrow>
      \<exists>g'. unset_job j g = Some g' \<and> models g' (remove1 j js) \<and> live g' = live g \<and> handler g' = handler g"
    and is_set_law: "models g js \<Longrightarrow> live g j \<Longrightarrow> is_set j g = Some (j \<in> set js)"
    and execute_law: "models g (j # js) \<Longrightarrow>
      \<exists>g'. execute g = Some (handler g j, g') \<and> models g' js \<and> live g' = live g \<and> handler g' = handler g"

text \<open>Setting several jobs, and executing several jobs whose handlers set none.\<close>

primrec set_jobs :: "('j \<Rightarrow> 'g \<Rightarrow> 'g option) \<Rightarrow> 'j list \<Rightarrow> 'g \<Rightarrow> 'g option" where
  "set_jobs set_job [] g = Some g"
| "set_jobs set_job (j # js) g = set_job j g \<bind> set_jobs set_job js"

primrec execute_jobs :: "('g \<Rightarrow> ('h \<times> 'g) option) \<Rightarrow> nat \<Rightarrow> 'g \<Rightarrow> ('h list \<times> 'g) option" where
  "execute_jobs execute 0 g = Some ([], g)"
| "execute_jobs execute (Suc n) g = do {
     (h, g1) \<leftarrow> execute g;
     (hs, g2) \<leftarrow> execute_jobs execute n g1;
     Some (h # hs, g2)
   }"

context job_group
begin

lemma set_jobs_models:
  assumes "models g js" and "distinct ks" and "\<forall>k \<in> set ks. live g k"
  shows "\<exists>g'. set_jobs set_job ks g = Some g' \<and>
    models g' (rev ks @ filter (\<lambda>j. j \<notin> set ks) js) \<and> live g' = live g \<and> handler g' = handler g"
  using assms
proof (induction ks arbitrary: g js)
  case Nil
  then show ?case by simp
next
  case (Cons k ks)
  then obtain g1 where g1: "set_job k g = Some g1" "models g1 (k # remove1 k js)"
    "live g1 = live g" "handler g1 = handler g"
    using set_law [of g js k] by auto
  have "filter (\<lambda>j. j \<notin> set ks) (k # remove1 k js) = k # filter (\<lambda>j. j \<notin> set (k # ks)) js"
    using Cons.prems(2) models_distinct [OF Cons.prems(1)]
    by (auto simp: distinct_remove1_removeAll removeAll_filter_not_eq intro!: filter_cong)
  with Cons.IH [OF g1(2)] Cons.prems g1 show ?case by auto
qed

lemma execute_jobs_models:
  assumes "models g (ks @ js)"
  shows "\<exists>g'. execute_jobs execute (length ks) g = Some (map (handler g) ks, g') \<and> models g' js"
  using assms
proof (induction ks arbitrary: g)
  case Nil
  then show ?case by simp
next
  case (Cons k ks)
  then obtain g1 where g1: "execute g = Some (handler g k, g1)" "models g1 (ks @ js)" "handler g1 = handler g"
    using execute_law [of g k "ks @ js"] by auto
  with Cons.IH [OF g1(2)] show ?case by auto
qed

text \<open>Jobs set one after the other run in the opposite order, before everything set earlier.\<close>

lemma lifo:
  assumes "models g js" and "distinct ks" and "\<forall>k \<in> set ks. live g k"
  shows "\<exists>g1 g2. set_jobs set_job ks g = Some g1 \<and>
    execute_jobs execute (length ks) g1 = Some (map (handler g) (rev ks), g2) \<and>
    models g2 (filter (\<lambda>j. j \<notin> set ks) js)"
  using set_jobs_models [OF assms] execute_jobs_models [of _ "rev ks"] by (metis length_rev)

end

interpretation bp: job_group pending_models job_d_obj BPending_Set BPending_Unset BPending_IsSet
  job_handler BPendingGroup_ExecuteJob
proof (unfold_locales, goal_cases)
  case (1 g js)
  then show ?case by (rule pending_modelsD)
next
  case (2 g js j)
  then show ?case using BPending_Set_models by blast
next
  case (3 g js j)
  then show ?case using BPending_Unset_models by blast
next
  case (4 g js j)
  then show ?case by (rule BPending_IsSet_models)
next
  case (5 g j js)
  then show ?case using BPendingGroup_ExecuteJob_models by blast
qed

end
