(* ===== verification/Flow_Interfaces.thy ===== *)
theory Flow_Interfaces
  imports Pending
begin

text \<open>
  The four asynchronous interfaces of \<open>flow/\<close>: \<open>PacketPassInterface\<close>, \<open>PacketRecvInterface\<close>,
  \<open>StreamPassInterface\<close> and \<open>StreamRecvInterface\<close> (the inline functions of the headers and the
  job handlers of the \<open>.c\<close> files).  A user requests an operation, a job starts it at the
  provider, the provider reports completion, a second job reports it to the user; the state
  field says where the interface is, the two (for packet passing three) jobs are in the job
  queue of theory \<open>Pending\<close>.  A job handler that calls the provider or the user returns the
  arguments of that call.

  Each interface has an invariant tying its state to the jobs that are set.  The interface
  \<open>async_interface\<close> collects what providers and users rely on; its main consequence is that
  the events of any execution go round in the fixed order request, start, finish, complete.
\<close>

datatype flow_job =
    PacketPassInterface_op ptr | PacketPassInterface_cancel ptr | PacketPassInterface_fin ptr
  | PacketRecvInterface_op ptr | PacketRecvInterface_fin ptr
  | StreamPassInterface_op ptr | StreamPassInterface_fin ptr
  | StreamRecvInterface_op ptr | StreamRecvInterface_fin ptr
  | UserJob ptr

datatype if_state = STATE_NONE | STATE_OPERATION_PENDING | STATE_BUSY | STATE_DONE_PENDING

type_synonym group = "flow_job BPendingGroup"

section \<open>Packet passing\<close>

text \<open>
  \<open>ppi_cancel_handler\<close> and \<open>ppi_done_handler\<close> say whether the function pointers
  \<open>handler_requestcancel\<close> and \<open>handler_done\<close> are set; a data pointer of type \<open>'d option\<close> is
  \<open>None\<close> for \<open>NULL\<close>.
\<close>

record 'd PacketPassInterface =
  ppi_mtu :: int
  ppi_cancel_handler :: bool
  ppi_done_handler :: bool
  ppi_job_operation :: ptr
  ppi_job_operation_data :: "'d option"
  ppi_job_operation_len :: int
  ppi_job_requestcancel :: ptr
  ppi_job_done :: ptr
  ppi_state :: if_state
  ppi_cancel_requested :: bool

definition PacketPassInterface_Init ::
  "ptr \<Rightarrow> int \<Rightarrow> 'd PacketPassInterface \<Rightarrow> group \<Rightarrow> ('d PacketPassInterface \<times> group) option" where
  "PacketPassInterface_Init self mtu i g = do {
     ASSERT (mtu \<ge> 0);
     let i = i\<lparr>ppi_mtu := mtu, ppi_cancel_handler := False, ppi_done_handler := False\<rparr>;
     g \<leftarrow> BPending_Init (ppi_job_operation i) (PacketPassInterface_op self) g;
     g \<leftarrow> BPending_Init (ppi_job_requestcancel i) (PacketPassInterface_cancel self) g;
     g \<leftarrow> BPending_Init (ppi_job_done i) (PacketPassInterface_fin self) g;
     Some (i\<lparr>ppi_state := STATE_NONE\<rparr>, g)
   }"

definition PacketPassInterface_Free :: "'d PacketPassInterface \<Rightarrow> group \<Rightarrow> group option" where
  "PacketPassInterface_Free i g = do {
     g \<leftarrow> BPending_Free (ppi_job_done i) g;
     g \<leftarrow> BPending_Free (ppi_job_requestcancel i) g;
     BPending_Free (ppi_job_operation i) g
   }"

definition PacketPassInterface_EnableCancel ::
  "'d PacketPassInterface \<Rightarrow> 'd PacketPassInterface option" where
  "PacketPassInterface_EnableCancel i = do {
     ASSERT (\<not> ppi_cancel_handler i);
     ASSERT (\<not> ppi_done_handler i);
     Some (i\<lparr>ppi_cancel_handler := True\<rparr>)
   }"

definition PacketPassInterface_Done ::
  "'d PacketPassInterface \<Rightarrow> group \<Rightarrow> ('d PacketPassInterface \<times> group) option" where
  "PacketPassInterface_Done i g = do {
     ASSERT (ppi_state i = STATE_BUSY);
     g \<leftarrow> BPending_Unset (ppi_job_requestcancel i) g;
     g \<leftarrow> BPending_Set (ppi_job_done i) g;
     Some (i\<lparr>ppi_state := STATE_DONE_PENDING\<rparr>, g)
   }"

definition PacketPassInterface_Sender_Init ::
  "'d PacketPassInterface \<Rightarrow> 'd PacketPassInterface option" where
  "PacketPassInterface_Sender_Init i = do {
     ASSERT (\<not> ppi_done_handler i);
     Some (i\<lparr>ppi_done_handler := True\<rparr>)
   }"

definition PacketPassInterface_Sender_Send ::
  "'d option \<Rightarrow> int \<Rightarrow> 'd PacketPassInterface \<Rightarrow> group \<Rightarrow> ('d PacketPassInterface \<times> group) option" where
  "PacketPassInterface_Sender_Send data data_len i g = do {
     ASSERT (data_len \<ge> 0);
     ASSERT (data_len \<le> ppi_mtu i);
     ASSERT (\<not> data_len > 0 \<or> data \<noteq> None);
     ASSERT (ppi_state i = STATE_NONE);
     ASSERT (ppi_done_handler i);
     let i = i\<lparr>ppi_job_operation_data := data, ppi_job_operation_len := data_len\<rparr>;
     g \<leftarrow> BPending_Set (ppi_job_operation i) g;
     Some (i\<lparr>ppi_state := STATE_OPERATION_PENDING, ppi_cancel_requested := False\<rparr>, g)
   }"

definition PacketPassInterface_Sender_RequestCancel ::
  "'d PacketPassInterface \<Rightarrow> group \<Rightarrow> ('d PacketPassInterface \<times> group) option" where
  "PacketPassInterface_Sender_RequestCancel i g = do {
     ASSERT (ppi_state i = STATE_OPERATION_PENDING \<or> ppi_state i = STATE_BUSY \<or>
             ppi_state i = STATE_DONE_PENDING);
     ASSERT (ppi_cancel_handler i);
     if ppi_cancel_requested i then Some (i, g)
     else do {
       let i = i\<lparr>ppi_cancel_requested := True\<rparr>;
       if ppi_state i = STATE_OPERATION_PENDING then do {
         g \<leftarrow> BPending_Unset (ppi_job_operation i) g;
         g \<leftarrow> BPending_Set (ppi_job_done i) g;
         Some (i\<lparr>ppi_state := STATE_DONE_PENDING\<rparr>, g)
       } else if ppi_state i = STATE_BUSY then do {
         g \<leftarrow> BPending_Set (ppi_job_requestcancel i) g;
         Some (i, g)
       } else Some (i, g)
     }
   }"

definition PacketPassInterface_HasCancel :: "'d PacketPassInterface \<Rightarrow> bool" where
  "PacketPassInterface_HasCancel i = ppi_cancel_handler i"

definition PacketPassInterface_job_operation ::
  "'d PacketPassInterface \<Rightarrow> (('d option \<times> int) \<times> 'd PacketPassInterface) option" where
  "PacketPassInterface_job_operation i = do {
     ASSERT (ppi_state i = STATE_OPERATION_PENDING);
     let i = i\<lparr>ppi_state := STATE_BUSY\<rparr>;
     Some ((ppi_job_operation_data i, ppi_job_operation_len i), i)
   }"

definition PacketPassInterface_job_requestcancel ::
  "'d PacketPassInterface \<Rightarrow> 'd PacketPassInterface option" where
  "PacketPassInterface_job_requestcancel i = do {
     ASSERT (ppi_state i = STATE_BUSY);
     ASSERT (ppi_cancel_requested i);
     ASSERT (ppi_cancel_handler i);
     Some i
   }"

definition PacketPassInterface_job_done ::
  "'d PacketPassInterface \<Rightarrow> (unit \<times> 'd PacketPassInterface) option" where
  "PacketPassInterface_job_done i = do {
     ASSERT (ppi_state i = STATE_DONE_PENDING);
     Some ((), i\<lparr>ppi_state := STATE_NONE\<rparr>)
   }"

section \<open>Packet receiving\<close>

record 'd PacketRecvInterface =
  pri_mtu :: int
  pri_done_handler :: bool
  pri_job_operation :: ptr
  pri_job_operation_data :: "'d option"
  pri_job_done :: ptr
  pri_job_done_len :: int
  pri_state :: if_state

definition PacketRecvInterface_Init ::
  "ptr \<Rightarrow> int \<Rightarrow> 'd PacketRecvInterface \<Rightarrow> group \<Rightarrow> ('d PacketRecvInterface \<times> group) option" where
  "PacketRecvInterface_Init self mtu i g = do {
     ASSERT (mtu \<ge> 0);
     let i = i\<lparr>pri_mtu := mtu, pri_done_handler := False\<rparr>;
     g \<leftarrow> BPending_Init (pri_job_operation i) (PacketRecvInterface_op self) g;
     g \<leftarrow> BPending_Init (pri_job_done i) (PacketRecvInterface_fin self) g;
     Some (i\<lparr>pri_state := STATE_NONE\<rparr>, g)
   }"

definition PacketRecvInterface_Free :: "'d PacketRecvInterface \<Rightarrow> group \<Rightarrow> group option" where
  "PacketRecvInterface_Free i g = do {
     g \<leftarrow> BPending_Free (pri_job_done i) g;
     BPending_Free (pri_job_operation i) g
   }"

definition PacketRecvInterface_Done ::
  "int \<Rightarrow> 'd PacketRecvInterface \<Rightarrow> group \<Rightarrow> ('d PacketRecvInterface \<times> group) option" where
  "PacketRecvInterface_Done data_len i g = do {
     ASSERT (data_len \<ge> 0);
     ASSERT (data_len \<le> pri_mtu i);
     ASSERT (pri_state i = STATE_BUSY);
     let i = i\<lparr>pri_job_done_len := data_len\<rparr>;
     g \<leftarrow> BPending_Set (pri_job_done i) g;
     Some (i\<lparr>pri_state := STATE_DONE_PENDING\<rparr>, g)
   }"

definition PacketRecvInterface_Receiver_Init ::
  "'d PacketRecvInterface \<Rightarrow> 'd PacketRecvInterface option" where
  "PacketRecvInterface_Receiver_Init i = do {
     ASSERT (\<not> pri_done_handler i);
     Some (i\<lparr>pri_done_handler := True\<rparr>)
   }"

definition PacketRecvInterface_Receiver_Recv ::
  "'d option \<Rightarrow> 'd PacketRecvInterface \<Rightarrow> group \<Rightarrow> ('d PacketRecvInterface \<times> group) option" where
  "PacketRecvInterface_Receiver_Recv data i g = do {
     ASSERT (\<not> pri_mtu i > 0 \<or> data \<noteq> None);
     ASSERT (pri_state i = STATE_NONE);
     ASSERT (pri_done_handler i);
     let i = i\<lparr>pri_job_operation_data := data\<rparr>;
     g \<leftarrow> BPending_Set (pri_job_operation i) g;
     Some (i\<lparr>pri_state := STATE_OPERATION_PENDING\<rparr>, g)
   }"

definition PacketRecvInterface_job_operation ::
  "'d PacketRecvInterface \<Rightarrow> ('d option \<times> 'd PacketRecvInterface) option" where
  "PacketRecvInterface_job_operation i = do {
     ASSERT (pri_state i = STATE_OPERATION_PENDING);
     let i = i\<lparr>pri_state := STATE_BUSY\<rparr>;
     Some (pri_job_operation_data i, i)
   }"

definition PacketRecvInterface_job_done ::
  "'d PacketRecvInterface \<Rightarrow> (int \<times> 'd PacketRecvInterface) option" where
  "PacketRecvInterface_job_done i = do {
     ASSERT (pri_state i = STATE_DONE_PENDING);
     let i = i\<lparr>pri_state := STATE_NONE\<rparr>;
     Some (pri_job_done_len i, i)
   }"

section \<open>Stream passing and receiving\<close>

text \<open>
  \<open>StreamPassInterface.h\<close> and \<open>StreamRecvInterface.h\<close> are the same code up to names, as their
  comments say; so are the models.
\<close>

record 'd StreamPassInterface =
  spi_done_handler :: bool
  spi_job_operation :: ptr
  spi_job_operation_data :: "'d option"
  spi_job_operation_len :: int
  spi_job_done :: ptr
  spi_job_done_len :: int
  spi_state :: if_state

definition StreamPassInterface_Init ::
  "ptr \<Rightarrow> 'd StreamPassInterface \<Rightarrow> group \<Rightarrow> ('d StreamPassInterface \<times> group) option" where
  "StreamPassInterface_Init self i g = do {
     let i = i\<lparr>spi_done_handler := False\<rparr>;
     g \<leftarrow> BPending_Init (spi_job_operation i) (StreamPassInterface_op self) g;
     g \<leftarrow> BPending_Init (spi_job_done i) (StreamPassInterface_fin self) g;
     Some (i\<lparr>spi_state := STATE_NONE\<rparr>, g)
   }"

definition StreamPassInterface_Free :: "'d StreamPassInterface \<Rightarrow> group \<Rightarrow> group option" where
  "StreamPassInterface_Free i g = do {
     g \<leftarrow> BPending_Free (spi_job_done i) g;
     BPending_Free (spi_job_operation i) g
   }"

definition StreamPassInterface_Done ::
  "int \<Rightarrow> 'd StreamPassInterface \<Rightarrow> group \<Rightarrow> ('d StreamPassInterface \<times> group) option" where
  "StreamPassInterface_Done data_len i g = do {
     ASSERT (spi_state i = STATE_BUSY);
     ASSERT (data_len > 0);
     ASSERT (data_len \<le> spi_job_operation_len i);
     let i = i\<lparr>spi_job_done_len := data_len\<rparr>;
     g \<leftarrow> BPending_Set (spi_job_done i) g;
     Some (i\<lparr>spi_state := STATE_DONE_PENDING\<rparr>, g)
   }"

definition StreamPassInterface_Sender_Init ::
  "'d StreamPassInterface \<Rightarrow> 'd StreamPassInterface option" where
  "StreamPassInterface_Sender_Init i = do {
     ASSERT (\<not> spi_done_handler i);
     Some (i\<lparr>spi_done_handler := True\<rparr>)
   }"

definition StreamPassInterface_Sender_Send ::
  "'d option \<Rightarrow> int \<Rightarrow> 'd StreamPassInterface \<Rightarrow> group \<Rightarrow> ('d StreamPassInterface \<times> group) option" where
  "StreamPassInterface_Sender_Send data data_len i g = do {
     ASSERT (data_len > 0);
     ASSERT (data \<noteq> None);
     ASSERT (spi_state i = STATE_NONE);
     ASSERT (spi_done_handler i);
     let i = i\<lparr>spi_job_operation_data := data, spi_job_operation_len := data_len\<rparr>;
     g \<leftarrow> BPending_Set (spi_job_operation i) g;
     Some (i\<lparr>spi_state := STATE_OPERATION_PENDING\<rparr>, g)
   }"

definition StreamPassInterface_job_operation ::
  "'d StreamPassInterface \<Rightarrow> (('d option \<times> int) \<times> 'd StreamPassInterface) option" where
  "StreamPassInterface_job_operation i = do {
     ASSERT (spi_state i = STATE_OPERATION_PENDING);
     let i = i\<lparr>spi_state := STATE_BUSY\<rparr>;
     Some ((spi_job_operation_data i, spi_job_operation_len i), i)
   }"

definition StreamPassInterface_job_done ::
  "'d StreamPassInterface \<Rightarrow> (int \<times> 'd StreamPassInterface) option" where
  "StreamPassInterface_job_done i = do {
     ASSERT (spi_state i = STATE_DONE_PENDING);
     let i = i\<lparr>spi_state := STATE_NONE\<rparr>;
     Some (spi_job_done_len i, i)
   }"

record 'd StreamRecvInterface =
  sri_done_handler :: bool
  sri_job_operation :: ptr
  sri_job_operation_data :: "'d option"
  sri_job_operation_len :: int
  sri_job_done :: ptr
  sri_job_done_len :: int
  sri_state :: if_state

definition StreamRecvInterface_Init ::
  "ptr \<Rightarrow> 'd StreamRecvInterface \<Rightarrow> group \<Rightarrow> ('d StreamRecvInterface \<times> group) option" where
  "StreamRecvInterface_Init self i g = do {
     let i = i\<lparr>sri_done_handler := False\<rparr>;
     g \<leftarrow> BPending_Init (sri_job_operation i) (StreamRecvInterface_op self) g;
     g \<leftarrow> BPending_Init (sri_job_done i) (StreamRecvInterface_fin self) g;
     Some (i\<lparr>sri_state := STATE_NONE\<rparr>, g)
   }"

definition StreamRecvInterface_Free :: "'d StreamRecvInterface \<Rightarrow> group \<Rightarrow> group option" where
  "StreamRecvInterface_Free i g = do {
     g \<leftarrow> BPending_Free (sri_job_done i) g;
     BPending_Free (sri_job_operation i) g
   }"

definition StreamRecvInterface_Done ::
  "int \<Rightarrow> 'd StreamRecvInterface \<Rightarrow> group \<Rightarrow> ('d StreamRecvInterface \<times> group) option" where
  "StreamRecvInterface_Done data_len i g = do {
     ASSERT (sri_state i = STATE_BUSY);
     ASSERT (data_len > 0);
     ASSERT (data_len \<le> sri_job_operation_len i);
     let i = i\<lparr>sri_job_done_len := data_len\<rparr>;
     g \<leftarrow> BPending_Set (sri_job_done i) g;
     Some (i\<lparr>sri_state := STATE_DONE_PENDING\<rparr>, g)
   }"

definition StreamRecvInterface_Receiver_Init ::
  "'d StreamRecvInterface \<Rightarrow> 'd StreamRecvInterface option" where
  "StreamRecvInterface_Receiver_Init i = do {
     ASSERT (\<not> sri_done_handler i);
     Some (i\<lparr>sri_done_handler := True\<rparr>)
   }"

definition StreamRecvInterface_Receiver_Recv ::
  "'d option \<Rightarrow> int \<Rightarrow> 'd StreamRecvInterface \<Rightarrow> group \<Rightarrow> ('d StreamRecvInterface \<times> group) option" where
  "StreamRecvInterface_Receiver_Recv data data_len i g = do {
     ASSERT (data_len > 0);
     ASSERT (data \<noteq> None);
     ASSERT (sri_state i = STATE_NONE);
     ASSERT (sri_done_handler i);
     let i = i\<lparr>sri_job_operation_data := data, sri_job_operation_len := data_len\<rparr>;
     g \<leftarrow> BPending_Set (sri_job_operation i) g;
     Some (i\<lparr>sri_state := STATE_OPERATION_PENDING\<rparr>, g)
   }"

definition StreamRecvInterface_job_operation ::
  "'d StreamRecvInterface \<Rightarrow> (('d option \<times> int) \<times> 'd StreamRecvInterface) option" where
  "StreamRecvInterface_job_operation i = do {
     ASSERT (sri_state i = STATE_OPERATION_PENDING);
     let i = i\<lparr>sri_state := STATE_BUSY\<rparr>;
     Some ((sri_job_operation_data i, sri_job_operation_len i), i)
   }"

definition StreamRecvInterface_job_done ::
  "'d StreamRecvInterface \<Rightarrow> (int \<times> 'd StreamRecvInterface) option" where
  "StreamRecvInterface_job_done i = do {
     ASSERT (sri_state i = STATE_DONE_PENDING);
     let i = i\<lparr>sri_state := STATE_NONE\<rparr>;
     Some (sri_job_done_len i, i)
   }"

lemmas ppi_defs = PacketPassInterface_Done_def PacketPassInterface_Sender_Send_def
  PacketPassInterface_job_operation_def PacketPassInterface_job_done_def
lemmas pri_defs = PacketRecvInterface_Done_def PacketRecvInterface_Receiver_Recv_def
  PacketRecvInterface_job_operation_def PacketRecvInterface_job_done_def
lemmas spi_defs = StreamPassInterface_Done_def StreamPassInterface_Sender_Send_def
  StreamPassInterface_job_operation_def StreamPassInterface_job_done_def
lemmas sri_defs = StreamRecvInterface_Done_def StreamRecvInterface_Receiver_Recv_def
  StreamRecvInterface_job_operation_def StreamRecvInterface_job_done_def

section \<open>The common contract\<close>

text \<open>
  One turn of an interface is four events.  \<open>Start\<close> and \<open>Complete\<close> are the two jobs: the
  reactor pops the top job of the group and runs its handler.
\<close>

datatype ('r, 'd) if_event = Request 'r | Start | Finish 'd | Complete

primrec if_step ::
  "('r \<Rightarrow> 'i \<Rightarrow> group \<Rightarrow> ('i \<times> group) option) \<Rightarrow> ('i \<Rightarrow> ('c \<times> 'i) option) \<Rightarrow>
   ('d \<Rightarrow> 'i \<Rightarrow> group \<Rightarrow> ('i \<times> group) option) \<Rightarrow> ('i \<Rightarrow> ('e \<times> 'i) option) \<Rightarrow>
   ('r, 'd) if_event \<Rightarrow> 'i \<times> group \<Rightarrow> ('i \<times> group) option" where
  "if_step request start finish complete (Request r) s = request r (fst s) (snd s)"
| "if_step request start finish complete Start s = do {
     (h, g) \<leftarrow> BPendingGroup_ExecuteJob (snd s);
     (c, i) \<leftarrow> start (fst s);
     Some (i, g)
   }"
| "if_step request start finish complete (Finish d) s = finish d (fst s) (snd s)"
| "if_step request start finish complete Complete s = do {
     (h, g) \<leftarrow> BPendingGroup_ExecuteJob (snd s);
     (e, i) \<leftarrow> complete (fst s);
     Some (i, g)
   }"

primrec if_run ::
  "('r \<Rightarrow> 'i \<Rightarrow> group \<Rightarrow> ('i \<times> group) option) \<Rightarrow> ('i \<Rightarrow> ('c \<times> 'i) option) \<Rightarrow>
   ('d \<Rightarrow> 'i \<Rightarrow> group \<Rightarrow> ('i \<times> group) option) \<Rightarrow> ('i \<Rightarrow> ('e \<times> 'i) option) \<Rightarrow>
   ('r, 'd) if_event list \<Rightarrow> 'i \<times> group \<Rightarrow> ('i \<times> group) option" where
  "if_run request start finish complete [] s = Some s"
| "if_run request start finish complete (e # es) s =
     if_step request start finish complete e s \<bind> if_run request start finish complete es"

primrec ev_index :: "('r, 'd) if_event \<Rightarrow> nat" where
  "ev_index (Request r) = 0"
| "ev_index Start = 1"
| "ev_index (Finish d) = 2"
| "ev_index Complete = 3"

primrec st_index :: "if_state \<Rightarrow> nat" where
  "st_index STATE_NONE = 0"
| "st_index STATE_OPERATION_PENDING = 1"
| "st_index STATE_BUSY = 2"
| "st_index STATE_DONE_PENDING = 3"

locale async_interface =
  fixes inv :: "'i \<Rightarrow> (ptr \<Rightarrow> bool) \<Rightarrow> ptr list \<Rightarrow> bool"
    and st :: "'i \<Rightarrow> if_state"
    and job_op :: "'i \<Rightarrow> ptr"
    and job_fin :: "'i \<Rightarrow> ptr"
    and req_ok :: "'r \<Rightarrow> 'i \<Rightarrow> bool"
    and fin_ok :: "'d \<Rightarrow> 'i \<Rightarrow> bool"
    and request :: "'r \<Rightarrow> 'i \<Rightarrow> group \<Rightarrow> ('i \<times> group) option"
    and start :: "'i \<Rightarrow> ('c \<times> 'i) option"
    and finish :: "'d \<Rightarrow> 'i \<Rightarrow> group \<Rightarrow> ('i \<times> group) option"
    and complete :: "'i \<Rightarrow> ('e \<times> 'i) option"
  assumes request_order: "request r i g = Some (i', g') \<Longrightarrow>
      st i = STATE_NONE \<and> st i' = STATE_OPERATION_PENDING"
    and start_order: "start i = Some (c, i') \<Longrightarrow>
      st i = STATE_OPERATION_PENDING \<and> st i' = STATE_BUSY"
    and finish_order: "finish d i g = Some (i', g') \<Longrightarrow>
      st i = STATE_BUSY \<and> st i' = STATE_DONE_PENDING"
    and complete_order: "complete i = Some (e, i') \<Longrightarrow>
      st i = STATE_DONE_PENDING \<and> st i' = STATE_NONE"
    and request_law: "inv i (job_d_obj g) js \<Longrightarrow> pending_models g js \<Longrightarrow> st i = STATE_NONE \<Longrightarrow>
      req_ok r i \<Longrightarrow>
      \<exists>i' g'. request r i g = Some (i', g') \<and> job_op i' = job_op i \<and> job_fin i' = job_fin i \<and>
        pending_models g' (job_op i # js) \<and> job_d_obj g' = job_d_obj g \<and> job_handler g' = job_handler g \<and>
        inv i' (job_d_obj g) (job_op i # js)"
    and start_law: "inv i lv (job_op i # js) \<Longrightarrow> job_op i \<notin> set js \<Longrightarrow>
      \<exists>c i'. start i = Some (c, i') \<and> job_op i' = job_op i \<and> job_fin i' = job_fin i \<and> inv i' lv js"
    and finish_law: "inv i (job_d_obj g) js \<Longrightarrow> pending_models g js \<Longrightarrow> st i = STATE_BUSY \<Longrightarrow>
      fin_ok d i \<Longrightarrow>
      \<exists>i' g' js'. finish d i g = Some (i', g') \<and> job_op i' = job_op i \<and> job_fin i' = job_fin i \<and>
        pending_models g' (job_fin i # js') \<and> job_d_obj g' = job_d_obj g \<and> job_handler g' = job_handler g \<and>
        inv i' (job_d_obj g) (job_fin i # js')"
    and complete_law: "inv i lv (job_fin i # js) \<Longrightarrow> job_fin i \<notin> set js \<Longrightarrow>
      \<exists>e i'. complete i = Some (e, i') \<and> job_op i' = job_op i \<and> job_fin i' = job_fin i \<and> inv i' lv js"
begin

lemma step_order:
  assumes "if_step request start finish complete e s = Some s'"
  shows "ev_index e = st_index (st (fst s)) \<and> st_index (st (fst s')) = Suc (ev_index e) mod 4"
  using assms
  by (cases e; cases s; cases s')
    (auto dest!: request_order start_order finish_order complete_order
      split: Option.bind_splits)

text \<open>The events of an execution go round in the order request, start, finish, complete.\<close>

lemma run_order:
  assumes "if_run request start finish complete es s = Some s'" and "k < length es"
  shows "ev_index (es ! k) = (st_index (st (fst s)) + k) mod 4"
  using assms
proof (induction es arbitrary: s k)
  case Nil
  then show ?case by simp
next
  case (Cons e es)
  then obtain s1 where s1: "if_step request start finish complete e s = Some s1"
    "if_run request start finish complete es s1 = Some s'"
    by (auto split: Option.bind_splits)
  note o = step_order [OF s1(1)]
  have "st_index (st (fst s)) < 4" by (cases "st (fst s)") simp_all
  then show ?case
  proof (cases k)
    case 0
    with o \<open>st_index (st (fst s)) < 4\<close> show ?thesis by simp
  next
    case (Suc m)
    with Cons.IH [OF s1(2), of m] Cons.prems(2) o show ?thesis
      by (simp add: mod_add_left_eq [of "Suc _" 4, symmetric] mod_simps)
  qed
qed

text \<open>
  A turn can always be completed: a legal request is accepted, both jobs run without a failed
  assertion when they reach the top of the queue, and the interface is idle again.
\<close>

lemma turn_request_start:
  assumes i: "inv i (job_d_obj g) js" "pending_models g js" "st i = STATE_NONE" "req_ok r i"
  shows "\<exists>i' g'. if_run request start finish complete [Request r, Start] (i, g) = Some (i', g') \<and>
    st i' = STATE_BUSY \<and> inv i' (job_d_obj g') js \<and> pending_models g' js \<and> job_d_obj g' = job_d_obj g"
proof -
  from request_law [OF i] obtain i1 g1 where r: "request r i g = Some (i1, g1)"
    "job_op i1 = job_op i" "pending_models g1 (job_op i # js)" "job_d_obj g1 = job_d_obj g"
    "inv i1 (job_d_obj g) (job_op i # js)" by blast
  from bp.models_distinct [OF r(3)] have nj: "job_op i1 \<notin> set js" using r(2) by simp
  from start_law [of i1 "job_d_obj g" js] r(2,5) nj obtain c i2 where
    s: "start i1 = Some (c, i2)" "inv i2 (job_d_obj g) js" by auto
  from bp.execute_law [OF r(3)] obtain g2 where
    e: "BPendingGroup_ExecuteJob g1 = Some (job_handler g1 (job_op i), g2)" "pending_models g2 js"
      "job_d_obj g2 = job_d_obj g1" by blast
  show ?thesis
    using r s e start_order [OF s(1)] by auto
qed

lemma turn_finish_complete:
  assumes i: "inv i (job_d_obj g) js" "pending_models g js" "st i = STATE_BUSY" "fin_ok d i"
  shows "\<exists>i' g' js'. if_run request start finish complete [Finish d, Complete] (i, g) = Some (i', g') \<and>
    st i' = STATE_NONE \<and> inv i' (job_d_obj g') js' \<and> pending_models g' js' \<and> job_d_obj g' = job_d_obj g"
proof -
  from finish_law [OF i] obtain i1 g1 js' where r: "finish d i g = Some (i1, g1)"
    "job_fin i1 = job_fin i" "pending_models g1 (job_fin i # js')" "job_d_obj g1 = job_d_obj g"
    "inv i1 (job_d_obj g) (job_fin i # js')" by blast
  from bp.models_distinct [OF r(3)] have nj: "job_fin i1 \<notin> set js'" using r(2) by simp
  from complete_law [of i1 "job_d_obj g" js'] r(2,5) nj obtain c i2 where
    s: "complete i1 = Some (c, i2)" "inv i2 (job_d_obj g) js'" by auto
  from bp.execute_law [OF r(3)] obtain g2 where
    e: "BPendingGroup_ExecuteJob g1 = Some (job_handler g1 (job_fin i), g2)" "pending_models g2 js'"
      "job_d_obj g2 = job_d_obj g1" by blast
  show ?thesis
    using r s e complete_order [OF s(1)] by auto
qed

end

section \<open>The interfaces meet the contract\<close>

text \<open>
  A job is set exactly in the state that waits for it; while an operation is in progress the
  recorded length is legal and the user's completion handler is set.
\<close>

definition ppi_inv :: "'d PacketPassInterface \<Rightarrow> (ptr \<Rightarrow> bool) \<Rightarrow> ptr list \<Rightarrow> bool" where
  "ppi_inv i lv js \<longleftrightarrow>
     distinct [ppi_job_operation i, ppi_job_requestcancel i, ppi_job_done i] \<and>
     lv (ppi_job_operation i) \<and> lv (ppi_job_requestcancel i) \<and> lv (ppi_job_done i) \<and>
     (ppi_job_operation i \<in> set js \<longleftrightarrow> ppi_state i = STATE_OPERATION_PENDING) \<and>
     (ppi_job_done i \<in> set js \<longleftrightarrow> ppi_state i = STATE_DONE_PENDING) \<and>
     (ppi_job_requestcancel i \<in> set js \<longrightarrow>
        ppi_state i = STATE_BUSY \<and> ppi_cancel_requested i \<and> ppi_cancel_handler i) \<and>
     (ppi_state i \<noteq> STATE_NONE \<longrightarrow>
        ppi_done_handler i \<and> 0 \<le> ppi_job_operation_len i \<and> ppi_job_operation_len i \<le> ppi_mtu i)"

definition pri_inv :: "'d PacketRecvInterface \<Rightarrow> (ptr \<Rightarrow> bool) \<Rightarrow> ptr list \<Rightarrow> bool" where
  "pri_inv i lv js \<longleftrightarrow>
     pri_job_operation i \<noteq> pri_job_done i \<and> lv (pri_job_operation i) \<and> lv (pri_job_done i) \<and>
     (pri_job_operation i \<in> set js \<longleftrightarrow> pri_state i = STATE_OPERATION_PENDING) \<and>
     (pri_job_done i \<in> set js \<longleftrightarrow> pri_state i = STATE_DONE_PENDING) \<and>
     (pri_state i \<noteq> STATE_NONE \<longrightarrow> pri_done_handler i) \<and>
     (pri_state i = STATE_DONE_PENDING \<longrightarrow> 0 \<le> pri_job_done_len i \<and> pri_job_done_len i \<le> pri_mtu i)"

definition spi_inv :: "'d StreamPassInterface \<Rightarrow> (ptr \<Rightarrow> bool) \<Rightarrow> ptr list \<Rightarrow> bool" where
  "spi_inv i lv js \<longleftrightarrow>
     spi_job_operation i \<noteq> spi_job_done i \<and> lv (spi_job_operation i) \<and> lv (spi_job_done i) \<and>
     (spi_job_operation i \<in> set js \<longleftrightarrow> spi_state i = STATE_OPERATION_PENDING) \<and>
     (spi_job_done i \<in> set js \<longleftrightarrow> spi_state i = STATE_DONE_PENDING) \<and>
     (spi_state i \<noteq> STATE_NONE \<longrightarrow> spi_done_handler i \<and> 0 < spi_job_operation_len i) \<and>
     (spi_state i = STATE_DONE_PENDING \<longrightarrow>
        0 < spi_job_done_len i \<and> spi_job_done_len i \<le> spi_job_operation_len i)"

definition sri_inv :: "'d StreamRecvInterface \<Rightarrow> (ptr \<Rightarrow> bool) \<Rightarrow> ptr list \<Rightarrow> bool" where
  "sri_inv i lv js \<longleftrightarrow>
     sri_job_operation i \<noteq> sri_job_done i \<and> lv (sri_job_operation i) \<and> lv (sri_job_done i) \<and>
     (sri_job_operation i \<in> set js \<longleftrightarrow> sri_state i = STATE_OPERATION_PENDING) \<and>
     (sri_job_done i \<in> set js \<longleftrightarrow> sri_state i = STATE_DONE_PENDING) \<and>
     (sri_state i \<noteq> STATE_NONE \<longrightarrow> sri_done_handler i \<and> 0 < sri_job_operation_len i) \<and>
     (sri_state i = STATE_DONE_PENDING \<longrightarrow>
        0 < sri_job_done_len i \<and> sri_job_done_len i \<le> sri_job_operation_len i)"

text \<open>What callers must respect: the assertions on arguments in the request and done functions.\<close>

definition ppi_req_ok :: "'d option \<times> int \<Rightarrow> 'd PacketPassInterface \<Rightarrow> bool" where
  "ppi_req_ok r i \<longleftrightarrow> 0 \<le> snd r \<and> snd r \<le> ppi_mtu i \<and> (0 < snd r \<longrightarrow> fst r \<noteq> None) \<and> ppi_done_handler i"

definition pri_req_ok :: "'d option \<Rightarrow> 'd PacketRecvInterface \<Rightarrow> bool" where
  "pri_req_ok r i \<longleftrightarrow> (0 < pri_mtu i \<longrightarrow> r \<noteq> None) \<and> pri_done_handler i"

definition spi_req_ok :: "'d option \<times> int \<Rightarrow> 'd StreamPassInterface \<Rightarrow> bool" where
  "spi_req_ok r i \<longleftrightarrow> 0 < snd r \<and> fst r \<noteq> None \<and> spi_done_handler i"

definition sri_req_ok :: "'d option \<times> int \<Rightarrow> 'd StreamRecvInterface \<Rightarrow> bool" where
  "sri_req_ok r i \<longleftrightarrow> 0 < snd r \<and> fst r \<noteq> None \<and> sri_done_handler i"

lemmas if_inv_defs = ppi_inv_def pri_inv_def spi_inv_def sri_inv_def
lemmas if_ok_defs = ppi_req_ok_def pri_req_ok_def spi_req_ok_def sri_req_ok_def

text \<open>Setting a job that is not set pushes it.\<close>

lemma BPending_Set_push:
  "pending_models g js \<Longrightarrow> job_d_obj g p \<Longrightarrow> p \<notin> set js \<Longrightarrow>
   \<exists>g'. BPending_Set p g = Some g' \<and> pending_models g' (p # js) \<and> job_d_obj g' = job_d_obj g \<and>
     job_handler g' = job_handler g"
  using bp.set_law [of g js p] by (simp add: remove1_idem)

interpretation pri: async_interface pri_inv pri_state pri_job_operation pri_job_done pri_req_ok
  "\<lambda>d i. 0 \<le> d \<and> d \<le> pri_mtu i" PacketRecvInterface_Receiver_Recv
  PacketRecvInterface_job_operation PacketRecvInterface_Done PacketRecvInterface_job_done
proof (unfold_locales, goal_cases)
  case (5 i g js r)
  then show ?case
    using BPending_Set_push [of g js "pri_job_operation i"]
    by (auto simp: pri_defs pri_inv_def pri_req_ok_def)
next
  case (7 i g js d)
  then show ?case
    using BPending_Set_push [of g js "pri_job_done i"]
    by (auto simp: pri_defs pri_inv_def)
qed (auto simp: pri_defs pri_inv_def split: Option.bind_splits)

interpretation spi: async_interface spi_inv spi_state spi_job_operation spi_job_done spi_req_ok
  "\<lambda>d i. 0 < d \<and> d \<le> spi_job_operation_len i" "\<lambda>r. StreamPassInterface_Sender_Send (fst r) (snd r)"
  StreamPassInterface_job_operation StreamPassInterface_Done StreamPassInterface_job_done
proof (unfold_locales, goal_cases)
  case (5 i g js r)
  then show ?case
    using BPending_Set_push [of g js "spi_job_operation i"]
    by (auto simp: spi_defs spi_inv_def spi_req_ok_def)
next
  case (7 i g js d)
  then show ?case
    using BPending_Set_push [of g js "spi_job_done i"]
    by (auto simp: spi_defs spi_inv_def)
qed (auto simp: spi_defs spi_inv_def split: Option.bind_splits)

interpretation sri: async_interface sri_inv sri_state sri_job_operation sri_job_done sri_req_ok
  "\<lambda>d i. 0 < d \<and> d \<le> sri_job_operation_len i" "\<lambda>r. StreamRecvInterface_Receiver_Recv (fst r) (snd r)"
  StreamRecvInterface_job_operation StreamRecvInterface_Done StreamRecvInterface_job_done
proof (unfold_locales, goal_cases)
  case (5 i g js r)
  then show ?case
    using BPending_Set_push [of g js "sri_job_operation i"]
    by (auto simp: sri_defs sri_inv_def sri_req_ok_def)
next
  case (7 i g js d)
  then show ?case
    using BPending_Set_push [of g js "sri_job_done i"]
    by (auto simp: sri_defs sri_inv_def)
qed (auto simp: sri_defs sri_inv_def split: Option.bind_splits)

lemma PacketPassInterface_Done_models:
  assumes i: "ppi_inv i (job_d_obj g) js" "pending_models g js" "ppi_state i = STATE_BUSY"
  shows "\<exists>g'. PacketPassInterface_Done i g = Some (i\<lparr>ppi_state := STATE_DONE_PENDING\<rparr>, g') \<and>
    pending_models g' (ppi_job_done i # remove1 (ppi_job_requestcancel i) js) \<and>
    job_d_obj g' = job_d_obj g \<and> job_handler g' = job_handler g \<and>
    ppi_inv (i\<lparr>ppi_state := STATE_DONE_PENDING\<rparr>) (job_d_obj g)
      (ppi_job_done i # remove1 (ppi_job_requestcancel i) js)"
proof -
  have lv: "job_d_obj g (ppi_job_requestcancel i)" "job_d_obj g (ppi_job_done i)"
    "ppi_job_done i \<notin> set js"
    using i by (auto simp: ppi_inv_def)
  from bp.unset_law [OF i(2) lv(1)] obtain g1 where
    g1: "BPending_Unset (ppi_job_requestcancel i) g = Some g1"
      "pending_models g1 (remove1 (ppi_job_requestcancel i) js)" "job_d_obj g1 = job_d_obj g"
      "job_handler g1 = job_handler g"
    by blast
  have "ppi_job_done i \<notin> set (remove1 (ppi_job_requestcancel i) js)"
    using lv(3) by (auto dest: set_remove1_subset [THEN subsetD])
  from BPending_Set_push [OF g1(2) _ this] lv g1 obtain g2 where
    "BPending_Set (ppi_job_done i) g1 = Some g2"
      "pending_models g2 (ppi_job_done i # remove1 (ppi_job_requestcancel i) js)"
      "job_d_obj g2 = job_d_obj g1" "job_handler g2 = job_handler g1"
    by auto
  with g1 i pending_modelsD(3) [OF i(2)] show ?thesis
    by (auto simp: PacketPassInterface_Done_def ppi_inv_def)
qed

interpretation ppi: async_interface ppi_inv ppi_state ppi_job_operation ppi_job_done ppi_req_ok
  "\<lambda>(d :: unit) i. True" "\<lambda>r. PacketPassInterface_Sender_Send (fst r) (snd r)"
  PacketPassInterface_job_operation "\<lambda>d. PacketPassInterface_Done" PacketPassInterface_job_done
proof (unfold_locales, goal_cases)
  case (5 i g js r)
  then show ?case
    using BPending_Set_push [of g js "ppi_job_operation i"]
    by (auto simp: ppi_defs ppi_inv_def ppi_req_ok_def)
next
  case (7 i g js d)
  then show ?case
    using PacketPassInterface_Done_models [of i g js] by fastforce
qed (auto simp: ppi_defs ppi_inv_def split: Option.bind_splits)

text \<open>An interface is usable once its provider has initialised it and its user has set the handler.\<close>

lemma PacketPassInterface_Init_inv:
  assumes "pending_models g js" and "0 \<le> mtu"
    and "distinct [ppi_job_operation i, ppi_job_requestcancel i, ppi_job_done i]"
    and "\<not> job_d_obj g (ppi_job_operation i)" "\<not> job_d_obj g (ppi_job_requestcancel i)" "\<not> job_d_obj g (ppi_job_done i)"
  shows "\<exists>i1 g1 i2. PacketPassInterface_Init self mtu i g = Some (i1, g1) \<and> PacketPassInterface_Sender_Init i1 = Some i2 \<and>
    pending_models g1 js \<and> ppi_inv i2 (job_d_obj g1) js \<and> ppi_state i2 = STATE_NONE \<and> ppi_mtu i2 = mtu \<and> ppi_done_handler i2"
proof -
  have no: "ppi_job_operation i \<notin> set js" "ppi_job_requestcancel i \<notin> set js" "ppi_job_done i \<notin> set js"
    using pending_modelsD(4) [OF assms(1)] assms(4-6) by blast+
  from BPending_Init_models [OF assms(1,4)] obtain g1 where
    g1: "BPending_Init (ppi_job_operation i) (PacketPassInterface_op self) g = Some g1" "pending_models g1 js"
      "job_d_obj g1 = (job_d_obj g)(ppi_job_operation i := True)" by blast
  have "\<not> job_d_obj g1 (ppi_job_requestcancel i)" using g1(3) assms(3,5) by simp
  from BPending_Init_models [OF g1(2) this] obtain g2 where
    g2: "BPending_Init (ppi_job_requestcancel i) (PacketPassInterface_cancel self) g1 = Some g2" "pending_models g2 js"
      "job_d_obj g2 = (job_d_obj g1)(ppi_job_requestcancel i := True)" by blast
  have "\<not> job_d_obj g2 (ppi_job_done i)" using g1(3) g2(3) assms(3,6) by simp
  from BPending_Init_models [OF g2(2) this] obtain g3 where
    g3: "BPending_Init (ppi_job_done i) (PacketPassInterface_fin self) g2 = Some g3" "pending_models g3 js"
      "job_d_obj g3 = (job_d_obj g2)(ppi_job_done i := True)" by blast
  then show ?thesis using g1 g2 g3 no assms(2,3)
    by (simp add: PacketPassInterface_Init_def PacketPassInterface_Sender_Init_def ppi_inv_def)
qed

end
