(* ===== verification/Event_Machine.thy ===== *)
theory Event_Machine
  imports Flow_Prelude
begin

text \<open>
  Components in their environment.  A component's neighbours produce events (data arrives, an
  operation completes, a timer expires); \<open>step\<close> handles one event and \<open>legal\<close> says when the
  neighbours may produce it.  \<open>run_events\<close> executes a sequence of events and is \<open>None\<close> when an
  event is not legal or its handler fails (a failed assertion, a bad memory access).

  A component discharges \<open>event_machine\<close> with one proof per handler: from a state of its
  invariant, a legal event is handled without failure and re-establishes the invariant.  The
  locale gives the two facts every component needs: the invariant holds after every run, and a run
  can only stop at an event the neighbours must not produce.
\<close>

primrec run_events ::
  "('e \<Rightarrow> 'c \<Rightarrow> 'c option) \<Rightarrow> ('e \<Rightarrow> 'c \<Rightarrow> bool) \<Rightarrow> 'e list \<Rightarrow> 'c \<Rightarrow> 'c option" where
  "run_events step legal [] c = Some c"
| "run_events step legal (e # es) c = do {
     ASSERT (legal e c);
     c' \<leftarrow> step e c;
     run_events step legal es c'
   }"

lemma run_events_append:
  "run_events step legal (es @ fs) c = run_events step legal es c \<bind> run_events step legal fs"
  by (induction es arbitrary: c) simp_all

lemma run_events_mono:
  "run_events step legal es c = Some c' \<Longrightarrow> (\<And>e c. legal e c \<Longrightarrow> legal' e c) \<Longrightarrow> run_events step legal' es c = Some c'"
  by (induction es arbitrary: c) (auto split: Option.bind_splits)

locale event_machine =
  fixes step :: "'e \<Rightarrow> 'c \<Rightarrow> 'c option"
    and legal :: "'e \<Rightarrow> 'c \<Rightarrow> bool"
    and inv :: "'c \<Rightarrow> bool"
  assumes step_ok: "inv c \<Longrightarrow> legal e c \<Longrightarrow> \<exists>c'. step e c = Some c' \<and> inv c'"
begin

lemma run_inv: "run_events step legal es c = Some c' \<Longrightarrow> inv c \<Longrightarrow> inv c'"
proof (induction es arbitrary: c)
  case Nil
  then show ?case by simp
next
  case (Cons e es)
  then have "legal e c" by simp
  with step_ok [OF Cons.prems(2)] Cons show ?case by fastforce
qed

lemma run_total:
  assumes "inv c" and "run_events step legal es c = None"
  shows "\<exists>es1 e es2 c1. es = es1 @ e # es2 \<and> run_events step legal es1 c = Some c1 \<and> \<not> legal e c1"
  using assms
proof (induction es arbitrary: c)
  case Nil
  then show ?case by simp
next
  case (Cons e es)
  show ?case
  proof (cases "legal e c")
    case False
    then show ?thesis by (intro exI [of _ "[]"]) auto
  next
    case True
    from step_ok [OF Cons.prems(1) True] obtain c1 where c1: "step e c = Some c1" "inv c1" by blast
    with Cons.prems(2) True have "run_events step legal es c1 = None" by simp
    from Cons.IH [OF c1(2) this] obtain es1 e' es2 c2 where
      "es = es1 @ e' # es2" "run_events step legal es1 c1 = Some c2" "\<not> legal e' c2" by blast
    with True c1 show ?thesis by (intro exI [of _ "e # es1"]) auto
  qed
qed

end

text \<open>
  A machine that drains: while it has not finished some event is possible, and every event leaves less
  work.  Then the machine finishes, and no run of it is longer than the work there was.
\<close>

locale draining_machine = event_machine step legal inv
  for step :: "'e \<Rightarrow> 'c \<Rightarrow> 'c option" and legal :: "'e \<Rightarrow> 'c \<Rightarrow> bool" and inv :: "'c \<Rightarrow> bool" +
  fixes finished :: "'c \<Rightarrow> bool"
    and work :: "'c \<Rightarrow> int"
  assumes work_nonneg: "inv c \<Longrightarrow> 0 \<le> work c"
    and progress: "inv c \<Longrightarrow> \<not> finished c \<Longrightarrow> \<exists>e. legal e c"
    and decreases: "inv c \<Longrightarrow> legal e c \<Longrightarrow> step e c = Some c' \<Longrightarrow> work c' < work c"
begin

lemma drains: "inv c \<Longrightarrow> \<exists>es c'. run_events step legal es c = Some c' \<and> inv c' \<and> finished c'"
proof (induction "nat (work c)" arbitrary: c rule: less_induct)
  case less
  show ?case
  proof (cases "finished c")
    case True
    with less.prems show ?thesis by (intro exI [of _ "[]"] exI [of _ c]) simp
  next
    case False
    from progress [OF less.prems False] obtain e where e: "legal e c" by blast
    from step_ok [OF less.prems e] obtain c1 where c1: "step e c = Some c1" "inv c1" by blast
    have "nat (work c1) < nat (work c)"
      using decreases [OF less.prems e c1(1)] work_nonneg [OF c1(2)] by linarith
    from less.hyps [OF this c1(2)] obtain es c' where
      "run_events step legal es c1 = Some c'" "inv c'" "finished c'" by blast
    with e c1(1) show ?thesis by (intro exI [of _ "e # es"] exI [of _ c']) simp
  qed
qed

lemma bounded: "run_events step legal es c = Some c' \<Longrightarrow> inv c \<Longrightarrow> work c' + int (length es) \<le> work c"
proof (induction es arbitrary: c)
  case (Cons e es)
  then have l: "legal e c" by auto
  from step_ok [OF Cons.prems(2) l] obtain c1 where c1: "step e c = Some c1" "inv c1" by blast
  from decreases [OF Cons.prems(2) l c1(1)] Cons.IH [OF _ c1(2)] Cons.prems(1) c1(1) l show ?case by auto
qed simp

end

end
