(* ===== verification/Packet_Proto.thy ===== *)
theory Packet_Proto
  imports Flow_Interfaces Event_Machine
begin

text \<open>
  The framing protocol of \<open>protocol/packetproto.h\<close>: a packet travels on a stream as a
  little-endian 16-bit length followed by the payload.  \<open>flow/PacketProtoEncoder.c\<close> writes the
  header in front of a packet, \<open>flow/PacketProtoDecoder.c\<close> collects stream data in a buffer and
  submits packet after packet.

  The decoder's specification is \<open>pp_parse\<close>, one step of parsing a byte sequence; the handlers
  refine it on the bytes held in the buffer (\<open>process_data_refines\<close>).  The decoder in its
  environment is the machine \<open>dec_step\<close>: the stream delivers bytes while the decoder is
  receiving, the packet consumer reports completion while it is sending.
\<close>

definition packetproto_header_size :: int where
  "packetproto_header_size = 2"

definition PACKETPROTO_ENCLEN :: "int \<Rightarrow> int" where
  "PACKETPROTO_ENCLEN len = packetproto_header_size + len"

definition PACKETPROTO_MAXPAYLOAD :: int where
  "PACKETPROTO_MAXPAYLOAD = 65535"

lemmas packetproto_defs = packetproto_header_size_def PACKETPROTO_ENCLEN_def PACKETPROTO_MAXPAYLOAD_def

section \<open>Encoder\<close>

text \<open>
  \<open>enc_output_packet\<close> is the memory the output's receiver handed to the encoder, \<open>None\<close> when
  there is none.  \<open>EncRecv off\<close> requests a packet from the input, to be written at offset
  \<open>off\<close> of that memory; \<open>EncDone len pkt\<close> gives the memory back with a packet of \<open>len\<close> bytes.
\<close>

record PacketProtoEncoder =
  enc_output_packet :: "bytes option"

datatype enc_action = EncRecv int | EncDone int bytes

definition PacketProtoEncoder_output_handler_recv ::
  "bytes \<Rightarrow> PacketProtoEncoder \<Rightarrow> (enc_action list \<times> PacketProtoEncoder) option" where
  "PacketProtoEncoder_output_handler_recv data enc = do {
     ASSERT (enc_output_packet enc = None);
     Some ([EncRecv packetproto_header_size], enc\<lparr>enc_output_packet := Some data\<rparr>)
   }"

definition PacketProtoEncoder_input_handler_done ::
  "int \<Rightarrow> PacketProtoEncoder \<Rightarrow> (enc_action list \<times> PacketProtoEncoder) option" where
  "PacketProtoEncoder_input_handler_done in_len enc = do {
     pkt \<leftarrow> enc_output_packet enc;
     let pp_len = (word_of_int in_len :: 16 word);
     pkt \<leftarrow> mem_write pkt 0 (le16_bytes pp_len);
     Some ([EncDone (PACKETPROTO_ENCLEN in_len) pkt], enc\<lparr>enc_output_packet := None\<rparr>)
   }"

text \<open>The output interface of an encoder over an input with the given MTU, and the empty state.\<close>

definition PacketProtoEncoder_Init :: "int \<Rightarrow> (int \<times> PacketProtoEncoder) option" where
  "PacketProtoEncoder_Init input_mtu = do {
     ASSERT (input_mtu \<le> PACKETPROTO_MAXPAYLOAD);
     Some (PACKETPROTO_ENCLEN input_mtu, \<lparr>enc_output_packet = None\<rparr>)
   }"

section \<open>Decoder\<close>

record PacketProtoDecoder =
  dec_output_mtu :: int
  dec_buf_size :: int
  dec_buf_start :: int
  dec_buf_used :: int
  dec_buf :: bytes

text \<open>
  What the decoder asks of its neighbours: \<open>DecSend off len\<close> passes the packet at that place of
  the buffer to the output, \<open>DecRecv off len\<close> asks the input for up to \<open>len\<close> bytes at that place,
  \<open>DecError\<close> calls the error handler.
\<close>

datatype dec_action = DecSend int int | DecRecv int int | DecError

definition process_data :: "PacketProtoDecoder \<Rightarrow> (dec_action list \<times> PacketProtoDecoder) option" where
  "process_data enc = do {
     r \<leftarrow> (if dec_buf_used enc < packetproto_header_size then Some (Inl False)
           else do {
             header \<leftarrow> mem_read (dec_buf enc) (dec_buf_start enc) packetproto_header_size;
             let left = dec_buf_used enc - packetproto_header_size;
             let data_len = uint (le16_of header);
             if data_len > dec_output_mtu enc then Some (Inl True)
             else if left < data_len then Some (Inl False)
             else Some (Inr data_len)
           });
     case r of
       Inr data_len \<Rightarrow>
         (let data = dec_buf_start enc + packetproto_header_size;
              enc = enc\<lparr>dec_buf_start := dec_buf_start enc + (packetproto_header_size + data_len),
                        dec_buf_used := dec_buf_used enc - (packetproto_header_size + data_len)\<rparr>
          in Some ([DecSend data data_len], enc))
     | Inl was_error \<Rightarrow> do {
         enc \<leftarrow> (if was_error then Some (enc\<lparr>dec_buf_start := 0, dec_buf_used := 0\<rparr>)
                 else if dec_buf_start enc + dec_buf_used enc = dec_buf_size enc then do {
                   moved \<leftarrow> mem_read (dec_buf enc) (dec_buf_start enc) (dec_buf_used enc);
                   buf \<leftarrow> mem_write (dec_buf enc) 0 moved;
                   Some (enc\<lparr>dec_buf := buf, dec_buf_start := 0\<rparr>)
                 } else Some enc);
         let pos = dec_buf_start enc + dec_buf_used enc;
         Some (DecRecv pos (dec_buf_size enc - pos) # (if was_error then [DecError] else []), enc)
       }
   }"

definition PacketProtoDecoder_input_handler_done ::
  "int \<Rightarrow> PacketProtoDecoder \<Rightarrow> (dec_action list \<times> PacketProtoDecoder) option" where
  "PacketProtoDecoder_input_handler_done data_len enc = do {
     ASSERT (data_len > 0);
     ASSERT (data_len \<le> dec_buf_size enc - (dec_buf_start enc + dec_buf_used enc));
     process_data (enc\<lparr>dec_buf_used := dec_buf_used enc + data_len\<rparr>)
   }"

definition PacketProtoDecoder_output_handler_done ::
  "PacketProtoDecoder \<Rightarrow> (dec_action list \<times> PacketProtoDecoder) option" where
  "PacketProtoDecoder_output_handler_done enc = process_data enc"

text \<open>
  \<open>malloc n\<close> is the memory allocator: \<open>None\<close> when it fails.  The result \<open>None\<close> is the return
  value 0 of the C function.
\<close>

definition PacketProtoDecoder_Init ::
  "(int \<Rightarrow> bytes option) \<Rightarrow> int \<Rightarrow> (dec_action list \<times> PacketProtoDecoder) option" where
  "PacketProtoDecoder_Init malloc out_if_mtu =
     (let mtu = min out_if_mtu PACKETPROTO_MAXPAYLOAD;
          size = PACKETPROTO_ENCLEN mtu
      in case malloc size of
           None \<Rightarrow> None
         | Some buf \<Rightarrow> Some ([DecRecv 0 size],
             \<lparr>dec_output_mtu = mtu, dec_buf_size = size, dec_buf_start = 0, dec_buf_used = 0,
              dec_buf = buf\<rparr>))"

definition PacketProtoDecoder_Reset :: "PacketProtoDecoder \<Rightarrow> PacketProtoDecoder" where
  "PacketProtoDecoder_Reset enc =
     enc\<lparr>dec_buf_start := dec_buf_start enc + dec_buf_used enc, dec_buf_used := 0\<rparr>"

section \<open>Specification: framing and parsing of byte sequences\<close>

definition pp_encode :: "bytes \<Rightarrow> bytes" where
  "pp_encode p = le16_bytes (of_nat (length p)) @ p"

datatype pp_result = NeedMore | TooLarge | Packet bytes bytes

definition pp_parse :: "int \<Rightarrow> bytes \<Rightarrow> pp_result" where
  "pp_parse mtu bs =
     (if length bs < 2 then NeedMore
      else let n = unat (le16_of (take 2 bs)) in
        if int n > mtu then TooLarge
        else if length bs - 2 < n then NeedMore
        else Packet (take n (drop 2 bs)) (drop (2 + n) bs))"

lemma pp_parse_encode:
  assumes "int (length p) \<le> mtu" and "mtu \<le> 65535"
  shows "pp_parse mtu (pp_encode p @ bs) = Packet p bs"
proof -
  have "unat (of_nat (length p) :: 16 word) = length p"
    using assms by (intro unat_of_nat_16) simp
  then show ?thesis using assms(1) by (simp add: pp_parse_def pp_encode_def Let_def)
qed

lemma two_bytes: "length h = 2 \<Longrightarrow> le16_bytes (le16_of h) = h"
proof -
  assume "length h = 2"
  then obtain a b where h: "h = [a, b]"
    by (auto simp: length_Suc_conv numeral_2_eq_2)
  have "(ucast (ucast a OR push_bit 8 (ucast b) :: 16 word) :: 8 word) = a"
    and "(ucast (drop_bit 8 (ucast a OR push_bit 8 (ucast b) :: 16 word)) :: 8 word) = b"
    by (rule bit_word_eqI; auto simp: bit_simps dest: bit_imp_le_length)+
  then show ?thesis by (simp add: h le16_of_def le16_bytes_def)
qed

lemma pp_parse_Packet:
  assumes "pp_parse mtu bs = Packet p rest"
  shows "bs = pp_encode p @ rest" and "int (length p) \<le> mtu" and "length p \<le> 65535"
proof -
  let ?n = "unat (le16_of (take 2 bs))"
  from assms have r: "2 \<le> length bs" "int ?n \<le> mtu" "?n \<le> length bs - 2"
    "p = take ?n (drop 2 bs)" "rest = drop (2 + ?n) bs"
    by (auto simp: pp_parse_def Let_def split: if_splits)
  have lp: "length p = ?n" using r by simp
  show "int (length p) \<le> mtu" using r lp by simp
  show "length p \<le> 65535" using lp le16_of_bound by simp
  have "le16_bytes (of_nat (length p)) = take 2 bs"
    using r(1) by (simp add: lp two_bytes)
  moreover have "bs = take 2 bs @ p @ rest"
    unfolding r(4,5) by (simp only: append_take_drop_id drop_drop [symmetric] add.commute [of 2])
  ultimately show "bs = pp_encode p @ rest"
    by (simp add: pp_encode_def)
qed

text \<open>The two other results, in terms of the header's value.\<close>

lemma pp_parse_NeedMore:
  "pp_parse mtu bs = NeedMore \<longleftrightarrow>
   int (length bs) < 2 \<or>
   uint (le16_of (take 2 bs)) \<le> mtu \<and> int (length bs) - 2 < uint (le16_of (take 2 bs))"
proof -
  obtain n where n: "unat (le16_of (take 2 bs)) = n" and u: "uint (le16_of (take 2 bs)) = int n"
    by simp
  show ?thesis unfolding pp_parse_def Let_def n u by auto
qed

lemma pp_parse_TooLarge:
  "pp_parse mtu bs = TooLarge \<longleftrightarrow> 2 \<le> int (length bs) \<and> mtu < uint (le16_of (take 2 bs))"
  by (auto simp: pp_parse_def Let_def)

lemma pp_parse_Packet_append:
  "pp_parse mtu bs = Packet p rest \<Longrightarrow> pp_parse mtu (bs @ xs) = Packet p (rest @ xs)"
  by (auto simp: pp_parse_def Let_def split: if_splits)

lemma pp_parse_TooLarge_append:
  "pp_parse mtu bs = TooLarge \<Longrightarrow> pp_parse mtu (bs @ xs) = TooLarge"
  by (auto simp: pp_parse_def Let_def split: if_splits)

lemma pp_encode_nonempty [simp]: "pp_encode p \<noteq> []" "length (pp_encode p) = 2 + length p"
  by (simp_all add: pp_encode_def le16_bytes_def)

text \<open>A sequence of framed packets splits into packets in one way only.\<close>

lemma pp_frames_unique:
  assumes "concat (map pp_encode outs) @ data = concat (map pp_encode ps)"
    and "\<forall>p \<in> set outs. int (length p) \<le> mtu" and "\<forall>p \<in> set ps. int (length p) \<le> mtu"
    and "mtu \<le> 65535"
  shows "\<exists>qs. ps = outs @ qs \<and> data = concat (map pp_encode qs)"
  using assms
proof (induction outs arbitrary: ps)
  case Nil
  then show ?case by simp
next
  case (Cons out outs)
  then obtain p ps' where ps: "ps = p # ps'"
    by (cases ps) auto
  have "pp_parse mtu (pp_encode out @ concat (map pp_encode outs) @ data) =
        pp_parse mtu (pp_encode p @ concat (map pp_encode ps'))"
    using Cons.prems(1) by (simp add: ps)
  then have "out = p" "concat (map pp_encode outs) @ data = concat (map pp_encode ps')"
    using Cons.prems(2-4) by (simp_all add: ps pp_parse_encode)
  with Cons.IH [of ps'] Cons.prems show ?case by (simp add: ps)
qed

section \<open>The decoder refines the parser\<close>

text \<open>The bytes received and not yet consumed, and the invariant of the decoder's buffer.\<close>

definition dec_data :: "PacketProtoDecoder \<Rightarrow> bytes" where
  "dec_data d = take (nat (dec_buf_used d)) (drop (nat (dec_buf_start d)) (dec_buf d))"

definition dec_inv :: "PacketProtoDecoder \<Rightarrow> bool" where
  "dec_inv d \<longleftrightarrow>
     0 \<le> dec_output_mtu d \<and> dec_output_mtu d \<le> PACKETPROTO_MAXPAYLOAD \<and>
     dec_buf_size d = PACKETPROTO_ENCLEN (dec_output_mtu d) \<and>
     int (length (dec_buf d)) = dec_buf_size d \<and>
     0 \<le> dec_buf_start d \<and> 0 \<le> dec_buf_used d \<and>
     dec_buf_start d + dec_buf_used d \<le> dec_buf_size d"

lemma dec_data_read:
  "dec_inv d \<Longrightarrow> mem_read (dec_buf d) (dec_buf_start d) (dec_buf_used d) = Some (dec_data d)"
  by (simp add: dec_inv_def mem_read_def dec_data_def)

lemma dec_data_length: "dec_inv d \<Longrightarrow> int (length (dec_data d)) = dec_buf_used d"
  using dec_data_read mem_read_length by blast

text \<open>A part of the unconsumed data is read from the buffer at its place.\<close>

lemma dec_data_slice:
  assumes "dec_inv d" and "0 \<le> k" and "0 \<le> n" and "k + n \<le> dec_buf_used d"
  shows "mem_read (dec_buf d) (dec_buf_start d + k) n = Some (take (nat n) (drop (nat k) (dec_data d)))"
proof -
  have e: "mem_read (dec_buf d) (dec_buf_start d) (k + (dec_buf_used d - k)) = Some (dec_data d)"
    using dec_data_read [OF assms(1)] by simp
  have "mem_read (dec_buf d) (dec_buf_start d + k) (n + (dec_buf_used d - k - n)) =
      Some (drop (nat k) (dec_data d))"
    using mem_read_split(2) [OF e] assms by simp
  from mem_read_split(1) [OF this] assms show ?thesis by simp
qed

lemma dec_receive_region:
  assumes "dec_inv d" "dec_data d = bs" "pp_parse (dec_output_mtu d) bs = NeedMore"
  shows "\<exists>d'. (if dec_buf_start d + dec_buf_used d = dec_buf_size d then do {
              moved \<leftarrow> mem_read (dec_buf d) (dec_buf_start d) (dec_buf_used d);
              buf \<leftarrow> mem_write (dec_buf d) 0 moved;
              Some (d\<lparr>dec_buf := buf, dec_buf_start := 0\<rparr>)
            } else Some d) = Some d' \<and> dec_inv d' \<and> dec_data d' = bs \<and>
            dec_output_mtu d' = dec_output_mtu d \<and> dec_buf_size d' = dec_buf_size d \<and>
            dec_buf_start d' + dec_buf_used d' < dec_buf_size d'"
proof (cases "dec_buf_start d + dec_buf_used d = dec_buf_size d")
  case False
  with assms show ?thesis by (simp add: dec_inv_def)
next
  case True
  have len: "int (length bs) = dec_buf_used d"
    using dec_data_length [OF assms(1)] assms(2) by simp
  have small: "dec_buf_used d < dec_buf_size d"
  proof -
    have "int (length bs) \<noteq> dec_buf_size d"
      using assms(1,3) len by (auto simp: pp_parse_NeedMore dec_inv_def packetproto_defs)
    then show ?thesis using assms(1) len by (simp add: dec_inv_def)
  qed
  let ?buf = "bs @ drop (length bs) (dec_buf d)"
  have "mem_write (dec_buf d) 0 bs = Some ?buf"
    using assms(1) len small by (simp add: mem_write_def dec_inv_def)
  moreover have "mem_read (dec_buf d) (dec_buf_start d) (dec_buf_used d) = Some bs"
    using dec_data_read [OF assms(1)] assms(2) by simp
  moreover have "dec_inv (d\<lparr>dec_buf := ?buf, dec_buf_start := 0\<rparr>)"
    using assms(1) len by (auto simp: dec_inv_def)
  moreover have "dec_data (d\<lparr>dec_buf := ?buf, dec_buf_start := 0\<rparr>) = bs"
    using len by (simp add: dec_data_def flip: len)
  ultimately show ?thesis using True small by simp
qed

lemma process_data_NeedMore:
  assumes inv: "dec_inv d" and parse: "pp_parse (dec_output_mtu d) (dec_data d) = NeedMore"
  shows "\<exists>d' off. process_data d = Some ([DecRecv off (dec_buf_size d - off)], d') \<and> dec_inv d' \<and>
    dec_data d' = dec_data d \<and> dec_output_mtu d' = dec_output_mtu d \<and> dec_buf_size d' = dec_buf_size d \<and>
    off = dec_buf_start d' + dec_buf_used d' \<and> off < dec_buf_size d"
proof -
  note region = dec_receive_region [OF inv refl parse]
  have len: "int (length (dec_data d)) = dec_buf_used d" by (rule dec_data_length [OF inv])
  have "(if dec_buf_used d < packetproto_header_size then Some (Inl False)
         else do {
           header \<leftarrow> mem_read (dec_buf d) (dec_buf_start d) packetproto_header_size;
           let left = dec_buf_used d - packetproto_header_size;
           let data_len = uint (le16_of header);
           if data_len > dec_output_mtu d then Some (Inl True)
           else if left < data_len then Some (Inl False)
           else Some (Inr data_len)
         }) = Some (Inl False :: bool + int)"
    using parse len dec_data_slice [OF inv, of 0 2]
    by (auto simp: pp_parse_NeedMore packetproto_defs)
  with region show ?thesis
    unfolding process_data_def by (force simp: Let_def)
qed

lemma process_data_Packet:
  assumes inv: "dec_inv d" and parse: "pp_parse (dec_output_mtu d) (dec_data d) = Packet p rest"
  shows "\<exists>d' off. process_data d = Some ([DecSend off (int (length p))], d') \<and> dec_inv d' \<and>
    dec_data d' = rest \<and> dec_output_mtu d' = dec_output_mtu d \<and> dec_buf_size d' = dec_buf_size d \<and>
    mem_read (dec_buf d') off (int (length p)) = Some p"
proof -
  let ?n = "length p"
  have len: "int (length (dec_data d)) = dec_buf_used d" by (rule dec_data_length [OF inv])
  note pk = pp_parse_Packet [OF parse]
  have used: "2 + int ?n \<le> dec_buf_used d" using len pk(1) by (simp add: pp_encode_def)
  have hdr: "mem_read (dec_buf d) (dec_buf_start d) 2 = Some (take 2 (dec_data d))"
    using dec_data_slice [OF inv, of 0 2] used by simp
  have "take 2 (dec_data d) = le16_bytes (of_nat ?n)"
    by (simp add: pk(1) pp_encode_def)
  then have n: "uint (le16_of (take 2 (dec_data d))) = int ?n"
    using unat_of_nat_16 [OF pk(3)] by (metis le16_of_bytes uint_nat)
  let ?d = "d\<lparr>dec_buf_start := dec_buf_start d + (2 + int ?n), dec_buf_used := dec_buf_used d - (2 + int ?n)\<rparr>"
  have "process_data d = Some ([DecSend (dec_buf_start d + 2) (int ?n)], ?d)"
    using hdr n used pk(2) by (simp add: process_data_def packetproto_defs Let_def)
  moreover have "dec_inv ?d" using inv used by (simp add: dec_inv_def)
  moreover have "dec_data ?d = rest"
  proof -
    have "Some (dec_data ?d) = mem_read (dec_buf d) (dec_buf_start d + (2 + int ?n)) (dec_buf_used d - (2 + int ?n))"
      using dec_data_read [OF \<open>dec_inv ?d\<close>] by simp
    also have "\<dots> = Some (drop (2 + ?n) (dec_data d))"
      using dec_data_slice [OF inv, of "2 + int ?n" "dec_buf_used d - (2 + int ?n)"] used len
      by (simp add: nat_add_distrib nat_diff_distrib)
    finally show ?thesis by (simp add: pk(1) pp_encode_def)
  qed
  moreover have "mem_read (dec_buf ?d) (dec_buf_start d + 2) (int ?n) = Some p"
    using dec_data_slice [OF inv, of 2 "int ?n"] used by (simp add: pk(1) pp_encode_def)
  ultimately show ?thesis by force
qed

lemma process_data_TooLarge:
  assumes inv: "dec_inv d" and parse: "pp_parse (dec_output_mtu d) (dec_data d) = TooLarge"
  shows "\<exists>d'. process_data d = Some ([DecRecv 0 (dec_buf_size d), DecError], d') \<and> dec_inv d' \<and>
    dec_data d' = [] \<and> dec_output_mtu d' = dec_output_mtu d \<and> dec_buf_size d' = dec_buf_size d \<and>
    dec_buf_start d' + dec_buf_used d' = 0"
proof -
  have len: "int (length (dec_data d)) = dec_buf_used d" by (rule dec_data_length [OF inv])
  have "2 \<le> dec_buf_used d" using parse len by (simp add: pp_parse_TooLarge)
  moreover from this have "mem_read (dec_buf d) (dec_buf_start d) 2 = Some (take 2 (dec_data d))"
    using dec_data_slice [OF inv, of 0 2] by simp
  moreover have "uint (le16_of (take 2 (dec_data d))) > dec_output_mtu d"
    using parse by (simp add: pp_parse_TooLarge)
  ultimately show ?thesis
    using inv by (auto simp: process_data_def packetproto_defs Let_def dec_inv_def dec_data_def)
qed

section \<open>The decoder in its environment\<close>

text \<open>
  The configuration keeps the decoder, whether a packet is being passed to the output, all bytes
  that were delivered, all packets that were submitted, and whether the error handler was called.
\<close>

record dec_config =
  dc_dec :: PacketProtoDecoder
  dc_sending :: bool
  dc_in :: bytes
  dc_out :: "bytes list"
  dc_err :: bool

datatype dec_event = Deliver bytes | OutputDone

primrec dec_perform :: "dec_action \<Rightarrow> dec_config \<Rightarrow> dec_config option" where
  "dec_perform (DecSend off len) c = do {
     p \<leftarrow> mem_read (dec_buf (dc_dec c)) off len;
     Some (c\<lparr>dc_sending := True, dc_out := dc_out c @ [p]\<rparr>)
   }"
| "dec_perform (DecRecv off len) c = do {
     ASSERT (0 < len \<and> off = dec_buf_start (dc_dec c) + dec_buf_used (dc_dec c) \<and>
             off + len = dec_buf_size (dc_dec c));
     Some (c\<lparr>dc_sending := False\<rparr>)
   }"
| "dec_perform DecError c = Some (c\<lparr>dc_err := True\<rparr>)"

primrec dec_performs :: "dec_action list \<Rightarrow> dec_config \<Rightarrow> dec_config option" where
  "dec_performs [] c = Some c"
| "dec_performs (a # as) c = dec_perform a c \<bind> dec_performs as"

primrec dec_step :: "dec_event \<Rightarrow> dec_config \<Rightarrow> dec_config option" where
  "dec_step (Deliver bs) c = (let d = dc_dec c in do {
     buf \<leftarrow> mem_write (dec_buf d) (dec_buf_start d + dec_buf_used d) bs;
     (acts, d') \<leftarrow> PacketProtoDecoder_input_handler_done (int (length bs)) (d\<lparr>dec_buf := buf\<rparr>);
     dec_performs acts (c\<lparr>dc_in := dc_in c @ bs, dc_dec := d'\<rparr>)
   })"
| "dec_step OutputDone c = do {
     (acts, d') \<leftarrow> PacketProtoDecoder_output_handler_done (dc_dec c);
     dec_performs acts (c\<lparr>dc_dec := d'\<rparr>)
   }"

text \<open>
  What the neighbours may do: deliver at least one byte and no more than asked for while the
  decoder is receiving, report completion while it is sending.
\<close>

fun dec_legal :: "dec_event \<Rightarrow> dec_config \<Rightarrow> bool" where
  "dec_legal (Deliver bs) c =
     (\<not> dc_sending c \<and> bs \<noteq> [] \<and>
      int (length bs) \<le> dec_buf_size (dc_dec c) - (dec_buf_start (dc_dec c) + dec_buf_used (dc_dec c)))"
| "dec_legal OutputDone c = dc_sending c"

abbreviation dec_exec :: "dec_event list \<Rightarrow> dec_config \<Rightarrow> dec_config option" where
  "dec_exec \<equiv> run_events dec_step dec_legal"

definition dec_start :: "PacketProtoDecoder \<Rightarrow> dec_config" where
  "dec_start d = \<lparr>dc_dec = d, dc_sending = False, dc_in = [], dc_out = [], dc_err = False\<rparr>"

text \<open>
  Nothing is lost, added or reordered: until an error the delivered bytes are the frames of the
  submitted packets followed by the buffered bytes.  After an error, the delivered bytes begin
  with some frames and a header announcing an oversized packet.
\<close>

definition bad_stream :: "int \<Rightarrow> bytes \<Rightarrow> bool" where
  "bad_stream mtu bs \<longleftrightarrow>
     (\<exists>outs bad rest. bs = concat (map pp_encode outs) @ bad @ rest \<and>
        (\<forall>p \<in> set outs. int (length p) \<le> mtu) \<and> pp_parse mtu bad = TooLarge)"

lemma bad_stream_append: "bad_stream mtu bs \<Longrightarrow> bad_stream mtu (bs @ xs)"
  unfolding bad_stream_def by (metis append.assoc)

lemma bad_stream_intro:
  "\<forall>p \<in> set outs. int (length p) \<le> mtu \<Longrightarrow> pp_parse mtu bad = TooLarge \<Longrightarrow>
   bad_stream mtu (concat (map pp_encode outs) @ bad)"
  unfolding bad_stream_def by (metis append_Nil2)

lemma bad_stream_frames:
  assumes "\<forall>p \<in> set ps. int (length p) \<le> mtu" and "mtu \<le> 65535"
  shows "\<not> bad_stream mtu (concat (map pp_encode ps))"
proof
  assume "bad_stream mtu (concat (map pp_encode ps))"
  then obtain outs bad rest where b: "concat (map pp_encode outs) @ bad @ rest = concat (map pp_encode ps)"
    "\<forall>p \<in> set outs. int (length p) \<le> mtu" "pp_parse mtu bad = TooLarge"
    unfolding bad_stream_def by metis
  from pp_frames_unique [OF b(1,2) assms] obtain qs where
    q: "ps = outs @ qs" "bad @ rest = concat (map pp_encode qs)" by blast
  from pp_parse_TooLarge_append [OF b(3)] have "pp_parse mtu (bad @ rest) = TooLarge" .
  moreover have "pp_parse mtu [] = NeedMore" by (simp add: pp_parse_def)
  ultimately show False
    using q assms by (cases qs) (auto simp: pp_parse_encode)
qed

definition dec_conf_inv :: "dec_config \<Rightarrow> bool" where
  "dec_conf_inv c \<longleftrightarrow>
     (let d = dc_dec c; mtu = dec_output_mtu d in
      dec_inv d \<and> (\<forall>p \<in> set (dc_out c). int (length p) \<le> mtu) \<and>
      (\<not> dc_sending c \<longrightarrow>
         dec_buf_start d + dec_buf_used d < dec_buf_size d \<and>
         pp_parse mtu (dec_data d) = NeedMore) \<and>
      (\<not> dc_err c \<longrightarrow> dc_in c = concat (map pp_encode (dc_out c)) @ dec_data d) \<and>
      (dc_err c \<longrightarrow> bad_stream mtu (dc_in c)))"

text \<open>
  The effect of processing: whatever the parser says of the buffered bytes, the actions can be
  performed and re-establish the invariant.
\<close>

lemma dec_process_step:
  assumes inv: "dec_inv d" and mtu: "dec_output_mtu d = m"
    and out: "\<forall>p \<in> set (dc_out c). int (length p) \<le> m"
    and ok: "\<not> dc_err c \<longrightarrow> dc_in c = concat (map pp_encode (dc_out c)) @ dec_data d"
    and err: "dc_err c \<longrightarrow> bad_stream m (dc_in c)"
  shows "\<exists>acts d' c'. process_data d = Some (acts, d') \<and> dec_performs acts (c\<lparr>dc_dec := d'\<rparr>) = Some c' \<and>
    dec_conf_inv c' \<and> dc_in c' = dc_in c \<and> dec_output_mtu (dc_dec c') = m"
proof (cases "pp_parse (dec_output_mtu d) (dec_data d)")
  case NeedMore
  from process_data_NeedMore [OF inv NeedMore] obtain d' off where
    "process_data d = Some ([DecRecv off (dec_buf_size d - off)], d')" "dec_inv d'"
    "dec_data d' = dec_data d" "dec_output_mtu d' = m" "dec_buf_size d' = dec_buf_size d"
    "off = dec_buf_start d' + dec_buf_used d'" "off < dec_buf_size d"
    using mtu by auto
  with NeedMore mtu out ok err show ?thesis
    by (simp add: dec_conf_inv_def Let_def)
next
  case TooLarge
  from process_data_TooLarge [OF inv TooLarge] obtain d' where
    d': "process_data d = Some ([DecRecv 0 (dec_buf_size d), DecError], d')" "dec_inv d'" "dec_data d' = []"
      "dec_output_mtu d' = m" "dec_buf_size d' = dec_buf_size d" "dec_buf_start d' + dec_buf_used d' = 0"
    using mtu by auto
  have size: "0 < dec_buf_size d" using inv by (simp add: dec_inv_def packetproto_defs)
  have nm: "pp_parse m [] = NeedMore" by (simp add: pp_parse_def)
  have "bad_stream m (dc_in c)"
    using err ok bad_stream_intro [OF out, of "dec_data d"] TooLarge mtu by (cases "dc_err c") auto
  with d' size nm out show ?thesis
    by (auto simp: dec_conf_inv_def Let_def)
next
  case (Packet p rest)
  from process_data_Packet [OF inv Packet] obtain d' off where
    d': "process_data d = Some ([DecSend off (int (length p))], d')" "dec_inv d'" "dec_data d' = rest"
      "dec_output_mtu d' = m" "mem_read (dec_buf d') off (int (length p)) = Some p"
    using mtu by auto
  with pp_parse_Packet(1,2) [OF Packet] mtu out ok err show ?thesis
    by (auto simp: dec_conf_inv_def Let_def)
qed

lemma dec_deliver_data:
  assumes inv: "dec_inv d" and bs: "bs \<noteq> []"
    "int (length bs) \<le> dec_buf_size d - (dec_buf_start d + dec_buf_used d)"
  shows "\<exists>buf. mem_write (dec_buf d) (dec_buf_start d + dec_buf_used d) bs = Some buf \<and>
    (let d1 = d\<lparr>dec_buf := buf, dec_buf_used := dec_buf_used d + int (length bs)\<rparr>
     in dec_inv d1 \<and> dec_data d1 = dec_data d @ bs)"
proof -
  let ?fin = "dec_buf_start d + dec_buf_used d"
  obtain buf where w: "mem_write (dec_buf d) ?fin bs = Some buf"
    using inv bs by (simp add: mem_write_def dec_inv_def)
  let ?d1 = "d\<lparr>dec_buf := buf, dec_buf_used := dec_buf_used d + int (length bs)\<rparr>"
  have i1: "dec_inv ?d1"
    using inv bs mem_write_length [OF w] by (simp add: dec_inv_def)
  have used: "0 \<le> dec_buf_used d" using inv by (simp add: dec_inv_def)
  have whole: "mem_read buf (dec_buf_start d) (dec_buf_used d + int (length bs)) = Some (dec_data ?d1)"
    using dec_data_read [OF i1] by simp
  have "Some (take (nat (dec_buf_used d)) (dec_data ?d1)) = mem_read buf (dec_buf_start d) (dec_buf_used d)"
    using mem_read_split(1) [OF whole] used by simp
  also have "\<dots> = Some (dec_data d)"
    using mem_read_write_other [OF w, of "dec_buf_start d" "dec_buf_used d"] dec_data_read [OF inv] by simp
  finally have 1: "take (nat (dec_buf_used d)) (dec_data ?d1) = dec_data d" by simp
  have "Some (drop (nat (dec_buf_used d)) (dec_data ?d1)) = mem_read buf ?fin (int (length bs))"
    using mem_read_split(2) [OF whole] used by simp
  also have "\<dots> = Some bs" by (rule mem_read_write_same [OF w])
  finally have 2: "drop (nat (dec_buf_used d)) (dec_data ?d1) = bs" by simp
  from 1 2 have "dec_data ?d1 = dec_data d @ bs" by (metis append_take_drop_id)
  with w i1 show ?thesis by (auto simp: Let_def)
qed

text \<open>Every legal event is handled without a failed assertion or a bad memory access.\<close>

lemma dec_step_inv:
  assumes inv: "dec_conf_inv c" and legal: "dec_legal e c"
  shows "\<exists>c'. dec_step e c = Some c' \<and> dec_conf_inv c' \<and>
    dec_output_mtu (dc_dec c') = dec_output_mtu (dc_dec c) \<and>
    dc_in c' = dc_in c @ (case e of Deliver bs \<Rightarrow> bs | OutputDone \<Rightarrow> [])"
proof (cases e)
  case OutputDone
  have "\<exists>acts d' c'. process_data (dc_dec c) = Some (acts, d') \<and> dec_performs acts (c\<lparr>dc_dec := d'\<rparr>) = Some c' \<and>
      dec_conf_inv c' \<and> dc_in c' = dc_in c \<and> dec_output_mtu (dc_dec c') = dec_output_mtu (dc_dec c)"
    using inv by (intro dec_process_step) (auto simp: dec_conf_inv_def Let_def)
  with OutputDone show ?thesis
    by (auto simp: PacketProtoDecoder_output_handler_done_def)
next
  case (Deliver bs)
  let ?d = "dc_dec c"
  from inv have di: "dec_inv ?d" by (simp add: dec_conf_inv_def Let_def)
  from legal Deliver have bs: "bs \<noteq> []"
    "int (length bs) \<le> dec_buf_size ?d - (dec_buf_start ?d + dec_buf_used ?d)" by auto
  from dec_deliver_data [OF di bs] obtain buf where
    w: "mem_write (dec_buf ?d) (dec_buf_start ?d + dec_buf_used ?d) bs = Some buf" and
    d1: "dec_inv (?d\<lparr>dec_buf := buf, dec_buf_used := dec_buf_used ?d + int (length bs)\<rparr>)"
      "dec_data (?d\<lparr>dec_buf := buf, dec_buf_used := dec_buf_used ?d + int (length bs)\<rparr>) = dec_data ?d @ bs"
    by (auto simp: Let_def)
  let ?d1 = "?d\<lparr>dec_buf := buf, dec_buf_used := dec_buf_used ?d + int (length bs)\<rparr>"
  let ?c1 = "c\<lparr>dc_in := dc_in c @ bs\<rparr>"
  have "\<exists>acts d' c'. process_data ?d1 = Some (acts, d') \<and> dec_performs acts (?c1\<lparr>dc_dec := d'\<rparr>) = Some c' \<and>
      dec_conf_inv c' \<and> dc_in c' = dc_in ?c1 \<and> dec_output_mtu (dc_dec c') = dec_output_mtu ?d"
    using inv d1 bad_stream_append [of "dec_output_mtu ?d" "dc_in c" bs]
    by (intro dec_process_step) (auto simp: dec_conf_inv_def Let_def)
  with Deliver w bs show ?thesis
    by (auto simp: PacketProtoDecoder_input_handler_done_def Let_def)
qed

interpretation dec: event_machine dec_step dec_legal
    "\<lambda>c. dec_conf_inv c \<and> dec_output_mtu (dc_dec c) = mtu" for mtu
  using dec_step_inv by unfold_locales fastforce

lemma dec_conf_frames:
  assumes i: "dec_conf_inv c" and s: "\<not> dc_sending c" and d: "dc_in c = concat (map pp_encode ps)"
    and ps: "\<forall>p\<in>set ps. int (length p) \<le> dec_output_mtu (dc_dec c)" and m: "dec_output_mtu (dc_dec c) \<le> 65535"
  shows "dc_out c = ps \<and> \<not> dc_err c \<and> dec_data (dc_dec c) = []"
proof -
  let ?m = "dec_output_mtu (dc_dec c)"
  from bad_stream_frames [OF ps m] i d have e: "\<not> dc_err c" by (auto simp: dec_conf_inv_def Let_def)
  with i s d have f: "concat (map pp_encode (dc_out c)) @ dec_data (dc_dec c) = concat (map pp_encode ps)"
    "\<forall>p\<in>set (dc_out c). int (length p) \<le> ?m" "pp_parse ?m (dec_data (dc_dec c)) = NeedMore"
    by (auto simp: dec_conf_inv_def Let_def)
  from pp_frames_unique [OF f(1,2) ps m] obtain qs where
    q: "ps = dc_out c @ qs" "dec_data (dc_dec c) = concat (map pp_encode qs)" by blast
  with f(3) ps m e show ?thesis by (cases qs) (auto simp: pp_parse_encode)
qed

lemma dec_start_inv:
  assumes "PacketProtoDecoder_Init malloc mtu = Some (acts, d)"
    and "\<And>n b. 0 \<le> n \<Longrightarrow> malloc n = Some b \<Longrightarrow> int (length b) = n" and "0 \<le> mtu"
  shows "dec_conf_inv (dec_start d) \<and> dec_output_mtu d = min mtu PACKETPROTO_MAXPAYLOAD"
proof -
  let ?mtu = "min mtu PACKETPROTO_MAXPAYLOAD"
  from assms(1) obtain buf where buf: "malloc (PACKETPROTO_ENCLEN ?mtu) = Some buf"
    and d: "d = \<lparr>dec_output_mtu = ?mtu, dec_buf_size = PACKETPROTO_ENCLEN ?mtu, dec_buf_start = 0,
      dec_buf_used = 0, dec_buf = buf\<rparr>"
    by (auto simp: PacketProtoDecoder_Init_def Let_def split: option.splits)
  from assms(2) [OF _ buf] assms(3) show ?thesis
    by (simp add: d dec_conf_inv_def dec_start_def dec_inv_def dec_data_def packetproto_defs pp_parse_def)
qed

section \<open>The encoder produces frames\<close>

text \<open>
  A packet that the input writes into the place the encoder asks for comes out framed, in the
  memory the receiver supplied.
\<close>

lemma encoder_frame:
  assumes "enc_output_packet enc = None" and "length p \<le> 65535" and "2 + length p \<le> length mem"
  shows "\<exists>enc1 mem1 mem2 enc2.
    PacketProtoEncoder_output_handler_recv mem enc = Some ([EncRecv 2], enc1) \<and>
    enc_output_packet enc1 = Some mem \<and> mem_write mem 2 p = Some mem1 \<and>
    PacketProtoEncoder_input_handler_done (int (length p)) (enc1\<lparr>enc_output_packet := Some mem1\<rparr>) =
      Some ([EncDone (2 + int (length p)) mem2], enc2) \<and>
    enc_output_packet enc2 = None \<and> length mem2 = length mem \<and>
    mem_read mem2 0 (2 + int (length p)) = Some (pp_encode p)"
proof -
  obtain mem1 where m1: "mem_write mem 2 p = Some mem1"
    using assms(3) by (simp add: mem_write_def)
  let ?h = "le16_bytes (word_of_int (int (length p)))"
  from mem_write_length [OF m1] assms(3) obtain mem2 where m2: "mem_write mem1 0 ?h = Some mem2"
    by (simp add: mem_write_def)
  have len: "length mem2 = length mem"
    using mem_write_length [OF m1] mem_write_length [OF m2] by simp
  have hdr: "mem_read mem2 0 2 = Some ?h"
    using mem_read_write_same [OF m2] by simp
  have pay: "mem_read mem2 2 (int (length p)) = Some p"
    using mem_read_write_other [OF m2, of 2 "int (length p)"] mem_read_write_same [OF m1] by simp
  obtain ys where ys: "mem_read mem2 0 (2 + int (length p)) = Some ys"
    using len assms(3) by (simp add: mem_read_def)
  from mem_read_split [OF ys] hdr pay have "ys = ?h @ p"
    by (metis append_take_drop_id of_nat_0_le_iff option.inject zero_le_numeral add_0)
  then have "mem_read mem2 0 (2 + int (length p)) = Some (pp_encode p)"
    by (simp add: ys pp_encode_def)
  with assms(1) m1 m2 len show ?thesis
    by (simp add: PacketProtoEncoder_output_handler_recv_def PacketProtoEncoder_input_handler_done_def
        packetproto_defs)
qed

end
