(* ===== verification/Chunk_Buffer.thy ===== *)
theory Chunk_Buffer
  imports Flow_Prelude
begin

text \<open>
  The circular packet buffer \<open>structure/ChunkBuffer2.h\<close> and the flow element
  \<open>flow/PacketBuffer.c\<close> built on it.  The buffer is an array of 4-byte blocks; a stored packet
  is a block holding its length, followed by the packet's bytes in as many blocks as they need.
  Packets never wrap around the end of the array: when a maximal packet would no longer fit
  behind the last one, the field \<open>wrap\<close> marks where the stored packets end and the next packet
  goes to the beginning.

  Memory is the byte array behind the blocks, so reading a length back and handing out packet
  bytes are reads of memory that a later write could have damaged.  \<open>cb_inv b ps\<close> relates the
  state to the queue \<open>ps\<close> of stored packets; the interface \<open>packet_queue\<close> is what the flow
  elements rely on.
\<close>

definition INT_MAX :: int where
  "INT_MAX = 2147483647"

definition bdivide_up :: "int \<Rightarrow> int \<Rightarrow> int" where
  "bdivide_up a b = (let r = a mod b in if r > 0 then a div b + 1 else a div b)"

definition block_size :: int where
  "block_size = 4"

record ChunkBuffer2 =
  cb_buffer :: bytes
  cb_size :: int
  cb_wrap :: int
  cb_start :: int
  cb_used :: int
  cb_mtu :: int
  cb_input_dest :: "int option"
  cb_input_avail :: int
  cb_output_dest :: "int option"
  cb_output_avail :: int

section \<open>Operations\<close>

text \<open>The \<open>len\<close> field of the block with the given index.\<close>

definition block_len :: "bytes \<Rightarrow> int \<Rightarrow> int option" where
  "block_len m i = do {
     bs \<leftarrow> mem_read m (block_size * i) block_size;
     Some (sint (le32_of bs))
   }"

definition set_block_len :: "bytes \<Rightarrow> int \<Rightarrow> int \<Rightarrow> bytes option" where
  "set_block_len m i len = mem_write m (block_size * i) (le32_bytes (word_of_int len))"

definition ChunkBuffer2_end :: "ChunkBuffer2 \<Rightarrow> int" where
  "ChunkBuffer2_end buf =
     (if cb_used buf \<ge> cb_wrap buf - cb_start buf
      then cb_used buf - (cb_wrap buf - cb_start buf)
      else cb_start buf + cb_used buf)"

definition ChunkBuffer2_assert_buffer :: "ChunkBuffer2 \<Rightarrow> bool" where
  "ChunkBuffer2_assert_buffer buf \<longleftrightarrow>
     cb_size buf > 0 \<and> cb_wrap buf > 0 \<and> cb_wrap buf \<le> cb_size buf \<and>
     cb_start buf \<ge> 0 \<and> cb_start buf < cb_wrap buf \<and>
     cb_used buf \<ge> 0 \<and> cb_used buf \<le> cb_wrap buf \<and>
     (cb_wrap buf = cb_size buf \<or> cb_used buf \<ge> cb_wrap buf - cb_start buf) \<and>
     cb_mtu buf \<ge> 0"

definition ChunkBuffer2_free :: "ChunkBuffer2 \<Rightarrow> int" where
  "ChunkBuffer2_free buf =
     (if cb_used buf \<ge> cb_wrap buf - cb_start buf
      then cb_start buf - ChunkBuffer2_end buf
      else cb_size buf - ChunkBuffer2_end buf)"

definition ChunkBuffer2_assert_io :: "ChunkBuffer2 \<Rightarrow> bool" where
  "ChunkBuffer2_assert_io buf \<longleftrightarrow>
     (let end = ChunkBuffer2_end buf in
      if cb_size buf - end - 1 < cb_mtu buf \<or> \<not> ChunkBuffer2_free buf > 0
      then cb_input_dest buf = None \<and> cb_input_avail buf = -1
      else cb_input_dest buf = Some (block_size * (end + 1)) \<and>
           cb_input_avail buf = (ChunkBuffer2_free buf - 1) * block_size) \<and>
     (if cb_used buf > 0
      then (case block_len (cb_buffer buf) (cb_start buf) of
              None \<Rightarrow> False
            | Some datalen \<Rightarrow>
                datalen \<ge> 0 \<and>
                bdivide_up datalen block_size \<le> cb_used buf - 1 \<and>
                bdivide_up datalen block_size \<le> cb_wrap buf - cb_start buf - 1 \<and>
                cb_output_dest buf = Some (block_size * (cb_start buf + 1)) \<and>
                cb_output_avail buf = datalen)
      else cb_output_dest buf = None \<and> cb_output_avail buf = -1)"

definition ChunkBuffer2_update_input :: "ChunkBuffer2 \<Rightarrow> ChunkBuffer2" where
  "ChunkBuffer2_update_input buf =
     (let end = ChunkBuffer2_end buf in
      if cb_size buf - end - 1 < cb_mtu buf
      then buf\<lparr>cb_input_dest := None, cb_input_avail := -1\<rparr>
      else
        let free = (if cb_used buf \<ge> cb_wrap buf - cb_start buf
                    then cb_start buf - end else cb_size buf - end)
        in if free > 0
           then buf\<lparr>cb_input_dest := Some (block_size * (end + 1)),
                    cb_input_avail := (free - 1) * block_size\<rparr>
           else buf\<lparr>cb_input_dest := None, cb_input_avail := -1\<rparr>)"

definition ChunkBuffer2_update_output :: "ChunkBuffer2 \<Rightarrow> ChunkBuffer2 option" where
  "ChunkBuffer2_update_output buf =
     (if cb_used buf > 0 then do {
        datalen \<leftarrow> block_len (cb_buffer buf) (cb_start buf);
        ASSERT (datalen \<ge> 0);
        let blocklen = bdivide_up datalen block_size;
        ASSERT (blocklen \<le> cb_used buf - 1);
        ASSERT (blocklen \<le> cb_wrap buf - cb_start buf - 1);
        Some (buf\<lparr>cb_output_dest := Some (block_size * (cb_start buf + 1)), cb_output_avail := datalen\<rparr>)
      } else Some (buf\<lparr>cb_output_dest := None, cb_output_avail := -1\<rparr>))"

definition ChunkBuffer2_calc_blocks :: "int \<Rightarrow> int \<Rightarrow> int" where
  "ChunkBuffer2_calc_blocks chunk_len num =
     (let chunk_data_blocks = bdivide_up chunk_len block_size in
      if chunk_data_blocks > INT_MAX - 1 then -1
      else let chunk_blocks = 1 + chunk_data_blocks in
        if num > INT_MAX - 1 then -1
        else let num_chunks = num + 1 in
          if chunk_blocks > INT_MAX div num_chunks then -1
          else chunk_blocks * num_chunks)"

definition ChunkBuffer2_Init :: "bytes \<Rightarrow> int \<Rightarrow> int \<Rightarrow> ChunkBuffer2 option" where
  "ChunkBuffer2_Init buffer blocks mtu = do {
     ASSERT (blocks > 0);
     ASSERT (mtu \<ge> 0);
     let buf = \<lparr>cb_buffer = buffer, cb_size = blocks, cb_wrap = blocks, cb_start = 0, cb_used = 0,
                cb_mtu = bdivide_up mtu block_size, cb_input_dest = None, cb_input_avail = -1,
                cb_output_dest = None, cb_output_avail = -1\<rparr>;
     ASSERT (ChunkBuffer2_assert_buffer buf);
     buf \<leftarrow> ChunkBuffer2_update_output (ChunkBuffer2_update_input buf);
     ASSERT (ChunkBuffer2_assert_io buf);
     Some buf
   }"

definition ChunkBuffer2_SubmitPacket :: "int \<Rightarrow> ChunkBuffer2 \<Rightarrow> ChunkBuffer2 option" where
  "ChunkBuffer2_SubmitPacket len buf = do {
     ASSERT (cb_input_dest buf \<noteq> None);
     ASSERT (len \<ge> 0);
     ASSERT (len \<le> cb_input_avail buf);
     ASSERT (ChunkBuffer2_assert_buffer buf);
     ASSERT (ChunkBuffer2_assert_io buf);
     let end = ChunkBuffer2_end buf;
     let blocklen = bdivide_up len block_size;
     ASSERT (blocklen \<le> cb_size buf - end - 1);
     ASSERT (cb_used buf < cb_wrap buf - cb_start buf \<or> blocklen \<le> cb_start buf - end - 1);
     m \<leftarrow> set_block_len (cb_buffer buf) end len;
     let buf = buf\<lparr>cb_buffer := m, cb_used := cb_used buf + (1 + blocklen)\<rparr>;
     let buf = (if cb_used buf \<le> cb_wrap buf - cb_start buf \<and>
                   cb_mtu buf > cb_size buf - (end + 1 + blocklen) - 1
                then buf\<lparr>cb_wrap := end + 1 + blocklen\<rparr> else buf);
     ASSERT (ChunkBuffer2_assert_buffer buf);
     let buf = ChunkBuffer2_update_input buf;
     buf \<leftarrow> (if cb_used buf = 1 + blocklen then ChunkBuffer2_update_output buf else Some buf);
     ASSERT (ChunkBuffer2_assert_io buf);
     Some buf
   }"

definition ChunkBuffer2_ConsumePacket :: "ChunkBuffer2 \<Rightarrow> ChunkBuffer2 option" where
  "ChunkBuffer2_ConsumePacket buf = do {
     ASSERT (cb_output_dest buf \<noteq> None);
     ASSERT (ChunkBuffer2_assert_buffer buf);
     ASSERT (ChunkBuffer2_assert_io buf);
     ASSERT (1 \<le> cb_wrap buf - cb_start buf);
     ASSERT (1 \<le> cb_used buf);
     len \<leftarrow> block_len (cb_buffer buf) (cb_start buf);
     let blocklen = bdivide_up len block_size;
     ASSERT (blocklen \<le> cb_wrap buf - cb_start buf - 1);
     ASSERT (blocklen \<le> cb_used buf - 1);
     let data_wrapped = (cb_used buf \<ge> cb_wrap buf - cb_start buf);
     let buf = buf\<lparr>cb_start := cb_start buf + (1 + blocklen), cb_used := cb_used buf - (1 + blocklen)\<rparr>;
     let buf = (if cb_start buf = cb_wrap buf
                then buf\<lparr>cb_start := 0, cb_wrap := cb_size buf\<rparr> else buf);
     ASSERT (ChunkBuffer2_assert_buffer buf);
     let buf = (if data_wrapped then ChunkBuffer2_update_input buf else buf);
     buf \<leftarrow> ChunkBuffer2_update_output buf;
     ASSERT (ChunkBuffer2_assert_io buf);
     Some buf
   }"

section \<open>Stored packets\<close>

definition chunk_blocks :: "bytes \<Rightarrow> int" where
  "chunk_blocks p = bdivide_up (int (length p)) block_size"

lemma bdivide_up_block: "bdivide_up n block_size = (n + 3) div 4"
  unfolding bdivide_up_def block_size_def Let_def by presburger

lemma chunk_blocks_bounds:
  "0 \<le> chunk_blocks p" "int (length p) \<le> 4 * chunk_blocks p" "4 * chunk_blocks p \<le> int (length p) + 3"
  by (simp_all add: chunk_blocks_def bdivide_up_block)

text \<open>
  \<open>stored m pos ps e\<close>: the packets \<open>ps\<close> lie one after the other in the blocks from \<open>pos\<close> up to
  \<open>e\<close>.  \<open>limit\<close> bounds the block where a packet may begin.
\<close>

primrec stored :: "int \<Rightarrow> bytes \<Rightarrow> int \<Rightarrow> bytes list \<Rightarrow> int \<Rightarrow> bool" where
  "stored limit m pos [] e \<longleftrightarrow> pos = e"
| "stored limit m pos (p # ps) e \<longleftrightarrow>
     pos \<le> limit \<and> int (length p) \<le> INT_MAX \<and>
     mem_read m (4 * pos) 4 = Some (le32_bytes (word_of_int (int (length p)))) \<and>
     mem_read m (4 * (pos + 1)) (int (length p)) = Some p \<and>
     stored limit m (pos + 1 + chunk_blocks p) ps e"

lemma stored_le: "stored limit m pos ps e \<Longrightarrow> pos \<le> e"
proof (induction ps arbitrary: pos)
  case (Cons p ps)
  then show ?case using chunk_blocks_bounds(1) [of p] by fastforce
qed simp

lemma stored_less: "stored limit m pos (p # ps) e \<Longrightarrow> pos + 1 + chunk_blocks p \<le> e \<and> pos < e"
  using chunk_blocks_bounds(1) [of p] stored_le [of limit m "pos + 1 + chunk_blocks p" ps e] by simp

lemma stored_empty: "stored limit m pos ps e \<Longrightarrow> ps = [] \<longleftrightarrow> pos = e"
  using stored_less [of limit m pos "hd ps" "tl ps" e] by (cases ps) auto

lemma stored_append:
  "stored limit m pos (ps @ qs) e \<longleftrightarrow> (\<exists>k. stored limit m pos ps k \<and> stored limit m k qs e)"
  by (induction ps arbitrary: pos) auto

text \<open>A write outside the blocks of the stored packets leaves them as they are.\<close>

lemma stored_write:
  assumes "mem_write m off ys = Some m'" and "4 * e \<le> off \<or> off + int (length ys) \<le> 4 * pos"
    and "stored limit m pos ps e"
  shows "stored limit m' pos ps e"
  using assms(2,3)
proof (induction ps arbitrary: pos)
  case Nil
  then show ?case by simp
next
  case (Cons p ps)
  note c = chunk_blocks_bounds [of p]
  from Cons.prems(2) have st: "stored limit m (pos + 1 + chunk_blocks p) ps e" by simp
  then have e: "pos + 1 + chunk_blocks p \<le> e" by (rule stored_le)
  have "4 * (pos + 1 + chunk_blocks p) \<le> 4 * e" using e by simp
  then have "4 * (pos + 1) + int (length p) \<le> 4 * e" using c(2) by (simp add: algebra_simps)
  then have out: "4 * pos + 4 \<le> off \<and> 4 * (pos + 1) + int (length p) \<le> off \<or> off + int (length ys) \<le> 4 * pos"
    using Cons.prems(1) by auto
  have "mem_read m' (4 * pos) 4 = mem_read m (4 * pos) 4"
    using mem_read_write_other [OF assms(1), of "4 * pos" 4] out by auto
  moreover have "mem_read m' (4 * (pos + 1)) (int (length p)) = mem_read m (4 * (pos + 1)) (int (length p))"
    using mem_read_write_other [OF assms(1), of "4 * (pos + 1)" "int (length p)"] out by auto
  moreover have "stored limit m' (pos + 1 + chunk_blocks p) ps e"
    using Cons.IH [OF _ st] Cons.prems(1) c(1) by auto
  ultimately show ?case using Cons.prems(2) by simp
qed

lemma sint_le32: "0 \<le> n \<Longrightarrow> n \<le> INT_MAX \<Longrightarrow> sint (word_of_int n :: 32 word) = n"
  by (simp add: INT_MAX_def sint_sbintrunc' signed_take_bit_int_eq_self)

lemma block_len_stored:
  "stored limit m pos (p # ps) e \<Longrightarrow> block_len m pos = Some (int (length p))"
  using sint_le32 [of "int (length p)"] by (simp add: block_len_def block_size_def)

text \<open>Writing a packet's bytes and then its length stores it.\<close>

lemma stored_new:
  assumes "mem_write m (4 * (pos + 1)) p = Some m1" and "set_block_len m1 pos (int (length p)) = Some m2"
    and "pos \<le> limit" and "int (length p) \<le> INT_MAX"
  shows "stored limit m2 pos [p] (pos + 1 + chunk_blocks p)"
proof -
  have w: "mem_write m1 (4 * pos) (le32_bytes (word_of_int (int (length p)))) = Some m2"
    using assms(2) by (simp add: set_block_len_def block_size_def)
  have "mem_read m2 (4 * pos) 4 = Some (le32_bytes (word_of_int (int (length p))))"
    using mem_read_write_same [OF w] by simp
  moreover have "mem_read m2 (4 * (pos + 1)) (int (length p)) = Some p"
    using mem_read_write_other [OF w, of "4 * (pos + 1)" "int (length p)"] mem_read_write_same [OF assms(1)]
    by simp
  ultimately show ?thesis using assms(3,4) by simp
qed

section \<open>Invariant\<close>

text \<open>
  The packets \<open>ps\<close> are stored from \<open>start\<close>, and, once the buffer has wrapped, from the beginning.
  Packets begin only where a maximal packet fits, so the next packet always has a place.
\<close>

definition cb_wrapped :: "ChunkBuffer2 \<Rightarrow> bool" where
  "cb_wrapped b \<longleftrightarrow> cb_used b \<ge> cb_wrap b - cb_start b"

definition cb_limit :: "ChunkBuffer2 \<Rightarrow> int" where
  "cb_limit b = cb_size b - 1 - cb_mtu b"

definition cb_layout :: "ChunkBuffer2 \<Rightarrow> bytes list \<Rightarrow> bool" where
  "cb_layout b ps \<longleftrightarrow>
     0 \<le> cb_mtu b \<and> cb_mtu b < cb_size b \<and> 4 * cb_size b \<le> INT_MAX \<and>
     int (length (cb_buffer b)) = 4 * cb_size b \<and>
     0 \<le> cb_start b \<and> cb_start b < cb_wrap b \<and> cb_wrap b \<le> cb_size b \<and> 0 \<le> cb_used b \<and>
     (if cb_wrapped b then
        cb_limit b < cb_wrap b \<and> cb_used b \<le> cb_wrap b \<and>
        (\<exists>ps1 ps2. ps = ps1 @ ps2 \<and> stored (cb_limit b) (cb_buffer b) (cb_start b) ps1 (cb_wrap b) \<and>
           stored (cb_limit b) (cb_buffer b) 0 ps2 (ChunkBuffer2_end b))
      else
        cb_wrap b = cb_size b \<and> ChunkBuffer2_end b \<le> cb_limit b \<and>
        stored (cb_limit b) (cb_buffer b) (cb_start b) ps (ChunkBuffer2_end b))"

definition cb_io :: "ChunkBuffer2 \<Rightarrow> bytes list \<Rightarrow> bool" where
  "cb_io b ps \<longleftrightarrow>
     (if ChunkBuffer2_free b > 0
      then cb_input_dest b = Some (4 * (ChunkBuffer2_end b + 1)) \<and>
           cb_input_avail b = (ChunkBuffer2_free b - 1) * 4
      else cb_input_dest b = None \<and> cb_input_avail b = -1) \<and>
     (case ps of
        [] \<Rightarrow> cb_output_dest b = None \<and> cb_output_avail b = -1
      | p # _ \<Rightarrow> cb_output_dest b = Some (4 * (cb_start b + 1)) \<and> cb_output_avail b = int (length p))"

definition cb_inv :: "ChunkBuffer2 \<Rightarrow> bytes list \<Rightarrow> bool" where
  "cb_inv b ps \<longleftrightarrow> cb_layout b ps \<and> cb_io b ps"

lemma cb_layout_io [simp]:
  "cb_layout (b\<lparr>cb_input_dest := d, cb_input_avail := n\<rparr>) ps = cb_layout b ps"
  "cb_layout (b\<lparr>cb_output_dest := d, cb_output_avail := n\<rparr>) ps = cb_layout b ps"
  by (simp_all add: cb_layout_def cb_wrapped_def cb_limit_def ChunkBuffer2_end_def cong: if_cong)

lemma cb_end_io [simp]:
  "ChunkBuffer2_end (b\<lparr>cb_input_dest := d, cb_input_avail := n\<rparr>) = ChunkBuffer2_end b"
  "ChunkBuffer2_end (b\<lparr>cb_output_dest := d, cb_output_avail := n\<rparr>) = ChunkBuffer2_end b"
  "ChunkBuffer2_free (b\<lparr>cb_input_dest := d, cb_input_avail := n\<rparr>) = ChunkBuffer2_free b"
  "ChunkBuffer2_free (b\<lparr>cb_output_dest := d, cb_output_avail := n\<rparr>) = ChunkBuffer2_free b"
  by (simp_all add: ChunkBuffer2_end_def ChunkBuffer2_free_def)

lemma cb_layout_wrappedI:
  assumes "0 \<le> cb_mtu b" "cb_mtu b < cb_size b" "4 * cb_size b \<le> INT_MAX"
    "int (length (cb_buffer b)) = 4 * cb_size b" "0 \<le> cb_start b" "cb_start b < cb_wrap b"
    "cb_wrap b \<le> cb_size b" "cb_wrapped b" "cb_limit b < cb_wrap b" "cb_used b \<le> cb_wrap b"
    and "stored (cb_limit b) (cb_buffer b) (cb_start b) ps1 (cb_wrap b)"
    and "stored (cb_limit b) (cb_buffer b) 0 ps2 (ChunkBuffer2_end b)"
  shows "cb_layout b (ps1 @ ps2)"
  using assms by (auto simp: cb_layout_def cb_wrapped_def)

lemma cb_io_buffer [simp]: "cb_io (b\<lparr>cb_buffer := m\<rparr>) ps = cb_io b ps"
  by (cases ps) (simp_all add: cb_io_def ChunkBuffer2_free_def ChunkBuffer2_end_def)

lemma cb_end_limit:
  assumes "cb_layout b ps"
  shows "0 \<le> ChunkBuffer2_end b" "ChunkBuffer2_end b \<le> cb_limit b"
    and "cb_wrapped b \<Longrightarrow> ChunkBuffer2_end b \<le> cb_start b"
proof -
  show "0 \<le> ChunkBuffer2_end b"
    using assms by (auto simp: cb_layout_def ChunkBuffer2_end_def)
  show w: "ChunkBuffer2_end b \<le> cb_start b" if "cb_wrapped b"
    using assms that by (auto simp: cb_layout_def ChunkBuffer2_end_def cb_wrapped_def)
  show "ChunkBuffer2_end b \<le> cb_limit b"
  proof (cases "cb_wrapped b")
    case True
    with assms obtain ps1 where "stored (cb_limit b) (cb_buffer b) (cb_start b) ps1 (cb_wrap b)"
      "cb_start b < cb_wrap b" by (auto simp: cb_layout_def)
    then have "cb_start b \<le> cb_limit b" by (cases ps1) auto
    with w [OF True] show ?thesis by simp
  next
    case False
    with assms show ?thesis by (simp add: cb_layout_def)
  qed
qed

text \<open>The first stored packet lies at \<open>start\<close>, wrapped or not.\<close>

lemma cb_layout_stored_prefix:
  assumes "cb_layout b ps"
  shows "\<exists>ps1 ps2 e. ps = ps1 @ ps2 \<and> stored (cb_limit b) (cb_buffer b) (cb_start b) ps1 e \<and>
    e \<le> cb_wrap b \<and> e - cb_start b \<le> cb_used b \<and> (ps1 = [] \<longrightarrow> ps2 = [] \<and> cb_used b = 0)"
proof (cases "cb_wrapped b")
  case True
  with assms obtain ps1 ps2 where "ps = ps1 @ ps2"
    "stored (cb_limit b) (cb_buffer b) (cb_start b) ps1 (cb_wrap b)" "cb_start b < cb_wrap b"
    by (auto simp: cb_layout_def)
  moreover from this have "ps1 \<noteq> []" by auto
  ultimately show ?thesis using True by (auto simp: cb_wrapped_def)
next
  case False
  with assms have "stored (cb_limit b) (cb_buffer b) (cb_start b) ps (cb_start b + cb_used b)"
    "cb_used b < cb_wrap b - cb_start b"
    by (auto simp: cb_layout_def ChunkBuffer2_end_def cb_wrapped_def)
  then show ?thesis
    by (intro exI [of _ ps] exI [of _ "[]"] exI [of _ "cb_start b + cb_used b"]) auto
qed

lemma cb_layout_used: "cb_layout b ps \<Longrightarrow> cb_used b > 0 \<longleftrightarrow> ps \<noteq> []"
proof -
  assume l: "cb_layout b ps"
  from cb_layout_stored_prefix [OF l] obtain ps1 ps2 e where
    "ps = ps1 @ ps2" "stored (cb_limit b) (cb_buffer b) (cb_start b) ps1 e" "e - cb_start b \<le> cb_used b"
    "ps1 = [] \<longrightarrow> ps2 = [] \<and> cb_used b = 0" by blast
  moreover from this have "ps1 \<noteq> [] \<Longrightarrow> cb_start b < e"
    using stored_le stored_empty by fastforce
  ultimately show ?thesis by (cases "ps1 = []") auto
qed

lemma cb_layout_first:
  assumes "cb_layout b (p # qs)"
  shows "block_len (cb_buffer b) (cb_start b) = Some (int (length p))"
    and "chunk_blocks p \<le> cb_used b - 1" "chunk_blocks p \<le> cb_wrap b - cb_start b - 1"
    and "mem_read (cb_buffer b) (4 * (cb_start b + 1)) (int (length p)) = Some p"
proof -
  from cb_layout_stored_prefix [OF assms] obtain ps1 ps2 e where
    s: "p # qs = ps1 @ ps2" "stored (cb_limit b) (cb_buffer b) (cb_start b) ps1 e" "e \<le> cb_wrap b"
      "e - cb_start b \<le> cb_used b" "ps1 = [] \<longrightarrow> ps2 = []" by blast
  then obtain ps1' where ps1: "ps1 = p # ps1'" by (cases ps1) auto
  from s(2) have st: "stored (cb_limit b) (cb_buffer b) (cb_start b + 1 + chunk_blocks p) ps1' e"
    by (simp add: ps1)
  then have "cb_start b + 1 + chunk_blocks p \<le> e" by (rule stored_le)
  with s(3,4) show "chunk_blocks p \<le> cb_used b - 1" "chunk_blocks p \<le> cb_wrap b - cb_start b - 1"
    by linarith+
  show "block_len (cb_buffer b) (cb_start b) = Some (int (length p))"
    using s(2) block_len_stored ps1 by blast
  show "mem_read (cb_buffer b) (4 * (cb_start b + 1)) (int (length p)) = Some p"
    using s(2) by (simp add: ps1)
qed

lemma cb_layout_assert_buffer: "cb_layout b ps \<Longrightarrow> ChunkBuffer2_assert_buffer b"
  by (auto simp: cb_layout_def ChunkBuffer2_assert_buffer_def cb_wrapped_def split: if_splits)

lemma cb_inv_assert_io:
  assumes "cb_inv b ps"
  shows "ChunkBuffer2_assert_io b"
proof -
  from assms have l: "cb_layout b ps" and io: "cb_io b ps" by (auto simp: cb_inv_def)
  have e: "\<not> cb_size b - ChunkBuffer2_end b - 1 < cb_mtu b"
    using cb_end_limit(2) [OF l] by (simp add: cb_limit_def)
  show ?thesis
  proof (cases ps)
    case Nil
    with io e cb_layout_used [OF l] show ?thesis
      by (auto simp: ChunkBuffer2_assert_io_def cb_io_def block_size_def Let_def)
  next
    case (Cons p qs)
    with io e cb_layout_used [OF l] cb_layout_first [OF l [unfolded Cons]] show ?thesis
      by (auto simp: ChunkBuffer2_assert_io_def cb_io_def block_size_def Let_def chunk_blocks_def)
  qed
qed

text \<open>The updates of the input and output fields re-establish them.\<close>

lemma cb_update_input:
  assumes "cb_layout b ps"
  shows "cb_layout (ChunkBuffer2_update_input b) ps"
    and "ChunkBuffer2_update_input b = b\<lparr>
      cb_input_dest := (if ChunkBuffer2_free b > 0 then Some (4 * (ChunkBuffer2_end b + 1)) else None),
      cb_input_avail := (if ChunkBuffer2_free b > 0 then (ChunkBuffer2_free b - 1) * 4 else -1)\<rparr>"
proof -
  have e: "\<not> cb_size b - ChunkBuffer2_end b - 1 < cb_mtu b"
    using cb_end_limit(2) [OF assms] by (simp add: cb_limit_def)
  then show u: "ChunkBuffer2_update_input b = b\<lparr>
      cb_input_dest := (if ChunkBuffer2_free b > 0 then Some (4 * (ChunkBuffer2_end b + 1)) else None),
      cb_input_avail := (if ChunkBuffer2_free b > 0 then (ChunkBuffer2_free b - 1) * 4 else -1)\<rparr>"
    by (auto simp: ChunkBuffer2_update_input_def ChunkBuffer2_free_def block_size_def Let_def)
  show "cb_layout (ChunkBuffer2_update_input b) ps"
    using assms unfolding u by simp
qed

lemma cb_update_output:
  assumes "cb_layout b ps"
  shows "ChunkBuffer2_update_output b = Some (b\<lparr>
      cb_output_dest := (if ps = [] then None else Some (4 * (cb_start b + 1))),
      cb_output_avail := (if ps = [] then -1 else int (length (hd ps)))\<rparr>)"
proof (cases ps)
  case Nil
  with cb_layout_used [OF assms] show ?thesis by (simp add: ChunkBuffer2_update_output_def)
next
  case (Cons p qs)
  with cb_layout_used [OF assms] cb_layout_first [OF assms [unfolded Cons]] show ?thesis
    by (simp add: ChunkBuffer2_update_output_def block_size_def flip: chunk_blocks_def)
      (simp add: chunk_blocks_def block_size_def)
qed

lemma cb_layout_restore:
  assumes "cb_layout b ps"
  shows "\<exists>b'. ChunkBuffer2_update_output (ChunkBuffer2_update_input b) = Some b' \<and> cb_inv b' ps \<and>
    cb_size b' = cb_size b \<and> cb_mtu b' = cb_mtu b \<and> cb_start b' = cb_start b"
  using cb_update_output [OF cb_update_input(1) [OF assms]] assms
  by (cases ps) (auto simp: cb_update_input(2) [OF assms] cb_inv_def cb_io_def ChunkBuffer2_free_def
      ChunkBuffer2_end_def cb_layout_def cb_wrapped_def cb_limit_def cong: if_cong)

section \<open>Correctness of the operations\<close>

lemma cb_layout_write:
  assumes l: "cb_layout b ps" and w: "mem_write (cb_buffer b) off ys = Some m"
    and r: "4 * ChunkBuffer2_end b \<le> off"
      "off + int (length ys) \<le> 4 * (ChunkBuffer2_end b + ChunkBuffer2_free b)"
  shows "cb_layout (b\<lparr>cb_buffer := m\<rparr>) ps"
proof -
  note len = mem_write_length [OF w]
  show ?thesis
  proof (cases "cb_wrapped b")
    case True
    then have f: "ChunkBuffer2_end b + ChunkBuffer2_free b = cb_start b"
      by (simp add: ChunkBuffer2_free_def cb_wrapped_def)
    from l True obtain ps1 ps2 where ps: "ps = ps1 @ ps2"
      "stored (cb_limit b) (cb_buffer b) (cb_start b) ps1 (cb_wrap b)"
      "stored (cb_limit b) (cb_buffer b) 0 ps2 (ChunkBuffer2_end b)" by (auto simp: cb_layout_def)
    have "stored (cb_limit b) m (cb_start b) ps1 (cb_wrap b)"
      using stored_write [OF w _ ps(2)] r(2) f by simp
    moreover have "stored (cb_limit b) m 0 ps2 (ChunkBuffer2_end b)"
      using stored_write [OF w _ ps(3)] r(1) by simp
    ultimately show ?thesis
      using l True ps(1) len
      by (auto simp: cb_layout_def cb_wrapped_def cb_limit_def ChunkBuffer2_end_def)
  next
    case False
    with l have "stored (cb_limit b) (cb_buffer b) (cb_start b) ps (ChunkBuffer2_end b)"
      by (simp add: cb_layout_def)
    then have "stored (cb_limit b) m (cb_start b) ps (ChunkBuffer2_end b)"
      using stored_write [OF w] r(1) by simp
    with l False len show ?thesis
      by (simp add: cb_layout_def cb_wrapped_def cb_limit_def ChunkBuffer2_end_def)
  qed
qed

definition cb_push :: "int \<Rightarrow> ChunkBuffer2 \<Rightarrow> ChunkBuffer2" where
  "cb_push blocklen buf =
     (let end = ChunkBuffer2_end buf;
          buf = buf\<lparr>cb_used := cb_used buf + (1 + blocklen)\<rparr>
      in if cb_used buf \<le> cb_wrap buf - cb_start buf \<and>
            cb_mtu buf > cb_size buf - (end + 1 + blocklen) - 1
         then buf\<lparr>cb_wrap := end + 1 + blocklen\<rparr> else buf)"

lemma SubmitPacket_push:
  "ChunkBuffer2_SubmitPacket len buf = do {
     ASSERT (cb_input_dest buf \<noteq> None \<and> len \<ge> 0 \<and> len \<le> cb_input_avail buf \<and>
       ChunkBuffer2_assert_buffer buf \<and> ChunkBuffer2_assert_io buf);
     let n = bdivide_up len block_size;
     ASSERT (n \<le> cb_size buf - ChunkBuffer2_end buf - 1 \<and>
       (cb_used buf < cb_wrap buf - cb_start buf \<or> n \<le> cb_start buf - ChunkBuffer2_end buf - 1));
     m \<leftarrow> set_block_len (cb_buffer buf) (ChunkBuffer2_end buf) len;
     let b3 = cb_push n (buf\<lparr>cb_buffer := m\<rparr>);
     ASSERT (ChunkBuffer2_assert_buffer b3);
     let b4 = ChunkBuffer2_update_input b3;
     b5 \<leftarrow> (if cb_used b4 = 1 + n then ChunkBuffer2_update_output b4 else Some b4);
     ASSERT (ChunkBuffer2_assert_io b5);
     Some b5 }"
proof -
  have e: "ChunkBuffer2_end (buf\<lparr>cb_buffer := m\<rparr>) = ChunkBuffer2_end buf" for m
    by (simp add: ChunkBuffer2_end_def)
  show ?thesis
    by (cases "cb_input_dest buf") (simp_all add: ChunkBuffer2_SubmitPacket_def ASSERT_def cb_push_def Let_def e cong: if_cong)
qed

lemma cb_layout_push:
  assumes l: "cb_layout b ps"
    and st: "stored (cb_limit b) (cb_buffer b) (ChunkBuffer2_end b) [p] (ChunkBuffer2_end b + 1 + chunk_blocks p)"
    and f: "1 + chunk_blocks p \<le> ChunkBuffer2_free b"
  shows "cb_layout (cb_push (chunk_blocks p) b) (ps @ [p])"
proof -
  let ?e = "ChunkBuffer2_end b" and ?n = "chunk_blocks p"
  have n: "0 \<le> ?n" by (rule chunk_blocks_bounds)
  show ?thesis
  proof (cases "cb_wrapped b")
    case True
    with l obtain ps1 ps2 where ps: "ps = ps1 @ ps2"
      "stored (cb_limit b) (cb_buffer b) (cb_start b) ps1 (cb_wrap b)"
      "stored (cb_limit b) (cb_buffer b) 0 ps2 ?e" by (auto simp: cb_layout_def)
    have p: "cb_push ?n b = b\<lparr>cb_used := cb_used b + (1 + ?n)\<rparr>"
      using True n by (simp add: cb_push_def cb_wrapped_def Let_def)
    have "stored (cb_limit b) (cb_buffer b) 0 (ps2 @ [p]) (?e + 1 + ?n)"
      using ps(3) st by (auto simp: stored_append)
    moreover have "ChunkBuffer2_end (cb_push ?n b) = ?e + 1 + ?n" "cb_wrapped (cb_push ?n b)"
      using True n by (simp_all add: p ChunkBuffer2_end_def cb_wrapped_def)
    moreover have "cb_used b + (1 + ?n) \<le> cb_wrap b"
      using f True by (simp add: ChunkBuffer2_free_def ChunkBuffer2_end_def cb_wrapped_def)
    ultimately have "cb_layout (cb_push ?n b) (ps1 @ ps2 @ [p])"
      using l True ps(2) by (intro cb_layout_wrappedI) (simp_all add: cb_layout_def p cb_limit_def)
    then show ?thesis by (simp add: ps(1))
  next
    case False
    then have e: "?e = cb_start b + cb_used b" by (simp add: ChunkBuffer2_end_def cb_wrapped_def)
    have w: "cb_wrap b = cb_size b" using l False by (simp add: cb_layout_def)
    have fit: "?e + 1 + ?n \<le> cb_size b"
      using f False by (simp add: ChunkBuffer2_free_def cb_wrapped_def)
    have st2: "stored (cb_limit b) (cb_buffer b) (cb_start b) (ps @ [p]) (?e + 1 + ?n)"
      using l False st by (auto simp: cb_layout_def stored_append)
    show ?thesis
    proof (cases "cb_mtu b > cb_size b - (?e + 1 + ?n) - 1")
      case True
      have p: "cb_push ?n b = b\<lparr>cb_used := cb_used b + (1 + ?n), cb_wrap := ?e + 1 + ?n\<rparr>"
        using True fit w e by (simp add: cb_push_def Let_def)
      have wr: "cb_wrapped (cb_push ?n b)"
        unfolding p e by (simp add: cb_wrapped_def)
      have e0: "ChunkBuffer2_end (cb_push ?n b) = 0"
        unfolding p e by (simp add: ChunkBuffer2_end_def)
      have "cb_layout (cb_push ?n b) ((ps @ [p]) @ [])"
        using l True n fit st2 e wr e0
        by (intro cb_layout_wrappedI) (simp_all add: cb_layout_def p cb_limit_def)
      then show ?thesis by simp
    next
      case nf: False
      have p: "cb_push ?n b = b\<lparr>cb_used := cb_used b + (1 + ?n)\<rparr>"
        using nf by (simp add: cb_push_def Let_def)
      have mtu: "0 \<le> cb_mtu b" using l by (simp add: cb_layout_def)
      have nw: "\<not> cb_wrapped (cb_push ?n b)"
        using nf mtu w e by (simp add: p cb_wrapped_def)
      then have "ChunkBuffer2_end (cb_push ?n b) = ?e + 1 + ?n"
        unfolding p e by (simp add: cb_wrapped_def ChunkBuffer2_end_def)
      with l nw n nf st2 w show ?thesis
        by (auto simp: cb_layout_def p cb_limit_def)
    qed
  qed
qed

lemma cb_submit:
  assumes inv: "cb_inv b ps" and avail: "int (length p) \<le> cb_input_avail b"
  shows "\<exists>off m b'. cb_input_dest b = Some off \<and> mem_write (cb_buffer b) off p = Some m \<and>
    ChunkBuffer2_SubmitPacket (int (length p)) (b\<lparr>cb_buffer := m\<rparr>) = Some b' \<and> cb_inv b' (ps @ [p]) \<and>
    cb_size b' = cb_size b \<and> cb_mtu b' = cb_mtu b \<and> cb_start b' = cb_start b"
proof -
  let ?e = "ChunkBuffer2_end b" and ?n = "chunk_blocks p"
  from inv have l: "cb_layout b ps" and io: "cb_io b ps" by (auto simp: cb_inv_def)
  note e = cb_end_limit [OF l]
  have io': "0 < ChunkBuffer2_free b" "cb_input_dest b = Some (4 * (?e + 1))"
    "cb_input_avail b = (ChunkBuffer2_free b - 1) * 4"
    using io avail by (auto simp: cb_io_def split: if_splits)
  have fits: "?n \<le> ChunkBuffer2_free b - 1"
    using avail io'(3) chunk_blocks_bounds [of p] by presburger
  have size: "?e + ChunkBuffer2_free b \<le> cb_size b" "4 * cb_size b \<le> INT_MAX"
    "int (length (cb_buffer b)) = 4 * cb_size b"
    using l by (auto simp: cb_layout_def ChunkBuffer2_free_def)
  obtain m where m: "mem_write (cb_buffer b) (4 * (?e + 1)) p = Some m"
    using avail io'(3) size e(1) by (simp add: mem_write_def)
  have l1: "cb_layout (b\<lparr>cb_buffer := m\<rparr>) ps"
    using cb_layout_write [OF l m] avail io'(3) by simp
  have l1i: "cb_inv (b\<lparr>cb_buffer := m\<rparr>) ps"
    using l1 io by (simp add: cb_inv_def)
  obtain m2 where m2: "set_block_len m ?e (int (length p)) = Some m2"
    using mem_write_length [OF m] size e(1) io'(1)
    by (simp add: set_block_len_def block_size_def mem_write_def)
  have [simp]: "ChunkBuffer2_end (b\<lparr>cb_buffer := x\<rparr>) = ?e" "ChunkBuffer2_free (b\<lparr>cb_buffer := x\<rparr>) = ChunkBuffer2_free b" for x
    by (simp_all add: ChunkBuffer2_end_def ChunkBuffer2_free_def)
  have l2: "cb_layout (b\<lparr>cb_buffer := m2\<rparr>) ps"
    using cb_layout_write [OF l1, of "4 * ?e" "le32_bytes (word_of_int (int (length p)))" m2] m2 io'(1)
    by (simp add: set_block_len_def block_size_def)
  have "int (length p) \<le> INT_MAX"
    using avail [unfolded io'(3)] size(1,2) e(1) by (simp add: algebra_simps)
  then have st: "stored (cb_limit b) m2 ?e [p] (?e + 1 + ?n)"
    by (rule stored_new [OF m m2 e(2)])
  have l3: "cb_layout (cb_push ?n (b\<lparr>cb_buffer := m2\<rparr>)) (ps @ [p])"
    using cb_layout_push [OF l2] st fits by (simp add: cb_limit_def)
  have asserts: "?n \<le> cb_size b - ?e - 1"
    "cb_used b < cb_wrap b - cb_start b \<or> ?n \<le> cb_start b - ?e - 1"
    using fits size by (auto simp: ChunkBuffer2_free_def split: if_splits)
  let ?b3 = "cb_push ?n (b\<lparr>cb_buffer := m2\<rparr>)"
  have used3: "cb_used ?b3 = cb_used b + (1 + ?n)" "cb_output_dest ?b3 = cb_output_dest b"
    "cb_output_avail ?b3 = cb_output_avail b" "cb_start ?b3 = cb_start b"
    "cb_size ?b3 = cb_size b" "cb_mtu ?b3 = cb_mtu b"
    by (simp_all add: cb_push_def Let_def)
  let ?b4 = "ChunkBuffer2_update_input ?b3"
  note u = cb_update_input [OF l3]
  have empty: "cb_used b = 0 \<longleftrightarrow> ps = []" using cb_layout_used [OF l] l by (auto simp: cb_layout_def)
  obtain b' where b': "(if cb_used ?b4 = 1 + ?n then ChunkBuffer2_update_output ?b4 else Some ?b4) = Some b'"
    and i': "cb_inv b' (ps @ [p])"
    and k': "cb_size b' = cb_size b" "cb_mtu b' = cb_mtu b" "cb_start b' = cb_start b"
  proof (cases "ps = []")
    case True
    with cb_layout_restore [OF l3] empty that used3 show thesis by (auto simp: u(2))
  next
    case False
    then obtain q qs where ps: "ps = q # qs" by (cases ps) auto
    have "cb_inv ?b4 (ps @ [p])"
      using u(1) io ps used3
      by (auto simp: cb_inv_def cb_io_def u(2) ChunkBuffer2_free_def ChunkBuffer2_end_def)
    moreover have "cb_used ?b4 \<noteq> 1 + ?n" using False empty used3 by (simp add: u(2))
    ultimately show thesis using that used3 by (simp add: u(2))
  qed
  have "ChunkBuffer2_SubmitPacket (int (length p)) (b\<lparr>cb_buffer := m\<rparr>) = Some b'"
    using cb_layout_assert_buffer [OF l1] cb_inv_assert_io [OF l1i] m2 asserts io' avail
      cb_layout_assert_buffer [OF l3] b' cb_inv_assert_io [OF i']
    unfolding SubmitPacket_push by (simp add: Let_def flip: chunk_blocks_def)
  with io' m i' k' show ?thesis by blast
qed

text \<open>Consuming a packet never moves the place where the next one goes.\<close>

definition cb_pop :: "int \<Rightarrow> ChunkBuffer2 \<Rightarrow> ChunkBuffer2" where
  "cb_pop blocklen buf =
     (let buf = buf\<lparr>cb_start := cb_start buf + (1 + blocklen), cb_used := cb_used buf - (1 + blocklen)\<rparr>
      in if cb_start buf = cb_wrap buf then buf\<lparr>cb_start := 0, cb_wrap := cb_size buf\<rparr> else buf)"

lemma cb_layout_pop:
  assumes l: "cb_layout b (p # qs)"
  shows "cb_layout (cb_pop (chunk_blocks p) b) qs"
    and "ChunkBuffer2_end (cb_pop (chunk_blocks p) b) = ChunkBuffer2_end b"
    and "\<not> cb_wrapped b \<Longrightarrow> ChunkBuffer2_free (cb_pop (chunk_blocks p) b) = ChunkBuffer2_free b"
    and "ChunkBuffer2_free b \<le> ChunkBuffer2_free (cb_pop (chunk_blocks p) b)"
proof -
  let ?n = "chunk_blocks p" and ?b = "cb_pop (chunk_blocks p) b"
  have n: "0 \<le> ?n" by (rule chunk_blocks_bounds)
  note f = cb_layout_first [OF l]
  have "cb_layout ?b qs \<and> ChunkBuffer2_end ?b = ChunkBuffer2_end b \<and>
    (\<not> cb_wrapped b \<longrightarrow> ChunkBuffer2_free ?b = ChunkBuffer2_free b) \<and>
    ChunkBuffer2_free b \<le> ChunkBuffer2_free ?b"
  proof (cases "cb_wrapped b")
    case False
    then have lt: "cb_start b + (1 + ?n) < cb_wrap b" using f(2) by (simp add: cb_wrapped_def)
    then have b: "?b = b\<lparr>cb_start := cb_start b + (1 + ?n), cb_used := cb_used b - (1 + ?n)\<rparr>"
      by (simp add: cb_pop_def Let_def)
    have nw: "\<not> cb_wrapped ?b" using False by (simp add: b cb_wrapped_def)
    have e: "ChunkBuffer2_end ?b = ChunkBuffer2_end b"
      using False nw by (simp add: ChunkBuffer2_end_def cb_wrapped_def b)
    have fr: "ChunkBuffer2_free ?b = ChunkBuffer2_free b"
      using False nw e by (simp add: ChunkBuffer2_free_def cb_wrapped_def b)
    have "stored (cb_limit b) (cb_buffer b) (cb_start b + (1 + ?n)) qs (ChunkBuffer2_end b)"
      using l False by (simp add: cb_layout_def add.assoc)
    with l False nw e n f lt have "cb_layout ?b qs"
      by (auto simp: cb_layout_def b cb_limit_def)
    with e fr show ?thesis by simp
  next
    case True
    with l obtain ps1 ps2 where ps: "p # qs = ps1 @ ps2"
      "stored (cb_limit b) (cb_buffer b) (cb_start b) ps1 (cb_wrap b)"
      "stored (cb_limit b) (cb_buffer b) 0 ps2 (ChunkBuffer2_end b)" "cb_start b < cb_wrap b"
      by (auto simp: cb_layout_def)
    then obtain ps1' where ps1: "ps1 = p # ps1'" and qs: "qs = ps1' @ ps2" by (cases ps1) auto
    have st: "stored (cb_limit b) (cb_buffer b) (cb_start b + (1 + ?n)) ps1' (cb_wrap b)"
      using ps(2) by (simp add: ps1 add.assoc)
    show ?thesis
    proof (cases "ps1' = []")
      case e: True
      with st have w: "cb_start b + (1 + ?n) = cb_wrap b" by simp
      then have b: "?b = b\<lparr>cb_start := 0, cb_used := cb_used b - (1 + ?n), cb_wrap := cb_size b\<rparr>"
        by (simp add: cb_pop_def Let_def)
      have e1: "ChunkBuffer2_end b = cb_used b - (1 + ?n)"
        using True w by (simp add: ChunkBuffer2_end_def cb_wrapped_def)
      have lt: "ChunkBuffer2_end b < cb_size b"
        using cb_end_limit(2) [OF l] l by (simp add: cb_layout_def cb_limit_def)
      have nw: "\<not> cb_wrapped ?b" using lt e1 by (simp add: b cb_wrapped_def)
      have e2: "ChunkBuffer2_end ?b = ChunkBuffer2_end b"
        using nw unfolding e1 by (simp add: ChunkBuffer2_end_def cb_wrapped_def b)
      have "cb_layout ?b qs"
        using l nw e2 cb_end_limit(2) [OF l] ps(3) f(2) e qs
        by (simp add: cb_layout_def b cb_limit_def)
      moreover have "ChunkBuffer2_free b \<le> ChunkBuffer2_free ?b"
        using True nw e2 l by (simp add: ChunkBuffer2_free_def b cb_wrapped_def cb_layout_def)
      ultimately show ?thesis using e2 True by simp
    next
      case False
      then have lt: "cb_start b + (1 + ?n) < cb_wrap b"
        using st stored_le stored_empty by fastforce
      then have b: "?b = b\<lparr>cb_start := cb_start b + (1 + ?n), cb_used := cb_used b - (1 + ?n)\<rparr>"
        by (simp add: cb_pop_def Let_def)
      have wr: "cb_wrapped ?b" using True by (simp add: b cb_wrapped_def)
      have e: "ChunkBuffer2_end ?b = ChunkBuffer2_end b"
        using True wr by (simp add: ChunkBuffer2_end_def cb_wrapped_def b)
      have "cb_layout ?b (ps1' @ ps2)"
        using l True wr e lt n f ps(3) st
        by (intro cb_layout_wrappedI) (simp_all add: cb_layout_def b cb_limit_def)
      moreover have "ChunkBuffer2_free b \<le> ChunkBuffer2_free ?b"
        using True wr e n by (simp add: ChunkBuffer2_free_def b cb_wrapped_def)
      ultimately show ?thesis using e True by (simp add: qs)
    qed
  qed
  then show "cb_layout ?b qs" "ChunkBuffer2_end ?b = ChunkBuffer2_end b"
    "\<not> cb_wrapped b \<Longrightarrow> ChunkBuffer2_free ?b = ChunkBuffer2_free b"
    "ChunkBuffer2_free b \<le> ChunkBuffer2_free ?b" by simp_all
qed

lemma ConsumePacket_pop:
  "ChunkBuffer2_ConsumePacket buf = do {
     ASSERT (cb_output_dest buf \<noteq> None \<and> ChunkBuffer2_assert_buffer buf \<and> ChunkBuffer2_assert_io buf \<and>
       1 \<le> cb_wrap buf - cb_start buf \<and> 1 \<le> cb_used buf);
     len \<leftarrow> block_len (cb_buffer buf) (cb_start buf);
     let n = bdivide_up len block_size;
     ASSERT (n \<le> cb_wrap buf - cb_start buf - 1 \<and> n \<le> cb_used buf - 1);
     let b3 = cb_pop n buf;
     ASSERT (ChunkBuffer2_assert_buffer b3);
     b5 \<leftarrow> ChunkBuffer2_update_output (if cb_wrapped buf then ChunkBuffer2_update_input b3 else b3);
     ASSERT (ChunkBuffer2_assert_io b5);
     Some b5 }"
  by (simp add: ChunkBuffer2_ConsumePacket_def ASSERT_conj cb_pop_def cb_wrapped_def Let_def cong: if_cong)

lemma cb_consume:
  assumes inv: "cb_inv b (p # qs)"
  shows "\<exists>b'. ChunkBuffer2_ConsumePacket b = Some b' \<and> cb_inv b' qs \<and>
    cb_size b' = cb_size b \<and> cb_mtu b' = cb_mtu b \<and> cb_buffer b' = cb_buffer b \<and>
    (cb_input_dest b \<noteq> None \<longrightarrow> cb_input_dest b' = cb_input_dest b \<and> cb_input_avail b \<le> cb_input_avail b')"
proof -
  from inv have l: "cb_layout b (p # qs)" and io: "cb_io b (p # qs)" by (auto simp: cb_inv_def)
  let ?n = "chunk_blocks p" and ?b3 = "cb_pop (chunk_blocks p) b"
  note f = cb_layout_first [OF l] and n = chunk_blocks_bounds(1) [of p]
  note l3 = cb_layout_pop(1) [OF l] and e3 = cb_layout_pop(2) [OF l] and f3 = cb_layout_pop(3) [OF l]
  have b3: "cb_size ?b3 = cb_size b" "cb_mtu ?b3 = cb_mtu b" "cb_buffer ?b3 = cb_buffer b"
    "cb_input_dest ?b3 = cb_input_dest b" "cb_input_avail ?b3 = cb_input_avail b"
    by (simp_all add: cb_pop_def Let_def)
  define b4 where "b4 = (if cb_wrapped b then ChunkBuffer2_update_input ?b3 else ?b3)"
  have l4: "cb_layout b4 qs" using l3 cb_update_input(1) [OF l3] by (simp add: b4_def)
  define b5 where "b5 = b4\<lparr>
      cb_output_dest := (if qs = [] then None else Some (4 * (cb_start b4 + 1))),
      cb_output_avail := (if qs = [] then -1 else int (length (hd qs)))\<rparr>"
  have fe: "ChunkBuffer2_end b5 = ChunkBuffer2_end b" "ChunkBuffer2_free b5 = ChunkBuffer2_free ?b3"
    using e3 by (simp_all add: b5_def b4_def cb_update_input(2) [OF l3])
  have inp: "cb_input_dest b5 = (if ChunkBuffer2_free ?b3 > 0 then Some (4 * (ChunkBuffer2_end b + 1)) else None)"
    "cb_input_avail b5 = (if ChunkBuffer2_free ?b3 > 0 then (ChunkBuffer2_free ?b3 - 1) * 4 else -1)"
    using io e3 f3 by (auto simp: b5_def b4_def cb_update_input(2) [OF l3] b3 cb_io_def)
  have i5: "cb_inv b5 qs"
    using l4 inp fe by (cases qs) (auto simp: cb_inv_def cb_io_def b5_def)
  have u: "ChunkBuffer2_update_output b4 = Some b5"
    using cb_update_output [OF l4] by (simp only: b5_def)
  have "ChunkBuffer2_ConsumePacket b = Some b5"
    using cb_layout_assert_buffer [OF l] cb_inv_assert_io [OF inv] io f n cb_layout_assert_buffer [OF l3]
      u cb_inv_assert_io [OF i5]
    unfolding ConsumePacket_pop
    by (cases "cb_wrapped b") (simp_all add: Let_def b4_def cb_io_def flip: chunk_blocks_def)
  moreover have "cb_size b5 = cb_size b \<and> cb_mtu b5 = cb_mtu b \<and> cb_buffer b5 = cb_buffer b"
    by (simp add: b5_def b4_def cb_update_input(2) [OF l3] b3)
  moreover have "cb_input_dest b \<noteq> None \<longrightarrow>
      cb_input_dest b5 = cb_input_dest b \<and> cb_input_avail b \<le> cb_input_avail b5"
    using io inp cb_layout_pop(4) [OF l] by (auto simp: cb_io_def split: if_splits)
  ultimately show ?thesis using i5 by blast
qed

lemma cb_Init:
  assumes "0 < blocks" "0 \<le> mtu" "bdivide_up mtu block_size < blocks" "4 * blocks \<le> INT_MAX"
    and "int (length buffer) = 4 * blocks"
  shows "\<exists>b. ChunkBuffer2_Init buffer blocks mtu = Some b \<and> cb_inv b [] \<and>
    cb_size b = blocks \<and> cb_mtu b = bdivide_up mtu block_size"
proof -
  let ?b = "\<lparr>cb_buffer = buffer, cb_size = blocks, cb_wrap = blocks, cb_start = 0, cb_used = 0,
      cb_mtu = bdivide_up mtu block_size, cb_input_dest = None, cb_input_avail = -1,
      cb_output_dest = None, cb_output_avail = -1\<rparr>"
  have l: "cb_layout ?b []"
    using assms
    by (simp add: cb_layout_def cb_wrapped_def cb_limit_def ChunkBuffer2_end_def bdivide_up_block)
  from cb_layout_restore [OF l] obtain b where
    b: "ChunkBuffer2_update_output (ChunkBuffer2_update_input ?b) = Some b" "cb_inv b []"
      "cb_size b = blocks" "cb_mtu b = bdivide_up mtu block_size" by auto
  with cb_layout_assert_buffer [OF l] cb_inv_assert_io [OF b(2)] assms(1,2) show ?thesis
    by (simp add: ChunkBuffer2_Init_def)
qed

section \<open>Capacity\<close>

lemma stored_size:
  assumes "stored limit m pos ps e" and "\<forall>p\<in>set ps. chunk_blocks p \<le> c"
  shows "e - pos \<le> int (length ps) * (1 + c)"
  using assms
proof (induction ps arbitrary: pos)
  case (Cons p ps)
  then have "e - (pos + 1 + chunk_blocks p) \<le> int (length ps) * (1 + c)" "chunk_blocks p \<le> c" by auto
  then show ?case by (simp add: algebra_simps)
qed simp

lemma cb_used_bound:
  assumes l: "cb_layout b ps" and s: "\<forall>p\<in>set ps. chunk_blocks p \<le> cb_mtu b"
  shows "cb_used b \<le> int (length ps) * (1 + cb_mtu b)"
proof (cases "cb_wrapped b")
  case True
  with l obtain ps1 ps2 where ps: "ps = ps1 @ ps2"
    "stored (cb_limit b) (cb_buffer b) (cb_start b) ps1 (cb_wrap b)"
    "stored (cb_limit b) (cb_buffer b) 0 ps2 (ChunkBuffer2_end b)" by (auto simp: cb_layout_def)
  have "cb_wrap b - cb_start b \<le> int (length ps1) * (1 + cb_mtu b)"
    "ChunkBuffer2_end b \<le> int (length ps2) * (1 + cb_mtu b)"
    using stored_size [OF ps(2)] stored_size [OF ps(3)] s ps(1) by auto
  then show ?thesis using True by (simp add: ps(1) ChunkBuffer2_end_def cb_wrapped_def algebra_simps)
next
  case False
  with l have "stored (cb_limit b) (cb_buffer b) (cb_start b) ps (cb_start b + cb_used b)"
    by (auto simp: cb_layout_def ChunkBuffer2_end_def cb_wrapped_def)
  from stored_size [OF this s] show ?thesis by simp
qed

text \<open>
  With the number of blocks that \<open>ChunkBuffer2_calc_blocks\<close> gives for \<open>num\<close> chunks, there is room
  for another maximal packet whenever fewer than \<open>num\<close> packets are stored.
\<close>

lemma cb_capacity:
  assumes inv: "cb_inv b ps" and s: "\<forall>p\<in>set ps. chunk_blocks p \<le> cb_mtu b"
    and num: "int (length ps) < num" and size: "cb_size b = (1 + cb_mtu b) * (num + 1)"
  shows "4 * cb_mtu b \<le> cb_input_avail b"
proof -
  from inv have l: "cb_layout b ps" and io: "cb_io b ps" by (auto simp: cb_inv_def)
  have mtu: "0 \<le> cb_mtu b" using l by (simp add: cb_layout_def)
  have "1 + cb_mtu b \<le> ChunkBuffer2_free b"
  proof (cases "cb_wrapped b")
    case False
    with cb_end_limit(2) [OF l] show ?thesis
      by (simp add: ChunkBuffer2_free_def cb_wrapped_def cb_limit_def)
  next
    case True
    have "cb_used b \<le> int (length ps) * (1 + cb_mtu b)" by (rule cb_used_bound [OF l s])
    also have "\<dots> \<le> (num - 1) * (1 + cb_mtu b)" using num mtu by (intro mult_right_mono) auto
    finally have "cb_used b + 2 * (1 + cb_mtu b) \<le> cb_size b" by (simp add: size algebra_simps)
    moreover have "cb_size b - 1 - cb_mtu b < cb_wrap b"
      using l True by (simp add: cb_layout_def cb_limit_def)
    ultimately show ?thesis
      using True by (simp add: ChunkBuffer2_free_def cb_wrapped_def ChunkBuffer2_end_def)
  qed
  then show ?thesis using io mtu by (simp add: cb_io_def split: if_splits)
qed

lemma calc_blocks_value:
  assumes "ChunkBuffer2_calc_blocks chunk_len num = n" "0 \<le> n"
  shows "n = (1 + bdivide_up chunk_len block_size) * (num + 1)"
  using assms by (auto simp: ChunkBuffer2_calc_blocks_def Let_def split: if_splits)

end
