(* ===== verification/Packet_Buffer.thy ===== *)
theory Packet_Buffer
  imports Chunk_Buffer Event_Machine
begin

text \<open>
  The flow element \<open>flow/PacketBuffer.c\<close>: a queue of packets between a packet producer and a
  packet consumer, stored in a \<open>ChunkBuffer2\<close>.  The machine \<open>pb_step\<close> runs it between its
  neighbours: the producer writes a packet directly into the buffer memory it was given with
  \<open>Recv\<close>, the consumer reads the packet it was given with \<open>Send\<close> directly from the buffer memory,
  at the moment it completes.  The invariant \<open>pb_inv\<close> therefore also shows that the memory handed
  to one neighbour is not disturbed by what the other one does in the meantime.
\<close>

record PacketBuffer =
  pb_input_mtu :: int
  pb_buf :: ChunkBuffer2

text \<open>\<open>PbRecv d\<close> is \<open>PacketRecvInterface_Receiver_Recv\<close>, \<open>PbSend d n\<close> \<open>PacketPassInterface_Sender_Send\<close>.\<close>

datatype pb_action = PbRecv "int option" | PbSend "int option" int

definition PacketBuffer_input_handler_done ::
  "int \<Rightarrow> PacketBuffer \<Rightarrow> (pb_action list \<times> PacketBuffer) option" where
  "PacketBuffer_input_handler_done in_len buf = do {
     ASSERT (in_len \<ge> 0);
     ASSERT (in_len \<le> pb_input_mtu buf);
     let was_empty = (cb_output_avail (pb_buf buf) < 0);
     cb \<leftarrow> ChunkBuffer2_SubmitPacket in_len (pb_buf buf);
     Some ((if cb_input_avail cb \<ge> pb_input_mtu buf then [PbRecv (cb_input_dest cb)] else []) @
           (if was_empty then [PbSend (cb_output_dest cb) (cb_output_avail cb)] else []),
           buf\<lparr>pb_buf := cb\<rparr>)
   }"

definition PacketBuffer_output_handler_done ::
  "PacketBuffer \<Rightarrow> (pb_action list \<times> PacketBuffer) option" where
  "PacketBuffer_output_handler_done buf = do {
     let was_full = (cb_input_avail (pb_buf buf) < pb_input_mtu buf);
     cb \<leftarrow> ChunkBuffer2_ConsumePacket (pb_buf buf);
     Some ((if was_full \<and> cb_input_avail cb \<ge> pb_input_mtu buf then [PbRecv (cb_input_dest cb)] else []) @
           (if cb_output_avail cb \<ge> 0 then [PbSend (cb_output_dest cb) (cb_output_avail cb)] else []),
           buf\<lparr>pb_buf := cb\<rparr>)
   }"

text \<open>
  \<open>BAllocArray n size\<close> is the allocator; \<open>Some None\<close> is the return value 0 (\<open>fail0\<close>).
\<close>

definition PacketBuffer_Init ::
  "(int \<Rightarrow> int \<Rightarrow> bytes option) \<Rightarrow> int \<Rightarrow> int \<Rightarrow> int \<Rightarrow> (pb_action list \<times> PacketBuffer) option option" where
  "PacketBuffer_Init BAllocArray input_if_mtu output_if_mtu num_packets = do {
     ASSERT (output_if_mtu \<ge> input_if_mtu);
     ASSERT (num_packets > 0);
     let num_blocks = ChunkBuffer2_calc_blocks input_if_mtu num_packets;
     if num_blocks < 0 then Some None
     else (case BAllocArray num_blocks block_size of
         None \<Rightarrow> Some None
       | Some buf_data \<Rightarrow> do {
           cb \<leftarrow> ChunkBuffer2_Init buf_data num_blocks input_if_mtu;
           Some (Some ([PbRecv (cb_input_dest cb)], \<lparr>pb_input_mtu = input_if_mtu, pb_buf = cb\<rparr>))
         })
   }"

section \<open>The buffer between its neighbours\<close>

text \<open>
  \<open>pc_recv\<close> and \<open>pc_send\<close> are the requests the producer and the consumer are working on, \<open>pc_in\<close>
  and \<open>pc_out\<close> the packets that went in and out so far.
\<close>

record pb_config =
  pc_pb :: PacketBuffer
  pc_recv :: "int option"
  pc_send :: "(int \<times> int) option"
  pc_in :: "bytes list"
  pc_out :: "bytes list"

datatype pb_event = Produced bytes | Consumed

primrec pb_perform :: "pb_action \<Rightarrow> pb_config \<Rightarrow> pb_config option" where
  "pb_perform (PbRecv d) c = do {
     ASSERT (pc_recv c = None);
     off \<leftarrow> d;
     Some (c\<lparr>pc_recv := Some off\<rparr>)
   }"
| "pb_perform (PbSend d n) c = do {
     ASSERT (pc_send c = None);
     off \<leftarrow> d;
     Some (c\<lparr>pc_send := Some (off, n)\<rparr>)
   }"

primrec pb_performs :: "pb_action list \<Rightarrow> pb_config \<Rightarrow> pb_config option" where
  "pb_performs [] c = Some c"
| "pb_performs (a # as) c = pb_perform a c \<bind> pb_performs as"

primrec pb_step :: "pb_event \<Rightarrow> pb_config \<Rightarrow> pb_config option" where
  "pb_step (Produced p) c = (let pb = pc_pb c; cb = pb_buf pb in do {
     off \<leftarrow> pc_recv c;
     m \<leftarrow> mem_write (cb_buffer cb) off p;
     (acts, pb') \<leftarrow> PacketBuffer_input_handler_done (int (length p)) (pb\<lparr>pb_buf := cb\<lparr>cb_buffer := m\<rparr>\<rparr>);
     pb_performs acts (c\<lparr>pc_pb := pb', pc_recv := None, pc_in := pc_in c @ [p]\<rparr>)
   })"
| "pb_step Consumed c = do {
     (off, n) \<leftarrow> pc_send c;
     p \<leftarrow> mem_read (cb_buffer (pb_buf (pc_pb c))) off n;
     (acts, pb') \<leftarrow> PacketBuffer_output_handler_done (pc_pb c);
     pb_performs acts (c\<lparr>pc_pb := pb', pc_send := None, pc_out := pc_out c @ [p]\<rparr>)
   }"

fun pb_legal :: "pb_event \<Rightarrow> pb_config \<Rightarrow> bool" where
  "pb_legal (Produced p) c = (pc_recv c \<noteq> None \<and> int (length p) \<le> pb_input_mtu (pc_pb c))"
| "pb_legal Consumed c = (pc_send c \<noteq> None)"

definition pb_start :: "PacketBuffer \<Rightarrow> pb_config" where
  "pb_start pb = \<lparr>pc_pb = pb, pc_recv = cb_input_dest (pb_buf pb), pc_send = None, pc_in = [], pc_out = []\<rparr>"

text \<open>
  The queue \<open>q\<close> holds what went in and has not yet come out.  The producer has a request exactly
  when a maximal packet fits, the consumer exactly when there is a packet.
\<close>

definition pb_inv :: "int \<Rightarrow> int \<Rightarrow> pb_config \<Rightarrow> bytes list \<Rightarrow> bool" where
  "pb_inv mtu num c q \<longleftrightarrow>
     (let cb = pb_buf (pc_pb c) in
      pb_input_mtu (pc_pb c) = mtu \<and> 0 \<le> mtu \<and> cb_inv cb q \<and> cb_mtu cb = bdivide_up mtu block_size \<and>
      cb_size cb = (1 + cb_mtu cb) * (num + 1) \<and> (\<forall>p\<in>set q. int (length p) \<le> mtu) \<and>
      pc_in c = pc_out c @ q \<and>
      pc_recv c = (if mtu \<le> cb_input_avail cb then cb_input_dest cb else None) \<and>
      pc_send c = (case q of [] \<Rightarrow> None | p # _ \<Rightarrow> Some (4 * (cb_start cb + 1), int (length p))))"

lemma cb_inv_dest: "cb_inv b q \<Longrightarrow> 0 \<le> cb_input_avail b \<Longrightarrow> \<exists>off. cb_input_dest b = Some off"
  by (auto simp: cb_inv_def cb_io_def split: if_splits)

lemma cb_inv_output:
  "cb_inv b [] \<Longrightarrow> cb_output_avail b = -1"
  "cb_inv b (p # q) \<Longrightarrow> cb_output_avail b = int (length p) \<and> cb_output_dest b = Some (4 * (cb_start b + 1))"
  by (auto simp: cb_inv_def cb_io_def)

lemma pb_produced:
  assumes inv: "pb_inv mtu num c q" and legal: "pb_legal (Produced p) c"
  shows "\<exists>c'. pb_step (Produced p) c = Some c' \<and> pb_inv mtu num c' (q @ [p])"
proof -
  let ?cb = "pb_buf (pc_pb c)"
  from inv have i: "cb_inv ?cb q" "0 \<le> mtu" "pb_input_mtu (pc_pb c) = mtu"
    and r: "pc_recv c = (if mtu \<le> cb_input_avail ?cb then cb_input_dest ?cb else None)"
    by (auto simp: pb_inv_def Let_def)
  from legal r i(3) have fit: "mtu \<le> cb_input_avail ?cb" "int (length p) \<le> mtu" "pc_recv c = cb_input_dest ?cb"
    by (auto split: if_splits)
  from cb_submit [OF i(1), of p] fit obtain off m b' where
    s: "cb_input_dest ?cb = Some off" "mem_write (cb_buffer ?cb) off p = Some m"
      "ChunkBuffer2_SubmitPacket (int (length p)) (?cb\<lparr>cb_buffer := m\<rparr>) = Some b'" "cb_inv b' (q @ [p])"
      "cb_size b' = cb_size ?cb" "cb_mtu b' = cb_mtu ?cb" "cb_start b' = cb_start ?cb" by auto
  have d: "mtu \<le> cb_input_avail b' \<Longrightarrow> \<exists>off. cb_input_dest b' = Some off"
    using cb_inv_dest [OF s(4)] i(2) by auto
  show ?thesis
  proof (cases q)
    case Nil
    from s(4) Nil have "cb_output_avail b' = int (length p)" "cb_output_dest b' = Some (4 * (cb_start b' + 1))"
      using cb_inv_output(2) by auto
    moreover have "cb_output_avail ?cb = -1" using i(1) Nil cb_inv_output(1) by simp
    ultimately show ?thesis
      using inv s fit d Nil
      by (cases "mtu \<le> cb_input_avail b'") (auto simp: pb_inv_def Let_def PacketBuffer_input_handler_done_def)
  next
    case (Cons a q')
    have "cb_output_avail ?cb = int (length a)" using i(1) Cons cb_inv_output(2) by simp
    then show ?thesis
      using inv s fit d Cons
      by (cases "mtu \<le> cb_input_avail b'") (auto simp: pb_inv_def Let_def PacketBuffer_input_handler_done_def)
  qed
qed

lemma pb_consumed:
  assumes inv: "pb_inv mtu num c (p # q)"
  shows "\<exists>c'. pb_step Consumed c = Some c' \<and> pb_inv mtu num c' q"
proof -
  let ?cb = "pb_buf (pc_pb c)"
  from inv have i: "cb_inv ?cb (p # q)" "0 \<le> mtu" "pb_input_mtu (pc_pb c) = mtu"
    by (auto simp: pb_inv_def Let_def)
  from cb_consume [OF i(1)] obtain b' where
    b: "ChunkBuffer2_ConsumePacket ?cb = Some b'" "cb_inv b' q" "cb_size b' = cb_size ?cb"
      "cb_mtu b' = cb_mtu ?cb" "cb_buffer b' = cb_buffer ?cb"
      "cb_input_dest ?cb \<noteq> None \<longrightarrow> cb_input_dest b' = cb_input_dest ?cb \<and> cb_input_avail ?cb \<le> cb_input_avail b'"
    by blast
  have rd: "mem_read (cb_buffer ?cb) (4 * (cb_start ?cb + 1)) (int (length p)) = Some p"
    using i(1) cb_layout_first(4) [of ?cb p q] by (simp add: cb_inv_def)
  have d: "mtu \<le> cb_input_avail b' \<Longrightarrow> \<exists>off. cb_input_dest b' = Some off"
    using cb_inv_dest [OF b(2)] i(2) by auto
  consider (room) off where "mtu \<le> cb_input_avail ?cb" "mtu \<le> cb_input_avail b'"
      "cb_input_dest b' = Some off" "cb_input_dest ?cb = Some off"
    | (freed) off where "\<not> mtu \<le> cb_input_avail ?cb" "mtu \<le> cb_input_avail b'" "cb_input_dest b' = Some off"
    | (full) "\<not> mtu \<le> cb_input_avail ?cb" "\<not> mtu \<le> cb_input_avail b'"
    using d b(6) cb_inv_dest [OF i(1)] i(2) by fastforce
  note av = this
  have out: "q = [] \<Longrightarrow> cb_output_avail b' = -1"
    "\<And>a q'. q = a # q' \<Longrightarrow> cb_output_avail b' = int (length a) \<and> cb_output_dest b' = Some (4 * (cb_start b' + 1))"
    using b(2) cb_inv_output by auto
  note step = pb_inv_def Let_def PacketBuffer_output_handler_done_def
  show ?thesis
  proof (cases q)
    case Nil
    show ?thesis
      by (rule av) (use inv b(1-5) rd Nil out(1) [OF Nil] in \<open>simp_all add: step\<close>)
  next
    case (Cons a q')
    show ?thesis
      by (rule av) (use inv b(1-5) rd Cons out(2) [OF Cons] in \<open>simp_all add: step\<close>)
  qed
qed

lemma pb_start_inv:
  assumes init: "PacketBuffer_Init BAllocArray mtu output_mtu num = Some (Some (acts, pb))"
    and alloc: "\<And>n s m. 0 \<le> n \<Longrightarrow> 0 \<le> s \<Longrightarrow> BAllocArray n s = Some m \<Longrightarrow> int (length m) = n * s"
    and small: "block_size * ChunkBuffer2_calc_blocks mtu num \<le> INT_MAX"
    and mtu: "0 \<le> mtu"
  shows "pb_inv mtu num (pb_start pb) []"
proof -
  let ?n = "ChunkBuffer2_calc_blocks mtu num"
  from init obtain m cb where
    num: "num > 0" and n: "0 \<le> ?n" "BAllocArray ?n block_size = Some m"
      "ChunkBuffer2_Init m ?n mtu = Some cb" and pb: "pb = \<lparr>pb_input_mtu = mtu, pb_buf = cb\<rparr>"
    by (auto simp: PacketBuffer_Init_def Let_def split: if_splits option.splits Option.bind_splits)
  let ?c = "bdivide_up mtu block_size"
  have c: "0 \<le> ?c" using mtu by (simp add: bdivide_up_block)
  have v: "?n = (1 + ?c) * (num + 1)" by (rule calc_blocks_value [OF refl n(1)])
  have "(1 + ?c) * 1 \<le> (1 + ?c) * (num + 1)" using c num by (intro mult_left_mono) auto
  then have "?c < ?n" by (simp add: v)
  moreover have "4 * ?n \<le> INT_MAX" "int (length m) = 4 * ?n"
    using small alloc [OF n(1) _ n(2)] by (simp_all add: block_size_def)
  ultimately obtain b where b: "ChunkBuffer2_Init m ?n mtu = Some b" "cb_inv b []" "cb_size b = ?n" "cb_mtu b = ?c"
    using cb_Init [of ?n mtu m] mtu c by auto
  have "0 < num + 1" using num by simp
  with cb_capacity [OF b(2), of "num"] b v num have "4 * ?c \<le> cb_input_avail b" by simp
  then have "mtu \<le> cb_input_avail b" unfolding bdivide_up_block by presburger
  with b v n(3) show ?thesis using mtu by (simp add: pb_inv_def pb_start_def pb Let_def)
qed

interpretation pb: event_machine pb_step pb_legal "\<lambda>c. \<exists>q. pb_inv mtu num c q" for mtu num
proof
  fix c e
  assume "\<exists>q. pb_inv mtu num c q" and l: "pb_legal e c"
  then obtain q where q: "pb_inv mtu num c q" by blast
  show "\<exists>c'. pb_step e c = Some c' \<and> (\<exists>q. pb_inv mtu num c' q)"
  proof (cases e)
    case (Produced p)
    with pb_produced [OF q] l show ?thesis by blast
  next
    case Consumed
    with q l obtain p q' where "q = p # q'" by (cases q) (auto simp: pb_inv_def Let_def)
    with pb_consumed q Consumed show ?thesis by blast
  qed
qed

lemma pb_performs_keep:
  "pb_performs as c = Some c' \<Longrightarrow> pc_in c' = pc_in c \<and> pc_out c' = pc_out c \<and> (pc_recv c \<noteq> None \<longrightarrow> pc_recv c' \<noteq> None)"
proof (induction as arbitrary: c)
  case (Cons a as)
  then obtain c1 where "pb_perform a c = Some c1" "pb_performs as c1 = Some c'" by (auto split: Option.bind_splits)
  with Cons.IH [of c1] show ?case by (cases a) (auto split: Option.bind_splits)
qed simp

lemma pb_step_in: "pb_step (Produced p) c = Some c' \<Longrightarrow> pc_in c' = pc_in c @ [p]"
  by (auto simp: Let_def split: Option.bind_splits dest!: pb_performs_keep)

lemma pb_consumed_recv:
  "pb_step Consumed c = Some c' \<Longrightarrow> pc_in c' = pc_in c \<and> (pc_recv c \<noteq> None \<longrightarrow> pc_recv c' \<noteq> None)"
  by (auto split: Option.bind_splits dest!: pb_performs_keep)

text \<open>A buffer made for \<open>num\<close> packets that holds fewer keeps the producer busy.\<close>

lemma pb_accepts:
  assumes inv: "pb_inv mtu num c q" and num: "int (length q) < num"
  shows "pc_recv c \<noteq> None"
proof -
  let ?cb = "pb_buf (pc_pb c)"
  from inv have i: "cb_inv ?cb q" "0 \<le> mtu" "cb_mtu ?cb = bdivide_up mtu block_size"
    "cb_size ?cb = (1 + cb_mtu ?cb) * (num + 1)" "\<forall>p\<in>set q. int (length p) \<le> mtu"
    "pc_recv c = (if mtu \<le> cb_input_avail ?cb then cb_input_dest ?cb else None)"
    by (auto simp: pb_inv_def Let_def)
  have "\<forall>p\<in>set q. chunk_blocks p \<le> cb_mtu ?cb"
    using i(5) unfolding i(3) chunk_blocks_def bdivide_up_block by (auto intro!: zdiv_mono1)
  from cb_capacity [OF i(1) this num i(4)] have "mtu \<le> cb_input_avail ?cb"
    unfolding i(3) bdivide_up_block by presburger
  with i(2,6) cb_inv_dest [OF i(1)] show ?thesis by auto
qed

end
