(* ===== verification/Flow_Elements.thy ===== *)
theory Flow_Elements
  imports Packet_Proto Packet_Buffer
begin

text \<open>
  The remaining flow elements: \<open>flow/PacketStreamSender.c\<close> (packets onto a stream),
  \<open>flow/SinglePacketBuffer.c\<close>, \<open>flow/PacketPassConnector.c\<close> (an output that comes and goes),
  \<open>flowextra/PacketPassInactivityMonitor.c\<close> (a timer that runs while nothing is sent),
  \<open>flow/BufferWriter.c\<close> and \<open>flow/PacketProtoFlow.c\<close>, which composes a buffer writer, the framing
  encoder and the packet buffer.  Each element has its handlers and its machine; the machines log what
  went in and what came out.
\<close>

section \<open>PacketStreamSender\<close>

record PacketStreamSender =
  ss_in_len :: int
  ss_in :: bytes
  ss_in_used :: int

datatype ss_action = SsSend int int | SsDone

definition send_data :: "PacketStreamSender \<Rightarrow> (ss_action list \<times> PacketStreamSender) option" where
  "send_data s = do {
     ASSERT (ss_in_len s \<ge> 0);
     if ss_in_used s < ss_in_len s
     then Some ([SsSend (ss_in_used s) (ss_in_len s - ss_in_used s)], s)
     else Some ([SsDone], s\<lparr>ss_in_len := -1\<rparr>)
   }"

definition PacketStreamSender_input_handler_send ::
  "bytes \<Rightarrow> int \<Rightarrow> PacketStreamSender \<Rightarrow> (ss_action list \<times> PacketStreamSender) option" where
  "PacketStreamSender_input_handler_send data data_len s = do {
     ASSERT (ss_in_len s = -1);
     ASSERT (data_len \<ge> 0);
     send_data (s\<lparr>ss_in_len := data_len, ss_in := data, ss_in_used := 0\<rparr>)
   }"

definition PacketStreamSender_output_handler_done ::
  "int \<Rightarrow> PacketStreamSender \<Rightarrow> (ss_action list \<times> PacketStreamSender) option" where
  "PacketStreamSender_output_handler_done data_len s = do {
     ASSERT (ss_in_len s \<ge> 0);
     ASSERT (data_len > 0);
     ASSERT (data_len \<le> ss_in_len s - ss_in_used s);
     send_data (s\<lparr>ss_in_used := ss_in_used s + data_len\<rparr>)
   }"

definition PacketStreamSender_Init :: "int \<Rightarrow> PacketStreamSender option" where
  "PacketStreamSender_Init mtu = do {
     ASSERT (mtu \<ge> 0);
     Some \<lparr>ss_in_len = -1, ss_in = [], ss_in_used = 0\<rparr>
   }"

text \<open>
  \<open>st_send\<close> is the request the stream is working on, \<open>st_stream\<close> the bytes it has taken, \<open>st_given\<close>
  and \<open>st_done\<close> the packets given to the sender and reported as sent.
\<close>

record ss_config =
  st_ss :: PacketStreamSender
  st_send :: "(int \<times> int) option"
  st_stream :: bytes
  st_given :: "bytes list"
  st_done :: "bytes list"

datatype ss_event = SsPacket bytes | SsTaken int

primrec ss_perform :: "ss_action \<Rightarrow> ss_config \<Rightarrow> ss_config option" where
  "ss_perform (SsSend off n) c = do {
     ASSERT (st_send c = None \<and> 0 < n);
     Some (c\<lparr>st_send := Some (off, n)\<rparr>)
   }"
| "ss_perform SsDone c = Some (c\<lparr>st_done := st_done c @ [ss_in (st_ss c)]\<rparr>)"

primrec ss_performs :: "ss_action list \<Rightarrow> ss_config \<Rightarrow> ss_config option" where
  "ss_performs [] c = Some c"
| "ss_performs (a # as) c = ss_perform a c \<bind> ss_performs as"

primrec ss_step :: "ss_event \<Rightarrow> ss_config \<Rightarrow> ss_config option" where
  "ss_step (SsPacket p) c = do {
     (acts, s) \<leftarrow> PacketStreamSender_input_handler_send p (int (length p)) (st_ss c);
     ss_performs acts (c\<lparr>st_ss := s, st_given := st_given c @ [p]\<rparr>)
   }"
| "ss_step (SsTaken n) c = do {
     (off, len) \<leftarrow> st_send c;
     bs \<leftarrow> mem_read (ss_in (st_ss c)) off n;
     (acts, s) \<leftarrow> PacketStreamSender_output_handler_done n (st_ss c);
     ss_performs acts (c\<lparr>st_ss := s, st_send := None, st_stream := st_stream c @ bs\<rparr>)
   }"

fun ss_legal :: "ss_event \<Rightarrow> ss_config \<Rightarrow> bool" where
  "ss_legal (SsPacket p) c = (st_given c = st_done c)"
| "ss_legal (SsTaken n) c = (case st_send c of None \<Rightarrow> False | Some (off, len) \<Rightarrow> 0 < n \<and> n \<le> len)"

definition ss_start :: "PacketStreamSender \<Rightarrow> ss_config" where
  "ss_start s = \<lparr>st_ss = s, st_send = None, st_stream = [], st_given = [], st_done = []\<rparr>"

text \<open>
  Either all packets are done and their concatenation is on the stream, or one packet is in progress
  and the stream has, after the packets done, the bytes of it counted by \<open>in_used\<close>.
\<close>

definition ss_inv :: "ss_config \<Rightarrow> bool" where
  "ss_inv c \<longleftrightarrow> (let s = st_ss c in
     if ss_in_len s = -1
     then st_given c = st_done c \<and> st_stream c = concat (st_done c) \<and> st_send c = None
     else st_given c = st_done c @ [ss_in s] \<and> ss_in_len s = int (length (ss_in s)) \<and>
       0 \<le> ss_in_used s \<and> ss_in_used s < ss_in_len s \<and>
       st_stream c = concat (st_done c) @ take (nat (ss_in_used s)) (ss_in s) \<and>
       st_send c = Some (ss_in_used s, ss_in_len s - ss_in_used s))"

interpretation ss: event_machine ss_step ss_legal ss_inv
proof
  fix c e
  assume i: "ss_inv c" and l: "ss_legal e c"
  note defs = ss_inv_def Let_def send_data_def
  show "\<exists>c'. ss_step e c = Some c' \<and> ss_inv c'"
  proof (cases e)
    case (SsPacket p)
    then show ?thesis
      using i l by (cases p) (auto simp: defs PacketStreamSender_input_handler_send_def split: if_splits)
  next
    case (SsTaken n)
    let ?s = "st_ss c"
    from i l SsTaken have a: "ss_in_len ?s = int (length (ss_in ?s))" "0 \<le> ss_in_used ?s" "0 < n"
      "n \<le> ss_in_len ?s - ss_in_used ?s" "ss_in_len ?s \<noteq> -1" "st_send c = Some (ss_in_used ?s, ss_in_len ?s - ss_in_used ?s)"
      "st_given c = st_done c @ [ss_in ?s]" "st_stream c = concat (st_done c) @ take (nat (ss_in_used ?s)) (ss_in ?s)"
      by (auto simp: ss_inv_def Let_def split: if_splits option.splits)
    let ?bs = "take (nat n) (drop (nat (ss_in_used ?s)) (ss_in ?s))"
    have rd: "mem_read (ss_in ?s) (ss_in_used ?s) n = Some ?bs"
      using a by (simp add: mem_read_def)
    have ext: "take (nat (ss_in_used ?s)) (ss_in ?s) @ ?bs = take (nat (ss_in_used ?s + n)) (ss_in ?s)"
      using a(2,3) by (simp add: nat_add_distrib take_add)
    show ?thesis
    proof (cases "ss_in_used ?s + n < ss_in_len ?s")
      case True
      with SsTaken a rd ext show ?thesis
        by (auto simp: defs PacketStreamSender_output_handler_done_def)
    next
      case False
      then have "take (nat (ss_in_used ?s + n)) (ss_in ?s) = ss_in ?s" using a by simp
      with SsTaken a rd ext False show ?thesis
        by (auto simp: defs PacketStreamSender_output_handler_done_def)
    qed
  qed
qed

section \<open>SinglePacketBuffer\<close>

text \<open>\<open>SbSend n\<close> sends the first \<open>n\<close> bytes of the buffer, \<open>SbRecv\<close> receives a packet into it.\<close>

record SinglePacketBuffer =
  sb_buf :: bytes

datatype sb_action = SbSend int | SbRecv

definition SinglePacketBuffer_input_handler_done ::
  "int \<Rightarrow> SinglePacketBuffer \<Rightarrow> sb_action list \<times> SinglePacketBuffer" where
  "SinglePacketBuffer_input_handler_done in_len b = ([SbSend in_len], b)"

definition SinglePacketBuffer_output_handler_done ::
  "SinglePacketBuffer \<Rightarrow> sb_action list \<times> SinglePacketBuffer" where
  "SinglePacketBuffer_output_handler_done b = ([SbRecv], b)"

definition SinglePacketBuffer_Init ::
  "(int \<Rightarrow> bytes option) \<Rightarrow> int \<Rightarrow> int \<Rightarrow> (sb_action list \<times> SinglePacketBuffer) option option" where
  "SinglePacketBuffer_Init BAlloc input_mtu output_mtu = do {
     ASSERT (output_mtu \<ge> input_mtu);
     case BAlloc input_mtu of
       None \<Rightarrow> Some None
     | Some buf \<Rightarrow> Some (Some ([SbRecv], \<lparr>sb_buf = buf\<rparr>))
   }"

record sb_config =
  bc_sb :: SinglePacketBuffer
  bc_recv :: bool
  bc_send :: "int option"
  bc_in :: "bytes list"
  bc_out :: "bytes list"

datatype sb_event = SbProduced bytes | SbConsumed

primrec sb_perform :: "sb_action \<Rightarrow> sb_config \<Rightarrow> sb_config option" where
  "sb_perform (SbSend n) c = do { ASSERT (bc_send c = None); Some (c\<lparr>bc_send := Some n\<rparr>) }"
| "sb_perform SbRecv c = do { ASSERT (\<not> bc_recv c); Some (c\<lparr>bc_recv := True\<rparr>) }"

primrec sb_performs :: "sb_action list \<Rightarrow> sb_config \<Rightarrow> sb_config option" where
  "sb_performs [] c = Some c"
| "sb_performs (a # as) c = sb_perform a c \<bind> sb_performs as"

primrec sb_step :: "sb_event \<Rightarrow> sb_config \<Rightarrow> sb_config option" where
  "sb_step (SbProduced p) c = do {
     m \<leftarrow> mem_write (sb_buf (bc_sb c)) 0 p;
     let (acts, b) = SinglePacketBuffer_input_handler_done (int (length p)) ((bc_sb c)\<lparr>sb_buf := m\<rparr>);
     sb_performs acts (c\<lparr>bc_sb := b, bc_recv := False, bc_in := bc_in c @ [p]\<rparr>)
   }"
| "sb_step SbConsumed c = do {
     n \<leftarrow> bc_send c;
     p \<leftarrow> mem_read (sb_buf (bc_sb c)) 0 n;
     let (acts, b) = SinglePacketBuffer_output_handler_done (bc_sb c);
     sb_performs acts (c\<lparr>bc_sb := b, bc_send := None, bc_out := bc_out c @ [p]\<rparr>)
   }"

fun sb_legal :: "sb_event \<Rightarrow> sb_config \<Rightarrow> bool" where
  "sb_legal (SbProduced p) c = (bc_recv c \<and> length p \<le> length (sb_buf (bc_sb c)))"
| "sb_legal SbConsumed c = (bc_send c \<noteq> None)"

definition sb_start :: "SinglePacketBuffer \<Rightarrow> sb_config" where
  "sb_start b = \<lparr>bc_sb = b, bc_recv = True, bc_send = None, bc_in = [], bc_out = []\<rparr>"

text \<open>The buffer alternates: it waits for a packet, or it holds the one that is being sent.\<close>

definition sb_inv :: "sb_config \<Rightarrow> bool" where
  "sb_inv c \<longleftrightarrow>
     bc_recv c \<and> bc_send c = None \<and> bc_in c = bc_out c \<or>
     \<not> bc_recv c \<and> (\<exists>p. bc_in c = bc_out c @ [p] \<and> bc_send c = Some (int (length p)) \<and>
        mem_read (sb_buf (bc_sb c)) 0 (int (length p)) = Some p)"

interpretation sb: event_machine sb_step sb_legal sb_inv
proof
  fix c e
  assume i: "sb_inv c" and l: "sb_legal e c"
  show "\<exists>c'. sb_step e c = Some c' \<and> sb_inv c'"
  proof (cases e)
    case (SbProduced p)
    with l obtain m where m: "mem_write (sb_buf (bc_sb c)) 0 p = Some m" by (auto simp: mem_write_def)
    with mem_read_write_same [OF m] i l SbProduced show ?thesis
      by (auto simp: sb_inv_def SinglePacketBuffer_input_handler_done_def)
  next
    case SbConsumed
    with i l show ?thesis
      by (auto simp: sb_inv_def SinglePacketBuffer_output_handler_done_def)
  qed
qed

section \<open>PacketPassConnector\<close>

text \<open>The output, when there is one, is represented by its MTU.\<close>

record PacketPassConnector =
  pp_input_mtu :: int
  pp_in_len :: int
  pp_in :: ptr
  pp_output :: "int option"

datatype pp_action = PpSend ptr int | PpDone

definition PacketPassConnector_input_handler_send ::
  "ptr \<Rightarrow> int \<Rightarrow> PacketPassConnector \<Rightarrow> (pp_action list \<times> PacketPassConnector) option" where
  "PacketPassConnector_input_handler_send data data_len k = do {
     ASSERT (data_len \<ge> 0);
     ASSERT (data_len \<le> pp_input_mtu k);
     ASSERT (pp_in_len k = -1);
     let k = k\<lparr>pp_in_len := data_len, pp_in := data\<rparr>;
     Some (if pp_output k \<noteq> None then [PpSend (pp_in k) (pp_in_len k)] else [], k)
   }"

definition PacketPassConnector_output_handler_done ::
  "PacketPassConnector \<Rightarrow> (pp_action list \<times> PacketPassConnector) option" where
  "PacketPassConnector_output_handler_done k = do {
     ASSERT (pp_in_len k \<ge> 0);
     ASSERT (pp_output k \<noteq> None);
     Some ([PpDone], k\<lparr>pp_in_len := -1\<rparr>)
   }"

definition PacketPassConnector_Init :: "int \<Rightarrow> PacketPassConnector option" where
  "PacketPassConnector_Init mtu = do {
     ASSERT (mtu \<ge> 0);
     Some \<lparr>pp_input_mtu = mtu, pp_in_len = -1, pp_in = 0, pp_output = None\<rparr>
   }"

definition PacketPassConnector_ConnectOutput ::
  "int \<Rightarrow> PacketPassConnector \<Rightarrow> (pp_action list \<times> PacketPassConnector) option" where
  "PacketPassConnector_ConnectOutput output_mtu k = do {
     ASSERT (pp_output k = None);
     ASSERT (output_mtu \<ge> pp_input_mtu k);
     let k = k\<lparr>pp_output := Some output_mtu\<rparr>;
     Some (if pp_in_len k \<ge> 0 then [PpSend (pp_in k) (pp_in_len k)] else [], k)
   }"

definition PacketPassConnector_DisconnectOutput :: "PacketPassConnector \<Rightarrow> PacketPassConnector option" where
  "PacketPassConnector_DisconnectOutput k = do {
     ASSERT (pp_output k \<noteq> None);
     Some (k\<lparr>pp_output := None\<rparr>)
   }"

text \<open>
  \<open>pk_busy\<close> is the packet the connected output is working on; it is gone when that output is
  disconnected.  \<open>pk_in\<close> are the packets accepted at the input, \<open>pk_done\<close> those an output completed.
\<close>

record pp_config =
  pk_pp :: PacketPassConnector
  pk_busy :: "(ptr \<times> int) option"
  pk_in :: "(ptr \<times> int) list"
  pk_done :: "(ptr \<times> int) list"

datatype pp_event = PpPacket ptr int | PpCompleted | PpConnect int | PpDisconnect

primrec pp_perform :: "pp_action \<Rightarrow> pp_config \<Rightarrow> pp_config option" where
  "pp_perform (PpSend d n) c = do {
     ASSERT (pk_busy c = None \<and> (\<exists>mtu\<in>set_option (pp_output (pk_pp c)). n \<le> mtu));
     Some (c\<lparr>pk_busy := Some (d, n)\<rparr>)
   }"
| "pp_perform PpDone c = Some c"

primrec pp_performs :: "pp_action list \<Rightarrow> pp_config \<Rightarrow> pp_config option" where
  "pp_performs [] c = Some c"
| "pp_performs (a # as) c = pp_perform a c \<bind> pp_performs as"

primrec pp_step :: "pp_event \<Rightarrow> pp_config \<Rightarrow> pp_config option" where
  "pp_step (PpPacket d n) c = do {
     (acts, k) \<leftarrow> PacketPassConnector_input_handler_send d n (pk_pp c);
     pp_performs acts (c\<lparr>pk_pp := k, pk_in := pk_in c @ [(d, n)]\<rparr>)
   }"
| "pp_step PpCompleted c = do {
     p \<leftarrow> pk_busy c;
     (acts, k) \<leftarrow> PacketPassConnector_output_handler_done (pk_pp c);
     pp_performs acts (c\<lparr>pk_pp := k, pk_busy := None, pk_done := pk_done c @ [p]\<rparr>)
   }"
| "pp_step (PpConnect mtu) c = do {
     (acts, k) \<leftarrow> PacketPassConnector_ConnectOutput mtu (pk_pp c);
     pp_performs acts (c\<lparr>pk_pp := k\<rparr>)
   }"
| "pp_step PpDisconnect c = do {
     k \<leftarrow> PacketPassConnector_DisconnectOutput (pk_pp c);
     Some (c\<lparr>pk_pp := k, pk_busy := None\<rparr>)
   }"

fun pp_legal :: "pp_event \<Rightarrow> pp_config \<Rightarrow> bool" where
  "pp_legal (PpPacket d n) c = (pk_in c = pk_done c \<and> 0 \<le> n \<and> n \<le> pp_input_mtu (pk_pp c))"
| "pp_legal PpCompleted c = (pk_busy c \<noteq> None)"
| "pp_legal (PpConnect mtu) c = (pp_output (pk_pp c) = None \<and> pp_input_mtu (pk_pp c) \<le> mtu)"
| "pp_legal PpDisconnect c = (pp_output (pk_pp c) \<noteq> None)"

definition pp_start :: "PacketPassConnector \<Rightarrow> pp_config" where
  "pp_start k = \<lparr>pk_pp = k, pk_busy = None, pk_in = [], pk_done = []\<rparr>"

definition pp_inv :: "pp_config \<Rightarrow> bool" where
  "pp_inv c \<longleftrightarrow> (let k = pk_pp c; cur = (pp_in k, pp_in_len k) in
     (\<forall>mtu. pp_output k = Some mtu \<longrightarrow> pp_input_mtu k \<le> mtu) \<and>
     (if pp_in_len k = -1 then pk_in c = pk_done c \<and> pk_busy c = None
      else 0 \<le> pp_in_len k \<and> pp_in_len k \<le> pp_input_mtu k \<and> pk_in c = pk_done c @ [cur] \<and>
        pk_busy c = (if pp_output k = None then None else Some cur)))"

lemmas pp_defs = PacketPassConnector_input_handler_send_def PacketPassConnector_output_handler_done_def
  PacketPassConnector_ConnectOutput_def PacketPassConnector_DisconnectOutput_def

interpretation pp: event_machine pp_step pp_legal pp_inv
proof
  fix c e
  assume i: "pp_inv c" and l: "pp_legal e c"
  show "\<exists>c'. pp_step e c = Some c' \<and> pp_inv c'"
  proof (cases e)
    case (PpPacket d n)
    with i l show ?thesis
      by (cases "pp_output (pk_pp c)") (fastforce simp: pp_inv_def Let_def pp_defs split: if_splits)+
  next
    case (PpConnect mtu)
    with i l show ?thesis
      by (cases "pp_in_len (pk_pp c) = -1") (auto simp: pp_inv_def Let_def pp_defs)
  qed (use i l in \<open>auto simp: pp_inv_def Let_def pp_defs split: if_splits\<close>)
qed

section \<open>PacketPassInactivityMonitor\<close>

text \<open>
  \<open>im_timer\<close>: the timer is running; \<open>im_handler\<close>: a handler is set.  \<open>PacketPassInactivityMonitor_Force\<close>
  makes a running or stopped timer expire at once.
\<close>

record PacketPassInactivityMonitor =
  im_timer :: bool
  im_handler :: bool
  im_has_cancel :: bool

datatype im_action = ImSend ptr int | ImCancel | ImDone | ImHandler

definition PacketPassInactivityMonitor_input_handler_send ::
  "ptr \<Rightarrow> int \<Rightarrow> PacketPassInactivityMonitor \<Rightarrow> im_action list \<times> PacketPassInactivityMonitor" where
  "PacketPassInactivityMonitor_input_handler_send data data_len k = ([ImSend data data_len], k\<lparr>im_timer := False\<rparr>)"

definition PacketPassInactivityMonitor_input_handler_requestcancel ::
  "PacketPassInactivityMonitor \<Rightarrow> im_action list \<times> PacketPassInactivityMonitor" where
  "PacketPassInactivityMonitor_input_handler_requestcancel k = ([ImCancel], k)"

definition PacketPassInactivityMonitor_output_handler_done ::
  "PacketPassInactivityMonitor \<Rightarrow> im_action list \<times> PacketPassInactivityMonitor" where
  "PacketPassInactivityMonitor_output_handler_done k = ([ImDone], k\<lparr>im_timer := True\<rparr>)"

definition PacketPassInactivityMonitor_timer_handler ::
  "PacketPassInactivityMonitor \<Rightarrow> im_action list \<times> PacketPassInactivityMonitor" where
  "PacketPassInactivityMonitor_timer_handler k =
     (if im_handler k then [ImHandler] else [], k\<lparr>im_timer := True\<rparr>)"

definition PacketPassInactivityMonitor_Init :: "bool \<Rightarrow> bool \<Rightarrow> PacketPassInactivityMonitor" where
  "PacketPassInactivityMonitor_Init output_has_cancel handler =
     \<lparr>im_timer = True, im_handler = handler, im_has_cancel = output_has_cancel\<rparr>"

definition PacketPassInactivityMonitor_Free :: "PacketPassInactivityMonitor \<Rightarrow> PacketPassInactivityMonitor" where
  "PacketPassInactivityMonitor_Free k = k\<lparr>im_timer := False\<rparr>"

definition PacketPassInactivityMonitor_SetHandler ::
  "bool \<Rightarrow> PacketPassInactivityMonitor \<Rightarrow> PacketPassInactivityMonitor" where
  "PacketPassInactivityMonitor_SetHandler handler k = k\<lparr>im_handler := handler\<rparr>"

definition PacketPassInactivityMonitor_Force :: "PacketPassInactivityMonitor \<Rightarrow> PacketPassInactivityMonitor" where
  "PacketPassInactivityMonitor_Force k = k\<lparr>im_timer := True\<rparr>"

text \<open>
  \<open>mo_busy\<close> is the packet the output is working on; \<open>mo_idle\<close> are the calls of the inactivity
  handler, each with the number of packets completed at that moment.
\<close>

record im_config =
  mo_im :: PacketPassInactivityMonitor
  mo_busy :: "(ptr \<times> int) option"
  mo_in :: "(ptr \<times> int) list"
  mo_done :: "(ptr \<times> int) list"
  mo_idle :: "nat list"

datatype im_event = ImPacket ptr int | ImCompleted | ImTimer | ImSetHandler bool

primrec im_perform :: "im_action \<Rightarrow> im_config \<Rightarrow> im_config option" where
  "im_perform (ImSend d n) c = do { ASSERT (mo_busy c = None); Some (c\<lparr>mo_busy := Some (d, n)\<rparr>) }"
| "im_perform ImCancel c = do { ASSERT (mo_busy c \<noteq> None \<and> im_has_cancel (mo_im c)); Some c }"
| "im_perform ImDone c = Some c"
| "im_perform ImHandler c = Some (c\<lparr>mo_idle := mo_idle c @ [length (mo_in c)]\<rparr>)"

primrec im_performs :: "im_action list \<Rightarrow> im_config \<Rightarrow> im_config option" where
  "im_performs [] c = Some c"
| "im_performs (a # as) c = im_perform a c \<bind> im_performs as"

primrec im_step :: "im_event \<Rightarrow> im_config \<Rightarrow> im_config option" where
  "im_step (ImPacket d n) c =
     (let (acts, k) = PacketPassInactivityMonitor_input_handler_send d n (mo_im c)
      in im_performs acts (c\<lparr>mo_im := k, mo_in := mo_in c @ [(d, n)]\<rparr>))"
| "im_step ImCompleted c = do {
     p \<leftarrow> mo_busy c;
     let (acts, k) = PacketPassInactivityMonitor_output_handler_done (mo_im c);
     im_performs acts (c\<lparr>mo_im := k, mo_busy := None, mo_done := mo_done c @ [p]\<rparr>)
   }"
| "im_step ImTimer c =
     (let (acts, k) = PacketPassInactivityMonitor_timer_handler ((mo_im c)\<lparr>im_timer := False\<rparr>)
      in im_performs acts (c\<lparr>mo_im := k\<rparr>))"
| "im_step (ImSetHandler h) c = Some (c\<lparr>mo_im := PacketPassInactivityMonitor_SetHandler h (mo_im c)\<rparr>)"

fun im_legal :: "im_event \<Rightarrow> im_config \<Rightarrow> bool" where
  "im_legal (ImPacket d n) c = (mo_in c = mo_done c)"
| "im_legal ImCompleted c = (mo_busy c \<noteq> None)"
| "im_legal ImTimer c = im_timer (mo_im c)"
| "im_legal (ImSetHandler h) c = True"

definition im_start :: "PacketPassInactivityMonitor \<Rightarrow> im_config" where
  "im_start k = \<lparr>mo_im = k, mo_busy = None, mo_in = [], mo_done = [], mo_idle = []\<rparr>"

text \<open>The timer runs exactly while the output is idle, so the handler is called only then.\<close>

definition im_inv :: "im_config \<Rightarrow> bool" where
  "im_inv c \<longleftrightarrow> im_timer (mo_im c) = (mo_busy c = None) \<and>
     mo_in c = mo_done c @ (case mo_busy c of None \<Rightarrow> [] | Some p \<Rightarrow> [p])"

lemmas im_defs = PacketPassInactivityMonitor_input_handler_send_def
  PacketPassInactivityMonitor_output_handler_done_def PacketPassInactivityMonitor_timer_handler_def
  PacketPassInactivityMonitor_SetHandler_def

interpretation im: event_machine im_step im_legal im_inv
proof
  fix c e
  assume "im_inv c" "im_legal e c"
  then show "\<exists>c'. im_step e c = Some c' \<and> im_inv c'"
    by (cases e; cases "mo_busy c") (auto simp: im_inv_def im_defs)
qed

section \<open>BufferWriter\<close>

text \<open>\<open>bw_out\<close> is the memory to write to, as an offset into the receiver's memory.\<close>

record BufferWriter =
  bw_out_have :: bool
  bw_out :: int
  bw_mtu :: int
  bw_writing :: bool

definition BufferWriter_output_handler_recv :: "int \<Rightarrow> BufferWriter \<Rightarrow> BufferWriter option" where
  "BufferWriter_output_handler_recv data w = do {
     ASSERT (\<not> bw_out_have w);
     Some (w\<lparr>bw_out_have := True, bw_out := data\<rparr>)
   }"

definition BufferWriter_Init :: "int \<Rightarrow> BufferWriter option" where
  "BufferWriter_Init mtu = do {
     ASSERT (mtu \<ge> 0);
     Some \<lparr>bw_out_have = False, bw_out = 0, bw_mtu = mtu, bw_writing = False\<rparr>
   }"

text \<open>The inner \<open>None\<close> is the return value 0: there is no memory to write to.\<close>

definition BufferWriter_StartPacket :: "BufferWriter \<Rightarrow> (int \<times> BufferWriter) option option" where
  "BufferWriter_StartPacket w = do {
     ASSERT (\<not> bw_writing w);
     if \<not> bw_out_have w then Some None
     else Some (Some (bw_out w, w\<lparr>bw_writing := True\<rparr>))
   }"

text \<open>The returned length is what is reported to the output's receiver.\<close>

definition BufferWriter_EndPacket :: "int \<Rightarrow> BufferWriter \<Rightarrow> (int \<times> BufferWriter) option" where
  "BufferWriter_EndPacket len w = do {
     ASSERT (len \<ge> 0);
     ASSERT (len \<le> bw_mtu w);
     ASSERT (bw_out_have w);
     ASSERT (bw_writing w);
     Some (len, w\<lparr>bw_out_have := False, bw_writing := False\<rparr>)
   }"

section \<open>PacketProtoFlow\<close>

text \<open>
  The three elements in a row.  The buffer's request for a packet at \<open>off\<close> of its memory goes to the
  encoder, which asks the writer for a payload two bytes further on; the writer keeps the place.
  When the user has written a packet the encoder completes the frame and the buffer takes it.
  The encoder's memory is the part of the buffer's memory that a maximal frame occupies.
\<close>

record PacketProtoFlow =
  pf_ainput :: BufferWriter
  pf_encoder :: PacketProtoEncoder
  pf_buffer :: pb_config

definition pf_connect :: "PacketProtoFlow \<Rightarrow> PacketProtoFlow option" where
  "pf_connect k =
     (case pc_recv (pf_buffer k) of
        None \<Rightarrow> Some k
      | Some off \<Rightarrow>
          if bw_out_have (pf_ainput k) then Some k
          else do {
            mem \<leftarrow> mem_read (cb_buffer (pb_buf (pc_pb (pf_buffer k)))) off (PACKETPROTO_ENCLEN (bw_mtu (pf_ainput k)));
            (acts, enc) \<leftarrow> PacketProtoEncoder_output_handler_recv mem (pf_encoder k);
            w \<leftarrow> BufferWriter_output_handler_recv (off + packetproto_header_size) (pf_ainput k);
            Some (k\<lparr>pf_encoder := enc, pf_ainput := w\<rparr>)
          })"

definition PacketProtoFlow_Init ::
  "(int \<Rightarrow> int \<Rightarrow> bytes option) \<Rightarrow> int \<Rightarrow> int \<Rightarrow> int \<Rightarrow> PacketProtoFlow option option" where
  "PacketProtoFlow_Init BAllocArray input_mtu num_packets output_mtu = do {
     ASSERT (input_mtu \<ge> 0);
     ASSERT (input_mtu \<le> PACKETPROTO_MAXPAYLOAD);
     ASSERT (num_packets > 0);
     ASSERT (output_mtu \<ge> PACKETPROTO_ENCLEN input_mtu);
     w \<leftarrow> BufferWriter_Init input_mtu;
     (enc_mtu, enc) \<leftarrow> PacketProtoEncoder_Init input_mtu;
     r \<leftarrow> PacketBuffer_Init BAllocArray enc_mtu output_mtu num_packets;
     case r of
       None \<Rightarrow> Some None
     | Some (acts, pb) \<Rightarrow> do {
         k \<leftarrow> pf_connect \<lparr>pf_ainput = w, pf_encoder = enc, pf_buffer = pb_start pb\<rparr>;
         Some (Some k)
       }
   }"

text \<open>
  A user writes a packet with \<open>BufferWriter_StartPacket\<close>, a copy to the memory it gets and
  \<open>BufferWriter_EndPacket\<close>; the inner \<open>None\<close> is a refusal.
\<close>

definition pf_write :: "bytes \<Rightarrow> PacketProtoFlow \<Rightarrow> PacketProtoFlow option option" where
  "pf_write p k = do {
     r \<leftarrow> BufferWriter_StartPacket (pf_ainput k);
     case r of
       None \<Rightarrow> Some None
     | Some (off, w) \<Rightarrow> do {
         (len, w) \<leftarrow> BufferWriter_EndPacket (int (length p)) w;
         mem \<leftarrow> enc_output_packet (pf_encoder k);
         mem \<leftarrow> mem_write mem packetproto_header_size p;
         (acts, enc) \<leftarrow> PacketProtoEncoder_input_handler_done len ((pf_encoder k)\<lparr>enc_output_packet := Some mem\<rparr>);
         case acts of
           [EncDone n mem] \<Rightarrow> do {
             frame \<leftarrow> mem_read mem 0 n;
             c \<leftarrow> pb_step (Produced frame) (pf_buffer k);
             k \<leftarrow> pf_connect (k\<lparr>pf_ainput := w, pf_encoder := enc, pf_buffer := c\<rparr>);
             Some (Some k)
           }
         | _ \<Rightarrow> None
       }
   }"

definition pf_consumed :: "PacketProtoFlow \<Rightarrow> PacketProtoFlow option" where
  "pf_consumed k = do {
     c \<leftarrow> pb_step Consumed (pf_buffer k);
     pf_connect (k\<lparr>pf_buffer := c\<rparr>)
   }"

text \<open>The flow in use: \<open>fst\<close> is its state, \<open>snd\<close> the packets it has accepted.\<close>

datatype pf_event = FlowWrite bytes | FlowConsumed

primrec pf_step :: "pf_event \<Rightarrow> PacketProtoFlow \<times> bytes list \<Rightarrow> (PacketProtoFlow \<times> bytes list) option" where
  "pf_step (FlowWrite p) c = do {
     r \<leftarrow> pf_write p (fst c);
     case r of None \<Rightarrow> Some c | Some k \<Rightarrow> Some (k, snd c @ [p])
   }"
| "pf_step FlowConsumed c = do { k \<leftarrow> pf_consumed (fst c); Some (k, snd c) }"

fun pf_legal :: "pf_event \<Rightarrow> PacketProtoFlow \<times> bytes list \<Rightarrow> bool" where
  "pf_legal (FlowWrite p) c = (int (length p) \<le> bw_mtu (pf_ainput (fst c)))"
| "pf_legal FlowConsumed c = (pc_send (pf_buffer (fst c)) \<noteq> None)"

definition pf_linked :: "int \<Rightarrow> PacketProtoFlow \<Rightarrow> bool" where
  "pf_linked mtu k \<longleftrightarrow> bw_mtu (pf_ainput k) = mtu \<and> \<not> bw_writing (pf_ainput k) \<and>
     (if bw_out_have (pf_ainput k)
      then pc_recv (pf_buffer k) \<noteq> None \<and>
        (\<exists>mem. enc_output_packet (pf_encoder k) = Some mem \<and> int (length mem) = 2 + mtu)
      else enc_output_packet (pf_encoder k) = None)"

definition pf_inv :: "int \<Rightarrow> int \<Rightarrow> PacketProtoFlow \<times> bytes list \<Rightarrow> bool" where
  "pf_inv mtu num c \<longleftrightarrow> 0 \<le> mtu \<and> mtu \<le> 65535 \<and> pf_linked mtu (fst c) \<and>
     bw_out_have (pf_ainput (fst c)) = (pc_recv (pf_buffer (fst c)) \<noteq> None) \<and>
     pc_in (pf_buffer (fst c)) = map pp_encode (snd c) \<and> (\<exists>q. pb_inv (2 + mtu) num (pf_buffer (fst c)) q)"

lemma pb_recv_region:
  assumes "pb_inv n num c q" "pc_recv c = Some off"
  shows "\<exists>mem. mem_read (cb_buffer (pb_buf (pc_pb c))) off n = Some mem \<and> int (length mem) = n"
proof -
  let ?b = "pb_buf (pc_pb c)"
  from assms have i: "cb_inv ?b q" "0 \<le> n" "n \<le> cb_input_avail ?b" "cb_input_dest ?b = Some off"
    by (auto simp: pb_inv_def Let_def split: if_splits)
  then have io: "0 < ChunkBuffer2_free ?b" "off = 4 * (ChunkBuffer2_end ?b + 1)"
    "cb_input_avail ?b = (ChunkBuffer2_free ?b - 1) * 4"
    by (auto simp: cb_inv_def cb_io_def split: if_splits)
  have l: "cb_layout ?b q" using i(1) by (simp add: cb_inv_def)
  then have "ChunkBuffer2_end ?b + ChunkBuffer2_free ?b \<le> cb_size ?b" "int (length (cb_buffer ?b)) = 4 * cb_size ?b"
    by (auto simp: cb_layout_def ChunkBuffer2_free_def)
  with io i cb_end_limit(1) [OF l] show ?thesis
    by (simp add: mem_read_def)
qed

text \<open>Handing the buffer's request on to the encoder and the writer.\<close>

lemma pf_connect_ok:
  assumes "pf_linked mtu k" "pb_inv (2 + mtu) num (pf_buffer k) q"
  shows "\<exists>k'. pf_connect k = Some k' \<and> pf_linked mtu k' \<and> pf_buffer k' = pf_buffer k \<and>
    bw_out_have (pf_ainput k') = (pc_recv (pf_buffer k) \<noteq> None)"
proof (cases "pc_recv (pf_buffer k)")
  case None
  with assms(1) show ?thesis by (auto simp: pf_connect_def pf_linked_def split: if_splits)
next
  case (Some off)
  from pb_recv_region [OF assms(2) Some] obtain mem where
    "mem_read (cb_buffer (pb_buf (pc_pb (pf_buffer k)))) off (2 + mtu) = Some mem" "int (length mem) = 2 + mtu" by blast
  with Some assms(1) show ?thesis
    by (auto simp: pf_connect_def pf_linked_def packetproto_defs PacketProtoEncoder_output_handler_recv_def
        BufferWriter_output_handler_recv_def)
qed

lemma pf_write_ok:
  assumes inv: "pf_inv mtu num (k, ps)" and p: "int (length p) \<le> mtu"
  shows "if pc_recv (pf_buffer k) = None then pf_write p k = Some None
    else \<exists>k'. pf_write p k = Some (Some k') \<and> pf_inv mtu num (k', ps @ [p])"
proof (cases "pc_recv (pf_buffer k)")
  case None
  with inv show ?thesis by (auto simp: pf_inv_def pf_linked_def pf_write_def BufferWriter_StartPacket_def)
next
  case (Some off)
  from inv Some obtain mem q where
    i: "bw_out_have (pf_ainput k)" "\<not> bw_writing (pf_ainput k)" "bw_mtu (pf_ainput k) = mtu"
      "enc_output_packet (pf_encoder k) = Some mem" "int (length mem) = 2 + mtu" "mtu \<le> 65535"
      "pb_inv (2 + mtu) num (pf_buffer k) q" "pc_in (pf_buffer k) = map pp_encode ps" "0 \<le> mtu"
    by (auto simp: pf_inv_def pf_linked_def)
  have "2 + length p \<le> length mem" "length p \<le> 65535" using i(5,6) p by linarith+
  from encoder_frame [of "\<lparr>enc_output_packet = None\<rparr>", OF _ this(2,1)] obtain mem1 mem2 enc2 where
    e: "mem_write mem 2 p = Some mem1"
      "PacketProtoEncoder_input_handler_done (int (length p)) \<lparr>enc_output_packet = Some mem1\<rparr> =
         Some ([EncDone (2 + int (length p)) mem2], enc2)"
      "enc_output_packet enc2 = None" "mem_read mem2 0 (2 + int (length p)) = Some (pp_encode p)"
    by (auto simp: PacketProtoEncoder_output_handler_recv_def)
  have enc: "(pf_encoder k)\<lparr>enc_output_packet := Some mem1\<rparr> = \<lparr>enc_output_packet = Some mem1\<rparr>" by simp
  have "pb_input_mtu (pc_pb (pf_buffer k)) = 2 + mtu" using i(7) by (simp add: pb_inv_def Let_def)
  then have "pb_legal (Produced (pp_encode p)) (pf_buffer k)" using Some p by (simp add: pp_encode_def)
  from pb_produced [OF i(7) this] obtain c where
    c: "pb_step (Produced (pp_encode p)) (pf_buffer k) = Some c" "pb_inv (2 + mtu) num c (q @ [pp_encode p])" by blast
  have "pc_in (pf_buffer k) = pc_out (pf_buffer k) @ q" using i(7) by (simp add: pb_inv_def Let_def)
  have cin: "pc_in c = map pp_encode (ps @ [p])"
    using pb_step_in [OF c(1)] i(8) by simp
  let ?w = "(pf_ainput k)\<lparr>bw_out_have := False, bw_writing := False\<rparr>"
  have w: "(pf_ainput k)\<lparr>bw_writing := True, bw_out_have := False, bw_writing := False\<rparr> = ?w" by simp
  let ?k = "k\<lparr>pf_ainput := ?w, pf_encoder := enc2, pf_buffer := c\<rparr>"
  have "pf_linked mtu ?k" using i(3) e(3) by (simp add: pf_linked_def)
  from pf_connect_ok [OF this, of num "q @ [pp_encode p]"] c(2) obtain k' where
    k': "pf_connect ?k = Some k'" "pf_linked mtu k'" "pf_buffer k' = c" "bw_out_have (pf_ainput k') = (pc_recv c \<noteq> None)"
    by auto
  then have "pf_inv mtu num (k', ps @ [p])" using i(6,9) cin c(2) by (auto simp: pf_inv_def)
  moreover have "pf_write p k = Some (Some k')"
    using i p e c(1) k'(1)
    by (simp add: enc w pf_write_def BufferWriter_StartPacket_def BufferWriter_EndPacket_def packetproto_defs
        del: pb_step.simps)
  ultimately show ?thesis using Some by simp
qed

lemma pf_consumed_ok:
  assumes inv: "pf_inv mtu num (k, ps)" and s: "pc_send (pf_buffer k) \<noteq> None"
  shows "\<exists>k'. pf_consumed k = Some k' \<and> pf_inv mtu num (k', ps)"
proof -
  from inv obtain q where q: "pb_inv (2 + mtu) num (pf_buffer k) q" by (auto simp: pf_inv_def)
  with s obtain f q' where "q = f # q'" by (cases q) (auto simp: pb_inv_def Let_def)
  with pb_consumed q obtain c where c: "pb_step Consumed (pf_buffer k) = Some c" "pb_inv (2 + mtu) num c q'" by blast
  note keep = pb_consumed_recv [OF c(1)]
  let ?k = "k\<lparr>pf_buffer := c\<rparr>"
  have "pf_linked mtu ?k" using inv keep by (auto simp: pf_inv_def pf_linked_def)
  from pf_connect_ok [OF this, of num q'] c(2) obtain k' where
    "pf_connect ?k = Some k'" "pf_linked mtu k'" "pf_buffer k' = c" "bw_out_have (pf_ainput k') = (pc_recv c \<noteq> None)"
    by auto
  with inv c keep show ?thesis by (auto simp: pf_inv_def pf_consumed_def)
qed

interpretation pf: event_machine pf_step pf_legal "pf_inv mtu num" for mtu num
proof
  fix c e
  assume i: "pf_inv mtu num c" and l: "pf_legal e c"
  obtain k ps where c: "c = (k, ps)" by (cases c)
  show "\<exists>c'. pf_step e c = Some c' \<and> pf_inv mtu num c'"
  proof (cases e)
    case (FlowWrite p)
    with l i have "int (length p) \<le> mtu" by (simp add: c pf_inv_def pf_linked_def)
    from pf_write_ok [OF i [unfolded c] this] FlowWrite i show ?thesis
      by (cases "pc_recv (pf_buffer k)") (auto simp: c)
  next
    case FlowConsumed
    with pf_consumed_ok [OF i [unfolded c]] l show ?thesis by (auto simp: c)
  qed
qed

lemma pf_Init_inv:
  assumes "PacketProtoFlow_Init BAllocArray mtu num output_mtu = Some (Some k)"
    and "\<And>n s m. 0 \<le> n \<Longrightarrow> 0 \<le> s \<Longrightarrow> BAllocArray n s = Some m \<Longrightarrow> int (length m) = n * s"
    and "block_size * ChunkBuffer2_calc_blocks (2 + mtu) num \<le> INT_MAX"
  shows "pf_inv mtu num (k, [])"
proof -
  let ?w = "\<lparr>bw_out_have = False, bw_out = 0, bw_mtu = mtu, bw_writing = False\<rparr>"
  from assms(1) obtain acts pb where
    a: "0 \<le> mtu" "mtu \<le> 65535" "PacketBuffer_Init BAllocArray (2 + mtu) output_mtu num = Some (Some (acts, pb))"
      "pf_connect \<lparr>pf_ainput = ?w, pf_encoder = \<lparr>enc_output_packet = None\<rparr>, pf_buffer = pb_start pb\<rparr> = Some k"
    by (auto simp: PacketProtoFlow_Init_def BufferWriter_Init_def PacketProtoEncoder_Init_def packetproto_defs
        split: Option.bind_splits option.splits)
  have "pb_inv (2 + mtu) num (pb_start pb) []" using a(1) by (intro pb_start_inv [OF a(3) assms(2,3)]) auto
  with pf_connect_ok [of mtu "\<lparr>pf_ainput = ?w, pf_encoder = \<lparr>enc_output_packet = None\<rparr>, pf_buffer = pb_start pb\<rparr>" num "[]"]
    a show ?thesis by (auto simp: pf_inv_def pf_linked_def pb_start_def)
qed

end
