(* ===== verification/Framed_Channel.thy ===== *)
theory Framed_Channel
  imports Flow_Elements "HOL-Library.Sublist"
begin

text \<open>
  The framed channel a udpgw connection uses: packets are written to a \<open>PacketProtoFlow\<close> (writer,
  encoder and packet buffer), a \<open>PacketStreamSender\<close> turns its packets into a byte stream, and at the
  other end of the stream a \<open>PacketProtoDecoder\<close> takes the packets out again.  The components are
  connected as \<open>UdpGwClient.c\<close> does it: the sender works on a packet in the buffer's memory, and only
  when it has sent the last byte does the buffer drop the packet.  The stream in between is a queue of
  bytes.

  The invariant says that nothing is lost, duplicated or reordered at any of the joints.
\<close>

section \<open>The channel\<close>

record channel =
  ch_flow :: "PacketProtoFlow \<times> bytes list"
  ch_sender :: ss_config
  ch_net :: bytes
  ch_decoder :: dec_config

datatype ch_event = ChWrite bytes | ChPass | ChTake int | ChArrive nat | ChHandled

definition flow_head :: "PacketProtoFlow \<Rightarrow> bytes option" where
  "flow_head k = do {
     (off, n) \<leftarrow> pc_send (pf_buffer k);
     mem_read (cb_buffer (pb_buf (pc_pb (pf_buffer k)))) off n
   }"

primrec ch_step :: "ch_event \<Rightarrow> channel \<Rightarrow> channel option" where
  "ch_step (ChWrite p) c = do {
     f \<leftarrow> pf_step (FlowWrite p) (ch_flow c);
     Some (c\<lparr>ch_flow := f\<rparr>)
   }"
| "ch_step ChPass c = do {
     frame \<leftarrow> flow_head (fst (ch_flow c));
     s \<leftarrow> ss_step (SsPacket frame) (ch_sender c);
     Some (c\<lparr>ch_sender := s\<rparr>)
   }"
| "ch_step (ChTake n) c = do {
     s \<leftarrow> ss_step (SsTaken n) (ch_sender c);
     f \<leftarrow> (if length (st_done (ch_sender c)) < length (st_done s) then pf_step FlowConsumed (ch_flow c) else Some (ch_flow c));
     Some (c\<lparr>ch_flow := f, ch_sender := s, ch_net := ch_net c @ drop (length (st_stream (ch_sender c))) (st_stream s)\<rparr>)
   }"
| "ch_step (ChArrive n) c = do {
     d \<leftarrow> dec_step (Deliver (take n (ch_net c))) (ch_decoder c);
     Some (c\<lparr>ch_net := drop n (ch_net c), ch_decoder := d\<rparr>)
   }"
| "ch_step ChHandled c = do {
     d \<leftarrow> dec_step OutputDone (ch_decoder c);
     Some (c\<lparr>ch_decoder := d\<rparr>)
   }"

fun ch_legal :: "ch_event \<Rightarrow> channel \<Rightarrow> bool" where
  "ch_legal (ChWrite p) c = pf_legal (FlowWrite p) (ch_flow c)"
| "ch_legal ChPass c = (pc_send (pf_buffer (fst (ch_flow c))) \<noteq> None \<and> st_given (ch_sender c) = st_done (ch_sender c))"
| "ch_legal (ChTake n) c = ss_legal (SsTaken n) (ch_sender c)"
| "ch_legal (ChArrive n) c = (n \<le> length (ch_net c) \<and> dec_legal (Deliver (take n (ch_net c))) (ch_decoder c))"
| "ch_legal ChHandled c = dec_legal OutputDone (ch_decoder c)"

definition ch_start :: "PacketProtoFlow \<Rightarrow> PacketStreamSender \<Rightarrow> PacketProtoDecoder \<Rightarrow> channel" where
  "ch_start k s d = \<lparr>ch_flow = (k, []), ch_sender = ss_start s, ch_net = [], ch_decoder = dec_start d\<rparr>"

definition ch_inv :: "int \<Rightarrow> int \<Rightarrow> channel \<Rightarrow> bool" where
  "ch_inv mtu num c \<longleftrightarrow> pf_inv mtu num (ch_flow c) \<and> ss_inv (ch_sender c) \<and> dec_conf_inv (ch_decoder c) \<and>
     mtu \<le> dec_output_mtu (dc_dec (ch_decoder c)) \<and> dec_output_mtu (dc_dec (ch_decoder c)) \<le> 65535 \<and>
     (\<forall>p\<in>set (snd (ch_flow c)). int (length p) \<le> mtu) \<and>
     pc_out (pf_buffer (fst (ch_flow c))) = st_done (ch_sender c) \<and>
     prefix (st_given (ch_sender c)) (pc_in (pf_buffer (fst (ch_flow c)))) \<and>
     st_stream (ch_sender c) = dc_in (ch_decoder c) @ ch_net c"

section \<open>What the components keep\<close>

lemma pf_connect_buffer: "pf_connect k = Some k' \<Longrightarrow> pf_buffer k' = pf_buffer k"
  by (auto simp: pf_connect_def split: Option.bind_splits option.splits list.splits enc_action.splits if_splits)

lemma pb_step_out: "pb_step (Produced p) c = Some c' \<Longrightarrow> pc_out c' = pc_out c"
  by (auto simp: Let_def split: Option.bind_splits dest!: pb_performs_keep)

lemma pb_head:
  assumes "pb_inv mtu num c (p # q)"
  shows "pc_send c \<noteq> None" and "pc_send c = Some (off, n) \<Longrightarrow> mem_read (cb_buffer (pb_buf (pc_pb c))) off n = Some p"
  using assms cb_layout_first(4) [of "pb_buf (pc_pb c)" p q] by (auto simp: pb_inv_def cb_inv_def Let_def)

lemma flow_head_value: "pb_inv mtu num (pf_buffer k) (p # q) \<Longrightarrow> flow_head k = Some p"
  using pb_head [of mtu num "pf_buffer k" p q] by (auto simp: flow_head_def split: Option.bind_splits)

lemma pb_consumed_out: "pb_inv mtu num c (p # q) \<Longrightarrow> pb_step Consumed c = Some c' \<Longrightarrow> pc_out c' = pc_out c @ [p]"
  by (auto simp: pb_head(2) split: Option.bind_splits dest!: pb_performs_keep)

lemma pf_step_write_out:
  "pf_step (FlowWrite p) f = Some f' \<Longrightarrow> pc_out (pf_buffer (fst f')) = pc_out (pf_buffer (fst f)) \<and>
   snd f' \<in> {snd f, snd f @ [p]}"
  by (auto simp: pf_write_def split: Option.bind_splits option.splits list.splits enc_action.splits
      dest!: pf_connect_buffer pb_step_out simp del: pb_step.simps)

lemma pf_step_consumed_out:
  "pb_inv mtu num (pf_buffer (fst f)) (p # q) \<Longrightarrow> pf_step FlowConsumed f = Some f' \<Longrightarrow>
   pc_out (pf_buffer (fst f')) = pc_out (pf_buffer (fst f)) @ [p] \<and> snd f' = snd f \<and>
   pc_in (pf_buffer (fst f')) = pc_in (pf_buffer (fst f))"
  by (auto simp: pf_consumed_def split: Option.bind_splits dest!: pf_connect_buffer simp del: pb_step.simps
      dest: pb_consumed_out pb_consumed_recv)

lemma dec_performs_in: "dec_performs as c = Some c' \<Longrightarrow> dc_in c' = dc_in c"
proof (induction as arbitrary: c)
  case (Cons a as)
  then obtain c1 where "dec_perform a c = Some c1" "dec_performs as c1 = Some c'" by (auto split: Option.bind_splits)
  with Cons.IH [of c1] show ?case by (cases a) (auto split: Option.bind_splits)
qed simp

lemma dec_step_in:
  "dec_step (Deliver bs) c = Some c' \<Longrightarrow> dc_in c' = dc_in c @ bs"
  "dec_step OutputDone c = Some c' \<Longrightarrow> dc_in c' = dc_in c"
  by (auto simp: Let_def split: Option.bind_splits dest!: dec_performs_in)


lemma dec_step_mtu:
  assumes "dec_conf_inv c" "dec_legal e c" "dec_step e c = Some c'"
  shows "dec_conf_inv c' \<and> dec_output_mtu (dc_dec c') = dec_output_mtu (dc_dec c)"
  using dec.step_ok [of c "dec_output_mtu (dc_dec c)" e] assms by auto

text \<open>The sender: while it works on a packet, the stream is made of the frames that are done and a part of
  that packet; each event adds to the stream.\<close>

lemma ss_inv_stream:
  assumes "ss_inv c"
  shows "prefix (st_stream c) (concat (st_given c))" and "st_given c = st_done c \<or> (\<exists>p. st_given c = st_done c @ [p])"
    and "st_given c = st_done c \<Longrightarrow> st_stream c = concat (st_given c)"
  using assms by (auto simp: ss_inv_def Let_def take_is_prefix split: if_splits)

lemma ss_taken_keeps:
  assumes "ss_inv c" "ss_legal (SsTaken n) c" "ss_step (SsTaken n) c = Some c'"
  shows "prefix (st_stream c) (st_stream c') \<and> st_given c' = st_given c \<and>
    (st_done c' = st_done c \<or> (\<exists>p. st_given c = st_done c @ [p]) \<and> st_done c' = st_given c)"
  using assms
  by (auto simp: ss_inv_def Let_def PacketStreamSender_output_handler_done_def send_data_def
      split: if_splits option.splits Option.bind_splits)

lemma ss_taken_grows:
  assumes "ss_inv c" "ss_legal (SsTaken n) c" "ss_step (SsTaken n) c = Some c'"
  shows "length (st_stream c) < length (st_stream c')"
  using assms
  by (auto simp: ss_inv_def Let_def PacketStreamSender_output_handler_done_def send_data_def mem_read_def
      split: if_splits option.splits Option.bind_splits)

lemma ss_packet_keeps:
  assumes "ss_inv c" "st_given c = st_done c" "p \<noteq> []" "ss_step (SsPacket p) c = Some c'"
  shows "st_stream c' = st_stream c \<and> st_given c' = st_given c @ [p] \<and> st_done c' = st_done c"
  using assms
  by (auto simp: ss_inv_def Let_def PacketStreamSender_input_handler_send_def send_data_def
      split: if_splits option.splits Option.bind_splits)

section \<open>The invariant\<close>

lemma ch_queue:
  assumes "ch_inv mtu num c"
  obtains q where "pb_inv (2 + mtu) num (pf_buffer (fst (ch_flow c))) q"
    "map pp_encode (snd (ch_flow c)) = st_done (ch_sender c) @ q"
  using assms by (cases "ch_flow c") (auto simp: ch_inv_def pf_inv_def pb_inv_def Let_def)

lemma ch_write_ok:
  assumes i: "ch_inv mtu num c" and l: "ch_legal (ChWrite p) c"
  shows "\<exists>c'. ch_step (ChWrite p) c = Some c' \<and> ch_inv mtu num c'"
proof -
  from i l have f: "pf_inv mtu num (ch_flow c)" "pf_legal (FlowWrite p) (ch_flow c)" by (auto simp: ch_inv_def)
  from pf.step_ok [OF f] obtain f' where f': "pf_step (FlowWrite p) (ch_flow c) = Some f'" "pf_inv mtu num f'" by blast
  have "int (length p) \<le> mtu" using f by (auto simp: pf_inv_def pf_linked_def)
  moreover have "pc_in (pf_buffer (fst f')) = map pp_encode (snd f')"
    "pc_in (pf_buffer (fst (ch_flow c))) = map pp_encode (snd (ch_flow c))" using f(1) f'(2) by (auto simp: pf_inv_def)
  ultimately show ?thesis
    using i f' pf_step_write_out [OF f'(1)] by (auto simp: ch_inv_def simp del: pf_step.simps)
qed

lemma ch_pass_ok:
  assumes i: "ch_inv mtu num c" and l: "ch_legal ChPass c"
  shows "\<exists>c'. ch_step ChPass c = Some c' \<and> ch_inv mtu num c'"
proof -
  from ch_queue [OF i] obtain q where q: "pb_inv (2 + mtu) num (pf_buffer (fst (ch_flow c))) q"
    "map pp_encode (snd (ch_flow c)) = st_done (ch_sender c) @ q" .
  with l obtain f q' where c: "q = f # q'" by (cases q) (auto simp: pb_inv_def Let_def)
  have "f \<in> set (map pp_encode (snd (ch_flow c)))" unfolding q(2) c by simp
  then have ne: "f \<noteq> []" by auto
  from i l have s: "ss_inv (ch_sender c)" "ss_legal (SsPacket f) (ch_sender c)" "st_given (ch_sender c) = st_done (ch_sender c)"
    by (auto simp: ch_inv_def)
  from ss.step_ok [OF s(1,2)] obtain s' where s': "ss_step (SsPacket f) (ch_sender c) = Some s'" "ss_inv s'" by blast
  have "pc_in (pf_buffer (fst (ch_flow c))) = st_done (ch_sender c) @ f # q'"
    using i q(2) unfolding c ch_inv_def pf_inv_def by simp
  then show ?thesis
    using i s' ss_packet_keeps [OF s(1,3) ne s'(1)] flow_head_value [OF q(1) [unfolded c]] s(3)
    by (auto simp: ch_inv_def simp del: ss_step.simps)
qed

lemma ch_take_ok:
  assumes i: "ch_inv mtu num c" and l: "ch_legal (ChTake n) c"
  shows "\<exists>c'. ch_step (ChTake n) c = Some c' \<and> ch_inv mtu num c'"
proof -
  from ch_queue [OF i] obtain q where q: "pb_inv (2 + mtu) num (pf_buffer (fst (ch_flow c))) q"
    "map pp_encode (snd (ch_flow c)) = st_done (ch_sender c) @ q" .
  from i l have s: "ss_inv (ch_sender c)" "ss_legal (SsTaken n) (ch_sender c)" by (auto simp: ch_inv_def)
  from ss.step_ok [OF s] obtain s' where s': "ss_step (SsTaken n) (ch_sender c) = Some s'" "ss_inv s'" by blast
  note keep = ss_taken_keeps [OF s s'(1)]
  then obtain bs where bs: "st_stream s' = st_stream (ch_sender c) @ bs" by (auto elim: prefixE)
  show ?thesis
  proof (cases "st_done s' = st_done (ch_sender c)")
    case True
    with i s' keep bs show ?thesis by (auto simp: ch_inv_def simp del: ss_step.simps)
  next
    case False
    with keep obtain p where p: "st_given (ch_sender c) = st_done (ch_sender c) @ [p]" "st_done s' = st_done (ch_sender c) @ [p]"
      by auto
    have "prefix (st_done (ch_sender c) @ [p]) (st_done (ch_sender c) @ q)"
      using i q(2) unfolding ch_inv_def pf_inv_def p(1) by metis
    then obtain q' where c: "q = p # q'" by (cases q) auto
    have f: "pf_inv mtu num (ch_flow c)" "pf_legal FlowConsumed (ch_flow c)"
      using i pb_head(1) [OF q(1) [unfolded c]] by (auto simp: ch_inv_def)
    from pf.step_ok [OF f] obtain f' where f': "pf_step FlowConsumed (ch_flow c) = Some f'" "pf_inv mtu num f'" by blast
    from pf_step_consumed_out [OF q(1) [unfolded c] f'(1)] i s' keep bs p f' show ?thesis
      by (auto simp: ch_inv_def simp del: ss_step.simps pf_step.simps)
  qed
qed

interpretation ch: event_machine ch_step ch_legal "ch_inv mtu num" for mtu num
proof
  fix c e
  assume i: "ch_inv mtu num c" and l: "ch_legal e c"
  then have d: "dec_conf_inv (ch_decoder c)" by (simp add: ch_inv_def)
  show "\<exists>c'. ch_step e c = Some c' \<and> ch_inv mtu num c'"
  proof (cases e)
    case (ChArrive n)
    with l have dl: "dec_legal (Deliver (take n (ch_net c))) (ch_decoder c)" by (simp only: ch_legal.simps)
    from dec.step_ok [OF conjI [OF d refl] dl] obtain d' where d': "dec_step (Deliver (take n (ch_net c))) (ch_decoder c) = Some d'" by blast
    from ChArrive i d' dec_step_mtu [OF d dl d'] dec_step_in(1) [OF d'] show ?thesis
      by (auto simp: ch_inv_def simp del: dec_step.simps)
  next
    case ChHandled
    with l have dl: "dec_legal OutputDone (ch_decoder c)" by simp
    from dec.step_ok [OF conjI [OF d refl] dl] obtain d' where d': "dec_step OutputDone (ch_decoder c) = Some d'" by blast
    from ChHandled i d' dec_step_mtu [OF d dl d'] dec_step_in(2) [OF d'] show ?thesis
      by (auto simp: ch_inv_def simp del: dec_step.simps)
  qed (use i l ch_write_ok ch_pass_ok ch_take_ok in blast)+
qed

section \<open>What arrives\<close>

lemma dec_conf_prefix:
  assumes i: "dec_conf_inv c" and d: "prefix (dc_in c) (concat (map pp_encode ps))"
    and ps: "\<forall>p\<in>set ps. int (length p) \<le> dec_output_mtu (dc_dec c)" and m: "dec_output_mtu (dc_dec c) \<le> 65535"
  shows "\<not> dc_err c \<and> prefix (dc_out c) ps"
proof -
  from d obtain rest where r: "concat (map pp_encode ps) = dc_in c @ rest" by (rule prefixE)
  have e: "\<not> dc_err c"
    using bad_stream_frames [OF ps m] bad_stream_append [of _ "dc_in c" rest] i unfolding r
    by (auto simp: dec_conf_inv_def Let_def)
  with i r have f: "concat (map pp_encode (dc_out c)) @ (dec_data (dc_dec c) @ rest) = concat (map pp_encode ps)"
    "\<forall>p\<in>set (dc_out c). int (length p) \<le> dec_output_mtu (dc_dec c)" by (auto simp: dec_conf_inv_def Let_def)
  from pp_frames_unique [OF f ps m] e show ?thesis by auto
qed

lemma concat_prefix: "prefix xs ys \<Longrightarrow> prefix (concat xs) (concat ys)"
  by (auto elim!: prefixE)

lemma ch_delivers:
  assumes "ch_inv mtu num c"
  shows "\<not> dc_err (ch_decoder c) \<and> prefix (dc_out (ch_decoder c)) (snd (ch_flow c)) \<and>
    (pc_send (pf_buffer (fst (ch_flow c))) = None \<and> ch_net c = [] \<and> \<not> dc_sending (ch_decoder c) \<longrightarrow>
       dc_out (ch_decoder c) = snd (ch_flow c))"
proof -
  let ?d = "ch_decoder c" and ?ps = "snd (ch_flow c)" and ?s = "ch_sender c"
  from assms have i: "dec_conf_inv ?d" "\<forall>p\<in>set ?ps. int (length p) \<le> dec_output_mtu (dc_dec ?d)"
    "dec_output_mtu (dc_dec ?d) \<le> 65535" "ss_inv ?s" "prefix (st_given ?s) (map pp_encode ?ps)"
    "st_stream ?s = dc_in ?d @ ch_net c"
    by (auto simp: ch_inv_def pf_inv_def)
  have "prefix (dc_in ?d) (concat (map pp_encode ?ps))"
    using ss_inv_stream(1) [OF i(4)] concat_prefix [OF i(5)] i(6) by (metis prefixI prefix_order.trans)
  from dec_conf_prefix [OF i(1) this i(2,3)] have p: "\<not> dc_err ?d \<and> prefix (dc_out ?d) ?ps" .
  have "dc_out ?d = ?ps" if idle: "pc_send (pf_buffer (fst (ch_flow c))) = None" "ch_net c = []" "\<not> dc_sending ?d"
  proof -
    from ch_queue [OF assms] obtain q where q: "pb_inv (2 + mtu) num (pf_buffer (fst (ch_flow c))) q"
      "map pp_encode ?ps = st_done ?s @ q" .
    from q(1) idle(1) have "q = []" by (cases q) (auto simp: pb_inv_def Let_def)
    with q(2) i(5) ss_inv_stream(2) [OF i(4)] have "st_given ?s = st_done ?s" "st_done ?s = map pp_encode ?ps" by auto
    with ss_inv_stream(3) [OF i(4)] i(6) idle(2) have "dc_in ?d = concat (map pp_encode ?ps)" by simp
    from dec_conf_frames [OF i(1) idle(3) this i(2,3)] show ?thesis by simp
  qed
  with p show ?thesis by blast
qed

lemma ch_start_inv:
  assumes "PacketProtoFlow_Init BAllocArray mtu num output_mtu = Some (Some k)"
    and "\<And>n s m. 0 \<le> n \<Longrightarrow> 0 \<le> s \<Longrightarrow> BAllocArray n s = Some m \<Longrightarrow> int (length m) = n * s"
    and "block_size * ChunkBuffer2_calc_blocks (2 + mtu) num \<le> INT_MAX"
    and "PacketStreamSender_Init output_mtu = Some s"
    and "PacketProtoDecoder_Init malloc mtu = Some (acts, d)"
    and "\<And>n b. 0 \<le> n \<Longrightarrow> malloc n = Some b \<Longrightarrow> int (length b) = n"
  shows "ch_inv mtu num (ch_start k s d)"
proof -
  have f: "pf_inv mtu num (k, [])" by (rule pf_Init_inv [OF assms(1-3)])
  then have m: "0 \<le> mtu" "mtu \<le> 65535" by (auto simp: pf_inv_def)
  have d: "dec_conf_inv (dec_start d)" "dec_output_mtu d = min mtu PACKETPROTO_MAXPAYLOAD"
    using dec_start_inv [OF assms(5,6) m(1)] by auto
  have "ss_inv (ss_start s)" using assms(4) by (auto simp: PacketStreamSender_Init_def ss_start_def ss_inv_def)
  moreover have "pc_out (pf_buffer k) = []" "pc_in (pf_buffer k) = []" using f by (auto simp: pf_inv_def pb_inv_def Let_def)
  ultimately show ?thesis using f d m
    by (auto simp: ch_inv_def ch_start_def ss_start_def dec_start_def PACKETPROTO_MAXPAYLOAD_def)
qed


section \<open>Everything arrives\<close>

text \<open>
  While a written packet has not come out, some part of the channel can act, and every action brings the
  packets closer to the end: \<open>ch_work\<close> counts the bytes and packets that are still on the way.
\<close>

definition ch_internal :: "ch_event \<Rightarrow> bool" where
  "ch_internal e \<longleftrightarrow> (\<forall>p. e \<noteq> ChWrite p)"

definition ch_work :: "channel \<Rightarrow> int" where
  "ch_work c = (let n = int (length (snd (ch_flow c))) in
     2 * (n - int (length (dc_out (ch_decoder c)))) + (if dc_sending (ch_decoder c) then 1 else 0) + int (length (ch_net c)) +
     2 * (int (length (concat (map pp_encode (snd (ch_flow c))))) - int (length (st_stream (ch_sender c)))) +
     (n - int (length (st_given (ch_sender c)))))"

lemma ch_work_nonneg:
  assumes "ch_inv mtu num c"
  shows "0 \<le> ch_work c"
proof -
  from assms have i: "ss_inv (ch_sender c)" "prefix (st_given (ch_sender c)) (map pp_encode (snd (ch_flow c)))"
    by (auto simp: ch_inv_def pf_inv_def)
  from prefix_length_le [OF i(2)] prefix_length_le [OF prefix_order.trans [OF ss_inv_stream(1) [OF i(1)] concat_prefix [OF i(2)]]]
    ch_delivers [OF assms] show ?thesis by (auto simp: ch_work_def Let_def dest!: prefix_length_le)
qed

lemma process_data_actions:
  "process_data d = Some (acts, d') \<Longrightarrow>
   (\<exists>off n. acts = [DecSend off n]) \<or> (\<exists>off n. acts = [DecRecv off n]) \<or> (\<exists>off n. acts = [DecRecv off n, DecError])"
  by (auto simp: process_data_def Let_def split: Option.bind_splits sum.splits if_splits)

lemma dec_effect:
  assumes "dec_step e c = Some c'"
  shows "dc_out c' = dc_out c \<and> \<not> dc_sending c' \<or> (\<exists>p. dc_out c' = dc_out c @ [p] \<and> dc_sending c')"
proof -
  from assms obtain acts d d' c1 where a: "process_data d = Some (acts, d')" "dec_performs acts c1 = Some c'" "dc_out c1 = dc_out c"
    by (cases e) (auto simp: Let_def PacketProtoDecoder_input_handler_done_def PacketProtoDecoder_output_handler_done_def
        split: Option.bind_splits)
  from process_data_actions [OF a(1)] a(2,3) show ?thesis by (auto split: Option.bind_splits)
qed

lemma ch_progress:
  assumes i: "ch_inv mtu num c" and n: "dc_out (ch_decoder c) \<noteq> snd (ch_flow c)"
  shows "\<exists>e. ch_internal e \<and> ch_legal e c"
proof (cases "dc_sending (ch_decoder c)")
  case True
  then show ?thesis by (intro exI [of _ ChHandled]) (simp add: ch_internal_def)
next
  case False
  show ?thesis
  proof (cases "ch_net c = []")
    case net: False
    have "dec_legal (Deliver (take 1 (ch_net c))) (ch_decoder c)"
      using i False net by (cases "ch_net c") (auto simp: ch_inv_def dec_conf_inv_def Let_def)
    then show ?thesis using net by (intro exI [of _ "ChArrive 1"]) (cases "ch_net c", auto simp: ch_internal_def)
  next
    case True
    with ch_delivers [OF i] n False have s: "pc_send (pf_buffer (fst (ch_flow c))) \<noteq> None" by metis
    show ?thesis
    proof (cases "st_given (ch_sender c) = st_done (ch_sender c)")
      case True
      with s show ?thesis by (intro exI [of _ ChPass]) (simp add: ch_internal_def)
    next
      case False
      with i show ?thesis
        by (intro exI [of _ "ChTake 1"]) (auto simp: ch_internal_def ch_inv_def ss_inv_def Let_def split: if_splits)
    qed
  qed
qed

lemma ch_decreases:
  assumes i: "ch_inv mtu num c" and l: "ch_legal e c" and e: "ch_internal e" and s: "ch_step e c = Some c'"
  shows "ch_work c' < ch_work c \<and> snd (ch_flow c') = snd (ch_flow c)"
proof -
  have inv: "ss_inv (ch_sender c)" using i by (simp add: ch_inv_def)
  show ?thesis
  proof (cases e)
    case (ChWrite p)
    with e show ?thesis by (simp add: ch_internal_def)
  next
    case ChPass
    from ch_queue [OF i] obtain q where q: "pb_inv (2 + mtu) num (pf_buffer (fst (ch_flow c))) q"
      "map pp_encode (snd (ch_flow c)) = st_done (ch_sender c) @ q" .
    with ChPass l obtain f q' where c: "q = f # q'" by (cases q) (auto simp: pb_inv_def Let_def)
    have "f \<in> set (map pp_encode (snd (ch_flow c)))" unfolding q(2) c by simp
    then have ne: "f \<noteq> []" by auto
    from s ChPass flow_head_value [OF q(1) [unfolded c]] obtain s' where
      s': "ss_step (SsPacket f) (ch_sender c) = Some s'" "c' = c\<lparr>ch_sender := s'\<rparr>" by (auto split: Option.bind_splits)
    from ss_packet_keeps [OF inv _ ne s'(1)] l ChPass s'(2) show ?thesis by (simp add: ch_work_def Let_def)
  next
    case (ChTake n)
    from s ChTake obtain s' where s': "ss_step (SsTaken n) (ch_sender c) = Some s'" "ch_sender c' = s'"
      "ch_net c' = ch_net c @ drop (length (st_stream (ch_sender c))) (st_stream s')" "ch_decoder c' = ch_decoder c"
      "snd (ch_flow c') = snd (ch_flow c)"
      by (auto split: Option.bind_splits if_splits simp del: ss_step.simps)
    have sl: "ss_legal (SsTaken n) (ch_sender c)" using l ChTake by simp
    from ss_taken_keeps [OF inv sl s'(1)] obtain bs where
      k: "st_stream s' = st_stream (ch_sender c) @ bs" "st_given s' = st_given (ch_sender c)" by (auto elim: prefixE)
    from ss_taken_grows [OF inv sl s'(1)] k(1) have "bs \<noteq> []" by auto
    then have "0 < length bs" by simp
    with s' k show ?thesis by (simp add: ch_work_def Let_def)
  next
    case (ChArrive n)
    from s ChArrive obtain d where d: "dec_step (Deliver (take n (ch_net c))) (ch_decoder c) = Some d"
      "c' = c\<lparr>ch_net := drop n (ch_net c), ch_decoder := d\<rparr>" by (auto split: Option.bind_splits simp del: dec_step.simps)
    from l ChArrive have "\<not> dc_sending (ch_decoder c)" "0 < n" "n \<le> length (ch_net c)" by auto
    with dec_effect [OF d(1)] d(2) show ?thesis by (auto simp: ch_work_def Let_def)
  next
    case ChHandled
    from s ChHandled obtain d where d: "dec_step OutputDone (ch_decoder c) = Some d" "c' = c\<lparr>ch_decoder := d\<rparr>"
      by (auto split: Option.bind_splits simp del: dec_step.simps)
    from l ChHandled have "dc_sending (ch_decoder c)" by simp
    with dec_effect [OF d(1)] d(2) show ?thesis by (auto simp: ch_work_def Let_def)
  qed
qed

definition ch_moves :: "ch_event \<Rightarrow> channel \<Rightarrow> bool" where
  "ch_moves e c \<longleftrightarrow> ch_internal e \<and> ch_legal e c"

interpretation chd: draining_machine ch_step ch_moves "\<lambda>c. ch_inv mtu num c \<and> snd (ch_flow c) = ps"
    "\<lambda>c. dc_out (ch_decoder c) = ps" ch_work for mtu num ps
proof
  fix c e
  assume i: "ch_inv mtu num c \<and> snd (ch_flow c) = ps" and m: "ch_moves e c"
  then show "\<exists>c'. ch_step e c = Some c' \<and> ch_inv mtu num c' \<and> snd (ch_flow c') = ps"
    using ch.step_ok [of mtu num c e] ch_decreases [of mtu num c e] by (auto simp: ch_moves_def)
qed (auto simp: ch_moves_def dest: ch_work_nonneg ch_progress ch_decreases)

end
