(* ===== verification/Net_Addr.thy ===== *)
theory Net_Addr
  imports Flow_Prelude
begin

text \<open>
  Addresses (\<open>system/BAddr.h\<close>) and sizes with overflow detection (\<open>misc/bsize.h\<close>), shared by the
  SOCKS client, the udpgw client and tun2socks.  IP addresses and ports are held in network byte
  order, so on the little-endian targets the bytes of an address in memory are the little-endian
  bytes of the stored integer.
\<close>

section \<open>Addresses\<close>

datatype BAddr =
    BADDR_TYPE_NONE
  | BADDR_TYPE_IPV4 "32 word" "16 word"
  | BADDR_TYPE_IPV6 bytes "16 word"

definition BAddr_InitNone :: BAddr where
  "BAddr_InitNone = BADDR_TYPE_NONE"

definition BAddr_InitIPv4 :: "32 word \<Rightarrow> 16 word \<Rightarrow> BAddr" where
  "BAddr_InitIPv4 ip port = BADDR_TYPE_IPV4 ip port"

definition BAddr_InitIPv6 :: "bytes \<Rightarrow> 16 word \<Rightarrow> BAddr" where
  "BAddr_InitIPv6 ip port = BADDR_TYPE_IPV6 ip port"

definition BAddr_IsInvalid :: "BAddr \<Rightarrow> bool" where
  "BAddr_IsInvalid addr \<longleftrightarrow> addr = BADDR_TYPE_NONE"

primrec BAddr_wf :: "BAddr \<Rightarrow> bool" where
  "BAddr_wf BADDR_TYPE_NONE = True"
| "BAddr_wf (BADDR_TYPE_IPV4 ip port) = True"
| "BAddr_wf (BADDR_TYPE_IPV6 ip port) = (length ip = 16)"

section \<open>Comparison of addresses\<close>

definition ntoh32 :: "32 word \<Rightarrow> 32 word" where
  "ntoh32 w = le32_of (rev (le32_bytes w))"

definition B_COMPARE :: "'a :: linorder \<Rightarrow> 'a \<Rightarrow> int" where
  "B_COMPARE a b = (if a > b then 1 else 0) - (if a < b then 1 else 0)"

text \<open>\<open>memcmp\<close> compares arrays of one length; a shorter list comes first, so that it is an order of all lists.\<close>

fun memcmp :: "bytes \<Rightarrow> bytes \<Rightarrow> int" where
  "memcmp (a # as) (b # bs) = (if a \<noteq> b then uint a - uint b else memcmp as bs)"
| "memcmp [] [] = 0"
| "memcmp [] (b # bs) = -1"
| "memcmp (a # as) [] = 1"

primrec BAddr_type :: "BAddr \<Rightarrow> int" where
  "BAddr_type BADDR_TYPE_NONE = 0"
| "BAddr_type (BADDR_TYPE_IPV4 ip port) = 1"
| "BAddr_type (BADDR_TYPE_IPV6 ip port) = 2"

fun BAddr_CompareOrder :: "BAddr \<Rightarrow> BAddr \<Rightarrow> int" where
  "BAddr_CompareOrder (BADDR_TYPE_IPV4 ip1 port1) (BADDR_TYPE_IPV4 ip2 port2) =
     (let cmp = B_COMPARE (ntoh32 ip1) (ntoh32 ip2) in
      if cmp \<noteq> 0 then cmp else B_COMPARE (hton16 port1) (hton16 port2))"
| "BAddr_CompareOrder (BADDR_TYPE_IPV6 ip1 port1) (BADDR_TYPE_IPV6 ip2 port2) =
     (let cmp = memcmp ip1 ip2 in
      if cmp \<noteq> 0 then B_COMPARE cmp 0 else B_COMPARE (hton16 port1) (hton16 port2))"
| "BAddr_CompareOrder a b = B_COMPARE (BAddr_type a) (BAddr_type b)"

lemma B_COMPARE_0 [simp]: "B_COMPARE a b = 0 \<longleftrightarrow> a = b"
  by (auto simp: B_COMPARE_def)

lemma ntoh32_eq [simp]: "ntoh32 a = ntoh32 b \<longleftrightarrow> a = b"
proof
  assume "ntoh32 a = ntoh32 b"
  then have "le32_bytes (le32_of (rev (le32_bytes a))) = le32_bytes (le32_of (rev (le32_bytes b)))"
    by (simp add: ntoh32_def)
  then have "le32_bytes a = le32_bytes b" by (simp add: le32_bytes_of)
  then show "a = b" by (metis le32_of_bytes)
qed simp

lemma hton16_eq [simp]: "hton16 a = hton16 b \<longleftrightarrow> a = b"
  by (metis hton16_hton16)

lemma memcmp_0 [simp]: "memcmp a b = 0 \<longleftrightarrow> a = b"
  by (induction a b rule: memcmp.induct) (auto simp: word_uint_eq_iff)

lemma BAddr_CompareOrder_0: "BAddr_CompareOrder a b = 0 \<longleftrightarrow> a = b"
  by (cases a; cases b) (auto simp: Let_def)

section \<open>Sizes\<close>

text \<open>The value of \<open>SIZE_MAX\<close> is that of the 32-bit targets, the smallest in use.\<close>

definition SIZE_MAX :: int where
  "SIZE_MAX = 4294967295"

record bsize_t =
  is_overflow :: bool
  bsize_value :: int

definition bsize_fromsize :: "int \<Rightarrow> bsize_t" where
  "bsize_fromsize v = \<lparr>is_overflow = False, bsize_value = v\<rparr>"

definition bsize_fromint :: "int \<Rightarrow> bsize_t" where
  "bsize_fromint v = \<lparr>is_overflow = (v < 0 \<or> v > SIZE_MAX), bsize_value = v mod (SIZE_MAX + 1)\<rparr>"

definition bsize_add :: "bsize_t \<Rightarrow> bsize_t \<Rightarrow> bsize_t" where
  "bsize_add s1 s2 =
     \<lparr>is_overflow = (is_overflow s1 \<or> is_overflow s2 \<or> bsize_value s2 > SIZE_MAX - bsize_value s1),
      bsize_value = (bsize_value s1 + bsize_value s2) mod (SIZE_MAX + 1)\<rparr>"

definition bsize_max :: "bsize_t \<Rightarrow> bsize_t \<Rightarrow> bsize_t" where
  "bsize_max s1 s2 =
     \<lparr>is_overflow = (is_overflow s1 \<or> is_overflow s2),
      bsize_value = (if bsize_value s1 > bsize_value s2 then bsize_value s1 else bsize_value s2)\<rparr>"

definition bsize_mul :: "bsize_t \<Rightarrow> bsize_t \<Rightarrow> bsize_t" where
  "bsize_mul s1 s2 =
     \<lparr>is_overflow = (is_overflow s1 \<or> is_overflow s2 \<or>
        bsize_value s1 \<noteq> 0 \<and> bsize_value s2 > SIZE_MAX div bsize_value s1),
      bsize_value = (bsize_value s1 * bsize_value s2) mod (SIZE_MAX + 1)\<rparr>"

definition bsize_toint :: "bsize_t \<Rightarrow> int option" where
  "bsize_toint s = (if is_overflow s \<or> bsize_value s > 2147483647 then None else Some (bsize_value s))"

lemmas bsize_defs = bsize_fromsize_def bsize_fromint_def bsize_add_def bsize_max_def bsize_mul_def

text \<open>
  The flag is exact: it is set if and only if the mathematical result does not fit, and otherwise
  the value is the mathematical result.
\<close>

definition bsize_wf :: "bsize_t \<Rightarrow> bool" where
  "bsize_wf s \<longleftrightarrow> 0 \<le> bsize_value s \<and> bsize_value s \<le> SIZE_MAX"

lemma bsize_wf_ops [simp]:
  "bsize_wf (bsize_fromint v)" "bsize_wf (bsize_add s t)" "bsize_wf (bsize_mul s t)"
  "0 \<le> v \<Longrightarrow> v \<le> SIZE_MAX \<Longrightarrow> bsize_wf (bsize_fromsize v)"
  "bsize_wf s \<Longrightarrow> bsize_wf t \<Longrightarrow> bsize_wf (bsize_max s t)"
  by (auto simp: bsize_wf_def bsize_defs SIZE_MAX_def)

lemma bsize_add_exact:
  assumes "bsize_wf s" "bsize_wf t" "\<not> is_overflow s" "\<not> is_overflow t"
  shows "is_overflow (bsize_add s t) \<longleftrightarrow> bsize_value s + bsize_value t > SIZE_MAX"
    and "\<not> is_overflow (bsize_add s t) \<Longrightarrow> bsize_value (bsize_add s t) = bsize_value s + bsize_value t"
  using assms by (auto simp: bsize_wf_def bsize_add_def SIZE_MAX_def)

lemma bsize_mul_exact:
  assumes "bsize_wf s" "bsize_wf t" "\<not> is_overflow s" "\<not> is_overflow t"
  shows "is_overflow (bsize_mul s t) \<longleftrightarrow> bsize_value s * bsize_value t > SIZE_MAX"
    and "\<not> is_overflow (bsize_mul s t) \<Longrightarrow> bsize_value (bsize_mul s t) = bsize_value s * bsize_value t"
proof -
  let ?a = "bsize_value s" and ?b = "bsize_value t"
  show 1: "is_overflow (bsize_mul s t) \<longleftrightarrow> ?a * ?b > SIZE_MAX"
  proof (cases "?a = 0")
    case True
    then show ?thesis using assms by (simp add: bsize_mul_def SIZE_MAX_def)
  next
    case False
    then have "0 < ?a" using assms(1) by (simp add: bsize_wf_def)
    have "?b \<le> SIZE_MAX div ?a \<longleftrightarrow> ?b * ?a \<le> SIZE_MAX"
    proof
      assume "?b \<le> SIZE_MAX div ?a"
      then have "?b * ?a \<le> SIZE_MAX div ?a * ?a" using \<open>0 < ?a\<close> by (intro mult_right_mono) auto
      also have "\<dots> \<le> SIZE_MAX" using \<open>0 < ?a\<close> by (simp add: minus_mod_eq_div_mult [symmetric])
      finally show "?b * ?a \<le> SIZE_MAX" .
    next
      assume "?b * ?a \<le> SIZE_MAX"
      from zdiv_mono1 [OF this \<open>0 < ?a\<close>] False show "?b \<le> SIZE_MAX div ?a" by simp
    qed
    with False assms show ?thesis by (simp add: bsize_mul_def mult.commute not_le [symmetric])
  qed
  show "bsize_value (bsize_mul s t) = ?a * ?b" if "\<not> is_overflow (bsize_mul s t)"
    using 1 that assms by (simp add: bsize_wf_def bsize_mul_def)
qed

end
