(* ===== verification/Number_Text.thy ===== *)
theory Number_Text
  imports Net_Addr
begin

text \<open>
  Numbers as text (\<open>misc/parse_number.h\<close>).  A string is a list of characters; the terminating zero is
  the end of the list, so \<open>strlen\<close> is its length.  \<open>uintmax_t\<close> is a 64-bit word: the additions and
  multiplications of the code wrap, and the theorems say where they do not.

  The decimal parser detects overflow by comparing the text with that of the largest number;
  \<open>parse_unsigned_integer_exact\<close> shows that this is exact.  Printing and parsing are inverse.
\<close>

section \<open>Digits\<close>

definition decode_decimal_digit :: "char \<Rightarrow> int" where
  "decode_decimal_digit c = (let n = of_char c in if 48 \<le> n \<and> n \<le> 57 then n - 48 else -1)"

definition decode_hex_digit :: "char \<Rightarrow> int" where
  "decode_hex_digit c = (let n = of_char c in
     if 48 \<le> n \<and> n \<le> 57 then n - 48
     else if 65 \<le> n \<and> n \<le> 70 then n - 55
     else if 97 \<le> n \<and> n \<le> 102 then n - 87
     else -1)"

section \<open>Parsing\<close>

definition char_byte :: "char \<Rightarrow> byte" where
  "char_byte c = of_nat (of_char c)"

definition uintmax_max_str :: string where
  "uintmax_max_str = ''18446744073709551615''"

fun parse_no_overflow :: "string \<Rightarrow> 64 word \<Rightarrow> 64 word option" where
  "parse_no_overflow [] n = Some n"
| "parse_no_overflow (c # cs) n =
     (if (of_char c :: int) < 48 \<or> (of_char c :: int) > 57 then None
      else parse_no_overflow cs (10 * n + word_of_int (of_char c - 48)))"

definition parse_unsigned_integer_bin :: "string \<Rightarrow> 64 word option" where
  "parse_unsigned_integer_bin str =
     (if str = [] then None
      else let str = dropWhile ((=) CHR ''0'') str in
        if length str > length uintmax_max_str \<or>
           length str = length uintmax_max_str \<and> memcmp (map char_byte str) (map char_byte uintmax_max_str) > 0 then None
        else parse_no_overflow str 0)"

fun parse_hex_loop :: "string \<Rightarrow> 64 word \<Rightarrow> 64 word option" where
  "parse_hex_loop [] n = Some n"
| "parse_hex_loop (c # cs) n =
     (let digit = decode_hex_digit c in
      if digit < 0 then None
      else if n > 0xFFFFFFFFFFFFFFFF div 16 then None
      else let n = n * 16 in
        if word_of_int digit > 0xFFFFFFFFFFFFFFFF - n then None
        else parse_hex_loop cs (n + word_of_int digit))"

definition parse_unsigned_hex_integer_bin :: "string \<Rightarrow> 64 word option" where
  "parse_unsigned_hex_integer_bin str = (if str = [] then None else parse_hex_loop str 0)"

definition parse_signmag_integer_bin :: "string \<Rightarrow> (int \<times> 64 word) option" where
  "parse_signmag_integer_bin str =
     (let signed = str \<noteq> [] \<and> (hd str = CHR ''+'' \<or> hd str = CHR ''-'');
          sign = (if signed then 1 - 2 * (if hd str = CHR ''-'' then 1 else 0) else 1)
      in map_option (\<lambda>mag. (sign, mag)) (parse_unsigned_integer_bin (if signed then tl str else str)))"

section \<open>Printing\<close>

function compute_decimal_repr_size :: "64 word \<Rightarrow> nat" where
  "compute_decimal_repr_size x = 1 + (if x div 10 > 0 then compute_decimal_repr_size (x div 10) else 0)"
  by pat_completeness auto

lemma div_10_less: "x div 10 > 0 \<Longrightarrow> unat (x div 10) < unat (x :: 64 word)"
  by (simp add: word_less_nat_alt unat_div)

termination compute_decimal_repr_size
  by (relation "measure unat") (auto intro: div_10_less)

text \<open>The digits are written from the last position downwards.\<close>

function decimal_digits :: "64 word \<Rightarrow> string \<Rightarrow> string" where
  "decimal_digits x out =
     (let out = char_of (48 + unat (x mod 10)) # out in
      if x div 10 > 0 then decimal_digits (x div 10) out else out)"
  by pat_completeness auto

termination decimal_digits
  by (relation "measure (unat \<circ> fst)") (auto intro: div_10_less)

declare compute_decimal_repr_size.simps [simp del] decimal_digits.simps [simp del] 

definition generate_decimal_repr :: "64 word \<Rightarrow> nat \<Rightarrow> string option" where
  "generate_decimal_repr x repr_size = do {
     ASSERT (repr_size = compute_decimal_repr_size x);
     let out = decimal_digits x [];
     ASSERT (length out = repr_size);
     Some out
   }"

definition generate_decimal_repr_string :: "64 word \<Rightarrow> string option" where
  "generate_decimal_repr_string x = generate_decimal_repr x (compute_decimal_repr_size x)"

section \<open>The value of a decimal text\<close>

definition is_digit :: "char \<Rightarrow> bool" where
  "is_digit c \<longleftrightarrow> 48 \<le> (of_char c :: nat) \<and> (of_char c :: nat) \<le> 57"

fun dec_value :: "string \<Rightarrow> nat" where
  "dec_value [] = 0"
| "dec_value (c # cs) = (of_char c - 48) * 10 ^ length cs + dec_value cs"

lemma of_char_int: "(of_char c :: int) = int (of_char c)"
  by (cases c) simp

lemma dec_value_bound: "list_all is_digit cs \<Longrightarrow> dec_value cs < 10 ^ length cs"
proof (induction cs)
  case (Cons c cs)
  then have "dec_value cs < 10 ^ length cs" "(of_char c :: nat) - 48 \<le> 9" by (auto simp: is_digit_def)
  then have "((of_char c :: nat) - 48) * 10 ^ length cs \<le> 9 * 10 ^ length cs" by (intro mult_right_mono) auto
  then have "((of_char c :: nat) - 48) * 10 ^ length cs + dec_value cs < 10 * 10 ^ length cs"
    using \<open>dec_value cs < _\<close> by linarith
  then show ?case by simp
qed simp

lemma dec_value_zeros: "dec_value (dropWhile ((=) CHR ''0'') cs) = dec_value cs"
  by (induction cs) auto

lemma dec_value_large: "c \<noteq> CHR ''0'' \<Longrightarrow> is_digit c \<Longrightarrow> 10 ^ length cs \<le> dec_value (c # cs)"
proof -
  assume c: "c \<noteq> CHR ''0''" "is_digit c"
  have "(of_char CHR ''0'' :: nat) = 48" by simp
  then have "(of_char c :: nat) \<noteq> 48" using c(1) by (metis of_char_eq_iff)
  with c(2) have "1 \<le> (of_char c :: nat) - 48" by (auto simp: is_digit_def)
  then have "1 * 10 ^ length cs \<le> ((of_char c :: nat) - 48) * 10 ^ length cs" by (rule mult_right_mono) simp
  then show ?thesis unfolding dec_value.simps by linarith
qed

lemma dec_value_append: "dec_value (xs @ ys) = dec_value xs * 10 ^ length ys + dec_value ys"
  by (induction xs) (auto simp: power_add algebra_simps)

text \<open>Texts of the same length compare as their values.\<close>

lemma uint_char_byte: "is_digit c \<Longrightarrow> uint (char_byte c) = int (of_char c)"
  by (simp add: char_byte_def is_digit_def unsigned_of_nat take_bit_eq_mod)

lemma scaled_less:
  assumes "(x :: nat) < y" "a < p" "b < p"
  shows "x * p + a < y * p + b"
proof -
  have "Suc x * p \<le> y * p" using assms(1) by (intro mult_right_mono) auto
  with assms(2) show ?thesis by simp
qed

lemma memcmp_digits:
  assumes "length xs = length ys" "list_all is_digit xs" "list_all is_digit ys"
  shows "memcmp (map char_byte xs) (map char_byte ys) > 0 \<longleftrightarrow> dec_value xs > dec_value ys"
  using assms
proof (induction xs ys rule: list_induct2)
  case (Cons x xs y ys)
  let ?x = "of_char x :: nat" and ?y = "of_char y :: nat"
  have d: "is_digit x" "is_digit y" using Cons.prems by auto
  note u = uint_char_byte [OF d(1)] uint_char_byte [OF d(2)]
  have b: "dec_value xs < 10 ^ length xs" "dec_value ys < 10 ^ length xs"
    using Cons.prems dec_value_bound [of xs] dec_value_bound [of ys] Cons.hyps by auto
  show ?case
  proof (cases "x = y")
    case True
    with Cons show ?thesis by simp
  next
    case False
    then have n: "?x \<noteq> ?y" by simp
    then have "char_byte x \<noteq> char_byte y" using u by (metis of_nat_eq_iff)
    then have m: "memcmp (map char_byte (x # xs)) (map char_byte (y # ys)) > 0 \<longleftrightarrow> ?x > ?y" by (simp add: u)
    have "?x - 48 < ?y - 48 \<longleftrightarrow> ?x < ?y" "?y - 48 < ?x - 48 \<longleftrightarrow> ?y < ?x" using d by (auto simp: is_digit_def)
    with n scaled_less [of "?x - 48" "?y - 48", OF _ b] scaled_less [of "?y - 48" "?x - 48", OF _ b(2,1)] Cons.hyps
    show ?thesis unfolding m by (auto simp: not_less_iff_gr_or_eq)
  qed
qed simp

section \<open>The parser is exact\<close>

lemma parse_no_overflow_value:
  "parse_no_overflow cs n = (if list_all is_digit cs then Some (n * 10 ^ length cs + of_nat (dec_value cs)) else None)"
proof (induction cs arbitrary: n)
  case (Cons c cs)
  show ?case
  proof (cases "is_digit c")
    case True
    then obtain k where k: "(of_char c :: nat) = 48 + k" "k \<le> 9" 
      by (intro that [of "of_char c - 48"]) (auto simp: is_digit_def)
    with True Cons show ?thesis by (simp add: of_char_int algebra_simps)
  next
    case False
    then show ?thesis by (auto simp: is_digit_def of_char_int)
  qed
qed simp

lemma uintmax_max_value: "dec_value uintmax_max_str = 18446744073709551615" "list_all is_digit uintmax_max_str" "length uintmax_max_str = 20"
  by (simp_all add: uintmax_max_str_def is_digit_def)

lemma dropWhile_digits: "list_all is_digit (dropWhile ((=) CHR ''0'') cs) \<longleftrightarrow> list_all is_digit cs"
  by (induction cs) (auto simp: is_digit_def)

lemma parse_unsigned_integer_exact:
  "parse_unsigned_integer_bin str =
     (if str \<noteq> [] \<and> list_all is_digit str \<and> dec_value str < 2 ^ 64 then Some (of_nat (dec_value str)) else None)"
proof (cases "str = []")
  case False
  let ?s = "dropWhile ((=) CHR ''0'') str"
  show ?thesis
  proof (cases "list_all is_digit str")
    case True
    then have d: "list_all is_digit ?s" by (simp add: dropWhile_digits)
    have v: "dec_value ?s = dec_value str" by (rule dec_value_zeros)
    have big: "2 ^ 64 \<le> dec_value ?s" if l: "20 < length ?s"
    proof (cases ?s)
      case (Cons c cs)
      then have "c \<noteq> CHR ''0''" using hd_dropWhile [of "(=) CHR ''0''" str] by auto
      moreover have "is_digit c" using d Cons by simp
      ultimately have "10 ^ length cs \<le> dec_value ?s" using dec_value_large [of c cs] Cons by simp
      moreover have "10 ^ 20 \<le> (10 :: nat) ^ length cs" using l Cons by (intro power_increasing) auto
      ultimately show ?thesis by simp
    next
      case Nil
      with l show ?thesis by (simp only: list.size)
    qed
    have small: "dec_value ?s < 2 ^ 64" if l: "length ?s < 20"
    proof -
      have "(10 :: nat) ^ length ?s \<le> 10 ^ 19" using l by (intro power_increasing) auto
      with dec_value_bound [OF d] show ?thesis by simp
    qed
    have eq: "memcmp (map char_byte ?s) (map char_byte uintmax_max_str) > 0 \<longleftrightarrow> 2 ^ 64 \<le> dec_value ?s" if "length ?s = 20"
      using memcmp_digits [OF _ d, of uintmax_max_str] that uintmax_max_value by auto
    consider "20 < length ?s" | "length ?s = 20" | "length ?s < 20" by linarith
    then show ?thesis
      by cases (use True False big small eq d v uintmax_max_value(3)
        in \<open>auto simp: parse_unsigned_integer_bin_def parse_no_overflow_value Let_def\<close>)
  next
    case nd: False
    then have "\<not> list_all is_digit ?s" by (simp add: dropWhile_digits)
    then show ?thesis using nd by (auto simp: parse_unsigned_integer_bin_def parse_no_overflow_value Let_def)
  qed
qed (simp add: parse_unsigned_integer_bin_def)

section \<open>Printing and parsing are inverse\<close>

lemma digit_char: "n < 10 \<Longrightarrow> is_digit (char_of (48 + n)) \<and> (of_char (char_of (48 + n) :: char) :: nat) = 48 + n"
  by (simp add: is_digit_def of_char_of)

lemma decimal_digits_spec:
  "\<exists>ds. decimal_digits x out = ds @ out \<and> ds \<noteq> [] \<and> list_all is_digit ds \<and> dec_value ds = unat x \<and>
    length ds = compute_decimal_repr_size x \<and> (x = 0 \<or> hd ds \<noteq> CHR ''0'')"
proof (induction x out rule: decimal_digits.induct)
  case (1 x out)
  let ?c = "char_of (48 + unat (x mod 10)) :: char"
  have m: "unat (x mod 10) < 10" by (simp add: unat_mod)
  note c = digit_char [OF m]
  show ?case
  proof (cases "x div 10 > 0")
    case True
    from 1 [OF refl True] obtain ds where ds: "decimal_digits (x div 10) (?c # out) = ds @ ?c # out" "ds \<noteq> []" "list_all is_digit ds"
      "dec_value ds = unat (x div 10)" "length ds = compute_decimal_repr_size (x div 10)" "hd ds \<noteq> CHR ''0''" using True by auto
    have "dec_value (ds @ [?c]) = unat x" using ds(4) c by (simp add: dec_value_append unat_div unat_mod)
    with True ds c show ?thesis
      by (intro exI [of _ "ds @ [?c]"]) (simp add: decimal_digits.simps [of x] compute_decimal_repr_size.simps [of x])
  next
    case False
    then have "x div 10 = 0" by (simp add: word_gt_0)
    then have "unat (x div 10) = 0" by simp
    then have l: "unat x div 10 = 0" by (simp only: unat_div) simp
    then have v: "unat (x mod 10) = unat x" by (simp add: unat_mod)
    have "x = 0 \<or> ?c \<noteq> CHR ''0''"
    proof -
      have "(of_char CHR ''0'' :: nat) = 48" by simp
      then have "?c = CHR ''0'' \<Longrightarrow> unat x = 0" using c v by (metis add_cancel_right_right)
      then show ?thesis by (metis unat_eq_zero)
    qed
    with False c v show ?thesis
      by (intro exI [of _ "[?c]"]) (simp add: decimal_digits.simps [of x] compute_decimal_repr_size.simps [of x])
  qed
qed

lemma decimal_roundtrip: "\<exists>s. generate_decimal_repr_string x = Some s \<and> s \<noteq> [] \<and> list_all is_digit s \<and> parse_unsigned_integer_bin s = Some x"
proof -
  from decimal_digits_spec [of x "[]"] obtain ds where ds: "decimal_digits x [] = ds" "ds \<noteq> []" "list_all is_digit ds" "dec_value ds = unat x"
    "length ds = compute_decimal_repr_size x" by auto
  have "unat x < 2 ^ 64" using unsigned_less [of x] by simp
  with ds show ?thesis
    by (intro exI [of _ ds]) (simp add: generate_decimal_repr_string_def generate_decimal_repr_def parse_unsigned_integer_exact)
qed

end
