(* ===== verification/Ip6_Text.thy ===== *)
theory Ip6_Text
  imports Number_Text
begin

text \<open>
  IPv6 addresses as text (\<open>misc/ipaddr6.h\<close>), used for the address of the VPN interface.  The parser is
  the character loop of the source: it writes finished blocks into the sixteen bytes of the result,
  remembers where a double colon was, and re-reads the last part as IPv4 when it meets a dot.  Writes
  outside the result and reads before the text are failures (\<open>None\<close>); the inner \<open>None\<close> is the return
  value 0.
\<close>

section \<open>Parsing\<close>

record ip6_parser =
  p6_bytes :: bytes
  p6_num_blocks :: int
  p6_compress_pos :: int
  p6_block :: int
  p6_empty :: bool

definition p6_put_block :: "ip6_parser \<Rightarrow> ip6_parser option" where
  "p6_put_block s = do {
     b \<leftarrow> mem_write (p6_bytes s) (2 * p6_num_blocks s) [word_of_int (p6_block s div 256), word_of_int (p6_block s mod 256)];
     Some (s\<lparr>p6_bytes := b, p6_num_blocks := p6_num_blocks s + 1\<rparr>)
   }"

text \<open>What a colon at index \<open>i\<close> means for the block before it.\<close>

definition p6_end_block :: "nat \<Rightarrow> bool \<Rightarrow> ip6_parser \<Rightarrow> ip6_parser option option" where
  "p6_end_block i is_double s =
     (if i > 0 then
        if p6_empty s \<or> p6_num_blocks s = 7 then Some None
        else do { s \<leftarrow> p6_put_block s; Some (Some (s\<lparr>p6_block := 0, p6_empty := True\<rparr>)) }
      else if \<not> is_double then Some None else Some (Some s))"

text \<open>The main loop from index \<open>i\<close>; it ends at a dot (\<open>True\<close>) or at the end of the text.\<close>

function (sequential) p6_loop :: "string \<Rightarrow> nat \<Rightarrow> ip6_parser \<Rightarrow> (bool \<times> nat \<times> ip6_parser) option option" where
  "p6_loop name i s =
     (if i < length name then
        if name ! i = CHR ''.'' then Some (Some (True, i, s))
        else if name ! i = CHR '':'' then
          let is_double = (i + 1 < length name \<and> name ! (i + 1) = CHR '':'') in do {
            r \<leftarrow> p6_end_block i is_double s;
            case r of None \<Rightarrow> Some None
            | Some s \<Rightarrow>
                if is_double \<and> p6_compress_pos s \<noteq> -1 then Some None
                else if is_double then p6_loop name (i + 2) (s\<lparr>p6_compress_pos := p6_num_blocks s\<rparr>)
                else p6_loop name (i + 1) s
          }
        else
          let digit = decode_hex_digit (name ! i) in
          if digit < 0 then Some None
          else if p6_block s > 65535 div 16 then Some None
          else if digit > 65535 - p6_block s * 16 then Some None
          else p6_loop name (i + 1) (s\<lparr>p6_block := p6_block s * 16 + digit, p6_empty := False\<rparr>)
      else Some (Some (False, i, s)))"
  by pat_completeness auto

termination p6_loop
  by (relation "measure (\<lambda>(name, i, s). length name - i)") auto

text \<open>Going back to the character after the last colon.\<close>

fun p6_rewind :: "string \<Rightarrow> nat \<Rightarrow> nat option" where
  "p6_rewind name 0 = None"
| "p6_rewind name (Suc i) = (if name ! i = CHR '':'' then Some (Suc i) else p6_rewind name i)"

text \<open>The IPv4 part: the bytes found so far, the current byte and whether it has no digit yet.\<close>

fun p6_ipv4_loop :: "string \<Rightarrow> bytes \<Rightarrow> int \<Rightarrow> bool \<Rightarrow> bytes option" where
  "p6_ipv4_loop [] bs b emp = (if length bs \<noteq> 3 \<or> emp then None else Some (bs @ [word_of_int b]))"
| "p6_ipv4_loop (c # cs) bs b emp =
     (if c = CHR ''.'' then
        if emp \<or> length bs = 3 then None else p6_ipv4_loop cs (bs @ [word_of_int b]) 0 True
      else if \<not> emp \<and> b = 0 then None
      else let digit = decode_decimal_digit c in
        if digit < 0 then None
        else if b > 255 div 10 then None
        else if digit > 255 - b * 10 then None
        else p6_ipv4_loop cs bs (b * 10 + digit) False)"

text \<open>Moving the blocks after the double colon to the end.\<close>

definition p6_finish :: "ip6_parser \<Rightarrow> bytes option option" where
  "p6_finish s =
     (if p6_compress_pos s = -1 \<and> p6_num_blocks s \<noteq> 8 then Some None
      else do {
        let compress_pos = (if p6_compress_pos s = -1 then 0 else p6_compress_pos s);
        let num_rear = p6_num_blocks s - compress_pos;
        rear \<leftarrow> mem_read (p6_bytes s) (2 * compress_pos) (2 * num_rear);
        b \<leftarrow> mem_write (p6_bytes s) (2 * (8 - num_rear)) rear;
        ASSERT (8 - num_rear - compress_pos \<ge> 0);
        b \<leftarrow> mem_write b (2 * compress_pos) (replicate (nat (2 * (8 - num_rear - compress_pos))) 0);
        Some (Some b)
      })"

definition ipaddr6_parse_ipv6_addr_bin :: "string \<Rightarrow> bytes \<Rightarrow> bytes option option" where
  "ipaddr6_parse_ipv6_addr_bin name out_addr = do {
     r \<leftarrow> p6_loop name 0 \<lparr>p6_bytes = out_addr, p6_num_blocks = 0, p6_compress_pos = -1, p6_block = 0, p6_empty = True\<rparr>;
     case r of
       None \<Rightarrow> Some None
     | Some (False, i, s) \<Rightarrow>
         if \<not> p6_empty s then do { s \<leftarrow> p6_put_block s; p6_finish s }
         else if p6_num_blocks s \<noteq> p6_compress_pos s then Some None
         else p6_finish s
     | Some (True, i, s) \<Rightarrow>
         if p6_empty s \<or> p6_num_blocks s = 0 \<and> p6_compress_pos s = -1 then Some None
         else do {
           i \<leftarrow> p6_rewind name i;
           case p6_ipv4_loop (drop i name) [] 0 True of
             None \<Rightarrow> Some None
           | Some bs \<Rightarrow>
               if 8 - p6_num_blocks s < 2 then Some None
               else do {
                 b \<leftarrow> mem_write (p6_bytes s) (2 * p6_num_blocks s) bs;
                 p6_finish (s\<lparr>p6_bytes := b, p6_num_blocks := p6_num_blocks s + 2\<rparr>)
               }
         }
   }"

definition ipaddr6_parse_ipv6_addr :: "string \<Rightarrow> bytes \<Rightarrow> bytes option option" where
  "ipaddr6_parse_ipv6_addr name out_addr = ipaddr6_parse_ipv6_addr_bin name out_addr"

section \<open>Prefixes and masks\<close>

definition ipaddr6_parse_ipv6_prefix_bin :: "string \<Rightarrow> int option" where
  "ipaddr6_parse_ipv6_prefix_bin str = (case parse_unsigned_integer_bin str of
     None \<Rightarrow> None
   | Some d \<Rightarrow> if d > 128 then None else Some (uint d))"

fun high_bits :: "nat \<Rightarrow> byte \<Rightarrow> byte" where
  "high_bits 0 t = t"
| "high_bits (Suc n) t = high_bits n t OR push_bit (8 - n - 1) 1"

definition ipaddr6_ipv6_mask_from_prefix :: "int \<Rightarrow> bytes option" where
  "ipaddr6_ipv6_mask_from_prefix prefix = do {
     ASSERT (prefix \<ge> 0);
     ASSERT (prefix \<le> 128);
     let quot = prefix div 8;
     let rem = prefix mod 8;
     let mask = replicate (nat quot) 0xFF @ replicate (nat (16 - quot)) 0;
     if rem = 0 then Some mask
     else do {
       b \<leftarrow> mem_read mask quot 1;
       mem_write mask quot [high_bits (nat rem) (hd b)]
     }
   }"

text \<open>The inner loop: the number of leading ones that makes up the byte, if any.\<close>

fun byte_prefix :: "nat \<Rightarrow> byte \<Rightarrow> byte \<Rightarrow> nat option" where
  "byte_prefix 0 t m = None"
| "byte_prefix (Suc n) t m =
     (let j = 8 - n in
      if m = t then Some j
      else byte_prefix n (if j < 8 then t OR push_bit (8 - j - 1) 1 else t) m)"

fun prefix_loop :: "bytes \<Rightarrow> int \<Rightarrow> int option" where
  "prefix_loop [] prefix = Some prefix"
| "prefix_loop (m # ms) prefix =
     (if m = 0xFF then prefix_loop ms (prefix + 8)
      else case byte_prefix 9 0 m of None \<Rightarrow> None
        | Some j \<Rightarrow> if list_all ((=) 0) ms then Some (prefix + int j) else None)"

definition ipaddr6_ipv6_prefix_from_mask :: "bytes \<Rightarrow> int option" where
  "ipaddr6_ipv6_prefix_from_mask m = prefix_loop m 0"

definition ipaddr6_ipv6_addrs_in_network :: "bytes \<Rightarrow> bytes \<Rightarrow> int \<Rightarrow> bool option" where
  "ipaddr6_ipv6_addrs_in_network addr1 addr2 netprefix = do {
     ASSERT (netprefix \<ge> 0);
     ASSERT (netprefix \<le> 128);
     let quot = netprefix div 8;
     let rem = netprefix mod 8;
     a1 \<leftarrow> mem_read addr1 0 quot;
     a2 \<leftarrow> mem_read addr2 0 quot;
     if memcmp a1 a2 \<noteq> 0 then Some False
     else if rem = 0 then Some True
     else do {
       let t = high_bits (nat rem) 0;
       b1 \<leftarrow> mem_read addr1 quot 1;
       b2 \<leftarrow> mem_read addr2 quot 1;
       Some (hd b1 AND t = hd b2 AND t)
     }
   }"

section \<open>Printing\<close>

text \<open>\<open>printf\<close> with \<open>PRIx16\<close>: lower case, no leading zeros.\<close>

definition hex_digit :: "nat \<Rightarrow> char" where
  "hex_digit n = char_of (if n < 10 then 48 + n else 87 + n)"

fun print_hex :: "nat \<Rightarrow> string" where
  "print_hex n = (if n < 16 then [hex_digit n] else print_hex (n div 16) @ [hex_digit (n mod 16)])"

declare print_hex.simps [simp del]

definition ip6_block :: "bytes \<Rightarrow> nat \<Rightarrow> nat" where
  "ip6_block addr i = 256 * unat (addr ! (2 * i)) + unat (addr ! (2 * i + 1))"

text \<open>The search for the longest run of zero blocks: largest start and length, current start and length.\<close>

fun zero_run :: "nat list \<Rightarrow> nat \<Rightarrow> nat \<times> nat \<Rightarrow> nat \<times> nat \<Rightarrow> nat \<times> nat" where
  "zero_run [] i (ls, ll) (cs, cl) = (ls, ll)"
| "zero_run (b # bs) i (ls, ll) (cs, cl) =
     (if b = 0 then
        let cl = cl + 1 in zero_run bs (i + 1) (if cl > ll then (cs, cl) else (ls, ll)) (cs, cl)
      else zero_run bs (i + 1) (ls, ll) (i + 1, 0))"

definition ipaddr6_print_addr :: "bytes \<Rightarrow> string" where
  "ipaddr6_print_addr addr =
     (let blocks = map (ip6_block addr) [0..<8];
          (largest_start, largest_len) = zero_run blocks 0 (0, 0) (0, 0)
      in if largest_len > 1 then
           concat (map (\<lambda>b. print_hex b @ '':'') (take largest_start blocks)) @
           (if largest_start = 0 then '':'' else '''') @
           concat (map (\<lambda>b. '':'' @ print_hex b) (drop (largest_start + largest_len) blocks)) @
           (if largest_start + largest_len = 8 then '':'' else '''')
         else
           print_hex (hd blocks) @ concat (map (\<lambda>b. '':'' @ print_hex b) (tl blocks)))"

definition ipaddr6_print_ifaddr :: "bytes \<Rightarrow> int \<Rightarrow> string option" where
  "ipaddr6_print_ifaddr addr prefix = do {
     ASSERT (prefix \<ge> 0);
     ASSERT (prefix \<le> 128);
     Some (ipaddr6_print_addr addr @ ''/'' @ decimal_digits (word_of_int prefix) [])
   }"

declare p6_loop.simps [simp del]

section \<open>The parser is safe\<close>

definition p6_inv :: "string \<Rightarrow> nat \<Rightarrow> ip6_parser \<Rightarrow> bool" where
  "p6_inv name i s \<longleftrightarrow> length (p6_bytes s) = 16 \<and> 0 \<le> p6_num_blocks s \<and> p6_num_blocks s \<le> 7 \<and>
     (p6_compress_pos s = -1 \<or> 0 \<le> p6_compress_pos s \<and> p6_compress_pos s \<le> p6_num_blocks s) \<and>
     (p6_num_blocks s = 0 \<and> p6_compress_pos s = -1 \<or> (\<exists>j<i. name ! j = CHR '':''))"

lemma p6_put_block_ok:
  assumes "length (p6_bytes s) = 16" "0 \<le> p6_num_blocks s" "p6_num_blocks s \<le> 7"
  shows "\<exists>b. p6_put_block s = Some (s\<lparr>p6_bytes := b, p6_num_blocks := p6_num_blocks s + 1\<rparr>) \<and> length b = 16"
  using assms by (auto simp: p6_put_block_def mem_write_def)

lemma p6_end_block_ok:
  assumes "p6_inv name i s" "i < length name" "name ! i = CHR '':''"
  shows "\<exists>r. p6_end_block i d s = Some r \<and> (\<forall>s1. r = Some s1 \<longrightarrow> p6_inv name (Suc (length name)) s1)"
proof -
  have "\<exists>j<Suc (length name). name ! j = CHR '':''" using assms(2,3) less_SucI by blast
  with assms(1) p6_put_block_ok [of s] show ?thesis by (auto simp: p6_end_block_def p6_inv_def)
qed

lemma p6_loop_ok:
  "p6_inv name i s \<Longrightarrow> \<exists>r. p6_loop name i s = Some r \<and> (case r of None \<Rightarrow> True | Some (dot, j, s') \<Rightarrow> p6_inv name j s')"
proof (induction name i s rule: p6_loop.induct)
  case (1 name i s)
  note inv = "1.prems"
  consider (stop) "\<not> i < length name" | (dot) "i < length name" "name ! i = CHR ''.''"
    | (colon) "i < length name" "name ! i = CHR '':''" "name ! i \<noteq> CHR ''.''"
    | (digit) "i < length name" "name ! i \<noteq> CHR '':''" "name ! i \<noteq> CHR ''.''" by blast
  then show ?case
  proof cases
    case colon
    let ?d = "i + 1 < length name \<and> name ! (i + 1) = CHR '':''"
    obtain r where r: "p6_end_block i ?d s = Some r"
      and r1: "\<And>s1. r = Some s1 \<Longrightarrow> p6_inv name (Suc (length name)) s1"
      using p6_end_block_ok [OF inv colon(1,2)] by blast
    show ?thesis
    proof (cases r)
      case None
      with r colon show ?thesis by (subst p6_loop.simps) (simp add: Let_def)
    next
      case (Some s1)
      have j: "\<exists>j<k. name ! j = CHR '':''" if "i < k" for k using that colon(2) by blast
      have "p6_inv name (i + 2) (s1\<lparr>p6_compress_pos := p6_num_blocks s1\<rparr>)" "p6_inv name (i + 1) s1"
        using r1 [OF Some] j [of "i + 2"] j [of "i + 1"] by (auto simp: p6_inv_def)
      with "1.IH"(1,2) [OF colon(1,3,2) refl r Some] r Some colon show ?thesis
        by (subst p6_loop.simps) (simp add: Let_def)
    qed
  next
    case digit
    have "p6_inv name (i + 1) (s\<lparr>p6_block := b, p6_empty := e\<rparr>)" for b e
      using inv unfolding p6_inv_def by (auto intro: less_SucI)
    with "1.IH"(3) [OF digit(1,3,2) refl] digit show ?thesis by (subst p6_loop.simps) (auto simp: Let_def)
  qed (use inv in \<open>subst p6_loop.simps, simp\<close>)+
qed

lemma p6_rewind_ok: "\<exists>j<i. name ! j = CHR '':'' \<Longrightarrow> \<exists>k. p6_rewind name i = Some k"
proof (induction i)
  case (Suc i)
  then show ?case by (cases "name ! i = CHR '':''") (auto simp: less_Suc_eq)
qed simp

lemma p6_ipv4_length: "p6_ipv4_loop cs bs b e = Some r \<Longrightarrow> length r = 4"
  by (induction cs bs b e rule: p6_ipv4_loop.induct) (auto simp: Let_def split: if_splits)

lemma p6_finish_ok:
  assumes "length (p6_bytes s) = 16" "p6_num_blocks s \<le> 8" "0 \<le> p6_num_blocks s"
    "p6_compress_pos s = -1 \<or> 0 \<le> p6_compress_pos s \<and> p6_compress_pos s \<le> p6_num_blocks s"
  shows "\<exists>r. p6_finish s = Some r \<and> (\<forall>b. r = Some b \<longrightarrow> length b = 16)"
proof (cases "p6_compress_pos s = -1 \<and> p6_num_blocks s \<noteq> 8")
  case True
  then show ?thesis by (simp add: p6_finish_def)
next
  case False
  let ?c = "if p6_compress_pos s = -1 then 0 else p6_compress_pos s" and ?n = "p6_num_blocks s"
  have c: "0 \<le> ?c" "?c \<le> ?n" using assms by auto
  obtain rear where r: "mem_read (p6_bytes s) (2 * ?c) (2 * (?n - ?c)) = Some rear" "int (length rear) = 2 * (?n - ?c)"
    using c assms(1,2) mem_read_ok [of "2 * ?c" "2 * (?n - ?c)" "p6_bytes s"] mem_read_length by fastforce
  obtain b where b: "mem_write (p6_bytes s) (2 * (8 - (?n - ?c))) rear = Some b" "length b = 16"
    using c assms(1,2) r(2) mem_write_length by (fastforce simp: mem_write_Some)
  obtain b' where b': "mem_write b (2 * ?c) (replicate (nat (2 * (8 - (?n - ?c) - ?c))) 0) = Some b'" "length b' = 16"
    using c assms(2) b(2) mem_write_length by (fastforce simp: mem_write_Some)
  from False r(1) b(1) b' c assms(2) show ?thesis unfolding p6_finish_def Let_def by simp
qed

lemma ipaddr6_parse_safe:
  assumes "length out = 16"
  shows "\<exists>r. ipaddr6_parse_ipv6_addr name out = Some r \<and> (\<forall>b. r = Some b \<longrightarrow> length b = 16)"
proof -
  let ?s0 = "\<lparr>p6_bytes = out, p6_num_blocks = 0, p6_compress_pos = -1, p6_block = 0, p6_empty = True\<rparr>"
  have "p6_inv name 0 ?s0" using assms by (simp add: p6_inv_def)
  from p6_loop_ok [OF this] obtain r where r: "p6_loop name 0 ?s0 = Some r"
    "case r of None \<Rightarrow> True | Some (dot, j, s') \<Rightarrow> p6_inv name j s'" by blast
  show ?thesis
  proof (cases r)
    case None
    with r show ?thesis by (simp add: ipaddr6_parse_ipv6_addr_def ipaddr6_parse_ipv6_addr_bin_def)
  next
    case (Some d)
    then obtain dot j s where d: "r = Some (dot, j, s)" by (cases d) auto
    with r have i: "p6_inv name j s" by simp
    note defs = ipaddr6_parse_ipv6_addr_def ipaddr6_parse_ipv6_addr_bin_def r(1) d
    show ?thesis
    proof (cases dot)
      case False
      obtain b where b: "p6_put_block s = Some (s\<lparr>p6_bytes := b, p6_num_blocks := p6_num_blocks s + 1\<rparr>)" "length b = 16"
        using p6_put_block_ok [of s] i by (auto simp: p6_inv_def)
      have "\<exists>r. p6_finish (s\<lparr>p6_bytes := b, p6_num_blocks := p6_num_blocks s + 1\<rparr>) = Some r \<and> (\<forall>b. r = Some b \<longrightarrow> length b = 16)"
        by (rule p6_finish_ok) (use i b(2) in \<open>auto simp: p6_inv_def\<close>)
      moreover have "\<exists>r. p6_finish s = Some r \<and> (\<forall>b. r = Some b \<longrightarrow> length b = 16)"
        by (rule p6_finish_ok) (use i in \<open>auto simp: p6_inv_def\<close>)
      ultimately show ?thesis using False b(1) by (auto simp: defs)
    next
      case True
      show ?thesis
      proof (cases "p6_empty s \<or> p6_num_blocks s = 0 \<and> p6_compress_pos s = -1")
        case True
        with \<open>dot\<close> show ?thesis by (auto simp: defs)
      next
        case False
        with i p6_rewind_ok [of j name] obtain k where k: "p6_rewind name j = Some k" by (auto simp: p6_inv_def)
        show ?thesis
        proof (cases "p6_ipv4_loop (drop k name) [] 0 True")
          case None
          with False k \<open>dot\<close> show ?thesis by (auto simp: defs)
        next
          case (Some bs)
          note l = p6_ipv4_length [OF Some]
          show ?thesis
          proof (cases "8 - p6_num_blocks s < 2")
            case True
            with Some False k \<open>dot\<close> show ?thesis by (auto simp: defs)
          next
            case ok: False
            obtain b where b: "mem_write (p6_bytes s) (2 * p6_num_blocks s) bs = Some b" "length b = 16"
              using i l ok by (auto simp: mem_write_def p6_inv_def)
            have "\<exists>r. p6_finish (s\<lparr>p6_bytes := b, p6_num_blocks := p6_num_blocks s + 2\<rparr>) = Some r \<and> (\<forall>b. r = Some b \<longrightarrow> length b = 16)"
              by (rule p6_finish_ok) (use i b(2) ok in \<open>auto simp: p6_inv_def\<close>)
            with Some False k \<open>dot\<close> ok b(1) show ?thesis by (auto simp: defs)
          qed
        qed
      qed
    qed
  qed
qed

section \<open>Printing and parsing are inverse\<close>

text \<open>The loop on a text split at the current index.\<close>

definition p6_scan :: "string \<Rightarrow> string \<Rightarrow> ip6_parser \<Rightarrow> (bool \<times> nat \<times> ip6_parser) option option" where
  "p6_scan pre rest s = p6_loop (pre @ rest) (length pre) s"

lemma p6_scan_end: "p6_scan pre [] s = Some (Some (False, length pre, s))"
  by (simp add: p6_scan_def p6_loop.simps)

lemma p6_scan_digit:
  assumes "decode_hex_digit c = d" "0 \<le> d" "p6_block s \<le> 4095" "p6_block s * 16 + d \<le> 65535"
  shows "p6_scan pre (c # rest) s = p6_scan (pre @ [c]) rest (s\<lparr>p6_block := p6_block s * 16 + d, p6_empty := False\<rparr>)"
proof -
  have "c \<noteq> CHR ''.''" "c \<noteq> CHR '':''" using assms(1,2) by (auto simp: decode_hex_digit_def)
  with assms show ?thesis unfolding p6_scan_def by (subst p6_loop.simps) (simp add: nth_append)
qed

lemma hex_digit_value: "n < 16 \<Longrightarrow> decode_hex_digit (hex_digit n) = int n"
  by (auto simp: decode_hex_digit_def hex_digit_def of_char_int of_char_of Let_def)

lemma p6_scan_hex:
  "n \<le> 65535 \<Longrightarrow> p6_block s = 0 \<Longrightarrow>
   p6_scan pre (print_hex n @ rest) s = p6_scan (pre @ print_hex n) rest (s\<lparr>p6_block := int n, p6_empty := False\<rparr>)"
proof (induction n arbitrary: rest rule: print_hex.induct)
  case (1 n)
  show ?case
  proof (cases "n < 16")
    case True
    with 1 p6_scan_digit [OF hex_digit_value [OF True], of s pre rest] show ?thesis
      by (simp add: print_hex.simps [of n])
  next
    case False
    have "n div 16 * 16 + n mod 16 = n" by simp
    then have n: "n div 16 \<le> 4095" "int (n div 16) * 16 + int (n mod 16) = int n"
      using "1.prems"(1) by (auto simp: zdiv_int zmod_int)
    with False 1 p6_scan_digit [OF hex_digit_value [of "n mod 16"], of "s\<lparr>p6_block := int (n div 16), p6_empty := False\<rparr>" "pre @ print_hex (n div 16)" rest]
    show ?thesis by (simp add: print_hex.simps [of n])
  qed
qed

lemma print_hex_head: "\<exists>n cs. n < 16 \<and> print_hex m = hex_digit n # cs"
proof (induction m rule: print_hex.induct)
  case (1 m)
  then show ?case by (cases "m < 16") (auto simp: print_hex.simps [of m])
qed

lemma hex_digit_not_colon: "n < 16 \<Longrightarrow> hex_digit n \<noteq> CHR '':''"
  using hex_digit_value [of n] by (auto simp: decode_hex_digit_def)

text \<open>The blocks \<open>bl\<close> have been written.\<close>

definition blk :: "nat \<Rightarrow> bytes" where
  "blk b = [word_of_int (int b div 256), word_of_int (int b mod 256)]"

definition p6_rep :: "nat list \<Rightarrow> ip6_parser \<Rightarrow> bool" where
  "p6_rep bl s \<longleftrightarrow> length (p6_bytes s) = 16 \<and> p6_num_blocks s = int (length bl) \<and>
     take (2 * length bl) (p6_bytes s) = concat (map blk bl)"

lemma length_blks [simp]: "length (concat (map blk bl)) = 2 * length bl"
  by (induction bl) (auto simp: blk_def)

lemma p6_put_rep:
  assumes "p6_rep bl s" "length bl \<le> 7" "p6_block s = int b"
  shows "\<exists>m. p6_put_block s = Some (s\<lparr>p6_bytes := m, p6_num_blocks := p6_num_blocks s + 1\<rparr>) \<and>
    p6_rep (bl @ [b]) (s\<lparr>p6_bytes := m, p6_num_blocks := p6_num_blocks s + 1\<rparr>)"
proof -
  have n: "nat (2 * int (length bl)) = 2 * length bl" by simp
  show ?thesis using assms by (auto simp: p6_put_block_def p6_rep_def mem_write_def blk_def n)
qed

lemma p6_scan_colon:
  assumes "p6_rep bl s" "length bl \<le> 6" "p6_block s = int b" "\<not> p6_empty s" "pre \<noteq> []" "rest = [] \<or> hd rest \<noteq> CHR '':''"
  shows "\<exists>s'. p6_scan pre (CHR '':'' # rest) s = p6_scan (pre @ '':'') rest s' \<and> p6_rep (bl @ [b]) s' \<and>
    p6_block s' = 0 \<and> p6_empty s' \<and> p6_compress_pos s' = p6_compress_pos s"
proof -
  from p6_put_rep [OF assms(1) _ assms(3)] assms(2) obtain m where
    m: "p6_put_block s = Some (s\<lparr>p6_bytes := m, p6_num_blocks := p6_num_blocks s + 1\<rparr>)"
      "p6_rep (bl @ [b]) (s\<lparr>p6_bytes := m, p6_num_blocks := p6_num_blocks s + 1\<rparr>)" by auto
  have "p6_num_blocks s \<noteq> 7" using assms(1,2) by (simp add: p6_rep_def)
  moreover have "\<not> (length pre + 1 < length (pre @ CHR '':'' # rest) \<and> (pre @ CHR '':'' # rest) ! (length pre + 1) = CHR '':'')"
    using assms(6) by (cases rest) (auto simp: nth_append)
  ultimately have "p6_scan pre (CHR '':'' # rest) s = p6_scan (pre @ '':'') rest
      (s\<lparr>p6_bytes := m, p6_num_blocks := p6_num_blocks s + 1, p6_block := 0, p6_empty := True\<rparr>)"
    using m(1) assms(4,5) unfolding p6_scan_def by (subst p6_loop.simps) (auto simp: p6_end_block_def)
  with m(2) show ?thesis by (intro exI conjI) (assumption | simp add: p6_rep_def)+
qed

fun join :: "nat list \<Rightarrow> string" where
  "join [] = []"
| "join [b] = print_hex b"
| "join (b # bs) = print_hex b @ '':'' @ join bs"

lemma join_head: "bs \<noteq> [] \<Longrightarrow> \<exists>n cs. n < 16 \<and> join bs = hex_digit n # cs"
  using print_hex_head [of "hd bs"] by (cases bs rule: join.cases) auto

lemma join_not_colon: "bs \<noteq> [] \<Longrightarrow> join bs \<noteq> [] \<and> hd (join bs @ rest) \<noteq> CHR '':''"
  using join_head [of bs] hex_digit_not_colon by auto

lemma p6_scan_join:
  "bs \<noteq> [] \<Longrightarrow> p6_rep bl s \<Longrightarrow> length bl + length bs \<le> 8 \<Longrightarrow> \<forall>b\<in>set bs. b \<le> 65535 \<Longrightarrow> p6_block s = 0 \<Longrightarrow>
   \<exists>s'. p6_scan pre (join bs @ rest) s = p6_scan (pre @ join bs) rest s' \<and> p6_rep (bl @ butlast bs) s' \<and>
     p6_block s' = int (last bs) \<and> \<not> p6_empty s' \<and> p6_compress_pos s' = p6_compress_pos s"
proof (induction bs arbitrary: bl s pre rule: join.induct)
  case (2 b)
  then show ?case by (intro exI [of _ "s\<lparr>p6_block := int b, p6_empty := False\<rparr>"]) (simp add: p6_scan_hex p6_rep_def)
next
  case (3 b b' bs)
  let ?s = "s\<lparr>p6_block := int b, p6_empty := False\<rparr>" and ?r = "join (b' # bs) @ rest"
  have h: "p6_scan pre (join (b # b' # bs) @ rest) s = p6_scan (pre @ print_hex b) (CHR '':'' # ?r) ?s"
    using "3.prems" p6_scan_hex [of b s pre "CHR '':'' # ?r"] by simp
  have "p6_rep bl ?s" using "3.prems"(2) by (simp add: p6_rep_def)
  then obtain s1 where s1: "p6_scan (pre @ print_hex b) (CHR '':'' # ?r) ?s = p6_scan ((pre @ print_hex b) @ '':'') ?r s1"
    "p6_rep (bl @ [b]) s1" "p6_block s1 = 0" "p6_compress_pos s1 = p6_compress_pos s"
    using p6_scan_colon [of bl ?s b "pre @ print_hex b" ?r] "3.prems"(3) join_not_colon [of "b' # bs" rest] print_hex_head [of b] by auto
  from "3.IH" [OF _ s1(2) _ _ s1(3), of "(pre @ print_hex b) @ '':''"] "3.prems"(3,4) s1 h show ?case by auto
qed simp

text \<open>The double colon after the blocks \<open>bl\<close>, at the beginning or after a block.\<close>

lemma p6_scan_double_start:
  assumes "p6_rep [] s" "p6_compress_pos s = -1"
  shows "p6_scan [] (''::'' @ rest) s = p6_scan ''::'' rest (s\<lparr>p6_compress_pos := 0\<rparr>)"
  using assms unfolding p6_scan_def by (subst p6_loop.simps) (simp add: p6_end_block_def p6_rep_def)

lemma p6_scan_double:
  assumes "p6_rep bl s" "length bl \<le> 6" "p6_block s = int b" "\<not> p6_empty s" "pre \<noteq> []" "p6_compress_pos s = -1"
  shows "\<exists>s'. p6_scan pre (''::'' @ rest) s = p6_scan (pre @ ''::'') rest s' \<and> p6_rep (bl @ [b]) s' \<and>
    p6_block s' = 0 \<and> p6_empty s' \<and> p6_compress_pos s' = int (length bl) + 1"
proof -
  from p6_put_rep [OF assms(1) _ assms(3)] assms(2) obtain m where
    m: "p6_put_block s = Some (s\<lparr>p6_bytes := m, p6_num_blocks := p6_num_blocks s + 1\<rparr>)"
      "p6_rep (bl @ [b]) (s\<lparr>p6_bytes := m, p6_num_blocks := p6_num_blocks s + 1\<rparr>)" by auto
  have n: "p6_num_blocks s = int (length bl)" using assms(1) by (simp add: p6_rep_def)
  have "(pre @ ''::'' @ rest) ! (length pre + 1) = CHR '':''" by (simp add: nth_append)
  then have "p6_scan pre (''::'' @ rest) s = p6_scan (pre @ ''::'') rest
      (s\<lparr>p6_bytes := m, p6_num_blocks := p6_num_blocks s + 1, p6_block := 0, p6_empty := True, p6_compress_pos := p6_num_blocks s + 1\<rparr>)"
    using m(1) assms(2,4-6) n unfolding p6_scan_def by (subst p6_loop.simps) (simp add: p6_end_block_def)
  with m(2) n show ?thesis by (intro exI conjI) (assumption | simp add: p6_rep_def)+
qed

lemma p6_finish_full:
  assumes "p6_rep bl s" "length bl = 8" "p6_compress_pos s = -1"
  shows "p6_finish s = Some (Some (concat (map blk bl)))"
  using assms by (simp add: p6_finish_def p6_rep_def mem_read_def mem_write_def Let_def)

lemma mem_write_middle: "length t = length z \<Longrightarrow> mem_write (f @ t @ r) (int (length f)) z = Some (f @ z @ r)"
  by (simp add: mem_write_def)

lemma p6_finish_compressed:
  assumes "p6_rep (front @ rear) s" "length front + length rear \<le> 8" "p6_compress_pos s = int (length front)"
  shows "p6_finish s = Some (Some (concat (map blk front) @ replicate (2 * (8 - length front - length rear)) 0 @ concat (map blk rear)))"
proof -
  let ?f = "concat (map blk front)" and ?r = "concat (map blk rear)" and ?k = "8 - length front - length rear"
  from assms(1) have b: "length (p6_bytes s) = 16" "p6_num_blocks s = int (length front) + int (length rear)"
    "take (2 * (length front + length rear)) (p6_bytes s) = ?f @ ?r" by (auto simp: p6_rep_def)
  then obtain junk where j: "p6_bytes s = ?f @ ?r @ junk" by (metis append.assoc append_take_drop_id)
  with b(1) have lj: "length junk = 2 * ?k" using assms(2) by simp
  have r: "mem_read (p6_bytes s) (2 * int (length front)) (2 * int (length rear)) = Some ?r"
    using lj by (simp add: mem_read_def j nat_mult_distrib)
  let ?t = "take (2 * ?k) (?r @ junk)"
  have k: "nat (2 * (8 - int (length rear))) = 2 * length front + 2 * ?k" using assms(2) by (simp add: of_nat_diff)
  have w: "mem_write (p6_bytes s) (2 * (8 - int (length rear))) ?r = Some (?f @ ?t @ ?r)"
    using lj assms(2) unfolding mem_write_def k j by (simp add: k)
  have lt: "length ?t = 2 * ?k" using lj by simp
  have z: "nat (2 * (8 - int (length rear) - int (length front))) = 2 * ?k" using assms(2) by (simp add: of_nat_diff)
  have "mem_write (?f @ ?t @ ?r) (2 * int (length front)) (replicate (2 * ?k) 0) = Some (?f @ replicate (2 * ?k) 0 @ ?r)"
    using mem_write_middle [of ?t "replicate (2 * ?k) 0" ?f ?r] lt by (simp only: length_blks length_replicate of_nat_mult of_nat_numeral)
  moreover have "nat (16 + (- (2 * int (length front)) - 2 * int (length rear))) = 2 * ?k" using z by linarith
  ultimately show ?thesis using r w z b(2) assms(2,3) by (simp add: p6_finish_def Let_def)
qed

text \<open>The longest run lies within the blocks and is zero.\<close>

lemma zero_run_spec:
  "bs = drop i all \<Longrightarrow> i + length bs = length all \<Longrightarrow> cs + cl = i \<Longrightarrow> ls + ll \<le> i \<Longrightarrow>
   (\<forall>j. cs \<le> j \<and> j < cs + cl \<longrightarrow> all ! j = 0) \<Longrightarrow> (\<forall>j. ls \<le> j \<and> j < ls + ll \<longrightarrow> all ! j = 0) \<Longrightarrow>
   zero_run bs i (ls, ll) (cs, cl) = (rs, rl) \<Longrightarrow>
   rs + rl \<le> length all \<and> (\<forall>j. rs \<le> j \<and> j < rs + rl \<longrightarrow> all ! j = 0)"
proof (induction bs arbitrary: i ls ll cs cl)
  case Nil
  then show ?case by simp
next
  case (Cons b bs)
  have "i < length all" using Cons.prems(2) by simp
  with Cons.prems(1) have b: "all ! i = b" "bs = drop (i + 1) all"
    using Cons_nth_drop_Suc [of i all] by (metis list.inject, metis Suc_eq_plus1 list.inject)
  have l: "i + 1 + length bs = length all" using Cons.prems(2) by simp
  show ?case
  proof (cases "b = 0")
    case True
    have z: "\<forall>j. cs \<le> j \<and> j < cs + (cl + 1) \<longrightarrow> all ! j = 0" using Cons.prems(3,5) b(1) True by (auto simp: less_Suc_eq)
    show ?thesis
    proof (cases "cl + 1 > ll")
      case gt: True
      have r: "zero_run bs (i + 1) (cs, cl + 1) (cs, cl + 1) = (rs, rl)" using Cons.prems(7) True gt by simp
      show ?thesis by (rule Cons.IH [OF b(2) l _ _ z z r]) (use Cons.prems(3) in auto)
    next
      case False
      have r: "zero_run bs (i + 1) (ls, ll) (cs, cl + 1) = (rs, rl)" using Cons.prems(7) True False by simp
      show ?thesis by (rule Cons.IH [OF b(2) l _ _ z Cons.prems(6) r]) (use Cons.prems(3,4) in auto)
    qed
  next
    case False
    have r: "zero_run bs (i + 1) (ls, ll) (i + 1, 0) = (rs, rl)" using Cons.prems(7) False by simp
    show ?thesis by (rule Cons.IH [OF b(2) l _ _ _ Cons.prems(6) r]) (use Cons.prems(4) in auto)
  qed
qed

text \<open>The two forms of the text.\<close>

lemma blocks_after: "bs \<noteq> [] \<Longrightarrow> concat (map (\<lambda>b. print_hex b @ '':'') bs) = join bs @ '':''"
  by (induction bs rule: join.induct) auto

lemma blocks_before: "bs \<noteq> [] \<Longrightarrow> concat (map (\<lambda>b. '':'' @ print_hex b) bs) = '':'' @ join bs"
  by (induction bs rule: join.induct) auto

lemma print_full: "print_hex b @ concat (map (\<lambda>b. '':'' @ print_hex b) bs) = join (b # bs)"
  using blocks_before [of bs] by (cases bs) auto

lemma print_compressed:
  "concat (map (\<lambda>b. print_hex b @ '':'') front) @ (if front = [] then '':'' else []) @
   concat (map (\<lambda>b. '':'' @ print_hex b) rear) @ (if rear = [] then '':'' else []) = join front @ ''::'' @ join rear"
  using blocks_after [of front] blocks_before [of rear] by (cases "front = []"; cases "rear = []") auto

lemma p6_start_rep: "length out = 16 \<Longrightarrow>
  p6_rep [] \<lparr>p6_bytes = out, p6_num_blocks = 0, p6_compress_pos = -1, p6_block = 0, p6_empty = True\<rparr>"
  by (simp add: p6_rep_def)

lemma parse_full:
  assumes "length out = 16" "length bs = 8" "\<forall>b\<in>set bs. b \<le> 65535"
  shows "ipaddr6_parse_ipv6_addr (join bs) out = Some (Some (concat (map blk bs)))"
proof -
  let ?s = "\<lparr>p6_bytes = out, p6_num_blocks = 0, p6_compress_pos = -1, p6_block = 0, p6_empty = True\<rparr>"
  have ne: "bs \<noteq> []" using assms(2) by auto
  from p6_scan_join [OF ne p6_start_rep [OF assms(1)], of "[]" "[]"] assms(2,3) obtain s where
    s: "p6_scan [] (join bs) ?s = p6_scan (join bs) [] s" "p6_rep (butlast bs) s" "p6_block s = int (last bs)" "\<not> p6_empty s"
      "p6_compress_pos s = -1" by auto
  have l: "p6_loop (join bs) 0 ?s = Some (Some (False, length (join bs), s))"
    using s(1) p6_scan_end [of "join bs" s] by (simp add: p6_scan_def)
  from p6_put_rep [OF s(2) _ s(3)] assms(2) ne obtain m where
    m: "p6_put_block s = Some (s\<lparr>p6_bytes := m, p6_num_blocks := p6_num_blocks s + 1\<rparr>)"
      "p6_rep bs (s\<lparr>p6_bytes := m, p6_num_blocks := p6_num_blocks s + 1\<rparr>)" by auto
  from p6_finish_full [OF m(2) assms(2)] s(5) m(1) s(4) l show ?thesis
    by (simp add: ipaddr6_parse_ipv6_addr_def ipaddr6_parse_ipv6_addr_bin_def)
qed

text \<open>After the double colon.\<close>

lemma parse_rear:
  assumes "p6_rep front s" "p6_block s = 0" "p6_empty s" "p6_compress_pos s = int (length front)"
    "length front + length rear \<le> 8" "\<forall>b\<in>set rear. b \<le> 65535"
  shows "\<exists>i s'. p6_scan pre (join rear) s = Some (Some (False, i, s')) \<and>
    (if p6_empty s' then p6_num_blocks s' = p6_compress_pos s' \<and> p6_rep (front @ rear) s' \<and> p6_compress_pos s' = int (length front)
     else \<exists>m. p6_put_block s' = Some m \<and> p6_rep (front @ rear) m \<and> p6_compress_pos m = int (length front))"
proof (cases "rear = []")
  case True
  then show ?thesis using assms by (auto simp: p6_scan_end p6_rep_def)
next
  case False
  from p6_scan_join [OF False assms(1,5,6,2), of pre "[]"] obtain s' where
    s': "p6_scan pre (join rear) s = p6_scan (pre @ join rear) [] s'" "p6_rep (front @ butlast rear) s'"
      "p6_block s' = int (last rear)" "\<not> p6_empty s'" "p6_compress_pos s' = p6_compress_pos s" by auto
  have "length (front @ butlast rear) \<le> 7" using assms(5) False by (cases rear) auto
  from p6_put_rep [OF s'(2) this s'(3)] s' False assms(4) show ?thesis by (auto simp: p6_scan_end)
qed

lemma parse_compressed:
  assumes "length out = 16" "length front + length rear \<le> 6" "\<forall>b\<in>set (front @ rear). b \<le> 65535"
  shows "ipaddr6_parse_ipv6_addr (join front @ ''::'' @ join rear) out =
    Some (Some (concat (map blk front) @ replicate (2 * (8 - length front - length rear)) 0 @ concat (map blk rear)))"
proof -
  let ?s = "\<lparr>p6_bytes = out, p6_num_blocks = 0, p6_compress_pos = -1, p6_block = 0, p6_empty = True\<rparr>"
  have "\<exists>pre s. p6_scan [] (join front @ ''::'' @ join rear) ?s = p6_scan pre (join rear) s \<and> p6_rep front s \<and>
    p6_block s = 0 \<and> p6_empty s \<and> p6_compress_pos s = int (length front)"
  proof (cases "front = []")
    case True
    then show ?thesis using p6_scan_double_start [OF p6_start_rep [OF assms(1)], of "join rear"]
      by (intro exI [of _ "''::''"] exI [of _ "?s\<lparr>p6_compress_pos := 0\<rparr>"]) (simp add: assms(1) p6_rep_def)
  next
    case False
    from p6_scan_join [OF False p6_start_rep [OF assms(1)], of "[]" "''::'' @ join rear"] assms(2,3) obtain s where
      s: "p6_scan [] (join front @ ''::'' @ join rear) ?s = p6_scan (join front) (''::'' @ join rear) s" "p6_rep (butlast front) s"
        "p6_block s = int (last front)" "\<not> p6_empty s" "p6_compress_pos s = -1" by auto
    have "length (butlast front) \<le> 6" using assms(2) by simp
    from p6_scan_double [OF s(2) this s(3,4) _ s(5), of "join front" "join rear"] join_not_colon [OF False] s(1) False
    show ?thesis by (auto simp: of_nat_diff Suc_le_eq)
  qed
  then obtain pre s where s: "p6_scan [] (join front @ ''::'' @ join rear) ?s = p6_scan pre (join rear) s" "p6_rep front s"
    "p6_block s = 0" "p6_empty s" "p6_compress_pos s = int (length front)" by blast
  from parse_rear [OF s(2-5), of rear pre] assms(2,3) s(1) obtain i s' where
    e: "p6_loop (join front @ ''::'' @ join rear) 0 ?s = Some (Some (False, i, s'))" and
    r: "if p6_empty s' then p6_num_blocks s' = p6_compress_pos s' \<and> p6_rep (front @ rear) s' \<and> p6_compress_pos s' = int (length front)
     else \<exists>m. p6_put_block s' = Some m \<and> p6_rep (front @ rear) m \<and> p6_compress_pos m = int (length front)"
    by (auto simp: p6_scan_def)
  have f: "length front + length rear \<le> 8" using assms(2) by simp
  show ?thesis
  proof (cases "p6_empty s'")
    case True
    with e r p6_finish_compressed [OF _ f, of s'] show ?thesis
      by (simp add: ipaddr6_parse_ipv6_addr_def ipaddr6_parse_ipv6_addr_bin_def)
  next
    case False
    with r obtain m where m: "p6_put_block s' = Some m" "p6_rep (front @ rear) m" "p6_compress_pos m = int (length front)" by auto
    with e False p6_finish_compressed [OF m(2) f m(3)] show ?thesis
      by (simp add: ipaddr6_parse_ipv6_addr_def ipaddr6_parse_ipv6_addr_bin_def)
  qed
qed

lemma blk_block:
  assumes "2 * i + 1 < length addr"
  shows "blk (ip6_block addr i) = [addr ! (2 * i), addr ! (2 * i + 1)]" and "ip6_block addr i \<le> 65535"
proof -
  let ?a = "addr ! (2 * i)" and ?b = "addr ! (2 * i + 1)"
  have l: "unat ?a < 256" "unat ?b < 256" using unsigned_less [of ?a] unsigned_less [of ?b] by simp_all
  then have "ip6_block addr i div 256 = unat ?a" "ip6_block addr i mod 256 = unat ?b"
    by (simp_all add: ip6_block_def)
  then have "int (ip6_block addr i) div 256 = int (unat ?a)" "int (ip6_block addr i) mod 256 = int (unat ?b)"
    by (metis of_nat_div of_nat_numeral, metis of_nat_mod of_nat_numeral)
  then show "blk (ip6_block addr i) = [?a, ?b]" by (simp add: blk_def)
  show "ip6_block addr i \<le> 65535" using l by (simp add: ip6_block_def)
qed

lemma blks_addr:
  assumes "length addr = 16"
  shows "concat (map blk (map (ip6_block addr) [0..<8])) = addr"
proof -
  have "map (\<lambda>i. blk (ip6_block addr i)) [0..<8] = map (\<lambda>i. [addr ! (2 * i), addr ! (2 * i + 1)]) [0..<8]"
    using assms by (auto simp: blk_block)
  also have "concat (map (\<lambda>i. [addr ! (2 * i), addr ! (2 * i + 1)]) [0..<8]) = map ((!) addr) [0..<16]"
    by (simp add: upt_rec numeral_eq_Suc)
  finally show ?thesis using map_nth [of addr] assms by (simp add: comp_def)
qed

lemma zero_blocks: "\<forall>b\<in>set bs. b = 0 \<Longrightarrow> concat (map blk bs) = replicate (2 * length bs) 0"
  by (induction bs) (auto simp: blk_def)

lemma ipaddr6_roundtrip:
  assumes "length addr = 16" "length out = 16"
  shows "ipaddr6_parse_ipv6_addr (ipaddr6_print_addr addr) out = Some (Some addr)"
proof -
  let ?bs = "map (ip6_block addr) [0..<8]"
  obtain ls ll where z: "zero_run ?bs 0 (0, 0) (0, 0) = (ls, ll)" by (cases "zero_run ?bs 0 (0, 0) (0, 0)") auto
  have run: "ls + ll \<le> 8" "\<forall>j. ls \<le> j \<and> j < ls + ll \<longrightarrow> ?bs ! j = 0"
    using zero_run_spec [of ?bs 0 ?bs 0 0 0 0 ls ll] z by auto
  have small: "\<forall>b\<in>set ?bs. b \<le> 65535" using blk_block(2) assms(1) by auto
  note addr = blks_addr [OF assms(1)]
  show ?thesis
  proof (cases "ll > 1")
    case False
    then have "ipaddr6_print_addr addr = print_hex (hd ?bs) @ concat (map (\<lambda>b. '':'' @ print_hex b) (tl ?bs))"
      unfolding ipaddr6_print_addr_def Let_def z by simp
    then have "ipaddr6_print_addr addr = join (hd ?bs # tl ?bs)" by (simp only: print_full)
    moreover have "hd ?bs # tl ?bs = ?bs" by (simp add: upt_rec)
    ultimately show ?thesis using parse_full [OF assms(2) _ small] addr by simp
  next
    case True
    let ?f = "take ls ?bs" and ?z = "take ll (drop ls ?bs)" and ?r = "drop (ls + ll) ?bs"
    have split: "?bs = ?f @ ?z @ ?r" by (metis append_take_drop_id drop_drop add.commute)
    have lz: "length ?f = ls" "length ?r = 8 - ls - ll" "length ?z = ll" using run(1) by simp_all
    have "ipaddr6_print_addr addr = join ?f @ ''::'' @ join ?r"
      using True run(1) print_compressed [of ?f ?r] unfolding ipaddr6_print_addr_def Let_def z by (simp add: lz)
    moreover have "\<forall>b\<in>set ?z. b = 0" using run by (auto simp: in_set_conv_nth)
    then have "concat (map blk ?z) = replicate (2 * ll) 0" using zero_blocks [of ?z] lz(3) by simp
    then have "addr = concat (map blk ?f) @ replicate (2 * ll) 0 @ concat (map blk ?r)"
      using addr split by (metis concat_append map_append)
    moreover have "\<forall>b\<in>set (?f @ ?r). b \<le> 65535" using small set_take_subset [of ls ?bs] set_drop_subset [of "ls + ll" ?bs] by auto
    ultimately show ?thesis using parse_compressed [OF assms(2), of ?f ?r] True run(1) lz by auto
  qed
qed

end
