(* ===== verification/Addr_Text.thy ===== *)
theory Addr_Text
  imports Ip6_Text
begin

text \<open>
  Addresses as text (\<open>system/BAddr.h\<close>): \<open>BIPAddr\<close>, resolution and parsing of addresses with ports,
  and printing.  The resolver \<open>getaddrinfo\<close> is a parameter: given the numeric-only flag, the family and
  the text, it returns the bytes of the first address or fails.  \<open>strtol\<close> and \<open>atoi\<close> are those of the C
  library with base 10; a value that \<open>atoi\<close> cannot represent is undefined behaviour (\<open>None\<close>).
\<close>

section \<open>The C library's number parsing\<close>

definition isspace :: "char \<Rightarrow> bool" where
  "isspace c \<longleftrightarrow> (of_char c :: nat) = 32 \<or> 9 \<le> (of_char c :: nat) \<and> (of_char c :: nat) \<le> 13"

definition LONG_MAX :: int where
  "LONG_MAX = 2147483647"

text \<open>The value, clamped to the range of a 32-bit \<open>long\<close>, and the rest of the text.\<close>

definition strtol :: "string \<Rightarrow> int \<times> string" where
  "strtol str =
     (let s = dropWhile isspace str;
          neg = s \<noteq> [] \<and> hd s = CHR ''-'';
          s = (if s \<noteq> [] \<and> (hd s = CHR ''-'' \<or> hd s = CHR ''+'') then tl s else s);
          digits = takeWhile is_digit s;
          v = int (dec_value digits)
      in if digits = [] then (0, str)
         else (max (- LONG_MAX - 1) (min LONG_MAX (if neg then - v else v)), dropWhile is_digit s))"

definition atoi :: "string \<Rightarrow> int option" where
  "atoi str =
     (let s = dropWhile isspace str;
          neg = s \<noteq> [] \<and> hd s = CHR ''-'';
          s = (if s \<noteq> [] \<and> (hd s = CHR ''-'' \<or> hd s = CHR ''+'') then tl s else s);
          v = int (dec_value (takeWhile is_digit s)) * (if neg then -1 else 1)
      in if - 2147483648 \<le> v \<and> v \<le> 2147483647 then Some v else None)"

section \<open>Addresses without port\<close>

datatype BIPAddr = BIPADDR_NONE | BIPADDR_IPV4 "32 word" | BIPADDR_IPV6 bytes

datatype family = AF_INET | AF_INET6

type_synonym resolver = "bool \<Rightarrow> family \<Rightarrow> string \<Rightarrow> bytes option"

definition BIPAddr_InitInvalid :: BIPAddr where
  "BIPAddr_InitInvalid = BIPADDR_NONE"

definition BIPAddr_InitIPv4 :: "32 word \<Rightarrow> BIPAddr" where
  "BIPAddr_InitIPv4 ip = BIPADDR_IPV4 ip"

definition BIPAddr_InitIPv6 :: "bytes \<Rightarrow> BIPAddr" where
  "BIPAddr_InitIPv6 ip = BIPADDR_IPV6 ip"

definition BIPAddr_IsInvalid :: "BIPAddr \<Rightarrow> bool" where
  "BIPAddr_IsInvalid addr \<longleftrightarrow> addr = BIPADDR_NONE"

definition BADDR_MAX_ADDR_LEN :: nat where
  "BADDR_MAX_ADDR_LEN = 128"

text \<open>The copy of the text with its terminating zero, into an array of the given size.\<close>

definition copy_str :: "nat \<Rightarrow> string \<Rightarrow> unit option" where
  "copy_str sz str = do { mem_write (replicate sz CHR 0x00) 0 (str @ [CHR 0x00]); Some () }"

definition BIPAddr_Resolve :: "resolver \<Rightarrow> string \<Rightarrow> bool \<Rightarrow> BIPAddr option option" where
  "BIPAddr_Resolve getaddrinfo str noresolve =
     (let bracketed = length str \<ge> 1 \<and> hd str = CHR ''['' \<and> last str = CHR '']'';
          (fam, addr_str) = (if bracketed then (AF_INET6, take (length str - 2) (drop 1 str)) else (AF_INET, str))
      in if length addr_str > BADDR_MAX_ADDR_LEN then Some None
         else do {
           copy_str (BADDR_MAX_ADDR_LEN + 1) addr_str;
           case getaddrinfo noresolve fam addr_str of None \<Rightarrow> Some None
           | Some ip \<Rightarrow> Some (Some (case fam of AF_INET6 \<Rightarrow> BIPADDR_IPV6 ip | AF_INET \<Rightarrow> BIPADDR_IPV4 (le32_of ip)))
         })"

fun BIPAddr_Compare :: "BIPAddr \<Rightarrow> BIPAddr \<Rightarrow> bool" where
  "BIPAddr_Compare (BIPADDR_IPV4 a) (BIPADDR_IPV4 b) = (a = b)"
| "BIPAddr_Compare (BIPADDR_IPV6 a) (BIPADDR_IPV6 b) = (memcmp a b = 0)"
| "BIPAddr_Compare _ _ = False"

text \<open>\<open>printf\<close> with \<open>PRIu8\<close> and \<open>PRIu16\<close>.\<close>

definition print_dec :: "nat \<Rightarrow> string" where
  "print_dec n = decimal_digits (of_nat n) []"

primrec BIPAddr_Print :: "BIPAddr \<Rightarrow> string" where
  "BIPAddr_Print BIPADDR_NONE = ''(none)''"
| "BIPAddr_Print (BIPADDR_IPV4 ip) = (let b = le32_bytes ip in
     print_dec (unat (b ! 0)) @ ''.'' @ print_dec (unat (b ! 1)) @ ''.'' @ print_dec (unat (b ! 2)) @ ''.'' @ print_dec (unat (b ! 3)))"
| "BIPAddr_Print (BIPADDR_IPV6 ip) = print_hex (ip6_block ip 0) @ concat (map (\<lambda>i. '':'' @ print_hex (ip6_block ip i)) [1..<8])"

section \<open>Addresses with port\<close>

definition BAddr_MakeFromIpaddrAndPort :: "BIPAddr \<Rightarrow> 16 word \<Rightarrow> BAddr" where
  "BAddr_MakeFromIpaddrAndPort ipaddr port = (case ipaddr of
     BIPADDR_NONE \<Rightarrow> BADDR_TYPE_NONE
   | BIPADDR_IPV4 ip \<Rightarrow> BADDR_TYPE_IPV4 ip port
   | BIPADDR_IPV6 ip \<Rightarrow> BADDR_TYPE_IPV6 ip port)"

primrec BAddr_GetPort :: "BAddr \<Rightarrow> 16 word option" where
  "BAddr_GetPort BADDR_TYPE_NONE = None"
| "BAddr_GetPort (BADDR_TYPE_IPV4 ip port) = Some port"
| "BAddr_GetPort (BADDR_TYPE_IPV6 ip port) = Some port"

primrec BAddr_GetIPAddr :: "BAddr \<Rightarrow> BIPAddr" where
  "BAddr_GetIPAddr BADDR_TYPE_NONE = BIPAddr_InitInvalid"
| "BAddr_GetIPAddr (BADDR_TYPE_IPV4 ip port) = BIPAddr_InitIPv4 ip"
| "BAddr_GetIPAddr (BADDR_TYPE_IPV6 ip port) = BIPAddr_InitIPv6 ip"

primrec BAddr_SetPort :: "16 word \<Rightarrow> BAddr \<Rightarrow> BAddr option" where
  "BAddr_SetPort p BADDR_TYPE_NONE = None"
| "BAddr_SetPort p (BADDR_TYPE_IPV4 ip port) = Some (BADDR_TYPE_IPV4 ip p)"
| "BAddr_SetPort p (BADDR_TYPE_IPV6 ip port) = Some (BADDR_TYPE_IPV6 ip p)"

fun BAddr_Compare :: "BAddr \<Rightarrow> BAddr \<Rightarrow> bool" where
  "BAddr_Compare (BADDR_TYPE_IPV4 a p) (BADDR_TYPE_IPV4 b q) = (a = b \<and> p = q)"
| "BAddr_Compare (BADDR_TYPE_IPV6 a p) (BADDR_TYPE_IPV6 b q) = (memcmp a b = 0 \<and> p = q)"
| "BAddr_Compare _ _ = False"

definition BAddr_Print :: "BAddr \<Rightarrow> string" where
  "BAddr_Print addr = (case addr of
     BADDR_TYPE_NONE \<Rightarrow> ''(none)''
   | BADDR_TYPE_IPV4 ip port \<Rightarrow> BIPAddr_Print (BIPAddr_InitIPv4 ip) @ '':'' @ print_dec (unat (hton16 port))
   | BADDR_TYPE_IPV6 ip port \<Rightarrow> BIPAddr_Print (BIPAddr_InitIPv6 ip) @ '':'' @ print_dec (unat (hton16 port)))"

text \<open>
  \<open>name\<close> is the size of the caller's array for the host part, if it wants it; the result has the
  address and the host part.
\<close>

definition BAddr_Parse2 :: "resolver \<Rightarrow> string \<Rightarrow> nat option \<Rightarrow> bool \<Rightarrow> (BAddr \<times> string option) option option" where
  "BAddr_Parse2 getaddrinfo str name noresolve =
     (if length str < 1 \<or> length str > 1000 then Some None
      else case (if hd str = CHR ''['' then
                   (let a = takeWhile ((\<noteq>) CHR '']'') (tl str); rest = drop (length a + 1) (tl str)
                    in if length a = length (tl str) then None
                       else if rest = [] \<or> hd rest \<noteq> CHR '':'' then None
                       else Some (AF_INET6, a, tl rest))
                 else
                   (let a = takeWhile ((\<noteq>) CHR '':'') str
                    in if length a = length str then None else Some (AF_INET, a, drop (length a + 1) str))) of
        None \<Rightarrow> Some None
      | Some (fam, addr_str, port_str) \<Rightarrow>
          if length addr_str \<ge> 128 then Some None
          else do {
            copy_str 128 addr_str;
            if length port_str \<ge> 6 then Some None
            else do {
              copy_str 6 port_str;
              let (conv_res, err) = strtol port_str;
              if port_str = [] \<or> err \<noteq> [] then Some None
              else if conv_res < 0 \<or> conv_res > 65535 then Some None
              else do {
                let port = hton16 (word_of_int conv_res);
                case getaddrinfo noresolve fam addr_str of None \<Rightarrow> Some None
                | Some ip \<Rightarrow> do {
                    let addr = (case fam of AF_INET6 \<Rightarrow> BADDR_TYPE_IPV6 ip port | AF_INET \<Rightarrow> BADDR_TYPE_IPV4 (le32_of ip) port);
                    case name of None \<Rightarrow> Some (Some (addr, None))
                    | Some name_len \<Rightarrow>
                        if length addr_str \<ge> name_len then Some None
                        else do { copy_str name_len addr_str; Some (Some (addr, Some addr_str)) }
                  }
              }
            }
          })"

definition BAddr_Parse :: "resolver \<Rightarrow> string \<Rightarrow> nat option \<Rightarrow> (BAddr \<times> string option) option option" where
  "BAddr_Parse getaddrinfo str name = BAddr_Parse2 getaddrinfo str name False"

section \<open>Parsing is safe and its results are well-formed\<close>

text \<open>What the code relies on of the resolver.\<close>

definition resolver_ok :: "resolver \<Rightarrow> bool" where
  "resolver_ok getaddrinfo \<longleftrightarrow>
     (\<forall>n s ip. getaddrinfo n AF_INET s = Some ip \<longrightarrow> length ip = 4) \<and>
     (\<forall>n s ip. getaddrinfo n AF_INET6 s = Some ip \<longrightarrow> length ip = 16)"

lemma copy_str_ok: "length str < sz \<Longrightarrow> copy_str sz str = Some ()"
  by (simp add: copy_str_def mem_write_def)

lemma BIPAddr_Resolve_ok:
  assumes "resolver_ok r"
  shows "\<exists>x. BIPAddr_Resolve r str n = Some x \<and> (\<forall>a. x = Some a \<longrightarrow> (case a of BIPADDR_IPV6 ip \<Rightarrow> length ip = 16 | BIPADDR_IPV4 _ \<Rightarrow> True | BIPADDR_NONE \<Rightarrow> False))"
  using assms
  by (auto simp: BIPAddr_Resolve_def resolver_ok_def Let_def copy_str_ok BADDR_MAX_ADDR_LEN_def split: option.splits)

lemma BAddr_Parse2_ok:
  assumes "resolver_ok r"
  shows "\<exists>x. BAddr_Parse2 r str name n = Some x \<and> (\<forall>a h. x = Some (a, h) \<longrightarrow> BAddr_wf a \<and> a \<noteq> BADDR_TYPE_NONE)"
proof -
  have "\<exists>x. BAddr_Parse2 r str name n = Some x"
    unfolding BAddr_Parse2_def by (auto simp: Let_def copy_str_ok split: option.splits prod.splits)
  moreover have "BAddr_wf a \<and> a \<noteq> BADDR_TYPE_NONE" if "BAddr_Parse2 r str name n = Some (Some (a, h))" for a h
    using that assms unfolding BAddr_Parse2_def resolver_ok_def
    by (auto simp: Let_def split: if_splits option.splits prod.splits Option.bind_splits family.splits)
  ultimately show ?thesis by blast
qed

section \<open>Printed IPv4 addresses parse back\<close>

lemma print_dec_spec:
  assumes "n < 2 ^ 64"
  shows "print_dec n \<noteq> []" "list_all is_digit (print_dec n)" "dec_value (print_dec n) = n"
    "length (print_dec n) = compute_decimal_repr_size (of_nat n)"
proof -
  have "unat (of_nat n :: 64 word) = n" using assms by (simp add: unsigned_of_nat take_bit_nat_eq_self)
  with decimal_digits_spec [of "of_nat n" "[]"]
  show "print_dec n \<noteq> []" "list_all is_digit (print_dec n)" "dec_value (print_dec n) = n"
    "length (print_dec n) = compute_decimal_repr_size (of_nat n)" by (auto simp: print_dec_def)
qed

lemma dec_value_small_length:
  assumes "n < 10 ^ k" "0 < k" "n < 2 ^ 64"
  shows "length (print_dec n) \<le> k"
proof -
  let ?x = "of_nat n :: 64 word"
  have n: "unat ?x = n" using assms(3) by (simp add: unsigned_of_nat take_bit_nat_eq_self)
  obtain ds where ds: "print_dec n = ds" "ds \<noteq> []" "list_all is_digit ds" "dec_value ds = n" "?x = 0 \<or> hd ds \<noteq> CHR ''0''"
    "length ds = compute_decimal_repr_size ?x"
    using decimal_digits_spec [of ?x "[]"] n by (auto simp: print_dec_def)
  show ?thesis
  proof (cases "n = 0")
    case True
    then show ?thesis using ds(1,6) assms(2) by (simp add: compute_decimal_repr_size.simps [of 0])
  next
    case False
    then have "?x \<noteq> 0" using n by auto
    then have "10 ^ length (tl ds) \<le> n" using ds dec_value_large [of "hd ds" "tl ds"] by (cases ds) auto
    then have "(10::nat) ^ length (tl ds) < 10 ^ k" using assms(1) by (rule le_less_trans)
    then have "length (tl ds) < k" by (rule power_less_imp_less_exp [rotated]) simp
    then show ?thesis using ds(1,2) by (cases ds) auto
  qed
qed

lemma digit_not_sep: "is_digit c \<Longrightarrow> c \<noteq> CHR '':'' \<and> c \<noteq> CHR ''['' \<and> c \<noteq> CHR ''-'' \<and> c \<noteq> CHR ''+'' \<and> \<not> isspace c"
  by (auto simp: is_digit_def isspace_def)

lemma takeWhile_all: "list_all P xs \<Longrightarrow> takeWhile P xs = xs \<and> dropWhile P xs = []"
  by (induction xs) auto

lemma strtol_print_dec:
  assumes "n \<le> 65535"
  shows "strtol (print_dec n) = (int n, [])"
proof -
  note p = print_dec_spec [of n]
  obtain c cs where c: "print_dec n = c # cs" "is_digit c" using p assms by (cases "print_dec n") auto
  from takeWhile_all [of is_digit "print_dec n"] p(2) assms
  have w: "takeWhile is_digit (c # cs) = c # cs" "dropWhile is_digit (c # cs) = []" using c by simp_all
  show ?thesis using p(3) assms digit_not_sep [OF c(2)] w unfolding c(1)
    by (simp add: strtol_def Let_def LONG_MAX_def)
qed

lemma BIPAddr_Print_ipv4:
  "length (BIPAddr_Print (BIPADDR_IPV4 ip)) < 128" "BIPAddr_Print (BIPADDR_IPV4 ip) \<noteq> []"
  "\<forall>c\<in>set (BIPAddr_Print (BIPADDR_IPV4 ip)). c \<noteq> CHR '':'' \<and> c \<noteq> CHR ''[''"
proof -
  have b: "unat (b :: byte) < 256" for b using unsigned_less [of b] by simp
  have l: "length (print_dec (unat (b :: byte))) \<le> 3" for b using dec_value_small_length [of "unat b" 3] b [of b] by simp
  have d: "list_all is_digit (print_dec (unat (b :: byte)))" for b using print_dec_spec(2) [of "unat b"] b [of b] by simp
  show "length (BIPAddr_Print (BIPADDR_IPV4 ip)) < 128"
    using l [of "le32_bytes ip ! 0"] l [of "le32_bytes ip ! 1"] l [of "le32_bytes ip ! 2"] l [of "le32_bytes ip ! 3"] by (simp add: Let_def)
  show "BIPAddr_Print (BIPADDR_IPV4 ip) \<noteq> []" by (simp add: Let_def)
  show "\<forall>c\<in>set (BIPAddr_Print (BIPADDR_IPV4 ip)). c \<noteq> CHR '':'' \<and> c \<noteq> CHR ''[''"
    using d digit_not_sep by (auto simp: Let_def list_all_iff)
qed

lemma BAddr_ipv4_roundtrip:
  assumes "getaddrinfo noresolve AF_INET (BIPAddr_Print (BIPADDR_IPV4 ip)) = Some (le32_bytes ip)"
  shows "BAddr_Parse2 getaddrinfo (BAddr_Print (BADDR_TYPE_IPV4 ip port)) None noresolve = Some (Some (BADDR_TYPE_IPV4 ip port, None))"
proof -
  let ?h = "BIPAddr_Print (BIPADDR_IPV4 ip)" and ?p = "print_dec (unat (hton16 port))"
  note h = BIPAddr_Print_ipv4 [of ip]
  have pl: "unat (hton16 port) \<le> 65535" using unsigned_less [of "hton16 port", where ?'a = nat] by simp
  then have p: "length ?p \<le> 5" "?p \<noteq> []" using dec_value_small_length [of "unat (hton16 port)" 5] print_dec_spec [of "unat (hton16 port)"] by simp_all
  have str: "BAddr_Print (BADDR_TYPE_IPV4 ip port) = ?h @ CHR '':'' # ?p" by (simp add: BAddr_Print_def BIPAddr_InitIPv4_def)
  have t: "takeWhile ((\<noteq>) CHR '':'') (?h @ CHR '':'' # ?p) = ?h" using h(3) by (subst takeWhile_append2) auto
  have hd: "hd (?h @ CHR '':'' # ?p) \<noteq> CHR ''[''" using h(2,3) by (cases ?h) auto
  have u: "\<not> 65535 < uint (hton16 port)" using unsigned_less [of "hton16 port", where ?'a = int] by simp
  have w: "hton16 (word_of_int (int (unat (hton16 port)))) = port" by simp
  show ?thesis
    unfolding BAddr_Parse2_def str t Let_def
    using h p hd strtol_print_dec [OF pl] u assms by (simp add: copy_str_ok w del: BIPAddr_Print.simps)
qed

end
