(* ===== verification/Logging.thy ===== *)
theory Logging
  imports Flow_Prelude
begin

text \<open>
  The logger (\<open>base/BLog.h\<close>, \<open>base/BLog.c\<close>): channels with their levels, the message buffer and the
  log functions for the standard streams and for the Java side.  A message is formatted by \<open>vsnprintf\<close>;
  its result, a text without zero characters, is the argument of \<open>BLog_AppendVarArg\<close>.  The mutex is
  \<open>bl_locked\<close>: locking it twice from the logger's thread does not return, which is a failure here.
\<close>

section \<open>Channels\<close>

text \<open>The generated list of channels with their default levels.\<close>

definition blog_channel_list :: "(string \<times> int) list" where
  "blog_channel_list = [
    (''server'', 4), (''client'', 4), (''flooder'', 4), (''tun2socks'', 4), (''ncd'', 4), (''ncd_var'', 4),
    (''ncd_list'', 4), (''ncd_depend'', 4), (''ncd_multidepend'', 4), (''ncd_dynamic_depend'', 4),
    (''ncd_concat'', 4), (''ncd_if'', 4), (''ncd_strcmp'', 4), (''ncd_regex_match'', 4), (''ncd_logical'', 4),
    (''ncd_sleep'', 4), (''ncd_print'', 4), (''ncd_blocker'', 4), (''ncd_run'', 4), (''ncd_runonce'', 4),
    (''ncd_daemon'', 4), (''ncd_spawn'', 4), (''ncd_imperative'', 4), (''ncd_ref'', 4), (''ncd_index'', 4),
    (''ncd_alias'', 4), (''ncd_process_manager'', 4), (''ncd_ondemand'', 4), (''ncd_foreach'', 4),
    (''ncd_choose'', 4), (''ncd_net_backend_waitdevice'', 4), (''ncd_net_backend_waitlink'', 4),
    (''ncd_net_backend_badvpn'', 4), (''ncd_net_backend_wpa_supplicant'', 4), (''ncd_net_backend_rfkill'', 4),
    (''ncd_net_up'', 4), (''ncd_net_dns'', 4), (''ncd_net_iptables'', 4), (''ncd_net_ipv4_addr'', 4),
    (''ncd_net_ipv4_route'', 4), (''ncd_net_ipv4_dhcp'', 4), (''ncd_net_ipv4_arp_probe'', 4),
    (''ncd_net_watch_interfaces'', 4), (''ncd_sys_watch_input'', 4), (''ncd_sys_watch_usb'', 4),
    (''ncd_sys_evdev'', 4), (''ncd_sys_watch_directory'', 4), (''StreamPeerIO'', 4), (''DatagramPeerIO'', 4),
    (''BReactor'', 3), (''BSignal'', 3), (''FragmentProtoAssembler'', 4), (''BPredicate'', 3),
    (''ServerConnection'', 4), (''Listener'', 4), (''DataProto'', 4), (''FrameDecider'', 4), (''BSocksClient'', 4),
    (''BDHCPClientCore'', 4), (''BDHCPClient'', 4), (''NCDIfConfig'', 4), (''BUnixSignal'', 4), (''BProcess'', 4),
    (''PRStreamSink'', 4), (''PRStreamSource'', 4), (''PacketProtoDecoder'', 4), (''DPRelay'', 4),
    (''BThreadWork'', 4), (''DPReceive'', 4), (''BInputProcess'', 4), (''NCDUdevMonitorParser'', 4),
    (''NCDUdevMonitor'', 4), (''NCDUdevCache'', 4), (''NCDUdevManager'', 4), (''BTime'', 4), (''BEncryption'', 4),
    (''SPProtoDecoder'', 4), (''LineBuffer'', 4), (''BTap'', 4), (''lwip'', 4), (''NCDConfigTokenizer'', 4),
    (''NCDConfigParser'', 4), (''NCDValParser'', 4), (''nsskey'', 4), (''addr'', 4), (''PasswordListener'', 4),
    (''NCDInterfaceMonitor'', 4), (''NCDRfkillMonitor'', 4), (''udpgw'', 4), (''UdpGwClient'', 4),
    (''SocksUdpGwClient'', 4), (''BNetwork'', 4), (''BConnection'', 4), (''BSSLConnection'', 4), (''BDatagram'', 4),
    (''PeerChat'', 4), (''BArpProbe'', 4), (''NCDModuleIndex'', 4), (''NCDModuleProcess'', 4),
    (''NCDValGenerator'', 4), (''ncd_from_string'', 4), (''ncd_to_string'', 4), (''ncd_value'', 4), (''ncd_try'', 4),
    (''ncd_sys_request_server'', 4), (''NCDRequest'', 4), (''ncd_net_ipv6_wait_dynamic_addr'', 4),
    (''NCDRequestClient'', 4), (''ncd_request'', 4), (''ncd_sys_request_client'', 4), (''ncd_exit'', 4),
    (''ncd_getargs'', 4), (''ncd_arithmetic'', 4), (''ncd_parse'', 4), (''ncd_valuemetic'', 4), (''ncd_file'', 4),
    (''ncd_netmask'', 4), (''ncd_implode'', 4), (''ncd_call2'', 4), (''ncd_assert'', 4), (''ncd_reboot'', 4),
    (''ncd_explode'', 4), (''NCDPlaceholderDb'', 4), (''NCDVal'', 4), (''ncd_net_ipv6_addr'', 4),
    (''ncd_net_ipv6_route'', 4), (''ncd_net_ipv4_addr_in_network'', 4), (''ncd_net_ipv6_addr_in_network'', 4),
    (''dostest_server'', 4), (''dostest_attacker'', 4), (''ncd_timer'', 4), (''ncd_file_open'', 4),
    (''ncd_backtrack'', 4), (''ncd_socket'', 4), (''ncd_depend_scope'', 4), (''ncd_substr'', 4),
    (''ncd_sys_start_process'', 4), (''NCDBuildProgram'', 4), (''ncd_log'', 4), (''ncd_log_msg'', 4),
    (''ncd_buffer'', 4), (''ncd_getenv'', 4), (''BThreadSignal'', 4), (''BLockReactor'', 4),
    (''ncd_load_module'', 4)]"

definition BLOG_NUM_CHANNELS :: nat where "BLOG_NUM_CHANNELS = 145"

definition BLOG_ERROR :: int where "BLOG_ERROR = 1"

definition BLOG_WARNING :: int where "BLOG_WARNING = 2"

definition BLOG_NOTICE :: int where "BLOG_NOTICE = 3"

definition BLOG_INFO :: int where "BLOG_INFO = 4"

definition BLOG_DEBUG :: int where "BLOG_DEBUG = 5"

lemmas blog_levels = BLOG_ERROR_def BLOG_WARNING_def BLOG_NOTICE_def BLOG_INFO_def BLOG_DEBUG_def

text \<open>The loop over the channels, from the one with number \<open>i\<close>.\<close>

primrec find_channel :: "(string \<times> int) list \<Rightarrow> int \<Rightarrow> string \<Rightarrow> int" where
  "find_channel [] i channel_name = -1"
| "find_channel (c # cs) i channel_name = (if fst c = channel_name then i else find_channel cs (i + 1) channel_name)"

definition BLogGlobal_GetChannelByName :: "string \<Rightarrow> int" where
  "BLogGlobal_GetChannelByName channel_name = find_channel blog_channel_list 0 channel_name"

section \<open>State and operations\<close>

datatype log_func = stdout_log | stderr_log | psiphon_log

text \<open>What is written: to a standard stream, or level, channel and message passed to \<open>PsiphonLog\<close>.\<close>

datatype log_output = StdoutText string | StderrText string | PsiphonLog string string string

record blog_global =
  bl_initialized :: bool
  bl_channels :: "(string \<times> int) list"
  bl_log_func :: log_func
  bl_locked :: bool
  bl_logging :: bool
  bl_logbuf :: string
  bl_logbuf_pos :: int
  bl_out :: "log_output list"

definition LOGBUF_SIZE :: int where "LOGBUF_SIZE = 2048"

text \<open>No level has the number 0, whose name is a null pointer.\<close>

definition level_names :: "string list" where
  "level_names = [[], ''ERROR'', ''WARNING'', ''NOTICE'', ''INFO'', ''DEBUG'']"

definition BLog_Init :: "log_func \<Rightarrow> blog_global \<Rightarrow> blog_global option" where
  "BLog_Init f g = do {
     ASSERT (\<not> bl_initialized g);
     buf \<leftarrow> mem_write (bl_logbuf g) 0 [CHR 0x00];
     Some (g\<lparr>bl_initialized := True, bl_channels := blog_channel_list, bl_log_func := f, bl_logging := False, bl_logbuf_pos := 0,
       bl_logbuf := buf, bl_locked := False\<rparr>)
   }"

definition BLog_InitStdout :: "blog_global \<Rightarrow> blog_global option" where
  "BLog_InitStdout g = BLog_Init stdout_log g"

definition BLog_InitStderr :: "blog_global \<Rightarrow> blog_global option" where
  "BLog_InitStderr g = BLog_Init stderr_log g"

definition BLog_InitPsiphon :: "blog_global \<Rightarrow> blog_global option" where
  "BLog_InitPsiphon g = BLog_Init psiphon_log g"

definition BLog_Free :: "blog_global \<Rightarrow> blog_global option" where
  "BLog_Free g = do {
     ASSERT (bl_initialized g);
     ASSERT (\<not> bl_logging g);
     ASSERT (\<not> bl_locked g);
     Some (g\<lparr>bl_initialized := False\<rparr>)
   }"

abbreviation channel_ok :: "int \<Rightarrow> bool" where
  "channel_ok channel \<equiv> channel \<ge> 0 \<and> channel < int BLOG_NUM_CHANNELS"

abbreviation level_ok :: "int \<Rightarrow> bool" where
  "level_ok level \<equiv> level \<ge> BLOG_ERROR \<and> level \<le> BLOG_DEBUG"

definition BLog_SetChannelLoglevel :: "int \<Rightarrow> int \<Rightarrow> blog_global \<Rightarrow> blog_global option" where
  "BLog_SetChannelLoglevel channel loglevel g = do {
     ASSERT (bl_initialized g);
     ASSERT (channel_ok channel);
     ASSERT (loglevel \<ge> 0 \<and> loglevel \<le> BLOG_DEBUG);
     let i = nat channel;
     Some (g\<lparr>bl_channels := (bl_channels g)[i := (fst (bl_channels g ! i), loglevel)]\<rparr>)
   }"

definition BLog_WouldLog :: "int \<Rightarrow> int \<Rightarrow> blog_global \<Rightarrow> bool option" where
  "BLog_WouldLog channel level g = do {
     ASSERT (bl_initialized g);
     ASSERT (channel_ok channel);
     ASSERT (level_ok level);
     Some (level \<le> snd (bl_channels g ! nat channel))
   }"

definition BLog_Begin :: "blog_global \<Rightarrow> blog_global option" where
  "BLog_Begin g = do {
     ASSERT (bl_initialized g);
     ASSERT (\<not> bl_locked g);
     ASSERT (\<not> bl_logging g);
     Some (g\<lparr>bl_locked := True, bl_logging := True\<rparr>)
   }"

text \<open>\<open>vsnprintf\<close> writes at most \<open>n - 1\<close> characters and a zero, and returns the length of the whole text.\<close>

definition BLog_AppendVarArg :: "string \<Rightarrow> blog_global \<Rightarrow> blog_global option" where
  "BLog_AppendVarArg txt g = do {
     ASSERT (bl_initialized g);
     ASSERT (bl_logging g);
     ASSERT (bl_logbuf_pos g \<ge> 0);
     ASSERT (bl_logbuf_pos g < LOGBUF_SIZE);
     let n = LOGBUF_SIZE - bl_logbuf_pos g;
     buf \<leftarrow> mem_write (bl_logbuf g) (bl_logbuf_pos g) (take (nat (n - 1)) txt @ [CHR 0x00]);
     let w = int (length txt);
     Some (g\<lparr>bl_logbuf := buf, bl_logbuf_pos := (if w \<ge> n then LOGBUF_SIZE - 1 else bl_logbuf_pos g + w)\<rparr>)
   }"

definition BLog_Append :: "string \<Rightarrow> blog_global \<Rightarrow> blog_global option" where
  "BLog_Append txt g = do { ASSERT (bl_initialized g); ASSERT (bl_logging g); BLog_AppendVarArg txt g }"

definition BLog_AppendBytes :: "string \<Rightarrow> blog_global \<Rightarrow> blog_global option" where
  "BLog_AppendBytes data g = do {
     ASSERT (bl_initialized g);
     ASSERT (bl_logging g);
     ASSERT (bl_logbuf_pos g \<ge> 0);
     ASSERT (bl_logbuf_pos g < LOGBUF_SIZE);
     let avail = (LOGBUF_SIZE - 1) - bl_logbuf_pos g;
     let len = (if int (length data) > avail then avail else int (length data));
     buf \<leftarrow> mem_write (bl_logbuf g) (bl_logbuf_pos g) (take (nat len) data);
     let pos = bl_logbuf_pos g + len;
     buf \<leftarrow> mem_write buf pos [CHR 0x00];
     Some (g\<lparr>bl_logbuf := buf, bl_logbuf_pos := pos\<rparr>)
   }"

text \<open>The text of a zero-terminated array, and the three log functions.\<close>

definition c_str :: "string \<Rightarrow> string" where
  "c_str buf = takeWhile ((\<noteq>) CHR 0x00) buf"

definition log_text :: "string \<Rightarrow> string \<Rightarrow> string \<Rightarrow> string" where
  "log_text level channel msg = level @ ''('' @ channel @ ''): '' @ msg @ [CHR 0x0A]"

definition call_log_func :: "int \<Rightarrow> int \<Rightarrow> string \<Rightarrow> blog_global \<Rightarrow> blog_global" where
  "call_log_func channel level msg g =
     (let l = level_names ! nat level; c = fst (bl_channels g ! nat channel)
      in g\<lparr>bl_out := bl_out g @ [case bl_log_func g of
           stdout_log \<Rightarrow> StdoutText (log_text l c msg)
         | stderr_log \<Rightarrow> StderrText (log_text l c msg)
         | psiphon_log \<Rightarrow> PsiphonLog l c msg]\<rparr>)"

definition BLog_Finish :: "int \<Rightarrow> int \<Rightarrow> blog_global \<Rightarrow> blog_global option" where
  "BLog_Finish channel level g = do {
     ASSERT (bl_initialized g);
     ASSERT (bl_logging g);
     ASSERT (channel_ok channel);
     ASSERT (level_ok level);
     would \<leftarrow> BLog_WouldLog channel level g;
     ASSERT would;
     ASSERT (bl_logbuf_pos g \<ge> 0);
     ASSERT (bl_logbuf_pos g < LOGBUF_SIZE);
     z \<leftarrow> mem_read (bl_logbuf g) (bl_logbuf_pos g) 1;
     ASSERT (z = [CHR 0x00]);
     let g = call_log_func channel level (c_str (bl_logbuf g)) g;
     buf \<leftarrow> mem_write (bl_logbuf g) 0 [CHR 0x00];
     ASSERT (bl_locked g);
     Some (g\<lparr>bl_logging := False, bl_logbuf_pos := 0, bl_logbuf := buf, bl_locked := False\<rparr>)
   }"

definition BLog_LogToChannel :: "int \<Rightarrow> int \<Rightarrow> string \<Rightarrow> blog_global \<Rightarrow> blog_global option" where
  "BLog_LogToChannel channel level txt g = do {
     ASSERT (bl_initialized g);
     ASSERT (channel_ok channel);
     ASSERT (level_ok level);
     would \<leftarrow> BLog_WouldLog channel level g;
     if \<not> would then Some g
     else do {
       g \<leftarrow> BLog_Begin g;
       g \<leftarrow> BLog_AppendVarArg txt g;
       BLog_Finish channel level g
     }
   }"

text \<open>The function of a context appends its prefix first.\<close>

definition BLog_LogViaFunc ::
  "(blog_global \<Rightarrow> blog_global option) \<Rightarrow> int \<Rightarrow> int \<Rightarrow> string \<Rightarrow> blog_global \<Rightarrow> blog_global option" where
  "BLog_LogViaFunc func channel level txt g = do {
     ASSERT (bl_initialized g);
     ASSERT (channel_ok channel);
     ASSERT (level_ok level);
     would \<leftarrow> BLog_WouldLog channel level g;
     if \<not> would then Some g
     else do {
       g \<leftarrow> BLog_Begin g;
       g \<leftarrow> func g;
       g \<leftarrow> BLog_AppendVarArg txt g;
       BLog_Finish channel level g
     }
   }"

definition BLog_root_logfunc :: "blog_global \<Rightarrow> blog_global option" where
  "BLog_root_logfunc g = Some g"

section \<open>The message buffer\<close>

text \<open>
  Between messages the buffer is empty.  While a message is built, \<open>bl_text\<close> is what has been
  appended, cut to the \<open>LOGBUF_SIZE - 1\<close> characters that fit, and is followed by its zero.
\<close>

definition bl_text :: "blog_global \<Rightarrow> string" where
  "bl_text g = take (nat (bl_logbuf_pos g)) (bl_logbuf g)"

definition bl_inv :: "blog_global \<Rightarrow> bool" where
  "bl_inv g \<longleftrightarrow> bl_initialized g \<and> length (bl_channels g) = BLOG_NUM_CHANNELS \<and>
     list_all (\<lambda>c. 0 \<le> snd c \<and> snd c \<le> BLOG_DEBUG) (bl_channels g) \<and>
     int (length (bl_logbuf g)) = LOGBUF_SIZE \<and> 0 \<le> bl_logbuf_pos g \<and> bl_logbuf_pos g < LOGBUF_SIZE \<and>
     bl_logbuf g ! nat (bl_logbuf_pos g) = CHR 0x00 \<and> CHR 0x00 \<notin> set (bl_text g) \<and>
     bl_locked g = bl_logging g \<and> (\<not> bl_logging g \<longrightarrow> bl_logbuf_pos g = 0)"

text \<open>What appending to the message keeps.\<close>

definition bl_rest :: "blog_global \<Rightarrow> (string \<times> int) list \<times> log_func \<times> log_output list" where
  "bl_rest g = (bl_channels g, bl_log_func g, bl_out g)"

lemma take_min: "take (min (length xs) n) xs = take n xs"
  by (simp add: min_def)

lemma take_take_append: "take n (take n xs @ ys) = take n (xs @ ys)"
  by (simp add: min_def)

locale log_append =
  fixes app :: "string \<Rightarrow> blog_global \<Rightarrow> blog_global option"
  assumes app_ok: "bl_inv g \<Longrightarrow> bl_logging g \<Longrightarrow> CHR 0x00 \<notin> set txt \<Longrightarrow>
    \<exists>g'. app txt g = Some g' \<and> bl_inv g' \<and> bl_logging g' \<and> bl_rest g' = bl_rest g \<and>
      bl_text g' = take (nat (LOGBUF_SIZE - 1)) (bl_text g @ txt)"
begin

primrec app_all :: "string list \<Rightarrow> blog_global \<Rightarrow> blog_global option" where
  "app_all [] g = Some g"
| "app_all (t # ts) g = app t g \<bind> app_all ts"

lemma app_all_ok:
  assumes "bl_inv g" "bl_logging g" "CHR 0x00 \<notin> set (concat ts)"
  shows "\<exists>g'. app_all ts g = Some g' \<and> bl_inv g' \<and> bl_logging g' \<and> bl_rest g' = bl_rest g \<and>
    bl_text g' = take (nat (LOGBUF_SIZE - 1)) (bl_text g @ concat ts)"
  using assms
proof (induction ts arbitrary: g)
  case Nil
  then show ?case by (auto simp: bl_inv_def bl_text_def)
next
  case (Cons t ts)
  then obtain g1 where g1: "app t g = Some g1" "bl_inv g1" "bl_logging g1" "bl_rest g1 = bl_rest g"
    "bl_text g1 = take (nat (LOGBUF_SIZE - 1)) (bl_text g @ t)" using app_ok [of g t] by auto
  from Cons.IH [OF g1(2,3)] Cons.prems(3) obtain g2 where g2: "app_all ts g1 = Some g2" "bl_inv g2" "bl_logging g2" "bl_rest g2 = bl_rest g1"
    "bl_text g2 = take (nat (LOGBUF_SIZE - 1)) (bl_text g1 @ concat ts)" by auto
  have "bl_text g2 = take (nat (LOGBUF_SIZE - 1)) (bl_text g @ concat (t # ts))"
    using g2(5) unfolding g1(5) take_take_append by simp
  with g1 g2 show ?case by (simp del: take_append)
qed

end

lemma append_write:
  assumes "bl_inv g" "pos = bl_logbuf_pos g" "int (length txt) \<le> LOGBUF_SIZE - 1 - pos" "CHR 0x00 \<notin> set txt"
  shows "mem_write (bl_logbuf g) pos (txt @ [CHR 0x00]) = Some (bl_text g @ txt @ CHR 0x00 # drop (nat pos + length txt + 1) (bl_logbuf g))"
    "bl_inv (g\<lparr>bl_logbuf := bl_text g @ txt @ CHR 0x00 # drop (nat pos + length txt + 1) (bl_logbuf g),
       bl_logbuf_pos := pos + int (length txt), bl_logging := True, bl_locked := True\<rparr>)"
    "bl_text (g\<lparr>bl_logbuf := bl_text g @ txt @ CHR 0x00 # drop (nat pos + length txt + 1) (bl_logbuf g),
       bl_logbuf_pos := pos + int (length txt)\<rparr>) = bl_text g @ txt"
proof -
  have l: "length (bl_text g) = nat pos" "0 \<le> pos" "pos < LOGBUF_SIZE" "int (length (bl_logbuf g)) = LOGBUF_SIZE"
    using assms(1,2) by (auto simp: bl_inv_def bl_text_def)
  show "mem_write (bl_logbuf g) pos (txt @ [CHR 0x00]) = Some (bl_text g @ txt @ CHR 0x00 # drop (nat pos + length txt + 1) (bl_logbuf g))"
    using l assms(2,3) by (simp add: mem_write_def bl_text_def)
  have n: "nat (pos + int (length txt)) = nat pos + length txt" using l(2) by (simp add: nat_add_distrib)
  show t: "bl_text (g\<lparr>bl_logbuf := bl_text g @ txt @ CHR 0x00 # drop (nat pos + length txt + 1) (bl_logbuf g),
       bl_logbuf_pos := pos + int (length txt)\<rparr>) = bl_text g @ txt"
    using l(1) by (simp add: bl_text_def [of "_\<lparr>bl_logbuf := _, bl_logbuf_pos := _\<rparr>"] n)
  have "(bl_text g @ txt @ CHR 0x00 # drop (nat pos + length txt + 1) (bl_logbuf g)) ! (nat pos + length txt) = CHR 0x00"
    using l(1) by (simp add: nth_append)
  then show "bl_inv (g\<lparr>bl_logbuf := bl_text g @ txt @ CHR 0x00 # drop (nat pos + length txt + 1) (bl_logbuf g),
       bl_logbuf_pos := pos + int (length txt), bl_logging := True, bl_locked := True\<rparr>)"
    using assms t l n by (auto simp: bl_inv_def bl_text_def)
qed

lemma take_text:
  assumes "bl_inv g"
  shows "take (nat (LOGBUF_SIZE - 1)) (bl_text g @ txt) = bl_text g @ take (nat (LOGBUF_SIZE - 1 - bl_logbuf_pos g)) txt"
proof -
  have "length (bl_text g) = nat (bl_logbuf_pos g)" "0 \<le> bl_logbuf_pos g" "bl_logbuf_pos g \<le> LOGBUF_SIZE - 1"
    using assms by (auto simp: bl_inv_def bl_text_def)
  then show ?thesis by (simp add: nat_diff_distrib)
qed

lemma BLog_AppendVarArg_ok:
  assumes "bl_inv g" "bl_logging g" "CHR 0x00 \<notin> set txt"
  shows "\<exists>g'. BLog_AppendVarArg txt g = Some g' \<and> bl_inv g' \<and> bl_logging g' \<and> bl_rest g' = bl_rest g \<and>
      bl_text g' = take (nat (LOGBUF_SIZE - 1)) (bl_text g @ txt)"
proof -
  let ?pos = "bl_logbuf_pos g"
  let ?t = "take (nat (LOGBUF_SIZE - 1 - ?pos)) txt"
  have l: "0 \<le> ?pos" "?pos < LOGBUF_SIZE" "bl_initialized g" "bl_locked g" using assms(1,2) by (auto simp: bl_inv_def)
  have z: "CHR 0x00 \<notin> set ?t" using assms(3) by (meson in_set_takeD)
  have len: "int (length ?t) \<le> LOGBUF_SIZE - 1 - ?pos" using l by simp
  note w = append_write [OF assms(1) refl len z]
  have pos: "(if LOGBUF_SIZE - ?pos \<le> int (length txt) then LOGBUF_SIZE - 1 else ?pos + int (length txt)) = ?pos + int (length ?t)"
    using l by simp
  have s: "LOGBUF_SIZE - ?pos - 1 = LOGBUF_SIZE - 1 - ?pos" by simp
  let ?g = "g\<lparr>bl_logbuf := bl_text g @ ?t @ CHR 0x00 # drop (nat ?pos + length ?t + 1) (bl_logbuf g), bl_logbuf_pos := ?pos + int (length ?t)\<rparr>"
  have "BLog_AppendVarArg txt g = Some ?g"
    using l assms(2) w(1) unfolding BLog_AppendVarArg_def Let_def s pos by simp
  moreover have "bl_inv ?g" using w(2) assms(2) l(4) by (simp add: bl_inv_def bl_text_def)
  ultimately show ?thesis using w(3) assms(2) by (simp add: take_text [OF assms(1)] bl_rest_def del: take_append)
qed

lemma BLog_AppendBytes_ok:
  assumes "bl_inv g" "bl_logging g" "CHR 0x00 \<notin> set data"
  shows "\<exists>g'. BLog_AppendBytes data g = Some g' \<and> bl_inv g' \<and> bl_logging g' \<and> bl_rest g' = bl_rest g \<and>
      bl_text g' = take (nat (LOGBUF_SIZE - 1)) (bl_text g @ data)"
proof -
  let ?pos = "bl_logbuf_pos g"
  let ?t = "take (nat (LOGBUF_SIZE - 1 - ?pos)) data"
  have l: "0 \<le> ?pos" "?pos < LOGBUF_SIZE" "bl_initialized g" "bl_locked g" "int (length (bl_logbuf g)) = LOGBUF_SIZE"
    using assms(1,2) by (auto simp: bl_inv_def)
  have z: "CHR 0x00 \<notin> set ?t" using assms(3) by (meson in_set_takeD)
  have len: "int (length ?t) \<le> LOGBUF_SIZE - 1 - ?pos" using l by simp
  note w = append_write [OF assms(1) refl len z]
  let ?b = "bl_text g @ ?t @ CHR 0x00 # drop (nat ?pos + length ?t + 1) (bl_logbuf g)"
  have n: "(if LOGBUF_SIZE - 1 - ?pos < int (length data) then LOGBUF_SIZE - 1 - ?pos else int (length data)) = int (length ?t)"
    using l by simp
  have t: "take (nat (int (length ?t))) data = ?t" by (simp add: min_def)
  have w1: "mem_write (bl_logbuf g) ?pos ?t = Some (bl_text g @ ?t @ drop (nat ?pos + length ?t) (bl_logbuf g))"
    using l len by (simp add: mem_write_def bl_text_def)
  have tl: "length (bl_text g) = nat ?pos" using l by (simp add: bl_text_def)
  have w2: "mem_write (bl_text g @ ?t @ drop (nat ?pos + length ?t) (bl_logbuf g)) (?pos + int (length ?t)) [CHR 0x00] = Some ?b"
  proof -
    have "nat (?pos + int (length ?t)) = length (bl_text g @ ?t)" using l(1) tl by (simp add: nat_add_distrib)
    moreover have "?pos + int (length ?t) + 1 \<le> int (length (bl_text g @ ?t @ drop (nat ?pos + length ?t) (bl_logbuf g)))"
      using l len tl by simp
    ultimately show ?thesis using l(1) by (simp add: mem_write_def tl take_min)
  qed
  let ?g = "g\<lparr>bl_logbuf := ?b, bl_logbuf_pos := ?pos + int (length ?t)\<rparr>"
  have "BLog_AppendBytes data g = Some ?g"
    unfolding BLog_AppendBytes_def Let_def n t w1 using l assms(2) w2 by simp
  moreover have "bl_inv ?g" using w(2) assms(2) l(4) by (simp add: bl_inv_def bl_text_def)
  ultimately show ?thesis using w(3) assms(2) by (simp add: take_text [OF assms(1)] bl_rest_def del: take_append)
qed

interpretation log_text: log_append BLog_AppendVarArg
  by unfold_locales (rule BLog_AppendVarArg_ok)

interpretation log_fmt: log_append BLog_Append
proof unfold_locales
  fix g s
  assume "bl_inv g" "bl_logging g" "CHR 0x00 \<notin> set s"
  moreover from this have "BLog_Append s g = BLog_AppendVarArg s g" by (simp add: BLog_Append_def bl_inv_def)
  ultimately show "\<exists>g'. BLog_Append s g = Some g' \<and> bl_inv g' \<and> bl_logging g' \<and> bl_rest g' = bl_rest g \<and>
      bl_text g' = take (nat (LOGBUF_SIZE - 1)) (bl_text g @ s)" using BLog_AppendVarArg_ok by metis
qed

interpretation log_bytes: log_append BLog_AppendBytes
  by unfold_locales (rule BLog_AppendBytes_ok)

section \<open>Messages\<close>

lemma c_str_text:
  assumes "bl_inv g"
  shows "c_str (bl_logbuf g) = bl_text g"
proof -
  have p: "nat (bl_logbuf_pos g) < length (bl_logbuf g)" "bl_logbuf g ! nat (bl_logbuf_pos g) = CHR 0x00" "CHR 0x00 \<notin> set (bl_text g)"
    using assms by (auto simp: bl_inv_def)
  then have "bl_logbuf g = bl_text g @ CHR 0x00 # drop (Suc (nat (bl_logbuf_pos g))) (bl_logbuf g)"
    unfolding bl_text_def by (metis id_take_nth_drop)
  moreover have "takeWhile ((\<noteq>) CHR 0x00) (bl_text g @ CHR 0x00 # zs) = bl_text g" for zs
    using p(3) by (subst takeWhile_append2) auto
  ultimately show ?thesis unfolding c_str_def by metis
qed

lemma BLog_Finish_ok:
  assumes "bl_inv g" "bl_logging g" "channel_ok channel" "level_ok level" "level \<le> snd (bl_channels g ! nat channel)"
  shows "\<exists>g'. BLog_Finish channel level g = Some g' \<and> bl_inv g' \<and> \<not> bl_logging g' \<and> bl_channels g' = bl_channels g \<and>
    bl_log_func g' = bl_log_func g \<and> bl_out g' = bl_out (call_log_func channel level (bl_text g) g)"
proof -
  have l: "int (length (bl_logbuf g)) = LOGBUF_SIZE" "0 \<le> bl_logbuf_pos g" "bl_logbuf_pos g < LOGBUF_SIZE" "bl_initialized g" "bl_locked g"
    "bl_logbuf g ! nat (bl_logbuf_pos g) = CHR 0x00" using assms(1,2) by (auto simp: bl_inv_def)
  then have p: "nat (bl_logbuf_pos g) < length (bl_logbuf g)" by simp
  have r: "mem_read (bl_logbuf g) (bl_logbuf_pos g) 1 = Some [CHR 0x00]"
    using l p by (simp add: mem_read_def take_Suc hd_drop_conv_nth)
  have w: "mem_write (bl_logbuf g) 0 [CHR 0x00] = Some (CHR 0x00 # drop 1 (bl_logbuf g))" using l by (simp add: mem_write_def)
  show ?thesis
    using assms l r w c_str_text [OF assms(1)]
    by (auto simp: BLog_Finish_def BLog_WouldLog_def call_log_func_def Let_def bl_inv_def bl_text_def)
qed

lemma BLog_Begin_ok:
  assumes "bl_inv g" "\<not> bl_logging g"
  shows "\<exists>g'. BLog_Begin g = Some g' \<and> bl_inv g' \<and> bl_logging g' \<and> bl_rest g' = bl_rest g \<and> bl_text g' = []"
  using assms by (auto simp: BLog_Begin_def bl_inv_def bl_rest_def bl_text_def)

lemma call_log_func_out:
  "bl_rest g = bl_rest g' \<Longrightarrow> bl_out (call_log_func channel level msg g) = bl_out (call_log_func channel level msg g')"
  by (simp add: call_log_func_def bl_rest_def Let_def)

text \<open>
  A message goes out exactly when its level passes the channel's, with the first \<open>LOGBUF_SIZE - 1\<close>
  characters of its text, and leaves the buffer ready for the next.
\<close>

lemma BLog_LogViaFunc_ok:
  assumes "bl_inv g" "\<not> bl_logging g" "channel_ok channel" "level_ok level" "CHR 0x00 \<notin> set txt" "CHR 0x00 \<notin> set pre"
    and func: "\<And>h. bl_inv h \<Longrightarrow> bl_logging h \<Longrightarrow> bl_text h = [] \<Longrightarrow> \<exists>h'. func h = Some h' \<and> bl_inv h' \<and> bl_logging h' \<and> bl_rest h' = bl_rest h \<and>
      bl_text h' = take (nat (LOGBUF_SIZE - 1)) pre"
  shows "\<exists>g'. BLog_LogViaFunc func channel level txt g = Some g' \<and> bl_inv g' \<and> \<not> bl_logging g' \<and> bl_channels g' = bl_channels g \<and>
    bl_log_func g' = bl_log_func g \<and>
    bl_out g' = (if level \<le> snd (bl_channels g ! nat channel)
      then bl_out (call_log_func channel level (take (nat (LOGBUF_SIZE - 1)) (pre @ txt)) g) else bl_out g)"
proof (cases "level \<le> snd (bl_channels g ! nat channel)")
  case False
  with assms show ?thesis by (auto simp: BLog_LogViaFunc_def BLog_WouldLog_def bl_inv_def)
next
  case True
  from BLog_Begin_ok [OF assms(1,2)] obtain g1 where
    g1: "BLog_Begin g = Some g1" "bl_inv g1" "bl_logging g1" "bl_rest g1 = bl_rest g" "bl_text g1 = []" by blast
  from func [OF g1(2,3,5)] obtain g2 where
    g2: "func g1 = Some g2" "bl_inv g2" "bl_logging g2" "bl_rest g2 = bl_rest g1" "bl_text g2 = take (nat (LOGBUF_SIZE - 1)) pre" by blast
  from BLog_AppendVarArg_ok [OF g2(2,3) assms(5)] obtain g3 where
    g3: "BLog_AppendVarArg txt g2 = Some g3" "bl_inv g3" "bl_logging g3" "bl_rest g3 = bl_rest g2"
      "bl_text g3 = take (nat (LOGBUF_SIZE - 1)) (pre @ txt)" unfolding g2(5) take_take_append by blast
  have rest: "bl_rest g3 = bl_rest g" using g1 g2 g3 by simp
  then have ch: "bl_channels g3 = bl_channels g" "bl_log_func g3 = bl_log_func g" by (simp_all add: bl_rest_def)
  from BLog_Finish_ok [OF g3(2,3) assms(3,4)] True ch obtain g4 where
    g4: "BLog_Finish channel level g3 = Some g4" "bl_inv g4" "\<not> bl_logging g4" "bl_channels g4 = bl_channels g" "bl_log_func g4 = bl_log_func g"
      "bl_out g4 = bl_out (call_log_func channel level (bl_text g3) g3)" by auto
  have "BLog_LogViaFunc func channel level txt g = Some g4"
    using assms(1-4) True g1(1) g2(1) g3(1) g4(1) by (simp add: BLog_LogViaFunc_def BLog_WouldLog_def bl_inv_def)
  then show ?thesis using g4 True call_log_func_out [OF rest] unfolding g3(5) by metis
qed

lemma BLog_LogToChannel_root: "BLog_LogToChannel channel level txt g = BLog_LogViaFunc BLog_root_logfunc channel level txt g"
  by (simp add: BLog_LogToChannel_def BLog_LogViaFunc_def BLog_root_logfunc_def cong del: if_weak_cong)

lemma BLog_LogToChannel_ok:
  assumes "bl_inv g" "\<not> bl_logging g" "channel_ok channel" "level_ok level" "CHR 0x00 \<notin> set txt"
  shows "\<exists>g'. BLog_LogToChannel channel level txt g = Some g' \<and> bl_inv g' \<and> \<not> bl_logging g' \<and> bl_channels g' = bl_channels g \<and>
    bl_log_func g' = bl_log_func g \<and>
    bl_out g' = (if level \<le> snd (bl_channels g ! nat channel)
      then bl_out (call_log_func channel level (take (nat (LOGBUF_SIZE - 1)) txt) g) else bl_out g)"
  using BLog_LogViaFunc_ok [OF assms, of "[]" BLog_root_logfunc]
  unfolding BLog_LogToChannel_root append_Nil by (simp only: BLog_root_logfunc_def) simp

lemma blog_channel_list_ok:
  "length blog_channel_list = BLOG_NUM_CHANNELS" "list_all (\<lambda>c. 0 \<le> snd c \<and> snd c \<le> BLOG_DEBUG) blog_channel_list"
  by (simp_all add: blog_channel_list_def BLOG_NUM_CHANNELS_def BLOG_DEBUG_def)

lemma BLog_Init_ok:
  assumes "\<not> bl_initialized g" "int (length (bl_logbuf g)) = LOGBUF_SIZE"
  shows "\<exists>g'. BLog_Init f g = Some g' \<and> bl_inv g' \<and> \<not> bl_logging g' \<and> bl_channels g' = blog_channel_list"
  using assms blog_channel_list_ok by (auto simp: BLog_Init_def mem_write_def bl_inv_def bl_text_def LOGBUF_SIZE_def)

lemma BLog_SetChannelLoglevel_ok:
  assumes "bl_inv g" "channel_ok channel" "0 \<le> loglevel" "loglevel \<le> BLOG_DEBUG"
  shows "\<exists>g'. BLog_SetChannelLoglevel channel loglevel g = Some g' \<and> bl_inv g' \<and> bl_logging g' = bl_logging g \<and> bl_out g' = bl_out g \<and>
    map snd (bl_channels g') = (map snd (bl_channels g))[nat channel := loglevel]"
proof (intro exI conjI)
  let ?g = "g\<lparr>bl_channels := (bl_channels g)[nat channel := (fst (bl_channels g ! nat channel), loglevel)]\<rparr>"
  show "BLog_SetChannelLoglevel channel loglevel g = Some ?g" using assms by (simp add: BLog_SetChannelLoglevel_def bl_inv_def Let_def)
  show "bl_inv ?g" using assms by (auto simp: bl_inv_def bl_text_def list_all_length nth_list_update)
qed (simp_all add: map_update)

lemma find_channel_spec:
  "find_channel cs i name = -1 \<and> name \<notin> fst ` set cs \<or>
   (\<exists>k. k < length cs \<and> find_channel cs i name = i + int k \<and> fst (cs ! k) = name)"
proof (induction cs arbitrary: i)
  case (Cons c cs)
  then show ?case
  proof (cases "fst c = name")
    case False
    with Cons.IH [of "i + 1"] show ?thesis by (auto intro: exI [of _ "Suc _"])
  qed (auto intro: exI [of _ 0])
qed simp

lemma BLogGlobal_GetChannelByName_ok:
  "BLogGlobal_GetChannelByName name < 0 \<or> channel_ok (BLogGlobal_GetChannelByName name)"
  using find_channel_spec [of blog_channel_list 0 name] blog_channel_list_ok(1) by (auto simp: BLogGlobal_GetChannelByName_def)

end
