(* ===== verification/Socks_Client.thy ===== *)
theory Socks_Client
  imports Net_Addr Event_Machine
begin

text \<open>
  The SOCKS5 client \<open>socksclient/BSocksClient.c\<close>: connects to the server, sends the list of
  authentication methods, authenticates, requests a connection to the destination and, after the
  server's positive reply, hands the raw connection to its user.

  The record holds the fields of \<open>BSocksClient\<close> and, for each sub-object that is initialised and
  freed (connector, connection, asynchronous I/O of the connection, packet sender), whether it is
  initialised; initialising twice or freeing what is not initialised is a failure.  What the client
  asks of the connection and tells its user is a list of actions.  \<open>sc_step\<close> runs the client
  between the connection and its user.
\<close>

definition SOCKS_VERSION :: byte where
  "SOCKS_VERSION = 5"

definition SOCKS_METHOD_NO_AUTHENTICATION_REQUIRED :: int where
  "SOCKS_METHOD_NO_AUTHENTICATION_REQUIRED = 0"

definition SOCKS_METHOD_USERNAME_PASSWORD :: int where
  "SOCKS_METHOD_USERNAME_PASSWORD = 2"

definition SOCKS_CMD_CONNECT :: byte where
  "SOCKS_CMD_CONNECT = 1"

definition SOCKS_ATYP_IPV4 :: byte where
  "SOCKS_ATYP_IPV4 = 1"

definition SOCKS_ATYP_IPV6 :: byte where
  "SOCKS_ATYP_IPV6 = 4"

definition SOCKS_REP_SUCCEEDED :: byte where
  "SOCKS_REP_SUCCEEDED = 0"

lemmas socks_consts = SOCKS_VERSION_def SOCKS_METHOD_NO_AUTHENTICATION_REQUIRED_def
  SOCKS_METHOD_USERNAME_PASSWORD_def SOCKS_CMD_CONNECT_def SOCKS_ATYP_IPV4_def SOCKS_ATYP_IPV6_def
  SOCKS_REP_SUCCEEDED_def

datatype socks_state =
    STATE_CONNECTING | STATE_SENDING_HELLO | STATE_SENT_HELLO | STATE_SENDING_PASSWORD
  | STATE_SENT_PASSWORD | STATE_SENDING_REQUEST | STATE_SENT_REQUEST | STATE_RECEIVED_REPLY_HEADER
  | STATE_UP

datatype socks_event = BSOCKSCLIENT_EVENT_ERROR | BSOCKSCLIENT_EVENT_UP | BSOCKSCLIENT_EVENT_ERROR_CLOSED

record BSocksClient_auth_info =
  auth_type :: int
  auth_username :: bytes
  auth_password :: bytes

definition BSocksClient_auth_none :: BSocksClient_auth_info where
  "BSocksClient_auth_none =
     \<lparr>auth_type = SOCKS_METHOD_NO_AUTHENTICATION_REQUIRED, auth_username = [], auth_password = []\<rparr>"

definition BSocksClient_auth_password :: "bytes \<Rightarrow> bytes \<Rightarrow> BSocksClient_auth_info" where
  "BSocksClient_auth_password username password =
     \<lparr>auth_type = SOCKS_METHOD_USERNAME_PASSWORD, auth_username = username, auth_password = password\<rparr>"

record BSocksClient =
  sc_auth_info :: "BSocksClient_auth_info list"
  sc_dest_addr :: BAddr
  sc_state :: socks_state
  sc_buffer :: "bytes option"
  sc_recv_dest :: int
  sc_recv_len :: int
  sc_recv_total :: int
  sc_connector :: bool
  sc_con :: bool
  sc_recv_async :: bool
  sc_send_async :: bool
  sc_send_sender :: bool

text \<open>
  \<open>ScSend n\<close> sends the first \<open>n\<close> bytes of the buffer, \<open>ScRecv off n\<close> receives up to \<open>n\<close> bytes into
  the buffer at \<open>off\<close>, \<open>ScReport e\<close> calls the user's handler.
\<close>

datatype sc_action = ScSend int | ScRecv int int | ScReport socks_event

section \<open>Operations\<close>

definition init_control_io :: "BSocksClient \<Rightarrow> BSocksClient option" where
  "init_control_io cl = do {
     ASSERT (sc_con cl \<and> \<not> sc_recv_async cl);
     let cl = cl\<lparr>sc_recv_async := True\<rparr>;
     ASSERT (\<not> sc_send_async cl);
     let cl = cl\<lparr>sc_send_async := True\<rparr>;
     ASSERT (\<not> sc_send_sender cl);
     Some (cl\<lparr>sc_send_sender := True\<rparr>)
   }"

definition free_control_io :: "BSocksClient \<Rightarrow> BSocksClient option" where
  "free_control_io cl = do {
     ASSERT (sc_send_sender cl);
     let cl = cl\<lparr>sc_send_sender := False\<rparr>;
     ASSERT (sc_send_async cl);
     let cl = cl\<lparr>sc_send_async := False\<rparr>;
     ASSERT (sc_recv_async cl);
     Some (cl\<lparr>sc_recv_async := False\<rparr>)
   }"

definition init_up_io :: "BSocksClient \<Rightarrow> BSocksClient option" where
  "init_up_io cl = do {
     ASSERT (sc_con cl \<and> \<not> sc_recv_async cl);
     let cl = cl\<lparr>sc_recv_async := True\<rparr>;
     ASSERT (\<not> sc_send_async cl);
     Some (cl\<lparr>sc_send_async := True\<rparr>)
   }"

definition free_up_io :: "BSocksClient \<Rightarrow> BSocksClient option" where
  "free_up_io cl = do {
     ASSERT (sc_send_async cl);
     let cl = cl\<lparr>sc_send_async := False\<rparr>;
     ASSERT (sc_recv_async cl);
     Some (cl\<lparr>sc_recv_async := False\<rparr>)
   }"

text \<open>
  \<open>BRealloc b n\<close> is the allocator: \<open>None\<close> when it fails, otherwise memory of \<open>n\<close> bytes.  The flag
  of the result of \<open>reserve_buffer\<close> is the return value of the C function.
\<close>

type_synonym realloc = "bytes option \<Rightarrow> int \<Rightarrow> bytes option"

definition reserve_buffer :: "realloc \<Rightarrow> bsize_t \<Rightarrow> BSocksClient \<Rightarrow> bool \<times> BSocksClient" where
  "reserve_buffer BRealloc sz cl =
     (if is_overflow sz then (False, cl)
      else case BRealloc (sc_buffer cl) (bsize_value sz) of
             None \<Rightarrow> (False, cl)
           | Some buffer \<Rightarrow> (True, cl\<lparr>sc_buffer := Some buffer\<rparr>))"

definition do_receive :: "BSocksClient \<Rightarrow> (sc_action list \<times> BSocksClient) option" where
  "do_receive cl = do {
     ASSERT (sc_recv_len cl < sc_recv_total cl);
     Some ([ScRecv (sc_recv_dest cl + sc_recv_len cl) (sc_recv_total cl - sc_recv_len cl)], cl)
   }"

definition start_receive :: "int \<Rightarrow> int \<Rightarrow> BSocksClient \<Rightarrow> (sc_action list \<times> BSocksClient) option" where
  "start_receive dest n cl = do {
     ASSERT (n > 0);
     do_receive (cl\<lparr>sc_recv_dest := dest, sc_recv_len := 0, sc_recv_total := n\<rparr>)
   }"

text \<open>A store into the buffer: fails when there is no buffer or the bytes do not fit.\<close>

definition buffer_write :: "int \<Rightarrow> bytes \<Rightarrow> BSocksClient \<Rightarrow> BSocksClient option" where
  "buffer_write off bs cl = do {
     b \<leftarrow> sc_buffer cl;
     b \<leftarrow> mem_write b off bs;
     Some (cl\<lparr>sc_buffer := Some b\<rparr>)
   }"

definition buffer_read :: "int \<Rightarrow> int \<Rightarrow> BSocksClient \<Rightarrow> bytes option" where
  "buffer_read off n cl = do {
     b \<leftarrow> sc_buffer cl;
     mem_read b off n
   }"

primrec write_methods :: "BSocksClient_auth_info list \<Rightarrow> int \<Rightarrow> BSocksClient \<Rightarrow> BSocksClient option" where
  "write_methods [] i cl = Some cl"
| "write_methods (ai # ais) i cl = do {
     cl \<leftarrow> buffer_write (2 + i * 1) [word_of_int (auth_type ai)] cl;
     write_methods ais (i + 1) cl
   }"

text \<open>
  \<open>con_init_ok\<close> is the result of \<open>BConnection_Init\<close>.  The labels \<open>fail1\<close> and \<open>fail0\<close> are the
  local functions of these names.
\<close>

definition BSocksClient_connector_handler ::
  "realloc \<Rightarrow> bool \<Rightarrow> bool \<Rightarrow> BSocksClient \<Rightarrow> (sc_action list \<times> BSocksClient) option" where
  "BSocksClient_connector_handler BRealloc con_init_ok is_error cl =
     (let fail0 = (\<lambda>cl. Some ([ScReport BSOCKSCLIENT_EVENT_ERROR], cl));
          fail1 = (\<lambda>cl. do {
            cl \<leftarrow> free_control_io cl;
            ASSERT (sc_con cl);
            fail0 (cl\<lparr>sc_con := False\<rparr>)
          })
      in do {
     ASSERT (sc_state cl = STATE_CONNECTING);
     if is_error then fail0 cl
     else if \<not> con_init_ok then fail0 cl
     else do {
       cl \<leftarrow> init_control_io (cl\<lparr>sc_con := True\<rparr>);
       let num_auth_info = int (length (sc_auth_info cl));
       if num_auth_info = 0 \<or> num_auth_info > 255 then fail1 cl
       else do {
         let size = bsize_add (bsize_fromsize 2) (bsize_mul (bsize_fromsize num_auth_info) (bsize_fromsize 1));
         let (reserved, cl) = reserve_buffer BRealloc size cl;
         if \<not> reserved then fail1 cl
         else do {
           cl \<leftarrow> buffer_write 0 [SOCKS_VERSION, word_of_int num_auth_info] cl;
           cl \<leftarrow> write_methods (sc_auth_info cl) 0 cl;
           Some ([ScSend (bsize_value size)], cl\<lparr>sc_state := STATE_SENDING_HELLO\<rparr>)
         }
       }
     }
   })"

text \<open>\<open>recv_closed\<close>: the event is \<open>BCONNECTION_EVENT_RECVCLOSED\<close>.\<close>

definition BSocksClient_connection_handler ::
  "bool \<Rightarrow> BSocksClient \<Rightarrow> (sc_action list \<times> BSocksClient) option" where
  "BSocksClient_connection_handler recv_closed cl = do {
     ASSERT (sc_state cl \<noteq> STATE_CONNECTING);
     if sc_state cl = STATE_UP \<and> recv_closed
     then Some ([ScReport BSOCKSCLIENT_EVENT_ERROR_CLOSED], cl)
     else Some ([ScReport BSOCKSCLIENT_EVENT_ERROR], cl)
   }"

definition auth_finished :: "realloc \<Rightarrow> BSocksClient \<Rightarrow> (sc_action list \<times> BSocksClient) option" where
  "auth_finished BRealloc cl = do {
     let size = bsize_fromsize 4;
     let size = (case sc_dest_addr cl of
                   BADDR_TYPE_IPV4 _ _ \<Rightarrow> bsize_add size (bsize_fromsize 6)
                 | BADDR_TYPE_IPV6 _ _ \<Rightarrow> bsize_add size (bsize_fromsize 18)
                 | _ \<Rightarrow> size);
     let (reserved, cl) = reserve_buffer BRealloc size cl;
     if \<not> reserved then Some ([ScReport BSOCKSCLIENT_EVENT_ERROR], cl)
     else do {
       (atyp, cl) \<leftarrow> (case sc_dest_addr cl of
           BADDR_TYPE_IPV4 ip port \<Rightarrow> do {
             cl \<leftarrow> buffer_write 4 (le32_bytes ip @ le16_bytes port) cl;
             Some (SOCKS_ATYP_IPV4, cl)
           }
         | BADDR_TYPE_IPV6 ip port \<Rightarrow> do {
             cl \<leftarrow> buffer_write 4 (ip @ le16_bytes port) cl;
             Some (SOCKS_ATYP_IPV6, cl)
           }
         | _ \<Rightarrow> None);
       cl \<leftarrow> buffer_write 0 [SOCKS_VERSION, SOCKS_CMD_CONNECT, 0, atyp] cl;
       Some ([ScSend (bsize_value size)], cl\<lparr>sc_state := STATE_SENDING_REQUEST\<rparr>)
     }
   }"

primrec find_auth :: "BSocksClient_auth_info list \<Rightarrow> int \<Rightarrow> BSocksClient_auth_info option" where
  "find_auth [] method = None"
| "find_auth (ai # ais) method = (if auth_type ai = method then Some ai else find_auth ais method)"

text \<open>The branch of \<open>recv_handler_done\<close> for a password method, from the length check on.\<close>

definition send_password ::
  "realloc \<Rightarrow> BSocksClient_auth_info \<Rightarrow> BSocksClient \<Rightarrow> (sc_action list \<times> BSocksClient) option" where
  "send_password BRealloc ai cl =
     (let username_len = int (length (auth_username ai));
          password_len = int (length (auth_password ai))
      in if username_len = 0 \<or> username_len > 255 \<or> password_len = 0 \<or> password_len > 255
         then Some ([ScReport BSOCKSCLIENT_EVENT_ERROR], cl)
         else do {
           let size = bsize_fromsize (1 + 1 + username_len + 1 + password_len);
           let (reserved, cl) = reserve_buffer BRealloc size cl;
           if \<not> reserved then Some ([ScReport BSOCKSCLIENT_EVENT_ERROR], cl)
           else do {
             let p = 0;
             cl \<leftarrow> buffer_write p [1] cl;
             let p = p + 1;
             cl \<leftarrow> buffer_write p [word_of_int username_len] cl;
             let p = p + 1;
             cl \<leftarrow> buffer_write p (auth_username ai) cl;
             let p = p + username_len;
             cl \<leftarrow> buffer_write p [word_of_int password_len] cl;
             let p = p + 1;
             cl \<leftarrow> buffer_write p (auth_password ai) cl;
             Some ([ScSend (bsize_value size)], cl\<lparr>sc_state := STATE_SENDING_PASSWORD\<rparr>)
           }
         })"

definition BSocksClient_recv_handler_done ::
  "realloc \<Rightarrow> int \<Rightarrow> BSocksClient \<Rightarrow> (sc_action list \<times> BSocksClient) option" where
  "BSocksClient_recv_handler_done BRealloc data_len cl =
     (let fail = (\<lambda>cl. Some ([ScReport BSOCKSCLIENT_EVENT_ERROR], cl)) in do {
     ASSERT (data_len \<ge> 0);
     ASSERT (data_len \<le> sc_recv_total cl - sc_recv_len cl);
     let cl = cl\<lparr>sc_recv_len := sc_recv_len cl + data_len\<rparr>;
     if sc_recv_len cl < sc_recv_total cl then do_receive cl
     else case sc_state cl of
       STATE_SENT_HELLO \<Rightarrow> do {
         imsg \<leftarrow> buffer_read 0 2 cl;
         if imsg ! 0 \<noteq> SOCKS_VERSION then fail cl
         else case find_auth (sc_auth_info cl) (uint (imsg ! 1)) of
           None \<Rightarrow> fail cl
         | Some ai \<Rightarrow>
             if auth_type ai = SOCKS_METHOD_NO_AUTHENTICATION_REQUIRED then auth_finished BRealloc cl
             else if auth_type ai = SOCKS_METHOD_USERNAME_PASSWORD then send_password BRealloc ai cl
             else None
       }
     | STATE_SENT_REQUEST \<Rightarrow> do {
         imsg \<leftarrow> buffer_read 0 4 cl;
         if imsg ! 0 \<noteq> SOCKS_VERSION then fail cl
         else if imsg ! 1 \<noteq> SOCKS_REP_SUCCEEDED then fail cl
         else if imsg ! 3 = SOCKS_ATYP_IPV4 \<or> imsg ! 3 = SOCKS_ATYP_IPV6 then do {
           let addr_len = (if imsg ! 3 = SOCKS_ATYP_IPV4 then 6 else 18);
           (acts, cl) \<leftarrow> start_receive 4 addr_len cl;
           Some (acts, cl\<lparr>sc_state := STATE_RECEIVED_REPLY_HEADER\<rparr>)
         }
         else fail cl
       }
     | STATE_SENT_PASSWORD \<Rightarrow> do {
         b0 \<leftarrow> buffer_read 0 1 cl;
         if b0 \<noteq> [1] then fail cl
         else do {
           b1 \<leftarrow> buffer_read 1 1 cl;
           if b1 \<noteq> [0] then fail cl
           else auth_finished BRealloc cl
         }
       }
     | STATE_RECEIVED_REPLY_HEADER \<Rightarrow> do {
         let cl = cl\<lparr>sc_buffer := None\<rparr>;
         cl \<leftarrow> free_control_io cl;
         cl \<leftarrow> init_up_io cl;
         Some ([ScReport BSOCKSCLIENT_EVENT_UP], cl\<lparr>sc_state := STATE_UP\<rparr>)
       }
     | _ \<Rightarrow> None
   })"

definition BSocksClient_send_handler_done ::
  "realloc \<Rightarrow> BSocksClient \<Rightarrow> (sc_action list \<times> BSocksClient) option" where
  "BSocksClient_send_handler_done BRealloc cl =
     (let fail = (\<lambda>cl. Some ([ScReport BSOCKSCLIENT_EVENT_ERROR], cl));
          receive = (\<lambda>size n st. do {
            let (reserved, cl) = reserve_buffer BRealloc size cl;
            if \<not> reserved then fail cl
            else do {
              (acts, cl) \<leftarrow> start_receive 0 n cl;
              Some (acts, cl\<lparr>sc_state := st\<rparr>)
            }
          })
      in do {
     ASSERT (sc_buffer cl \<noteq> None);
     case sc_state cl of
       STATE_SENDING_HELLO \<Rightarrow>
         (let size = bsize_fromsize 2 in receive size (bsize_value size) STATE_SENT_HELLO)
     | STATE_SENDING_REQUEST \<Rightarrow>
         (let size = bsize_add (bsize_fromsize 4) (bsize_max (bsize_fromsize 6) (bsize_fromsize 18))
          in receive size 4 STATE_SENT_REQUEST)
     | STATE_SENDING_PASSWORD \<Rightarrow>
         (let size = bsize_fromsize 2 in receive size (bsize_value size) STATE_SENT_PASSWORD)
     | _ \<Rightarrow> None
   })"

text \<open>
  \<open>connector_init_ok\<close> is the result of \<open>BConnector_Init\<close>; the inner \<open>None\<close> is the return value 0.
\<close>

definition BSocksClient_Init ::
  "bool \<Rightarrow> BAddr \<Rightarrow> BSocksClient_auth_info list \<Rightarrow> BAddr \<Rightarrow> BSocksClient option option" where
  "BSocksClient_Init connector_init_ok server_addr auth_info dest_addr = do {
     ASSERT (\<not> BAddr_IsInvalid server_addr);
     ASSERT (case dest_addr of BADDR_TYPE_NONE \<Rightarrow> False | _ \<Rightarrow> True);
     ASSERT (\<forall>ai\<in>set auth_info. auth_type ai = SOCKS_METHOD_NO_AUTHENTICATION_REQUIRED \<or>
                               auth_type ai = SOCKS_METHOD_USERNAME_PASSWORD);
     if \<not> connector_init_ok then Some None
     else Some (Some \<lparr>sc_auth_info = auth_info, sc_dest_addr = dest_addr, sc_state = STATE_CONNECTING,
       sc_buffer = None, sc_recv_dest = 0, sc_recv_len = 0, sc_recv_total = 0, sc_connector = True,
       sc_con = False, sc_recv_async = False, sc_send_async = False, sc_send_sender = False\<rparr>)
   }"

definition BSocksClient_Free :: "BSocksClient \<Rightarrow> BSocksClient option" where
  "BSocksClient_Free cl = do {
     cl \<leftarrow> (if sc_state cl \<noteq> STATE_CONNECTING then do {
              cl \<leftarrow> (if sc_state cl = STATE_UP then free_up_io cl else free_control_io cl);
              ASSERT (sc_con cl);
              Some (cl\<lparr>sc_con := False\<rparr>)
            } else Some cl);
     ASSERT (sc_connector cl);
     let cl = cl\<lparr>sc_connector := False\<rparr>;
     Some (if sc_buffer cl \<noteq> None then cl\<lparr>sc_buffer := None\<rparr> else cl)
   }"

text \<open>The connection's own interfaces, for the user, once the client is up.\<close>

definition BSocksClient_GetSendInterface :: "BSocksClient \<Rightarrow> unit option" where
  "BSocksClient_GetSendInterface cl = do {
     ASSERT (sc_state cl = STATE_UP);
     ASSERT (sc_send_async cl)
   }"

definition BSocksClient_GetRecvInterface :: "BSocksClient \<Rightarrow> unit option" where
  "BSocksClient_GetRecvInterface cl = do {
     ASSERT (sc_state cl = STATE_UP);
     ASSERT (sc_recv_async cl)
   }"

section \<open>Messages\<close>

definition hello_msg :: "BSocksClient_auth_info list \<Rightarrow> bytes" where
  "hello_msg ais = [SOCKS_VERSION, of_nat (length ais)] @ map (\<lambda>ai. word_of_int (auth_type ai)) ais"

definition password_msg :: "BSocksClient_auth_info \<Rightarrow> bytes" where
  "password_msg ai = [1, of_nat (length (auth_username ai))] @ auth_username ai @
     [of_nat (length (auth_password ai))] @ auth_password ai"

primrec request_msg :: "BAddr \<Rightarrow> bytes" where
  "request_msg BADDR_TYPE_NONE = []"
| "request_msg (BADDR_TYPE_IPV4 ip port) = [5, 1, 0, 1] @ le32_bytes ip @ le16_bytes port"
| "request_msg (BADDR_TYPE_IPV6 ip port) = [5, 1, 0, 4] @ ip @ le16_bytes port"

definition sc_wf :: "BSocksClient \<Rightarrow> bool" where
  "sc_wf cl \<longleftrightarrow> BAddr_wf (sc_dest_addr cl) \<and> sc_dest_addr cl \<noteq> BADDR_TYPE_NONE \<and>
     (\<forall>ai\<in>set (sc_auth_info cl). auth_type ai = SOCKS_METHOD_NO_AUTHENTICATION_REQUIRED \<or>
                               auth_type ai = SOCKS_METHOD_USERNAME_PASSWORD)"

definition realloc_ok :: "realloc \<Rightarrow> bool" where
  "realloc_ok BRealloc \<longleftrightarrow> (\<forall>b n m. 0 \<le> n \<longrightarrow> BRealloc b n = Some m \<longrightarrow> int (length m) = n)"

lemma reserve_buffer_cases:
  assumes "realloc_ok BRealloc" "\<not> is_overflow sz" "0 \<le> bsize_value sz"
  obtains "reserve_buffer BRealloc sz cl = (False, cl)"
    | b where "reserve_buffer BRealloc sz cl = (True, cl\<lparr>sc_buffer := Some b\<rparr>)" "int (length b) = bsize_value sz"
  using assms by (cases "BRealloc (sc_buffer cl) (bsize_value sz)") (auto simp: reserve_buffer_def realloc_ok_def)

lemma buffer_write_append:
  assumes "sc_buffer cl = Some (pre @ rest)" "off = int (length pre)" "length ys \<le> length rest"
  shows "buffer_write off ys cl = Some (cl\<lparr>sc_buffer := Some ((pre @ ys) @ drop (length ys) rest)\<rparr>)"
  using assms by (simp add: buffer_write_def mem_write_def)

lemma write_methods_buffer:
  assumes "sc_buffer cl = Some (pre @ rest)" "2 + i = int (length pre)" "length rest = length ais"
  shows "write_methods ais i cl = Some (cl\<lparr>sc_buffer := Some (pre @ map (\<lambda>ai. word_of_int (auth_type ai)) ais)\<rparr>)"
  using assms
proof (induction ais arbitrary: pre rest i cl)
  case Nil
  then show ?case by simp
next
  case (Cons ai ais)
  let ?w = "[word_of_int (auth_type ai)] :: bytes"
  let ?cl = "cl\<lparr>sc_buffer := Some ((pre @ ?w) @ drop 1 rest)\<rparr>"
  have "buffer_write (2 + i) ?w cl = Some ?cl"
    using buffer_write_append [OF Cons.prems(1), of "2 + i" ?w] Cons.prems by simp
  moreover have "write_methods ais (i + 1) ?cl =
      Some (?cl\<lparr>sc_buffer := Some ((pre @ ?w) @ map (\<lambda>ai. word_of_int (auth_type ai)) ais)\<rparr>)"
    using Cons.prems by (intro Cons.IH [of ?cl "pre @ ?w" "drop 1 rest"]) auto
  ultimately show ?case by simp
qed

lemma auth_finished_cases:
  assumes "sc_wf cl" "realloc_ok BRealloc"
  obtains "auth_finished BRealloc cl = Some ([ScReport BSOCKSCLIENT_EVENT_ERROR], cl)"
    | "auth_finished BRealloc cl = Some ([ScSend (int (length (request_msg (sc_dest_addr cl))))],
        cl\<lparr>sc_buffer := Some (request_msg (sc_dest_addr cl)), sc_state := STATE_SENDING_REQUEST\<rparr>)"
proof (cases "sc_dest_addr cl")
  case BADDR_TYPE_NONE
  with assms show ?thesis by (simp add: sc_wf_def)
next
  case (BADDR_TYPE_IPV4 ip port)
  let ?sz = "bsize_add (bsize_fromsize 4) (bsize_fromsize 6)"
  have sz: "\<not> is_overflow ?sz" "bsize_value ?sz = 10" by (simp_all add: bsize_defs SIZE_MAX_def)
  show ?thesis
  proof (rule reserve_buffer_cases [OF assms(2) sz(1), of cl])
    show "0 \<le> bsize_value ?sz" by (simp add: sz)
  next
    assume "reserve_buffer BRealloc ?sz cl = (False, cl)"
    with BADDR_TYPE_IPV4 show thesis by (intro that(1)) (simp add: auth_finished_def)
  next
    fix b assume b: "reserve_buffer BRealloc ?sz cl = (True, cl\<lparr>sc_buffer := Some b\<rparr>)" "int (length b) = bsize_value ?sz"
    with BADDR_TYPE_IPV4 sz show thesis
      by (intro that(2)) (simp add: auth_finished_def buffer_write_def mem_write_def socks_consts)
  qed
next
  case (BADDR_TYPE_IPV6 ip port)
  then have ip: "length ip = 16" using assms(1) by (simp add: sc_wf_def)
  let ?sz = "bsize_add (bsize_fromsize 4) (bsize_fromsize 18)"
  have sz: "\<not> is_overflow ?sz" "bsize_value ?sz = 22" by (simp_all add: bsize_defs SIZE_MAX_def)
  show ?thesis
  proof (rule reserve_buffer_cases [OF assms(2) sz(1), of cl])
    show "0 \<le> bsize_value ?sz" by (simp add: sz)
  next
    assume "reserve_buffer BRealloc ?sz cl = (False, cl)"
    with BADDR_TYPE_IPV6 show thesis by (intro that(1)) (simp add: auth_finished_def)
  next
    fix b assume b: "reserve_buffer BRealloc ?sz cl = (True, cl\<lparr>sc_buffer := Some b\<rparr>)" "int (length b) = bsize_value ?sz"
    with BADDR_TYPE_IPV6 sz ip show thesis
      by (intro that(2)) (simp add: auth_finished_def buffer_write_def mem_write_def socks_consts)
  qed
qed

definition password_ok :: "BSocksClient_auth_info \<Rightarrow> bool" where
  "password_ok ai \<longleftrightarrow> auth_username ai \<noteq> [] \<and> length (auth_username ai) \<le> 255 \<and>
     auth_password ai \<noteq> [] \<and> length (auth_password ai) \<le> 255"

lemma send_password_cases:
  assumes "realloc_ok BRealloc"
  obtains "send_password BRealloc ai cl = Some ([ScReport BSOCKSCLIENT_EVENT_ERROR], cl)"
    | "send_password BRealloc ai cl = Some ([ScSend (int (length (password_msg ai)))],
        cl\<lparr>sc_buffer := Some (password_msg ai), sc_state := STATE_SENDING_PASSWORD\<rparr>)" "password_ok ai"
proof (cases "password_ok ai")
  case False
  then show ?thesis by (intro that(1)) (auto simp: send_password_def password_ok_def Let_def)
next
  case True
  let ?u = "auth_username ai" and ?p = "auth_password ai"
  let ?sz = "bsize_fromsize (1 + 1 + int (length ?u) + 1 + int (length ?p))"
  have sz: "\<not> is_overflow ?sz" "0 \<le> bsize_value ?sz" by (simp_all add: bsize_defs)
  show ?thesis
  proof (rule reserve_buffer_cases [OF assms sz, of cl])
    assume "reserve_buffer BRealloc ?sz cl = (False, cl)"
    with True show thesis by (intro that(1)) (auto simp: send_password_def password_ok_def Let_def)
  next
    fix b assume b: "reserve_buffer BRealloc ?sz cl = (True, cl\<lparr>sc_buffer := Some b\<rparr>)" "int (length b) = bsize_value ?sz"
    then have len: "length b = 3 + length ?u + length ?p" by (simp add: bsize_defs)
    with b(1) True show thesis
      by (intro that(2)) (auto simp: send_password_def password_ok_def Let_def password_msg_def bsize_fromsize_def
          buffer_write_def mem_write_def nat_add_distrib numeral_2_eq_2 numeral_3_eq_3)
  qed
qed

section \<open>The client between connection and user\<close>

text \<open>
  \<open>sg_recv\<close> and \<open>sg_send\<close> are the operations the connection is working on, \<open>sg_sent\<close> the messages it
  has sent (read from the client's buffer when it is done), \<open>sg_rcvd\<close> the bytes the server has sent,
  \<open>sg_events\<close> the calls of the user's handler.
\<close>

record sc_config =
  sg_cl :: BSocksClient
  sg_recv :: "(int \<times> int) option"
  sg_send :: "int option"
  sg_sent :: "bytes list"
  sg_rcvd :: bytes
  sg_events :: "socks_event list"

datatype sc_env = Connected bool bool | SendDone | RecvDone bytes | ConEvent bool

primrec sc_perform :: "sc_action \<Rightarrow> sc_config \<Rightarrow> sc_config option" where
  "sc_perform (ScSend n) g = do {
     ASSERT (sc_send_sender (sg_cl g) \<and> sg_send g = None);
     Some (g\<lparr>sg_send := Some n\<rparr>)
   }"
| "sc_perform (ScRecv off n) g = do {
     ASSERT (sc_recv_async (sg_cl g) \<and> sg_recv g = None \<and> 0 < n);
     Some (g\<lparr>sg_recv := Some (off, n)\<rparr>)
   }"
| "sc_perform (ScReport e) g = Some (g\<lparr>sg_events := sg_events g @ [e]\<rparr>)"

primrec sc_performs :: "sc_action list \<Rightarrow> sc_config \<Rightarrow> sc_config option" where
  "sc_performs [] g = Some g"
| "sc_performs (a # as) g = sc_perform a g \<bind> sc_performs as"

primrec sc_step :: "realloc \<Rightarrow> sc_env \<Rightarrow> sc_config \<Rightarrow> sc_config option" where
  "sc_step BRealloc (Connected is_error ok) g = do {
     (acts, cl) \<leftarrow> BSocksClient_connector_handler BRealloc ok is_error (sg_cl g);
     sc_performs acts (g\<lparr>sg_cl := cl\<rparr>)
   }"
| "sc_step BRealloc SendDone g = do {
     n \<leftarrow> sg_send g;
     msg \<leftarrow> buffer_read 0 n (sg_cl g);
     (acts, cl) \<leftarrow> BSocksClient_send_handler_done BRealloc (sg_cl g);
     sc_performs acts (g\<lparr>sg_cl := cl, sg_send := None, sg_sent := sg_sent g @ [msg]\<rparr>)
   }"
| "sc_step BRealloc (RecvDone bs) g = do {
     (off, n) \<leftarrow> sg_recv g;
     cl \<leftarrow> buffer_write off bs (sg_cl g);
     (acts, cl) \<leftarrow> BSocksClient_recv_handler_done BRealloc (int (length bs)) cl;
     sc_performs acts (g\<lparr>sg_cl := cl, sg_recv := None, sg_rcvd := sg_rcvd g @ bs\<rparr>)
   }"
| "sc_step BRealloc (ConEvent recv_closed) g = do {
     (acts, cl) \<leftarrow> BSocksClient_connection_handler recv_closed (sg_cl g);
     sc_performs acts (g\<lparr>sg_cl := cl\<rparr>)
   }"

definition sc_failed :: "sc_config \<Rightarrow> bool" where
  "sc_failed g \<longleftrightarrow> BSOCKSCLIENT_EVENT_ERROR \<in> set (sg_events g) \<or> BSOCKSCLIENT_EVENT_ERROR_CLOSED \<in> set (sg_events g)"

text \<open>After an error has been reported the user frees the client and nothing happens any more.\<close>

fun sc_legal :: "sc_env \<Rightarrow> sc_config \<Rightarrow> bool" where
  "sc_legal (Connected is_error ok) g = (\<not> sc_failed g \<and> sc_state (sg_cl g) = STATE_CONNECTING)"
| "sc_legal SendDone g = (\<not> sc_failed g \<and> sg_send g \<noteq> None)"
| "sc_legal (RecvDone bs) g = (\<not> sc_failed g \<and> bs \<noteq> [] \<and>
     (case sg_recv g of None \<Rightarrow> False | Some (off, n) \<Rightarrow> int (length bs) \<le> n))"
| "sc_legal (ConEvent recv_closed) g = (\<not> sc_failed g \<and> sc_state (sg_cl g) \<noteq> STATE_CONNECTING)"

definition sc_start :: "BSocksClient \<Rightarrow> sc_config" where
  "sc_start cl = \<lparr>sg_cl = cl, sg_recv = None, sg_send = None, sg_sent = [], sg_rcvd = [], sg_events = []\<rparr>"

section \<open>Invariant\<close>

text \<open>The sub-objects that are initialised in each state.\<close>

definition sc_resources :: "BSocksClient \<Rightarrow> bool" where
  "sc_resources cl \<longleftrightarrow> sc_connector cl \<and> sc_con cl = (sc_state cl \<noteq> STATE_CONNECTING) \<and>
     sc_recv_async cl = sc_con cl \<and> sc_send_async cl = sc_con cl \<and>
     sc_send_sender cl = (sc_state cl \<noteq> STATE_CONNECTING \<and> sc_state cl \<noteq> STATE_UP)"

definition sc_sending :: "bytes \<Rightarrow> sc_config \<Rightarrow> bool" where
  "sc_sending msg g \<longleftrightarrow> sc_buffer (sg_cl g) = Some msg \<and> sg_send g = Some (int (length msg)) \<and> sg_recv g = None"

text \<open>\<open>len\<close> bytes are being received at \<open>dest\<close> of a buffer of \<open>size\<close> bytes; \<open>part\<close> has arrived.\<close>

definition sc_receiving :: "nat \<Rightarrow> nat \<Rightarrow> nat \<Rightarrow> bytes \<Rightarrow> sc_config \<Rightarrow> bool" where
  "sc_receiving sz dest len part g \<longleftrightarrow> (\<exists>b. sc_buffer (sg_cl g) = Some b \<and> length b = sz \<and>
     part = take (length part) (drop dest b) \<and> length part < len \<and> dest + len \<le> sz \<and>
     sc_recv_dest (sg_cl g) = int dest \<and> sc_recv_len (sg_cl g) = int (length part) \<and>
     sc_recv_total (sg_cl g) = int len) \<and> sg_send g = None \<and>
     sg_recv g = Some (int (dest + length part), int (len - length part))"

text \<open>The messages exchanged up to and including the authentication.\<close>

definition sc_authenticated :: "BSocksClient_auth_info list \<Rightarrow> bytes list \<Rightarrow> bytes \<Rightarrow> bool" where
  "sc_authenticated ais sent rcvd \<longleftrightarrow>
     find_auth ais 0 \<noteq> None \<and> sent = [hello_msg ais] \<and> rcvd = [5, 0] \<or>
     (\<exists>ai. find_auth ais 2 = Some ai \<and> password_ok ai \<and>
        sent = [hello_msg ais, password_msg ai] \<and> rcvd = [5, 2, 1, 0])"

definition reply_addr_len :: "byte \<Rightarrow> nat" where
  "reply_addr_len atyp = (if atyp = SOCKS_ATYP_IPV4 then 6 else 18)"

text \<open>Where client and server are in the protocol.\<close>

definition sc_talk :: "sc_config \<Rightarrow> bool" where
  "sc_talk g \<longleftrightarrow>
     (let cl = sg_cl g; ais = sc_auth_info cl; sent = sg_sent g; rcvd = sg_rcvd g;
          rq = request_msg (sc_dest_addr cl)
      in case sc_state cl of
        STATE_CONNECTING \<Rightarrow> sent = [] \<and> rcvd = [] \<and> sg_send g = None \<and> sg_recv g = None
      | STATE_SENDING_HELLO \<Rightarrow> sent = [] \<and> rcvd = [] \<and> sc_sending (hello_msg ais) g
      | STATE_SENT_HELLO \<Rightarrow> sent = [hello_msg ais] \<and> sc_receiving 2 0 2 rcvd g
      | STATE_SENDING_PASSWORD \<Rightarrow> (\<exists>ai. find_auth ais 2 = Some ai \<and> password_ok ai \<and>
          sent = [hello_msg ais] \<and> rcvd = [5, 2] \<and> sc_sending (password_msg ai) g)
      | STATE_SENT_PASSWORD \<Rightarrow> (\<exists>ai part. find_auth ais 2 = Some ai \<and> password_ok ai \<and>
          sent = [hello_msg ais, password_msg ai] \<and> rcvd = [5, 2] @ part \<and> sc_receiving 2 0 2 part g)
      | STATE_SENDING_REQUEST \<Rightarrow> sc_authenticated ais sent rcvd \<and> sc_sending rq g
      | STATE_SENT_REQUEST \<Rightarrow> (\<exists>s r part. sc_authenticated ais s r \<and> sent = s @ [rq] \<and> rcvd = r @ part \<and>
          sc_receiving 22 0 4 part g)
      | STATE_RECEIVED_REPLY_HEADER \<Rightarrow> (\<exists>s r rsv atyp part. sc_authenticated ais s r \<and> sent = s @ [rq] \<and>
          rcvd = r @ [5, 0, rsv, atyp] @ part \<and> atyp \<in> {SOCKS_ATYP_IPV4, SOCKS_ATYP_IPV6} \<and>
          sc_receiving 22 4 (reply_addr_len atyp) part g)
      | STATE_UP \<Rightarrow> (\<exists>s r rsv atyp addr. sc_authenticated ais s r \<and> sent = s @ [rq] \<and>
          rcvd = r @ [5, 0, rsv, atyp] @ addr \<and> atyp \<in> {SOCKS_ATYP_IPV4, SOCKS_ATYP_IPV6} \<and>
          length addr = reply_addr_len atyp \<and> sc_buffer cl = None \<and> sg_send g = None \<and> sg_recv g = None))"

definition sc_inv :: "sc_config \<Rightarrow> bool" where
  "sc_inv g \<longleftrightarrow> sc_wf (sg_cl g) \<and> sc_resources (sg_cl g) \<and>
     (sc_failed g \<or> sc_talk g \<and>
        sg_events g = (if sc_state (sg_cl g) = STATE_UP then [BSOCKSCLIENT_EVENT_UP] else []))"

lemma hello_cases:
  assumes "sc_wf cl" "sc_resources cl" "sc_state cl = STATE_CONNECTING" "realloc_ok BRealloc"
  obtains "BSocksClient_connector_handler BRealloc ok is_error cl = Some ([ScReport BSOCKSCLIENT_EVENT_ERROR], cl)"
    | "BSocksClient_connector_handler BRealloc ok is_error cl = Some ([ScSend (int (length (hello_msg (sc_auth_info cl))))],
        cl\<lparr>sc_con := True, sc_recv_async := True, sc_send_async := True, sc_send_sender := True,
           sc_buffer := Some (hello_msg (sc_auth_info cl)), sc_state := STATE_SENDING_HELLO\<rparr>)"
proof -
  let ?n = "int (length (sc_auth_info cl))"
  let ?cl = "cl\<lparr>sc_con := True, sc_recv_async := True, sc_send_async := True, sc_send_sender := True\<rparr>"
  let ?sz = "bsize_add (bsize_fromsize 2) (bsize_mul (bsize_fromsize ?n) (bsize_fromsize 1))"
  let ?fail = "Some ([ScReport BSOCKSCLIENT_EVENT_ERROR], cl)"
  have r: "sc_con cl = False" "sc_recv_async cl = False" "sc_send_async cl = False" "sc_send_sender cl = False"
    using assms(2,3) by (simp_all add: sc_resources_def)
  have undo: "?cl\<lparr>sc_send_sender := False, sc_send_async := False, sc_recv_async := False, sc_con := False\<rparr> = cl"
    using r by (cases cl) simp
  note defs = BSocksClient_connector_handler_def Let_def init_control_io_def free_control_io_def
  consider (early) "is_error \<or> \<not> ok \<or> ?n = 0 \<or> ?n > 255"
    | (late) "\<not> is_error" "ok" "?n \<noteq> 0" "?n \<le> 255" by linarith
  then show thesis
  proof cases
    case early
    then have "BSocksClient_connector_handler BRealloc ok is_error cl = ?fail"
      using assms(3) r undo by (auto simp: defs)
    then show thesis by (rule that(1))
  next
    case late
    note mul = bsize_mul_exact [of "bsize_fromsize ?n" "bsize_fromsize 1"]
    from late have m: "\<not> is_overflow (bsize_mul (bsize_fromsize ?n) (bsize_fromsize 1))"
      using mul(1) by (simp add: bsize_fromsize_def bsize_wf_def SIZE_MAX_def)
    with late have "bsize_value (bsize_mul (bsize_fromsize ?n) (bsize_fromsize 1)) = ?n"
      using mul(2) by (simp add: bsize_fromsize_def bsize_wf_def SIZE_MAX_def)
    with m late have sz: "\<not> is_overflow ?sz" "bsize_value ?sz = 2 + ?n" "0 \<le> bsize_value ?sz"
      by (simp_all add: bsize_add_def bsize_fromsize_def SIZE_MAX_def)
    show thesis
    proof (rule reserve_buffer_cases [OF assms(4) sz(1,3), of ?cl])
      assume "reserve_buffer BRealloc ?sz ?cl = (False, ?cl)"
      then have "BSocksClient_connector_handler BRealloc ok is_error cl = ?fail"
        using assms(3) r undo late by (simp add: defs)
      then show thesis by (rule that(1))
    next
      fix b assume b: "reserve_buffer BRealloc ?sz ?cl = (True, ?cl\<lparr>sc_buffer := Some b\<rparr>)" "int (length b) = bsize_value ?sz"
      then have len: "length b = 2 + length (sc_auth_info cl)" using sz(2) by simp
      let ?h = "[SOCKS_VERSION, of_nat (length (sc_auth_info cl))]"
      have "buffer_write 0 ?h (?cl\<lparr>sc_buffer := Some b\<rparr>) = Some (?cl\<lparr>sc_buffer := Some (?h @ drop 2 b)\<rparr>)"
        using len by (simp add: buffer_write_def mem_write_def numeral_2_eq_2)
      moreover have "write_methods (sc_auth_info cl) 0 (?cl\<lparr>sc_buffer := Some (?h @ drop 2 b)\<rparr>) =
          Some (?cl\<lparr>sc_buffer := Some (hello_msg (sc_auth_info cl))\<rparr>)"
        using len write_methods_buffer [of "?cl\<lparr>sc_buffer := Some (?h @ drop 2 b)\<rparr>" ?h "drop 2 b" 0]
        by (simp add: hello_msg_def)
      ultimately show thesis
        using assms(3) r late b(1) sz(2) by (intro that(2)) (simp add: defs hello_msg_def)
    qed
  qed
qed

text \<open>After a message has been sent the client waits for the answer.\<close>

lemma send_done_cases:
  assumes "realloc_ok BRealloc" "sc_buffer cl \<noteq> None"
    and "(sc_state cl, st, sz, n) \<in> {(STATE_SENDING_HELLO, STATE_SENT_HELLO, 2, 2),
      (STATE_SENDING_PASSWORD, STATE_SENT_PASSWORD, 2, 2), (STATE_SENDING_REQUEST, STATE_SENT_REQUEST, 22, 4)}"
  obtains "BSocksClient_send_handler_done BRealloc cl = Some ([ScReport BSOCKSCLIENT_EVENT_ERROR], cl)"
    | b where "BSocksClient_send_handler_done BRealloc cl = Some ([ScRecv 0 n],
        cl\<lparr>sc_buffer := Some b, sc_recv_dest := 0, sc_recv_len := 0, sc_recv_total := n, sc_state := st\<rparr>)"
      "int (length b) = sz"
proof -
  let ?sz = "if sz = 2 then bsize_fromsize 2
    else bsize_add (bsize_fromsize 4) (bsize_max (bsize_fromsize 6) (bsize_fromsize 18))"
  have sz: "\<not> is_overflow ?sz" "0 \<le> bsize_value ?sz" "bsize_value ?sz = sz"
    using assms(3) by (auto simp: bsize_defs SIZE_MAX_def)
  note defs = BSocksClient_send_handler_done_def Let_def start_receive_def do_receive_def
  show thesis
  proof (rule reserve_buffer_cases [OF assms(1) sz(1,2), of cl])
    assume "reserve_buffer BRealloc ?sz cl = (False, cl)"
    with assms show thesis by (intro that(1)) (auto simp: defs)
  next
    fix b assume "reserve_buffer BRealloc ?sz cl = (True, cl\<lparr>sc_buffer := Some b\<rparr>)" "int (length b) = bsize_value ?sz"
    with assms sz(3) show thesis by (intro that(2) [of b]) (auto simp: defs bsize_fromsize_def)
  qed
qed

lemma sc_receive_write:
  assumes r: "sc_receiving sz dest len part g" and bs: "length bs \<le> len - length part"
  obtains b where "buffer_write (int (dest + length part)) bs (sg_cl g) = Some ((sg_cl g)\<lparr>sc_buffer := Some b\<rparr>)"
    "length b = sz" "part @ bs = take (length (part @ bs)) (drop dest b)"
proof -
  from r obtain b0 where b0: "sc_buffer (sg_cl g) = Some b0" "length b0 = sz" "dest + len \<le> sz"
    "part = take (length part) (drop dest b0)" "length part < len" by (auto simp: sc_receiving_def)
  let ?o = "int (dest + length part)"
  have "?o + int (length bs) \<le> int (length b0)" using b0(2,3,5) bs by linarith
  then obtain b where b: "mem_write b0 ?o bs = Some b" by (simp add: mem_write_def)
  have len: "length b = sz" using mem_write_length [OF b] b0(2) by simp
  have whole: "mem_read b (int dest) (int (length part) + int (length bs)) =
      Some (take (length part + length bs) (drop dest b))"
    using len b0(3,5) bs by (simp add: mem_read_def nat_add_distrib)
  have "mem_read b (int dest) (int (length part)) = mem_read b0 (int dest) (int (length part))"
    using mem_read_write_other [OF b, of "int dest" "int (length part)"] by simp
  also have "\<dots> = Some part" using b0 by (simp add: mem_read_def)
  finally have p: "take (length part) (take (length part + length bs) (drop dest b)) = part"
    using mem_read_split(1) [OF whole] by simp
  have "mem_read b ?o (int (length bs)) = Some bs" by (rule mem_read_write_same [OF b])
  then have q: "drop (length part) (take (length part + length bs) (drop dest b)) = bs"
    using mem_read_split(2) [OF whole] by simp
  have "part @ bs = take (length (part @ bs)) (drop dest b)"
    using append_take_drop_id [of "length part" "take (length part + length bs) (drop dest b)"]
    unfolding p q length_append .
  note fin = this
  show thesis
    by (rule that [OF _ len fin]) (use b b0(1) in \<open>simp add: buffer_write_def\<close>)
qed

text \<open>A piece of the answer that does not complete it.\<close>

lemma sc_receive_part:
  assumes r: "sc_receiving sz dest len part g" and bs: "length (part @ bs) < len"
    and res: "sc_recv_async (sg_cl g)"
  shows "\<exists>g'. sc_step BRealloc (RecvDone bs) g = Some g' \<and> sc_receiving sz dest len (part @ bs) g' \<and>
    (\<exists>b n. sg_cl g' = (sg_cl g)\<lparr>sc_buffer := b, sc_recv_len := n\<rparr>) \<and>
    sg_sent g' = sg_sent g \<and> sg_rcvd g' = sg_rcvd g @ bs \<and> sg_events g' = sg_events g"
proof -
  from bs have "length bs \<le> len - length part" by simp
  from sc_receive_write [OF r this] obtain b where
    b: "buffer_write (int (dest + length part)) bs (sg_cl g) = Some ((sg_cl g)\<lparr>sc_buffer := Some b\<rparr>)"
      "length b = sz" "part @ bs = take (length (part @ bs)) (drop dest b)" by blast
  from r have f: "sc_recv_dest (sg_cl g) = int dest" "sc_recv_len (sg_cl g) = int (length part)"
    "sc_recv_total (sg_cl g) = int len" "sg_send g = None" "dest + len \<le> sz"
    "sg_recv g = Some (int (dest + length part), int (len - length part))" by (auto simp: sc_receiving_def)
  from bs have "int (length part) + int (length bs) < int len" by simp
  with bs b f res show ?thesis
    by (auto simp: BSocksClient_recv_handler_done_def do_receive_def sc_receiving_def of_nat_diff)
qed

text \<open>The piece that completes the answer: the handler proceeds with the whole answer in the buffer.\<close>

lemma sc_receive_whole:
  assumes r: "sc_receiving sz dest len part g" and bs: "length (part @ bs) = len"
  obtains b where "buffer_write (int (dest + length part)) bs (sg_cl g) = Some ((sg_cl g)\<lparr>sc_buffer := Some b\<rparr>)"
    "length b = sz" "part @ bs = take len (drop dest b)" "sg_recv g = Some (int (dest + length part), int (len - length part))"
    "sc_recv_len (sg_cl g) + int (length bs) = sc_recv_total (sg_cl g)" "sg_send g = None"
proof -
  from bs have "length bs \<le> len - length part" by simp
  from sc_receive_write [OF r this] obtain b where
    b: "buffer_write (int (dest + length part)) bs (sg_cl g) = Some ((sg_cl g)\<lparr>sc_buffer := Some b\<rparr>)"
      "length b = sz" "part @ bs = take (length (part @ bs)) (drop dest b)" by blast
  show thesis
  proof (rule that [OF b(1,2)])
    show "part @ bs = take len (drop dest b)" using b(3) unfolding bs .
  qed (use r bs in \<open>auto simp: sc_receiving_def\<close>)
qed

lemma sc_connected:
  assumes "sc_inv g" "sc_legal (Connected is_error ok) g" "realloc_ok BRealloc"
  shows "\<exists>g'. sc_step BRealloc (Connected is_error ok) g = Some g' \<and> sc_inv g'"
proof -
  let ?cl = "sg_cl g"
  from assms have i: "sc_wf ?cl" "sc_resources ?cl" "sc_state ?cl = STATE_CONNECTING" "\<not> sc_failed g" "sc_talk g"
    "sg_events g = []" by (auto simp: sc_inv_def)
  show ?thesis
    by (rule hello_cases [OF i(1-3) assms(3), of ok is_error])
      (use i in \<open>auto simp: sc_inv_def sc_failed_def sc_talk_def sc_resources_def sc_wf_def sc_sending_def\<close>)
qed

lemma sc_send_done:
  assumes "sc_inv g" "sc_legal SendDone g" "realloc_ok BRealloc"
  shows "\<exists>g'. sc_step BRealloc SendDone g = Some g' \<and> sc_inv g'"
proof -
  let ?cl = "sg_cl g"
  from assms have i: "sc_wf ?cl" "sc_resources ?cl" "\<not> sc_failed g" "sc_talk g" "sg_send g \<noteq> None"
    "sg_events g = (if sc_state ?cl = STATE_UP then [BSOCKSCLIENT_EVENT_UP] else [])" by (auto simp: sc_inv_def)
  from i(4,5) obtain msg where m: "sc_sending msg g"
    and st: "sc_state ?cl \<in> {STATE_SENDING_HELLO, STATE_SENDING_PASSWORD, STATE_SENDING_REQUEST}"
    by (cases "sc_state ?cl") (auto simp: sc_talk_def Let_def sc_receiving_def)
  have rd: "buffer_read 0 (int (length msg)) ?cl = Some msg" "sc_buffer ?cl \<noteq> None" "sg_recv g = None"
    using m by (simp_all add: sc_sending_def buffer_read_def mem_read_def)
  obtain st' and sz n :: int where k: "(sc_state ?cl, st', sz, n) \<in> {(STATE_SENDING_HELLO, STATE_SENT_HELLO, 2, 2),
      (STATE_SENDING_PASSWORD, STATE_SENT_PASSWORD, 2, 2), (STATE_SENDING_REQUEST, STATE_SENT_REQUEST, 22, 4)}"
    using st by auto
  show ?thesis
  proof (rule send_done_cases [OF assms(3) rd(2) k])
    assume "BSocksClient_send_handler_done BRealloc ?cl = Some ([ScReport BSOCKSCLIENT_EVENT_ERROR], ?cl)"
    with i m rd show ?thesis by (auto simp: sc_sending_def sc_inv_def sc_failed_def)
  next
    fix b assume b: "BSocksClient_send_handler_done BRealloc ?cl = Some ([ScRecv 0 n],
        ?cl\<lparr>sc_buffer := Some b, sc_recv_dest := 0, sc_recv_len := 0, sc_recv_total := n, sc_state := st'\<rparr>)"
      "int (length b) = sz"
    let ?g = "g\<lparr>sg_cl := ?cl\<lparr>sc_buffer := Some b, sc_recv_dest := 0, sc_recv_len := 0, sc_recv_total := n,
        sc_state := st'\<rparr>, sg_recv := Some (0, n), sg_send := None, sg_sent := sg_sent g @ [msg]\<rparr>"
    have "sc_step BRealloc SendDone g = Some ?g"
      using b m rd i(2) k by (auto simp: sc_sending_def sc_resources_def)
    moreover have "sc_receiving (nat sz) 0 (nat n) [] ?g" using b(2) k by (auto simp: sc_receiving_def)
    then have "sc_talk ?g" using i(4) k m by (auto simp: sc_talk_def sc_sending_def Let_def) (metis append_Nil2)
    with i k have "sc_inv ?g" by (auto simp: sc_inv_def sc_resources_def sc_wf_def sc_failed_def)
    ultimately show ?thesis by blast
  qed
qed

lemma sc_con_event:
  assumes "sc_inv g" "sc_legal (ConEvent cl) g"
  shows "\<exists>g'. sc_step BRealloc (ConEvent cl) g = Some g' \<and> sc_inv g'"
  using assms by (auto simp: sc_inv_def BSocksClient_connection_handler_def sc_failed_def)

text \<open>What the client does with a complete answer, state by state.\<close>

lemma find_auth_type: "find_auth ais m = Some ai \<Longrightarrow> auth_type ai = m \<and> ai \<in> set ais"
  by (induction ais) (auto split: if_splits)

lemma two_elems: "length xs = 2 \<Longrightarrow> xs = [xs ! 0, xs ! 1]"
  by (cases xs; cases "tl xs") auto

lemma four_elems: "length xs = 4 \<Longrightarrow> xs = [xs ! 0, xs ! 1, xs ! 2, xs ! 3]"
  by (cases xs; cases "tl xs"; cases "tl (tl xs)"; cases "tl (tl (tl xs))") auto

lemma uint_byte_0: "uint (w :: byte) = 0 \<Longrightarrow> w = 0" and uint_byte_2: "uint (w :: byte) = 2 \<Longrightarrow> w = 2"
  by (metis word_of_int_uint wi_hom_syms(1) word_of_int_0) (metis word_of_int_uint word_of_int_numeral)

text \<open>Reporting an error keeps the invariant; so does starting to send a message that continues the talk.\<close>

lemma sc_report_error:
  assumes "sc_wf cl" "sc_resources cl"
  shows "\<exists>g'. sc_performs [ScReport BSOCKSCLIENT_EVENT_ERROR] (g\<lparr>sg_cl := cl, sg_recv := r, sg_rcvd := d\<rparr>) = Some g' \<and>
    sc_inv g'"
  using assms by (simp add: sc_inv_def sc_failed_def)

lemma sc_request_step:
  assumes "sc_wf cl" "sc_resources cl" "sc_state cl \<notin> {STATE_CONNECTING, STATE_UP}" "realloc_ok BRealloc"
    "sc_authenticated (sc_auth_info cl) (sg_sent g) d" "sg_send g = None" "sg_events g = []"
  shows "\<exists>g'. do { (acts, cl) \<leftarrow> auth_finished BRealloc cl;
      sc_performs acts (g\<lparr>sg_cl := cl, sg_recv := None, sg_rcvd := d\<rparr>) } = Some g' \<and> sc_inv g'"
  by (rule auth_finished_cases [OF assms(1,4)])
    (use assms in \<open>auto simp: sc_inv_def sc_failed_def sc_talk_def sc_sending_def sc_wf_def sc_resources_def\<close>)

lemma sc_password_step:
  assumes "sc_wf cl" "sc_resources cl" "sc_state cl \<notin> {STATE_CONNECTING, STATE_UP}" "realloc_ok BRealloc"
    "find_auth (sc_auth_info cl) 2 = Some ai" "sg_sent g = [hello_msg (sc_auth_info cl)]"
    "sg_send g = None" "sg_events g = []"
  shows "\<exists>g'. do { (acts, cl) \<leftarrow> send_password BRealloc ai cl;
      sc_performs acts (g\<lparr>sg_cl := cl, sg_recv := None, sg_rcvd := [5, 2]\<rparr>) } = Some g' \<and> sc_inv g'"
  by (rule send_password_cases [OF assms(4), of ai cl])
    (use assms in \<open>auto simp: sc_inv_def sc_failed_def sc_talk_def sc_sending_def sc_wf_def sc_resources_def\<close>)

text \<open>The state in which the handler looks at a complete answer.\<close>

definition sc_answered :: "BSocksClient \<Rightarrow> bytes \<Rightarrow> BSocksClient" where
  "sc_answered cl b = cl\<lparr>sc_buffer := Some b, sc_recv_len := sc_recv_total cl\<rparr>"

lemma sc_answered_simps [simp]:
  "sc_state (sc_answered cl b) = sc_state cl" "sc_auth_info (sc_answered cl b) = sc_auth_info cl"
  "sc_dest_addr (sc_answered cl b) = sc_dest_addr cl" "sc_buffer (sc_answered cl b) = Some b"
  "sc_wf (sc_answered cl b) = sc_wf cl" "sc_resources (sc_answered cl b) = sc_resources cl"
  by (simp_all add: sc_answered_def sc_wf_def sc_resources_def)

lemma sc_receive_complete:
  assumes r: "sc_receiving sz dest len part g" and bs: "length (part @ bs) = len"
  obtains b where "length b = sz" "part @ bs = take len (drop dest b)" "sg_send g = None"
    "sc_recv_len (sg_cl g) + int (length bs) = sc_recv_total (sg_cl g)"
    "sc_step BRealloc (RecvDone bs) g = do {
       (acts, cl) \<leftarrow> BSocksClient_recv_handler_done BRealloc (int (length bs)) ((sg_cl g)\<lparr>sc_buffer := Some b\<rparr>);
       sc_performs acts (g\<lparr>sg_cl := cl, sg_recv := None, sg_rcvd := sg_rcvd g @ bs\<rparr>) }"
  by (rule sc_receive_whole [OF r bs], rule that) auto

lemma sc_hello_received:
  assumes inv: "sc_inv g" and st: "sc_state (sg_cl g) = STATE_SENT_HELLO" and nf: "\<not> sc_failed g"
    and ok: "realloc_ok BRealloc" and full: "length (sg_rcvd g @ bs) = 2"
  shows "\<exists>g'. sc_step BRealloc (RecvDone bs) g = Some g' \<and> sc_inv g'"
proof -
  let ?cl = "sg_cl g"
  from inv nf st have i: "sc_wf ?cl" "sc_resources ?cl" "sg_events g = []"
    "sg_sent g = [hello_msg (sc_auth_info ?cl)]" "sc_receiving 2 0 2 (sg_rcvd g) g"
    by (auto simp: sc_inv_def sc_talk_def Let_def)
  from sc_receive_complete [OF i(5) full, of BRealloc] obtain b where
    b: "length b = 2" "sg_rcvd g @ bs = b" "sg_send g = None"
      "sc_recv_len ?cl + int (length bs) = sc_recv_total ?cl"
      "sc_step BRealloc (RecvDone bs) g = do {
         (acts, cl) \<leftarrow> BSocksClient_recv_handler_done BRealloc (int (length bs)) (?cl\<lparr>sc_buffer := Some b\<rparr>);
         sc_performs acts (g\<lparr>sg_cl := cl, sg_recv := None, sg_rcvd := b\<rparr>) }" by auto
  let ?c1 = "sc_answered ?cl b"
  note defs = BSocksClient_recv_handler_done_def Let_def buffer_read_def mem_read_def sc_answered_def
  have fail: "BSocksClient_recv_handler_done BRealloc (int (length bs)) (?cl\<lparr>sc_buffer := Some b\<rparr>) =
      Some ([ScReport BSOCKSCLIENT_EVENT_ERROR], ?c1)"
    if "b ! 0 \<noteq> SOCKS_VERSION \<or> find_auth (sc_auth_info ?cl) (uint (b ! 1)) = None"
    using that b(1,4) st by (auto simp: defs)
  show ?thesis
  proof (cases "b ! 0 \<noteq> SOCKS_VERSION \<or> find_auth (sc_auth_info ?cl) (uint (b ! 1)) = None")
    case True
    with fail b(5) sc_report_error [where cl = ?c1 and g = g and r = None and d = b] i show ?thesis by simp
  next
    case False
    then obtain ai where ai: "b ! 0 = SOCKS_VERSION" "find_auth (sc_auth_info ?cl) (uint (b ! 1)) = Some ai" by auto
    note ty = find_auth_type [OF ai(2)]
    with i(1) consider (none) "auth_type ai = 0" | (password) "auth_type ai = 2"
      by (auto simp: sc_wf_def socks_consts)
    then show ?thesis
    proof cases
      case none
      with ty have "b ! 1 = 0" by (intro uint_byte_0) simp
      then have "b = [5, 0]" using two_elems [OF b(1)] ai(1) by (simp add: socks_consts)
      with none ai ty have au: "sc_authenticated (sc_auth_info ?c1) (sg_sent g) b"
        by (simp add: sc_authenticated_def i(4))
      have "BSocksClient_recv_handler_done BRealloc (int (length bs)) (?cl\<lparr>sc_buffer := Some b\<rparr>) =
          auth_finished BRealloc ?c1"
        using none ai b(1,4) st by (simp add: defs socks_consts)
      with sc_request_step [OF _ _ _ ok au b(3) i(3)] i(1,2) st b(5) show ?thesis by simp
    next
      case password
      with ty have "b ! 1 = 2" by (intro uint_byte_2) simp
      then have d: "b = [5, 2]" using two_elems [OF b(1)] ai(1) by (simp add: socks_consts)
      have "BSocksClient_recv_handler_done BRealloc (int (length bs)) (?cl\<lparr>sc_buffer := Some b\<rparr>) =
          send_password BRealloc ai ?c1"
        using password ai b(1,4) st by (simp add: defs socks_consts)
      with sc_password_step [of ?c1 BRealloc ai g] ok ai(2) ty password i st b(3,5) d show ?thesis by simp
    qed
  qed
qed

lemma sc_password_received:
  assumes inv: "sc_inv g" and st: "sc_state (sg_cl g) = STATE_SENT_PASSWORD" and nf: "\<not> sc_failed g"
    and ok: "realloc_ok BRealloc" and r: "sc_receiving 2 0 2 part g" "sg_rcvd g = [5, 2] @ part"
    and full: "length (part @ bs) = 2"
  shows "\<exists>g'. sc_step BRealloc (RecvDone bs) g = Some g' \<and> sc_inv g'"
proof -
  let ?cl = "sg_cl g"
  from inv nf st obtain ai where i: "sc_wf ?cl" "sc_resources ?cl" "sg_events g = []"
    "find_auth (sc_auth_info ?cl) 2 = Some ai" "password_ok ai"
    "sg_sent g = [hello_msg (sc_auth_info ?cl), password_msg ai]"
    by (auto simp: sc_inv_def sc_talk_def Let_def)
  from sc_receive_complete [OF r(1) full, of BRealloc] obtain b where
    b: "length b = 2" "part @ bs = b" "sg_send g = None"
      "sc_recv_len ?cl + int (length bs) = sc_recv_total ?cl"
      "sc_step BRealloc (RecvDone bs) g = do {
         (acts, cl) \<leftarrow> BSocksClient_recv_handler_done BRealloc (int (length bs)) (?cl\<lparr>sc_buffer := Some b\<rparr>);
         sc_performs acts (g\<lparr>sg_cl := cl, sg_recv := None, sg_rcvd := [5, 2] @ b\<rparr>) }"
    using r(2) by auto
  let ?c1 = "sc_answered ?cl b"
  note defs = BSocksClient_recv_handler_done_def Let_def buffer_read_def mem_read_def sc_answered_def
  obtain x y where xy: "b = [x, y]" using two_elems [OF b(1)] by blast
  show ?thesis
  proof (cases "b = [1, 0]")
    case False
    then have "BSocksClient_recv_handler_done BRealloc (int (length bs)) (?cl\<lparr>sc_buffer := Some b\<rparr>) =
        Some ([ScReport BSOCKSCLIENT_EVENT_ERROR], ?c1)"
      using b(4) st by (auto simp: defs xy)
    with b(5) sc_report_error [where cl = ?c1 and g = g and r = None and d = "[5, 2] @ b"] i show ?thesis by simp
  next
    case True
    then have au: "sc_authenticated (sc_auth_info ?c1) (sg_sent g) ([5, 2] @ b)"
      using i by (auto simp: sc_authenticated_def)
    have "BSocksClient_recv_handler_done BRealloc (int (length bs)) (?cl\<lparr>sc_buffer := Some b\<rparr>) =
        auth_finished BRealloc ?c1"
      using b(4) st True by (simp add: defs)
    with sc_request_step [OF _ _ _ ok au b(3) i(3)] i(1,2) st b(5) show ?thesis by simp
  qed
qed

lemma sc_talk_headerI:
  assumes "sc_state (sg_cl g) = STATE_RECEIVED_REPLY_HEADER" "sc_authenticated (sc_auth_info (sg_cl g)) s d"
    "sg_sent g = s @ [request_msg (sc_dest_addr (sg_cl g))]" "sg_rcvd g = d @ [5, 0, rsv, atyp] @ part"
    "atyp \<in> {SOCKS_ATYP_IPV4, SOCKS_ATYP_IPV6}" "sc_receiving 22 4 (reply_addr_len atyp) part g"
  shows "sc_talk g"
  using assms unfolding sc_talk_def Let_def by (simp del: append.simps) blast

lemma sc_talk_replyI:
  assumes "sc_state (sg_cl g) = STATE_SENT_REQUEST" "sc_authenticated (sc_auth_info (sg_cl g)) s d"
    "sg_sent g = s @ [request_msg (sc_dest_addr (sg_cl g))]" "sg_rcvd g = d @ part" "sc_receiving 22 0 4 part g"
  shows "sc_talk g"
  using assms unfolding sc_talk_def Let_def by (simp del: append.simps) blast

lemma sc_reply_received:
  assumes inv: "sc_inv g" and st: "sc_state (sg_cl g) = STATE_SENT_REQUEST" and nf: "\<not> sc_failed g"
    and au: "sc_authenticated (sc_auth_info (sg_cl g)) s d" "sg_sent g = s @ [request_msg (sc_dest_addr (sg_cl g))]"
    and r: "sc_receiving 22 0 4 part g" "sg_rcvd g = d @ part" and full: "length (part @ bs) = 4"
  shows "\<exists>g'. sc_step BRealloc (RecvDone bs) g = Some g' \<and> sc_inv g'"
proof -
  let ?cl = "sg_cl g"
  from inv nf st have i: "sc_wf ?cl" "sc_resources ?cl" "sg_events g = []"
    by (auto simp: sc_inv_def)
  from sc_receive_complete [OF r(1) full, of BRealloc] obtain b where
    b: "length b = 22" "part @ bs = take 4 b" "sg_send g = None"
      "sc_recv_len ?cl + int (length bs) = sc_recv_total ?cl"
      "sc_step BRealloc (RecvDone bs) g = do {
         (acts, cl) \<leftarrow> BSocksClient_recv_handler_done BRealloc (int (length bs)) (?cl\<lparr>sc_buffer := Some b\<rparr>);
         sc_performs acts (g\<lparr>sg_cl := cl, sg_recv := None, sg_rcvd := d @ take 4 b\<rparr>) }"
    using r(2) by auto
  let ?c1 = "sc_answered ?cl b"
  note defs = BSocksClient_recv_handler_done_def Let_def buffer_read_def mem_read_def sc_answered_def
    start_receive_def do_receive_def
  let ?ok = "b ! 0 = SOCKS_VERSION \<and> b ! 1 = SOCKS_REP_SUCCEEDED \<and> b ! 3 \<in> {SOCKS_ATYP_IPV4, SOCKS_ATYP_IPV6}"
  show ?thesis
  proof (cases ?ok)
    case False
    then have "BSocksClient_recv_handler_done BRealloc (int (length bs)) (?cl\<lparr>sc_buffer := Some b\<rparr>) =
        Some ([ScReport BSOCKSCLIENT_EVENT_ERROR], ?c1)"
      using b(1,4) st by (auto simp: defs)
    with b(5) sc_report_error [where cl = ?c1 and g = g and r = None and d = "d @ take 4 b"] i show ?thesis by simp
  next
    case True
    let ?n = "reply_addr_len (b ! 3)"
    let ?c2 = "?c1\<lparr>sc_recv_dest := 4, sc_recv_len := 0, sc_recv_total := int ?n, sc_state := STATE_RECEIVED_REPLY_HEADER\<rparr>"
    let ?g = "g\<lparr>sg_cl := ?c2, sg_recv := Some (4, int ?n), sg_rcvd := d @ take 4 b\<rparr>"
    have n: "?n = 6 \<or> ?n = 18" by (simp add: reply_addr_len_def)
    have "BSocksClient_recv_handler_done BRealloc (int (length bs)) (?cl\<lparr>sc_buffer := Some b\<rparr>) =
        Some ([ScRecv 4 (int ?n)], ?c2)"
      using True b(1,4) st by (auto simp: defs reply_addr_len_def SOCKS_ATYP_IPV4_def SOCKS_ATYP_IPV6_def)
    then have "sc_step BRealloc (RecvDone bs) g = Some ?g"
      using b(5) i(2) n st by (auto simp: sc_answered_def sc_resources_def)
    moreover have "sc_receiving 22 4 ?n [] ?g" using b(1,3) n by (auto simp: sc_receiving_def)
    moreover have "take 4 b = [5, 0, b ! 2, b ! 3]"
      using four_elems [of "take 4 b"] b(1) True by (simp add: socks_consts)
    then have "sg_rcvd ?g = d @ [5, 0, b ! 2, b ! 3] @ []" by simp
    ultimately have "sc_talk ?g"
      using True au by (intro sc_talk_headerI [of ?g s d "b ! 2" "b ! 3" "[]"]) auto
    with \<open>sc_step BRealloc (RecvDone bs) g = Some ?g\<close> i st show ?thesis
      by (auto simp: sc_inv_def sc_answered_def sc_wf_def sc_resources_def)
  qed
qed

lemma sc_address_received:
  assumes inv: "sc_inv g" and st: "sc_state (sg_cl g) = STATE_RECEIVED_REPLY_HEADER" and nf: "\<not> sc_failed g"
    and au: "sc_authenticated (sc_auth_info (sg_cl g)) s d" "sg_sent g = s @ [request_msg (sc_dest_addr (sg_cl g))]"
    and r: "sc_receiving 22 4 (reply_addr_len atyp) part g" "sg_rcvd g = d @ [5, 0, rsv, atyp] @ part"
    and atyp: "atyp \<in> {SOCKS_ATYP_IPV4, SOCKS_ATYP_IPV6}" and full: "length (part @ bs) = reply_addr_len atyp"
  shows "\<exists>g'. sc_step BRealloc (RecvDone bs) g = Some g' \<and> sc_inv g'"
proof -
  let ?cl = "sg_cl g"
  from inv nf st have i: "sc_wf ?cl" "sc_resources ?cl" "sg_events g = []"
    by (auto simp: sc_inv_def)
  from sc_receive_complete [OF r(1) full, of BRealloc] obtain b where
    b: "sg_send g = None" "sc_recv_len ?cl + int (length bs) = sc_recv_total ?cl"
      "sc_step BRealloc (RecvDone bs) g = do {
         (acts, cl) \<leftarrow> BSocksClient_recv_handler_done BRealloc (int (length bs)) (?cl\<lparr>sc_buffer := Some b\<rparr>);
         sc_performs acts (g\<lparr>sg_cl := cl, sg_recv := None, sg_rcvd := sg_rcvd g @ bs\<rparr>) }"
    by blast
  let ?c2 = "?cl\<lparr>sc_buffer := None, sc_recv_len := sc_recv_total ?cl, sc_send_sender := False,
      sc_send_async := True, sc_recv_async := True, sc_state := STATE_UP\<rparr>"
  let ?g = "g\<lparr>sg_cl := ?c2, sg_recv := None, sg_rcvd := sg_rcvd g @ bs, sg_events := [BSOCKSCLIENT_EVENT_UP]\<rparr>"
  have h: "BSocksClient_recv_handler_done BRealloc (int (length bs)) (?cl\<lparr>sc_buffer := Some b\<rparr>) =
      Some ([ScReport BSOCKSCLIENT_EVENT_UP], ?c2)"
    using b(2) st i(2)
    by (simp add: BSocksClient_recv_handler_done_def Let_def free_control_io_def init_up_io_def sc_resources_def)
  have s: "sc_step BRealloc (RecvDone bs) g = Some ?g" using b(3) h i(3) by simp
  have "sg_rcvd ?g = d @ [5, 0, rsv, atyp] @ (part @ bs)" using r(2) by simp
  then have "sc_talk ?g"
    using au atyp full b(1) unfolding sc_talk_def Let_def by (auto simp del: append.simps)
  then have "sc_inv ?g" using i st by (simp add: sc_inv_def sc_wf_def sc_resources_def)
  with s show ?thesis by blast
qed

text \<open>A state that waits for an answer, with the part that has arrived.\<close>

lemma sc_talk_receiving:
  assumes "sc_talk g" "sg_recv g \<noteq> None"
  obtains (hello) "sc_state (sg_cl g) = STATE_SENT_HELLO" "sg_sent g = [hello_msg (sc_auth_info (sg_cl g))]"
      "sc_receiving 2 0 2 (sg_rcvd g) g"
    | (password) ai part where "sc_state (sg_cl g) = STATE_SENT_PASSWORD"
      "find_auth (sc_auth_info (sg_cl g)) 2 = Some ai" "password_ok ai"
      "sg_sent g = [hello_msg (sc_auth_info (sg_cl g)), password_msg ai]"
      "sg_rcvd g = [5, 2] @ part" "sc_receiving 2 0 2 part g"
    | (reply) s d part where "sc_state (sg_cl g) = STATE_SENT_REQUEST" "sc_authenticated (sc_auth_info (sg_cl g)) s d"
      "sg_sent g = s @ [request_msg (sc_dest_addr (sg_cl g))]" "sg_rcvd g = d @ part" "sc_receiving 22 0 4 part g"
    | (address) s d rsv atyp part where "sc_state (sg_cl g) = STATE_RECEIVED_REPLY_HEADER"
      "sc_authenticated (sc_auth_info (sg_cl g)) s d"
      "sg_sent g = s @ [request_msg (sc_dest_addr (sg_cl g))]" "sg_rcvd g = d @ [5, 0, rsv, atyp] @ part"
      "atyp \<in> {SOCKS_ATYP_IPV4, SOCKS_ATYP_IPV6}" "sc_receiving 22 4 (reply_addr_len atyp) part g"
  using assms
  by (cases "sc_state (sg_cl g)") (simp_all add: sc_talk_def sc_sending_def Let_def del: append.simps, (blast | metis)+)

lemma sc_recv_part:
  assumes inv: "sc_inv g" and nf: "\<not> sc_failed g" and r: "sc_receiving sz dest len part g"
    and bs: "length (part @ bs) < len"
    and talk: "\<And>g'. sc_receiving sz dest len (part @ bs) g' \<Longrightarrow> sc_state (sg_cl g') = sc_state (sg_cl g) \<Longrightarrow>
      sc_auth_info (sg_cl g') = sc_auth_info (sg_cl g) \<Longrightarrow> sc_dest_addr (sg_cl g') = sc_dest_addr (sg_cl g) \<Longrightarrow>
      sg_sent g' = sg_sent g \<Longrightarrow> sg_rcvd g' = sg_rcvd g @ bs \<Longrightarrow> sc_talk g'"
    and st: "sc_state (sg_cl g) \<notin> {STATE_CONNECTING, STATE_UP}"
  shows "\<exists>g'. sc_step BRealloc (RecvDone bs) g = Some g' \<and> sc_inv g'"
proof -
  from inv st have res: "sc_recv_async (sg_cl g)" by (auto simp: sc_inv_def sc_resources_def)
  from sc_receive_part [OF r bs res, of BRealloc] obtain g' b n where
    g': "sc_step BRealloc (RecvDone bs) g = Some g'" "sc_receiving sz dest len (part @ bs) g'"
      "sg_cl g' = (sg_cl g)\<lparr>sc_buffer := b, sc_recv_len := n\<rparr>"
      "sg_sent g' = sg_sent g" "sg_rcvd g' = sg_rcvd g @ bs" "sg_events g' = sg_events g" by blast
  with talk [OF g'(2)] inv nf have "sc_inv g'"
    by (auto simp: sc_inv_def sc_failed_def sc_wf_def sc_resources_def)
  with g'(1) show ?thesis by blast
qed

lemma sc_recv_done:
  assumes inv: "sc_inv g" and legal: "sc_legal (RecvDone bs) g" and ok: "realloc_ok BRealloc"
  shows "\<exists>g'. sc_step BRealloc (RecvDone bs) g = Some g' \<and> sc_inv g'"
proof -
  from inv legal have nf: "\<not> sc_failed g" and talk: "sc_talk g" and rec: "sg_recv g \<noteq> None"
    by (auto simp: sc_inv_def split: option.splits)
  have bound: "length (part @ bs) < len \<or> length (part @ bs) = len" if "sc_receiving sz dest len part g" for sz dest len part
    using that legal by (auto simp: sc_receiving_def)
  from talk rec show ?thesis
  proof (cases rule: sc_talk_receiving)
    case hello
    with bound [OF hello(3)] show ?thesis
      using sc_hello_received [OF inv _ nf ok] sc_recv_part [OF inv nf hello(3)]
      by (auto simp: sc_talk_def)
  next
    case (password ai part)
    with bound [OF password(6)] show ?thesis
      using sc_password_received [OF inv _ nf ok password(6,5)] sc_recv_part [OF inv nf password(6)]
      by (auto simp: sc_talk_def Let_def)
  next
    case (reply s d part)
    show ?thesis
    proof (cases "length (part @ bs) = 4")
      case True
      with sc_reply_received [OF inv reply(1) nf reply(2,3,5,4)] show ?thesis .
    next
      case False
      with bound [OF reply(5)] have "length (part @ bs) < 4" by blast
      with reply show ?thesis
        by (intro sc_recv_part [OF inv nf reply(5)] sc_talk_replyI [of _ s d "part @ bs"]) auto
    qed
  next
    case (address s d rsv atyp part)
    show ?thesis
    proof (cases "length (part @ bs) = reply_addr_len atyp")
      case True
      with sc_address_received [OF inv address(1) nf address(2,3,6,4,5)] show ?thesis .
    next
      case False
      with bound [OF address(6)] have "length (part @ bs) < reply_addr_len atyp" by blast
      with address show ?thesis
        by (intro sc_recv_part [OF inv nf address(6)] sc_talk_headerI [of _ s d rsv atyp "part @ bs"]) auto
    qed
  qed
qed

interpretation sc: event_machine "sc_step BRealloc" sc_legal "\<lambda>g. realloc_ok BRealloc \<and> sc_inv g" for BRealloc
proof
  fix g e
  assume i: "realloc_ok BRealloc \<and> sc_inv g" and l: "sc_legal e g"
  show "\<exists>g'. sc_step BRealloc e g = Some g' \<and> realloc_ok BRealloc \<and> sc_inv g'"
  proof (cases e)
    case (Connected is_error ok)
    with i l sc_connected show ?thesis by blast
  next
    case SendDone
    with i l sc_send_done show ?thesis by blast
  next
    case (RecvDone bs)
    with i l sc_recv_done show ?thesis by blast
  next
    case (ConEvent cl)
    with i l sc_con_event show ?thesis by blast
  qed
qed

lemma sc_start_inv:
  assumes "BSocksClient_Init ok server ais dest = Some (Some cl)" "BAddr_wf dest"
  shows "sc_inv (sc_start cl)"
  using assms
  by (auto simp: BSocksClient_Init_def sc_inv_def sc_start_def sc_talk_def sc_wf_def sc_resources_def split: if_splits)

text \<open>In every state, also after an error, freeing the client releases exactly what it holds.\<close>

lemma sc_free:
  assumes "sc_inv g"
  shows "\<exists>cl'. BSocksClient_Free (sg_cl g) = Some cl' \<and> \<not> sc_connector cl' \<and> \<not> sc_con cl' \<and>
    \<not> sc_recv_async cl' \<and> \<not> sc_send_async cl' \<and> \<not> sc_send_sender cl' \<and> sc_buffer cl' = None"
  using assms
  by (cases "sc_state (sg_cl g)")
    (simp_all add: sc_inv_def sc_resources_def BSocksClient_Free_def free_up_io_def free_control_io_def Let_def)

lemma sc_not_stuck:
  assumes "sc_inv g" "\<not> sc_failed g"
  shows "sc_state (sg_cl g) = STATE_UP \<or> sc_state (sg_cl g) = STATE_CONNECTING \<or>
    sg_send g \<noteq> None \<or> sg_recv g \<noteq> None"
  using assms
  by (cases "sc_state (sg_cl g)") (auto simp: sc_inv_def sc_talk_def Let_def sc_sending_def sc_receiving_def)

lemma sc_up_talk:
  assumes "sc_inv g" "\<not> sc_failed g" "sc_state (sg_cl g) = STATE_UP"
  shows "\<exists>s d rsv atyp addr. sc_authenticated (sc_auth_info (sg_cl g)) s d \<and>
    sg_sent g = s @ [request_msg (sc_dest_addr (sg_cl g))] \<and> sg_rcvd g = d @ [5, 0, rsv, atyp] @ addr \<and>
    atyp \<in> {SOCKS_ATYP_IPV4, SOCKS_ATYP_IPV6} \<and> length addr = reply_addr_len atyp \<and>
    sg_events g = [BSOCKSCLIENT_EVENT_UP]"
  using assms unfolding sc_inv_def sc_talk_def Let_def by (simp del: append.simps) blast

end
