(* ===== verification/Tcp_Relay.thy ===== *)
theory Tcp_Relay
  imports Event_Machine Socks_Client "HOL-Library.Sublist"
begin

text \<open>
  The TCP relay of \<open>tun2socks/tun2socks.c\<close>: every connection that lwIP accepts from the device is
  relayed over a SOCKS connection of its own.  \<open>tcp_client\<close> is the structure of the same name;
  the structures live in a store (\<open>clients\<close>), so that following a pointer to a freed client is the
  failure \<open>None\<close>, like a failed assertion.

  Neighbours.  \<open>tcp_pcb\<close> is what the relay sees of lwIP's connection: whether it still holds the
  connection, which of its callbacks are registered, and, as history, the bytes delivered to the
  receive callback and accepted, the number returned to the window by \<open>tcp_recved\<close>, the bytes given to
  \<open>tcp_write\<close> and how many of them were acknowledged.  \<open>socks_io\<close> is the same for the BSocksClient:
  open or freed, the outstanding send and receive operations of its two stream interfaces, the bytes
  that went out and came in.  Touching a connection that is not held any more, or starting an operation
  while one is outstanding, fails.  \<open>tcp_abort\<close> calls the error callback if there is one, which would
  re-enter the relay; it fails here when the callback is still registered.  What lwIP answers to a call
  is chosen by \<open>lwip\<close>.

  \<open>SYNC_COMMIT\<close> runs the jobs that were set since \<open>SYNC_FROMHERE\<close>: those of the client's own SOCKS
  connection.  Here it executes a script of events of that connection, any script: an event the SOCKS
  client cannot produce in the current state is skipped.
\<close>

section \<open>Structures\<close>

definition ERR_OK :: int where "ERR_OK = 0"
definition ERR_MEM :: int where "ERR_MEM = - 1"
definition ERR_ABRT :: int where "ERR_ABRT = - 10"

lemmas err_defs = ERR_OK_def ERR_MEM_def ERR_ABRT_def

record tcp_pcb =
  pcb_held :: bool
  pcb_err :: bool
  pcb_recv :: bool
  pcb_sent :: bool
  pcb_delivered :: bytes
  pcb_recved :: int
  pcb_written :: bytes
  pcb_acked :: int

record socks_io =
  io_open :: bool
  io_sending :: "int option"
  io_receiving :: bool
  io_sent :: bytes
  io_received :: bytes

record tcp_client =
  dead_client :: bool
  tc_local_addr :: BAddr
  tc_remote_addr :: BAddr
  tc_pcb :: tcp_pcb
  client_closed :: bool
  tc_buf :: bytes
  buf_used :: int
  socks_username :: "string option"
  socks_client :: socks_io
  socks_up :: bool
  socks_closed :: bool
  socks_recv_buf :: bytes
  socks_recv_buf_used :: int
  socks_recv_buf_sent :: int
  socks_recv_waiting :: bool
  socks_recv_tcp_pending :: int

text \<open>
  \<open>badvpn_dead\<close> is the local variable that \<open>DEAD_ENTER\<close> declares, \<open>None\<close> when no such frame is
  active; \<open>dead_client\<close> says whether the client's dead pointer points to it.  \<open>relay_username\<close> is
  \<open>socks_auth_info[1].password.username\<close>.
\<close>

record relay =
  clients :: "ptr \<Rightarrow> tcp_client option"
  tcp_clients :: "ptr list"
  num_clients :: int
  relay_username :: "string option"
  badvpn_dead :: "bool option"

record lwip =
  lw_close :: int
  lw_sndbuf :: "nat \<Rightarrow> 16 word"
  lw_write :: "nat \<Rightarrow> int"
  lw_output :: int

section \<open>Calls to the neighbours\<close>

definition put_client :: "ptr \<Rightarrow> tcp_client \<Rightarrow> relay \<Rightarrow> relay" where
  "put_client p c w = w\<lparr>clients := (clients w)(p \<mapsto> c)\<rparr>"

definition tcp_err :: "bool \<Rightarrow> tcp_pcb \<Rightarrow> tcp_pcb option" where
  "tcp_err b x = do { ASSERT (pcb_held x); Some (x\<lparr>pcb_err := b\<rparr>) }"

definition tcp_recv :: "bool \<Rightarrow> tcp_pcb \<Rightarrow> tcp_pcb option" where
  "tcp_recv b x = do { ASSERT (pcb_held x); Some (x\<lparr>pcb_recv := b\<rparr>) }"

definition tcp_sent :: "bool \<Rightarrow> tcp_pcb \<Rightarrow> tcp_pcb option" where
  "tcp_sent b x = do { ASSERT (pcb_held x); Some (x\<lparr>pcb_sent := b\<rparr>) }"

definition tcp_recved :: "int \<Rightarrow> tcp_pcb \<Rightarrow> tcp_pcb option" where
  "tcp_recved n x = do { ASSERT (pcb_held x); Some (x\<lparr>pcb_recved := pcb_recved x + n\<rparr>) }"

definition tcp_abort :: "tcp_pcb \<Rightarrow> tcp_pcb option" where
  "tcp_abort x = do { ASSERT (pcb_held x); ASSERT (\<not> pcb_err x); Some (x\<lparr>pcb_held := False\<rparr>) }"

definition tcp_close :: "lwip \<Rightarrow> tcp_pcb \<Rightarrow> (int \<times> tcp_pcb) option" where
  "tcp_close lw x = do {
     ASSERT (pcb_held x);
     Some (lw_close lw, if lw_close lw = ERR_OK then x\<lparr>pcb_held := False\<rparr> else x) }"

definition tcp_write :: "int \<Rightarrow> bytes \<Rightarrow> tcp_pcb \<Rightarrow> tcp_pcb option" where
  "tcp_write err data x = do {
     ASSERT (pcb_held x);
     Some (if err = ERR_OK then x\<lparr>pcb_written := pcb_written x @ data\<rparr> else x) }"

definition StreamPass_Send :: "int \<Rightarrow> tcp_client \<Rightarrow> tcp_client option" where
  "StreamPass_Send n c = do {
     ASSERT (io_open (socks_client c)); ASSERT (io_sending (socks_client c) = None);
     ASSERT (n > 0 \<and> n \<le> int (length (tc_buf c)));
     Some (c\<lparr>socks_client := (socks_client c)\<lparr>io_sending := Some n\<rparr>\<rparr>) }"

definition StreamRecv_Recv :: "int \<Rightarrow> tcp_client \<Rightarrow> tcp_client option" where
  "StreamRecv_Recv n c = do {
     ASSERT (io_open (socks_client c)); ASSERT (\<not> io_receiving (socks_client c));
     ASSERT (n > 0 \<and> n \<le> int (length (socks_recv_buf c)));
     Some (c\<lparr>socks_client := (socks_client c)\<lparr>io_receiving := True\<rparr>\<rparr>) }"

definition BSocksClient_Free' :: "socks_io \<Rightarrow> socks_io option" where
  "BSocksClient_Free' s = do {
     ASSERT (io_open s);
     Some (s\<lparr>io_open := False, io_sending := None, io_receiving := False\<rparr>) }"

definition DEAD_KILL :: "tcp_client \<Rightarrow> relay \<Rightarrow> relay option" where
  "DEAD_KILL c w = (if dead_client c then do { ASSERT (badvpn_dead w \<noteq> None); Some (w\<lparr>badvpn_dead := Some True\<rparr>) }
     else Some w)"

definition DEAD_ENTER :: "ptr \<Rightarrow> relay \<Rightarrow> relay option" where
  "DEAD_ENTER p w = do {
     c \<leftarrow> clients w p;
     ASSERT (\<not> dead_client c \<and> badvpn_dead w = None);
     Some ((put_client p (c\<lparr>dead_client := True\<rparr>) w)\<lparr>badvpn_dead := Some False\<rparr>) }"

definition DEAD_LEAVE2 :: "ptr \<Rightarrow> relay \<Rightarrow> (bool \<times> relay) option" where
  "DEAD_LEAVE2 p w = do {
     dead \<leftarrow> badvpn_dead w;
     w \<leftarrow> (if dead then Some w else do { c \<leftarrow> clients w p; Some (put_client p (c\<lparr>dead_client := False\<rparr>) w) });
     Some (dead, w\<lparr>badvpn_dead := None\<rparr>) }"

section \<open>Closing and freeing\<close>

definition client_dealloc :: "ptr \<Rightarrow> relay \<Rightarrow> relay option" where
  "client_dealloc p w = do {
     c \<leftarrow> clients w p;
     ASSERT (client_closed c);
     ASSERT (socks_closed c);
     ASSERT (num_clients w > 0);
     ASSERT (p \<in> set (tcp_clients w));
     Some (w\<lparr>num_clients := num_clients w - 1, tcp_clients := remove1 p (tcp_clients w),
       clients := (clients w)(p := None)\<rparr>)
   }"

definition remove_callbacks :: "tcp_pcb \<Rightarrow> tcp_pcb option" where
  "remove_callbacks x = do { x \<leftarrow> tcp_err False x; x \<leftarrow> tcp_recv False x; tcp_sent False x }"

text \<open>
  \<open>client_handle_freed_client\<close>, \<open>client_free_client\<close> and \<open>client_free_socks\<close> call each other: they
  are the three cases of \<open>client_closing\<close>.  \<open>client_closed\<close> and \<open>socks_closed\<close> are only ever set, which
  is why the recursion ends.
\<close>

datatype closing = HandleFreedClient | FreeClient | FreeSocks

definition still_open :: "ptr \<Rightarrow> relay \<Rightarrow> nat" where
  "still_open p w = (case clients w p of None \<Rightarrow> 0
     | Some c \<Rightarrow> (if client_closed c then 0 else 1) + (if socks_closed c then 0 else 1))"

function client_closing :: "closing \<Rightarrow> lwip \<Rightarrow> ptr \<Rightarrow> relay \<Rightarrow> relay option" where
  "client_closing HandleFreedClient lw p w = do {
     c \<leftarrow> clients w p;
     ASSERT (\<not> client_closed c);
     w \<leftarrow> DEAD_KILL c w;
     let w = put_client p (c\<lparr>client_closed := True\<rparr>) w;
     if buf_used c > 0 \<and> \<not> socks_closed c then Some w
     else if \<not> socks_closed c then client_closing FreeSocks lw p w
     else client_dealloc p w
   }"
| "client_closing FreeClient lw p w = do {
     c \<leftarrow> clients w p;
     ASSERT (\<not> client_closed c);
     b \<leftarrow> remove_callbacks (tc_pcb c);
     (err, b) \<leftarrow> tcp_close lw b;
     b \<leftarrow> (if err \<noteq> ERR_OK then tcp_abort b else Some b);
     client_closing HandleFreedClient lw p (put_client p (c\<lparr>tc_pcb := b\<rparr>) w)
   }"
| "client_closing FreeSocks lw p w = do {
     c \<leftarrow> clients w p;
     ASSERT (\<not> socks_closed c);
     b \<leftarrow> (if socks_up c \<and> \<not> client_closed c then tcp_recv False (tc_pcb c) else Some (tc_pcb c));
     s \<leftarrow> BSocksClient_Free' (socks_client c);
     let w = put_client p (c\<lparr>tc_pcb := b, socks_client := s, socks_closed := True\<rparr>) w;
     if socks_up c \<and> (socks_recv_buf_used c \<ge> 0 \<or> socks_recv_tcp_pending c > 0) \<and> \<not> client_closed c then Some w
     else if \<not> client_closed c then client_closing FreeClient lw p w
     else client_dealloc p w
   }"
  by pat_completeness auto
termination
  by (relation "measure (\<lambda>(k, lw, p, w). 2 * still_open p w + (if k = FreeClient then 1 else 0))")
    (auto simp: still_open_def put_client_def DEAD_KILL_def split: if_splits)

definition client_handle_freed_client :: "lwip \<Rightarrow> ptr \<Rightarrow> relay \<Rightarrow> relay option" where
  "client_handle_freed_client = client_closing HandleFreedClient"

definition client_free_client :: "lwip \<Rightarrow> ptr \<Rightarrow> relay \<Rightarrow> relay option" where
  "client_free_client = client_closing FreeClient"

definition client_free_socks :: "lwip \<Rightarrow> ptr \<Rightarrow> relay \<Rightarrow> relay option" where
  "client_free_socks = client_closing FreeSocks"

lemma client_handle_freed_client_simps:
  "client_handle_freed_client lw p w = do {
     c \<leftarrow> clients w p;
     ASSERT (\<not> client_closed c);
     w \<leftarrow> DEAD_KILL c w;
     let w = put_client p (c\<lparr>client_closed := True\<rparr>) w;
     if buf_used c > 0 \<and> \<not> socks_closed c then Some w
     else if \<not> socks_closed c then client_free_socks lw p w
     else client_dealloc p w
   }"
  unfolding client_handle_freed_client_def client_free_client_def client_free_socks_def by (subst client_closing.simps) (rule refl)

lemma client_free_client_simps:
  "client_free_client lw p w = do {
     c \<leftarrow> clients w p;
     ASSERT (\<not> client_closed c);
     b \<leftarrow> remove_callbacks (tc_pcb c);
     (err, b) \<leftarrow> tcp_close lw b;
     b \<leftarrow> (if err \<noteq> ERR_OK then tcp_abort b else Some b);
     client_handle_freed_client lw p (put_client p (c\<lparr>tc_pcb := b\<rparr>) w)
   }"
  unfolding client_handle_freed_client_def client_free_client_def client_free_socks_def by (subst client_closing.simps) (rule refl)

lemma client_free_socks_simps:
  "client_free_socks lw p w = do {
     c \<leftarrow> clients w p;
     ASSERT (\<not> socks_closed c);
     b \<leftarrow> (if socks_up c \<and> \<not> client_closed c then tcp_recv False (tc_pcb c) else Some (tc_pcb c));
     s \<leftarrow> BSocksClient_Free' (socks_client c);
     let w = put_client p (c\<lparr>tc_pcb := b, socks_client := s, socks_closed := True\<rparr>) w;
     if socks_up c \<and> (socks_recv_buf_used c \<ge> 0 \<or> socks_recv_tcp_pending c > 0) \<and> \<not> client_closed c then Some w
     else if \<not> client_closed c then client_free_client lw p w
     else client_dealloc p w
   }"
  unfolding client_handle_freed_client_def client_free_client_def client_free_socks_def by (subst client_closing.simps) (rule refl)

definition client_abort_client :: "lwip \<Rightarrow> ptr \<Rightarrow> relay \<Rightarrow> relay option" where
  "client_abort_client lw p w = do {
     c \<leftarrow> clients w p;
     ASSERT (\<not> client_closed c);
     b \<leftarrow> remove_callbacks (tc_pcb c);
     b \<leftarrow> tcp_abort b;
     client_handle_freed_client lw p (put_client p (c\<lparr>tc_pcb := b\<rparr>) w)
   }"

definition client_murder :: "ptr \<Rightarrow> relay \<Rightarrow> relay option" where
  "client_murder p w = do {
     c \<leftarrow> clients w p;
     w \<leftarrow> (if \<not> client_closed c then do {
         b \<leftarrow> remove_callbacks (tc_pcb c);
         b \<leftarrow> tcp_abort b;
         w \<leftarrow> DEAD_KILL c w;
         Some (put_client p (c\<lparr>tc_pcb := b, client_closed := True\<rparr>) w)
       } else Some w);
     c \<leftarrow> clients w p;
     w \<leftarrow> (if \<not> socks_closed c then do {
         s \<leftarrow> BSocksClient_Free' (socks_client c);
         Some (put_client p (c\<lparr>socks_client := s, socks_closed := True\<rparr>) w)
       } else Some w);
     client_dealloc p w
   }"

section \<open>From the SOCKS server to the device\<close>

lemma send_out_progress:
  assumes "mem_read b s (min (u - s) (uint (x :: 16 word))) = Some d" "min (u - s) (uint x) \<noteq> 0"
  shows "0 < min (u - s) (uint x) \<and> s < u"
proof -
  have "0 \<le> min (u - s) (uint x)" using assms(1) by (simp only: mem_read_def option.distinct split: if_splits)
  with assms(2) show ?thesis by linarith
qed

function client_socks_recv_send_out_loop :: "lwip \<Rightarrow> nat \<Rightarrow> tcp_client \<Rightarrow> (int \<times> tcp_client) option" where
  "client_socks_recv_send_out_loop lw k c = do {
     let to_write = min (socks_recv_buf_used c - socks_recv_buf_sent c) (uint (lw_sndbuf lw k));
     if to_write = 0 then Some (ERR_OK, c)
     else do {
       data \<leftarrow> mem_read (socks_recv_buf c) (socks_recv_buf_sent c) to_write;
       let err = lw_write lw k;
       b \<leftarrow> tcp_write err data (tc_pcb c);
       let c = c\<lparr>tc_pcb := b\<rparr>;
       if err \<noteq> ERR_OK then Some (if err = ERR_MEM then ERR_OK else err, c)
       else do {
         let c = c\<lparr>socks_recv_buf_sent := socks_recv_buf_sent c + to_write,
           socks_recv_tcp_pending := socks_recv_tcp_pending c + to_write\<rparr>;
         if socks_recv_buf_sent c < socks_recv_buf_used c then client_socks_recv_send_out_loop lw (Suc k) c
         else Some (ERR_OK, c)
       }
     }
   }"
  by pat_completeness auto
termination
proof (relation "measure (\<lambda>(lw, k, c). nat (socks_recv_buf_used c - socks_recv_buf_sent c))", goal_cases)
  case 2
  then show ?case using send_out_progress [OF 2(3) [unfolded 2(1)] 2(2) [unfolded 2(1)]] by simp
qed simp

definition client_socks_recv_send_out :: "lwip \<Rightarrow> ptr \<Rightarrow> relay \<Rightarrow> (int \<times> relay) option" where
  "client_socks_recv_send_out lw p w = do {
     c \<leftarrow> clients w p;
     ASSERT (\<not> client_closed c);
     ASSERT (socks_up c);
     ASSERT (socks_recv_buf_used c > 0);
     ASSERT (socks_recv_buf_sent c < socks_recv_buf_used c);
     ASSERT (\<not> socks_recv_waiting c);
     (err, c) \<leftarrow> client_socks_recv_send_out_loop lw 0 c;
     let w = put_client p c w;
     if err \<noteq> ERR_OK then do { w \<leftarrow> client_abort_client lw p w; Some (- 1, w) }
     else do {
       ASSERT (pcb_held (tc_pcb c));
       if lw_output lw \<noteq> ERR_OK then do { w \<leftarrow> client_abort_client lw p w; Some (- 1, w) }
       else if socks_recv_buf_sent c < socks_recv_buf_used c then
         if socks_recv_tcp_pending c = 0 then do { w \<leftarrow> client_abort_client lw p w; Some (- 1, w) }
         else Some (0, put_client p (c\<lparr>socks_recv_waiting := True\<rparr>) w)
       else Some (0, put_client p (c\<lparr>socks_recv_buf_used := - 1\<rparr>) w)
     }
   }"

definition client_socks_recv_initiate :: "ptr \<Rightarrow> relay \<Rightarrow> relay option" where
  "client_socks_recv_initiate p w = do {
     c \<leftarrow> clients w p;
     ASSERT (\<not> client_closed c);
     ASSERT (\<not> socks_closed c);
     ASSERT (socks_up c);
     ASSERT (socks_recv_buf_used c = - 1);
     c \<leftarrow> StreamRecv_Recv (int (length (socks_recv_buf c))) c;
     Some (put_client p c w)
   }"

definition client_socks_recv_handler_done :: "lwip \<Rightarrow> ptr \<Rightarrow> int \<Rightarrow> relay \<Rightarrow> relay option" where
  "client_socks_recv_handler_done lw p data_len w = do {
     c \<leftarrow> clients w p;
     ASSERT (data_len > 0);
     ASSERT (data_len \<le> int (length (socks_recv_buf c)));
     ASSERT (\<not> socks_closed c);
     ASSERT (socks_up c);
     ASSERT (socks_recv_buf_used c = - 1);
     if client_closed c then Some w
     else do {
       let w = put_client p (c\<lparr>socks_recv_buf_used := data_len, socks_recv_buf_sent := 0, socks_recv_waiting := False\<rparr>) w;
       (r, w) \<leftarrow> client_socks_recv_send_out lw p w;
       if r < 0 then Some w
       else do {
         c \<leftarrow> clients w p;
         if socks_recv_buf_used c = - 1 then client_socks_recv_initiate p w else Some w
       }
     }
   }"

section \<open>From the device to the SOCKS server\<close>

definition client_send_to_socks :: "ptr \<Rightarrow> relay \<Rightarrow> relay option" where
  "client_send_to_socks p w = do {
     c \<leftarrow> clients w p;
     ASSERT (\<not> socks_closed c);
     ASSERT (socks_up c);
     ASSERT (buf_used c > 0);
     c \<leftarrow> StreamPass_Send (buf_used c) c;
     Some (put_client p c w)
   }"

definition client_socks_send_handler_done :: "lwip \<Rightarrow> ptr \<Rightarrow> int \<Rightarrow> relay \<Rightarrow> relay option" where
  "client_socks_send_handler_done lw p data_len w = do {
     c \<leftarrow> clients w p;
     ASSERT (\<not> socks_closed c);
     ASSERT (socks_up c);
     ASSERT (buf_used c > 0);
     ASSERT (data_len > 0);
     ASSERT (data_len \<le> buf_used c);
     rest \<leftarrow> mem_read (tc_buf c) data_len (buf_used c - data_len);
     m \<leftarrow> mem_write (tc_buf c) 0 rest;
     let c = c\<lparr>tc_buf := m, buf_used := buf_used c - data_len\<rparr>;
     b \<leftarrow> (if \<not> client_closed c then tcp_recved data_len (tc_pcb c) else Some (tc_pcb c));
     let c = c\<lparr>tc_pcb := b\<rparr>;
     if buf_used c > 0 then do { c \<leftarrow> StreamPass_Send (buf_used c) c; Some (put_client p c w) }
     else if client_closed c then client_free_socks lw p (put_client p c w)
     else Some (put_client p c w)
   }"

section \<open>Events of the SOCKS client\<close>

definition client_socks_handler :: "lwip \<Rightarrow> ptr \<Rightarrow> socks_event \<Rightarrow> relay \<Rightarrow> relay option" where
  "client_socks_handler lw p event w = do {
     c \<leftarrow> clients w p;
     ASSERT (\<not> socks_closed c);
     case event of
       BSOCKSCLIENT_EVENT_ERROR \<Rightarrow> client_free_socks lw p w
     | BSOCKSCLIENT_EVENT_UP \<Rightarrow> do {
         ASSERT (\<not> socks_up c);
         b \<leftarrow> (if \<not> client_closed c then tcp_sent True (tc_pcb c) else Some (tc_pcb c));
         let c = c\<lparr>socks_recv_buf_used := - 1, socks_recv_tcp_pending := 0, tc_pcb := b, socks_up := True\<rparr>;
         let w = put_client p c w;
         w \<leftarrow> (if buf_used c > 0 then client_send_to_socks p w else Some w);
         if \<not> client_closed c then client_socks_recv_initiate p w else Some w
       }
     | BSOCKSCLIENT_EVENT_ERROR_CLOSED \<Rightarrow> do {
         ASSERT (socks_up c);
         client_free_socks lw p w
       }
   }"

text \<open>
  What the SOCKS client can do: report its events (up at most once, closed only afterwards) and
  complete outstanding operations.  Data it sends is read from the client's buffer, data it
  receives is written to the start of the receive buffer.
\<close>

datatype socks_action = SocksEvent socks_event | SendDone int | RecvDone bytes

definition socks_can :: "ptr \<Rightarrow> socks_action \<Rightarrow> relay \<Rightarrow> bool" where
  "socks_can p a w = (case clients w p of None \<Rightarrow> False
   | Some c \<Rightarrow> io_open (socks_client c) \<and> (case a of
       SocksEvent BSOCKSCLIENT_EVENT_UP \<Rightarrow> \<not> socks_up c
     | SocksEvent BSOCKSCLIENT_EVENT_ERROR \<Rightarrow> True
     | SocksEvent BSOCKSCLIENT_EVENT_ERROR_CLOSED \<Rightarrow> socks_up c
     | SendDone n \<Rightarrow> (case io_sending (socks_client c) of None \<Rightarrow> False | Some m \<Rightarrow> 0 < n \<and> n \<le> m)
     | RecvDone d \<Rightarrow> io_receiving (socks_client c) \<and> d \<noteq> [] \<and> length d \<le> length (socks_recv_buf c)))"

fun socks_do :: "lwip \<Rightarrow> ptr \<Rightarrow> socks_action \<Rightarrow> relay \<Rightarrow> relay option" where
  "socks_do lw p (SocksEvent e) w = client_socks_handler lw p e w"
| "socks_do lw p (SendDone n) w = do {
     c \<leftarrow> clients w p;
     data \<leftarrow> mem_read (tc_buf c) 0 n;
     let s = (socks_client c)\<lparr>io_sending := None, io_sent := io_sent (socks_client c) @ data\<rparr>;
     client_socks_send_handler_done lw p n (put_client p (c\<lparr>socks_client := s\<rparr>) w)
   }"
| "socks_do lw p (RecvDone d) w = do {
     c \<leftarrow> clients w p;
     m \<leftarrow> mem_write (socks_recv_buf c) 0 d;
     let s = (socks_client c)\<lparr>io_receiving := False, io_received := io_received (socks_client c) @ d\<rparr>;
     client_socks_recv_handler_done lw p (int (length d)) (put_client p (c\<lparr>socks_recv_buf := m, socks_client := s\<rparr>) w)
   }"

type_synonym sync = "(lwip \<times> socks_action) list"

fun SYNC_COMMIT :: "ptr \<Rightarrow> sync \<Rightarrow> relay \<Rightarrow> relay option" where
  "SYNC_COMMIT p [] w = Some w"
| "SYNC_COMMIT p ((lw, a) # as) w =
     (if socks_can p a w then do { w \<leftarrow> socks_do lw p a w; SYNC_COMMIT p as w } else SYNC_COMMIT p as w)"

definition catching :: "ptr \<Rightarrow> sync \<Rightarrow> relay \<Rightarrow> (bool \<times> relay) option" where
  "catching p script w = do { w \<leftarrow> DEAD_ENTER p w; w \<leftarrow> SYNC_COMMIT p script w; DEAD_LEAVE2 p w }"

section \<open>Callbacks from lwIP\<close>

definition client_err_func :: "lwip \<Rightarrow> ptr \<Rightarrow> relay \<Rightarrow> relay option" where
  "client_err_func lw p w = do {
     c \<leftarrow> clients w p;
     ASSERT (\<not> client_closed c);
     client_handle_freed_client lw p w
   }"

definition pbuf_copy_partial :: "bytes \<Rightarrow> tcp_client \<Rightarrow> tcp_client option" where
  "pbuf_copy_partial d c = do {
     m \<leftarrow> mem_write (tc_buf c) (buf_used c) d;
     Some (c\<lparr>tc_buf := m, tc_pcb := (tc_pcb c)\<lparr>pcb_delivered := pcb_delivered (tc_pcb c) @ d\<rparr>\<rparr>)
   }"

text \<open>The result says, beside the error code for lwIP, whether \<open>pbuf_free\<close> was called.\<close>

definition client_recv_func :: "lwip \<Rightarrow> sync \<Rightarrow> ptr \<Rightarrow> bytes option \<Rightarrow> relay \<Rightarrow> (int \<times> bool \<times> relay) option" where
  "client_recv_func lw script p pbuf w = do {
     c \<leftarrow> clients w p;
     ASSERT (\<not> client_closed c);
     case pbuf of
       None \<Rightarrow> do { w \<leftarrow> client_free_client lw p w; Some (ERR_ABRT, False, w) }
     | Some d \<Rightarrow> do {
         ASSERT (length d > 0);
         if int (length d) > int (length (tc_buf c)) - buf_used c then Some (ERR_MEM, False, w)
         else do {
           c \<leftarrow> pbuf_copy_partial d c;
           let c = c\<lparr>buf_used := buf_used c + int (length d)\<rparr>;
           let w = put_client p c w;
           if buf_used c = int (length d) \<and> socks_up c then do {
             ASSERT (\<not> socks_closed c);
             w \<leftarrow> client_send_to_socks p w;
             (dead, w) \<leftarrow> catching p script w;
             Some (if dead then (ERR_ABRT, False, w) else (ERR_OK, True, w))
           }
           else Some (ERR_OK, True, w)
         }
       }
   }"

definition client_sent_func :: "lwip \<Rightarrow> sync \<Rightarrow> ptr \<Rightarrow> int \<Rightarrow> relay \<Rightarrow> (int \<times> relay) option" where
  "client_sent_func lw script p len w = do {
     c \<leftarrow> clients w p;
     ASSERT (\<not> client_closed c);
     ASSERT (socks_up c);
     ASSERT (len > 0);
     ASSERT (len \<le> socks_recv_tcp_pending c);
     let c = c\<lparr>socks_recv_tcp_pending := socks_recv_tcp_pending c - len\<rparr>;
     if socks_recv_buf_used c > 0 then do {
       ASSERT (socks_recv_waiting c);
       ASSERT (socks_recv_buf_sent c < socks_recv_buf_used c);
       (r, w) \<leftarrow> client_socks_recv_send_out lw p (put_client p (c\<lparr>socks_recv_waiting := False\<rparr>) w);
       if r < 0 then Some (ERR_ABRT, w)
       else do {
         c \<leftarrow> clients w p;
         ASSERT (socks_recv_tcp_pending c > 0);
         if socks_recv_buf_used c = - 1 \<and> \<not> socks_closed c then do {
           w \<leftarrow> client_socks_recv_initiate p w;
           (dead, w) \<leftarrow> catching p script w;
           Some (if dead then ERR_ABRT else ERR_OK, w)
         }
         else Some (ERR_OK, w)
       }
     }
     else if socks_closed c \<and> socks_recv_tcp_pending c = 0 then do {
       w \<leftarrow> client_free_client lw p (put_client p c w);
       Some (ERR_ABRT, w)
     }
     else Some (ERR_OK, put_client p c w)
   }"

text \<open>
  \<open>malloc\<close> is the address and content of the memory for the structure, \<open>concat_ok\<close> whether
  \<open>concat_strings\<close> gets memory, \<open>socks_ok\<close> whether \<open>BSocksClient_Init\<close> succeeds.
\<close>

record accept_params =
  ac_malloc :: "(ptr \<times> tcp_client) option"
  ac_concat_ok :: bool
  ac_socks_ok :: bool
  ac_local :: BAddr
  ac_remote :: BAddr
  ac_pcb :: tcp_pcb

definition new_socks_io :: socks_io where
  "new_socks_io = \<lparr>io_open = True, io_sending = None, io_receiving = False, io_sent = [], io_received = []\<rparr>"

definition listener_accept_func ::
  "(BAddr \<Rightarrow> string) \<Rightarrow> string option \<Rightarrow> bool \<Rightarrow> sync \<Rightarrow> accept_params \<Rightarrow> relay \<Rightarrow> (int \<times> relay) option" where
  "listener_accept_func BAddr_Print username append_source_to_username script a w =
     (case ac_malloc a of None \<Rightarrow> Some (ERR_MEM, w)
      | Some (p, mem) \<Rightarrow> do {
        let user = (case username of None \<Rightarrow> None
          | Some u \<Rightarrow> if append_source_to_username then Some (u @ ''@'' @ BAddr_Print (ac_remote a)) else None);
        if user \<noteq> None \<and> \<not> ac_concat_ok a then Some (ERR_MEM, w)
        else do {
          let w = (if user \<noteq> None then w\<lparr>relay_username := user\<rparr> else w);
          if \<not> ac_socks_ok a then Some (ERR_MEM, w)
          else do {
            ASSERT (num_clients w \<ge> 0);
            b \<leftarrow> tcp_err True (ac_pcb a);
            b \<leftarrow> tcp_recv True b;
            let c = mem\<lparr>dead_client := False, tc_local_addr := ac_local a, tc_remote_addr := ac_remote a, tc_pcb := b,
              client_closed := False, buf_used := 0, socks_username := user, socks_client := new_socks_io,
              socks_up := False, socks_closed := False\<rparr>;
            let w = (put_client p c w)\<lparr>tcp_clients := tcp_clients w @ [p], num_clients := num_clients w + 1\<rparr>;
            (dead, w) \<leftarrow> catching p script w;
            Some (if dead then ERR_ABRT else ERR_OK, w)
          }
        }
      })"

section \<open>The relay in its environment\<close>

datatype relay_event =
    Accept sync accept_params
  | TcpError ptr lwip
  | TcpReceive ptr lwip sync "bytes option"
  | TcpAcked ptr lwip sync int
  | Socks ptr lwip socks_action

text \<open>
  lwIP calls only registered callbacks of connections that are held; it delivers at most what the
  window allows, reports as sent at most what was written and not reported before, and gives up the
  connection before it calls the error callback.  A new connection has no history, and \<open>malloc\<close>
  returns memory that is not in use.  The sizes of the two buffers (\<open>TCP_WND\<close> and
  \<open>CLIENT_SOCKS_RECV_BUF_SIZE\<close>, 5840 and 8192 bytes in the build) are left open: they are the lengths
  of the buffers, and positive.
\<close>

definition new_pcb :: "tcp_pcb \<Rightarrow> bool" where
  "new_pcb b \<longleftrightarrow> pcb_held b \<and> \<not> pcb_err b \<and> \<not> pcb_recv b \<and> \<not> pcb_sent b \<and> pcb_delivered b = [] \<and> pcb_recved b = 0 \<and>
     pcb_written b = [] \<and> pcb_acked b = 0"

fun relay_legal :: "relay_event \<Rightarrow> relay \<Rightarrow> bool" where
  "relay_legal (Accept script a) w = (new_pcb (ac_pcb a) \<and>
     (case ac_malloc a of None \<Rightarrow> True | Some (p, mem) \<Rightarrow> clients w p = None \<and> tc_buf mem \<noteq> [] \<and> socks_recv_buf mem \<noteq> []))"
| "relay_legal (TcpError p lw) w = (case clients w p of None \<Rightarrow> False | Some c \<Rightarrow> pcb_held (tc_pcb c) \<and> pcb_err (tc_pcb c))"
| "relay_legal (TcpReceive p lw script pbuf) w = (case clients w p of None \<Rightarrow> False
     | Some c \<Rightarrow> pcb_held (tc_pcb c) \<and> pcb_recv (tc_pcb c) \<and> (case pbuf of None \<Rightarrow> True
       | Some d \<Rightarrow> d \<noteq> [] \<and> int (length (pcb_delivered (tc_pcb c))) - pcb_recved (tc_pcb c) + int (length d) \<le> int (length (tc_buf c))))"
| "relay_legal (TcpAcked p lw script n) w = (case clients w p of None \<Rightarrow> False
     | Some c \<Rightarrow> pcb_held (tc_pcb c) \<and> pcb_sent (tc_pcb c) \<and> 0 < n \<and>
         n \<le> int (length (pcb_written (tc_pcb c))) - pcb_acked (tc_pcb c))"
| "relay_legal (Socks p lw a) w = socks_can p a w"

fun relay_step :: "(BAddr \<Rightarrow> string) \<Rightarrow> string option \<Rightarrow> bool \<Rightarrow> relay_event \<Rightarrow> relay \<Rightarrow> relay option" where
  "relay_step pr user app (Accept script a) w = map_option snd (listener_accept_func pr user app script a w)"
| "relay_step pr user app (TcpError p lw) w = do {
     c \<leftarrow> clients w p;
     let b = (tc_pcb c)\<lparr>pcb_held := False, pcb_err := False, pcb_recv := False, pcb_sent := False\<rparr>;
     client_err_func lw p (put_client p (c\<lparr>tc_pcb := b\<rparr>) w)
   }"
| "relay_step pr user app (TcpReceive p lw script pbuf) w = map_option (snd \<circ> snd) (client_recv_func lw script p pbuf w)"
| "relay_step pr user app (TcpAcked p lw script n) w = do {
     c \<leftarrow> clients w p;
     let b = (tc_pcb c)\<lparr>pcb_acked := pcb_acked (tc_pcb c) + n\<rparr>;
     map_option snd (client_sent_func lw script p n (put_client p (c\<lparr>tc_pcb := b\<rparr>) w))
   }"
| "relay_step pr user app (Socks p lw a) w = socks_do lw p a w"

definition relay_start :: relay where
  "relay_start = \<lparr>clients = (\<lambda>_. None), tcp_clients = [], num_clients = 0, relay_username = None, badvpn_dead = None\<rparr>"

section \<open>Invariant\<close>

text \<open>
  \<open>cl_base\<close> holds of a client at all times: flags agree with what the neighbours see, the send
  operation covers a prefix of the buffer, and the bytes accepted from the device are those sent to the
  SOCKS server followed by the buffer's content.  \<open>cl_down\<close> is the other direction, for a client
  whose device side is open.  \<open>cl_live\<close>: a client that is closed on one side still has something to
  do for the other.
\<close>

definition cl_base :: "tcp_client \<Rightarrow> bool" where
  "cl_base c \<longleftrightarrow>
     0 \<le> buf_used c \<and> buf_used c \<le> int (length (tc_buf c)) \<and> socks_recv_buf c \<noteq> [] \<and>
     pcb_held (tc_pcb c) = (\<not> client_closed c) \<and> pcb_err (tc_pcb c) = (\<not> client_closed c) \<and>
     pcb_recv (tc_pcb c) = (\<not> client_closed c \<and> \<not> socks_closed c) \<and>
     pcb_sent (tc_pcb c) = (\<not> client_closed c \<and> socks_up c) \<and>
     io_open (socks_client c) = (\<not> socks_closed c) \<and>
     (io_sending (socks_client c) = None \<longleftrightarrow> \<not> (socks_up c \<and> \<not> socks_closed c \<and> 0 < buf_used c)) \<and>
     (\<forall>m. io_sending (socks_client c) = Some m \<longrightarrow> 0 < m \<and> m \<le> buf_used c) \<and>
     (io_receiving (socks_client c) \<longrightarrow> socks_up c \<and> \<not> socks_closed c \<and> socks_recv_buf_used c = - 1) \<and>
     pcb_delivered (tc_pcb c) = io_sent (socks_client c) @ take (nat (buf_used c)) (tc_buf c) \<and>
     (\<not> client_closed c \<longrightarrow> pcb_recved (tc_pcb c) = int (length (io_sent (socks_client c)))) \<and>
     (\<not> socks_up c \<longrightarrow> io_sent (socks_client c) = [] \<and> io_received (socks_client c) = [] \<and>
        pcb_written (tc_pcb c) = [] \<and> pcb_acked (tc_pcb c) = 0) \<and>
     prefix (pcb_written (tc_pcb c)) (io_received (socks_client c))"

definition srb_rest :: "tcp_client \<Rightarrow> bytes" where
  "srb_rest c = (if socks_recv_buf_used c = - 1 then []
     else drop (nat (socks_recv_buf_sent c)) (take (nat (socks_recv_buf_used c)) (socks_recv_buf c)))"

definition srb_ok :: "tcp_client \<Rightarrow> bool" where
  "srb_ok c \<longleftrightarrow> 0 \<le> socks_recv_buf_sent c \<and> socks_recv_buf_sent c < socks_recv_buf_used c \<and>
     socks_recv_buf_used c \<le> int (length (socks_recv_buf c))"

definition pending_ok :: "tcp_client \<Rightarrow> bool" where
  "pending_ok c \<longleftrightarrow> socks_recv_tcp_pending c = int (length (pcb_written (tc_pcb c))) - pcb_acked (tc_pcb c) \<and>
     0 \<le> socks_recv_tcp_pending c \<and> io_received (socks_client c) = pcb_written (tc_pcb c) @ srb_rest c"

definition cl_down :: "tcp_client \<Rightarrow> bool" where
  "cl_down c \<longleftrightarrow> (socks_up c \<longrightarrow> pending_ok c \<and>
     (socks_recv_buf_used c = - 1 \<or> srb_ok c \<and> socks_recv_waiting c \<and> 0 < socks_recv_tcp_pending c) \<and>
     (io_receiving (socks_client c) \<longleftrightarrow> \<not> socks_closed c \<and> socks_recv_buf_used c = - 1))"

definition cl_live :: "tcp_client \<Rightarrow> bool" where
  "cl_live c \<longleftrightarrow> (client_closed c \<longrightarrow> \<not> socks_closed c \<and> 0 < buf_used c) \<and>
     (socks_closed c \<longrightarrow> socks_up c \<and> 0 < socks_recv_tcp_pending c)"

definition cl_inv :: "tcp_client \<Rightarrow> bool" where
  "cl_inv c \<longleftrightarrow> cl_base c \<and> (\<not> client_closed c \<longrightarrow> cl_down c) \<and> cl_live c"

definition relay_shape :: "relay \<Rightarrow> bool" where
  "relay_shape w \<longleftrightarrow> distinct (tcp_clients w) \<and> set (tcp_clients w) = dom (clients w) \<and>
     num_clients w = int (length (tcp_clients w))"

definition gone :: "ptr \<Rightarrow> relay \<Rightarrow> bool" where
  "gone p w = (case clients w p of None \<Rightarrow> True | Some c \<Rightarrow> client_closed c)"

text \<open>The effect of an operation on the client \<open>p\<close>: the others are untouched, and the catching frame
  learns of the end of the device side.\<close>

definition settled :: "ptr \<Rightarrow> relay \<Rightarrow> tcp_client \<Rightarrow> relay \<Rightarrow> bool" where
  "settled p w c w' \<longleftrightarrow> relay_shape w' \<and> (\<forall>q. q \<noteq> p \<longrightarrow> clients w' q = clients w q) \<and>
     (\<forall>c'. clients w' p = Some c' \<longrightarrow> cl_inv c' \<and> dead_client c' = dead_client c \<and> length (tc_buf c') = length (tc_buf c) \<and>
        length (socks_recv_buf c') = length (socks_recv_buf c)) \<and>
     relay_username w' = relay_username w \<and> (client_closed c \<longrightarrow> gone p w') \<and>
     badvpn_dead w' = (if dead_client c \<and> \<not> client_closed c \<and> gone p w' then Some True else badvpn_dead w)"

definition ready :: "ptr \<Rightarrow> relay \<Rightarrow> tcp_client \<Rightarrow> bool" where
  "ready p w c \<longleftrightarrow> relay_shape w \<and> clients w p = Some c \<and> (dead_client c \<and> \<not> client_closed c \<longrightarrow> badvpn_dead w \<noteq> None)"

declare client_closing.simps [simp del] client_socks_recv_send_out_loop.simps [simp del]

lemmas tcp_defs = tcp_err_def tcp_recv_def tcp_sent_def tcp_recved_def tcp_abort_def tcp_close_def tcp_write_def
  remove_callbacks_def BSocksClient_Free'_def

lemma put_client_simps [simp]:
  "clients (put_client p c w) = (clients w)(p \<mapsto> c)" "tcp_clients (put_client p c w) = tcp_clients w"
  "num_clients (put_client p c w) = num_clients w" "relay_username (put_client p c w) = relay_username w"
  "badvpn_dead (put_client p c w) = badvpn_dead w" "put_client p c (put_client p c' w) = put_client p c w"
  by (simp_all add: put_client_def)

lemma shape_put [simp]: "clients w p = Some c \<Longrightarrow> relay_shape (put_client p c' w) = relay_shape w"
  by (auto simp: relay_shape_def)

lemma ready_put: "ready p w c \<Longrightarrow> dead_client c' = dead_client c \<Longrightarrow> client_closed c' = client_closed c \<Longrightarrow> ready p (put_client p c' w) c'"
  by (simp add: ready_def)

lemma DEAD_KILL_ok:
  "ready p w c \<Longrightarrow> \<not> client_closed c \<Longrightarrow> \<exists>w'. DEAD_KILL c w = Some w' \<and> clients w' = clients w \<and> relay_username w' = relay_username w \<and>
     badvpn_dead w' = (if dead_client c then Some True else badvpn_dead w) \<and> relay_shape w'"
  by (simp add: ready_def DEAD_KILL_def relay_shape_def)

lemma client_dealloc_ok:
  assumes "ready p w c" "client_closed c" "socks_closed c"
  shows "\<exists>w'. client_dealloc p w = Some w' \<and> relay_shape w' \<and> clients w' = (clients w)(p := None) \<and>
    relay_username w' = relay_username w \<and> badvpn_dead w' = badvpn_dead w"
proof -
  have s: "distinct (tcp_clients w)" "set (tcp_clients w) = dom (clients w)" "num_clients w = int (length (tcp_clients w))"
    and c: "clients w p = Some c" using assms(1) by (auto simp: ready_def relay_shape_def)
  have p: "p \<in> set (tcp_clients w)" using s(2) c by auto
  then have n: "Suc 0 \<le> length (tcp_clients w)" by (cases "tcp_clients w") auto
  with s p show ?thesis
    by (auto simp: client_dealloc_def c assms relay_shape_def length_remove1 set_remove1_eq of_nat_diff)
qed

lemma handle_freed_settles:
  assumes r: "ready p w c" and n: "\<not> client_closed c" and b: "cl_base (c\<lparr>client_closed := True\<rparr>)"
  shows "\<exists>w'. client_handle_freed_client lw p w = Some w' \<and> settled p w c w' \<and> gone p w'"
proof -
  have c: "clients w p = Some c" "relay_shape w" using r by (auto simp: ready_def)
  from DEAD_KILL_ok [OF r n] obtain w1 where w1: "DEAD_KILL c w = Some w1" "clients w1 = clients w" "relay_username w1 = relay_username w"
    "badvpn_dead w1 = (if dead_client c then Some True else badvpn_dead w)" "relay_shape w1" by blast
  let ?c = "c\<lparr>client_closed := True\<rparr>"
  have r1: "ready p (put_client p ?c w1) ?c" using r w1 by (auto simp: ready_def)
  show ?thesis
  proof (cases "socks_closed c")
    case True
    with client_dealloc_ok [OF r1] w1 n show ?thesis
      by (auto simp: client_handle_freed_client_simps c settled_def gone_def)
  next
    case False
    show ?thesis
    proof (cases "buf_used c > 0")
      case True
      with False b have "cl_inv ?c" by (simp add: cl_inv_def cl_live_def)
      with True False w1 n c show ?thesis
        by (auto simp: client_handle_freed_client_simps settled_def gone_def)
    next
      case empty: False
      let ?s = "(socks_client c)\<lparr>io_open := False, io_sending := None, io_receiving := False\<rparr>"
      let ?d = "?c\<lparr>socks_client := ?s, socks_closed := True\<rparr>"
      have "ready p (put_client p ?d w1) ?d" using r w1 by (auto simp: ready_def)
      from client_dealloc_ok [OF this] False empty w1 n b show ?thesis
        by (auto simp: client_handle_freed_client_simps client_free_socks_simps c settled_def gone_def tcp_defs cl_base_def)
    qed
  qed
qed

lemma settled_put:
  assumes "settled p (put_client p c' w) c' w'" "dead_client c' = dead_client c" "client_closed c' = client_closed c"
    "length (tc_buf c') = length (tc_buf c)" "length (socks_recv_buf c') = length (socks_recv_buf c)"
  shows "settled p w c w'"
  using assms(1) unfolding settled_def assms(2-5) put_client_simps fun_upd_apply
  by (elim conjE, intro conjI allI impI) (simp_all only: if_False simp_thms)

lemma put_settled:
  assumes "ready p w c" "cl_inv c'" "dead_client c' = dead_client c" "client_closed c' = client_closed c"
    "length (tc_buf c') = length (tc_buf c)" "length (socks_recv_buf c') = length (socks_recv_buf c)"
  shows "settled p w c (put_client p c' w)"
  using assms by (auto simp: settled_def ready_def gone_def)

lemma free_client_settles:
  assumes r: "ready p w c" and n: "\<not> client_closed c"
    and b: "\<And>b. pcb_delivered b = pcb_delivered (tc_pcb c) \<Longrightarrow> pcb_written b = pcb_written (tc_pcb c) \<Longrightarrow>
      pcb_acked b = pcb_acked (tc_pcb c) \<Longrightarrow>
      \<not> pcb_held b \<Longrightarrow> \<not> pcb_err b \<Longrightarrow> \<not> pcb_recv b \<Longrightarrow> \<not> pcb_sent b \<Longrightarrow>
      cl_base (c\<lparr>tc_pcb := b, client_closed := True\<rparr>)"
    and h: "pcb_held (tc_pcb c)"
  shows "\<exists>w'. client_free_client lw p w = Some w' \<and> settled p w c w' \<and> gone p w'"
    and "\<exists>w'. client_abort_client lw p w = Some w' \<and> settled p w c w' \<and> gone p w'"
proof -
  have c: "clients w p = Some c" using r by (auto simp: ready_def)
  let ?b = "(tc_pcb c)\<lparr>pcb_err := False, pcb_recv := False, pcb_sent := False, pcb_held := False\<rparr>"
  have "ready p (put_client p (c\<lparr>tc_pcb := ?b\<rparr>) w) (c\<lparr>tc_pcb := ?b\<rparr>)" by (rule ready_put [OF r]) simp_all
  from handle_freed_settles [OF this] n b [of ?b] obtain w' where
    w': "client_handle_freed_client lw p (put_client p (c\<lparr>tc_pcb := ?b\<rparr>) w) = Some w'"
      "settled p (put_client p (c\<lparr>tc_pcb := ?b\<rparr>) w) (c\<lparr>tc_pcb := ?b\<rparr>) w'" "gone p w'" by auto
  have s: "settled p w c w'" by (rule settled_put [OF w'(2)]) simp_all
  show "\<exists>w'. client_free_client lw p w = Some w' \<and> settled p w c w' \<and> gone p w'"
    using w' s by (auto simp: client_free_client_simps c n h tcp_defs err_defs)
  show "\<exists>w'. client_abort_client lw p w = Some w' \<and> settled p w c w' \<and> gone p w'"
    using w' s by (auto simp: client_abort_client_def c n h tcp_defs)
qed

lemma free_socks_settles:
  assumes r: "ready p w c" and b: "cl_base c" and n: "\<not> socks_closed c" and d: "\<not> client_closed c \<longrightarrow> cl_down c"
  shows "\<exists>w'. client_free_socks lw p w = Some w' \<and> settled p w c w'"
proof -
  have c: "clients w p = Some c" using r by (auto simp: ready_def)
  have bf: "io_open (socks_client c)" "pcb_held (tc_pcb c) = (\<not> client_closed c)" using b n by (auto simp: cl_base_def)
  let ?s = "(socks_client c)\<lparr>io_open := False, io_sending := None, io_receiving := False\<rparr>"
  let ?b = "if socks_up c \<and> \<not> client_closed c then (tc_pcb c)\<lparr>pcb_recv := False\<rparr> else tc_pcb c"
  let ?c = "c\<lparr>tc_pcb := ?b, socks_client := ?s, socks_closed := True\<rparr>"
  have r1: "ready p (put_client p ?c w) ?c" by (rule ready_put [OF r]) simp_all
  have e: "client_free_socks lw p w =
     (if socks_up c \<and> (socks_recv_buf_used c \<ge> 0 \<or> socks_recv_tcp_pending c > 0) \<and> \<not> client_closed c then Some (put_client p ?c w)
      else if \<not> client_closed c then client_free_client lw p (put_client p ?c w)
      else client_dealloc p (put_client p ?c w))"
    using bf n c by (simp add: client_free_socks_simps tcp_defs)
  consider "socks_up c" "socks_recv_buf_used c \<ge> 0 \<or> socks_recv_tcp_pending c > 0" "\<not> client_closed c"
    | "\<not> (socks_up c \<and> (socks_recv_buf_used c \<ge> 0 \<or> socks_recv_tcp_pending c > 0))" "\<not> client_closed c"
    | "client_closed c" by blast
  then show ?thesis
  proof cases
    case 1
    with d have "0 < socks_recv_tcp_pending c" by (auto simp: cl_down_def)
    with 1 b n d have "cl_inv ?c"
      by (auto simp: cl_inv_def cl_live_def cl_base_def cl_down_def pending_ok_def srb_rest_def srb_ok_def)
    with 1 e put_settled [OF r, of ?c] show ?thesis by simp
  next
    case 2
    have "\<exists>w'. client_free_client lw p (put_client p ?c w) = Some w' \<and> settled p (put_client p ?c w) ?c w' \<and> gone p w'"
      by (rule free_client_settles [OF r1]) (use 2 b n bf in \<open>auto simp: cl_base_def\<close>)
    then obtain w' where w': "client_free_client lw p (put_client p ?c w) = Some w'" "settled p (put_client p ?c w) ?c w'" by blast
    have "settled p w c w'" by (rule settled_put [OF w'(2)]) simp_all
    with e w'(1) 2 show ?thesis by auto
  next
    case 3
    with client_dealloc_ok [OF r1] e show ?thesis by (auto simp: settled_def gone_def)
  qed
qed

section \<open>Sending to the device\<close>

definition queued :: "bytes \<Rightarrow> tcp_client \<Rightarrow> tcp_client" where
  "queued d c = c\<lparr>tc_pcb := (tc_pcb c)\<lparr>pcb_written := pcb_written (tc_pcb c) @ d\<rparr>,
     socks_recv_buf_sent := socks_recv_buf_sent c + int (length d),
     socks_recv_tcp_pending := socks_recv_tcp_pending c + int (length d)\<rparr>"

lemma queued_simps [simp]:
  "socks_recv_buf (queued d c) = socks_recv_buf c" "socks_recv_buf_used (queued d c) = socks_recv_buf_used c"
  "socks_recv_buf_sent (queued d c) = socks_recv_buf_sent c + int (length d)"
  "socks_recv_tcp_pending (queued d c) = socks_recv_tcp_pending c + int (length d)"
  "socks_recv_waiting (queued d c) = socks_recv_waiting c" "socks_client (queued d c) = socks_client c"
  "tc_pcb (queued d c) = (tc_pcb c)\<lparr>pcb_written := pcb_written (tc_pcb c) @ d\<rparr>" "socks_up (queued d c) = socks_up c"
  "socks_closed (queued d c) = socks_closed c" "client_closed (queued d c) = client_closed c" "dead_client (queued d c) = dead_client c"
  "tc_buf (queued d c) = tc_buf c" "buf_used (queued d c) = buf_used c" "queued d (queued d' c) = queued (d' @ d) c" "queued [] c = c"
  by (simp_all add: queued_def)

lemma srb_take:
  assumes "srb_ok c" "0 \<le> n" "n \<le> socks_recv_buf_used c - socks_recv_buf_sent c"
  shows "mem_read (socks_recv_buf c) (socks_recv_buf_sent c) n = Some (take (nat n) (srb_rest c))"
    and "int (length (srb_rest c)) = socks_recv_buf_used c - socks_recv_buf_sent c"
  using assms by (auto simp: mem_read_def srb_ok_def srb_rest_def drop_take)

lemma srb_rest_queued:
  assumes "prefix d (srb_rest c)" "srb_ok c" 
  shows "srb_rest c = d @ srb_rest (queued d c)"
proof -
  have n: "socks_recv_buf_used c \<noteq> - 1" "nat (socks_recv_buf_sent c + int (length d)) = length d + nat (socks_recv_buf_sent c)"
    using assms(2) by (auto simp: srb_ok_def)
  then have "srb_rest (queued d c) = drop (length d) (srb_rest c)" by (simp add: srb_rest_def add.commute)
  with assms(1) show ?thesis by (auto simp: prefix_def)
qed

lemma send_out_loop_ok:
  assumes "srb_ok c" "pcb_held (tc_pcb c)"
  shows "\<exists>err d. client_socks_recv_send_out_loop lw k c = Some (err, queued d c) \<and> prefix d (srb_rest c)"
  using assms
proof (induction lw k c rule: client_socks_recv_send_out_loop.induct)
  case (1 lw k c)
  define n where "n = min (socks_recv_buf_used c - socks_recv_buf_sent c) (uint (lw_sndbuf lw k))"
  have n: "0 \<le> n" "n \<le> socks_recv_buf_used c - socks_recv_buf_sent c"
    using 1(2) by (auto simp: srb_ok_def n_def)
  note rd = srb_take [OF 1(2) n]
  let ?d = "take (nat n) (srb_rest c)"
  have ld: "int (length ?d) = n" using rd(2) n unfolding length_take by linarith
  have pd: "prefix ?d (srb_rest c)" by (simp add: take_is_prefix)
  note q = client_socks_recv_send_out_loop.simps [of lw k c, folded n_def] and IH = 1(1) [folded n_def]
  show ?case
  proof (cases "n = 0")
    case True
    then show ?thesis by (subst q) (auto intro!: exI [of _ "[]"])
  next
    case nz: False
    show ?thesis
    proof (cases "lw_write lw k = ERR_OK")
      case False
      then show ?thesis using nz rd(1) 1(3)
        by (subst q) (auto simp: tcp_write_def Let_def intro!: exI [of _ "[]"])
    next
      case ok: True
      let ?c = "c\<lparr>tc_pcb := (tc_pcb c)\<lparr>pcb_written := pcb_written (tc_pcb c) @ ?d\<rparr>,
        socks_recv_buf_sent := socks_recv_buf_sent c + n, socks_recv_tcp_pending := socks_recv_tcp_pending c + n\<rparr>"
      have c: "?c = queued ?d c" unfolding queued_def ld ..
      show ?thesis
      proof (cases "socks_recv_buf_sent c + n < socks_recv_buf_used c")
        case False
        have "client_socks_recv_send_out_loop lw k c = Some (ERR_OK, queued ?d c)"
          using nz rd(1) 1(3) ok False by (subst q) (simp add: tcp_write_def Let_def c)
        with pd show ?thesis by blast
      next
        case True
        have "srb_ok (queued ?d c)" using 1(2) True ld by (simp add: srb_ok_def)
        with IH [OF refl nz rd(1) refl, of "(tc_pcb c)\<lparr>pcb_written := pcb_written (tc_pcb c) @ ?d\<rparr>"] ok 1(3) True c ld [unfolded length_take]
        obtain err e where e: "client_socks_recv_send_out_loop lw (Suc k) (queued ?d c) = Some (err, queued e (queued ?d c))"
          "prefix e (srb_rest (queued ?d c))" by (simp add: tcp_write_def) blast
        have "client_socks_recv_send_out_loop lw k c = Some (err, queued (?d @ e) c)"
          using nz rd(1) 1(3) ok True e(1) by (subst q) (simp add: tcp_write_def Let_def c)
        moreover have "prefix (?d @ e) (srb_rest c)"
          using srb_rest_queued [OF pd 1(2)] e(2) by (metis same_prefix_prefix)
        ultimately show ?thesis by blast
      qed
    qed
  qed
qed

lemma queued_base:
  assumes "cl_base c" "pending_ok c" "srb_ok c" "socks_up c" "prefix d (srb_rest c)"
  shows "cl_base (queued d c)" and "pending_ok (queued d c)"
proof -
  note s = srb_rest_queued [OF assms(5,3)]
  show "pending_ok (queued d c)" using assms(2) s by (simp add: pending_ok_def)
  have "prefix (pcb_written (tc_pcb c) @ d) (io_received (socks_client c))"
    using assms(2,5) by (simp add: pending_ok_def)
  then show "cl_base (queued d c)" using assms(1,4) by (auto simp: cl_base_def)
qed

definition queued_ok :: "tcp_client \<Rightarrow> tcp_client \<Rightarrow> bool" where
  "queued_ok c c' \<longleftrightarrow> cl_base c' \<and> pending_ok c' \<and> 0 < socks_recv_tcp_pending c' \<and>
     (socks_recv_buf_used c' = - 1 \<or> srb_ok c' \<and> socks_recv_waiting c') \<and>
     \<not> client_closed c' \<and> socks_up c' \<and> socks_closed c' = socks_closed c \<and> socks_client c' = socks_client c \<and>
     dead_client c' = dead_client c \<and> tc_buf c' = tc_buf c \<and> socks_recv_buf c' = socks_recv_buf c"

text \<open>When data is queued for the device, either the device side had to be given up, or everything
  was written, or the rest waits for an acknowledgement that is outstanding.\<close>

lemma send_out_ok:
  assumes r: "ready p w c" and o: "\<not> client_closed c" "socks_up c" "\<not> socks_recv_waiting c"
    and b: "cl_base c" and s: "srb_ok c" "pending_ok c"
  shows "\<exists>x w'. client_socks_recv_send_out lw p w = Some (x, w') \<and>
    (x = - 1 \<and> settled p w c w' \<and> gone p w' \<or>
     x = 0 \<and> (\<exists>c'. w' = put_client p c' w \<and> queued_ok c c'))"
proof -
  have c: "clients w p = Some c" using r by (auto simp: ready_def)
  have h: "pcb_held (tc_pcb c)" using b o by (simp add: cl_base_def)
  from send_out_loop_ok [OF s(1) h, of lw 0] obtain err d where
    d: "client_socks_recv_send_out_loop lw 0 c = Some (err, queued d c)" "prefix d (srb_rest c)" by blast
  note qb = queued_base [OF b s(2,1) o(2) d(2)]
  have u: "0 < socks_recv_buf_used c" "socks_recv_buf_sent c < socks_recv_buf_used c" using s(1) by (auto simp: srb_ok_def)
  have ld: "int (length d) \<le> socks_recv_buf_used c - socks_recv_buf_sent c"
    using srb_take(2) [OF s(1), of 0] u prefix_length_le [OF d(2)] by simp
  have rq: "ready p (put_client p (queued d c) w) (queued d c)" by (rule ready_put [OF r]) simp_all
  have "\<exists>w'. client_abort_client lw p (put_client p (queued d c) w) = Some w' \<and>
      settled p (put_client p (queued d c) w) (queued d c) w' \<and> gone p w'"
    by (rule free_client_settles(2) [OF rq]) (use qb(1) o h in \<open>auto simp: cl_base_def\<close>)
  then obtain wa where wa: "client_abort_client lw p (put_client p (queued d c) w) = Some wa"
      "settled p (put_client p (queued d c) w) (queued d c) wa" "gone p wa" by blast
  have sa: "settled p w c wa" by (rule settled_put [OF wa(2)]) simp_all
  note e = client_socks_recv_send_out_def [of lw p w]
  let ?go = "err = ERR_OK \<and> lw_output lw = ERR_OK"
  consider "\<not> ?go \<or> socks_recv_buf_sent c + int (length d) < socks_recv_buf_used c \<and> socks_recv_tcp_pending c + int (length d) = 0"
    | "?go" "socks_recv_buf_sent c + int (length d) < socks_recv_buf_used c" "socks_recv_tcp_pending c + int (length d) \<noteq> 0"
    | "?go" "socks_recv_buf_sent c + int (length d) = socks_recv_buf_used c" using ld by linarith
  then show ?thesis
  proof cases
    case 1
    then have "client_socks_recv_send_out lw p w = Some (- 1, wa)"
      using c o u d(1) wa(1) h by (auto simp: e Let_def)
    with sa wa(3) show ?thesis by blast
  next
    case 2
    let ?c = "(queued d c)\<lparr>socks_recv_waiting := True\<rparr>"
    have "client_socks_recv_send_out lw p w = Some (0, put_client p ?c w)"
      using 2 c o u d(1) h by (simp add: e)
    moreover have "cl_base ?c" "pending_ok ?c" "srb_ok ?c" "0 < socks_recv_tcp_pending ?c"
      using qb 2 s by (auto simp: cl_base_def pending_ok_def srb_rest_def srb_ok_def)
    ultimately show ?thesis using o by (intro exI [of _ 0] exI [of _ "put_client p ?c w"] conjI disjI2) (auto simp: queued_ok_def)
  next
    case 3
    let ?c = "(queued d c)\<lparr>socks_recv_buf_used := - 1\<rparr>"
    have "client_socks_recv_send_out lw p w = Some (0, put_client p ?c w)"
      using 3 c o u d(1) h by (simp add: e)
    moreover have "srb_rest (queued d c) = []" using 3 u by (simp add: srb_rest_def)
    then have "cl_base ?c" "pending_ok ?c" using qb 3 by (auto simp: cl_base_def pending_ok_def srb_rest_def)
    moreover have "0 < socks_recv_tcp_pending ?c" using 3 u s(2) by (simp add: pending_ok_def)
    ultimately show ?thesis using o by (intro exI [of _ 0] exI [of _ "put_client p ?c w"] conjI disjI2) (auto simp: queued_ok_def)
  qed
qed

lemma recv_initiate_ok:
  assumes "clients w p = Some c" "\<not> client_closed c" "\<not> socks_closed c" "socks_up c" "socks_recv_buf_used c = - 1"
    "io_open (socks_client c)" "\<not> io_receiving (socks_client c)" "socks_recv_buf c \<noteq> []"
  shows "client_socks_recv_initiate p w = Some (put_client p (c\<lparr>socks_client := (socks_client c)\<lparr>io_receiving := True\<rparr>\<rparr>) w)"
  using assms by (simp add: client_socks_recv_initiate_def StreamRecv_Recv_def)

lemma cl_inv_receiving:
  assumes "cl_base c" "pending_ok c" "\<not> client_closed c" "socks_up c" "\<not> io_receiving (socks_client c)"
    "\<not> socks_closed c \<Longrightarrow> socks_recv_buf_used c \<noteq> - 1"
    "socks_recv_buf_used c = - 1 \<or> srb_ok c \<and> socks_recv_waiting c" "0 < socks_recv_tcp_pending c"
  shows "cl_inv c"
  using assms by (auto simp: cl_inv_def cl_live_def cl_down_def)

lemma cl_inv_initiated:
  assumes "cl_base c" "pending_ok c" "\<not> client_closed c" "socks_up c" "\<not> socks_closed c" "socks_recv_buf_used c = - 1"
  shows "cl_inv (c\<lparr>socks_client := (socks_client c)\<lparr>io_receiving := True\<rparr>\<rparr>)"
  using assms by (auto simp: cl_inv_def cl_live_def cl_down_def cl_base_def pending_ok_def srb_rest_def)

lemma recv_done_settles:
  assumes r: "ready p w c" and i: "cl_inv c" and can: "socks_can p (RecvDone d) w"
  shows "\<exists>w'. socks_do lw p (RecvDone d) w = Some w' \<and> settled p w c w'"
proof -
  have c: "clients w p = Some c" using r by (auto simp: ready_def)
  have s: "io_receiving (socks_client c)" "d \<noteq> []" "length d \<le> length (socks_recv_buf c)" "io_open (socks_client c)"
    using can c by (auto simp: socks_can_def)
  have f: "socks_up c" "\<not> socks_closed c" "socks_recv_buf_used c = - 1" and b: "cl_base c"
    using i s by (auto simp: cl_inv_def cl_base_def)
  let ?m = "d @ drop (length d) (socks_recv_buf c)"
  let ?s = "(socks_client c)\<lparr>io_receiving := False, io_received := io_received (socks_client c) @ d\<rparr>"
  let ?c = "c\<lparr>socks_recv_buf := ?m, socks_client := ?s\<rparr>"
  have m: "mem_write (socks_recv_buf c) 0 d = Some ?m" "length ?m = length (socks_recv_buf c)"
    using s by (auto simp: mem_write_def)
  have bc: "cl_base ?c" using b s f by (auto simp: cl_base_def)
  have rc: "ready p (put_client p ?c w) ?c" by (rule ready_put [OF r]) simp_all
  show ?thesis
  proof (cases "client_closed c")
    case True
    have "cl_inv ?c" using True bc i by (auto simp: cl_inv_def cl_live_def)
    then have "settled p w c (put_client p ?c w)" by (rule put_settled [OF r]) (use m(2) in simp_all)
    moreover have "socks_do lw p (RecvDone d) w = Some (put_client p ?c w)"
      using True c m f s by (simp add: client_socks_recv_handler_done_def)
    ultimately show ?thesis by blast
  next
    case False
    let ?e = "?c\<lparr>socks_recv_buf_used := int (length d), socks_recv_buf_sent := 0, socks_recv_waiting := False\<rparr>"
    have re: "ready p (put_client p ?e w) ?e" by (rule ready_put [OF r]) simp_all
    have dn: "pending_ok c" using i False f by (simp add: cl_inv_def cl_down_def)
    have be: "cl_base ?e" using bc by (simp add: cl_base_def)
    have pe: "srb_ok ?e" "pending_ok ?e"
      using dn s f by (auto simp: srb_ok_def pending_ok_def srb_rest_def)
    from send_out_ok [OF re, of lw] False f be pe obtain x w1 where
      w1: "client_socks_recv_send_out lw p (put_client p ?e w) = Some (x, w1)" and
      alt: "x = - 1 \<and> settled p (put_client p ?e w) ?e w1 \<and> gone p w1 \<or>
       x = 0 \<and> (\<exists>c'. w1 = put_client p c' (put_client p ?e w) \<and> queued_ok ?e c')"
      by fastforce
    have e: "socks_do lw p (RecvDone d) w = (if x < 0 then Some w1 else do { c \<leftarrow> clients w1 p;
         if socks_recv_buf_used c = - 1 then client_socks_recv_initiate p w1 else Some w1 })"
      using False c m f s w1 by (simp add: client_socks_recv_handler_done_def)
    from alt show ?thesis
    proof
      assume "x = - 1 \<and> settled p (put_client p ?e w) ?e w1 \<and> gone p w1"
      then have x: "x = - 1" "settled p (put_client p ?e w) ?e w1" by blast+
      have "settled p w c w1" by (rule settled_put [OF x(2)]) (use m(2) in simp_all)
      with e x(1) show ?thesis by simp
    next
      assume "x = 0 \<and> (\<exists>c'. w1 = put_client p c' (put_client p ?e w) \<and> queued_ok ?e c')"
      then obtain c' where x: "x = 0" "w1 = put_client p c' (put_client p ?e w)" and c': "queued_ok ?e c'" by blast
      note c' = c' [unfolded queued_ok_def]
      show ?thesis
      proof (cases "socks_recv_buf_used c' = - 1")
        case True
        let ?g = "c'\<lparr>socks_client := (socks_client c')\<lparr>io_receiving := True\<rparr>\<rparr>"
        have "cl_inv ?g" by (rule cl_inv_initiated) (use c' True f in simp_all)
        then have "settled p w c (put_client p ?g w)" by (rule put_settled [OF r]) (use c' m(2) False in simp_all)
        moreover have "client_socks_recv_initiate p (put_client p c' w) = Some (put_client p ?g w)"
          by (subst recv_initiate_ok [of _ _ c']) (use c' True f s in auto)
        ultimately show ?thesis using e x True by simp
      next
        case nd: False
        have "cl_inv c'" by (rule cl_inv_receiving) (use c' nd in simp_all)
        then have "settled p w c (put_client p c' w)" by (rule put_settled [OF r]) (use c' m(2) False in simp_all)
        with e x nd show ?thesis by simp
      qed
    qed
  qed
qed

section \<open>Events of the SOCKS connection keep the invariant\<close>

lemma send_done_settles:
  assumes r: "ready p w c" and i: "cl_inv c" and can: "socks_can p (SendDone n) w"
  shows "\<exists>w'. socks_do lw p (SendDone n) w = Some w' \<and> settled p w c w'"
proof -
  have c: "clients w p = Some c" using r by (auto simp: ready_def)
  have b: "cl_base c" using i by (simp add: cl_inv_def)
  obtain m where m: "io_sending (socks_client c) = Some m" "0 < n" "n \<le> m" "io_open (socks_client c)"
    using can c by (auto simp: socks_can_def split: option.splits)
  have f: "socks_up c" "\<not> socks_closed c" "0 < buf_used c" "m \<le> buf_used c" "buf_used c \<le> int (length (tc_buf c))"
    using b m by (auto simp: cl_base_def)
  let ?k = "buf_used c - n"
  let ?d = "take (nat n) (tc_buf c)" and ?r = "take (nat ?k) (drop (nat n) (tc_buf c))"
  let ?m = "?r @ drop (nat ?k) (tc_buf c)"
  have rd: "mem_read (tc_buf c) 0 n = Some ?d" "mem_read (tc_buf c) n ?k = Some ?r" "length ?r = nat ?k"
    using m f by (auto simp: mem_read_def)
  then have wr: "mem_write (tc_buf c) 0 ?r = Some ?m" using f m by (simp add: mem_write_def)
  have lm: "length ?m = length (tc_buf c)" using mem_write_length [OF wr] .
  have split: "take (nat (buf_used c)) (tc_buf c) = ?d @ take (nat ?k) ?m"
  proof -
    have "nat (buf_used c) = nat n + nat ?k" using m f by simp
    then show ?thesis using rd(3) by (simp add: take_add)
  qed
  let ?b = "if client_closed c then tc_pcb c else (tc_pcb c)\<lparr>pcb_recved := pcb_recved (tc_pcb c) + n\<rparr>"
  let ?s = "(socks_client c)\<lparr>io_sending := None, io_sent := io_sent (socks_client c) @ ?d\<rparr>"
  let ?c = "c\<lparr>socks_client := ?s, tc_buf := ?m, buf_used := ?k, tc_pcb := ?b\<rparr>"
  let ?g = "?c\<lparr>socks_client := ?s\<lparr>io_sending := Some ?k\<rparr>\<rparr>"
  have ld: "int (length ?d) = n" using m f by simp
  have e: "socks_do lw p (SendDone n) w =
      (if 0 < ?k then Some (put_client p ?g w) else if client_closed c then client_free_socks lw p (put_client p ?c w)
       else Some (put_client p ?c w))"
    using c rd wr m f b lm
    by (auto simp: client_socks_send_handler_done_def StreamPass_Send_def tcp_defs cl_base_def)
  have base: "cl_base ?g" if "0 < ?k"
    using b m f that split ld lm by (auto simp: cl_base_def)
  have base0: "cl_base ?c" if "?k = 0"
    using b m f that split ld lm by (auto simp: cl_base_def)
  have down: "cl_down ?g" "cl_down ?c" if "\<not> client_closed c"
    using i that by (auto simp: cl_inv_def cl_down_def pending_ok_def srb_rest_def srb_ok_def)
  consider "0 < ?k" | "?k = 0" "client_closed c" | "?k = 0" "\<not> client_closed c" using m f by linarith
  then show ?thesis
  proof cases
    case 1
    then have "cl_inv ?g" using base down i f by (auto simp: cl_inv_def cl_live_def)
    then have "settled p w c (put_client p ?g w)" by (rule put_settled [OF r]) (use lm in simp_all)
    with e 1 show ?thesis by simp
  next
    case 2
    have "ready p (put_client p ?c w) ?c" by (rule ready_put [OF r]) simp_all
    from free_socks_settles [OF this base0 [OF 2(1)], of lw] 2 f obtain w' where
      w': "client_free_socks lw p (put_client p ?c w) = Some w'" "settled p (put_client p ?c w) ?c w'" by auto
    have "settled p w c w'" by (rule settled_put [OF w'(2)]) (use lm in simp_all)
    with e 2 w'(1) show ?thesis by simp
  next
    case 3
    then have "cl_inv ?c" using base0 down i f by (auto simp: cl_inv_def cl_live_def)
    then have "settled p w c (put_client p ?c w)" by (rule put_settled [OF r]) (use lm in simp_all)
    with e 3 show ?thesis by simp
  qed
qed

lemma socks_up_settles:
  assumes r: "ready p w c" and i: "cl_inv c" and can: "socks_can p (SocksEvent BSOCKSCLIENT_EVENT_UP) w"
  shows "\<exists>w'. socks_do lw p (SocksEvent BSOCKSCLIENT_EVENT_UP) w = Some w' \<and> settled p w c w'"
proof -
  have c: "clients w p = Some c" using r by (auto simp: ready_def)
  have f: "\<not> socks_up c" "\<not> socks_closed c" "io_open (socks_client c)" and b: "cl_base c" and l: "client_closed c \<longrightarrow> 0 < buf_used c"
    using i can c by (auto simp: socks_can_def cl_inv_def cl_base_def cl_live_def)
  let ?b = "if client_closed c then tc_pcb c else (tc_pcb c)\<lparr>pcb_sent := True\<rparr>"
  let ?s = "(socks_client c)\<lparr>io_sending := (if 0 < buf_used c then Some (buf_used c) else None),
    io_receiving := \<not> client_closed c\<rparr>"
  let ?c = "c\<lparr>socks_recv_buf_used := - 1, socks_recv_tcp_pending := 0, tc_pcb := ?b, socks_up := True, socks_client := ?s\<rparr>"
  have idle: "io_sending (socks_client c) = None" "\<not> io_receiving (socks_client c)" "pcb_held (tc_pcb c) = (\<not> client_closed c)"
    "buf_used c \<le> int (length (tc_buf c))" "socks_recv_buf c \<noteq> []"
    using b f by (auto simp: cl_base_def)
  have "socks_do lw p (SocksEvent BSOCKSCLIENT_EVENT_UP) w = Some (put_client p ?c w)"
    using c f idle
    by (cases "client_closed c"; cases "0 < buf_used c"; cases c; cases "socks_client c")
      (auto simp: client_socks_handler_def client_send_to_socks_def StreamPass_Send_def tcp_defs
        client_socks_recv_initiate_def StreamRecv_Recv_def)
  moreover have "cl_inv ?c"
    using b f l by (auto simp: cl_inv_def cl_base_def cl_down_def cl_live_def pending_ok_def srb_rest_def)
  then have "settled p w c (put_client p ?c w)" by (rule put_settled [OF r]) simp_all
  ultimately show ?thesis by blast
qed

lemma socks_do_settles:
  assumes r: "ready p w c" and i: "cl_inv c" and can: "socks_can p a w"
  shows "\<exists>w'. socks_do lw p a w = Some w' \<and> settled p w c w'"
proof -
  have c: "clients w p = Some c" using r by (auto simp: ready_def)
  have o: "\<not> socks_closed c" using i can c by (auto simp: socks_can_def cl_inv_def cl_base_def)
  from free_socks_settles [OF r _ o, of lw] i have fs: "\<exists>w'. client_free_socks lw p w = Some w' \<and> settled p w c w'"
    by (auto simp: cl_inv_def)
  show ?thesis
  proof (cases a)
    case (SocksEvent e)
    show ?thesis
    proof (cases e)
      case BSOCKSCLIENT_EVENT_UP
      with socks_up_settles [OF r i] can SocksEvent show ?thesis by blast
    qed (use SocksEvent fs o c can in \<open>auto simp: client_socks_handler_def socks_can_def\<close>)
  next
    case (SendDone n)
    with send_done_settles [OF r i] can show ?thesis by blast
  next
    case (RecvDone d)
    with recv_done_settles [OF r i] can show ?thesis by blast
  qed
qed

text \<open>Inside a catching frame the variable tells whether the device side of the client is gone.\<close>

definition caught :: "ptr \<Rightarrow> relay \<Rightarrow> relay \<Rightarrow> bool" where
  "caught p w0 w \<longleftrightarrow> relay_shape w \<and> (\<forall>q. q \<noteq> p \<longrightarrow> clients w q = clients w0 q) \<and> relay_username w = relay_username w0 \<and>
     badvpn_dead w = Some (gone p w) \<and> (\<forall>c. clients w p = Some c \<longrightarrow> cl_inv c \<and> dead_client c)"

lemma SYNC_COMMIT_ok:
  "caught p w0 w \<Longrightarrow> \<exists>w'. SYNC_COMMIT p script w = Some w' \<and> caught p w0 w'"
proof (induction script arbitrary: w)
  case (Cons x script)
  obtain lw a where x: "x = (lw, a)" by (cases x)
  show ?case
  proof (cases "socks_can p a w")
    case False
    with Cons x show ?thesis by simp
  next
    case True
    then obtain c where c: "clients w p = Some c" by (auto simp: socks_can_def split: option.splits)
    have r: "ready p w c" and i: "cl_inv c" "dead_client c" and d: "badvpn_dead w = Some (client_closed c)"
      using Cons.prems c by (auto simp: caught_def ready_def gone_def)
    from socks_do_settles [OF r i(1) True, of lw] obtain w' where
      w': "socks_do lw p a w = Some w'" "settled p w c w'" by blast
    have "caught p w0 w'"
      using w'(2) Cons.prems i(2) d by (auto simp: caught_def settled_def)
    from Cons.IH [OF this] w'(1) True x show ?thesis by simp
  qed
qed simp

lemma cl_inv_dead_client [simp]: "cl_inv (c\<lparr>dead_client := v\<rparr>) = cl_inv c"
  by (simp add: cl_inv_def cl_base_def cl_down_def cl_live_def pending_ok_def srb_ok_def srb_rest_def)

lemma relay_shape_dead [simp]: "relay_shape (w\<lparr>badvpn_dead := x\<rparr>) = relay_shape w"
  by (simp add: relay_shape_def)

lemma catching_ok:
  assumes s: "relay_shape w" "badvpn_dead w = None" and c: "clients w p = Some c" "cl_inv c" "\<not> dead_client c" "\<not> client_closed c"
  shows "\<exists>w'. catching p script w = Some (gone p w', w') \<and> relay_shape w' \<and> badvpn_dead w' = None \<and>
    relay_username w' = relay_username w \<and> (\<forall>q. q \<noteq> p \<longrightarrow> clients w' q = clients w q) \<and>
    (\<forall>c'. clients w' p = Some c' \<longrightarrow> cl_inv c' \<and> (dead_client c' \<longrightarrow> client_closed c'))"
proof -
  let ?w = "(put_client p (c\<lparr>dead_client := True\<rparr>) w)\<lparr>badvpn_dead := Some False\<rparr>"
  have "caught p w ?w" using s c by (simp add: caught_def gone_def)
  from SYNC_COMMIT_ok [OF this] obtain w' where w': "SYNC_COMMIT p script ?w = Some w'" "caught p w w'" by blast
  have e: "catching p script w = DEAD_LEAVE2 p w'" using s c w'(1) by (simp add: catching_def DEAD_ENTER_def)
  show ?thesis
  proof (cases "gone p w'")
    case True
    with w'(2) have "DEAD_LEAVE2 p w' = Some (True, w'\<lparr>badvpn_dead := None\<rparr>)" by (simp add: DEAD_LEAVE2_def caught_def)
    then show ?thesis using True w'(2) e by (auto simp: caught_def gone_def)
  next
    case False
    then obtain c' where c': "clients w' p = Some c'" "\<not> client_closed c'" by (auto simp: gone_def split: option.splits)
    let ?v = "(put_client p (c'\<lparr>dead_client := False\<rparr>) w')\<lparr>badvpn_dead := None\<rparr>"
    have "DEAD_LEAVE2 p w' = Some (False, ?v)" using False w'(2) c' by (simp add: DEAD_LEAVE2_def caught_def)
    then show ?thesis using w'(2) c' e
      by (intro exI [of _ ?v]) (simp add: caught_def gone_def)
  qed
qed

section \<open>The relay keeps its invariant\<close>

definition relay_inv :: "relay \<Rightarrow> bool" where
  "relay_inv w \<longleftrightarrow> relay_shape w \<and> badvpn_dead w = None \<and>
     (\<forall>p c. clients w p = Some c \<longrightarrow> cl_inv c \<and> (dead_client c \<longrightarrow> client_closed c))"

lemma relay_start_inv: "relay_inv relay_start"
  by (simp add: relay_inv_def relay_start_def relay_shape_def)

lemma settled_inv:
  assumes "relay_inv w" "clients w p = Some c" "settled p w c' w'" "dead_client c' = dead_client c" "client_closed c' = client_closed c"
  shows "relay_inv w'"
proof -
  have i: "relay_shape w'" "badvpn_dead w' = None" and q: "\<And>q. q \<noteq> p \<Longrightarrow> clients w' q = clients w q"
    and d: "dead_client c \<longrightarrow> gone p w'" and n: "\<And>x. clients w' p = Some x \<Longrightarrow> cl_inv x \<and> dead_client x = dead_client c"
    using assms by (simp_all add: settled_def relay_inv_def)
  have "cl_inv x \<and> (dead_client x \<longrightarrow> client_closed x)" if "clients w' r = Some x" for r x
  proof (cases "r = p")
    case True
    with n [of x] d that show ?thesis by (auto simp: gone_def)
  next
    case False
    with q [of r] that assms(1) show ?thesis by (simp add: relay_inv_def)
  qed
  with i show ?thesis by (simp add: relay_inv_def)
qed

lemma relay_inv_client:
  assumes "relay_inv w" "clients w p = Some c"
  shows "cl_inv c" "ready p w c" "\<not> client_closed c \<Longrightarrow> \<not> dead_client c" "relay_shape w" "badvpn_dead w = None"
  using assms by (auto simp: relay_inv_def ready_def)

lemma relay_inv_put:
  assumes "relay_inv w" "clients w p = Some c" "cl_inv c'" "dead_client c' \<longrightarrow> client_closed c'"
  shows "relay_inv (put_client p c' w)"
  using assms by (auto simp: relay_inv_def)

lemma catching_inv:
  assumes i: "relay_inv w" and c: "clients w p = Some c" "\<not> client_closed c"
  shows "\<exists>w'. catching p script w = Some (gone p w', w') \<and> relay_inv w'"
proof -
  note f = relay_inv_client [OF i c(1)]
  from catching_ok [OF f(4,5) c(1) f(1) f(3) [OF c(2)] c(2), of script] obtain w' where
    w': "catching p script w = Some (gone p w', w')" "relay_shape w'" "badvpn_dead w' = None"
      "\<And>q. q \<noteq> p \<Longrightarrow> clients w' q = clients w q"
      "\<And>c'. clients w' p = Some c' \<Longrightarrow> cl_inv c' \<and> (dead_client c' \<longrightarrow> client_closed c')" by blast
  have "cl_inv x \<and> (dead_client x \<longrightarrow> client_closed x)" if "clients w' r = Some x" for r x
    using w'(4) [of r] w'(5) [of x] that i by (cases "r = p") (auto simp: relay_inv_def)
  with w' show ?thesis by (auto simp: relay_inv_def)
qed

lemma client_recv_ok:
  assumes i: "relay_inv w" and l: "relay_legal (TcpReceive p lw script pbuf) w"
  shows "\<exists>err freed w'. client_recv_func lw script p pbuf w = Some (err, freed, w') \<and> relay_inv w' \<and>
    (if gone p w' then err = ERR_ABRT \<and> \<not> freed else err = ERR_OK \<and> freed)"
proof -
  from l obtain c where c: "clients w p = Some c" "pcb_held (tc_pcb c)" "pcb_recv (tc_pcb c)" by (auto split: option.splits)
  note ci = relay_inv_client [OF i c(1)]
  have b: "cl_base c" and n: "\<not> client_closed c" "\<not> socks_closed c" using ci c by (auto simp: cl_inv_def cl_base_def)
  show ?thesis
  proof (cases pbuf)
    case None
    have "\<exists>w'. client_free_client lw p w = Some w' \<and> settled p w c w' \<and> gone p w'"
      by (rule free_client_settles(1) [OF ci(2) n(1)]) (use b n c in \<open>auto simp: cl_base_def\<close>)
    with settled_inv [OF i c(1)] None c n show ?thesis by (fastforce simp: client_recv_func_def)
  next
    case (Some d)
    have d: "d \<noteq> []" "buf_used c + int (length d) \<le> int (length (tc_buf c))" "0 \<le> buf_used c"
      using l Some c b n by (auto simp: cl_base_def)
    let ?m = "take (nat (buf_used c)) (tc_buf c) @ d @ drop (nat (buf_used c) + length d) (tc_buf c)"
    have m: "mem_write (tc_buf c) (buf_used c) d = Some ?m" using d by (simp add: mem_write_def)
    have lm: "length ?m = length (tc_buf c)" using mem_write_length [OF m] .
    let ?b = "(tc_pcb c)\<lparr>pcb_delivered := pcb_delivered (tc_pcb c) @ d\<rparr>"
    let ?u = "buf_used c + int (length d)"
    let ?c = "c\<lparr>tc_buf := ?m, tc_pcb := ?b, buf_used := ?u\<rparr>"
    let ?s = "(socks_client c)\<lparr>io_sending := Some ?u\<rparr>"
    have tk: "take (nat ?u) ?m = take (nat (buf_used c)) (tc_buf c) @ d" using d by (simp add: nat_add_distrib)
    show ?thesis
    proof (cases "buf_used c = 0 \<and> socks_up c")
      case True
      let ?g = "?c\<lparr>socks_client := ?s\<rparr>"
      have "cl_inv ?g" using ci(1) True n d tk lm
        by (auto simp: cl_inv_def cl_base_def cl_down_def cl_live_def pending_ok_def srb_ok_def srb_rest_def)
      then have ig: "relay_inv (put_client p ?g w)" using relay_inv_put [OF i c(1)] n ci(3) by simp
      from catching_inv [OF ig, of p ?g script] n obtain w' where
        w': "catching p script (put_client p ?g w) = Some (gone p w', w')" "relay_inv w'" by auto
      have "io_open (socks_client c)" "io_sending (socks_client c) = None" using b n True by (auto simp: cl_base_def)
      then show ?thesis using Some c n d m True w' lm
        by (auto simp: client_recv_func_def pbuf_copy_partial_def client_send_to_socks_def StreamPass_Send_def)
    next
      case False
      have "cl_inv ?c" using ci(1) False n d tk lm
        by (auto simp: cl_inv_def cl_base_def cl_down_def cl_live_def pending_ok_def srb_ok_def srb_rest_def)
      then have "relay_inv (put_client p ?c w)" using relay_inv_put [OF i c(1)] n ci(3) by simp
      moreover have "client_recv_func lw script p pbuf w = Some (ERR_OK, True, put_client p ?c w)"
        using Some c n d m False by (auto simp: client_recv_func_def pbuf_copy_partial_def)
      moreover have "\<not> gone p (put_client p ?c w)" using n by (simp add: gone_def)
      ultimately show ?thesis by (intro exI conjI) (assumption, assumption, simp)
    qed
  qed
qed

lemma client_sent_ok:
  assumes i: "relay_inv w" and l: "relay_legal (TcpAcked p lw script n) w" and c: "clients w p = Some c"
  shows "\<exists>err w'. client_sent_func lw script p n (put_client p (c\<lparr>tc_pcb := (tc_pcb c)\<lparr>pcb_acked := pcb_acked (tc_pcb c) + n\<rparr>\<rparr>) w) =
    Some (err, w') \<and> relay_inv w' \<and> err = (if gone p w' then ERR_ABRT else ERR_OK)"
proof -
  note ci = relay_inv_client [OF i c]
  have b: "cl_base c" and f: "\<not> client_closed c" "socks_up c" using l c ci(1) by (auto simp: cl_inv_def cl_base_def)
  have nd: "\<not> dead_client c" using ci(3) f by blast
  have dn: "pending_ok c" "socks_recv_buf_used c = - 1 \<or> srb_ok c \<and> socks_recv_waiting c \<and> 0 < socks_recv_tcp_pending c"
    "io_receiving (socks_client c) \<longleftrightarrow> \<not> socks_closed c \<and> socks_recv_buf_used c = - 1"
    using ci(1) f by (auto simp: cl_inv_def cl_down_def)
  have n: "0 < n" "n \<le> socks_recv_tcp_pending c" using l c dn(1) by (auto simp: pending_ok_def)
  let ?p = "(tc_pcb c)\<lparr>pcb_acked := pcb_acked (tc_pcb c) + n\<rparr>"
  let ?w = "put_client p (c\<lparr>tc_pcb := ?p\<rparr>) w"
  let ?c = "c\<lparr>tc_pcb := ?p, socks_recv_tcp_pending := socks_recv_tcp_pending c - n\<rparr>"
  have bc: "cl_base ?c" using b f by (simp add: cl_base_def)
  have rest: "srb_rest ?c = srb_rest c" by (simp add: srb_rest_def)
  have pc: "pending_ok ?c" using dn(1) n rest by (simp add: pending_ok_def)
  show ?thesis
  proof (cases "socks_recv_buf_used c > 0")
    case True
    let ?e = "?c\<lparr>socks_recv_waiting := False\<rparr>"
    have re: "ready p (put_client p ?e w) ?e" by (rule ready_put [OF ci(2)]) simp_all
    have s: "srb_ok c" "socks_recv_waiting c" using dn(2) True by auto
    have h: "cl_base ?e" "srb_ok ?e" "pending_ok ?e" using bc pc s by (simp_all add: cl_base_def srb_ok_def pending_ok_def srb_rest_def)
    from send_out_ok [OF re, of lw] h f obtain x w1 where
      w1: "client_socks_recv_send_out lw p (put_client p ?e w) = Some (x, w1)" and
      alt: "x = - 1 \<and> settled p (put_client p ?e w) ?e w1 \<and> gone p w1 \<or> x = 0 \<and> (\<exists>c'. w1 = put_client p c' w \<and> queued_ok ?e c')"
      by auto
    have e: "client_sent_func lw script p n ?w = (if x < 0 then Some (ERR_ABRT, w1) else do {
         c \<leftarrow> clients w1 p;
         ASSERT (socks_recv_tcp_pending c > 0);
         if socks_recv_buf_used c = - 1 \<and> \<not> socks_closed c then do {
           w \<leftarrow> client_socks_recv_initiate p w1;
           (dead, w) \<leftarrow> catching p script w;
           Some (if dead then ERR_ABRT else ERR_OK, w)
         } else Some (ERR_OK, w1) })"
      using True f n s w1 by (simp add: client_sent_func_def srb_ok_def)
    from alt show ?thesis
    proof
      assume x: "x = - 1 \<and> settled p (put_client p ?e w) ?e w1 \<and> gone p w1"
      then have "settled p w ?e w1" by (intro settled_put [of p ?e w w1 ?e]) simp_all
      then have "relay_inv w1" by (rule settled_inv [OF i c]) simp_all
      with x e show ?thesis by simp
    next
      assume "x = 0 \<and> (\<exists>c'. w1 = put_client p c' w \<and> queued_ok ?e c')"
      then obtain c' where x: "x = 0" "w1 = put_client p c' w" and c': "queued_ok ?e c'" by blast
      note c' = c' [unfolded queued_ok_def]
      have ro: "\<not> io_receiving (socks_client c)" using dn(3) True by simp
      show ?thesis
      proof (cases "socks_recv_buf_used c' = - 1 \<and> \<not> socks_closed c")
        case go: True
        let ?g = "c'\<lparr>socks_client := (socks_client c')\<lparr>io_receiving := True\<rparr>\<rparr>"
        have "cl_inv ?g" by (rule cl_inv_initiated) (use c' go in simp_all)
        then have ig: "relay_inv (put_client p ?g w)" using relay_inv_put [OF i c] c' nd by simp
        have "io_open (socks_client c)" using b go by (simp add: cl_base_def)
        then have ri: "client_socks_recv_initiate p w1 = Some (put_client p ?g w)"
          unfolding x by (subst recv_initiate_ok [of _ _ c']) (use c' go ro h in \<open>auto simp: cl_base_def\<close>)
        from catching_inv [OF ig, of p ?g script] c' obtain w' where
          "catching p script (put_client p ?g w) = Some (gone p w', w')" "relay_inv w'" by auto
        then show ?thesis using e x ri c' go by simp
      next
        case stay: False
        have "cl_inv c'" by (rule cl_inv_receiving) (use c' stay ro in auto)
        then have "relay_inv (put_client p c' w)" using relay_inv_put [OF i c] c' nd by simp
        then show ?thesis using e x c' stay by (auto simp: gone_def)
      qed
    qed
  next
    case False
    then have u: "socks_recv_buf_used c = - 1" using dn(2) by (auto simp: srb_ok_def)
    have rc: "ready p (put_client p ?c w) ?c" by (rule ready_put [OF ci(2)]) simp_all
    show ?thesis
    proof (cases "socks_closed c \<and> socks_recv_tcp_pending c - n = 0")
      case True
      have "\<exists>w'. client_free_client lw p (put_client p ?c w) = Some w' \<and> settled p (put_client p ?c w) ?c w' \<and> gone p w'"
        by (rule free_client_settles(1) [OF rc]) (use bc f in \<open>auto simp: cl_base_def\<close>)
      then obtain w' where w': "client_free_client lw p (put_client p ?c w) = Some w'" "settled p (put_client p ?c w) ?c w'" "gone p w'" by blast
      have "settled p w ?c w'" by (rule settled_put [OF w'(2)]) simp_all
      then have "relay_inv w'" by (rule settled_inv [OF i c]) simp_all
      with True False w' f n show ?thesis by (simp add: client_sent_func_def)
    next
      case no: False
      have "cl_inv ?c" using bc pc u f no n dn(3) ci(1)
        by (auto simp: cl_inv_def cl_down_def cl_live_def)
      then have "relay_inv (put_client p ?c w)" using relay_inv_put [OF i c] nd by simp
      moreover have "\<not> gone p (put_client p ?c w)" using f by (simp add: gone_def)
      ultimately show ?thesis using no False f n by (auto simp: client_sent_func_def)
    qed
  qed
qed

lemma client_err_ok:
  assumes i: "relay_inv w" and l: "relay_legal (TcpError p lw) w"
  shows "\<exists>w'. relay_step pr user app (TcpError p lw) w = Some w' \<and> relay_inv w' \<and> gone p w'"
proof -
  from l obtain c where c: "clients w p = Some c" "pcb_held (tc_pcb c)" by (auto split: option.splits)
  note ci = relay_inv_client [OF i c(1)]
  have b: "cl_base c" and n: "\<not> client_closed c" using ci c by (auto simp: cl_inv_def cl_base_def)
  let ?b = "(tc_pcb c)\<lparr>pcb_held := False, pcb_err := False, pcb_recv := False, pcb_sent := False\<rparr>"
  let ?c = "c\<lparr>tc_pcb := ?b\<rparr>"
  have "ready p (put_client p ?c w) ?c" by (rule ready_put [OF ci(2)]) simp_all
  moreover have "cl_base (?c\<lparr>client_closed := True\<rparr>)" using b by (simp add: cl_base_def)
  ultimately obtain w' where w': "client_handle_freed_client lw p (put_client p ?c w) = Some w'"
      "settled p (put_client p ?c w) ?c w'" "gone p w'"
    using handle_freed_settles [of p "put_client p ?c w" ?c lw] n by auto
  have "settled p w ?c w'" by (rule settled_put [OF w'(2)]) simp_all
  then have "relay_inv w'" by (rule settled_inv [OF i c(1)]) simp_all
  with w' c n show ?thesis by (simp add: client_err_func_def)
qed

text \<open>A connection is refused with \<open>ERR_MEM\<close>, and nothing is left of it, or there is a client for it
  that relays to its destination, unless the SOCKS connection failed at once.\<close>

lemma listener_accept_ok:
  assumes i: "relay_inv w" and l: "relay_legal (Accept script a) w"
  shows "\<exists>err w'. listener_accept_func pr user app script a w = Some (err, w') \<and> relay_inv w' \<and>
    (err = ERR_MEM \<and> clients w' = clients w \<and> tcp_clients w' = tcp_clients w \<or>
     (\<exists>p mem. ac_malloc a = Some (p, mem) \<and> err = (if gone p w' then ERR_ABRT else ERR_OK)))"
proof (cases "ac_malloc a")
  case None
  with i show ?thesis by (simp add: listener_accept_func_def)
next
  case (Some x)
  obtain p mem where x: "x = (p, mem)" by (cases x)
  have m: "clients w p = None" "tc_buf mem \<noteq> []" "socks_recv_buf mem \<noteq> []" and nb: "new_pcb (ac_pcb a)"
    using l Some x by auto
  define u where "u = (case user of None \<Rightarrow> None
          | Some u \<Rightarrow> if app then Some (u @ ''@'' @ pr (ac_remote a)) else None)"
  define w1 where "w1 = (if u \<noteq> None then w\<lparr>relay_username := u\<rparr> else w)"
  have w1: "clients w1 = clients w" "tcp_clients w1 = tcp_clients w" "num_clients w1 = num_clients w" "relay_inv w1"
    using i by (auto simp: w1_def relay_inv_def relay_shape_def)
  consider "u \<noteq> None \<and> \<not> ac_concat_ok a" | "\<not> (u \<noteq> None \<and> \<not> ac_concat_ok a)" "\<not> ac_socks_ok a"
    | "\<not> (u \<noteq> None \<and> \<not> ac_concat_ok a)" "ac_socks_ok a" by blast
  then show ?thesis
  proof cases
    case 1
    then show ?thesis using i Some x by (auto simp: listener_accept_func_def Let_def u_def [symmetric])
  next
    case 2
    then have "listener_accept_func pr user app script a w = Some (ERR_MEM, w1)"
      using Some x by (auto simp: listener_accept_func_def Let_def u_def [symmetric] w1_def)
    with w1 show ?thesis by simp
  next
    case 3
    let ?c = "mem\<lparr>dead_client := False, tc_local_addr := ac_local a, tc_remote_addr := ac_remote a,
      tc_pcb := (ac_pcb a)\<lparr>pcb_err := True, pcb_recv := True\<rparr>, client_closed := False, buf_used := 0, socks_username := u,
      socks_client := new_socks_io, socks_up := False, socks_closed := False\<rparr>"
    let ?w = "(put_client p ?c w1)\<lparr>tcp_clients := tcp_clients w @ [p], num_clients := num_clients w + 1\<rparr>"
    have ic: "cl_inv ?c" using nb m
      by (auto simp: cl_inv_def cl_base_def cl_down_def cl_live_def new_pcb_def new_socks_io_def)
    have "p \<notin> set (tcp_clients w)" using i m by (auto simp: relay_inv_def relay_shape_def)
    with w1 m i have "relay_shape ?w" by (auto simp: relay_inv_def relay_shape_def)
    with ic w1 have "relay_inv ?w" by (auto simp: relay_inv_def)
    from catching_inv [OF this, of p ?c script] obtain w' where
      w': "catching p script ?w = Some (gone p w', w')" "relay_inv w'" by auto
    have "num_clients w \<ge> 0" using i by (simp add: relay_inv_def relay_shape_def)
    with 3 w' have "listener_accept_func pr user app script a w = Some (if gone p w' then ERR_ABRT else ERR_OK, w')"
      using Some x w1 nb
      by (cases "u = None") (simp_all add: listener_accept_func_def Let_def u_def [symmetric] w1_def tcp_defs new_pcb_def)
    with w'(2) Some x show ?thesis by auto
  qed
qed

interpretation relay: event_machine "relay_step pr user app" relay_legal relay_inv for pr user app
proof
  fix w e
  assume i: "relay_inv w" and l: "relay_legal e w"
  show "\<exists>w'. relay_step pr user app e w = Some w' \<and> relay_inv w'"
  proof (cases e)
    case (Accept script a)
    with listener_accept_ok [OF i, of script a pr user app] l show ?thesis by fastforce
  next
    case (TcpError p lw)
    with client_err_ok [OF i, of p lw pr user app] l show ?thesis by blast
  next
    case (TcpReceive p lw script pbuf)
    with client_recv_ok [OF i, of p lw script pbuf] l show ?thesis by fastforce
  next
    case (TcpAcked p lw script n)
    with l obtain c where c: "clients w p = Some c" by (auto split: option.splits)
    from client_sent_ok [OF i, of p lw script n c] l c TcpAcked show ?thesis by fastforce
  next
    case (Socks p lw a)
    with l obtain c where c: "clients w p = Some c" by (auto simp: socks_can_def split: option.splits)
    note ci = relay_inv_client [OF i c]
    from socks_do_settles [OF ci(2,1), of a lw] l Socks settled_inv [OF i c] show ?thesis by fastforce
  qed
qed

section \<open>Consequences\<close>

text \<open>A client that is closed on one side is not forgotten: somebody will call back for it.\<close>

lemma half_closed_waits:
  assumes "cl_inv c"
  shows "client_closed c \<Longrightarrow> io_open (socks_client c) \<and> 0 < buf_used c \<and> (socks_up c \<longrightarrow> io_sending (socks_client c) \<noteq> None)"
    and "socks_closed c \<Longrightarrow> pcb_held (tc_pcb c) \<and> pcb_sent (tc_pcb c) \<and> pcb_acked (tc_pcb c) < int (length (pcb_written (tc_pcb c)))"
  using assms by (auto simp: cl_inv_def cl_live_def cl_base_def cl_down_def pending_ok_def)

text \<open>A client whose device side is closed is freed by a completed send only when the last byte is out.\<close>

lemma flushed_before_free:
  assumes i: "relay_inv w" and c: "clients w p = Some c" "client_closed c" and can: "socks_can p (SendDone n) w"
    and s: "socks_do lw p (SendDone n) w = Some w'"
  shows "clients w' p = None \<longleftrightarrow> int (length (io_sent (socks_client c))) + n = int (length (pcb_delivered (tc_pcb c)))"
proof -
  note ci = relay_inv_client [OF i c(1)]
  have b: "cl_base c" using ci by (simp add: cl_inv_def)
  obtain m where m: "io_sending (socks_client c) = Some m" "0 < n" "n \<le> m" "io_open (socks_client c)"
    using can c by (auto simp: socks_can_def split: option.splits)
  have f: "socks_up c" "\<not> socks_closed c" "0 < buf_used c" "m \<le> buf_used c" "buf_used c \<le> int (length (tc_buf c))"
    "int (length (pcb_delivered (tc_pcb c))) = int (length (io_sent (socks_client c))) + buf_used c"
    using b m by (auto simp: cl_base_def)
  show ?thesis
  proof (cases "n = buf_used c")
    case False
    then have "0 < buf_used c - n" using m f by linarith
    with s c m f have "clients w' p \<noteq> None"
      by (auto simp: client_socks_send_handler_done_def StreamPass_Send_def mem_read_def mem_write_def Let_def
          split: if_splits)
    with False f show ?thesis by simp
  next
    case True
    with s c m f have "clients w' p = None"
      by (auto simp: client_socks_send_handler_done_def mem_read_def mem_write_def client_free_socks_simps client_dealloc_def tcp_defs
          split: if_splits Option.bind_splits)
    with True f show ?thesis by simp
  qed
qed

text \<open>A client whose SOCKS side is closed is freed by an acknowledgement only when the last byte is
  acknowledged, unless lwIP refuses to queue the rest.\<close>

lemma acked_before_free:
  assumes i: "relay_inv w" and c: "clients w p = Some c" "socks_closed c" and l: "relay_legal (TcpAcked p lw script n) w"
    and u: "socks_recv_buf_used c = - 1"
    and s: "relay_step pr user app (TcpAcked p lw script n) w = Some w'"
  shows "gone p w' \<longleftrightarrow> pcb_written (tc_pcb c) = io_received (socks_client c) \<and> pcb_acked (tc_pcb c) + n = int (length (io_received (socks_client c)))"
proof -
  note ci = relay_inv_client [OF i c(1)]
  have f: "\<not> client_closed c" "socks_up c" "pending_ok c" using l c ci(1) by (auto simp: cl_inv_def cl_base_def cl_down_def)
  have n: "socks_recv_tcp_pending c = int (length (io_received (socks_client c))) - pcb_acked (tc_pcb c)"
    "pcb_written (tc_pcb c) = io_received (socks_client c)"
    using f(3) u by (auto simp: pending_ok_def srb_rest_def)
  let ?w1 = "put_client p (c\<lparr>tc_pcb := (tc_pcb c)\<lparr>pcb_acked := pcb_acked (tc_pcb c) + n\<rparr>\<rparr>) w"
  from client_sent_ok [OF i l c(1)] obtain err where
    e: "client_sent_func lw script p n ?w1 = Some (err, w')" "err = (if gone p w' then ERR_ABRT else ERR_OK)"
    using s c by auto
  have nn: "0 < n" "n \<le> socks_recv_tcp_pending c" using l c n by auto
  let ?c = "c\<lparr>tc_pcb := (tc_pcb c)\<lparr>pcb_acked := pcb_acked (tc_pcb c) + n\<rparr>, socks_recv_tcp_pending := socks_recv_tcp_pending c - n\<rparr>"
  have "client_sent_func lw script p n ?w1 = (if socks_recv_tcp_pending c - n = 0
      then do { w \<leftarrow> client_free_client lw p (put_client p ?c w); Some (ERR_ABRT, w) } else Some (ERR_OK, put_client p ?c w))"
    using f c u nn by (simp add: client_sent_func_def)
  then have r: "err = (if socks_recv_tcp_pending c = n then ERR_ABRT else ERR_OK)"
    using e(1) by (cases "socks_recv_tcp_pending c = n"; cases "client_free_client lw p (put_client p ?c w)") simp_all
  have "gone p w' \<longleftrightarrow> err = ERR_ABRT" using e(2) by (simp add: err_defs)
  also have "\<dots> \<longleftrightarrow> socks_recv_tcp_pending c = n" using r by (simp add: err_defs)
  finally show ?thesis using n by linarith
qed

lemma client_murder_ok:
  assumes i: "relay_inv w" and c: "clients w p = Some c"
  shows "\<exists>w'. client_murder p w = Some w' \<and> relay_inv w' \<and> clients w' = (clients w)(p := None) \<and> tcp_clients w' = remove1 p (tcp_clients w)"
proof -
  note ci = relay_inv_client [OF i c]
  have b: "cl_base c" using ci by (simp add: cl_inv_def)
  have shape: "distinct (tcp_clients w)" "set (tcp_clients w) = dom (clients w)" "num_clients w = int (length (tcp_clients w))"
    using ci(4) by (auto simp: relay_shape_def)
  have p: "p \<in> set (tcp_clients w)" using shape c by auto
  then have l1: "Suc 0 \<le> length (tcp_clients w)" by (cases "tcp_clients w") auto
  then have "\<exists>w'. client_murder p w = Some w' \<and> clients w' = (clients w)(p := None) \<and> tcp_clients w' = remove1 p (tcp_clients w) \<and>
      num_clients w' = num_clients w - 1 \<and> badvpn_dead w' = None"
    using b c p shape(3) ci(3,5)
    by (cases "client_closed c"; cases "socks_closed c")
      (auto simp: client_murder_def tcp_defs DEAD_KILL_def client_dealloc_def cl_base_def)
  then obtain w' where w': "client_murder p w = Some w'" "clients w' = (clients w)(p := None)" "tcp_clients w' = remove1 p (tcp_clients w)"
    "num_clients w' = num_clients w - 1" "badvpn_dead w' = None" by blast
  have "relay_inv w'" using i w'(2-5) p shape l1
    by (auto simp: relay_inv_def relay_shape_def length_remove1 of_nat_diff)
  with w' show ?thesis by blast
qed

text \<open>The user name that a new client puts into the shared authentication data.\<close>

lemma accepted_username:
  assumes i: "relay_inv w" and l: "relay_legal (Accept script a) w"
    and a: "ac_malloc a = Some (p, mem)" "ac_concat_ok a" "ac_socks_ok a"
  shows "\<exists>err w'. listener_accept_func pr (Some u) True script a w = Some (err, w') \<and>
    relay_username w' = Some (u @ ''@'' @ pr (ac_remote a)) \<and> (\<forall>q. q \<noteq> p \<longrightarrow> clients w' q = clients w q)"
proof -
  let ?u = "Some (u @ ''@'' @ pr (ac_remote a))"
  let ?c = "mem\<lparr>dead_client := False, tc_local_addr := ac_local a, tc_remote_addr := ac_remote a,
    tc_pcb := (ac_pcb a)\<lparr>pcb_err := True, pcb_recv := True\<rparr>, client_closed := False, buf_used := 0, socks_username := ?u,
    socks_client := new_socks_io, socks_up := False, socks_closed := False\<rparr>"
  let ?w = "(put_client p ?c (w\<lparr>relay_username := ?u\<rparr>))\<lparr>tcp_clients := tcp_clients w @ [p], num_clients := num_clients w + 1\<rparr>"
  have m: "clients w p = None" "tc_buf mem \<noteq> []" "socks_recv_buf mem \<noteq> []" and nb: "new_pcb (ac_pcb a)" using l a by auto
  have ic: "cl_inv ?c" using nb m
    by (auto simp: cl_inv_def cl_base_def cl_down_def cl_live_def new_pcb_def new_socks_io_def)
  have "p \<notin> set (tcp_clients w)" using i m by (auto simp: relay_inv_def relay_shape_def)
  with m i have "relay_shape ?w" by (auto simp: relay_inv_def relay_shape_def)
  moreover have "badvpn_dead ?w = None" using i by (simp add: relay_inv_def)
  ultimately obtain w' where w': "catching p script ?w = Some (gone p w', w')" "relay_username w' = relay_username ?w"
      "\<forall>q. q \<noteq> p \<longrightarrow> clients w' q = clients ?w q"
    using catching_ok [of ?w p ?c script] ic by auto
  have "num_clients w \<ge> 0" using i by (simp add: relay_inv_def relay_shape_def)
  then have "listener_accept_func pr (Some u) True script a w = Some (if gone p w' then ERR_ABRT else ERR_OK, w')"
    using w'(1) a nb by (simp add: listener_accept_func_def Let_def tcp_defs new_pcb_def)
  with w'(2,3) show ?thesis by simp
qed

end
