(* ===== verification/IP_Packets.thy ===== *)
theory IP_Packets
  imports Net_Addr
begin

text \<open>
  IPv4, IPv6 and UDP headers with their checks and checksums: \<open>misc/ipv4_proto.h\<close>,
  \<open>misc/ipv6_proto.h\<close>, \<open>misc/udp_proto.h\<close> and \<open>badvpn_read_be16\<close> of \<open>misc/read_write_int.h\<close>.
  A header is a record of its fields as they are in memory (in network byte order); the packed
  structures are copied from and to bytes by \<open>*_of\<close> and \<open>*_bytes\<close>.

  The checksums are sums of big-endian 16-bit words in a 32-bit accumulator whose carries are folded
  back.  \<open>be16_sum\<close> is the sum in unbounded arithmetic; the lemmas show that the accumulator does not
  overflow and relate the result to the one's complement sum of RFC 1071.
\<close>

section \<open>Headers\<close>

record ipv4_header =
  ip4_version4_ihl4 :: byte
  ip4_ds :: byte
  ip4_total_length :: "16 word"
  ip4_identification :: "16 word"
  ip4_flags3_fragmentoffset13 :: "16 word"
  ip4_ttl :: byte
  ip4_protocol :: byte
  ip4_checksum :: "16 word"
  ip4_source_address :: "32 word"
  ip4_destination_address :: "32 word"

record ipv6_header =
  ip6_version4_tc4 :: byte
  ip6_tc4_fl4 :: byte
  ip6_fl :: "16 word"
  ip6_payload_length :: "16 word"
  ip6_next_header :: byte
  ip6_hop_limit :: byte
  ip6_source_address :: bytes
  ip6_destination_address :: bytes

record udp_header =
  udp_source_port :: "16 word"
  udp_dest_port :: "16 word"
  udp_length :: "16 word"
  udp_hdr_checksum :: "16 word"

definition IPV4_PROTOCOL_UDP :: byte where
  "IPV4_PROTOCOL_UDP = 17"

definition IPV6_NEXT_UDP :: byte where
  "IPV6_NEXT_UDP = 17"

definition ipv4_header_bytes :: "ipv4_header \<Rightarrow> bytes" where
  "ipv4_header_bytes h = [ip4_version4_ihl4 h, ip4_ds h] @ le16_bytes (ip4_total_length h) @
     le16_bytes (ip4_identification h) @ le16_bytes (ip4_flags3_fragmentoffset13 h) @ [ip4_ttl h, ip4_protocol h] @
     le16_bytes (ip4_checksum h) @ le32_bytes (ip4_source_address h) @ le32_bytes (ip4_destination_address h)"

definition ipv4_header_of :: "bytes \<Rightarrow> ipv4_header" where
  "ipv4_header_of d = \<lparr>ip4_version4_ihl4 = d ! 0, ip4_ds = d ! 1, ip4_total_length = le16_of (take 2 (drop 2 d)),
     ip4_identification = le16_of (take 2 (drop 4 d)), ip4_flags3_fragmentoffset13 = le16_of (take 2 (drop 6 d)),
     ip4_ttl = d ! 8, ip4_protocol = d ! 9, ip4_checksum = le16_of (take 2 (drop 10 d)),
     ip4_source_address = le32_of (take 4 (drop 12 d)), ip4_destination_address = le32_of (take 4 (drop 16 d))\<rparr>"

definition ipv6_header_bytes :: "ipv6_header \<Rightarrow> bytes" where
  "ipv6_header_bytes h = [ip6_version4_tc4 h, ip6_tc4_fl4 h] @ le16_bytes (ip6_fl h) @
     le16_bytes (ip6_payload_length h) @ [ip6_next_header h, ip6_hop_limit h] @
     ip6_source_address h @ ip6_destination_address h"

definition ipv6_header_of :: "bytes \<Rightarrow> ipv6_header" where
  "ipv6_header_of d = \<lparr>ip6_version4_tc4 = d ! 0, ip6_tc4_fl4 = d ! 1, ip6_fl = le16_of (take 2 (drop 2 d)),
     ip6_payload_length = le16_of (take 2 (drop 4 d)), ip6_next_header = d ! 6, ip6_hop_limit = d ! 7,
     ip6_source_address = take 16 (drop 8 d), ip6_destination_address = take 16 (drop 24 d)\<rparr>"

definition udp_header_bytes :: "udp_header \<Rightarrow> bytes" where
  "udp_header_bytes h = le16_bytes (udp_source_port h) @ le16_bytes (udp_dest_port h) @
     le16_bytes (udp_length h) @ le16_bytes (udp_hdr_checksum h)"

definition udp_header_of :: "bytes \<Rightarrow> udp_header" where
  "udp_header_of d = \<lparr>udp_source_port = le16_of (take 2 d), udp_dest_port = le16_of (take 2 (drop 2 d)),
     udp_length = le16_of (take 2 (drop 4 d)), udp_hdr_checksum = le16_of (take 2 (drop 6 d))\<rparr>"

section \<open>Checksums\<close>

definition badvpn_read_be16 :: "bytes \<Rightarrow> nat \<Rightarrow> 16 word" where
  "badvpn_read_be16 p i = push_bit 8 (ucast (p ! i)) OR ucast (p ! (i + 1))"

text \<open>The loop \<open>for (i = 0; i < n; i++) t += badvpn_read_be16(data + 2 * i)\<close>.\<close>

primrec be16_loop :: "bytes \<Rightarrow> nat \<Rightarrow> 32 word \<Rightarrow> 32 word" where
  "be16_loop data 0 t = t"
| "be16_loop data (Suc n) t = be16_loop data n t + ucast (badvpn_read_be16 data (2 * n))"

text \<open>The loop \<open>while (t >> 16) t = (t & 0xFFFF) + (t >> 16)\<close>.\<close>

lemma unat_low16: "unat (t AND 0xFFFF :: 32 word) = unat t mod 65536"
proof -
  have "t AND 0xFFFF = take_bit 16 t" by (simp add: take_bit_eq_mask mask_eq_exp_minus_1)
  then show ?thesis by (simp add: take_bit_eq_mod unat_mod)
qed

lemma unat_high16: "unat (drop_bit 16 t :: 32 word) = unat t div 65536"
  by (simp add: drop_bit_eq_div unat_div)

lemma unat_fold_step: "unat ((t AND 0xFFFF) + drop_bit 16 t :: 32 word) = unat t mod 65536 + unat t div 65536"
proof -
  have "unat t < 4294967296" using unsigned_less [where ?'a = nat, of t] by simp
  then have "unat t div 65536 < 65536" by (intro less_mult_imp_div_less) simp
  moreover have "unat t mod 65536 < 65536" by simp
  ultimately have "unat (t AND 0xFFFF) + unat (drop_bit 16 t) < 4294967296" unfolding unat_low16 unat_high16 by linarith
  then have "unat ((t AND 0xFFFF) + drop_bit 16 t) = unat (t AND 0xFFFF) + unat (drop_bit 16 t)"
    by (intro unat_plus_simple [THEN iffD1]) (simp add: no_olen_add_nat)
  then show ?thesis unfolding unat_low16 unat_high16 .
qed

function fold_carry :: "32 word \<Rightarrow> 32 word" where
  "fold_carry t = (if drop_bit 16 t \<noteq> 0 then fold_carry ((t AND 0xFFFF) + drop_bit 16 t) else t)"
  by pat_completeness auto

termination
proof (relation "measure unat")
  fix t :: "32 word" assume "drop_bit 16 t \<noteq> 0"
  then have "unat t div 65536 \<noteq> 0" by (metis unat_high16 unat_eq_zero)
  then have "unat t mod 65536 + unat t div 65536 < unat t div 65536 * 65536 + unat t mod 65536" by linarith
  then have "unat t mod 65536 + unat t div 65536 < unat t" unfolding div_mult_mod_eq .
  then show "((t AND 0xFFFF) + drop_bit 16 t, t) \<in> measure unat" by (simp add: unat_fold_step)
qed simp

definition ipv4_checksum :: "ipv4_header \<Rightarrow> bytes \<Rightarrow> 16 word \<Rightarrow> 16 word option" where
  "ipv4_checksum header extra extra_len = do {
     ASSERT (extra_len mod 2 = 0);
     ASSERT (unat extra_len \<le> length extra);
     let t = 0;
     let t = be16_loop (ipv4_header_bytes header) (20 div 2) t;
     let t = be16_loop extra (unat extra_len div 2) t;
     let t = fold_carry t;
     Some (hton16 (ucast (NOT t)))
   }"

definition udp_checksum_summer :: "bytes \<Rightarrow> 16 word \<Rightarrow> 32 word option" where
  "udp_checksum_summer data len = do {
     ASSERT (len mod 2 = 0);
     ASSERT (unat len \<le> length data);
     Some (be16_loop data (unat len div 2) 0)
   }"

text \<open>The part of the two checksum functions after the pseudo header.\<close>

definition udp_checksum_rest :: "udp_header \<Rightarrow> bytes \<Rightarrow> 16 word \<Rightarrow> 32 word \<Rightarrow> 16 word option" where
  "udp_checksum_rest header payload payload_len t = do {
     s \<leftarrow> udp_checksum_summer (udp_header_bytes header) 8;
     let t = t + s;
     t \<leftarrow> (if payload_len mod 2 = 0 then do {
             s \<leftarrow> udp_checksum_summer payload payload_len;
             Some (t + s)
           } else do {
             s \<leftarrow> udp_checksum_summer payload (payload_len - 1);
             let t = t + s;
             ASSERT (unat payload_len \<le> length payload);
             let x = hton16 (push_bit 8 (ucast (payload ! (unat payload_len - 1))));
             s \<leftarrow> udp_checksum_summer (le16_bytes x) 2;
             Some (t + s)
           });
     let t = fold_carry t;
     let t = (if t = 0 then 65535 else t);
     Some (hton16 (ucast (NOT t)))
   }"

definition udp_checksum :: "udp_header \<Rightarrow> bytes \<Rightarrow> 16 word \<Rightarrow> 32 word \<Rightarrow> 32 word \<Rightarrow> 16 word option" where
  "udp_checksum header payload payload_len source_addr dest_addr = do {
     let t = 0;
     s \<leftarrow> udp_checksum_summer (le32_bytes source_addr) 4;
     let t = t + s;
     s \<leftarrow> udp_checksum_summer (le32_bytes dest_addr) 4;
     let t = t + s;
     let x = hton16 (ucast IPV4_PROTOCOL_UDP);
     s \<leftarrow> udp_checksum_summer (le16_bytes x) 2;
     let t = t + s;
     let x = hton16 (8 + payload_len);
     s \<leftarrow> udp_checksum_summer (le16_bytes x) 2;
     let t = t + s;
     udp_checksum_rest header payload payload_len t
   }"

definition udp_ip6_checksum :: "udp_header \<Rightarrow> bytes \<Rightarrow> 16 word \<Rightarrow> bytes \<Rightarrow> bytes \<Rightarrow> 16 word option" where
  "udp_ip6_checksum header payload payload_len source_addr dest_addr = do {
     let t = 0;
     s \<leftarrow> udp_checksum_summer source_addr 16;
     let t = t + s;
     s \<leftarrow> udp_checksum_summer dest_addr 16;
     let t = t + s;
     let x = ntoh32 (8 + ucast payload_len);
     s \<leftarrow> udp_checksum_summer (le32_bytes x) 4;
     let t = t + s;
     let x = ntoh32 (ucast IPV6_NEXT_UDP);
     s \<leftarrow> udp_checksum_summer (le32_bytes x) 4;
     let t = t + s;
     udp_checksum_rest header payload payload_len t
   }"

section \<open>Checks\<close>

text \<open>
  The inner \<open>None\<close> is the return value 0; otherwise the header and the payload
  (\<open>out_payload\<close>, \<open>out_payload_len\<close>).
\<close>

definition ipv4_check :: "bytes \<Rightarrow> (ipv4_header \<times> bytes) option option" where
  "ipv4_check data =
     (let data_len = int (length data) in
      if data_len < 20 then Some None
      else do {
        let out_header = ipv4_header_of data;
        if drop_bit 4 (ip4_version4_ihl4 out_header AND 0xF0) \<noteq> 4 then Some None
        else do {
          let header_len = uint (ip4_version4_ihl4 out_header AND 0x0F) * 4;
          if header_len < 20 then Some None
          else if header_len > data_len then Some None
          else do {
            let total_length = uint (hton16 (ip4_total_length out_header));
            if total_length < header_len then Some None
            else if total_length > data_len then Some None
            else do {
              let checksum_in_packet = ip4_checksum out_header;
              let out_header = out_header\<lparr>ip4_checksum := hton16 0\<rparr>;
              checksum_computed \<leftarrow> ipv4_checksum out_header (drop 20 data) (word_of_int (header_len - 20));
              let out_header = out_header\<lparr>ip4_checksum := checksum_in_packet\<rparr>;
              if checksum_in_packet \<noteq> checksum_computed then Some None
              else do {
                payload \<leftarrow> mem_read data header_len (total_length - header_len);
                Some (Some (out_header, payload))
              }
            }
          }
        }
      })"

definition ipv6_check :: "bytes \<Rightarrow> (ipv6_header \<times> bytes) option option" where
  "ipv6_check data =
     (let data_len = int (length data) in
      if data_len < 40 then Some None
      else do {
        let out_header = ipv6_header_of data;
        if drop_bit 4 (ip6_version4_tc4 out_header) \<noteq> 6 then Some None
        else do {
          let payload_length = uint (hton16 (ip6_payload_length out_header));
          if payload_length > data_len - 40 then Some None
          else do {
            payload \<leftarrow> mem_read data 40 payload_length;
            Some (Some (out_header, payload))
          }
        }
      })"

definition udp_check :: "bytes \<Rightarrow> (udp_header \<times> bytes) option option" where
  "udp_check data =
     (if int (length data) < 8 then Some None
      else do {
        let out_header = udp_header_of data;
        let data = drop 8 data;
        let data_len = int (length data);
        let udp_length = uint (hton16 (udp_length out_header));
        if udp_length < 8 then Some None
        else if udp_length > 8 + data_len then Some None
        else do {
          payload \<leftarrow> mem_read data 0 (udp_length - 8);
          Some (Some (out_header, payload))
        }
      })"

declare fold_carry.simps [simp del]

section \<open>Sums of 16-bit words\<close>

fun be16_sum :: "bytes \<Rightarrow> nat" where
  "be16_sum [] = 0"
| "be16_sum [a] = 256 * unat a"
| "be16_sum (a # b # bs) = 256 * unat a + unat b + be16_sum bs"

lemma unat_byte: "unat (a :: byte) < 256"
  using unsigned_less [where ?'a = nat, of a] by simp

lemma unat_ucast_16: "unat (ucast (a :: byte) :: 16 word) = unat a"
  using unat_byte [of a] by (simp add: unsigned_ucast_eq take_bit_nat_eq_self_iff)

lemma unat_ucast_32: "unat (ucast (a :: 16 word) :: 32 word) = unat a"
  using unsigned_less [where ?'a = nat, of a] by (simp add: unsigned_ucast_eq take_bit_nat_eq_self_iff)

lemma unat_not_16: "unat (NOT w :: 16 word) = 65535 - unat w"
proof -
  have "NOT w = - 1 - w" by (simp add: not_eq_complement)
  then show ?thesis using unat_sub [of w "- 1"] by (simp add: unsigned_minus_1_eq_mask mask_eq_exp_minus_1)
qed

lemma be16_sum_append: "even (length xs) \<Longrightarrow> be16_sum (xs @ ys) = be16_sum xs + be16_sum ys"
  by (induction xs rule: be16_sum.induct) auto

lemma be16_sum_bound: "be16_sum bs \<le> 65535 * ((length bs + 1) div 2)"
proof (induction bs rule: be16_sum.induct)
  case (2 a)
  show ?case using unat_byte [of a] by simp
next
  case (3 a b bs)
  then show ?case using unat_byte [of a] unat_byte [of b] by simp
qed simp

lemma unat_read_be16: "unat (badvpn_read_be16 p i) = 256 * unat (p ! i) + unat (p ! (i + 1))"
proof -
  let ?a = "p ! i" and ?b = "p ! (i + 1)"
  have b: "unat (ucast ?b :: 16 word) = unat ?b" by (rule unat_ucast_16)
  have a: "unat (push_bit 8 (ucast ?a) :: 16 word) = 256 * unat ?a"
    using unat_byte [of ?a] by (simp add: push_bit_eq_mult unat_word_ariths unat_ucast_16)
  have "push_bit 8 (ucast ?a) AND (ucast ?b :: 16 word) = 0"
    by (rule bit_word_eqI) (auto simp: bit_simps dest: bit_imp_le_length)
  then have "badvpn_read_be16 p i = push_bit 8 (ucast ?a) + ucast ?b"
    unfolding badvpn_read_be16_def by (rule disjunctive_add_eq_or [symmetric])
  moreover have "unat (push_bit 8 (ucast ?a) + (ucast ?b :: 16 word)) = 256 * unat ?a + unat ?b"
    using unat_byte [of ?a] unat_byte [of ?b] a b by (simp add: unat_word_ariths)
  ultimately show ?thesis by simp
qed

lemma take_Suc_pair: "2 * n + 1 < length d \<Longrightarrow> take (2 * Suc n) d = take (2 * n) d @ [d ! (2 * n), d ! (2 * n + 1)]"
  by (simp add: take_Suc_conv_app_nth)

text \<open>The accumulator is exact as long as the sum is below \<open>2 ^ 32\<close>.\<close>

lemma be16_loop_exact:
  assumes "2 * n \<le> length data" "unat t + be16_sum (take (2 * n) data) < 4294967296"
  shows "unat (be16_loop data n t) = unat t + be16_sum (take (2 * n) data)"
  using assms
proof (induction n)
  case 0
  then show ?case by simp
next
  case (Suc n)
  have s: "be16_sum (take (2 * Suc n) data) = be16_sum (take (2 * n) data) + unat (badvpn_read_be16 data (2 * n))"
    using Suc.prems(1) by (subst take_Suc_pair) (simp_all add: be16_sum_append unat_read_be16)
  have u: "unat (ucast (badvpn_read_be16 data (2 * n)) :: 32 word) = unat (badvpn_read_be16 data (2 * n))"
    by (rule unat_ucast_32)
  have IH: "unat (be16_loop data n t) = unat t + be16_sum (take (2 * n) data)"
    using Suc s by simp
  then have "unat (be16_loop data n t) + unat (ucast (badvpn_read_be16 data (2 * n)) :: 32 word) < 2 ^ LENGTH(32)"
    using Suc.prems(2) s u by simp
  then have "unat (be16_loop data (Suc n) t) = unat (be16_loop data n t) + unat (ucast (badvpn_read_be16 data (2 * n)) :: 32 word)"
    unfolding be16_loop.simps by (rule unat_add_lem [THEN iffD1])
  then show ?case unfolding s u IH by simp
qed

text \<open>Folding keeps the sum modulo 65535, ends below \<open>2 ^ 16\<close> and reaches 0 only from 0.\<close>

lemma fold_carry_spec:
  "unat (fold_carry t) mod 65535 = unat t mod 65535 \<and> unat (fold_carry t) \<le> 65535 \<and>
   (fold_carry t = 0 \<longleftrightarrow> t = 0)"
proof (induction t rule: fold_carry.induct)
  case (1 t)
  show ?case
  proof (cases "drop_bit 16 t = 0")
    case True
    then have "unat t div 65536 = 0" by (metis unat_high16 unsigned_0)
    then have "unat t < 65536" by simp
    with True show ?thesis by (subst (1 2 3) fold_carry.simps) simp
  next
    case False
    let ?t = "(t AND 0xFFFF) + drop_bit 16 t"
    have "unat t div 65536 \<noteq> 0" using False by (metis unat_high16 unat_eq_zero)
    then have nz: "unat ?t \<noteq> 0" "unat t \<noteq> 0" unfolding unat_fold_step by (auto intro: ccontr)
    have "unat t = unat t div 65536 * 65536 + unat t mod 65536" by simp
    then have "unat t = unat ?t + 65535 * (unat t div 65536)" unfolding unat_fold_step by linarith
    then have "unat t mod 65535 = unat ?t mod 65535" by (metis mod_mult_self2)
    with 1 [OF False] nz False show ?thesis
      by (subst (1 2 3) fold_carry.simps) (auto simp: unat_eq_zero)
  qed
qed

lemma unat_checksum:
  assumes "unat (t :: 32 word) \<le> 65535"
  shows "unat (ucast (NOT t) :: 16 word) = 65535 - unat t"
proof -
  have "ucast (NOT t) = NOT (ucast t :: 16 word)"
    by (rule bit_word_eqI) (auto simp: bit_simps)
  moreover have "unat (ucast t :: 16 word) = unat t" 
    using assms by (simp add: unsigned_ucast_eq take_bit_nat_eq_self_iff)
  ultimately show ?thesis by (simp add: unat_not_16)
qed

lemma be16_sum_le16: "be16_sum (le16_bytes w) = unat (hton16 w)"
proof -
  have "badvpn_read_be16 (le16_bytes w) 0 = hton16 w"
    by (rule bit_word_eqI) (auto simp: badvpn_read_be16_def le16_bytes_def hton16_def bit_simps dest: bit_imp_le_length)
  then show ?thesis using unat_read_be16 [of "le16_bytes w" 0] by (simp add: le16_bytes_def)
qed

section \<open>The checksums are one's complement sums\<close>

lemma unat_16_le: "unat (n :: 16 word) \<le> 65535"
  using unsigned_less [where ?'a = nat, of n] by simp

lemma even_word_16: "(n :: 16 word) mod 2 = 0 \<longleftrightarrow> even (unat n)"
proof -
  have "n mod 2 = 0 \<longleftrightarrow> unat (n mod 2) = 0" by (simp add: unat_eq_zero)
  also have "\<dots> \<longleftrightarrow> unat n mod 2 = 0" by (simp add: unat_mod)
  finally show ?thesis by (simp add: even_iff_mod_2_eq_zero)
qed

lemma unat_add_32: "unat (a :: 32 word) + unat b < 4294967296 \<Longrightarrow> unat (a + b) = unat a + unat b"
  using unat_add_lem [of a b] by simp

lemma be16_sum_take_bound:
  assumes "n \<le> 65536"
  shows "be16_sum (take n bs) \<le> 2147450880"
proof -
  have "(length (take n bs) + 1) div 2 \<le> 65537 div 2" using assms by (intro div_le_mono) simp
  with be16_sum_bound [of "take n bs"] show ?thesis by simp
qed

lemma ipv4_header_length [simp]: "length (ipv4_header_bytes h) = 20"
  by (simp add: ipv4_header_bytes_def)

lemma udp_header_length [simp]: "length (udp_header_bytes h) = 8"
  by (simp add: udp_header_bytes_def)

lemma checksum_total:
  assumes "t = fold_carry s"
  shows "(unat s + unat (ucast (NOT t) :: 16 word)) mod 65535 = 0"
proof -
  from fold_carry_spec [of s] have f: "unat t mod 65535 = unat s mod 65535" "unat t \<le> 65535" by (auto simp: assms)
  have "(unat s + (65535 - unat t)) mod 65535 = (unat t + (65535 - unat t)) mod 65535"
    using f(1) by (metis mod_add_left_eq)
  then show ?thesis using f(2) by (simp add: unat_checksum)
qed

lemma ipv4_checksum_sum:
  assumes "even (unat n)" "unat n \<le> length extra"
  shows "\<exists>c. ipv4_checksum h extra n = Some c \<and>
    (be16_sum (ipv4_header_bytes h) + be16_sum (take (unat n) extra) + unat (hton16 c)) mod 65535 = 0"
proof -
  let ?a = "be16_sum (ipv4_header_bytes h)" and ?b = "be16_sum (take (unat n) extra)"
  have a: "?a \<le> 655350" using be16_sum_bound [of "ipv4_header_bytes h"] by simp
  have b: "?b \<le> 2147450880" using unat_16_le [of n] by (intro be16_sum_take_bound) simp
  let ?t = "be16_loop (ipv4_header_bytes h) 10 0"
  have t: "unat ?t = ?a" using be16_loop_exact [of 10 "ipv4_header_bytes h" 0] a by simp
  have d: "2 * (unat n div 2) = unat n" using assms(1) by simp
  have "unat (be16_loop extra (unat n div 2) ?t) = ?a + ?b"
    using be16_loop_exact [of "unat n div 2" extra ?t] a b assms(2) unfolding d t by simp
  with checksum_total [OF refl, of "be16_loop extra (unat n div 2) ?t"] assms show ?thesis
    by (simp add: ipv4_checksum_def even_word_16)
qed

lemma ipv4_header_sum:
  "be16_sum (ipv4_header_bytes (h\<lparr>ip4_checksum := c\<rparr>)) = be16_sum (ipv4_header_bytes (h\<lparr>ip4_checksum := 0\<rparr>)) + unat (hton16 c)"
proof -
  let ?pre = "[ip4_version4_ihl4 h, ip4_ds h] @ le16_bytes (ip4_total_length h) @
     le16_bytes (ip4_identification h) @ le16_bytes (ip4_flags3_fragmentoffset13 h) @ [ip4_ttl h, ip4_protocol h]"
  let ?post = "le32_bytes (ip4_source_address h) @ le32_bytes (ip4_destination_address h)"
  have "ipv4_header_bytes (h\<lparr>ip4_checksum := w\<rparr>) = ?pre @ le16_bytes w @ ?post" for w
    by (simp add: ipv4_header_bytes_def)
  then have "be16_sum (ipv4_header_bytes (h\<lparr>ip4_checksum := w\<rparr>)) = be16_sum ?pre + unat (hton16 w) + be16_sum ?post" for w
    by (simp only: be16_sum_append be16_sum_le16) (simp add: be16_sum_append be16_sum_le16)
  then show ?thesis by (simp add: hton16_def)
qed

lemma udp_checksum_summer_sum:
  assumes "even (unat n)" "unat n \<le> length d"
  shows "\<exists>s. udp_checksum_summer d n = Some s \<and> unat s = be16_sum (take (unat n) d)"
proof -
  have k: "2 * (unat n div 2) = unat n" using assms(1) by simp
  have "be16_sum (take (unat n) d) \<le> 2147450880" using unat_16_le [of n] by (intro be16_sum_take_bound) simp
  with be16_loop_exact [of "unat n div 2" d 0] assms show ?thesis
    unfolding k by (simp add: udp_checksum_summer_def even_word_16)
qed

text \<open>The value for a pseudo header of sum \<open>unat t\<close>: \<open>S\<close> is the sum of everything.\<close>

lemma udp_payload_sum:
  assumes "unat n \<le> length payload" "unat t \<le> 2000000"
  shows "\<exists>s. (if n mod 2 = 0 then do {
             s \<leftarrow> udp_checksum_summer payload n;
             Some (t + s)
           } else do {
             s \<leftarrow> udp_checksum_summer payload (n - 1);
             let t = t + s;
             ASSERT (unat n \<le> length payload);
             let x = hton16 (push_bit 8 (ucast (payload ! (unat n - 1))));
             s \<leftarrow> udp_checksum_summer (le16_bytes x) 2;
             Some (t + s)
           }) = Some s \<and> unat s = unat t + be16_sum (take (unat n) payload)"
proof (cases "even (unat n)")
  case True
  have "be16_sum (take (unat n) payload) \<le> 2147450880" using unat_16_le [of n] by (intro be16_sum_take_bound) simp
  with udp_checksum_summer_sum [OF True assms(1)] True assms(2) show ?thesis
    by (auto simp: even_word_16 unat_add_32)
next
  case False
  then have n: "unat n \<noteq> 0" by (auto intro: ccontr)
  then have m: "unat (n - 1) = unat n - 1" using unat_sub [of 1 n] by (simp add: word_le_nat_alt)
  let ?last = "payload ! (unat n - 1)"
  let ?x = "hton16 (push_bit 8 (ucast ?last)) :: 16 word"
  have u: "unat (hton16 ?x) = 256 * unat ?last"
    using unat_byte [of ?last] by (simp add: push_bit_eq_mult unat_word_ariths unat_ucast_16)
  have "take (unat n) payload = take (unat n - 1) payload @ [?last]"
    using n assms(1) take_Suc_conv_app_nth [of "unat n - 1" payload] by simp
  then have split: "be16_sum (take (unat n) payload) = be16_sum (take (unat n - 1) payload) + 256 * unat ?last"
    using False n assms(1) by (simp add: be16_sum_append)
  have b: "be16_sum (take (unat n) payload) \<le> 2147450880" using unat_16_le [of n] by (intro be16_sum_take_bound) simp
  have "even (unat (n - 1))" "unat (n - 1) \<le> length payload" using False n assms(1) unfolding m by auto
  from udp_checksum_summer_sum [OF this] obtain s1 where
    s1: "udp_checksum_summer payload (n - 1) = Some s1" "unat s1 = be16_sum (take (unat n - 1) payload)" unfolding m by blast
  from udp_checksum_summer_sum [of 2 "le16_bytes ?x"] obtain s2 where
    s2: "udp_checksum_summer (le16_bytes ?x) 2 = Some s2" "unat s2 = 256 * unat ?last"
    using u by (auto simp: be16_sum_le16)
  have "unat (t + s1) = unat t + unat s1" using b s1(2) split assms(2) by (intro unat_add_32) simp
  moreover from this have "unat (t + s1 + s2) = unat (t + s1) + unat s2"
    using b s1(2) s2(2) split assms(2) by (intro unat_add_32) simp
  ultimately show ?thesis using False s1 s2 split assms(1) by (simp add: even_word_16)
qed

lemma udp_checksum_rest_value:
  assumes n: "unat n \<le> length payload" and t: "0 < unat t" "unat t \<le> 1400000"
  shows "\<exists>c. udp_checksum_rest h payload n t = Some c \<and>
    (let S = unat t + be16_sum (udp_header_bytes h) + be16_sum (take (unat n) payload) in
      (S + unat (hton16 c)) mod 65535 = 0 \<and> (c = 0 \<longleftrightarrow> S mod 65535 = 0))"
proof -
  let ?h = "be16_sum (udp_header_bytes h)" and ?p = "be16_sum (take (unat n) payload)"
  have h: "?h \<le> 262140" using be16_sum_bound [of "udp_header_bytes h"] by simp
  from udp_checksum_summer_sum [of 8 "udp_header_bytes h"] obtain s1 where
    s1: "udp_checksum_summer (udp_header_bytes h) 8 = Some s1" "unat s1 = ?h" by auto
  have t1: "unat (t + s1) = unat t + ?h" using h s1(2) t(2) unat_add_32 [of t s1] by simp
  have "unat (t + s1) \<le> 2000000" using h t(2) unfolding t1 by simp
  from udp_payload_sum [OF n this] obtain s where
    s: "(if n mod 2 = 0 then do {
             s \<leftarrow> udp_checksum_summer payload n;
             Some ((t + s1) + s)
           } else do {
             s \<leftarrow> udp_checksum_summer payload (n - 1);
             let t = (t + s1) + s;
             ASSERT (unat n \<le> length payload);
             let x = hton16 (push_bit 8 (ucast (payload ! (unat n - 1))));
             s \<leftarrow> udp_checksum_summer (le16_bytes x) 2;
             Some (t + s)
           }) = Some s" "unat s = unat t + ?h + ?p" unfolding t1 by blast
  let ?f = "fold_carry s"
  from s(2) t(1) have "s \<noteq> 0" by auto
  with fold_carry_spec [of s] have f: "?f \<noteq> 0" "unat ?f \<le> 65535" "unat ?f mod 65535 = unat s mod 65535" by auto
  let ?c = "hton16 (ucast (NOT ?f)) :: 16 word"
  have "?c = 0 \<longleftrightarrow> (ucast (NOT ?f) :: 16 word) = 0" by (metis hton16_eq hton16_hton16 hton16_def push_bit_of_0 drop_bit_of_0 or.right_neutral)
  also have "\<dots> \<longleftrightarrow> unat ?f = 65535" using unat_checksum [OF f(2)] f(2) by (simp flip: unat_eq_zero)
  also have "\<dots> \<longleftrightarrow> unat s mod 65535 = 0"
    using f by (metis le_neq_implies_less mod_less mod_self unat_eq_zero)
  finally have z: "?c = 0 \<longleftrightarrow> unat s mod 65535 = 0" .
  have "udp_checksum_rest h payload n t = Some ?c"
    using s1(1) s(1) f(1) by (simp add: udp_checksum_rest_def cong: if_cong)
  with z checksum_total [OF refl, of s] show ?thesis
    by (simp add: Let_def s(2))
qed

definition udp_pseudo4 :: "32 word \<Rightarrow> 32 word \<Rightarrow> 16 word \<Rightarrow> bytes" where
  "udp_pseudo4 source dest len = le32_bytes source @ le32_bytes dest @ [0, 17] @ le16_bytes (hton16 len)"

definition udp_pseudo6 :: "bytes \<Rightarrow> bytes \<Rightarrow> 32 word \<Rightarrow> bytes" where
  "udp_pseudo6 source dest len = source @ dest @ le32_bytes (ntoh32 len) @ [0, 0, 0, 17]"

definition checksum_of :: "bytes \<Rightarrow> 16 word \<Rightarrow> bool" where
  "checksum_of msg c \<longleftrightarrow> (be16_sum msg + unat (hton16 c)) mod 65535 = 0 \<and> (c = 0 \<longleftrightarrow> be16_sum msg mod 65535 = 0)"

lemma le32_ntoh32: "le32_bytes (ntoh32 w) = rev (le32_bytes w)"
  by (simp add: ntoh32_def le32_bytes_of)

text \<open>Adding the next part of the pseudo header.\<close>

lemma add_part:
  assumes "even (unat n)" "length d = unat n" "unat t + be16_sum d < 4294967296"
  shows "\<exists>s. udp_checksum_summer d n = Some s \<and> unat (t + s) = unat t + be16_sum d"
  using udp_checksum_summer_sum [of n d] assms by (auto simp: unat_add_32)

lemma udp_checksum_value:
  assumes "unat n \<le> length payload"
  shows "\<exists>c. udp_checksum h payload n source dest = Some c \<and>
    checksum_of (udp_pseudo4 source dest (8 + n) @ udp_header_bytes h @ take (unat n) payload) c"
proof -
  have b: "be16_sum (le32_bytes w) \<le> 131070" "be16_sum (le16_bytes v) \<le> 65535" for w v
    using be16_sum_bound [of "le32_bytes w"] be16_sum_bound [of "le16_bytes v"] by simp_all
  note bs = b(1) [of source] b(1) [of dest] b(2) [of "hton16 (8 + n)"]
  let ?s = "be16_sum (le32_bytes source)" and ?d = "be16_sum (le32_bytes dest)" and ?l = "be16_sum (le16_bytes (hton16 (8 + n)))"
  have x: "le16_bytes (hton16 (ucast IPV4_PROTOCOL_UDP)) = [0, 17]"
    by (simp add: IPV4_PROTOCOL_UDP_def le16_bytes_def hton16_def)
  from add_part [of 4 "le32_bytes source" 0] bs obtain s1 where
    s1: "udp_checksum_summer (le32_bytes source) 4 = Some s1" "unat s1 = ?s" by auto
  from add_part [of 4 "le32_bytes dest" s1] bs s1(2) obtain s2 where
    s2: "udp_checksum_summer (le32_bytes dest) 4 = Some s2" "unat (s1 + s2) = ?s + ?d" by auto
  from add_part [of 2 "[0, 17]" "s1 + s2"] bs s2(2) obtain s3 where
    s3: "udp_checksum_summer [0, 17] 2 = Some s3" "unat (s1 + s2 + s3) = ?s + ?d + 17" by auto
  from add_part [of 2 "le16_bytes (hton16 (8 + n))" "s1 + s2 + s3"] bs s3(2) obtain s4 where
    s4: "udp_checksum_summer (le16_bytes (hton16 (8 + n))) 2 = Some s4" "unat (s1 + s2 + s3 + s4) = ?s + ?d + 17 + ?l" by auto
  have "0 < unat (s1 + s2 + s3 + s4)" "unat (s1 + s2 + s3 + s4) \<le> 1400000" using bs unfolding s4(2) by simp_all
  from udp_checksum_rest_value [OF assms this, of h] obtain c where
    c: "udp_checksum_rest h payload n (s1 + s2 + s3 + s4) = Some c"
      "checksum_of (udp_pseudo4 source dest (8 + n) @ udp_header_bytes h @ take (unat n) payload) c"
    unfolding s4(2) Let_def checksum_of_def by (auto simp: udp_pseudo4_def be16_sum_append add.assoc)
  have "udp_checksum h payload n source dest = Some c"
    using s1(1) s2(1) s3(1) s4(1) c(1) by (simp add: udp_checksum_def x)
  with c(2) show ?thesis by blast
qed

lemma udp_ip6_checksum_value:
  assumes "unat n \<le> length payload" "length source = 16" "length dest = 16"
  shows "\<exists>c. udp_ip6_checksum h payload n source dest = Some c \<and>
    checksum_of (udp_pseudo6 source dest (8 + ucast n) @ udp_header_bytes h @ take (unat n) payload) c"
proof -
  let ?x = "le32_bytes (ntoh32 (8 + ucast n))"
  let ?s = "be16_sum source" and ?d = "be16_sum dest" and ?l = "be16_sum ?x"
  have bs: "?s \<le> 524280" "?d \<le> 524280" "?l \<le> 131070"
    using assms be16_sum_bound [of source] be16_sum_bound [of dest] be16_sum_bound [of ?x] by simp_all
  have x: "le32_bytes (ntoh32 (ucast IPV6_NEXT_UDP)) = [0, 0, 0, 17]"
    by (simp add: IPV6_NEXT_UDP_def le32_ntoh32) (simp add: le32_bytes_def)
  from add_part [of 16 source 0] bs assms(2) obtain s1 where
    s1: "udp_checksum_summer source 16 = Some s1" "unat s1 = ?s" by auto
  from add_part [of 16 dest s1] bs s1(2) assms(3) obtain s2 where
    s2: "udp_checksum_summer dest 16 = Some s2" "unat (s1 + s2) = ?s + ?d" by auto
  from add_part [of 4 ?x "s1 + s2"] bs s2(2) obtain s3 where
    s3: "udp_checksum_summer ?x 4 = Some s3" "unat (s1 + s2 + s3) = ?s + ?d + ?l" by auto
  from add_part [of 4 "[0, 0, 0, 17]" "s1 + s2 + s3"] bs s3(2) obtain s4 where
    s4: "udp_checksum_summer [0, 0, 0, 17] 4 = Some s4" "unat (s1 + s2 + s3 + s4) = ?s + ?d + ?l + 17" by auto
  have "0 < unat (s1 + s2 + s3 + s4)" "unat (s1 + s2 + s3 + s4) \<le> 1400000" using bs unfolding s4(2) by simp_all
  from udp_checksum_rest_value [OF assms(1) this, of h] assms(2,3) obtain c where
    c: "udp_checksum_rest h payload n (s1 + s2 + s3 + s4) = Some c"
      "checksum_of (udp_pseudo6 source dest (8 + ucast n) @ udp_header_bytes h @ take (unat n) payload) c"
    unfolding s4(2) Let_def checksum_of_def by (auto simp: udp_pseudo6_def be16_sum_append add.assoc)
  have "udp_ip6_checksum h payload n source dest = Some c"
    using s1(1) s2(1) s3(1) s4(1) c(1) by (simp add: udp_ip6_checksum_def x)
  with c(2) show ?thesis by blast
qed

section \<open>The checks invert the headers\<close>

lemma ipv4_header_of_bytes [simp]: "ipv4_header_of (ipv4_header_bytes h @ rest) = h"
  by (cases h) (simp add: ipv4_header_of_def ipv4_header_bytes_def nth_append)

lemma ipv6_header_of_bytes [simp]:
  "length (ip6_source_address h) = 16 \<Longrightarrow> length (ip6_destination_address h) = 16 \<Longrightarrow>
   ipv6_header_of (ipv6_header_bytes h @ rest) = h"
  by (cases h) (simp add: ipv6_header_of_def ipv6_header_bytes_def nth_append)

lemma udp_header_of_bytes [simp]: "udp_header_of (udp_header_bytes h @ rest) = h"
  by (cases h) (simp add: udp_header_of_def udp_header_bytes_def)

text \<open>The checks are total: they never read outside the packet.\<close>

lemma ihl_bounds:
  fixes b :: byte
  shows "0 \<le> uint (b AND 0x0F) * 4" "uint (b AND 0x0F) * 4 \<le> 60"
proof -
  have "b AND 0x0F = take_bit 4 b" by (simp add: take_bit_eq_mask mask_eq_exp_minus_1)
  moreover have "uint (take_bit 4 b) = take_bit 4 (uint b)" by (simp add: unsigned_take_bit_eq)
  ultimately have "uint (b AND 0x0F) < 16" using take_bit_int_less_exp [of 4 "uint b"] by simp
  then show "uint (b AND 0x0F) * 4 \<le> 60" by simp
qed simp

lemma ipv4_check_total: "ipv4_check data \<noteq> None"
proof -
  let ?h = "ipv4_header_of data"
  let ?l = "uint (ip4_version4_ihl4 ?h AND 0x0F) * 4"
  have "\<exists>c. ipv4_checksum (?h\<lparr>ip4_checksum := hton16 0\<rparr>) (drop 20 data) (word_of_int (?l - 20)) = Some c"
    if "20 \<le> ?l" "?l \<le> int (length data)"
  proof -
    have "0 \<le> ?l - 20" "?l - 20 < 65536" using that ihl_bounds [of "ip4_version4_ihl4 ?h"] by linarith+
    then have u: "uint (word_of_int (?l - 20) :: 16 word) = ?l - 20" unfolding uint_word_of_int by simp
    have n: "unat (word_of_int (?l - 20) :: 16 word) = nat (?l - 20)" unfolding unat_eq_nat_uint u ..
    have "even (nat (?l - 20))" using that(1) by (simp add: even_nat_iff)
    moreover have "nat (?l - 20) \<le> length (drop 20 data)" using that(2) by simp
    ultimately show ?thesis using ipv4_checksum_sum [of "word_of_int (?l - 20)" "drop 20 data"] unfolding n by blast
  qed
  then show ?thesis
    by (auto simp: ipv4_check_def Let_def mem_read_def split: if_splits)
qed

lemma ipv6_check_total: "ipv6_check data \<noteq> None"
  by (auto simp: ipv6_check_def Let_def mem_read_def)

lemma udp_check_total: "udp_check data \<noteq> None"
  by (auto simp: udp_check_def Let_def mem_read_def)

end
