(* ===== verification/Fair_Queue.thy ===== *)
theory Fair_Queue
  imports Event_Machine
begin

text \<open>
  The fair queue \<open>flow/PacketPassFairQueue.c\<close>: many flows share one packet output.  Every flow has a
  64-bit virtual time, advanced by the weight of each packet it sends; the queued flow with the
  smallest time goes next.  Times are kept from overflowing by subtracting a common amount.

  Flows are objects of an explicit store (\<open>fq_flow\<close>), so that the queue's pointers to the sending
  and the previous flow alias the members of the list and of the tree, as in the code.  The tree
  \<open>queued_tree\<close> (an instance of \<open>structure/SAvl_impl.h\<close> ordered by \<open>compare_flows\<close>) is represented
  by its in-order sequence; insertion compares with the current times.  \<open>fq_schedule_job\<close> says whether
  the queue's job is set.
\<close>

record fq_flow =
  fl_time :: "64 word"
  fl_is_queued :: bool
  fl_data :: ptr
  fl_data_len :: int
  fl_handler_busy :: bool

record PacketPassFairQueue =
  fq_output_mtu :: int
  fq_output_cancel :: bool
  fq_use_cancel :: bool
  fq_packet_weight :: int
  fq_sending_flow :: "ptr option"
  fq_sending_len :: int
  fq_previous_flow :: "ptr option"
  fq_queued_tree :: "ptr list"
  fq_flows_list :: "ptr list"
  fq_flow :: "ptr \<Rightarrow> fq_flow"
  fq_freeing :: bool
  fq_schedule_job :: bool

text \<open>
  \<open>FqSend d n\<close> passes a packet to the output, \<open>FqDone f\<close> finishes the packet of flow \<open>f\<close>,
  \<open>FqBusy f\<close> calls its busy handler, \<open>FqCancel\<close> requests cancellation at the output.
\<close>

datatype fq_action = FqSend ptr int | FqDone ptr | FqBusy ptr | FqCancel

definition FAIRQUEUE_MAX_TIME :: "64 word" where
  "FAIRQUEUE_MAX_TIME = - 1"

definition compare_flows :: "PacketPassFairQueue \<Rightarrow> ptr \<Rightarrow> ptr \<Rightarrow> int" where
  "compare_flows m f1 f2 =
     (let t1 = fl_time (fq_flow m f1); t2 = fl_time (fq_flow m f2);
          cmp = (if t1 > t2 then 1 else 0) - (if t1 < t2 then 1 else 0)
      in if cmp \<noteq> 0 then cmp
         else (if f1 > f2 then 1 else 0) - (if f1 < f2 then 1 else 0))"

fun tree_insert :: "PacketPassFairQueue \<Rightarrow> ptr \<Rightarrow> ptr list \<Rightarrow> ptr list option" where
  "tree_insert m f [] = Some [f]"
| "tree_insert m f (g # gs) =
     (if compare_flows m f g = 0 then None
      else if compare_flows m f g < 0 then Some (f # g # gs)
      else map_option ((#) g) (tree_insert m f gs))"

definition tree_first :: "PacketPassFairQueue \<Rightarrow> ptr option" where
  "tree_first m = (case fq_queued_tree m of [] \<Rightarrow> None | f # _ \<Rightarrow> Some f)"

abbreviation upd_flow :: "ptr \<Rightarrow> (fq_flow \<Rightarrow> fq_flow) \<Rightarrow> PacketPassFairQueue \<Rightarrow> PacketPassFairQueue" where
  "upd_flow f u m \<equiv> m\<lparr>fq_flow := (fq_flow m)(f := u (fq_flow m f))\<rparr>"

definition get_current_time :: "PacketPassFairQueue \<Rightarrow> 64 word option" where
  "get_current_time m =
     (case fq_sending_flow m of
        Some s \<Rightarrow> Some (fl_time (fq_flow m s))
      | None \<Rightarrow> do {
          (time, have) \<leftarrow> (case tree_first m of
              Some first_flow \<Rightarrow> do {
                ASSERT (fl_is_queued (fq_flow m first_flow));
                Some (fl_time (fq_flow m first_flow), True)
              }
            | None \<Rightarrow> Some (0, False));
          let (time, have) = (case fq_previous_flow m of
              Some p \<Rightarrow> if \<not> have \<or> fl_time (fq_flow m p) < time then (fl_time (fq_flow m p), True)
                        else (time, have)
            | None \<Rightarrow> (time, have));
          Some (if have then time else 0)
        })"

text \<open>The loop of \<open>increment_sent_flow\<close> over the list of flows.\<close>

primrec subtract_times :: "ptr \<Rightarrow> 64 word \<Rightarrow> ptr list \<Rightarrow> PacketPassFairQueue \<Rightarrow> PacketPassFairQueue option" where
  "subtract_times flow subtract [] m = Some m"
| "subtract_times flow subtract (someflow # rest) m = do {
     m \<leftarrow> (if subtract > fl_time (fq_flow m someflow) \<and> someflow \<noteq> flow then do {
             ASSERT (\<not> fl_is_queued (fq_flow m someflow));
             Some (upd_flow someflow (\<lambda>x. x\<lparr>fl_time := 0\<rparr>) m)
           } else Some (upd_flow someflow (\<lambda>x. x\<lparr>fl_time := fl_time x - subtract\<rparr>) m));
     subtract_times flow subtract rest m
   }"

definition increment_sent_flow :: "ptr \<Rightarrow> 64 word \<Rightarrow> PacketPassFairQueue \<Rightarrow> PacketPassFairQueue option" where
  "increment_sent_flow flow amount m = do {
     ASSERT (amount \<le> FAIRQUEUE_MAX_TIME);
     ASSERT (\<not> fl_is_queued (fq_flow m flow));
     ASSERT (fq_sending_flow m = None);
     m \<leftarrow> (if amount > FAIRQUEUE_MAX_TIME - fl_time (fq_flow m flow) then do {
             subtract \<leftarrow> (case tree_first m of
                 None \<Rightarrow> Some (fl_time (fq_flow m flow))
               | Some first_flow \<Rightarrow> do {
                   ASSERT (fl_is_queued (fq_flow m first_flow));
                   Some (fl_time (fq_flow m first_flow))
                 });
             subtract_times flow subtract (fq_flows_list m) m
           } else Some m);
     Some (upd_flow flow (\<lambda>x. x\<lparr>fl_time := fl_time x + amount\<rparr>) m)
   }"

definition schedule :: "PacketPassFairQueue \<Rightarrow> (fq_action list \<times> PacketPassFairQueue) option" where
  "schedule m = do {
     ASSERT (fq_sending_flow m = None);
     ASSERT (fq_previous_flow m = None);
     ASSERT (\<not> fq_freeing m);
     ASSERT (fq_queued_tree m \<noteq> []);
     qflow \<leftarrow> tree_first m;
     ASSERT (fl_is_queued (fq_flow m qflow));
     let m = m\<lparr>fq_queued_tree := remove1 qflow (fq_queued_tree m)\<rparr>;
     let m = upd_flow qflow (\<lambda>x. x\<lparr>fl_is_queued := False\<rparr>) m;
     Some ([FqSend (fl_data (fq_flow m qflow)) (fl_data_len (fq_flow m qflow))],
           m\<lparr>fq_sending_flow := Some qflow, fq_sending_len := fl_data_len (fq_flow m qflow)\<rparr>)
   }"

text \<open>The job is unset when its handler is called.\<close>

definition schedule_job_handler :: "PacketPassFairQueue \<Rightarrow> (fq_action list \<times> PacketPassFairQueue) option" where
  "schedule_job_handler m = do {
     let m = m\<lparr>fq_schedule_job := False\<rparr>;
     ASSERT (fq_sending_flow m = None);
     ASSERT (\<not> fq_freeing m);
     let m = m\<lparr>fq_previous_flow := None\<rparr>;
     if fq_queued_tree m \<noteq> [] then schedule m else Some ([], m)
   }"

definition PacketPassFairQueue_input_handler_send ::
  "ptr \<Rightarrow> ptr \<Rightarrow> int \<Rightarrow> PacketPassFairQueue \<Rightarrow> (fq_action list \<times> PacketPassFairQueue) option" where
  "PacketPassFairQueue_input_handler_send flow data data_len m = do {
     ASSERT (fq_sending_flow m \<noteq> Some flow);
     ASSERT (\<not> fl_is_queued (fq_flow m flow));
     ASSERT (\<not> fq_freeing m);
     m \<leftarrow> (if fq_previous_flow m = Some flow then Some (m\<lparr>fq_previous_flow := None\<rparr>)
           else do {
             t \<leftarrow> get_current_time m;
             Some (upd_flow flow (\<lambda>x. x\<lparr>fl_time := max (fl_time x) t\<rparr>) m)
           });
     let m = upd_flow flow (\<lambda>x. x\<lparr>fl_data := data, fl_data_len := data_len\<rparr>) m;
     tree \<leftarrow> tree_insert m flow (fq_queued_tree m);
     let m = m\<lparr>fq_queued_tree := tree\<rparr>;
     let m = upd_flow flow (\<lambda>x. x\<lparr>fl_is_queued := True\<rparr>) m;
     if fq_sending_flow m = None \<and> \<not> fq_schedule_job m then schedule m else Some ([], m)
   }"

definition PacketPassFairQueue_output_handler_done ::
  "PacketPassFairQueue \<Rightarrow> (fq_action list \<times> PacketPassFairQueue) option" where
  "PacketPassFairQueue_output_handler_done m = do {
     flow \<leftarrow> fq_sending_flow m;
     ASSERT (fq_previous_flow m = None);
     ASSERT (\<not> fq_schedule_job m);
     ASSERT (\<not> fq_freeing m);
     ASSERT (\<not> fl_is_queued (fq_flow m flow));
     let m = m\<lparr>fq_sending_flow := None\<rparr>;
     let m = m\<lparr>fq_previous_flow := Some flow\<rparr>;
     m \<leftarrow> increment_sent_flow flow (word_of_int (fq_packet_weight m) + word_of_int (fq_sending_len m)) m;
     let m = m\<lparr>fq_schedule_job := True\<rparr>;
     if fl_handler_busy (fq_flow m flow)
     then Some ([FqDone flow, FqBusy flow], upd_flow flow (\<lambda>x. x\<lparr>fl_handler_busy := False\<rparr>) m)
     else Some ([FqDone flow], m)
   }"

text \<open>The inner \<open>None\<close> is the return value 0.\<close>

definition PacketPassFairQueue_Init ::
  "int \<Rightarrow> bool \<Rightarrow> bool \<Rightarrow> int \<Rightarrow> (ptr \<Rightarrow> fq_flow) \<Rightarrow> PacketPassFairQueue option option" where
  "PacketPassFairQueue_Init output_mtu output_cancel use_cancel packet_weight store = do {
     ASSERT (packet_weight > 0);
     ASSERT (\<not> use_cancel \<or> output_cancel);
     if \<not> (output_mtu \<le> uint FAIRQUEUE_MAX_TIME \<and> packet_weight \<le> uint FAIRQUEUE_MAX_TIME - output_mtu)
     then Some None
     else Some (Some \<lparr>fq_output_mtu = output_mtu, fq_output_cancel = output_cancel, fq_use_cancel = use_cancel,
       fq_packet_weight = packet_weight, fq_sending_flow = None, fq_sending_len = 0,
       fq_previous_flow = None, fq_queued_tree = [], fq_flows_list = [], fq_flow = store,
       fq_freeing = False, fq_schedule_job = False\<rparr>)
   }"

definition PacketPassFairQueue_Free :: "PacketPassFairQueue \<Rightarrow> PacketPassFairQueue option" where
  "PacketPassFairQueue_Free m = do {
     ASSERT (fq_flows_list m = []);
     ASSERT (fq_queued_tree m = []);
     ASSERT (fq_previous_flow m = None);
     ASSERT (fq_sending_flow m = None);
     Some (m\<lparr>fq_schedule_job := False\<rparr>)
   }"

definition PacketPassFairQueue_PrepareFree :: "PacketPassFairQueue \<Rightarrow> PacketPassFairQueue" where
  "PacketPassFairQueue_PrepareFree m = m\<lparr>fq_freeing := True\<rparr>"

definition PacketPassFairQueue_GetMTU :: "PacketPassFairQueue \<Rightarrow> int" where
  "PacketPassFairQueue_GetMTU m = fq_output_mtu m"

definition PacketPassFairQueueFlow_Init :: "ptr \<Rightarrow> PacketPassFairQueue \<Rightarrow> PacketPassFairQueue option" where
  "PacketPassFairQueueFlow_Init flow m = do {
     ASSERT (\<not> fq_freeing m);
     let m = upd_flow flow (\<lambda>x. x\<lparr>fl_time := 0, fl_is_queued := False, fl_handler_busy := False\<rparr>) m;
     Some (m\<lparr>fq_flows_list := fq_flows_list m @ [flow]\<rparr>)
   }"

definition PacketPassFairQueueFlow_Free :: "ptr \<Rightarrow> PacketPassFairQueue \<Rightarrow> PacketPassFairQueue option" where
  "PacketPassFairQueueFlow_Free flow m = do {
     ASSERT (fq_freeing m \<or> fq_sending_flow m \<noteq> Some flow);
     let m = (if fq_sending_flow m = Some flow then m\<lparr>fq_sending_flow := None\<rparr> else m);
     let m = (if fq_previous_flow m = Some flow then m\<lparr>fq_previous_flow := None\<rparr> else m);
     m \<leftarrow> (if fl_is_queued (fq_flow m flow) then do {
             ASSERT (flow \<in> set (fq_queued_tree m));
             Some (m\<lparr>fq_queued_tree := remove1 flow (fq_queued_tree m)\<rparr>)
           } else Some m);
     ASSERT (flow \<in> set (fq_flows_list m));
     Some (m\<lparr>fq_flows_list := remove1 flow (fq_flows_list m)\<rparr>)
   }"

definition PacketPassFairQueueFlow_AssertFree :: "ptr \<Rightarrow> PacketPassFairQueue \<Rightarrow> unit option" where
  "PacketPassFairQueueFlow_AssertFree flow m = ASSERT (fq_freeing m \<or> fq_sending_flow m \<noteq> Some flow)"

definition PacketPassFairQueueFlow_IsBusy :: "ptr \<Rightarrow> PacketPassFairQueue \<Rightarrow> bool option" where
  "PacketPassFairQueueFlow_IsBusy flow m = do {
     ASSERT (\<not> fq_freeing m);
     Some (fq_sending_flow m = Some flow)
   }"

definition PacketPassFairQueueFlow_RequestCancel ::
  "ptr \<Rightarrow> PacketPassFairQueue \<Rightarrow> (fq_action list \<times> PacketPassFairQueue) option" where
  "PacketPassFairQueueFlow_RequestCancel flow m = do {
     ASSERT (fq_sending_flow m = Some flow);
     ASSERT (fq_use_cancel m);
     ASSERT (\<not> fq_freeing m);
     ASSERT (\<not> fq_schedule_job m);
     Some ([FqCancel], m)
   }"

definition PacketPassFairQueueFlow_SetBusyHandler ::
  "ptr \<Rightarrow> bool \<Rightarrow> PacketPassFairQueue \<Rightarrow> PacketPassFairQueue option" where
  "PacketPassFairQueueFlow_SetBusyHandler flow handler m = do {
     ASSERT (fq_sending_flow m = Some flow);
     ASSERT (\<not> fq_freeing m);
     Some (upd_flow flow (\<lambda>x. x\<lparr>fl_handler_busy := handler\<rparr>) m)
   }"

section \<open>The tree\<close>

abbreviation fq_time :: "PacketPassFairQueue \<Rightarrow> ptr \<Rightarrow> 64 word" where
  "fq_time m f \<equiv> fl_time (fq_flow m f)"

definition fq_before :: "PacketPassFairQueue \<Rightarrow> ptr \<Rightarrow> ptr \<Rightarrow> bool" where
  "fq_before m f g \<longleftrightarrow> fq_time m f < fq_time m g \<or> fq_time m f = fq_time m g \<and> f < g"

lemma compare_flows_sign:
  "compare_flows m f g < 0 \<longleftrightarrow> fq_before m f g" "compare_flows m f g = 0 \<longleftrightarrow> f = g"
  by (auto simp: compare_flows_def fq_before_def Let_def)

lemma fq_before_linear: "f \<noteq> g \<Longrightarrow> \<not> fq_before m f g \<Longrightarrow> fq_before m g f"
  by (auto simp: fq_before_def)

lemma fq_before_trans: "fq_before m f g \<Longrightarrow> fq_before m g h \<Longrightarrow> fq_before m f h"
  by (auto simp: fq_before_def)

definition fq_sorted :: "PacketPassFairQueue \<Rightarrow> ptr list \<Rightarrow> bool" where
  "fq_sorted m tree \<longleftrightarrow> sorted_wrt (fq_before m) tree"

lemma fq_sorted_distinct: "fq_sorted m tree \<Longrightarrow> distinct tree"
  unfolding fq_sorted_def by (induction tree) (auto simp: fq_before_def)

lemma fq_sorted_first: "fq_sorted m (f # tree) \<Longrightarrow> g \<in> set tree \<Longrightarrow> fq_time m f \<le> fq_time m g"
  by (auto simp: fq_sorted_def fq_before_def)

lemma fq_sorted_remove1: "fq_sorted m tree \<Longrightarrow> fq_sorted m (remove1 f tree)"
  unfolding fq_sorted_def by (induction tree) (auto dest: set_remove1_subset [THEN subsetD])

lemma fq_sorted_cong:
  assumes "\<And>f g. f \<in> set tree \<Longrightarrow> g \<in> set tree \<Longrightarrow> fq_before m f g \<Longrightarrow> fq_before m' f g" "fq_sorted m tree"
  shows "fq_sorted m' tree"
  using assms unfolding fq_sorted_def by (auto intro: sorted_wrt_mono_rel [of _ "fq_before m"])

lemma tree_insert_ok:
  assumes "fq_sorted m tree" "f \<notin> set tree"
  shows "\<exists>tree'. tree_insert m f tree = Some tree' \<and> fq_sorted m tree' \<and> set tree' = insert f (set tree)"
  using assms
proof (induction tree)
  case Nil
  then show ?case by (simp add: fq_sorted_def)
next
  case (Cons g gs)
  from Cons obtain t where t: "tree_insert m f gs = Some t" "fq_sorted m t" "set t = insert f (set gs)"
    by (auto simp: fq_sorted_def)
  show ?case
  proof (cases "fq_before m f g")
    case True
    with Cons.prems show ?thesis
      by (auto simp: compare_flows_sign fq_sorted_def intro: fq_before_trans)
  next
    case False
    with Cons.prems fq_before_linear [of f g m] have "fq_before m g f" by auto
    with Cons.prems t False show ?thesis
      by (auto simp: compare_flows_sign fq_sorted_def)
  qed
qed

section \<open>Times\<close>

definition less_time :: "ptr \<Rightarrow> 64 word \<Rightarrow> ptr \<Rightarrow> fq_flow \<Rightarrow> fq_flow" where
  "less_time flow subtract f x =
     x\<lparr>fl_time := if subtract > fl_time x \<and> f \<noteq> flow then 0 else fl_time x - subtract\<rparr>"

lemma subtract_times_value:
  assumes "distinct fs" "\<forall>f\<in>set fs. subtract > fq_time m f \<and> f \<noteq> flow \<longrightarrow> \<not> fl_is_queued (fq_flow m f)"
  shows "subtract_times flow subtract fs m = Some (m\<lparr>fq_flow :=
    (\<lambda>f. if f \<in> set fs then less_time flow subtract f (fq_flow m f) else fq_flow m f)\<rparr>)"
  using assms
proof (induction fs arbitrary: m)
  case Nil
  then show ?case by simp
next
  case (Cons g fs)
  let ?m = "upd_flow g (less_time flow subtract g) m"
  have "subtract_times flow subtract (g # fs) m = subtract_times flow subtract fs ?m"
    using Cons.prems by (auto simp: less_time_def)
  also have "\<dots> = Some (?m\<lparr>fq_flow :=
      (\<lambda>f. if f \<in> set fs then less_time flow subtract f (fq_flow ?m f) else fq_flow ?m f)\<rparr>)"
    using Cons.prems by (intro Cons.IH) auto
  also have "(\<lambda>f. if f \<in> set fs then less_time flow subtract f (fq_flow ?m f) else fq_flow ?m f) =
      (\<lambda>f. if f \<in> set (g # fs) then less_time flow subtract f (fq_flow m f) else fq_flow m f)"
    using Cons.prems(1) by (intro ext) auto
  finally show ?case by simp
qed

lemma max_time_ge [simp]: "t \<le> FAIRQUEUE_MAX_TIME"
  by (simp add: FAIRQUEUE_MAX_TIME_def)

lemma fq_flow_time_self: "\<exists>t. x = x\<lparr>fl_time := t\<rparr>"
  by (rule exI [of _ "fl_time x"]) simp

lemma uint_max_minus: "uint (FAIRQUEUE_MAX_TIME - t) = 18446744073709551615 - uint t"
  using uint_minus_simple_alt [of t "FAIRQUEUE_MAX_TIME"]
  by (simp add: FAIRQUEUE_MAX_TIME_def unsigned_minus_1_eq_mask mask_eq_exp_minus_1)

lemma uint_add_no_wrap:
  "uint (a :: 64 word) + uint b \<le> 18446744073709551615 \<Longrightarrow> uint (a + b) = uint a + uint b"
  by (simp add: uint_plus_if_size word_size)

lemma uint_diff_add:
  fixes a b c :: "64 word"
  assumes "0 \<le> uint a - uint b + uint c" "uint a - uint b + uint c \<le> 18446744073709551615"
  shows "uint (a - b + c) = uint a - uint b + uint c"
proof -
  have "uint (a - b + c) = (uint a - uint b + uint c) mod 18446744073709551616"
    by (simp add: uint_word_ariths mod_simps)
  with assms show ?thesis by simp
qed

text \<open>
  Advancing the time of the flow that has just sent: all queued times and the flow's own new time
  are those of unbounded arithmetic, up to a common amount \<open>d\<close>.  In particular the order of the queued
  flows and the flow's place among them are those of unbounded arithmetic.
\<close>

lemma increment_sent_flow_exact:
  assumes s: "fq_sending_flow m = None" and fl: "distinct (fq_flows_list m)" "flow \<in> set (fq_flows_list m)"
    and nq: "\<not> fl_is_queued (fq_flow m flow)"
    and tree: "fq_sorted m (fq_queued_tree m)" "set (fq_queued_tree m) \<subseteq> set (fq_flows_list m)"
    and q: "\<forall>f\<in>set (fq_flows_list m). fl_is_queued (fq_flow m f) \<longleftrightarrow> f \<in> set (fq_queued_tree m)"
    and le: "\<forall>f\<in>set (fq_queued_tree m). fq_time m flow \<le> fq_time m f"
  shows "\<exists>h d. increment_sent_flow flow amount m = Some (m\<lparr>fq_flow := h\<rparr>) \<and> 0 \<le> d \<and>
    (\<forall>f\<in>set (fq_queued_tree m). uint (fl_time (h f)) = uint (fq_time m f) - d) \<and>
    uint (fl_time (h flow)) = uint (fq_time m flow) + uint amount - d \<and>
    (\<forall>f. \<exists>t. h f = (fq_flow m f)\<lparr>fl_time := t\<rparr>)"
proof (cases "amount > FAIRQUEUE_MAX_TIME - fq_time m flow")
  case False
  let ?h = "(fq_flow m)(flow := (fq_flow m flow)\<lparr>fl_time := fq_time m flow + amount\<rparr>)"
  from False have "uint amount \<le> 18446744073709551615 - uint (fq_time m flow)"
    by (simp add: not_less word_le_def uint_max_minus)
  then have "uint (fq_time m flow + amount) = uint (fq_time m flow) + uint amount"
    by (intro uint_add_no_wrap) simp
  moreover have "increment_sent_flow flow amount m = Some (m\<lparr>fq_flow := ?h\<rparr>)"
    using False s nq by (simp add: increment_sent_flow_def max_time_ge)
  moreover have "flow \<notin> set (fq_queued_tree m)" using nq q fl by auto
  moreover have "\<forall>f. \<exists>t. ?h f = (fq_flow m f)\<lparr>fl_time := t\<rparr>"
    by (auto simp: fq_flow_time_self)
  ultimately show ?thesis by (intro exI [of _ ?h] exI [of _ 0]) auto
next
  case True
  let ?tf = "fq_time m flow"
  define sub where "sub = (case fq_queued_tree m of [] \<Rightarrow> ?tf | f # _ \<Rightarrow> fq_time m f)"
  let ?base = "\<lambda>f. if f \<in> set (fq_flows_list m) then less_time flow sub f (fq_flow m f) else fq_flow m f"
  let ?h = "?base(flow := (?base flow)\<lparr>fl_time := fl_time (?base flow) + amount\<rparr>)"
  have first: "sub \<le> fq_time m f" if "f \<in> set (fq_queued_tree m)" for f
    using that tree(1) fq_sorted_first by (cases "fq_queued_tree m") (auto simp: sub_def)
  have tf: "?tf \<le> sub" using le by (cases "fq_queued_tree m") (auto simp: sub_def)
  have sub: "subtract_times flow sub (fq_flows_list m) m = Some (m\<lparr>fq_flow := ?base\<rparr>)"
    using first q by (intro subtract_times_value [OF fl(1)]) force
  have inc: "increment_sent_flow flow amount m = Some (m\<lparr>fq_flow := ?h\<rparr>)"
    using True s nq sub q tree(2)
    by (cases "fq_queued_tree m") (auto simp: increment_sent_flow_def max_time_ge tree_first_def sub_def)
  have "uint amount > 18446744073709551615 - uint ?tf"
    using True by (simp add: word_less_def uint_max_minus)
  moreover have "uint sub \<le> 18446744073709551615" using uint_lt2p [of sub] by simp
  moreover have "uint amount \<le> 18446744073709551615" using uint_lt2p [of amount] by simp
  moreover have "uint ?tf \<le> uint sub" using tf by (simp add: word_le_def)
  ultimately have new: "uint (?tf - sub + amount) = uint ?tf - uint sub + uint amount"
    by (intro uint_diff_add) simp_all
  have "flow \<notin> set (fq_queued_tree m)" using nq q fl by auto
  then have old: "uint (fl_time (?h f)) = uint (fq_time m f) - uint sub" if "f \<in> set (fq_queued_tree m)" for f
    using that first [OF that] tree(2)
    by (auto simp: less_time_def not_le [symmetric] uint_minus_simple_alt [symmetric])
  have "\<forall>f. \<exists>t. ?h f = (fq_flow m f)\<lparr>fl_time := t\<rparr>"
    by (auto simp: less_time_def fq_flow_time_self)
  with inc new old fl(2) show ?thesis
    by (intro exI [of _ ?h] exI [of _ "uint sub"]) (auto simp: less_time_def)
qed

section \<open>The queue between its flows and the output\<close>

definition fq_inv :: "PacketPassFairQueue \<Rightarrow> bool" where
  "fq_inv m \<longleftrightarrow>
     distinct (fq_flows_list m) \<and> fq_sorted m (fq_queued_tree m) \<and>
     set (fq_queued_tree m) \<subseteq> set (fq_flows_list m) \<and>
     (\<forall>f\<in>set (fq_flows_list m). fl_is_queued (fq_flow m f) \<longleftrightarrow> f \<in> set (fq_queued_tree m)) \<and>
     (\<forall>s. fq_sending_flow m = Some s \<longrightarrow> s \<in> set (fq_flows_list m) \<and> s \<notin> set (fq_queued_tree m) \<and>
        (\<forall>f\<in>set (fq_queued_tree m). fq_time m s \<le> fq_time m f) \<and>
        fq_previous_flow m = None \<and> \<not> fq_schedule_job m) \<and>
     (\<forall>p. fq_previous_flow m = Some p \<longrightarrow>
        p \<in> set (fq_flows_list m) \<and> p \<notin> set (fq_queued_tree m) \<and> fq_schedule_job m) \<and>
     (\<not> fq_freeing m \<and> fq_sending_flow m = None \<and> \<not> fq_schedule_job m \<longrightarrow> fq_queued_tree m = [])"

text \<open>
  The events: a flow's input gets a packet, the output is done, the job runs, flows come and go.
  \<open>fq_legal\<close> is the usage contract of \<open>PacketPassFairQueue.h\<close>.
\<close>

datatype fq_event =
    FlowSend ptr ptr int | OutputFinished | JobRuns | FlowInit ptr | FlowFree ptr | PrepareFree
  | SetBusy ptr bool | CancelFlow ptr

primrec fq_step ::
  "fq_event \<Rightarrow> PacketPassFairQueue \<times> fq_action list \<Rightarrow> (PacketPassFairQueue \<times> fq_action list) option" where
  "fq_step (FlowSend f data n) c = do {
     (acts, m) \<leftarrow> PacketPassFairQueue_input_handler_send f data n (fst c); Some (m, snd c @ acts) }"
| "fq_step OutputFinished c = do {
     (acts, m) \<leftarrow> PacketPassFairQueue_output_handler_done (fst c); Some (m, snd c @ acts) }"
| "fq_step JobRuns c = do {
     (acts, m) \<leftarrow> schedule_job_handler (fst c); Some (m, snd c @ acts) }"
| "fq_step (FlowInit f) c = do {
     m \<leftarrow> PacketPassFairQueueFlow_Init f (fst c); Some (m, snd c) }"
| "fq_step (FlowFree f) c = do {
     PacketPassFairQueueFlow_AssertFree f (fst c);
     m \<leftarrow> PacketPassFairQueueFlow_Free f (fst c); Some (m, snd c) }"
| "fq_step PrepareFree c = Some (PacketPassFairQueue_PrepareFree (fst c), snd c)"
| "fq_step (SetBusy f h) c = do {
     m \<leftarrow> PacketPassFairQueueFlow_SetBusyHandler f h (fst c); Some (m, snd c) }"
| "fq_step (CancelFlow f) c = do {
     (acts, m) \<leftarrow> PacketPassFairQueueFlow_RequestCancel f (fst c); Some (m, snd c @ acts) }"

fun fq_legal :: "fq_event \<Rightarrow> PacketPassFairQueue \<times> fq_action list \<Rightarrow> bool" where
  "fq_legal (FlowSend f data n) (m, as) =
     (\<not> fq_freeing m \<and> f \<in> set (fq_flows_list m) \<and> f \<notin> set (fq_queued_tree m) \<and> fq_sending_flow m \<noteq> Some f)"
| "fq_legal OutputFinished (m, as) = (\<not> fq_freeing m \<and> fq_sending_flow m \<noteq> None)"
| "fq_legal JobRuns (m, as) = (\<not> fq_freeing m \<and> fq_schedule_job m)"
| "fq_legal (FlowInit f) (m, as) = (\<not> fq_freeing m \<and> f \<notin> set (fq_flows_list m))"
| "fq_legal (FlowFree f) (m, as) = (f \<in> set (fq_flows_list m) \<and> (fq_freeing m \<or> fq_sending_flow m \<noteq> Some f))"
| "fq_legal PrepareFree (m, as) = True"
| "fq_legal (SetBusy f h) (m, as) = (\<not> fq_freeing m \<and> fq_sending_flow m = Some f)"
| "fq_legal (CancelFlow f) (m, as) = (\<not> fq_freeing m \<and> fq_use_cancel m \<and> fq_sending_flow m = Some f)"

text \<open>Changes of a flow that do not concern its time or its queue membership.\<close>

lemma fq_sorted_same_times:
  "(\<And>f. f \<in> set tree \<Longrightarrow> fq_time m' f = fq_time m f) \<Longrightarrow> fq_sorted m tree \<Longrightarrow> fq_sorted m' tree"
  by (rule fq_sorted_cong [of tree m]) (auto simp: fq_before_def)

text \<open>Scheduling takes the queued flow with the smallest time.\<close>

lemma schedule_ok:
  assumes "fq_sending_flow m = None" "fq_previous_flow m = None" "\<not> fq_freeing m" "fq_queued_tree m = f # fs"
    "\<not> fq_schedule_job m" "distinct (fq_flows_list m)" "fq_sorted m (f # fs)" "set (f # fs) \<subseteq> set (fq_flows_list m)"
    "\<forall>g\<in>set (fq_flows_list m). fl_is_queued (fq_flow m g) \<longleftrightarrow> g \<in> set (f # fs)"
  shows "\<exists>m'. schedule m = Some ([FqSend (fl_data (fq_flow m f)) (fl_data_len (fq_flow m f))], m') \<and> fq_inv m' \<and>
    fq_sending_flow m' = Some f \<and> fq_queued_tree m' = fs \<and> fq_flows_list m' = fq_flows_list m \<and>
    (\<forall>g. fq_time m' g = fq_time m g) \<and> (\<forall>g\<in>set fs. fq_time m f \<le> fq_time m g)"
proof -
  let ?m = "m\<lparr>fq_queued_tree := fs, fq_flow := (fq_flow m)(f := (fq_flow m f)\<lparr>fl_is_queued := False\<rparr>),
      fq_sending_flow := Some f, fq_sending_len := fl_data_len (fq_flow m f)\<rparr>"
  have f: "f \<notin> set fs" using fq_sorted_distinct [OF assms(7)] by simp
  have "fl_is_queued (fq_flow m f)" using assms(8,9) by simp
  then have "schedule m = Some ([FqSend (fl_data (fq_flow m f)) (fl_data_len (fq_flow m f))], ?m)"
    using assms(1-4) f by (simp add: schedule_def tree_first_def Let_def remove1_idem)
  moreover have le: "\<forall>g\<in>set fs. fq_time m f \<le> fq_time m g" using fq_sorted_first [OF assms(7)] by blast
  moreover have "fq_sorted ?m fs"
    by (rule fq_sorted_same_times [of _ _ m]) (use assms(7) in \<open>auto simp: fq_sorted_def\<close>)
  then have "fq_inv ?m" using assms f le by (auto simp: fq_inv_def)
  ultimately show ?thesis by auto
qed

lemma get_current_time_ok:
  assumes "fq_inv m"
  shows "\<exists>t. get_current_time m = Some t \<and> (\<forall>s. fq_sending_flow m = Some s \<longrightarrow> t = fq_time m s)"
  using assms
  by (cases "fq_queued_tree m") (auto simp: get_current_time_def tree_first_def fq_inv_def split: option.splits prod.splits)

lemma fq_input_ok:
  assumes inv: "fq_inv m" and l: "fq_legal (FlowSend f data n) (m, as)"
  shows "\<exists>acts m'. PacketPassFairQueue_input_handler_send f data n m = Some (acts, m') \<and> fq_inv m'"
proof -
  from l have f: "\<not> fq_freeing m" "f \<in> set (fq_flows_list m)" "f \<notin> set (fq_queued_tree m)" "fq_sending_flow m \<noteq> Some f"
    by auto
  from get_current_time_ok [OF inv] obtain t where
    t: "get_current_time m = Some t" "\<forall>s. fq_sending_flow m = Some s \<longrightarrow> t = fq_time m s" by blast
  let ?T = "if fq_previous_flow m = Some f then fq_time m f else max (fq_time m f) t"
  let ?p = "if fq_previous_flow m = Some f then None else fq_previous_flow m"
  let ?x = "(fq_flow m f)\<lparr>fl_time := ?T, fl_data := data, fl_data_len := n\<rparr>"
  let ?m2 = "m\<lparr>fq_previous_flow := ?p, fq_flow := (fq_flow m)(f := ?x)\<rparr>"
  have "fq_sorted ?m2 (fq_queued_tree m)"
    by (rule fq_sorted_same_times [of _ _ m]) (use inv f(3) in \<open>auto simp: fq_inv_def\<close>)
  from tree_insert_ok [OF this f(3)] obtain tree where
    tr: "tree_insert ?m2 f (fq_queued_tree m) = Some tree" "fq_sorted ?m2 tree"
      "set tree = insert f (set (fq_queued_tree m))" by blast
  let ?m3 = "m\<lparr>fq_previous_flow := ?p, fq_flow := (fq_flow m)(f := ?x\<lparr>fl_is_queued := True\<rparr>), fq_queued_tree := tree\<rparr>"
  have nq: "\<not> fl_is_queued (fq_flow m f)" using inv f by (auto simp: fq_inv_def)
  have eq: "PacketPassFairQueue_input_handler_send f data n m =
      (if fq_sending_flow ?m3 = None \<and> \<not> fq_schedule_job ?m3 then schedule ?m3 else Some ([], ?m3))"
    using f t(1) nq tr(1)
    by (cases m; cases "fq_previous_flow m = Some f")
      (simp_all add: PacketPassFairQueue_input_handler_send_def Let_def)
  have sorted: "fq_sorted ?m3 tree"
    by (rule fq_sorted_same_times [of _ _ ?m2]) (use tr(2) in auto)
  have q: "\<forall>g\<in>set (fq_flows_list m). fl_is_queued (fq_flow ?m3 g) \<longleftrightarrow> g \<in> set tree"
    using inv f(2) tr(3) by (auto simp: fq_inv_def)
  show ?thesis
  proof (cases "fq_sending_flow ?m3 = None \<and> \<not> fq_schedule_job ?m3")
    case True
    then have p: "fq_previous_flow ?m3 = None" using inv by (auto simp: fq_inv_def)
    obtain g gs where g: "tree = g # gs" using tr(3) by (cases tree) auto
    have "\<exists>m'. schedule ?m3 = Some ([FqSend (fl_data (fq_flow ?m3 g)) (fl_data_len (fq_flow ?m3 g))], m') \<and> fq_inv m' \<and>
      fq_sending_flow m' = Some g \<and> fq_queued_tree m' = gs \<and> fq_flows_list m' = fq_flows_list ?m3 \<and>
      (\<forall>h. fq_time m' h = fq_time ?m3 h) \<and> (\<forall>h\<in>set gs. fq_time ?m3 g \<le> fq_time ?m3 h)"
      using True p f inv sorted q tr(3) g by (intro schedule_ok) (auto simp: fq_inv_def)
    with True eq show ?thesis by auto
  next
    case False
    have "fq_inv ?m3"
      using inv f sorted q tr(3) False t(2)
      by (auto simp: fq_inv_def split: if_splits)
    with False eq show ?thesis by auto
  qed
qed

lemma fq_output_ok:
  assumes inv: "fq_inv m" and s: "fq_sending_flow m = Some f" "\<not> fq_freeing m"
  shows "\<exists>acts m'. PacketPassFairQueue_output_handler_done m = Some (acts, m') \<and> fq_inv m' \<and>
    fq_queued_tree m' = fq_queued_tree m \<and> fq_previous_flow m' = Some f"
proof -
  let ?m1 = "m\<lparr>fq_sending_flow := None, fq_previous_flow := Some f\<rparr>"
  let ?a = "word_of_int (fq_packet_weight m) + word_of_int (fq_sending_len m) :: 64 word"
  from inv s have f: "f \<in> set (fq_flows_list m)" "f \<notin> set (fq_queued_tree m)" "fq_previous_flow m = None"
    "\<not> fq_schedule_job m" "\<not> fl_is_queued (fq_flow m f)" "\<forall>g\<in>set (fq_queued_tree m). fq_time m f \<le> fq_time m g"
    by (auto simp: fq_inv_def)
  have s1: "fq_sorted ?m1 (fq_queued_tree m)"
    by (rule fq_sorted_same_times [of _ _ m]) (use inv in \<open>auto simp: fq_inv_def\<close>)
  have "\<exists>h d. increment_sent_flow f ?a ?m1 = Some (?m1\<lparr>fq_flow := h\<rparr>) \<and> 0 \<le> d \<and>
    (\<forall>g\<in>set (fq_queued_tree ?m1). uint (fl_time (h g)) = uint (fq_time ?m1 g) - d) \<and>
    uint (fl_time (h f)) = uint (fq_time ?m1 f) + uint ?a - d \<and>
    (\<forall>g. \<exists>t. h g = (fq_flow ?m1 g)\<lparr>fl_time := t\<rparr>)"
    using inv f s1 by (intro increment_sent_flow_exact) (auto simp: fq_inv_def)
  then obtain h d where h: "increment_sent_flow f ?a ?m1 = Some (?m1\<lparr>fq_flow := h\<rparr>)"
    "\<forall>g\<in>set (fq_queued_tree m). uint (fl_time (h g)) = uint (fq_time m g) - d"
    "\<forall>g. \<exists>t. h g = (fq_flow m g)\<lparr>fl_time := t\<rparr>" by auto
  have qd: "fl_is_queued (h g) = fl_is_queued (fq_flow m g)" for g
    using spec [OF h(3), of g] by auto
  let ?m2 = "?m1\<lparr>fq_flow := h, fq_schedule_job := True\<rparr>"
  have s2: "fq_sorted m' (fq_queued_tree m)" if "\<And>g. fq_time m' g = fl_time (h g)" for m'
    by (rule fq_sorted_cong [of _ m]) (use h(2) that inv in \<open>auto simp: fq_before_def fq_inv_def word_less_def word_uint_eq_iff\<close>)
  have i2: "fq_inv m'" if "\<And>g. fq_time m' g = fl_time (h g)" "\<And>g. fl_is_queued (fq_flow m' g) = fl_is_queued (h g)"
    "fq_flows_list m' = fq_flows_list m" "fq_queued_tree m' = fq_queued_tree m" "fq_sending_flow m' = None"
    "fq_previous_flow m' = Some f" "fq_schedule_job m'" for m'
    using inv f s2 [OF that(1)] that qd by (auto simp: fq_inv_def)
  show ?thesis
  proof (cases "fl_handler_busy (h f)")
    case True
    then show ?thesis
      using s f h(1) by (auto simp: PacketPassFairQueue_output_handler_done_def Let_def intro!: i2 split: if_splits)
  next
    case False
    then show ?thesis
      using s f h(1) by (auto simp: PacketPassFairQueue_output_handler_done_def Let_def intro!: i2)
  qed
qed

lemma fq_job_ok:
  assumes inv: "fq_inv m" and j: "fq_schedule_job m" "\<not> fq_freeing m"
  shows "\<exists>acts m'. schedule_job_handler m = Some (acts, m') \<and> fq_inv m'"
proof -
  let ?m = "m\<lparr>fq_schedule_job := False, fq_previous_flow := None\<rparr>"
  have s: "fq_sending_flow m = None" using inv j by (auto simp: fq_inv_def)
  have so: "fq_sorted ?m (fq_queued_tree m)"
    by (rule fq_sorted_same_times [of _ _ m]) (use inv in \<open>auto simp: fq_inv_def\<close>)
  show ?thesis
  proof (cases "fq_queued_tree m")
    case Nil
    with inv s so j show ?thesis by (auto simp: schedule_job_handler_def Let_def fq_inv_def)
  next
    case (Cons f fs)
    have "\<exists>m'. schedule ?m = Some ([FqSend (fl_data (fq_flow ?m f)) (fl_data_len (fq_flow ?m f))], m') \<and> fq_inv m' \<and>
      fq_sending_flow m' = Some f \<and> fq_queued_tree m' = fs \<and> fq_flows_list m' = fq_flows_list ?m \<and>
      (\<forall>h. fq_time m' h = fq_time ?m h) \<and> (\<forall>h\<in>set fs. fq_time ?m f \<le> fq_time ?m h)"
      using inv s so j Cons by (intro schedule_ok) (auto simp: fq_inv_def)
    with Cons s j show ?thesis by (auto simp: schedule_job_handler_def Let_def)
  qed
qed

lemma fq_flow_init_ok:
  assumes inv: "fq_inv m" and f: "f \<notin> set (fq_flows_list m)" "\<not> fq_freeing m"
  shows "\<exists>m'. PacketPassFairQueueFlow_Init f m = Some m' \<and> fq_inv m'"
proof -
  let ?m = "m\<lparr>fq_flow := (fq_flow m)(f := (fq_flow m f)\<lparr>fl_time := 0, fl_is_queued := False, fl_handler_busy := False\<rparr>),
      fq_flows_list := fq_flows_list m @ [f]\<rparr>"
  have t: "f \<notin> set (fq_queued_tree m)" using inv f by (auto simp: fq_inv_def)
  have "fq_sorted ?m (fq_queued_tree m)"
    by (rule fq_sorted_same_times [of _ _ m]) (use inv t in \<open>auto simp: fq_inv_def\<close>)
  then have "fq_inv ?m" using inv f t by (auto simp: fq_inv_def)
  with f show ?thesis by (simp add: PacketPassFairQueueFlow_Init_def)
qed

lemma fq_flow_free_ok:
  assumes inv: "fq_inv m" and f: "f \<in> set (fq_flows_list m)" "fq_freeing m \<or> fq_sending_flow m \<noteq> Some f"
  shows "\<exists>m'. PacketPassFairQueueFlow_Free f m = Some m' \<and> fq_inv m'"
proof -
  let ?s = "if fq_sending_flow m = Some f then None else fq_sending_flow m"
  let ?p = "if fq_previous_flow m = Some f then None else fq_previous_flow m"
  let ?m = "m\<lparr>fq_sending_flow := ?s, fq_previous_flow := ?p, fq_queued_tree := remove1 f (fq_queued_tree m),
      fq_flows_list := remove1 f (fq_flows_list m)\<rparr>"
  have d: "distinct (fq_flows_list m)" "distinct (fq_queued_tree m)"
    "fl_is_queued (fq_flow m f) \<longleftrightarrow> f \<in> set (fq_queued_tree m)"
    using inv f fq_sorted_distinct [of m "fq_queued_tree m"] by (auto simp: fq_inv_def)
  have eq: "PacketPassFairQueueFlow_Free f m = Some ?m"
    using f d(3) by (cases m) (auto simp: PacketPassFairQueueFlow_Free_def Let_def remove1_idem)
  have "fq_sorted ?m (remove1 f (fq_queued_tree m))"
    by (rule fq_sorted_same_times [of _ _ m]) (use inv fq_sorted_remove1 in \<open>auto simp: fq_inv_def\<close>)
  then have "fq_inv ?m" using inv f d by (auto simp: fq_inv_def)
  with eq show ?thesis by blast
qed

interpretation fq: event_machine fq_step fq_legal "\<lambda>c. fq_inv (fst c)"
proof
  fix c e
  assume i: "fq_inv (fst c)" and l: "fq_legal e c"
  obtain m as where c: "c = (m, as)" by (cases c)
  show "\<exists>c'. fq_step e c = Some c' \<and> fq_inv (fst c')"
  proof (cases e)
    case (FlowSend f data n)
    with i l fq_input_ok [of m f data n as] show ?thesis by (fastforce simp: c)
  next
    case OutputFinished
    with i l fq_output_ok [of m] show ?thesis by (fastforce simp: c)
  next
    case JobRuns
    with i l fq_job_ok [of m] show ?thesis by (fastforce simp: c)
  next
    case (FlowInit f)
    with i l fq_flow_init_ok [of m f] show ?thesis by (auto simp: c)
  next
    case (FlowFree f)
    with i l fq_flow_free_ok [of m f] show ?thesis by (auto simp: c PacketPassFairQueueFlow_AssertFree_def)
  next
    case PrepareFree
    with i show ?thesis
      using fq_sorted_same_times [of "fq_queued_tree m" "m\<lparr>fq_freeing := True\<rparr>" m]
      by (auto simp: c fq_inv_def PacketPassFairQueue_PrepareFree_def)
  next
    case (SetBusy f h)
    let ?m = "upd_flow f (\<lambda>x. x\<lparr>fl_handler_busy := h\<rparr>) m"
    have "fq_sorted ?m (fq_queued_tree m)"
      by (rule fq_sorted_same_times [of _ _ m]) (use i in \<open>auto simp: c fq_inv_def\<close>)
    with SetBusy i l show ?thesis
      by (auto simp: c fq_inv_def PacketPassFairQueueFlow_SetBusyHandler_def)
  next
    case (CancelFlow f)
    with i l show ?thesis by (auto simp: c fq_inv_def PacketPassFairQueueFlow_RequestCancel_def)
  qed
qed

lemma fq_Init_inv:
  assumes "PacketPassFairQueue_Init mtu can use w store = Some (Some m)"
  shows "fq_inv m"
  using assms by (auto simp: PacketPassFairQueue_Init_def fq_inv_def fq_sorted_def split: if_splits)

section \<open>What the operations leave alone\<close>

lemma schedule_keeps:
  "schedule m = Some (acts, m') \<Longrightarrow> fq_flows_list m' = fq_flows_list m \<and> fq_freeing m' = fq_freeing m"
  by (auto simp: schedule_def Let_def split: Option.bind_splits)

lemma subtract_times_keeps:
  "subtract_times f s fs m = Some m' \<Longrightarrow> fq_flows_list m' = fq_flows_list m \<and> fq_freeing m' = fq_freeing m"
proof (induction fs arbitrary: m)
  case (Cons g fs)
  then obtain t where "subtract_times f s fs (upd_flow g (\<lambda>x. x\<lparr>fl_time := t\<rparr>) m) = Some m'"
    by (auto split: if_splits)
  from Cons.IH [OF this] show ?case by simp
qed simp

lemma increment_keeps:
  "increment_sent_flow f a m = Some m' \<Longrightarrow> fq_flows_list m' = fq_flows_list m \<and> fq_freeing m' = fq_freeing m"
  by (auto simp: increment_sent_flow_def split: if_splits Option.bind_splits option.splits dest!: subtract_times_keeps)

lemma fq_send_keeps:
  "fq_step (FlowSend f d n) (m, as) = Some (m', as') \<Longrightarrow> fq_flows_list m' = fq_flows_list m \<and> fq_freeing m' = fq_freeing m"
  by (auto simp: PacketPassFairQueue_input_handler_send_def Let_def split: if_splits Option.bind_splits dest!: schedule_keeps)

lemma fq_done_keeps:
  "fq_step OutputFinished (m, as) = Some (m', as') \<Longrightarrow> fq_flows_list m' = fq_flows_list m \<and> fq_freeing m' = fq_freeing m"
  by (auto simp: PacketPassFairQueue_output_handler_done_def Let_def split: if_splits Option.bind_splits dest!: increment_keeps)

lemma fq_job_keeps:
  "fq_step JobRuns (m, as) = Some (m', as') \<Longrightarrow> fq_flows_list m' = fq_flows_list m \<and> fq_freeing m' = fq_freeing m"
  by (auto simp: schedule_job_handler_def Let_def split: if_splits Option.bind_splits dest!: schedule_keeps)

lemma fq_flow_init_list:
  "PacketPassFairQueueFlow_Init f m = Some m' \<Longrightarrow> fq_flows_list m' = fq_flows_list m @ [f] \<and> fq_freeing m' = fq_freeing m"
  by (auto simp: PacketPassFairQueueFlow_Init_def Let_def)

lemma fq_flow_free_list:
  "PacketPassFairQueueFlow_Free f m = Some m' \<Longrightarrow>
     fq_flows_list m' = remove1 f (fq_flows_list m) \<and> fq_freeing m' = fq_freeing m"
  by (auto simp: PacketPassFairQueueFlow_Free_def Let_def split: if_splits)

end
