(* ===== verification/UdpGw_Client.thy ===== *)
theory UdpGw_Client
  imports Net_Addr Fair_Queue Flow_Elements "HOL-Library.Sublist"
begin

text \<open>
  The udpgw client \<open>udpgw_client/UdpGwClient.c\<close>: UDP packets of many local/remote address pairs are
  multiplexed over one stream.  Each pair is a connection with a 16-bit id; when all ids are in use
  the least recently used connection is rebound to the new pair.

  Connections are objects of a store indexed by pointers; the two search trees are maps from address
  pairs and ids to pointers, and \<open>connections_list\<close> has the least recently used connection first.
  The client owns the fair queue, the inactivity monitor, the connector, the decoder and the stream
  sender of the theories imported here.  A connection's send buffer (its \<open>PacketProtoFlow\<close>) appears as the
  memory it offers for the next packet, \<open>co_out\<close>, and the packets submitted to it.  The keep-alive
  is compiled out in this build.
\<close>

section \<open>Protocol\<close>

definition UDPGW_CLIENT_FLAG_REBIND :: byte where
  "UDPGW_CLIENT_FLAG_REBIND = 2"

definition UDPGW_CLIENT_FLAG_DNS :: byte where
  "UDPGW_CLIENT_FLAG_DNS = 4"

definition UDPGW_CLIENT_FLAG_IPV6 :: byte where
  "UDPGW_CLIENT_FLAG_IPV6 = 8"

definition udpgw_compute_mtu :: "int \<Rightarrow> int" where
  "udpgw_compute_mtu dgram_mtu =
     (let bs = bsize_add (bsize_fromsize 3)
        (bsize_add (bsize_max (bsize_fromsize 6) (bsize_fromsize 18)) (bsize_fromint dgram_mtu))
      in case bsize_toint bs of None \<Rightarrow> -1 | Some s \<Rightarrow> s)"

record UdpGwClient_conaddr =
  local_addr :: BAddr
  remote_addr :: BAddr

record UdpGwClient_connection =
  co_conaddr :: UdpGwClient_conaddr
  co_first_flags :: byte
  co_first_data :: bytes
  co_first_job :: bool
  co_conid :: "16 word"
  co_out :: "bytes option"

record UdpGwClient =
  ug_udp_mtu :: int
  ug_max_connections :: int
  ug_send_buffer_size :: int
  ug_udpgw_mtu :: int
  ug_pp_mtu :: int
  ug_by_conaddr :: "UdpGwClient_conaddr \<Rightarrow> ptr option"
  ug_by_conid :: "16 word \<Rightarrow> ptr option"
  ug_connections_list :: "ptr list"
  ug_num_connections :: int
  ug_next_conid :: int
  ug_con :: "ptr \<Rightarrow> UdpGwClient_connection"
  ug_send_queue :: PacketPassFairQueue
  ug_send_monitor :: PacketPassInactivityMonitor
  ug_send_connector :: PacketPassConnector
  ug_keepalive_qflow :: ptr
  ug_keepalive_sending :: bool
  ug_have_server :: bool
  ug_send_sender :: "PacketStreamSender option"
  ug_recv_decoder :: "PacketProtoDecoder option"
  ug_recv_if :: bool

text \<open>
  \<open>UgPacket p pkt\<close>: connection \<open>p\<close> submits a packet to its send buffer; \<open>UgAccept\<close>: the packet from
  the server is accepted; \<open>UgReceived\<close> and \<open>UgServerError\<close> call the user's handlers.
\<close>

datatype ug_action = UgPacket ptr bytes | UgAccept | UgReceived BAddr BAddr bytes | UgServerError

abbreviation upd_con :: "ptr \<Rightarrow> (UdpGwClient_connection \<Rightarrow> UdpGwClient_connection) \<Rightarrow> UdpGwClient \<Rightarrow> UdpGwClient" where
  "upd_con p u g \<equiv> g\<lparr>ug_con := (ug_con g)(p := u (ug_con g p))\<rparr>"

section \<open>Operations\<close>

definition free_server :: "UdpGwClient \<Rightarrow> UdpGwClient option" where
  "free_server g = do {
     k \<leftarrow> PacketPassConnector_DisconnectOutput (ug_send_connector g);
     let g = g\<lparr>ug_send_connector := k\<rparr>;
     ASSERT (ug_send_sender g \<noteq> None);
     let g = g\<lparr>ug_send_sender := None\<rparr>;
     ASSERT (ug_recv_decoder g \<noteq> None);
     let g = g\<lparr>ug_recv_decoder := None\<rparr>;
     ASSERT (ug_recv_if g);
     Some (g\<lparr>ug_recv_if := False\<rparr>)
   }"

definition decoder_handler_error :: "UdpGwClient \<Rightarrow> (ug_action list \<times> UdpGwClient) option" where
  "decoder_handler_error g = do {
     ASSERT (ug_have_server g);
     Some ([UgServerError], g)
   }"

definition find_connection_by_conaddr :: "UdpGwClient \<Rightarrow> UdpGwClient_conaddr \<Rightarrow> ptr option" where
  "find_connection_by_conaddr g conaddr = ug_by_conaddr g conaddr"

definition find_connection_by_conid :: "UdpGwClient \<Rightarrow> 16 word \<Rightarrow> ptr option" where
  "find_connection_by_conid g conid = ug_by_conid g conid"

text \<open>\<open>LinkedList1_Remove\<close> and \<open>LinkedList1_Append\<close> of a connection.\<close>

definition move_to_end :: "ptr \<Rightarrow> UdpGwClient \<Rightarrow> UdpGwClient" where
  "move_to_end p g = g\<lparr>ug_connections_list := remove1 p (ug_connections_list g) @ [p]\<rparr>"

definition recv_interface_handler_send :: "bytes \<Rightarrow> UdpGwClient \<Rightarrow> (ug_action list \<times> UdpGwClient) option" where
  "recv_interface_handler_send data g =
     (let drop_packet = Some ([UgAccept], g) in do {
     ASSERT (ug_have_server g);
     ASSERT (int (length data) \<le> ug_udpgw_mtu g);
     if length data < 3 then drop_packet
     else do {
       let flags = data ! 0;
       let conid = le16_of (take 2 (drop 1 data));
       let data = drop 3 data;
       if flags AND UDPGW_CLIENT_FLAG_IPV6 \<noteq> 0 \<and> length data < 18 then drop_packet
       else if flags AND UDPGW_CLIENT_FLAG_IPV6 = 0 \<and> length data < 6 then drop_packet
       else do {
         let (remote_addr', data) =
           (if flags AND UDPGW_CLIENT_FLAG_IPV6 \<noteq> 0
            then (BAddr_InitIPv6 (take 16 data) (le16_of (take 2 (drop 16 data))), drop 18 data)
            else (BAddr_InitIPv4 (le32_of (take 4 data)) (le16_of (take 2 (drop 4 data))), drop 6 data));
         if int (length data) > ug_udp_mtu g then drop_packet
         else case find_connection_by_conid g conid of
           None \<Rightarrow> drop_packet
         | Some con \<Rightarrow>
             if BAddr_CompareOrder (remote_addr (co_conaddr (ug_con g con))) remote_addr' \<noteq> 0 then drop_packet
             else Some ([UgAccept, UgReceived (local_addr (co_conaddr (ug_con g con)))
                          (remote_addr (co_conaddr (ug_con g con))) data], move_to_end con g)
       }
     }
   })"

text \<open>\<open>send_monitor_handler\<close> returns at once when \<open>PSIPHON\<close> is defined.\<close>

definition send_monitor_handler :: "UdpGwClient \<Rightarrow> UdpGwClient" where
  "send_monitor_handler g = g"

definition keepalive_if_handler_done :: "UdpGwClient \<Rightarrow> UdpGwClient option" where
  "keepalive_if_handler_done g = do {
     ASSERT (ug_keepalive_sending g);
     Some (g\<lparr>ug_keepalive_sending := False\<rparr>)
   }"

text \<open>The loop returns the id and the new value of \<open>next_conid\<close>; \<open>None\<close> would be a loop without end.\<close>

partial_function (option) find_unused_conid_loop :: "UdpGwClient \<Rightarrow> int \<Rightarrow> int option" where
  [code]: "find_unused_conid_loop g next_conid =
     (if find_connection_by_conid g (word_of_int next_conid) = None then Some next_conid
      else if next_conid = ug_max_connections g - 1 then find_unused_conid_loop g 0
      else find_unused_conid_loop g (next_conid + 1))"

definition find_unused_conid :: "UdpGwClient \<Rightarrow> (16 word \<times> UdpGwClient) option" where
  "find_unused_conid g = do {
     ASSERT (ug_num_connections g < ug_max_connections g);
     n \<leftarrow> find_unused_conid_loop g (ug_next_conid g);
     Some (word_of_int n, g\<lparr>ug_next_conid := n\<rparr>)
   }"

text \<open>
  \<open>malloc\<close> is the address of a new connection object, or \<open>None\<close>; \<open>flow_ok\<close> is the result of
  \<open>PacketProtoFlow_Init\<close>.
\<close>

definition connection_init ::
  "ptr option \<Rightarrow> bool \<Rightarrow> UdpGwClient_conaddr \<Rightarrow> byte \<Rightarrow> bytes \<Rightarrow> UdpGwClient \<Rightarrow> UdpGwClient option" where
  "connection_init malloc flow_ok conaddr flags data g = do {
     ASSERT (ug_num_connections g < ug_max_connections g);
     ASSERT (find_connection_by_conaddr g conaddr = None);
     ASSERT (int (length data) \<le> ug_udp_mtu g);
     case malloc of
       None \<Rightarrow> Some g
     | Some con \<Rightarrow> do {
         (conid, g) \<leftarrow> find_unused_conid g;
         q \<leftarrow> PacketPassFairQueueFlow_Init con (ug_send_queue g);
         let g = g\<lparr>ug_send_queue := q\<rparr>;
         if \<not> flow_ok then do {
           q \<leftarrow> PacketPassFairQueueFlow_Free con (ug_send_queue g);
           Some (g\<lparr>ug_send_queue := q\<rparr>)
         } else do {
           let g = upd_con con (\<lambda>_. \<lparr>co_conaddr = conaddr, co_first_flags = flags, co_first_data = data,
             co_first_job = True, co_conid = conid, co_out = None\<rparr>) g;
           ASSERT (ug_by_conaddr g conaddr = None);
           let g = g\<lparr>ug_by_conaddr := (ug_by_conaddr g)(conaddr := Some con)\<rparr>;
           ASSERT (ug_by_conid g conid = None);
           let g = g\<lparr>ug_by_conid := (ug_by_conid g)(conid := Some con)\<rparr>;
           Some (g\<lparr>ug_connections_list := ug_connections_list g @ [con],
                   ug_num_connections := ug_num_connections g + 1\<rparr>)
         }
       }
   }"

definition connection_free :: "ptr \<Rightarrow> UdpGwClient \<Rightarrow> UdpGwClient option" where
  "connection_free con g = do {
     PacketPassFairQueueFlow_AssertFree con (ug_send_queue g);
     let g = g\<lparr>ug_num_connections := ug_num_connections g - 1\<rparr>;
     ASSERT (con \<in> set (ug_connections_list g));
     let g = g\<lparr>ug_connections_list := remove1 con (ug_connections_list g)\<rparr>;
     ASSERT (ug_by_conid g (co_conid (ug_con g con)) = Some con);
     let g = g\<lparr>ug_by_conid := (ug_by_conid g)(co_conid (ug_con g con) := None)\<rparr>;
     ASSERT (ug_by_conaddr g (co_conaddr (ug_con g con)) = Some con);
     let g = g\<lparr>ug_by_conaddr := (ug_by_conaddr g)(co_conaddr (ug_con g con) := None)\<rparr>;
     q \<leftarrow> PacketPassFairQueueFlow_Free con (ug_send_queue g);
     Some (g\<lparr>ug_send_queue := q\<rparr>)
   }"

definition connection_send ::
  "ptr \<Rightarrow> byte \<Rightarrow> bytes \<Rightarrow> UdpGwClient \<Rightarrow> (ug_action list \<times> UdpGwClient) option" where
  "connection_send con flags data g = do {
     ASSERT (int (length data) \<le> ug_udp_mtu g);
     case co_out (ug_con g con) of
       None \<Rightarrow> Some ([], g)
     | Some out \<Rightarrow> do {
         let out_pos = 0;
         let addr = remote_addr (co_conaddr (ug_con g con));
         let flags = (case addr of BADDR_TYPE_IPV6 _ _ \<Rightarrow> flags OR UDPGW_CLIENT_FLAG_IPV6 | _ \<Rightarrow> flags);
         out \<leftarrow> mem_write out out_pos (flags # le16_bytes (co_conid (ug_con g con)));
         let out_pos = out_pos + 3;
         (out, out_pos) \<leftarrow> (case addr of
             BADDR_TYPE_IPV4 ip port \<Rightarrow> do {
               out \<leftarrow> mem_write out out_pos (le32_bytes ip @ le16_bytes port);
               Some (out, out_pos + 6)
             }
           | BADDR_TYPE_IPV6 ip port \<Rightarrow> do {
               out \<leftarrow> mem_write out out_pos (ip @ le16_bytes port);
               Some (out, out_pos + 18)
             }
           | BADDR_TYPE_NONE \<Rightarrow> Some (out, out_pos));
         out \<leftarrow> mem_write out out_pos data;
         let out_pos = out_pos + int (length data);
         ASSERT (out_pos \<le> ug_udpgw_mtu g);
         pkt \<leftarrow> mem_read out 0 out_pos;
         Some ([UgPacket con pkt], upd_con con (\<lambda>c. c\<lparr>co_out := None\<rparr>) g)
       }
   }"

text \<open>The job is unset when its handler is called.\<close>

definition connection_first_job_handler :: "ptr \<Rightarrow> UdpGwClient \<Rightarrow> (ug_action list \<times> UdpGwClient) option" where
  "connection_first_job_handler con g =
     connection_send con (UDPGW_CLIENT_FLAG_REBIND OR co_first_flags (ug_con g con))
       (co_first_data (ug_con g con)) (upd_con con (\<lambda>c. c\<lparr>co_first_job := False\<rparr>) g)"

definition reuse_connection :: "UdpGwClient_conaddr \<Rightarrow> UdpGwClient \<Rightarrow> (ptr \<times> UdpGwClient) option" where
  "reuse_connection conaddr g = do {
     ASSERT (find_connection_by_conaddr g conaddr = None);
     ASSERT (ug_num_connections g > 0);
     con \<leftarrow> (case ug_connections_list g of [] \<Rightarrow> None | p # _ \<Rightarrow> Some p);
     ASSERT (ug_by_conaddr g (co_conaddr (ug_con g con)) = Some con);
     let g = g\<lparr>ug_by_conaddr := (ug_by_conaddr g)(co_conaddr (ug_con g con) := None)\<rparr>;
     let g = upd_con con (\<lambda>c. c\<lparr>co_conaddr := conaddr\<rparr>) g;
     ASSERT (ug_by_conaddr g conaddr = None);
     Some (con, g\<lparr>ug_by_conaddr := (ug_by_conaddr g)(conaddr := Some con)\<rparr>)
   }"

text \<open>The inner \<open>None\<close> is the return value 0.  \<open>store\<close> and \<open>cstore\<close> are the memory of flows and connections.\<close>

definition UdpGwClient_Init ::
  "(ptr \<Rightarrow> fq_flow) \<Rightarrow> (ptr \<Rightarrow> UdpGwClient_connection) \<Rightarrow> ptr \<Rightarrow> int \<Rightarrow> int \<Rightarrow> int \<Rightarrow> UdpGwClient option option" where
  "UdpGwClient_Init store cstore keepalive_qflow udp_mtu max_connections send_buffer_size = do {
     ASSERT (udp_mtu \<ge> 0);
     ASSERT (udpgw_compute_mtu udp_mtu \<ge> 0);
     ASSERT (udpgw_compute_mtu udp_mtu \<le> PACKETPROTO_MAXPAYLOAD);
     ASSERT (max_connections > 0);
     ASSERT (send_buffer_size > 0);
     let max_connections = (if max_connections > 65535 + 1 then 65535 + 1 else max_connections);
     let udpgw_mtu = udpgw_compute_mtu udp_mtu;
     let pp_mtu = udpgw_mtu + packetproto_header_size;
     connector \<leftarrow> PacketPassConnector_Init pp_mtu;
     let monitor = PacketPassInactivityMonitor_Init False True;
     r \<leftarrow> PacketPassFairQueue_Init pp_mtu False False 1 store;
     case r of
       None \<Rightarrow> Some None
     | Some queue \<Rightarrow> do {
         queue \<leftarrow> PacketPassFairQueueFlow_Init keepalive_qflow queue;
         Some (Some \<lparr>ug_udp_mtu = udp_mtu, ug_max_connections = max_connections,
           ug_send_buffer_size = send_buffer_size, ug_udpgw_mtu = udpgw_mtu, ug_pp_mtu = pp_mtu,
           ug_by_conaddr = (\<lambda>_. None), ug_by_conid = (\<lambda>_. None), ug_connections_list = [],
           ug_num_connections = 0, ug_next_conid = 0, ug_con = cstore, ug_send_queue = queue,
           ug_send_monitor = monitor, ug_send_connector = connector, ug_keepalive_qflow = keepalive_qflow,
           ug_keepalive_sending = False, ug_have_server = False, ug_send_sender = None,
           ug_recv_decoder = None, ug_recv_if = False\<rparr>)
       }
   }"

text \<open>The loop that frees the connections; \<open>None\<close> would be a loop without end.\<close>

partial_function (option) free_connections :: "UdpGwClient \<Rightarrow> UdpGwClient option" where
  [code]: "free_connections g =
     (case ug_connections_list g of
        [] \<Rightarrow> Some g
      | con # _ \<Rightarrow> connection_free con g \<bind> free_connections)"

definition UdpGwClient_Free :: "UdpGwClient \<Rightarrow> UdpGwClient option" where
  "UdpGwClient_Free g = do {
     let g = g\<lparr>ug_send_queue := PacketPassFairQueue_PrepareFree (ug_send_queue g)\<rparr>;
     g \<leftarrow> free_connections g;
     g \<leftarrow> (if ug_have_server g then free_server g else Some g);
     q \<leftarrow> PacketPassFairQueueFlow_Free (ug_keepalive_qflow g) (ug_send_queue g);
     q \<leftarrow> PacketPassFairQueue_Free q;
     Some (g\<lparr>ug_send_queue := q, ug_send_monitor := PacketPassInactivityMonitor_Free (ug_send_monitor g)\<rparr>)
   }"

definition UdpGwClient_SubmitPacket ::
  "ptr option \<Rightarrow> bool \<Rightarrow> BAddr \<Rightarrow> BAddr \<Rightarrow> bool \<Rightarrow> bytes \<Rightarrow> UdpGwClient \<Rightarrow> (ug_action list \<times> UdpGwClient) option" where
  "UdpGwClient_SubmitPacket malloc flow_ok local remote is_dns data g = do {
     ASSERT (local \<noteq> BADDR_TYPE_NONE);
     ASSERT (remote \<noteq> BADDR_TYPE_NONE);
     ASSERT (int (length data) \<le> ug_udp_mtu g);
     let conaddr = \<lparr>local_addr = local, remote_addr = remote\<rparr>;
     let con = find_connection_by_conaddr g conaddr;
     let flags = (if is_dns then UDPGW_CLIENT_FLAG_DNS else 0);
     (con, flags, g) \<leftarrow> (if con = None \<and> ug_num_connections g = ug_max_connections g then do {
                          (con, g) \<leftarrow> reuse_connection conaddr g;
                          Some (Some con, flags OR UDPGW_CLIENT_FLAG_REBIND, g)
                        } else Some (con, flags, g));
     case con of
       None \<Rightarrow> do {
         g \<leftarrow> connection_init malloc flow_ok conaddr flags data g;
         Some ([], g)
       }
     | Some con \<Rightarrow> connection_send con flags data (move_to_end con g)
   }"

text \<open>The actions are those of the connector: a packet that waits for a server is sent to the new one.\<close>

definition UdpGwClient_ConnectServer ::
  "(int \<Rightarrow> bytes option) \<Rightarrow> UdpGwClient \<Rightarrow> (bool \<times> pp_action list \<times> UdpGwClient) option" where
  "UdpGwClient_ConnectServer malloc g = do {
     ASSERT (\<not> ug_have_server g);
     ASSERT (\<not> ug_recv_if g);
     let g = g\<lparr>ug_recv_if := True\<rparr>;
     case PacketProtoDecoder_Init malloc (ug_udpgw_mtu g) of
       None \<Rightarrow> Some (False, [], g\<lparr>ug_recv_if := False\<rparr>)
     | Some (_, d) \<Rightarrow> do {
         let g = g\<lparr>ug_recv_decoder := Some d\<rparr>;
         s \<leftarrow> PacketStreamSender_Init (ug_pp_mtu g);
         let g = g\<lparr>ug_send_sender := Some s\<rparr>;
         (acts, k) \<leftarrow> PacketPassConnector_ConnectOutput (ug_pp_mtu g) (ug_send_connector g);
         Some (True, acts, g\<lparr>ug_send_connector := k, ug_have_server := True\<rparr>)
       }
   }"

definition UdpGwClient_DisconnectServer :: "UdpGwClient \<Rightarrow> UdpGwClient option" where
  "UdpGwClient_DisconnectServer g = do {
     ASSERT (ug_have_server g);
     g \<leftarrow> free_server g;
     Some (g\<lparr>ug_have_server := False\<rparr>)
   }"

section \<open>Wire format\<close>

primrec udpgw_addr_bytes :: "BAddr \<Rightarrow> bytes" where
  "udpgw_addr_bytes BADDR_TYPE_NONE = []"
| "udpgw_addr_bytes (BADDR_TYPE_IPV4 ip port) = le32_bytes ip @ le16_bytes port"
| "udpgw_addr_bytes (BADDR_TYPE_IPV6 ip port) = ip @ le16_bytes port"

definition udpgw_flags :: "byte \<Rightarrow> BAddr \<Rightarrow> byte" where
  "udpgw_flags flags addr = (case addr of BADDR_TYPE_IPV6 _ _ \<Rightarrow> flags OR UDPGW_CLIENT_FLAG_IPV6 | _ \<Rightarrow> flags)"

definition udpgw_msg :: "byte \<Rightarrow> 16 word \<Rightarrow> BAddr \<Rightarrow> bytes \<Rightarrow> bytes" where
  "udpgw_msg flags conid addr data =
     [udpgw_flags flags addr] @ le16_bytes conid @ udpgw_addr_bytes addr @ data"

lemma udpgw_compute_mtu_value:
  "0 \<le> m \<Longrightarrow> m \<le> 65535 \<Longrightarrow> udpgw_compute_mtu m = 21 + m"
  by (simp add: udpgw_compute_mtu_def bsize_defs bsize_toint_def SIZE_MAX_def Let_def)

lemma udpgw_compute_mtu_ok:
  assumes "0 \<le> m" "0 \<le> udpgw_compute_mtu m" "udpgw_compute_mtu m \<le> 65535"
  shows "udpgw_compute_mtu m = 21 + m"
proof -
  let ?x = "bsize_max (bsize_fromsize 6) (bsize_fromsize 18)"
  let ?y = "bsize_add ?x (bsize_fromint m)"
  let ?bs = "bsize_add (bsize_fromsize 3) ?y"
  have bs: "\<not> is_overflow ?bs" "bsize_value ?bs \<le> 65535"
    using assms(2,3) by (auto simp: udpgw_compute_mtu_def bsize_toint_def Let_def split: if_splits)
  then have y: "\<not> is_overflow ?y" and m: "\<not> is_overflow (bsize_fromint m)" by (auto simp: bsize_add_def)
  have x: "bsize_wf ?x" "\<not> is_overflow ?x" "bsize_value ?x = 18" by (simp_all add: bsize_defs bsize_wf_def SIZE_MAX_def)
  have "bsize_value ?y = 18 + bsize_value (bsize_fromint m)"
    using bsize_add_exact(2) [OF x(1) _ x(2) m y] x(3) by simp
  moreover have z: "bsize_wf (bsize_fromsize 3)" "\<not> is_overflow (bsize_fromsize 3)" "bsize_value (bsize_fromsize 3) = 3"
    by (simp_all add: bsize_fromsize_def bsize_wf_def SIZE_MAX_def)
  have "bsize_value ?bs = 3 + bsize_value ?y"
    using bsize_add_exact(2) [OF z(1) _ z(2) y bs(1)] z(3) by simp
  moreover have "bsize_value (bsize_fromint m) = m"
    using m assms(1) by (simp add: bsize_fromint_def SIZE_MAX_def)
  ultimately have "m \<le> 65535" using bs(2) by linarith
  then show ?thesis using assms(1) by (rule udpgw_compute_mtu_value [rotated])
qed

lemma mem_write_prefix:
  assumes "length pre + length ys \<le> length m" "take (length pre) m = pre"
  shows "\<exists>m'. mem_write m (int (length pre)) ys = Some m' \<and> take (length pre + length ys) m' = pre @ ys \<and> length m' = length m"
  using assms by (auto simp: mem_write_def)

lemma mem_read_prefix: "n \<le> length m \<Longrightarrow> mem_read m 0 (int n) = Some (take n m)"
  by (simp add: mem_read_def)

text \<open>A packet is assembled field by field and fits whenever its data does not exceed the UDP MTU.\<close>

lemma connection_send_format:
  assumes out: "co_out (ug_con g con) = Some out" "int (length out) = ug_udpgw_mtu g" "ug_udpgw_mtu g = 21 + ug_udp_mtu g"
    and a: "remote_addr (co_conaddr (ug_con g con)) = addr" "addr \<noteq> BADDR_TYPE_NONE" "BAddr_wf addr"
    and d: "int (length data) \<le> ug_udp_mtu g"
  shows "connection_send con flags data g =
    Some ([UgPacket con (udpgw_msg flags (co_conid (ug_con g con)) addr data)], upd_con con (\<lambda>c. c\<lparr>co_out := None\<rparr>) g)"
proof -
  let ?h = "udpgw_flags flags addr # le16_bytes (co_conid (ug_con g con))" and ?a = "udpgw_addr_bytes addr"
  have len: "length ?h = 3" "length ?a = 6 \<or> length ?a = 18" using a by (cases addr; auto)+
  have room: "3 + length ?a + length data \<le> length out" using len(2) out(2,3) d by linarith
  from mem_write_prefix [of "[]" ?h out] room len(1) obtain m1 where
    m1: "mem_write out 0 ?h = Some m1" "take 3 m1 = ?h" "length m1 = length out" by auto
  from mem_write_prefix [of ?h ?a m1] room len(1) m1 obtain m2 where
    m2: "mem_write m1 3 ?a = Some m2" "take (3 + length ?a) m2 = ?h @ ?a" "length m2 = length out" by auto
  have l3: "length (?h @ ?a) = 3 + length ?a" by simp
  have "length (?h @ ?a) + length data \<le> length m2" "take (length (?h @ ?a)) m2 = ?h @ ?a"
    using room m2 unfolding l3 by simp_all
  from mem_write_prefix [OF this] obtain m3 where
    m3: "mem_write m2 (3 + int (length ?a)) data = Some m3" "take (3 + length ?a + length data) m3 = ?h @ ?a @ data"
      "length m3 = length out" using m2(3) unfolding l3 by auto
  have rd: "mem_read m3 0 (3 + int (length ?a) + int (length data)) = Some (udpgw_msg flags (co_conid (ug_con g con)) addr data)"
    using mem_read_prefix [of "3 + length ?a + length data" m3] room m3 by (simp add: udpgw_msg_def)
  have fits: "3 + int (length ?a) + int (length data) \<le> ug_udpgw_mtu g" using room out(2) by linarith
  show ?thesis
  proof (cases addr)
    case BADDR_TYPE_NONE
    with a show ?thesis by simp
  next
    case (BADDR_TYPE_IPV4 ip port)
    with out a d m1(1) m2(1) m3(1) rd fits show ?thesis
      by (simp add: connection_send_def Let_def udpgw_flags_def)
  next
    case (BADDR_TYPE_IPV6 ip port)
    with out a d m1(1) m2(1) m3(1) rd fits show ?thesis
      by (simp add: connection_send_def Let_def udpgw_flags_def)
  qed
qed

section \<open>Invariant\<close>

definition conaddr_wf :: "UdpGwClient_conaddr \<Rightarrow> bool" where
  "conaddr_wf a \<longleftrightarrow> BAddr_wf (local_addr a) \<and> BAddr_wf (remote_addr a) \<and>
     local_addr a \<noteq> BADDR_TYPE_NONE \<and> remote_addr a \<noteq> BADDR_TYPE_NONE \<and>
     BAddr_type (local_addr a) = BAddr_type (remote_addr a)"

definition ug_sizes :: "UdpGwClient \<Rightarrow> bool" where
  "ug_sizes g \<longleftrightarrow> 0 \<le> ug_udp_mtu g \<and> ug_udpgw_mtu g = 21 + ug_udp_mtu g \<and> ug_udpgw_mtu g \<le> 65535 \<and>
     ug_pp_mtu g = ug_udpgw_mtu g + 2 \<and> 0 < ug_max_connections g \<and> ug_max_connections g \<le> 65536"

definition ug_tables :: "UdpGwClient \<Rightarrow> bool" where
  "ug_tables g \<longleftrightarrow> distinct (ug_connections_list g) \<and>
     ug_num_connections g = int (length (ug_connections_list g)) \<and> ug_num_connections g \<le> ug_max_connections g \<and>
     0 \<le> ug_next_conid g \<and> ug_next_conid g < ug_max_connections g \<and>
     (\<forall>c p. ug_by_conid g c = Some p \<longleftrightarrow> p \<in> set (ug_connections_list g) \<and> co_conid (ug_con g p) = c) \<and>
     (\<forall>a p. ug_by_conaddr g a = Some p \<longleftrightarrow> p \<in> set (ug_connections_list g) \<and> co_conaddr (ug_con g p) = a)"

definition ug_con_ok :: "UdpGwClient \<Rightarrow> UdpGwClient_connection \<Rightarrow> bool" where
  "ug_con_ok g c \<longleftrightarrow> uint (co_conid c) < ug_max_connections g \<and> conaddr_wf (co_conaddr c) \<and>
     (\<forall>m. co_out c = Some m \<longrightarrow> int (length m) = ug_udpgw_mtu g) \<and> int (length (co_first_data c)) \<le> ug_udp_mtu g"

definition ug_queue :: "UdpGwClient \<Rightarrow> bool" where
  "ug_queue g \<longleftrightarrow> fq_inv (ug_send_queue g) \<and> \<not> fq_freeing (ug_send_queue g) \<and>
     set (fq_flows_list (ug_send_queue g)) = insert (ug_keepalive_qflow g) (set (ug_connections_list g)) \<and>
     ug_keepalive_qflow g \<notin> set (ug_connections_list g)"

definition ug_server :: "UdpGwClient \<Rightarrow> bool" where
  "ug_server g \<longleftrightarrow> ug_recv_if g = ug_have_server g \<and> (ug_recv_decoder g \<noteq> None) = ug_have_server g \<and>
     (ug_send_sender g \<noteq> None) = ug_have_server g \<and>
     (pp_output (ug_send_connector g) \<noteq> None) = ug_have_server g \<and>
     pp_input_mtu (ug_send_connector g) = ug_pp_mtu g"

definition ug_inv :: "UdpGwClient \<Rightarrow> bool" where
  "ug_inv g \<longleftrightarrow> ug_sizes g \<and> ug_tables g \<and> (\<forall>p\<in>set (ug_connections_list g). ug_con_ok g (ug_con g p)) \<and>
     ug_queue g \<and> ug_server g"

lemmas ug_defs = ug_inv_def ug_sizes_def ug_tables_def ug_con_ok_def ug_queue_def ug_server_def

lemma ug_by_conid_iff:
  "ug_tables g \<Longrightarrow> ug_by_conid g c = Some p \<longleftrightarrow> p \<in> set (ug_connections_list g) \<and> co_conid (ug_con g p) = c"
  by (simp add: ug_tables_def)

lemma ug_by_conaddr_iff:
  "ug_tables g \<Longrightarrow> ug_by_conaddr g a = Some p \<longleftrightarrow> p \<in> set (ug_connections_list g) \<and> co_conaddr (ug_con g p) = a"
  by (simp add: ug_tables_def)

text \<open>When not all connections are in use there is an unused id, and the search finds one.\<close>

lemma unused_conid_exists:
  assumes t: "ug_tables g" and s: "ug_sizes g" and n: "ug_num_connections g < ug_max_connections g"
  shows "\<exists>i. 0 \<le> i \<and> i < ug_max_connections g \<and> ug_by_conid g (word_of_int i) = None"
proof (rule ccontr)
  assume none: "\<not> ?thesis"
  let ?I = "{0..<ug_max_connections g}"
  let ?f = "\<lambda>i. the (ug_by_conid g (word_of_int i))"
  have f: "?f i \<in> set (ug_connections_list g)" "co_conid (ug_con g (?f i)) = word_of_int i" if "i \<in> ?I" for i
  proof -
    from none that obtain p where "ug_by_conid g (word_of_int i) = Some p" by fastforce
    with ug_by_conid_iff [OF t, of "word_of_int i" p]
    show "?f i \<in> set (ug_connections_list g)" "co_conid (ug_con g (?f i)) = word_of_int i" by simp_all
  qed
  have w: "uint (word_of_int i :: 16 word) = i" if "i \<in> ?I" for i
    using that s by (simp add: ug_sizes_def uint_word_of_int)
  have "inj_on ?f ?I"
  proof (rule inj_onI)
    fix i j assume ij: "i \<in> ?I" "j \<in> ?I" and "?f i = ?f j"
    then have "(word_of_int i :: 16 word) = word_of_int j" using f by metis
    then show "i = j" using w ij by metis
  qed
  then have "card ?I \<le> card (set (ug_connections_list g))"
    using f by (intro card_inj_on_le [of ?f]) auto
  then show False using n t by (simp add: ug_tables_def distinct_card)
qed

lemma find_unused_conid_loop_finds:
  assumes s: "0 \<le> n" "n < ug_max_connections g" and i: "0 \<le> i" "i < ug_max_connections g"
    and free: "ug_by_conid g (word_of_int i) = None" and d: "(n + int d) mod ug_max_connections g = i"
  shows "\<exists>m. find_unused_conid_loop g n = Some m \<and> 0 \<le> m \<and> m < ug_max_connections g \<and>
    ug_by_conid g (word_of_int m) = None"
  using s d
proof (induction d arbitrary: n)
  case 0
  then show ?case
    using free by (subst find_unused_conid_loop.simps) (simp add: find_connection_by_conid_def)
next
  case (Suc d)
  let ?n = "if n = ug_max_connections g - 1 then 0 else n + 1"
  show ?case
  proof (cases "ug_by_conid g (word_of_int n)")
    case None
    with Suc.prems show ?thesis
      by (subst find_unused_conid_loop.simps) (simp add: find_connection_by_conid_def)
  next
    case (Some p)
    have "(?n + int d) mod ug_max_connections g = (n + 1 + int d) mod ug_max_connections g"
      by (cases "n = ug_max_connections g - 1") (simp_all add: add.commute)
    then have "(?n + int d) mod ug_max_connections g = i" using Suc.prems(3) by (simp add: add_ac)
    with Suc.IH [of ?n] Suc.prems have "\<exists>m. find_unused_conid_loop g ?n = Some m \<and> 0 \<le> m \<and> m < ug_max_connections g \<and>
      ug_by_conid g (word_of_int m) = None" by auto
    with Some show ?thesis
      by (subst find_unused_conid_loop.simps) (auto simp: find_connection_by_conid_def)
  qed
qed

lemma find_unused_conid_ok:
  assumes t: "ug_tables g" and s: "ug_sizes g" and n: "ug_num_connections g < ug_max_connections g"
  shows "\<exists>m. find_unused_conid g = Some (word_of_int m, g\<lparr>ug_next_conid := m\<rparr>) \<and> 0 \<le> m \<and> m < ug_max_connections g \<and>
    ug_by_conid g (word_of_int m) = None"
proof -
  from unused_conid_exists [OF assms] obtain i where
    i: "0 \<le> i" "i < ug_max_connections g" "ug_by_conid g (word_of_int i) = None" by blast
  have k: "0 \<le> ug_next_conid g" "ug_next_conid g < ug_max_connections g" using t by (auto simp: ug_tables_def)
  have "(ug_next_conid g + int (nat ((i - ug_next_conid g) mod ug_max_connections g))) mod ug_max_connections g = i"
    using i k by (simp add: mod_simps)
  from find_unused_conid_loop_finds [OF k i this] n show ?thesis
    by (auto simp: find_unused_conid_def)
qed

section \<open>The operations keep the invariant\<close>

lemma ug_queue_upd:
  assumes "ug_inv g" "fq_inv q" "fq_freeing q = fq_freeing (ug_send_queue g)"
    "set (fq_flows_list q) = set (fq_flows_list (ug_send_queue g))"
  shows "ug_inv (g\<lparr>ug_send_queue := q\<rparr>)"
  using assms by (simp add: ug_inv_def ug_sizes_def ug_tables_def ug_con_ok_def ug_queue_def ug_server_def)

text \<open>Changing fields of a connection other than its id and address.\<close>

lemma ug_con_upd:
  assumes "ug_inv g" "p \<in> set (ug_connections_list g)" "co_conid c = co_conid (ug_con g p)"
    "co_conaddr c = co_conaddr (ug_con g p)" "ug_con_ok g c"
  shows "ug_inv (g\<lparr>ug_con := (ug_con g)(p := c)\<rparr>)"
  using assms by (auto simp: ug_inv_def ug_sizes_def ug_tables_def ug_con_ok_def ug_queue_def ug_server_def)

lemma ug_move_to_end:
  assumes "ug_inv g" "p \<in> set (ug_connections_list g)"
  shows "ug_inv (move_to_end p g)"
proof -
  have d: "distinct (ug_connections_list g)" using assms by (simp add: ug_inv_def ug_tables_def)
  then have "set (remove1 p (ug_connections_list g) @ [p]) = set (ug_connections_list g)"
    "distinct (remove1 p (ug_connections_list g) @ [p])"
    "length (remove1 p (ug_connections_list g) @ [p]) = length (ug_connections_list g)"
    using assms(2) length_pos_if_in_set [OF assms(2)] by (auto simp: length_remove1)
  with assms show ?thesis
    by (simp add: move_to_end_def ug_inv_def ug_sizes_def ug_tables_def ug_con_ok_def ug_queue_def ug_server_def)
qed

lemma connection_send_ok:
  assumes inv: "ug_inv g" and p: "p \<in> set (ug_connections_list g)" and d: "int (length data) \<le> ug_udp_mtu g"
  shows "\<exists>acts g'. connection_send p flags data g = Some (acts, g') \<and> ug_inv g' \<and>
    ug_connections_list g' = ug_connections_list g \<and>
    acts = (if co_out (ug_con g p) = None then []
      else [UgPacket p (udpgw_msg flags (co_conid (ug_con g p)) (remote_addr (co_conaddr (ug_con g p))) data)])"
proof (cases "co_out (ug_con g p)")
  case None
  with inv d show ?thesis by (simp add: connection_send_def)
next
  case (Some out)
  from inv p Some have i: "int (length out) = ug_udpgw_mtu g" "ug_udpgw_mtu g = 21 + ug_udp_mtu g"
    "remote_addr (co_conaddr (ug_con g p)) \<noteq> BADDR_TYPE_NONE" "BAddr_wf (remote_addr (co_conaddr (ug_con g p)))"
    by (auto simp: ug_inv_def ug_sizes_def ug_con_ok_def conaddr_wf_def)
  have "ug_inv (upd_con p (\<lambda>c. c\<lparr>co_out := None\<rparr>) g)"
    using inv p by (intro ug_con_upd) (auto simp: ug_inv_def ug_con_ok_def)
  with connection_send_format [OF Some i(1,2) refl i(3,4) d] Some show ?thesis by simp
qed

lemma connection_init_ok:
  assumes inv: "ug_inv g" and n: "ug_num_connections g < ug_max_connections g"
    and a: "ug_by_conaddr g conaddr = None" "conaddr_wf conaddr" and d: "int (length data) \<le> ug_udp_mtu g"
    and fresh: "\<And>p. malloc = Some p \<Longrightarrow> p \<notin> set (fq_flows_list (ug_send_queue g))"
  shows "\<exists>g'. connection_init malloc flow_ok conaddr flags data g = Some g' \<and> ug_inv g' \<and>
    (case malloc of None \<Rightarrow> g' = g
     | Some p \<Rightarrow> if flow_ok then ug_connections_list g' = ug_connections_list g @ [p] \<and>
           co_conaddr (ug_con g' p) = conaddr \<and> co_first_job (ug_con g' p) \<and> co_first_data (ug_con g' p) = data \<and>
           co_first_flags (ug_con g' p) = flags \<and> ug_by_conid g (co_conid (ug_con g' p)) = None
         else ug_connections_list g' = ug_connections_list g)"
proof (cases malloc)
  case None
  with inv n a d show ?thesis by (simp add: connection_init_def find_connection_by_conaddr_def)
next
  case (Some p)
  from inv have t: "ug_tables g" and s: "ug_sizes g" and q: "ug_queue g" by (auto simp: ug_inv_def)
  from find_unused_conid_ok [OF t s n] obtain m where
    m: "find_unused_conid g = Some (word_of_int m, g\<lparr>ug_next_conid := m\<rparr>)" "0 \<le> m" "m < ug_max_connections g"
      "ug_by_conid g (word_of_int m) = None" by blast
  have um: "uint (word_of_int m :: 16 word) = m" using m(2,3) s by (simp add: ug_sizes_def uint_word_of_int)
  let ?q = "ug_send_queue g"
  have pf: "p \<notin> set (fq_flows_list ?q)" using fresh Some by simp
  with fq_flow_init_ok [of ?q p] q obtain q1 where
    q1: "PacketPassFairQueueFlow_Init p ?q = Some q1" "fq_inv q1" by (auto simp: ug_queue_def)
  note l1 = fq_flow_init_list [OF q1(1)]
  have pl: "p \<notin> set (ug_connections_list g)" "p \<noteq> ug_keepalive_qflow g" using pf q by (auto simp: ug_queue_def)
  have idle: "fq_sending_flow q1 \<noteq> Some p"
    using q1 q pf by (auto simp: PacketPassFairQueueFlow_Init_def Let_def ug_queue_def fq_inv_def)
  have nx: "ug_inv (g\<lparr>ug_next_conid := m\<rparr>)"
    using inv m(2,3) by (simp add: ug_inv_def ug_sizes_def ug_tables_def ug_con_ok_def ug_queue_def ug_server_def)
  show ?thesis
  proof (cases flow_ok)
    case False
    from fq_flow_free_ok [OF q1(2), of p] l1 idle obtain q2 where
      q2: "PacketPassFairQueueFlow_Free p q1 = Some q2" "fq_inv q2" by auto
    note l2 = fq_flow_free_list [OF q2(1)]
    have "ug_inv (g\<lparr>ug_next_conid := m, ug_send_queue := q2\<rparr>)"
      using ug_queue_upd [OF nx q2(2)] l1 l2 pf by (simp add: remove1_append)
    with False Some n a d m(1) q1(1) q2(1) show ?thesis
      by (simp add: connection_init_def find_connection_by_conaddr_def)
  next
    case True
    let ?c = "\<lparr>co_conaddr = conaddr, co_first_flags = flags, co_first_data = data,
             co_first_job = True, co_conid = word_of_int m, co_out = None\<rparr>"
    let ?g = "g\<lparr>ug_next_conid := m, ug_send_queue := q1, ug_con := (ug_con g)(p := ?c),
        ug_by_conaddr := (ug_by_conaddr g)(conaddr := Some p),
        ug_by_conid := (ug_by_conid g)(word_of_int m := Some p),
        ug_connections_list := ug_connections_list g @ [p], ug_num_connections := ug_num_connections g + 1\<rparr>"
    have "co_conid (ug_con g x) \<noteq> word_of_int m" "co_conaddr (ug_con g x) \<noteq> conaddr"
      if "x \<in> set (ug_connections_list g)" for x
      using that m(4) a(1) ug_by_conid_iff [OF t, of "word_of_int m" x] ug_by_conaddr_iff [OF t, of conaddr x] by auto
    then have "ug_tables ?g" using t n m(2,3) pl(1) by (auto simp: ug_tables_def)
    moreover have "ug_queue ?g" using q q1 l1 pl by (auto simp: ug_queue_def)
    moreover have "\<forall>x\<in>set (ug_connections_list ?g). ug_con_ok ?g (ug_con ?g x)"
      using inv um m(3) a(2) d by (auto simp: ug_inv_def ug_con_ok_def)
    ultimately have "ug_inv ?g" using inv by (simp add: ug_inv_def ug_sizes_def ug_server_def)
    with True Some n a d m(1,4) q1(1) show ?thesis
      by (simp add: connection_init_def find_connection_by_conaddr_def)
  qed
qed

text \<open>The least recently used connection gets a new address and keeps its id.\<close>

lemma reuse_connection_ok:
  assumes inv: "ug_inv g" and a: "ug_by_conaddr g conaddr = None" "conaddr_wf conaddr"
    and l: "ug_connections_list g = p # ps"
  shows "\<exists>g'. reuse_connection conaddr g = Some (p, g') \<and> ug_inv g' \<and>
    ug_connections_list g' = p # ps \<and> ug_udp_mtu g' = ug_udp_mtu g \<and>
    ug_con g' p = (ug_con g p)\<lparr>co_conaddr := conaddr\<rparr> \<and> (\<forall>x. x \<noteq> p \<longrightarrow> ug_con g' x = ug_con g x)"
proof -
  from inv have t: "ug_tables g" and ok: "\<forall>x\<in>set (ug_connections_list g). ug_con_ok g (ug_con g x)" by (auto simp: ug_inv_def)
  let ?old = "co_conaddr (ug_con g p)"
  let ?g = "g\<lparr>ug_by_conaddr := (ug_by_conaddr g)(?old := None, conaddr := Some p),
      ug_con := (ug_con g)(p := (ug_con g p)\<lparr>co_conaddr := conaddr\<rparr>)\<rparr>"
  have p: "ug_by_conaddr g ?old = Some p" using ug_by_conaddr_iff [OF t, of ?old p] l by simp
  with a have ne: "?old \<noteq> conaddr" by auto
  have other: "co_conaddr (ug_con g x) \<noteq> conaddr" if "x \<in> set (ug_connections_list g)" for x
    using that a(1) ug_by_conaddr_iff [OF t, of conaddr x] by auto
  have uniq: "co_conaddr (ug_con g x) \<noteq> ?old" if "x \<in> set (ug_connections_list g)" "x \<noteq> p" for x
    using that p ug_by_conaddr_iff [OF t, of ?old x] by auto
  have "ug_by_conaddr ?g a' = Some x \<longleftrightarrow> x \<in> set (ug_connections_list ?g) \<and> co_conaddr (ug_con ?g x) = a'" for a' x
    using ug_by_conaddr_iff [OF t, of a' x] other [of x] uniq [of x] l ne by auto
  moreover have "ug_by_conid ?g c = Some x \<longleftrightarrow> x \<in> set (ug_connections_list ?g) \<and> co_conid (ug_con ?g x) = c" for c x
    using ug_by_conid_iff [OF t, of c x] by simp
  ultimately have "ug_tables ?g" using t by (simp add: ug_tables_def)
  moreover have "\<forall>x\<in>set (ug_connections_list ?g). ug_con_ok ?g (ug_con ?g x)"
    using ok l a(2) by (auto simp: ug_con_ok_def)
  ultimately have "ug_inv ?g" using inv by (simp add: ug_inv_def ug_sizes_def ug_queue_def ug_server_def)
  moreover have "ug_num_connections g > 0" using t l by (simp add: ug_tables_def)
  then have "reuse_connection conaddr g = Some (p, ?g)"
    using a p l ne by (cases g) (simp add: reuse_connection_def find_connection_by_conaddr_def Let_def)
  ultimately show ?thesis using l by auto
qed

lemma move_to_end_simps [simp]:
  "ug_con (move_to_end p g) = ug_con g" "ug_udp_mtu (move_to_end p g) = ug_udp_mtu g"
  "ug_connections_list (move_to_end p g) = remove1 p (ug_connections_list g) @ [p]"
  by (simp_all add: move_to_end_def)

definition dns_flag :: "bool \<Rightarrow> byte" where
  "dns_flag is_dns = (if is_dns then UDPGW_CLIENT_FLAG_DNS else 0)"

text \<open>
  A packet of a known pair goes to its connection; a packet of a new pair starts a connection, or,
  when all are in use, rebinds the least recently used one.  The connection becomes the most
  recently used.
\<close>

lemma submit_known:
  assumes inv: "ug_inv g" and a: "local \<noteq> BADDR_TYPE_NONE" "remote \<noteq> BADDR_TYPE_NONE"
    and d: "int (length data) \<le> ug_udp_mtu g"
    and c: "ug_by_conaddr g \<lparr>local_addr = local, remote_addr = remote\<rparr> = Some p"
  shows "\<exists>acts g'. UdpGwClient_SubmitPacket malloc flow_ok local remote is_dns data g = Some (acts, g') \<and> ug_inv g' \<and>
    ug_connections_list g' = remove1 p (ug_connections_list g) @ [p] \<and>
    acts = (if co_out (ug_con g p) = None then []
      else [UgPacket p (udpgw_msg (dns_flag is_dns) (co_conid (ug_con g p)) remote data)])"
proof -
  from inv have "ug_tables g" by (simp add: ug_inv_def)
  from ug_by_conaddr_iff [OF this] c have p: "p \<in> set (ug_connections_list g)"
    "co_conaddr (ug_con g p) = \<lparr>local_addr = local, remote_addr = remote\<rparr>" by auto
  from connection_send_ok [OF ug_move_to_end [OF inv p(1)], of p data "dns_flag is_dns"] a c p d
  show ?thesis
    by (simp add: UdpGwClient_SubmitPacket_def find_connection_by_conaddr_def Let_def dns_flag_def cong: if_cong)
qed

lemma submit_rebind:
  assumes inv: "ug_inv g" and wf: "conaddr_wf \<lparr>local_addr = local, remote_addr = remote\<rparr>"
    and d: "int (length data) \<le> ug_udp_mtu g"
    and c: "ug_by_conaddr g \<lparr>local_addr = local, remote_addr = remote\<rparr> = None"
    and full: "ug_num_connections g = ug_max_connections g"
  shows "\<exists>p ps acts g'. ug_connections_list g = p # ps \<and>
    UdpGwClient_SubmitPacket malloc flow_ok local remote is_dns data g = Some (acts, g') \<and> ug_inv g' \<and>
    ug_connections_list g' = ps @ [p] \<and>
    ug_by_conaddr g' \<lparr>local_addr = local, remote_addr = remote\<rparr> = Some p \<and>
    co_conid (ug_con g' p) = co_conid (ug_con g p) \<and>
    acts = (if co_out (ug_con g p) = None then []
      else [UgPacket p (udpgw_msg (dns_flag is_dns OR UDPGW_CLIENT_FLAG_REBIND) (co_conid (ug_con g p)) remote data)])"
proof -
  let ?a = "\<lparr>local_addr = local, remote_addr = remote\<rparr>"
  from inv full obtain p ps where l: "ug_connections_list g = p # ps"
    by (cases "ug_connections_list g") (auto simp: ug_inv_def ug_tables_def ug_sizes_def)
  from reuse_connection_ok [OF inv c wf l] obtain g1 where
    g1: "reuse_connection ?a g = Some (p, g1)" "ug_inv g1" "ug_connections_list g1 = p # ps"
      "ug_udp_mtu g1 = ug_udp_mtu g" "ug_con g1 p = (ug_con g p)\<lparr>co_conaddr := ?a\<rparr>" by blast
  let ?f = "dns_flag is_dns OR UDPGW_CLIENT_FLAG_REBIND"
  have "ug_inv (move_to_end p g1)" using g1 by (intro ug_move_to_end) auto
  from connection_send_ok [OF this, of p data ?f] d g1(3-5) obtain acts g' where
    s: "connection_send p ?f data (move_to_end p g1) = Some (acts, g')" "ug_inv g'" "ug_connections_list g' = ps @ [p]"
      "acts = (if co_out (ug_con g p) = None then [] else [UgPacket p (udpgw_msg ?f (co_conid (ug_con g p)) remote data)])"
    by auto
  have k: "co_conid (ug_con g' p) = co_conid (ug_con g1 p)" "co_conaddr (ug_con g' p) = ?a"
    using s(1) g1(5) by (auto simp: connection_send_def Let_def split: option.splits BAddr.splits Option.bind_splits)
  have "ug_by_conaddr g' ?a = Some p"
    using ug_by_conaddr_iff [of g' ?a p] s(2,3) k(2) by (simp add: ug_inv_def)
  moreover have "local \<noteq> BADDR_TYPE_NONE" "remote \<noteq> BADDR_TYPE_NONE" using wf by (auto simp: conaddr_wf_def)
  ultimately show ?thesis
    using l s k g1 c full d
    by (simp add: UdpGwClient_SubmitPacket_def find_connection_by_conaddr_def Let_def dns_flag_def cong: if_cong)
qed

lemma submit_new:
  assumes inv: "ug_inv g" and wf: "conaddr_wf \<lparr>local_addr = local, remote_addr = remote\<rparr>"
    and d: "int (length data) \<le> ug_udp_mtu g"
    and c: "ug_by_conaddr g \<lparr>local_addr = local, remote_addr = remote\<rparr> = None"
    and room: "ug_num_connections g \<noteq> ug_max_connections g"
    and fresh: "\<And>p. malloc = Some p \<Longrightarrow> p \<notin> set (fq_flows_list (ug_send_queue g))"
  shows "\<exists>g'. UdpGwClient_SubmitPacket malloc flow_ok local remote is_dns data g = Some ([], g') \<and> ug_inv g' \<and>
    (case malloc of None \<Rightarrow> g' = g
     | Some p \<Rightarrow> if flow_ok then ug_connections_list g' = ug_connections_list g @ [p] \<and>
           co_conaddr (ug_con g' p) = \<lparr>local_addr = local, remote_addr = remote\<rparr> \<and>
           co_first_job (ug_con g' p) \<and> co_first_data (ug_con g' p) = data \<and>
           co_first_flags (ug_con g' p) = dns_flag is_dns \<and> ug_by_conid g (co_conid (ug_con g' p)) = None
         else ug_connections_list g' = ug_connections_list g)"
proof -
  have n: "ug_num_connections g < ug_max_connections g" using inv room by (simp add: ug_inv_def ug_tables_def)
  have "local \<noteq> BADDR_TYPE_NONE" "remote \<noteq> BADDR_TYPE_NONE" using wf by (auto simp: conaddr_wf_def)
  with connection_init_ok [OF inv n c wf d, of malloc flow_ok "dns_flag is_dns"] fresh c room d show ?thesis
    by (auto simp: UdpGwClient_SubmitPacket_def find_connection_by_conaddr_def Let_def dns_flag_def
      split: option.splits cong: if_cong)
qed

text \<open>Whatever the server sends, its packets are accepted; only those of a bound address are delivered.\<close>

lemma recv_cases:
  assumes h: "ug_have_server g" and d: "int (length data) \<le> ug_udpgw_mtu g"
  shows "recv_interface_handler_send data g = Some ([UgAccept], g) \<or>
     (\<exists>p payload. recv_interface_handler_send data g = Some ([UgAccept, UgReceived (local_addr (co_conaddr (ug_con g p)))
          (remote_addr (co_conaddr (ug_con g p))) payload], move_to_end p g) \<and>
        ug_by_conid g (le16_of (take 2 (drop 1 data))) = Some p \<and> int (length payload) \<le> ug_udp_mtu g \<and>
        suffix payload data)"
  using assms suffix_drop [of 21 data] suffix_drop [of 9 data]
  by (auto simp: recv_interface_handler_send_def Let_def find_connection_by_conid_def drop_drop split: option.split)

lemma recv_ok:
  assumes inv: "ug_inv g" and h: "ug_have_server g" and d: "int (length data) \<le> ug_udpgw_mtu g"
  shows "\<exists>acts g'. recv_interface_handler_send data g = Some (acts, g') \<and> ug_inv g' \<and>
    (acts = [UgAccept] \<and> g' = g \<or>
     (\<exists>p payload. acts = [UgAccept, UgReceived (local_addr (co_conaddr (ug_con g p))) (remote_addr (co_conaddr (ug_con g p))) payload] \<and>
        p \<in> set (ug_connections_list g) \<and> co_conid (ug_con g p) = le16_of (take 2 (drop 1 data)) \<and>
        int (length payload) \<le> ug_udp_mtu g \<and> suffix payload data \<and> g' = move_to_end p g))"
  using recv_cases [OF h d]
proof (elim disjE exE conjE)
  assume "recv_interface_handler_send data g = Some ([UgAccept], g)"
  with inv show ?thesis by simp
next
  fix p payload
  assume r: "recv_interface_handler_send data g = Some ([UgAccept, UgReceived (local_addr (co_conaddr (ug_con g p)))
      (remote_addr (co_conaddr (ug_con g p))) payload], move_to_end p g)"
    and p: "ug_by_conid g (le16_of (take 2 (drop 1 data))) = Some p"
    and l: "int (length payload) \<le> ug_udp_mtu g" "suffix payload data"
  from inv p ug_by_conid_iff [of g] have "p \<in> set (ug_connections_list g)" "co_conid (ug_con g p) = le16_of (take 2 (drop 1 data))"
    by (auto simp: ug_inv_def)
  moreover from this have "ug_inv (move_to_end p g)" using inv ug_move_to_end by blast
  ultimately show ?thesis using r l by auto
qed

text \<open>What a connection sends is, when it comes back from the server, delivered to the same pair of addresses.\<close>

lemma recv_msg:
  assumes inv: "ug_inv g" and h: "ug_have_server g" and p: "p \<in> set (ug_connections_list g)"
    and d: "int (length data) \<le> ug_udp_mtu g" and f: "flags AND UDPGW_CLIENT_FLAG_IPV6 = 0"
  shows "recv_interface_handler_send (udpgw_msg flags (co_conid (ug_con g p)) (remote_addr (co_conaddr (ug_con g p))) data) g =
    Some ([UgAccept, UgReceived (local_addr (co_conaddr (ug_con g p))) (remote_addr (co_conaddr (ug_con g p))) data],
      move_to_end p g)"
proof -
  let ?c = "ug_con g p"
  let ?r = "remote_addr (co_conaddr ?c)"
  from inv p have wf: "?r \<noteq> BADDR_TYPE_NONE" "BAddr_wf ?r" and s: "ug_udpgw_mtu g = 21 + ug_udp_mtu g" and t: "ug_tables g"
    by (auto simp: ug_inv_def ug_sizes_def ug_con_ok_def conaddr_wf_def)
  have c: "ug_by_conid g (co_conid ?c) = Some p" using ug_by_conid_iff [OF t] p by simp
  have six: "(flags OR UDPGW_CLIENT_FLAG_IPV6) AND UDPGW_CLIENT_FLAG_IPV6 \<noteq> 0"
    by (simp add: UDPGW_CLIENT_FLAG_IPV6_def bit.conj_disj_distrib2)
  note d16 = le16_bytes_def and d32 = le32_bytes_def
  show ?thesis
  proof (cases ?r)
    case BADDR_TYPE_NONE
    with wf show ?thesis by simp
  next
    case (BADDR_TYPE_IPV4 ip port)
    then show ?thesis using h d s f c BAddr_CompareOrder_0
      by (simp add: recv_interface_handler_send_def udpgw_msg_def udpgw_flags_def Let_def find_connection_by_conid_def
          BAddr_InitIPv4_def)
  next
    case (BADDR_TYPE_IPV6 ip port)
    then show ?thesis using h d s six c wf(2) BAddr_CompareOrder_0
      by (simp add: recv_interface_handler_send_def udpgw_msg_def udpgw_flags_def Let_def find_connection_by_conid_def
          BAddr_InitIPv6_def)
  qed
qed

lemma first_job_ok:
  assumes inv: "ug_inv g" and p: "p \<in> set (ug_connections_list g)"
  shows "\<exists>acts g'. connection_first_job_handler p g = Some (acts, g') \<and> ug_inv g' \<and>
    acts = (if co_out (ug_con g p) = None then []
      else [UgPacket p (udpgw_msg (UDPGW_CLIENT_FLAG_REBIND OR co_first_flags (ug_con g p)) (co_conid (ug_con g p))
        (remote_addr (co_conaddr (ug_con g p))) (co_first_data (ug_con g p)))])"
proof -
  let ?g = "upd_con p (\<lambda>c. c\<lparr>co_first_job := False\<rparr>) g"
  have c: "ug_con_ok g (ug_con g p)" using inv p by (simp add: ug_inv_def)
  then have "ug_inv ?g" using inv p by (intro ug_con_upd) (auto simp: ug_con_ok_def)
  from connection_send_ok [OF this, of p "co_first_data (ug_con g p)" "UDPGW_CLIENT_FLAG_REBIND OR co_first_flags (ug_con g p)"] p c
  show ?thesis by (auto simp: connection_first_job_handler_def ug_con_ok_def)
qed

lemma connect_ok:
  assumes inv: "ug_inv g" and h: "\<not> ug_have_server g"
  shows "\<exists>r acts g'. UdpGwClient_ConnectServer malloc g = Some (r, acts, g') \<and> ug_inv g' \<and> ug_have_server g' = r \<and>
    ug_connections_list g' = ug_connections_list g \<and> ug_con g' = ug_con g \<and> ug_udp_mtu g' = ug_udp_mtu g \<and>
    (r \<longleftrightarrow> PacketProtoDecoder_Init malloc (ug_udpgw_mtu g) \<noteq> None) \<and>
    (pp_in_len (ug_send_connector g) \<ge> 0 \<and> r \<longrightarrow>
       acts = [PpSend (pp_in (ug_send_connector g)) (pp_in_len (ug_send_connector g))])"
  using inv h
  by (cases "PacketProtoDecoder_Init malloc (ug_udpgw_mtu g)")
    (auto simp: UdpGwClient_ConnectServer_def PacketStreamSender_Init_def PacketPassConnector_ConnectOutput_def Let_def
      ug_inv_def ug_sizes_def ug_tables_def ug_con_ok_def ug_queue_def ug_server_def)

lemma free_server_ok:
  assumes "ug_server g" "ug_have_server g"
  shows "\<exists>k. free_server g = Some (g\<lparr>ug_send_connector := k, ug_send_sender := None, ug_recv_decoder := None, ug_recv_if := False\<rparr>) \<and>
    k = (ug_send_connector g)\<lparr>pp_output := None\<rparr>"
  using assms by (simp add: free_server_def PacketPassConnector_DisconnectOutput_def ug_server_def)

lemma disconnect_ok:
  assumes inv: "ug_inv g" and h: "ug_have_server g"
  shows "\<exists>g'. UdpGwClient_DisconnectServer g = Some g' \<and> ug_inv g' \<and> \<not> ug_have_server g' \<and>
    ug_connections_list g' = ug_connections_list g \<and> ug_con g' = ug_con g \<and> ug_udp_mtu g' = ug_udp_mtu g"
  using free_server_ok [of g] inv h
  by (auto simp: UdpGwClient_DisconnectServer_def ug_inv_def ug_sizes_def ug_tables_def ug_con_ok_def ug_queue_def ug_server_def)

text \<open>Initialisation never fails under its documented conditions.\<close>

lemma UdpGwClient_Init_inv:
  assumes m: "0 \<le> udp_mtu" "0 \<le> udpgw_compute_mtu udp_mtu" "udpgw_compute_mtu udp_mtu \<le> PACKETPROTO_MAXPAYLOAD"
    and p: "0 < max_connections" "0 < send_buffer_size"
  shows "\<exists>g. UdpGwClient_Init store cstore k udp_mtu max_connections send_buffer_size = Some (Some g) \<and> ug_inv g \<and>
    \<not> ug_have_server g \<and> ug_connections_list g = [] \<and> ug_udp_mtu g = udp_mtu \<and>
    ug_max_connections g = min max_connections 65536"
proof -
  have mtu: "udpgw_compute_mtu udp_mtu = 21 + udp_mtu" using udpgw_compute_mtu_ok m by (simp add: PACKETPROTO_MAXPAYLOAD_def)
  let ?q = "PacketPassFairQueue_Init (21 + udp_mtu + packetproto_header_size) False False 1 store"
  have "udp_mtu \<le> 65514" using m(3) mtu by (simp add: PACKETPROTO_MAXPAYLOAD_def)
  then obtain q where q: "?q = Some (Some q)" "\<not> fq_freeing q" "fq_flows_list q = []"
    by (auto simp: PacketPassFairQueue_Init_def FAIRQUEUE_MAX_TIME_def packetproto_header_size_def
        unsigned_minus_1_eq_mask mask_eq_exp_minus_1)
  from fq_flow_init_ok [OF fq_Init_inv [OF q(1)], of k] q(2,3) obtain q1 where
    q1: "PacketPassFairQueueFlow_Init k q = Some q1" "fq_inv q1" by auto
  note l = fq_flow_init_list [OF q1(1)]
  show ?thesis
    using m p mtu q q1 l
    by (simp add: UdpGwClient_Init_def PacketPassConnector_Init_def Let_def packetproto_header_size_def PACKETPROTO_MAXPAYLOAD_def
        ug_inv_def ug_sizes_def ug_tables_def ug_queue_def ug_server_def min_def)
qed

section \<open>Freeing\<close>

definition ug_freeing :: "UdpGwClient \<Rightarrow> bool" where
  "ug_freeing g \<longleftrightarrow> ug_tables g \<and> ug_server g \<and> fq_inv (ug_send_queue g) \<and> fq_freeing (ug_send_queue g) \<and>
     set (fq_flows_list (ug_send_queue g)) = insert (ug_keepalive_qflow g) (set (ug_connections_list g)) \<and>
     ug_keepalive_qflow g \<notin> set (ug_connections_list g)"

lemma connection_free_ok:
  assumes f: "ug_freeing g" and l: "ug_connections_list g = p # ps"
  shows "\<exists>g'. connection_free p g = Some g' \<and> ug_freeing g' \<and> ug_connections_list g' = ps"
proof -
  from f have t: "ug_tables g" by (simp add: ug_freeing_def)
  from f l have q: "fq_inv (ug_send_queue g)" "p \<in> set (fq_flows_list (ug_send_queue g))" "fq_freeing (ug_send_queue g)"
    by (auto simp: ug_freeing_def)
  with fq_flow_free_ok [of "ug_send_queue g" p] obtain q' where
    q': "PacketPassFairQueueFlow_Free p (ug_send_queue g) = Some q'" "fq_inv q'" by auto
  note ql = fq_flow_free_list [OF q'(1)]
  have d: "p \<notin> set ps" using t l by (simp add: ug_tables_def)
  have c: "ug_by_conid g (co_conid (ug_con g p)) = Some p" "ug_by_conaddr g (co_conaddr (ug_con g p)) = Some p"
    using ug_by_conid_iff [OF t] ug_by_conaddr_iff [OF t] l by simp_all
  let ?g = "g\<lparr>ug_num_connections := ug_num_connections g - 1, ug_connections_list := ps,
      ug_by_conid := (ug_by_conid g)(co_conid (ug_con g p) := None),
      ug_by_conaddr := (ug_by_conaddr g)(co_conaddr (ug_con g p) := None), ug_send_queue := q'\<rparr>"
  have "((ug_by_conid g)(co_conid (ug_con g p) := None)) i = Some x \<longleftrightarrow> x \<in> set ps \<and> co_conid (ug_con g x) = i" for i x
    using ug_by_conid_iff [OF t, of i x] c(1) l d by (cases "x = p") auto
  moreover have "((ug_by_conaddr g)(co_conaddr (ug_con g p) := None)) a = Some x \<longleftrightarrow> x \<in> set ps \<and> co_conaddr (ug_con g x) = a" for a x
    using ug_by_conaddr_iff [OF t, of a x] c(2) l d by (cases "x = p") auto
  moreover have "distinct ps" "ug_num_connections g = 1 + int (length ps)" "ug_num_connections g \<le> ug_max_connections g"
    "0 \<le> ug_next_conid g" "ug_next_conid g < ug_max_connections g" using t l by (auto simp: ug_tables_def)
  ultimately have "ug_tables ?g" unfolding ug_tables_def by simp
  moreover have "distinct (fq_flows_list (ug_send_queue g))" using q(1) by (simp add: fq_inv_def)
  moreover have "ug_server ?g" using f by (simp add: ug_freeing_def ug_server_def)
  ultimately have "ug_freeing ?g" using f l d q' ql by (auto simp: ug_freeing_def simp del: fun_upd_apply)
  moreover have "connection_free p g = Some ?g"
    using l c q(3) q'(1) by (simp add: connection_free_def PacketPassFairQueueFlow_AssertFree_def Let_def)
  ultimately show ?thesis by simp
qed

lemma free_connections_ok:
  assumes "ug_freeing g"
  shows "\<exists>g'. free_connections g = Some g' \<and> ug_freeing g' \<and> ug_connections_list g' = []"
  using assms
proof (induction "ug_connections_list g" arbitrary: g)
  case Nil
  then show ?case by (subst free_connections.simps) (auto split: list.split)
next
  case (Cons p ps)
  from connection_free_ok [OF Cons.prems Cons.hyps(2) [symmetric]] obtain g1 where
    g1: "connection_free p g = Some g1" "ug_freeing g1" "ug_connections_list g1 = ps" by blast
  with Cons.hyps(1) [of g1] Cons.hyps(2) [symmetric] show ?case
    by (subst free_connections.simps) simp
qed

text \<open>
  The client can be freed at any time; the loop over the connections ends, every connection and
  queue flow is gone and the server's objects are freed.
\<close>

lemma UdpGwClient_Free_ok:
  assumes inv: "ug_inv g"
  shows "\<exists>g'. UdpGwClient_Free g = Some g' \<and> ug_connections_list g' = [] \<and> ug_num_connections g' = 0 \<and>
    fq_flows_list (ug_send_queue g') = [] \<and> \<not> fq_schedule_job (ug_send_queue g') \<and> \<not> im_timer (ug_send_monitor g') \<and>
    ug_send_sender g' = None \<and> ug_recv_decoder g' = None \<and> \<not> ug_recv_if g' \<and>
    (\<forall>c. ug_by_conid g' c = None) \<and> (\<forall>a. ug_by_conaddr g' a = None)"
proof -
  let ?g = "g\<lparr>ug_send_queue := PacketPassFairQueue_PrepareFree (ug_send_queue g)\<rparr>"
  have "fq_inv (PacketPassFairQueue_PrepareFree (ug_send_queue g))"
    using fq.step_ok [of "(ug_send_queue g, [])" PrepareFree] inv by (auto simp: ug_inv_def ug_queue_def)
  then have "ug_freeing ?g" using inv
    by (simp add: ug_freeing_def ug_inv_def ug_tables_def ug_server_def ug_queue_def PacketPassFairQueue_PrepareFree_def)
  from free_connections_ok [OF this] obtain g1 where
    g1: "free_connections ?g = Some g1" "ug_freeing g1" "ug_connections_list g1 = []" by blast
  have "\<exists>g2. (if ug_have_server g1 then free_server g1 else Some g1) = Some g2 \<and> ug_send_queue g2 = ug_send_queue g1 \<and>
    ug_keepalive_qflow g2 = ug_keepalive_qflow g1 \<and> ug_tables g2 \<and> ug_connections_list g2 = [] \<and>
    ug_send_sender g2 = None \<and> ug_recv_decoder g2 = None \<and> \<not> ug_recv_if g2"
    using g1(2,3) free_server_ok [of g1] by (auto simp: ug_freeing_def ug_server_def ug_tables_def)
  then obtain g2 where g2: "(if ug_have_server g1 then free_server g1 else Some g1) = Some g2" "ug_send_queue g2 = ug_send_queue g1"
    "ug_keepalive_qflow g2 = ug_keepalive_qflow g1" "ug_tables g2" "ug_connections_list g2 = []"
    "ug_send_sender g2 = None" "ug_recv_decoder g2 = None" "\<not> ug_recv_if g2" by blast
  have fl: "set (fq_flows_list (ug_send_queue g1)) = {ug_keepalive_qflow g1}" "fq_inv (ug_send_queue g1)"
    "fq_freeing (ug_send_queue g1)" using g1 by (auto simp: ug_freeing_def)
  then obtain q where q: "PacketPassFairQueueFlow_Free (ug_keepalive_qflow g1) (ug_send_queue g1) = Some q" "fq_inv q"
    using fq_flow_free_ok [of "ug_send_queue g1" "ug_keepalive_qflow g1"] by auto
  have "fq_flows_list q = remove1 (ug_keepalive_qflow g1) (fq_flows_list (ug_send_queue g1))"
    using fq_flow_free_list [OF q(1)] by simp
  moreover have "distinct (fq_flows_list (ug_send_queue g1))" using fl(2) by (simp add: fq_inv_def)
  ultimately have "set (fq_flows_list q) = {}" using fl(1) by simp
  then have qe: "fq_flows_list q = []" by simp
  then have "fq_queued_tree q = []" "fq_previous_flow q = None" "fq_sending_flow q = None"
    using q(2) unfolding fq_inv_def by (auto simp: not_None_eq [symmetric] simp del: not_None_eq)
  then have free: "PacketPassFairQueue_Free q = Some (q\<lparr>fq_schedule_job := False\<rparr>)"
    using qe by (simp add: PacketPassFairQueue_Free_def)
  have "ug_num_connections g2 = 0" "ug_by_conid g2 c = None" "ug_by_conaddr g2 a = None" for c a
    using g2(4,5) by (auto simp: ug_tables_def not_None_eq [symmetric] simp del: not_None_eq)
  with g1(1) g2 q(1) qe free show ?thesis
    by (simp add: UdpGwClient_Free_def Let_def PacketPassInactivityMonitor_Free_def)
qed

section \<open>The client between its user and the server\<close>

text \<open>
  \<open>ug_legal\<close> is the usage contract of \<open>UdpGwClient.h\<close>: packets within the UDP MTU between valid
  addresses; packets from the server only while there is one; the first job of a live connection;
  \<open>UgRefill\<close> is a connection's send buffer asking for the next packet.
\<close>

datatype ug_event =
    UgSubmit "ptr option" bool BAddr BAddr bool bytes | UgFromServer bytes | UgFirstJob ptr | UgRefill ptr bytes
  | UgConnect "int \<Rightarrow> bytes option" | UgDisconnect | UgDecoderError | UgQueue fq_event

primrec ug_step ::
  "ug_event \<Rightarrow> UdpGwClient \<times> ug_action list \<Rightarrow> (UdpGwClient \<times> ug_action list) option" where
  "ug_step (UgSubmit malloc flow_ok local remote is_dns data) c = do {
     (acts, g) \<leftarrow> UdpGwClient_SubmitPacket malloc flow_ok local remote is_dns data (fst c); Some (g, snd c @ acts) }"
| "ug_step (UgFromServer data) c = do {
     (acts, g) \<leftarrow> recv_interface_handler_send data (fst c); Some (g, snd c @ acts) }"
| "ug_step (UgFirstJob p) c = do {
     (acts, g) \<leftarrow> connection_first_job_handler p (fst c); Some (g, snd c @ acts) }"
| "ug_step (UgRefill p m) c = Some (upd_con p (\<lambda>x. x\<lparr>co_out := Some m\<rparr>) (fst c), snd c)"
| "ug_step (UgConnect malloc) c = do {
     (r, acts, g) \<leftarrow> UdpGwClient_ConnectServer malloc (fst c); Some (g, snd c) }"
| "ug_step UgDisconnect c = do { g \<leftarrow> UdpGwClient_DisconnectServer (fst c); Some (g, snd c) }"
| "ug_step UgDecoderError c = do { (acts, g) \<leftarrow> decoder_handler_error (fst c); Some (g, snd c @ acts) }"
| "ug_step (UgQueue e) c = do {
     (q, acts) \<leftarrow> fq_step e (ug_send_queue (fst c), []); Some ((fst c)\<lparr>ug_send_queue := q\<rparr>, snd c) }"

definition fq_traffic :: "fq_event \<Rightarrow> bool" where
  "fq_traffic e \<longleftrightarrow> (case e of FlowSend _ _ _ \<Rightarrow> True | OutputFinished \<Rightarrow> True | JobRuns \<Rightarrow> True | _ \<Rightarrow> False)"

primrec ug_legal :: "ug_event \<Rightarrow> UdpGwClient \<times> ug_action list \<Rightarrow> bool" where
  "ug_legal (UgSubmit malloc flow_ok local remote is_dns data) c =
     (conaddr_wf \<lparr>local_addr = local, remote_addr = remote\<rparr> \<and> int (length data) \<le> ug_udp_mtu (fst c) \<and>
      (case malloc of None \<Rightarrow> True | Some p \<Rightarrow> p \<notin> set (fq_flows_list (ug_send_queue (fst c)))))"
| "ug_legal (UgFromServer data) c = (ug_have_server (fst c) \<and> int (length data) \<le> ug_udpgw_mtu (fst c))"
| "ug_legal (UgFirstJob p) c = (p \<in> set (ug_connections_list (fst c)) \<and> co_first_job (ug_con (fst c) p))"
| "ug_legal (UgRefill p m) c = (p \<in> set (ug_connections_list (fst c)) \<and> co_out (ug_con (fst c) p) = None \<and>
     int (length m) = ug_udpgw_mtu (fst c))"
| "ug_legal (UgConnect malloc) c = (\<not> ug_have_server (fst c))"
| "ug_legal UgDisconnect c = ug_have_server (fst c)"
| "ug_legal UgDecoderError c = ug_have_server (fst c)"
| "ug_legal (UgQueue e) c = (fq_traffic e \<and> fq_legal e (ug_send_queue (fst c), []))"

lemma fq_traffic_keeps:
  assumes "fq_traffic e" "fq_step e (m, as) = Some (m', as')"
  shows "fq_flows_list m' = fq_flows_list m \<and> fq_freeing m' = fq_freeing m"
  using assms fq_send_keeps fq_done_keeps fq_job_keeps
  by (cases e) (simp_all add: fq_traffic_def del: fq_step.simps)

lemma submit_ok:
  assumes inv: "ug_inv g" and wf: "conaddr_wf \<lparr>local_addr = local, remote_addr = remote\<rparr>"
    and d: "int (length data) \<le> ug_udp_mtu g"
    and fresh: "\<And>p. malloc = Some p \<Longrightarrow> p \<notin> set (fq_flows_list (ug_send_queue g))"
  shows "\<exists>acts g'. UdpGwClient_SubmitPacket malloc flow_ok local remote is_dns data g = Some (acts, g') \<and> ug_inv g'"
proof (cases "ug_by_conaddr g \<lparr>local_addr = local, remote_addr = remote\<rparr>")
  case (Some p)
  with submit_known [OF inv _ _ d Some] wf show ?thesis by (simp add: conaddr_wf_def) blast
next
  case None
  with submit_rebind [OF inv wf d None] submit_new [OF inv wf d None _ fresh] show ?thesis by metis
qed

interpretation ug: event_machine ug_step ug_legal "\<lambda>c. ug_inv (fst c)"
proof
  fix c e
  assume i: "ug_inv (fst c)" and l: "ug_legal e c"
  show "\<exists>c'. ug_step e c = Some c' \<and> ug_inv (fst c')"
  proof (cases e)
    case (UgSubmit malloc flow_ok local remote is_dns data)
    with l submit_ok [OF i, of local remote data malloc flow_ok is_dns] show ?thesis by (auto split: option.splits)
  next
    case (UgFromServer data)
    with l recv_ok [OF i, of data] show ?thesis by fastforce
  next
    case (UgFirstJob p)
    with l first_job_ok [OF i, of p] show ?thesis by auto
  next
    case (UgRefill p m)
    let ?x = "(ug_con (fst c) p)\<lparr>co_out := Some m\<rparr>"
    have "ug_con_ok (fst c) (ug_con (fst c) p)" using i l UgRefill by (simp add: ug_inv_def)
    then have "ug_con_ok (fst c) ?x" using l UgRefill by (simp add: ug_con_ok_def)
    with ug_con_upd [OF i, of p ?x] l UgRefill show ?thesis by simp
  next
    case (UgConnect malloc)
    with l connect_ok [OF i, of malloc] show ?thesis by auto
  next
    case UgDisconnect
    with l disconnect_ok [OF i] show ?thesis by auto
  next
    case UgDecoderError
    with l i show ?thesis by (simp add: decoder_handler_error_def)
  next
    case (UgQueue q)
    have "fq_inv (ug_send_queue (fst c))" using i by (simp add: ug_inv_def ug_queue_def)
    with fq.step_ok [of "(ug_send_queue (fst c), [])" q] l UgQueue obtain q' as where
      q': "fq_step q (ug_send_queue (fst c), []) = Some (q', as)" "fq_inv q'" by fastforce
    with fq_traffic_keeps [OF _ q'(1)] l UgQueue ug_queue_upd [OF i q'(2)] show ?thesis by simp
  qed
qed

end
