(* ===== verification/Socks_UdpGw.thy ===== *)
theory Socks_UdpGw
  imports Socks_Client UdpGw_Client
begin

text \<open>
  \<open>tun2socks/SocksUdpGwClient.c\<close>: the udpgw client over a SOCKS connection that is re-established
  for ever.  The record has the fields of \<open>SocksUdpGwClient\<close>; \<open>su_socks_client\<close> is the SOCKS client with
  the operations its connection is working on, \<open>su_reconnect_timer\<close> says whether the timer is running.
  \<open>su_step\<close> runs it: the SOCKS client's connection, the udpgw client and the timer produce events, and
  the handlers of this file are called where the two clients report.
\<close>

record SocksUdpGwClient =
  su_udp_mtu :: int
  su_socks_server_addr :: BAddr
  su_auth_info :: "BSocksClient_auth_info list"
  su_remote_udpgw_addr :: BAddr
  su_udpgw_client :: UdpGwClient
  su_reconnect_timer :: bool
  su_have_socks :: bool
  su_socks_client :: sc_config
  su_socks_up :: bool

section \<open>Operations\<close>

definition free_socks :: "SocksUdpGwClient \<Rightarrow> SocksUdpGwClient option" where
  "free_socks w = do {
     ASSERT (su_have_socks w);
     g \<leftarrow> (if su_socks_up w then UdpGwClient_DisconnectServer (su_udpgw_client w) else Some (su_udpgw_client w));
     let w = w\<lparr>su_udpgw_client := g\<rparr>;
     cl \<leftarrow> BSocksClient_Free (sg_cl (su_socks_client w));
     let w = w\<lparr>su_socks_client := (su_socks_client w)\<lparr>sg_cl := cl\<rparr>\<rparr>;
     Some (w\<lparr>su_have_socks := False\<rparr>)
   }"

text \<open>\<open>connector_init_ok\<close> is the result of \<open>BConnector_Init\<close>.\<close>

definition try_connect :: "bool \<Rightarrow> SocksUdpGwClient \<Rightarrow> SocksUdpGwClient option" where
  "try_connect connector_init_ok w = do {
     ASSERT (\<not> su_have_socks w);
     ASSERT (\<not> su_reconnect_timer w);
     r \<leftarrow> BSocksClient_Init connector_init_ok (su_socks_server_addr w) (su_auth_info w) (su_remote_udpgw_addr w);
     case r of
       None \<Rightarrow> Some (w\<lparr>su_reconnect_timer := True\<rparr>)
     | Some cl \<Rightarrow> Some (w\<lparr>su_socks_client := sc_start cl, su_have_socks := True, su_socks_up := False\<rparr>)
   }"

text \<open>The reactor stops an expired timer before it calls its handler.\<close>

definition reconnect_timer_handler :: "bool \<Rightarrow> SocksUdpGwClient \<Rightarrow> SocksUdpGwClient option" where
  "reconnect_timer_handler connector_init_ok w = do {
     let w = w\<lparr>su_reconnect_timer := False\<rparr>;
     ASSERT (\<not> su_have_socks w);
     try_connect connector_init_ok w
   }"

definition socks_client_handler ::
  "(int \<Rightarrow> bytes option) \<Rightarrow> socks_event \<Rightarrow> SocksUdpGwClient \<Rightarrow> SocksUdpGwClient option" where
  "socks_client_handler malloc event w = do {
     ASSERT (su_have_socks w);
     case event of
       BSOCKSCLIENT_EVENT_UP \<Rightarrow> do {
         ASSERT (\<not> su_socks_up w);
         BSocksClient_GetSendInterface (sg_cl (su_socks_client w));
         BSocksClient_GetRecvInterface (sg_cl (su_socks_client w));
         (ok, acts, g) \<leftarrow> UdpGwClient_ConnectServer malloc (su_udpgw_client w);
         let w = w\<lparr>su_udpgw_client := g\<rparr>;
         if ok then Some (w\<lparr>su_socks_up := True\<rparr>)
         else do {
           w \<leftarrow> free_socks w;
           Some (w\<lparr>su_reconnect_timer := True\<rparr>)
         }
       }
     | _ \<Rightarrow> do {
         w \<leftarrow> free_socks w;
         Some (w\<lparr>su_reconnect_timer := True\<rparr>)
       }
   }"

definition udpgw_handler_servererror :: "SocksUdpGwClient \<Rightarrow> SocksUdpGwClient option" where
  "udpgw_handler_servererror w = do {
     ASSERT (su_have_socks w);
     ASSERT (su_socks_up w);
     w \<leftarrow> free_socks w;
     Some (w\<lparr>su_reconnect_timer := True\<rparr>)
   }"

text \<open>A call of the user's handler.\<close>

datatype su_action = SuReceived BAddr BAddr bytes

definition udpgw_handler_received :: "BAddr \<Rightarrow> BAddr \<Rightarrow> bytes \<Rightarrow> su_action list" where
  "udpgw_handler_received local remote data = [SuReceived local remote data]"

text \<open>The inner \<open>None\<close> is the return value 0.\<close>

definition SocksUdpGwClient_Init ::
  "(ptr \<Rightarrow> fq_flow) \<Rightarrow> (ptr \<Rightarrow> UdpGwClient_connection) \<Rightarrow> ptr \<Rightarrow> sc_config \<Rightarrow> bool \<Rightarrow> int \<Rightarrow> int \<Rightarrow> int \<Rightarrow>
   BAddr \<Rightarrow> BSocksClient_auth_info list \<Rightarrow> BAddr \<Rightarrow> SocksUdpGwClient option option" where
  "SocksUdpGwClient_Init store cstore keepalive_qflow no_socks connector_init_ok udp_mtu max_connections send_buffer_size
     socks_server_addr auth_info remote_udpgw_addr = do {
     ASSERT (\<not> BAddr_IsInvalid socks_server_addr);
     ASSERT (remote_udpgw_addr \<noteq> BADDR_TYPE_NONE);
     r \<leftarrow> UdpGwClient_Init store cstore keepalive_qflow udp_mtu max_connections send_buffer_size;
     case r of
       None \<Rightarrow> Some None
     | Some g \<Rightarrow> do {
         w \<leftarrow> try_connect connector_init_ok
           \<lparr>su_udp_mtu = udp_mtu, su_socks_server_addr = socks_server_addr, su_auth_info = auth_info,
            su_remote_udpgw_addr = remote_udpgw_addr, su_udpgw_client = g, su_reconnect_timer = False,
            su_have_socks = False, su_socks_client = no_socks, su_socks_up = False\<rparr>;
         Some (Some w)
       }
   }"

definition SocksUdpGwClient_Free :: "SocksUdpGwClient \<Rightarrow> SocksUdpGwClient option" where
  "SocksUdpGwClient_Free w = do {
     w \<leftarrow> (if su_have_socks w then free_socks w else Some w);
     let w = w\<lparr>su_reconnect_timer := False\<rparr>;
     g \<leftarrow> UdpGwClient_Free (su_udpgw_client w);
     Some (w\<lparr>su_udpgw_client := g\<rparr>)
   }"

definition SocksUdpGwClient_SubmitPacket ::
  "ptr option \<Rightarrow> bool \<Rightarrow> BAddr \<Rightarrow> BAddr \<Rightarrow> bool \<Rightarrow> bytes \<Rightarrow> SocksUdpGwClient \<Rightarrow>
   (ug_action list \<times> SocksUdpGwClient) option" where
  "SocksUdpGwClient_SubmitPacket malloc flow_ok local remote is_dns data w = do {
     (acts, g) \<leftarrow> UdpGwClient_SubmitPacket malloc flow_ok local remote is_dns data (su_udpgw_client w);
     Some (acts, w\<lparr>su_udpgw_client := g\<rparr>)
   }"

section \<open>The client in its environment\<close>

text \<open>The handlers of this file, called for what the two clients report.\<close>

primrec su_socks_reports ::
  "(int \<Rightarrow> bytes option) \<Rightarrow> socks_event list \<Rightarrow> SocksUdpGwClient \<Rightarrow> SocksUdpGwClient option" where
  "su_socks_reports malloc [] w = Some w"
| "su_socks_reports malloc (e # es) w = socks_client_handler malloc e w \<bind> su_socks_reports malloc es"

primrec su_udpgw_report :: "ug_action \<Rightarrow> SocksUdpGwClient \<Rightarrow> (su_action list \<times> SocksUdpGwClient) option" where
  "su_udpgw_report (UgPacket p pkt) w = Some ([], w)"
| "su_udpgw_report UgAccept w = Some ([], w)"
| "su_udpgw_report (UgReceived local remote data) w = Some (udpgw_handler_received local remote data, w)"
| "su_udpgw_report UgServerError w = do { w \<leftarrow> udpgw_handler_servererror w; Some ([], w) }"

primrec su_udpgw_reports :: "ug_action list \<Rightarrow> SocksUdpGwClient \<Rightarrow> (su_action list \<times> SocksUdpGwClient) option" where
  "su_udpgw_reports [] w = Some ([], w)"
| "su_udpgw_reports (a # as) w = do {
     (xs, w) \<leftarrow> su_udpgw_report a w;
     (ys, w) \<leftarrow> su_udpgw_reports as w;
     Some (xs @ ys, w)
   }"

datatype su_event = SuTimer bool | SuSocks sc_env "int \<Rightarrow> bytes option" | SuUdpGw ug_event

primrec su_step ::
  "realloc \<Rightarrow> su_event \<Rightarrow> SocksUdpGwClient \<times> su_action list \<Rightarrow> (SocksUdpGwClient \<times> su_action list) option" where
  "su_step BRealloc (SuTimer connector_init_ok) c = do {
     w \<leftarrow> reconnect_timer_handler connector_init_ok (fst c);
     Some (w, snd c)
   }"
| "su_step BRealloc (SuSocks e malloc) c = do {
     s \<leftarrow> sc_step BRealloc e (su_socks_client (fst c));
     w \<leftarrow> su_socks_reports malloc (drop (length (sg_events (su_socks_client (fst c)))) (sg_events s))
       ((fst c)\<lparr>su_socks_client := s\<rparr>);
     Some (w, snd c)
   }"
| "su_step BRealloc (SuUdpGw e) c = do {
     (g, acts) \<leftarrow> ug_step e (su_udpgw_client (fst c), []);
     (out, w) \<leftarrow> su_udpgw_reports acts ((fst c)\<lparr>su_udpgw_client := g\<rparr>);
     Some (w, snd c @ out)
   }"

primrec su_legal :: "su_event \<Rightarrow> SocksUdpGwClient \<times> su_action list \<Rightarrow> bool" where
  "su_legal (SuTimer connector_init_ok) c = su_reconnect_timer (fst c)"
| "su_legal (SuSocks e malloc) c = (su_have_socks (fst c) \<and> sc_legal e (su_socks_client (fst c)))"
| "su_legal (SuUdpGw e) c = (ug_legal e (su_udpgw_client (fst c), []) \<and>
     (case e of UgConnect _ \<Rightarrow> False | UgDisconnect \<Rightarrow> False | _ \<Rightarrow> True))"

section \<open>Invariant\<close>

text \<open>
  Either there is a SOCKS client or the reconnect timer runs, never both; the udpgw client has a
  server exactly while the SOCKS client is up.
\<close>

definition su_inv :: "SocksUdpGwClient \<Rightarrow> bool" where
  "su_inv w \<longleftrightarrow> ug_inv (su_udpgw_client w) \<and> su_reconnect_timer w = (\<not> su_have_socks w) \<and>
     ug_have_server (su_udpgw_client w) = (su_have_socks w \<and> su_socks_up w) \<and>
     \<not> BAddr_IsInvalid (su_socks_server_addr w) \<and> su_remote_udpgw_addr w \<noteq> BADDR_TYPE_NONE \<and>
     BAddr_wf (su_remote_udpgw_addr w) \<and>
     (\<forall>ai\<in>set (su_auth_info w). auth_type ai = SOCKS_METHOD_NO_AUTHENTICATION_REQUIRED \<or>
        auth_type ai = SOCKS_METHOD_USERNAME_PASSWORD) \<and>
     (su_have_socks w \<longrightarrow> sc_inv (su_socks_client w) \<and> \<not> sc_failed (su_socks_client w) \<and>
        su_socks_up w = (sc_state (sg_cl (su_socks_client w)) = STATE_UP))"

lemma free_socks_ok:
  assumes "ug_inv (su_udpgw_client w)" "su_have_socks w" "sc_inv (su_socks_client w)"
    "ug_have_server (su_udpgw_client w) = su_socks_up w"
  shows "\<exists>g cl. free_socks w = Some (w\<lparr>su_udpgw_client := g, su_socks_client := (su_socks_client w)\<lparr>sg_cl := cl\<rparr>, su_have_socks := False\<rparr>) \<and>
    ug_inv g \<and> \<not> ug_have_server g \<and> ug_connections_list g = ug_connections_list (su_udpgw_client w) \<and>
    \<not> sc_connector cl \<and> \<not> sc_con cl \<and> \<not> sc_recv_async cl \<and> \<not> sc_send_async cl \<and> \<not> sc_send_sender cl \<and> sc_buffer cl = None"
proof -
  obtain g where g: "(if su_socks_up w then UdpGwClient_DisconnectServer (su_udpgw_client w) else Some (su_udpgw_client w)) = Some g"
      "ug_inv g" "\<not> ug_have_server g" "ug_connections_list g = ug_connections_list (su_udpgw_client w)"
    using disconnect_ok [of "su_udpgw_client w"] assms by (auto split: if_splits)
  moreover from sc_free [OF assms(3)] obtain cl where "BSocksClient_Free (sg_cl (su_socks_client w)) = Some cl"
    "\<not> sc_connector cl \<and> \<not> sc_con cl \<and> \<not> sc_recv_async cl \<and> \<not> sc_send_async cl \<and> \<not> sc_send_sender cl \<and> sc_buffer cl = None"
    by blast
  ultimately show ?thesis
    using assms(2) by (intro exI [of _ g] exI [of _ cl]) (simp add: free_socks_def)
qed

text \<open>A failed SOCKS connection: the client is freed and the timer is set.\<close>

definition su_base :: "SocksUdpGwClient \<Rightarrow> bool" where
  "su_base w \<longleftrightarrow> ug_inv (su_udpgw_client w) \<and> su_have_socks w \<and> sc_inv (su_socks_client w) \<and>
     ug_have_server (su_udpgw_client w) = su_socks_up w \<and>
     \<not> BAddr_IsInvalid (su_socks_server_addr w) \<and> su_remote_udpgw_addr w \<noteq> BADDR_TYPE_NONE \<and>
     BAddr_wf (su_remote_udpgw_addr w) \<and>
     (\<forall>ai\<in>set (su_auth_info w). auth_type ai = SOCKS_METHOD_NO_AUTHENTICATION_REQUIRED \<or>
        auth_type ai = SOCKS_METHOD_USERNAME_PASSWORD)"

lemma su_reset_ok:
  assumes "su_base w"
  shows "\<exists>w'. free_socks w = Some w' \<and> su_inv (w'\<lparr>su_reconnect_timer := True\<rparr>) \<and> \<not> su_have_socks w' \<and>
    ug_connections_list (su_udpgw_client w') = ug_connections_list (su_udpgw_client w)"
  using free_socks_ok [of w] assms by (auto simp: su_base_def su_inv_def)

lemma try_connect_ok:
  assumes "su_inv (w\<lparr>su_reconnect_timer := True\<rparr>)" "\<not> su_have_socks w" "\<not> su_reconnect_timer w"
  shows "\<exists>w'. try_connect ok w = Some w' \<and> su_inv w' \<and> su_have_socks w' = ok \<and> su_udpgw_client w' = su_udpgw_client w"
proof (cases ok)
  case False
  with assms show ?thesis
    by (cases "su_remote_udpgw_addr w") (auto simp: try_connect_def su_inv_def BSocksClient_Init_def)
next
  case True
  let ?init = "BSocksClient_Init ok (su_socks_server_addr w) (su_auth_info w) (su_remote_udpgw_addr w)"
  from True assms(1) obtain cl where cl: "?init = Some (Some cl)" "sc_state cl = STATE_CONNECTING"
    by (cases "su_remote_udpgw_addr w") (auto simp: su_inv_def BSocksClient_Init_def)
  have "sc_inv (sc_start cl)" using sc_start_inv [OF cl(1)] assms(1) by (simp add: su_inv_def)
  with assms cl True show ?thesis
    by (auto simp: try_connect_def su_inv_def sc_start_def sc_failed_def)
qed

lemma socks_up_ok:
  assumes b: "su_base w" and t: "\<not> su_reconnect_timer w" and f: "\<not> sc_failed (su_socks_client w)"
    and s: "sc_state (sg_cl (su_socks_client w)) = STATE_UP" "\<not> su_socks_up w"
  shows "\<exists>w'. socks_client_handler malloc BSOCKSCLIENT_EVENT_UP w = Some w' \<and> su_inv w'"
proof -
  let ?g = "su_udpgw_client w"
  have io: "sc_send_async (sg_cl (su_socks_client w))" "sc_recv_async (sg_cl (su_socks_client w))"
    using b s by (auto simp: su_base_def sc_inv_def sc_resources_def)
  from connect_ok [of ?g malloc] b s(2) obtain r acts g where
    g: "UdpGwClient_ConnectServer malloc ?g = Some (r, acts, g)" "ug_inv g" "ug_have_server g = r"
    by (auto simp: su_base_def)
  show ?thesis
  proof (cases r)
    case True
    with g io b t f s show ?thesis
      by (auto simp: socks_client_handler_def BSocksClient_GetSendInterface_def BSocksClient_GetRecvInterface_def su_base_def su_inv_def)
  next
    case False
    have "su_base (w\<lparr>su_udpgw_client := g\<rparr>)" using b g False s(2) by (simp add: su_base_def)
    from su_reset_ok [OF this] False g io b s show ?thesis
      by (auto simp: socks_client_handler_def BSocksClient_GetSendInterface_def BSocksClient_GetRecvInterface_def su_base_def)
  qed
qed

lemma socks_error_ok:
  assumes "su_base w" "e \<noteq> BSOCKSCLIENT_EVENT_UP"
  shows "\<exists>w'. socks_client_handler malloc e w = Some w' \<and> su_inv w' \<and> su_reconnect_timer w'"
  using su_reset_ok [OF assms(1)] assms by (cases e) (auto simp: socks_client_handler_def su_base_def)

section \<open>Runs\<close>

text \<open>Handling one event the SOCKS client calls its user at most once.\<close>

lemma sc_one_action_help:
  "start_receive d n cl = Some (acts, cl') \<Longrightarrow> length acts \<le> 1"
  "do_receive cl = Some (acts, cl') \<Longrightarrow> length acts \<le> 1"
  "auth_finished BRealloc cl = Some (acts, cl') \<Longrightarrow> length acts \<le> 1"
  "send_password BRealloc ai cl = Some (acts, cl') \<Longrightarrow> length acts \<le> 1"
  by (auto simp: start_receive_def do_receive_def auth_finished_def send_password_def Let_def
      split: if_splits Option.bind_splits prod.splits)

lemma sc_one_action_connector:
  "BSocksClient_connector_handler BRealloc ok err cl = Some (acts, cl') \<Longrightarrow> length acts \<le> 1"
  by (auto simp: BSocksClient_connector_handler_def Let_def split: if_splits Option.bind_splits prod.splits)

lemma sc_one_action_send:
  "BSocksClient_send_handler_done BRealloc cl = Some (acts, cl') \<Longrightarrow> length acts \<le> 1"
  by (auto simp: BSocksClient_send_handler_done_def Let_def
      split: if_splits Option.bind_splits prod.splits socks_state.splits dest: sc_one_action_help)

lemma sc_one_action_recv:
  assumes "BSocksClient_recv_handler_done BRealloc n cl = Some (acts, cl')"
  shows "length acts \<le> 1"
  using assms
  by (cases "sc_state cl")
    (auto simp: BSocksClient_recv_handler_done_def Let_def
      split: if_split_asm Option.bind_split_asm option.split_asm dest: sc_one_action_help)

lemma sc_one_action_con:
  "BSocksClient_connection_handler closed cl = Some (acts, cl') \<Longrightarrow> length acts \<le> 1"
  by (auto simp: BSocksClient_connection_handler_def split: if_splits)

lemmas sc_one_action = sc_one_action_connector sc_one_action_send sc_one_action_recv sc_one_action_con

lemma sc_performs_one:
  assumes "sc_performs acts g = Some g'" "length acts \<le> 1"
  shows "\<exists>es. sg_events g' = sg_events g @ es \<and> length es \<le> 1"
  using assms by (cases acts; cases "hd acts") auto

lemma sc_step_one:
  assumes "sc_step BRealloc e g = Some g'"
  shows "\<exists>es. sg_events g' = sg_events g @ es \<and> length es \<le> 1"
  using assms
  by (cases e) (fastforce split: Option.bind_splits dest: sc_one_action sc_performs_one)+

lemma sc_reports:
  assumes i: "sc_inv g" "\<not> sc_failed g" and s: "sc_step BRealloc e g = Some g'" "sc_inv g'"
  obtains (none) "sg_events g' = sg_events g" "\<not> sc_failed g'"
      "sc_state (sg_cl g') = STATE_UP \<longleftrightarrow> sc_state (sg_cl g) = STATE_UP"
    | (up) "sg_events g = []" "sg_events g' = [BSOCKSCLIENT_EVENT_UP]" "\<not> sc_failed g'"
      "sc_state (sg_cl g) \<noteq> STATE_UP" "sc_state (sg_cl g') = STATE_UP"
    | (error) e where "sg_events g' = sg_events g @ [e]" "e \<noteq> BSOCKSCLIENT_EVENT_UP"
proof -
  from sc_step_one [OF s(1)] obtain es where es: "sg_events g' = sg_events g @ es" "length es \<le> 1" by blast
  have old: "sg_events g = (if sc_state (sg_cl g) = STATE_UP then [BSOCKSCLIENT_EVENT_UP] else [])"
    using i by (simp add: sc_inv_def)
  show thesis
  proof (cases "sc_failed g'")
    case True
    with i(2) es have "es \<noteq> []" by (auto simp: sc_failed_def)
    with es(2) obtain x where x: "es = [x]" by (cases es) auto
    with True i(2) es(1) have "x \<noteq> BSOCKSCLIENT_EVENT_UP" by (auto simp: sc_failed_def)
    with x es(1) show thesis by (intro error) auto
  next
    case False
    then have new: "sg_events g' = (if sc_state (sg_cl g') = STATE_UP then [BSOCKSCLIENT_EVENT_UP] else [])"
      using s(2) by (simp add: sc_inv_def)
    with old es False show thesis by (cases es) (auto intro: none up split: if_splits)
  qed
qed

lemma su_socks_ok:
  assumes r: "realloc_ok BRealloc" and i: "su_inv w" and l: "su_have_socks w" "sc_legal e (su_socks_client w)"
  shows "\<exists>c'. su_step BRealloc (SuSocks e malloc) (w, out) = Some c' \<and> su_inv (fst c')"
proof -
  let ?s = "su_socks_client w"
  from i l have s: "sc_inv ?s" "\<not> sc_failed ?s" by (auto simp: su_inv_def)
  from sc.step_ok [of BRealloc ?s e] r s l(2) obtain s' where
    s': "sc_step BRealloc e ?s = Some s'" "sc_inv s'" by blast
  let ?w = "w\<lparr>su_socks_client := s'\<rparr>"
  have b: "su_base ?w" "\<not> su_reconnect_timer ?w" using i l s' by (auto simp: su_base_def su_inv_def)
  from s s' show ?thesis
  proof (cases rule: sc_reports)
    case none
    with i l s' show ?thesis by (simp add: su_inv_def)
  next
    case up
    then have "\<not> su_socks_up ?w" using i l by (auto simp: su_inv_def)
    with socks_up_ok [OF b, of malloc] up s' show ?thesis by auto
  next
    case (error x)
    with socks_error_ok [OF b(1) error(2), of malloc] s' show ?thesis by auto
  qed
qed

text \<open>Only the two operations of this file's handlers change whether the udpgw client has a server.\<close>

lemma connection_send_keeps:
  assumes "connection_send p flags data g = Some (acts, g')"
  shows "ug_have_server g' = ug_have_server g \<and> UgServerError \<notin> set acts"
  using assms by (auto simp: connection_send_def Let_def split: option.splits Option.bind_splits BAddr.splits)

lemma connection_init_keeps:
  assumes "connection_init malloc ok a f data g = Some g'"
  shows "ug_have_server g' = ug_have_server g"
  using assms
  by (auto simp: connection_init_def find_unused_conid_def Let_def split: option.splits Option.bind_splits if_splits)

lemma submit_keeps:
  assumes "UdpGwClient_SubmitPacket malloc ok local remote dns data g = Some (acts, g')"
  shows "ug_have_server g' = ug_have_server g \<and> UgServerError \<notin> set acts"
  using assms
  by (auto simp: UdpGwClient_SubmitPacket_def reuse_connection_def Let_def move_to_end_def
      split: option.splits Option.bind_splits if_splits list.splits dest!: connection_send_keeps connection_init_keeps)

lemma recv_keeps:
  assumes "ug_legal (UgFromServer data) (g, [])" "recv_interface_handler_send data g = Some (acts, g')"
  shows "ug_have_server g' = ug_have_server g \<and> UgServerError \<notin> set acts"
  using recv_cases [of g data] assms by (auto simp: move_to_end_def)

lemma ug_step_keeps:
  assumes "ug_step e (g, []) = Some (g', acts)" "ug_legal e (g, [])" "e \<noteq> UgDecoderError" "e \<noteq> UgDisconnect" "\<forall>m. e \<noteq> UgConnect m"
  shows "ug_have_server g' = ug_have_server g \<and> UgServerError \<notin> set acts"
proof (cases e)
  case (UgSubmit malloc flow_ok local remote is_dns data)
  with assms(1) show ?thesis by (auto split: Option.bind_splits dest!: submit_keeps)
next
  case (UgFromServer data)
  with assms(1,2) recv_keeps [of data g] show ?thesis by (auto split: Option.bind_splits)
next
  case (UgFirstJob p)
  with assms(1) show ?thesis 
    by (auto simp: connection_first_job_handler_def split: Option.bind_splits dest!: connection_send_keeps)
qed (use assms in \<open>auto split: Option.bind_splits\<close>)

lemma su_reports_plain:
  "UgServerError \<notin> set acts \<Longrightarrow> \<exists>out. su_udpgw_reports acts w = Some (out, w)"
proof (induction acts)
  case (Cons a acts)
  then show ?case by (cases a) auto
qed simp

lemma su_udpgw_ok:
  assumes i: "su_inv w" and l: "su_legal (SuUdpGw e) (w, out)"
  shows "\<exists>c'. su_step BRealloc (SuUdpGw e) (w, out) = Some c' \<and> su_inv (fst c')"
proof -
  let ?g = "su_udpgw_client w"
  have gi: "ug_inv ?g" using i by (simp add: su_inv_def)
  from ug.step_ok [of "(?g, [])" e] gi l obtain g acts where
    g: "ug_step e (?g, []) = Some (g, acts)" "ug_inv g" by fastforce
  show ?thesis
  proof (cases "e = UgDecoderError")
    case True
    with l i have w: "ug_have_server ?g" "su_have_socks w" "su_socks_up w" by (auto simp: su_inv_def)
    with True g have ga: "g = ?g" "acts = [UgServerError]" by (auto simp: decoder_handler_error_def)
    have "su_base w" using i w by (simp add: su_base_def su_inv_def)
    from su_reset_ok [OF this] w g(1) ga show ?thesis
      by (auto simp: udpgw_handler_servererror_def simp del: ug_step.simps)
  next
    case False
    have k: "ug_have_server g = ug_have_server ?g" "UgServerError \<notin> set acts"
      using ug_step_keeps [OF g(1)] l False by (cases e; simp)+
    from su_reports_plain [OF k(2), of "w\<lparr>su_udpgw_client := g\<rparr>"] obtain o' where
      "su_udpgw_reports acts (w\<lparr>su_udpgw_client := g\<rparr>) = Some (o', w\<lparr>su_udpgw_client := g\<rparr>)" by blast
    with g k(1) i show ?thesis by (simp add: su_inv_def del: ug_step.simps)
  qed
qed

interpretation su: event_machine "su_step BRealloc" su_legal "\<lambda>c. realloc_ok BRealloc \<and> su_inv (fst c)" for BRealloc
proof
  fix c e
  assume i: "realloc_ok BRealloc \<and> su_inv (fst c)" and l: "su_legal e c"
  obtain w out where c: "c = (w, out)" by (cases c)
  show "\<exists>c'. su_step BRealloc e c = Some c' \<and> realloc_ok BRealloc \<and> su_inv (fst c')"
  proof (cases e)
    case (SuTimer ok)
    with l i have "su_inv ((w\<lparr>su_reconnect_timer := False\<rparr>)\<lparr>su_reconnect_timer := True\<rparr>)" "\<not> su_have_socks w"
      by (auto simp: c su_inv_def)
    with try_connect_ok [of "w\<lparr>su_reconnect_timer := False\<rparr>" ok] i SuTimer show ?thesis
      by (auto simp: c reconnect_timer_handler_def)
  next
    case (SuSocks x malloc)
    with su_socks_ok [of BRealloc w x malloc out] i l show ?thesis by (auto simp: c simp del: su_step.simps)
  next
    case (SuUdpGw x)
    with su_udpgw_ok [of w x out BRealloc] i l show ?thesis by (auto simp: c simp del: su_step.simps)
  qed
qed

section \<open>Life cycle\<close>

lemma SocksUdpGwClient_Init_ok:
  assumes u: "0 \<le> udp_mtu" "0 \<le> udpgw_compute_mtu udp_mtu" "udpgw_compute_mtu udp_mtu \<le> PACKETPROTO_MAXPAYLOAD"
    "0 < max_connections" "0 < send_buffer_size"
    and a: "\<not> BAddr_IsInvalid server" "remote \<noteq> BADDR_TYPE_NONE" "BAddr_wf remote"
    and auth: "\<forall>ai\<in>set ais. auth_type ai = SOCKS_METHOD_NO_AUTHENTICATION_REQUIRED \<or> auth_type ai = SOCKS_METHOD_USERNAME_PASSWORD"
  shows "\<exists>w. SocksUdpGwClient_Init store cstore k no_socks ok udp_mtu max_connections send_buffer_size server ais remote =
    Some (Some w) \<and> su_inv w \<and> su_have_socks w = ok \<and> ug_udp_mtu (su_udpgw_client w) = udp_mtu"
proof -
  from UdpGwClient_Init_inv [OF u, of store cstore k] obtain g where
    g: "UdpGwClient_Init store cstore k udp_mtu max_connections send_buffer_size = Some (Some g)" "ug_inv g"
      "\<not> ug_have_server g" "ug_udp_mtu g = udp_mtu" by blast
  let ?w = "\<lparr>su_udp_mtu = udp_mtu, su_socks_server_addr = server, su_auth_info = ais, su_remote_udpgw_addr = remote,
    su_udpgw_client = g, su_reconnect_timer = False, su_have_socks = False, su_socks_client = no_socks, su_socks_up = False\<rparr>"
  have "su_inv (?w\<lparr>su_reconnect_timer := True\<rparr>)" using g a auth by (simp add: su_inv_def)
  from try_connect_ok [OF this, of ok] g a show ?thesis by (auto simp: SocksUdpGwClient_Init_def)
qed

lemma SocksUdpGwClient_Free_ok:
  assumes i: "su_inv w"
  shows "\<exists>w'. SocksUdpGwClient_Free w = Some w' \<and> \<not> su_have_socks w' \<and> \<not> su_reconnect_timer w' \<and>
    ug_connections_list (su_udpgw_client w') = [] \<and> fq_flows_list (ug_send_queue (su_udpgw_client w')) = []"
proof -
  have "\<exists>w1. (if su_have_socks w then free_socks w else Some w) = Some w1 \<and> ug_inv (su_udpgw_client w1) \<and> \<not> su_have_socks w1"
    using i su_reset_ok [of w] by (auto simp: su_base_def su_inv_def)
  then obtain w1 where w1: "(if su_have_socks w then free_socks w else Some w) = Some w1" "ug_inv (su_udpgw_client w1)"
    "\<not> su_have_socks w1" by blast
  from UdpGwClient_Free_ok [OF w1(2)] w1 show ?thesis by (auto simp: SocksUdpGwClient_Free_def)
qed

lemma SocksUdpGwClient_SubmitPacket_ok:
  assumes i: "su_inv w" and wf: "conaddr_wf \<lparr>local_addr = local, remote_addr = remote\<rparr>"
    and d: "int (length data) \<le> ug_udp_mtu (su_udpgw_client w)"
    and fresh: "\<And>p. malloc = Some p \<Longrightarrow> p \<notin> set (fq_flows_list (ug_send_queue (su_udpgw_client w)))"
  shows "\<exists>acts w'. SocksUdpGwClient_SubmitPacket malloc flow_ok local remote is_dns data w = Some (acts, w') \<and> su_inv w'"
proof -
  have gi: "ug_inv (su_udpgw_client w)" using i by (simp add: su_inv_def)
  from submit_ok [OF gi wf d, of malloc flow_ok is_dns] fresh obtain acts g where
    g: "UdpGwClient_SubmitPacket malloc flow_ok local remote is_dns data (su_udpgw_client w) = Some (acts, g)" "ug_inv g"
    by blast
  with submit_keeps [OF g(1)] i show ?thesis by (simp add: SocksUdpGwClient_SubmitPacket_def su_inv_def)
qed

section \<open>What reaches the user\<close>

text \<open>Every packet that is handed on comes from a connection of the client, whose addresses are of
  one family, and fits the UDP MTU.\<close>

definition su_out_ok :: "int \<Rightarrow> su_action \<Rightarrow> bool" where
  "su_out_ok mtu a = (case a of SuReceived l r d \<Rightarrow>
     conaddr_wf \<lparr>local_addr = l, remote_addr = r\<rparr> \<and> int (length d) \<le> mtu)"

lemma su_reports_out:
  "su_udpgw_reports acts w = Some (out, w') \<Longrightarrow> (\<And>l r d. UgReceived l r d \<in> set acts \<Longrightarrow> su_out_ok m (SuReceived l r d)) \<Longrightarrow>
   \<forall>x\<in>set out. su_out_ok m x"
proof (induction acts arbitrary: w out)
  case (Cons a acts)
  from Cons.prems(1) obtain xs w1 ys where x: "su_udpgw_report a w = Some (xs, w1)" "su_udpgw_reports acts w1 = Some (ys, w')" "out = xs @ ys"
    by (auto split: Option.bind_splits)
  have "\<forall>x\<in>set ys. su_out_ok m x" using Cons.IH [OF x(2)] Cons.prems(2) by simp
  moreover have "\<forall>x\<in>set xs. su_out_ok m x"
    using x(1) Cons.prems(2) by (cases a) (auto simp: udpgw_handler_received_def split: Option.bind_splits)
  ultimately show ?case using x(3) by auto
qed simp

lemma connection_send_silent:
  "connection_send p flags data g = Some (acts, g') \<Longrightarrow> UgReceived l r d \<notin> set acts"
  by (auto simp: connection_send_def Let_def split: option.splits Option.bind_splits if_splits)

lemma ug_step_received:
  assumes i: "ug_inv g" and s: "ug_step e (g, []) = Some (g', acts)" and l: "ug_legal e (g, [])" and m: "UgReceived a b d \<in> set acts"
  shows "su_out_ok (ug_udp_mtu g) (SuReceived a b d)"
proof (cases e)
  case (UgFromServer data)
  then have h: "ug_have_server g" "int (length data) \<le> ug_udpgw_mtu g" using l by auto
  from recv_ok [OF i h] s m UgFromServer obtain p where
    p: "p \<in> set (ug_connections_list g)" "a = local_addr (co_conaddr (ug_con g p))" "b = remote_addr (co_conaddr (ug_con g p))"
      "int (length d) \<le> ug_udp_mtu g" by auto
  then have "conaddr_wf (co_conaddr (ug_con g p))" using i by (auto simp: ug_inv_def ug_con_ok_def)
  with p show ?thesis by (cases "co_conaddr (ug_con g p)") (simp add: su_out_ok_def)
next
  case (UgSubmit malloc flow_ok local remote is_dns data)
  with s m show ?thesis
    by (auto simp: UdpGwClient_SubmitPacket_def reuse_connection_def Let_def split: option.splits Option.bind_splits if_splits list.splits
        dest: connection_send_silent)
next
  case (UgFirstJob p)
  with s m show ?thesis
    by (auto simp: connection_first_job_handler_def split: Option.bind_splits dest: connection_send_silent)
qed (use s m in \<open>auto simp: decoder_handler_error_def split: Option.bind_splits\<close>)

lemma connection_send_mtu: "connection_send p f d g = Some (a, g') \<Longrightarrow> ug_udp_mtu g' = ug_udp_mtu g"
  by (auto simp: connection_send_def Let_def split: option.splits Option.bind_splits if_splits)

lemma connection_init_mtu: "connection_init malloc ok a f data g = Some g' \<Longrightarrow> ug_udp_mtu g' = ug_udp_mtu g"
  by (auto simp: connection_init_def find_unused_conid_def Let_def split: option.splits Option.bind_splits if_splits)

lemma ug_disconnect_mtu: "UdpGwClient_DisconnectServer g = Some g' \<Longrightarrow> ug_udp_mtu g' = ug_udp_mtu g"
  by (auto simp: UdpGwClient_DisconnectServer_def free_server_def Let_def split: option.splits Option.bind_splits if_splits)

lemma ug_connect_mtu: "UdpGwClient_ConnectServer m g = Some (r, a, g') \<Longrightarrow> ug_udp_mtu g' = ug_udp_mtu g"
  by (auto simp: UdpGwClient_ConnectServer_def Let_def split: option.splits Option.bind_splits if_splits)

lemma submit_mtu: "UdpGwClient_SubmitPacket malloc ok l r dns data g = Some (a, g') \<Longrightarrow> ug_udp_mtu g' = ug_udp_mtu g"
  by (auto simp: UdpGwClient_SubmitPacket_def reuse_connection_def Let_def move_to_end_def
      split: option.splits Option.bind_splits if_splits list.splits dest!: connection_send_mtu connection_init_mtu)

lemma ug_step_mtu:
  assumes "ug_step e (g, []) = Some (g', acts)" "ug_legal e (g, [])"
  shows "ug_udp_mtu g' = ug_udp_mtu g"
proof (cases e)
  case (UgFromServer data)
  with assms recv_cases [of g data] show ?thesis by (auto simp: move_to_end_def)
qed (use assms in \<open>auto simp: connection_first_job_handler_def decoder_handler_error_def split: Option.bind_splits
    dest!: submit_mtu connection_send_mtu ug_connect_mtu ug_disconnect_mtu\<close>)

lemma free_socks_mtu: "free_socks w = Some w' \<Longrightarrow> ug_udp_mtu (su_udpgw_client w') = ug_udp_mtu (su_udpgw_client w)"
  by (auto simp: free_socks_def Let_def split: Option.bind_splits if_splits dest!: ug_disconnect_mtu)

lemma su_reports_mtu:
  "su_udpgw_reports acts w = Some (out, w') \<Longrightarrow> ug_udp_mtu (su_udpgw_client w') = ug_udp_mtu (su_udpgw_client w)"
proof (induction acts arbitrary: w out)
  case (Cons a acts)
  from Cons.prems obtain xs w1 ys where x: "su_udpgw_report a w = Some (xs, w1)" "su_udpgw_reports acts w1 = Some (ys, w')"
    by (auto split: Option.bind_splits)
  have "ug_udp_mtu (su_udpgw_client w1) = ug_udp_mtu (su_udpgw_client w)"
    using x(1) by (cases a) (auto simp: udpgw_handler_servererror_def split: Option.bind_splits dest!: free_socks_mtu)
  with Cons.IH [OF x(2)] show ?case by simp
qed simp

lemma su_socks_reports_mtu:
  "su_socks_reports malloc es w = Some w' \<Longrightarrow> ug_udp_mtu (su_udpgw_client w') = ug_udp_mtu (su_udpgw_client w)"
proof (induction es arbitrary: w)
  case (Cons e es)
  from Cons.prems obtain w1 where x: "socks_client_handler malloc e w = Some w1" "su_socks_reports malloc es w1 = Some w'"
    by (auto split: Option.bind_splits)
  have "ug_udp_mtu (su_udpgw_client w1) = ug_udp_mtu (su_udpgw_client w)"
    using x(1) by (cases e)
      (auto simp: socks_client_handler_def Let_def split: Option.bind_splits if_splits prod.splits dest!: free_socks_mtu ug_connect_mtu)
  with Cons.IH [OF x(2)] show ?case by simp
qed simp

lemma su_step_out:
  assumes i: "su_inv w" and l: "su_legal e (w, [])" and s: "su_step BRealloc e (w, []) = Some (w', out)"
  shows "ug_udp_mtu (su_udpgw_client w') = ug_udp_mtu (su_udpgw_client w) \<and>
    (\<forall>x\<in>set out. su_out_ok (ug_udp_mtu (su_udpgw_client w)) x)"
proof (cases e)
  case (SuTimer ok)
  with s show ?thesis
    by (auto simp: reconnect_timer_handler_def try_connect_def Let_def split: Option.bind_splits option.splits)
next
  case (SuSocks x malloc)
  with s show ?thesis by (auto split: Option.bind_splits dest!: su_socks_reports_mtu)
next
  case (SuUdpGw x)
  with s obtain g acts where g: "ug_step x (su_udpgw_client w, []) = Some (g, acts)"
    "su_udpgw_reports acts (w\<lparr>su_udpgw_client := g\<rparr>) = Some (out, w')" by (auto split: Option.bind_splits simp del: ug_step.simps)
  have lx: "ug_legal x (su_udpgw_client w, [])" and gi: "ug_inv (su_udpgw_client w)" using l i SuUdpGw by (auto simp: su_inv_def)
  from su_reports_out [OF g(2)] ug_step_received [OF gi g(1) lx] su_reports_mtu [OF g(2)] ug_step_mtu [OF g(1) lx] show ?thesis by auto
qed

end
