(* ===== verification/Tun2socks_Device.thy ===== *)
theory Tun2socks_Device
  imports IP_Packets Socks_UdpGw
begin

text \<open>
  The device side of \<open>tun2socks/tun2socks.c\<close>: packets read from the TUN device are either UDP
  packets for the udpgw client or go to lwIP; packets from the udpgw and from lwIP are written to the
  device.  \<open>device_conf\<close> collects the globals these functions read: which options are set, the address
  of the virtual interface, the UDP and device MTUs.

  The functions are written on the bytes of the packets.  What is shown: the parser accepts any input
  without reading outside it, a packet built for the device is what the parser inverts, with the
  addresses exchanged, and a chain of lwIP buffers leaves as one packet or not at all.
\<close>

record device_conf =
  dv_udpgw :: bool
  dv_ip6 :: bool
  dv_transparent_dns :: bool
  dv_netif_ipaddr :: "32 word"
  dv_udp_mtu :: int
  dv_mtu :: int

section \<open>Packets from the device\<close>

definition baddr_from_lwip :: "bool \<Rightarrow> bytes \<Rightarrow> 16 word \<Rightarrow> BAddr" where
  "baddr_from_lwip is_ipv6 ipx_addr port_hostorder =
     (if is_ipv6 then BAddr_InitIPv6 (take 16 ipx_addr) (hton16 port_hostorder)
      else BAddr_InitIPv4 (le32_of (take 4 ipx_addr)) (hton16 port_hostorder))"

text \<open>The part of \<open>process_device_udp_packet\<close> up to the submission: local address, remote address,
  the DNS flag and the payload, or \<open>None\<close> for a jump to \<open>fail\<close>.\<close>

definition parse_udp4 :: "device_conf \<Rightarrow> bytes \<Rightarrow> (BAddr \<times> BAddr \<times> bool \<times> bytes) option option" where
  "parse_udp4 cf data =
     (if length data < 20 \<or> data ! 9 \<noteq> IPV4_PROTOCOL_UDP then Some None
      else do {
        r \<leftarrow> ipv4_check data;
        case r of None \<Rightarrow> Some None | Some (ip, data) \<Rightarrow> do {
          r \<leftarrow> udp_check data;
          case r of None \<Rightarrow> Some None | Some (udp, data) \<Rightarrow> do {
            let checksum_in_packet = udp_hdr_checksum udp;
            let udp = udp\<lparr>udp_hdr_checksum := 0\<rparr>;
            checksum_computed \<leftarrow> udp_checksum udp data (word_of_int (int (length data))) (ip4_source_address ip) (ip4_destination_address ip);
            if checksum_in_packet \<noteq> checksum_computed then Some None
            else Some (Some (BAddr_InitIPv4 (ip4_source_address ip) (udp_source_port udp),
              BAddr_InitIPv4 (ip4_destination_address ip) (udp_dest_port udp),
              dv_transparent_dns cf \<and> ip4_destination_address ip = dv_netif_ipaddr cf \<and> udp_dest_port udp = hton16 53, data))
          }
        }
      })"

definition parse_udp6 :: "device_conf \<Rightarrow> bytes \<Rightarrow> (BAddr \<times> BAddr \<times> bool \<times> bytes) option option" where
  "parse_udp6 cf data =
     (if \<not> dv_ip6 cf then Some None
      else if length data < 40 \<or> data ! 6 \<noteq> IPV6_NEXT_UDP then Some None
      else do {
        r \<leftarrow> ipv6_check data;
        case r of None \<Rightarrow> Some None | Some (ip, data) \<Rightarrow> do {
          r \<leftarrow> udp_check data;
          case r of None \<Rightarrow> Some None | Some (udp, data) \<Rightarrow> do {
            let checksum_in_packet = udp_hdr_checksum udp;
            let udp = udp\<lparr>udp_hdr_checksum := 0\<rparr>;
            checksum_computed \<leftarrow> udp_ip6_checksum udp data (word_of_int (int (length data))) (ip6_source_address ip) (ip6_destination_address ip);
            if checksum_in_packet \<noteq> checksum_computed then Some None
            else Some (Some (BAddr_InitIPv6 (ip6_source_address ip) (udp_source_port udp),
              BAddr_InitIPv6 (ip6_destination_address ip) (udp_dest_port udp), False, data))
          }
        }
      })"

definition ip_version_of :: "bytes \<Rightarrow> byte" where
  "ip_version_of data = (case data of [] \<Rightarrow> 0 | b # _ \<Rightarrow> drop_bit 4 b)"

definition parse_device_udp_packet :: "device_conf \<Rightarrow> bytes \<Rightarrow> (BAddr \<times> BAddr \<times> bool \<times> bytes) option option" where
  "parse_device_udp_packet cf data =
     (if \<not> dv_udpgw cf then Some None
      else do {
        let ip_version = ip_version_of data;
        r \<leftarrow> (if ip_version = 4 then parse_udp4 cf data else if ip_version = 6 then parse_udp6 cf data else Some None);
        case r of None \<Rightarrow> Some None
        | Some (l, m, dns, d) \<Rightarrow> if int (length d) > dv_udp_mtu cf then Some None else Some (Some (l, m, dns, d))
      })"

definition process_device_udp_packet ::
  "device_conf \<Rightarrow> ptr option \<Rightarrow> bool \<Rightarrow> bytes \<Rightarrow> SocksUdpGwClient \<Rightarrow> (bool \<times> ug_action list \<times> SocksUdpGwClient) option" where
  "process_device_udp_packet cf malloc flow_ok data w = do {
     r \<leftarrow> parse_device_udp_packet cf data;
     case r of None \<Rightarrow> Some (False, [], w)
     | Some (l, m, dns, d) \<Rightarrow> do {
         (acts, w) \<leftarrow> SocksUdpGwClient_SubmitPacket malloc flow_ok l m dns d w;
         Some (True, acts, w)
       }
   }"

text \<open>What the handler of the device reader does with a packet, in order.\<close>

datatype dev_action =
    DevReadDone
  | DevUdpGw "ug_action list"
  | DevPbufFree
  | DevIpInput bytes
  | DevIp6Input bytes
  | DevWrite bytes

definition netif_input_func :: "device_conf \<Rightarrow> bytes \<Rightarrow> dev_action" where
  "netif_input_func cf p =
     (if ip_version_of p = 4 then DevIpInput p
      else if ip_version_of p = 6 \<and> dv_ip6 cf then DevIp6Input p
      else DevPbufFree)"

text \<open>\<open>pbuf_ok\<close>: \<open>pbuf_alloc\<close> gets memory; \<open>input_ok\<close>: \<open>ip_input\<close> and \<open>ip6_input\<close> return \<open>ERR_OK\<close>.\<close>

definition device_read_handler_send ::
  "device_conf \<Rightarrow> bool \<Rightarrow> ptr option \<Rightarrow> bool \<Rightarrow> bool \<Rightarrow> bool \<Rightarrow> bytes \<Rightarrow> SocksUdpGwClient \<Rightarrow> (dev_action list \<times> SocksUdpGwClient) option" where
  "device_read_handler_send cf quitting malloc flow_ok pbuf_ok input_ok data w = do {
     ASSERT (\<not> quitting);
     (handled, acts, w) \<leftarrow> process_device_udp_packet cf malloc flow_ok data w;
     if handled then Some ([DevReadDone, DevUdpGw acts], w)
     else if int (length data) > 65535 then Some ([DevReadDone], w)
     else if \<not> pbuf_ok then Some ([DevReadDone], w)
     else Some (let a = netif_input_func cf data in
       if a \<noteq> DevPbufFree \<and> \<not> input_ok then ([DevReadDone, a, DevPbufFree], w) else ([DevReadDone, a], w))
   }"

section \<open>Packets to the device\<close>

definition BTap_Send :: "device_conf \<Rightarrow> bytes \<Rightarrow> int \<Rightarrow> dev_action option" where
  "BTap_Send cf buf n = do {
     ASSERT (n \<ge> 0);
     ASSERT (n \<le> dv_mtu cf);
     d \<leftarrow> mem_read buf 0 n;
     Some (DevWrite d)
   }"

text \<open>The loop of \<open>common_netif_output\<close> over a chain of lwIP buffers.\<close>

fun copy_chain :: "device_conf \<Rightarrow> bytes list \<Rightarrow> int \<Rightarrow> bytes \<Rightarrow> (bool \<times> int \<times> bytes) option" where
  "copy_chain cf [] len buf = Some (True, len, buf)"
| "copy_chain cf (p # ps) len buf =
     (if int (length p) > dv_mtu cf - len then Some (False, len, buf)
      else do {
        buf \<leftarrow> mem_write buf len p;
        copy_chain cf ps (len + int (length p)) buf
      })"

definition common_netif_output :: "device_conf \<Rightarrow> bool \<Rightarrow> bytes list \<Rightarrow> bytes \<Rightarrow> (dev_action list \<times> bytes) option" where
  "common_netif_output cf quitting chain device_write_buf =
     (if quitting then Some ([], device_write_buf)
      else case chain of
        [] \<Rightarrow> None
      | [p] \<Rightarrow> if int (length p) > dv_mtu cf then Some ([], device_write_buf)
          else do { a \<leftarrow> BTap_Send cf p (int (length p)); Some ([a], device_write_buf) }
      | _ \<Rightarrow> do {
          (fits, len, buf) \<leftarrow> copy_chain cf chain 0 device_write_buf;
          if \<not> fits then Some ([], buf)
          else do { a \<leftarrow> BTap_Send cf buf len; Some ([a], buf) }
        })"

definition build_ipv4_header :: "32 word \<Rightarrow> 32 word \<Rightarrow> int \<Rightarrow> ipv4_header option" where
  "build_ipv4_header source dest data_len = do {
     let iph = \<lparr>ip4_version4_ihl4 = 0x45, ip4_ds = 0, ip4_total_length = hton16 (word_of_int (20 + 8 + data_len)),
       ip4_identification = hton16 0, ip4_flags3_fragmentoffset13 = hton16 0, ip4_ttl = 64, ip4_protocol = IPV4_PROTOCOL_UDP,
       ip4_checksum = hton16 0, ip4_source_address = source, ip4_destination_address = dest\<rparr>;
     c \<leftarrow> ipv4_checksum iph [] 0;
     Some (iph\<lparr>ip4_checksum := c\<rparr>)
   }"

definition build_ipv6_header :: "bytes \<Rightarrow> bytes \<Rightarrow> int \<Rightarrow> ipv6_header" where
  "build_ipv6_header source dest data_len = \<lparr>ip6_version4_tc4 = push_bit 4 6, ip6_tc4_fl4 = 0, ip6_fl = hton16 0,
     ip6_payload_length = hton16 (word_of_int (8 + data_len)), ip6_next_header = IPV6_NEXT_UDP, ip6_hop_limit = 64,
     ip6_source_address = source, ip6_destination_address = dest\<rparr>"

definition build_udp_header :: "16 word \<Rightarrow> 16 word \<Rightarrow> int \<Rightarrow> udp_header" where
  "build_udp_header source dest data_len = \<lparr>udp_source_port = source, udp_dest_port = dest,
     udp_length = hton16 (word_of_int (8 + data_len)), udp_hdr_checksum = hton16 0\<rparr>"

definition write_packet :: "bytes \<Rightarrow> bytes \<Rightarrow> bytes \<Rightarrow> bytes \<Rightarrow> bytes option" where
  "write_packet iph udph data buf = do {
     buf \<leftarrow> mem_write buf 0 iph;
     buf \<leftarrow> mem_write buf (int (length iph)) udph;
     mem_write buf (int (length iph) + int (length udph)) data
   }"

definition udpgw_client_handler_received ::
  "device_conf \<Rightarrow> BAddr \<Rightarrow> BAddr \<Rightarrow> bytes \<Rightarrow> bytes \<Rightarrow> (dev_action list \<times> bytes) option" where
  "udpgw_client_handler_received cf laddr raddr data device_write_buf = do {
     ASSERT (dv_udpgw cf);
     let data_len = int (length data);
     case (laddr, raddr) of
       (BADDR_TYPE_IPV4 lip lport, BADDR_TYPE_IPV4 rip rport) \<Rightarrow>
         if data_len > 65535 - 28 \<or> data_len > dv_mtu cf - 28 then Some ([], device_write_buf)
         else do {
           iph \<leftarrow> build_ipv4_header rip lip data_len;
           let udph = build_udp_header rport lport data_len;
           c \<leftarrow> udp_checksum udph data (word_of_int data_len) rip lip;
           buf \<leftarrow> write_packet (ipv4_header_bytes iph) (udp_header_bytes (udph\<lparr>udp_hdr_checksum := c\<rparr>)) data device_write_buf;
           a \<leftarrow> BTap_Send cf buf (20 + 8 + data_len);
           Some ([a], buf)
         }
     | (BADDR_TYPE_IPV6 lip lport, BADDR_TYPE_IPV6 rip rport) \<Rightarrow>
         if \<not> dv_ip6 cf then Some ([], device_write_buf)
         else if data_len > 65535 - 8 \<or> data_len > dv_mtu cf - 48 then Some ([], device_write_buf)
         else do {
           let iph = build_ipv6_header rip lip data_len;
           let udph = build_udp_header rport lport data_len;
           c \<leftarrow> udp_ip6_checksum udph data (word_of_int data_len) rip lip;
           buf \<leftarrow> write_packet (ipv6_header_bytes iph) (udp_header_bytes (udph\<lparr>udp_hdr_checksum := c\<rparr>)) data device_write_buf;
           a \<leftarrow> BTap_Send cf buf (40 + 8 + data_len);
           Some ([a], buf)
         }
     | _ \<Rightarrow> None
   }"

section \<open>Chains of lwIP buffers\<close>

lemma copy_chain_ok:
  assumes "0 \<le> len" "int (length buf) = dv_mtu cf" "len \<le> dv_mtu cf"
  shows "\<exists>fits n buf'. copy_chain cf ps len buf = Some (fits, n, buf') \<and> length buf' = length buf \<and>
    (fits \<longleftrightarrow> len + int (length (concat ps)) \<le> dv_mtu cf) \<and>
    (fits \<longrightarrow> n = len + int (length (concat ps)) \<and> mem_read buf' 0 n = Some (take (nat len) buf @ concat ps))"
  using assms
proof (induction ps arbitrary: len buf)
  case Nil
  then show ?case by (auto simp: mem_read_def)
next
  case (Cons p ps)
  show ?case
  proof (cases "int (length p) > dv_mtu cf - len")
    case True
    then show ?thesis by auto
  next
    case False
    let ?b = "take (nat len) buf @ p @ drop (nat len + length p) buf"
    have w: "mem_write buf len p = Some ?b" using False Cons.prems by (simp add: mem_write_def)
    have l: "length ?b = length buf" using mem_write_length [OF w] .
    have "take (nat (len + int (length p))) ?b = take (nat len) buf @ p"
      using Cons.prems False by (simp add: nat_add_distrib)
    moreover from Cons.IH [of "len + int (length p)" ?b] obtain fits n buf' where
      "copy_chain cf ps (len + int (length p)) ?b = Some (fits, n, buf')" "length buf' = length ?b"
      "fits \<longleftrightarrow> len + int (length p) + int (length (concat ps)) \<le> dv_mtu cf"
      "fits \<longrightarrow> n = len + int (length p) + int (length (concat ps)) \<and>
        mem_read buf' 0 n = Some (take (nat (len + int (length p))) ?b @ concat ps)"
      using Cons.prems False l by auto
    ultimately show ?thesis using w l False by auto
  qed
qed

text \<open>A packet of lwIP leaves in one piece, whether it is one buffer or a chain, and not at all when
  it is larger than the device allows or the program is quitting.\<close>

lemma common_netif_output_ok:
  assumes "chain \<noteq> []" "int (length buf) = dv_mtu cf" 
  shows "\<exists>buf'. common_netif_output cf quitting chain buf =
    Some (if \<not> quitting \<and> int (length (concat chain)) \<le> dv_mtu cf then [DevWrite (concat chain)] else [], buf') \<and>
    length buf' = length buf"
proof (cases quitting)
  case True
  then show ?thesis by (simp add: common_netif_output_def)
next
  case False
  show ?thesis
  proof (cases "\<exists>p. chain = [p]")
    case True
    then show ?thesis using False
      by (auto simp: common_netif_output_def BTap_Send_def mem_read_def)
  next
    case many: False
    then obtain p q ps where c: "chain = p # q # ps" using assms(1) by (metis list.exhaust)
    from copy_chain_ok [of 0 buf cf chain] assms obtain fits n buf' where
      h: "copy_chain cf chain 0 buf = Some (fits, n, buf')" "length buf' = length buf"
        "fits \<longleftrightarrow> int (length (concat chain)) \<le> dv_mtu cf"
        "fits \<longrightarrow> n = int (length (concat chain)) \<and> mem_read buf' 0 n = Some (concat chain)" by auto
    have "common_netif_output cf quitting chain buf = do {
        (fits, len, buf) \<leftarrow> copy_chain cf chain 0 buf;
        if \<not> fits then Some ([], buf) else do { a \<leftarrow> BTap_Send cf buf len; Some ([a], buf) } }"
      using False c by (simp add: common_netif_output_def)
    with h False show ?thesis by (auto simp: BTap_Send_def)
  qed
qed

section \<open>Any packet from the device\<close>

lemma mem_read_bound: "mem_read b off n = Some d \<Longrightarrow> int (length d) = n \<and> off + n \<le> int (length b) \<and> 0 \<le> off \<and> 0 \<le> n"
  by (auto simp: mem_read_def split: if_splits)

lemma uint_16_bound: "uint (w :: 16 word) \<le> 65535"
  using unsigned_less [where ?'a = int, of w] by simp

lemma udp_check_payload:
  assumes "udp_check data = Some (Some (h, d))"
  shows "length d \<le> 65535" and "length d \<le> length data"
  using assms uint_16_bound [of "hton16 (udp_length h)"]
  by (auto simp: udp_check_def Let_def split: if_splits Option.bind_splits dest!: mem_read_bound)

lemma ipv4_check_payload: "ipv4_check data = Some (Some (h, d)) \<Longrightarrow> length d \<le> length data"
  by (auto simp: ipv4_check_def Let_def split: if_splits Option.bind_splits dest!: mem_read_bound)

lemma ipv6_check_payload:
  assumes "ipv6_check data = Some (Some (h, d))"
  shows "length d \<le> length data" and "length (ip6_source_address h) = 16" and "length (ip6_destination_address h) = 16"
  using assms
  by (auto simp: ipv6_check_def Let_def ipv6_header_of_def split: if_splits Option.bind_splits dest!: mem_read_bound)

lemma unat_length_16: "length d \<le> 65535 \<Longrightarrow> unat (word_of_int (int (length d)) :: 16 word) = length d"
  using unat_of_nat_16 [of "length d"] by simp

lemma udp_check_cases:
  obtains "udp_check data = Some None" | h d where "udp_check data = Some (Some (h, d))" "length d \<le> 65535" "length d \<le> length data"
  using udp_check_total [of data] udp_check_payload [of data] by (cases "udp_check data"; cases "the (udp_check data)") auto

text \<open>The shape of an answer of the two parsers.\<close>

definition udp4_answer :: "device_conf \<Rightarrow> bytes \<Rightarrow> (BAddr \<times> BAddr \<times> bool \<times> bytes) option \<Rightarrow> bool" where
  "udp4_answer cf data r \<longleftrightarrow> (case r of None \<Rightarrow> True | Some (l, m, dns, d) \<Rightarrow>
     (\<exists>lip lp rip rp. l = BADDR_TYPE_IPV4 lip lp \<and> m = BADDR_TYPE_IPV4 rip rp \<and> length d \<le> length data \<and>
        dns = (dv_transparent_dns cf \<and> rip = dv_netif_ipaddr cf \<and> rp = hton16 53)))"

definition udp6_answer :: "bytes \<Rightarrow> (BAddr \<times> BAddr \<times> bool \<times> bytes) option \<Rightarrow> bool" where
  "udp6_answer data r \<longleftrightarrow> (case r of None \<Rightarrow> True | Some (l, m, dns, d) \<Rightarrow>
     (\<exists>lip lp rip rp. l = BADDR_TYPE_IPV6 lip lp \<and> m = BADDR_TYPE_IPV6 rip rp \<and> length lip = 16 \<and> length rip = 16 \<and>
        length d \<le> length data \<and> \<not> dns))"

lemma parse_udp4_total: "\<exists>r. parse_udp4 cf data = Some r \<and> udp4_answer cf data r"
proof (cases "length data < 20 \<or> data ! 9 \<noteq> IPV4_PROTOCOL_UDP")
  case True
  then show ?thesis by (simp add: parse_udp4_def udp4_answer_def)
next
  case False
  obtain r where r: "ipv4_check data = Some r" using ipv4_check_total [of data] by blast
  show ?thesis
  proof (cases r)
    case None
    with False r show ?thesis by (simp add: parse_udp4_def udp4_answer_def)
  next
    case (Some x)
    obtain ip d where x: "x = (ip, d)" by (cases x)
    have l: "length d \<le> length data" using ipv4_check_payload r Some x by blast
    show ?thesis
    proof (cases rule: udp_check_cases [of d])
      case 1
      with False r Some x show ?thesis by (simp add: parse_udp4_def udp4_answer_def)
    next
      case (2 h e)
      let ?h = "h\<lparr>udp_hdr_checksum := 0\<rparr>"
      from udp_checksum_value [of "word_of_int (int (length e))" e ?h "ip4_source_address ip" "ip4_destination_address ip"]
        unat_length_16 [OF 2(2)] obtain c where
        c: "udp_checksum ?h e (word_of_int (int (length e))) (ip4_source_address ip) (ip4_destination_address ip) = Some c" by auto
      with False r Some x 2 l show ?thesis
        by (cases "udp_hdr_checksum h = c")
          (simp_all add: parse_udp4_def udp4_answer_def BAddr_InitIPv4_def)
    qed
  qed
qed

lemma parse_udp6_total: "\<exists>r. parse_udp6 cf data = Some r \<and> udp6_answer data r"
proof (cases "\<not> dv_ip6 cf \<or> length data < 40 \<or> data ! 6 \<noteq> IPV6_NEXT_UDP")
  case True
  then show ?thesis by (auto simp: parse_udp6_def udp6_answer_def)
next
  case False
  obtain r where r: "ipv6_check data = Some r" using ipv6_check_total [of data] by blast
  show ?thesis
  proof (cases r)
    case None
    with False r show ?thesis by (simp add: parse_udp6_def udp6_answer_def)
  next
    case (Some x)
    obtain ip d where x: "x = (ip, d)" by (cases x)
    have l: "length d \<le> length data" "length (ip6_source_address ip) = 16" "length (ip6_destination_address ip) = 16"
      using ipv6_check_payload r Some x by blast+
    show ?thesis
    proof (cases rule: udp_check_cases [of d])
      case 1
      with False r Some x show ?thesis by (simp add: parse_udp6_def udp6_answer_def)
    next
      case (2 h e)
      let ?h = "h\<lparr>udp_hdr_checksum := 0\<rparr>"
      from udp_ip6_checksum_value [of "word_of_int (int (length e))" e "ip6_source_address ip" "ip6_destination_address ip" ?h]
        unat_length_16 [OF 2(2)] l obtain c where
        c: "udp_ip6_checksum ?h e (word_of_int (int (length e))) (ip6_source_address ip) (ip6_destination_address ip) = Some c" by auto
      with False r Some x 2 l show ?thesis
        by (cases "udp_hdr_checksum h = c")
          (simp_all add: parse_udp6_def udp6_answer_def BAddr_InitIPv6_def)
    qed
  qed
qed

text \<open>Whatever the device delivers is parsed without a fault, and what is accepted has two addresses
  of one family and a payload that fits.\<close>

lemma parse_total:
  "\<exists>r. parse_device_udp_packet cf data = Some r \<and> (case r of None \<Rightarrow> True | Some (l, m, dns, d) \<Rightarrow>
     conaddr_wf \<lparr>local_addr = l, remote_addr = m\<rparr> \<and> int (length d) \<le> dv_udp_mtu cf \<and> length d \<le> length data \<and>
     dns = (dv_transparent_dns cf \<and> m = BADDR_TYPE_IPV4 (dv_netif_ipaddr cf) (hton16 53)))"
proof -
  from parse_udp4_total [of cf data] obtain r4 where r4: "parse_udp4 cf data = Some r4" "udp4_answer cf data r4" by blast
  from parse_udp6_total [of cf data] obtain r6 where r6: "parse_udp6 cf data = Some r6" "udp6_answer data r6" by blast
  consider "\<not> dv_udpgw cf" | "dv_udpgw cf" "ip_version_of data = 4" | "dv_udpgw cf" "ip_version_of data = 6"
    | "dv_udpgw cf" "ip_version_of data \<noteq> 4" "ip_version_of data \<noteq> 6" by blast
  then show ?thesis
  proof cases
    case 2
    with r4 show ?thesis
      by (cases r4) (auto simp: parse_device_udp_packet_def udp4_answer_def conaddr_wf_def)
  next
    case 3
    with r6 show ?thesis
      by (cases r6) (auto simp: parse_device_udp_packet_def udp6_answer_def conaddr_wf_def)
  qed (simp_all add: parse_device_udp_packet_def)
qed

lemma process_ok:
  assumes i: "su_inv w" and m: "dv_udp_mtu cf \<le> ug_udp_mtu (su_udpgw_client w)"
    and fresh: "\<And>p. malloc = Some p \<Longrightarrow> p \<notin> set (fq_flows_list (ug_send_queue (su_udpgw_client w)))"
  shows "\<exists>handled acts w'. process_device_udp_packet cf malloc flow_ok data w = Some (handled, acts, w') \<and> su_inv w'"
proof -
  from parse_total [of cf data] obtain r where r: "parse_device_udp_packet cf data = Some r"
    "case r of None \<Rightarrow> True | Some (l, m, dns, d) \<Rightarrow> conaddr_wf \<lparr>local_addr = l, remote_addr = m\<rparr> \<and> int (length d) \<le> dv_udp_mtu cf"
    by (auto split: option.splits)
  show ?thesis
  proof (cases r)
    case None
    with r i show ?thesis by (auto simp: process_device_udp_packet_def)
  next
    case (Some x)
    obtain l k dns d where x: "x = (l, k, dns, d)" by (cases x)
    have "conaddr_wf \<lparr>local_addr = l, remote_addr = k\<rparr>" "int (length d) \<le> ug_udp_mtu (su_udpgw_client w)"
      using r(2) Some x m by auto
    from SocksUdpGwClient_SubmitPacket_ok [OF i this, of malloc flow_ok dns] fresh r(1) Some x show ?thesis
      by (auto simp: process_device_udp_packet_def)
  qed
qed

lemma device_read_ok:
  assumes i: "su_inv w" and m: "dv_udp_mtu cf \<le> ug_udp_mtu (su_udpgw_client w)"
    and fresh: "\<And>p. malloc = Some p \<Longrightarrow> p \<notin> set (fq_flows_list (ug_send_queue (su_udpgw_client w)))"
  shows "\<exists>acts w'. device_read_handler_send cf False malloc flow_ok pbuf_ok input_ok data w = Some (DevReadDone # acts, w') \<and>
    su_inv w' \<and> (length acts \<le> 2)"
proof -
  from process_ok [OF i m, of malloc flow_ok data] fresh obtain h acts w' where
    h: "process_device_udp_packet cf malloc flow_ok data w = Some (h, acts, w')" "su_inv w'" by blast
  then show ?thesis
    by (cases h; cases "int (length data) > 65535"; cases pbuf_ok) (simp_all add: device_read_handler_send_def Let_def)
qed

section \<open>Packets built for the device\<close>

lemma write_packet_ok:
  assumes "length a + length b + length d \<le> length buf"
  shows "\<exists>buf'. write_packet a b d buf = Some buf' \<and> length buf' = length buf \<and>
    mem_read buf' 0 (int (length a) + int (length b) + int (length d)) = Some (a @ b @ d)"
proof -
  let ?b1 = "a @ drop (length a) buf"
  let ?b2 = "a @ b @ drop (length a + length b) buf"
  let ?b3 = "a @ b @ d @ drop (length a + length b + length d) buf"
  have w1: "mem_write buf 0 a = Some ?b1" using assms by (simp add: mem_write_def)
  have w2: "mem_write ?b1 (int (length a)) b = Some ?b2" using assms by (simp add: mem_write_def add.commute)
  have w3: "mem_write ?b2 (int (length a) + int (length b)) d = Some ?b3"
    using assms by (simp add: mem_write_def nat_add_distrib add.commute add.left_commute)
  have "write_packet a b d buf = Some ?b3"
    unfolding write_packet_def w1 Option.bind.bind_lunit w2 using w3 by simp
  moreover have "nat (int (length a) + int (length b) + int (length d)) = length (a @ b @ d)" by simp
  then have "mem_read ?b3 0 (int (length a) + int (length b) + int (length d)) = Some (a @ b @ d)"
    using assms by (simp add: mem_read_def)
  moreover have "length ?b3 = length buf" using assms by simp
  ultimately show ?thesis by blast
qed

lemma ipv4_checksum_no_extra: "ipv4_checksum h extra 0 = ipv4_checksum h [] 0"
  by (simp add: ipv4_checksum_def)

lemma uint_hton16: "0 \<le> n \<Longrightarrow> n \<le> 65535 \<Longrightarrow> uint (hton16 (hton16 (word_of_int n))) = n"
  by (simp add: uint_word_of_int)

lemma built_ipv4_checked:
  assumes "build_ipv4_header s t (int (length d)) = Some iph" and "length u = 8" and "length d \<le> 65507"
  shows "ipv4_check (ipv4_header_bytes iph @ u @ d) = Some (Some (iph, u @ d))"
proof -
  let ?i = "\<lparr>ip4_version4_ihl4 = 0x45, ip4_ds = 0, ip4_total_length = hton16 (word_of_int (20 + 8 + int (length d))),
       ip4_identification = hton16 0, ip4_flags3_fragmentoffset13 = hton16 0, ip4_ttl = 64, ip4_protocol = IPV4_PROTOCOL_UDP,
       ip4_checksum = hton16 0, ip4_source_address = s, ip4_destination_address = t\<rparr>"
  from assms(1) obtain c where c: "ipv4_checksum ?i [] 0 = Some c" "iph = ?i\<lparr>ip4_checksum := c\<rparr>"
    by (auto simp: build_ipv4_header_def Let_def split: Option.bind_splits)
  have v: "drop_bit 4 (ip4_version4_ihl4 iph) AND 15 = 4" "uint (ip4_version4_ihl4 iph AND 0x0F) * 4 = 20"
    unfolding c(2) by simp_all
  have tl: "uint (hton16 (ip4_total_length iph)) = 28 + int (length d)"
    using uint_hton16 [of "28 + int (length d)"] assms(3) unfolding c(2) by simp
  have ck: "ipv4_checksum (iph\<lparr>ip4_checksum := hton16 0\<rparr>) (u @ d) 0 = Some (ip4_checksum iph)"
    using c ipv4_checksum_no_extra [of ?i "u @ d"] by simp
  show ?thesis using assms(2)
    by (simp add: ipv4_check_def v tl ck mem_read_def Let_def)
qed

lemma built_ipv6_checked:
  assumes "length s = 16" "length t = 16" and "length u = 8" and "length d \<le> 65527"
  shows "ipv6_check (ipv6_header_bytes (build_ipv6_header s t (int (length d))) @ u @ d) =
    Some (Some (build_ipv6_header s t (int (length d)), u @ d))"
proof -
  let ?h = "build_ipv6_header s t (int (length d))"
  have pl: "uint (hton16 (ip6_payload_length ?h)) = 8 + int (length d)"
    using uint_hton16 [of "8 + int (length d)"] assms(4) by (simp add: build_ipv6_header_def)
  have l: "length (ipv6_header_bytes ?h) = 40" using assms by (simp add: build_ipv6_header_def ipv6_header_bytes_def)
  have of: "ipv6_header_of (ipv6_header_bytes ?h @ u @ d) = ?h"
    by (rule ipv6_header_of_bytes) (simp_all add: build_ipv6_header_def assms)
  have v: "drop_bit 4 (ip6_version4_tc4 ?h) = 6" by (simp add: build_ipv6_header_def)
  show ?thesis using assms(3) by (simp add: ipv6_check_def Let_def of l pl v mem_read_def)
qed

lemma built_udp_checked:
  assumes "length d \<le> 65527"
  shows "udp_check (udp_header_bytes ((build_udp_header s t (int (length d)))\<lparr>udp_hdr_checksum := c\<rparr>) @ d) =
    Some (Some ((build_udp_header s t (int (length d)))\<lparr>udp_hdr_checksum := c\<rparr>, d))"
proof -
  let ?h = "(build_udp_header s t (int (length d)))\<lparr>udp_hdr_checksum := c\<rparr>"
  have "uint (hton16 (udp_length ?h)) = 8 + int (length d)"
    using uint_hton16 [of "8 + int (length d)"] assms by (simp add: build_udp_header_def)
  then show ?thesis by (simp add: udp_check_def mem_read_def)
qed

text \<open>The packet that is written to the device for data from the udpgw is accepted by the parser,
  with the roles of the two addresses exchanged.\<close>

lemma udpgw_to_device_ipv4:
  assumes u: "dv_udpgw cf" and b: "int (length buf) = dv_mtu cf" and f: "int (length data) \<le> dv_mtu cf - 28" "length data \<le> 65507"
  shows "\<exists>pkt buf'. udpgw_client_handler_received cf (BADDR_TYPE_IPV4 lip lport) (BADDR_TYPE_IPV4 rip rport) data buf =
      Some ([DevWrite pkt], buf') \<and> length buf' = length buf \<and> length pkt = 28 + length data \<and>
    (int (length data) \<le> dv_udp_mtu cf \<longrightarrow> parse_device_udp_packet cf pkt =
      Some (Some (BADDR_TYPE_IPV4 rip rport, BADDR_TYPE_IPV4 lip lport,
        dv_transparent_dns cf \<and> lip = dv_netif_ipaddr cf \<and> lport = hton16 53, data)))"
proof -
  let ?n = "int (length data)"
  let ?u = "build_udp_header rport lport ?n"
  have "\<exists>c. ipv4_checksum h [] 0 = Some c" for h using ipv4_checksum_sum [of 0 "[]" h] by auto
  then have "build_ipv4_header rip lip ?n \<noteq> None"
    by (simp add: build_ipv4_header_def Let_def split: Option.bind_splits)
  then obtain iph where iph: "build_ipv4_header rip lip ?n = Some iph" by blast
  have if1: "ip4_source_address iph = rip" "ip4_destination_address iph = lip" "ip4_protocol iph = IPV4_PROTOCOL_UDP" "ip4_version4_ihl4 iph = 0x45"
    using iph by (auto simp: build_ipv4_header_def Let_def split: Option.bind_splits)
  from udp_checksum_value [of "word_of_int ?n" data ?u rip lip] unat_length_16 [of data] f obtain c where
    c: "udp_checksum ?u data (word_of_int ?n) rip lip = Some c" by auto
  let ?h = "?u\<lparr>udp_hdr_checksum := c\<rparr>"
  let ?pkt = "ipv4_header_bytes iph @ udp_header_bytes ?h @ data"
  from write_packet_ok [of "ipv4_header_bytes iph" "udp_header_bytes ?h" data buf] b f obtain buf' where
    w: "write_packet (ipv4_header_bytes iph) (udp_header_bytes ?h) data buf = Some buf'" "length buf' = length buf"
      "mem_read buf' 0 (28 + ?n) = Some ?pkt" by auto
  have "udpgw_client_handler_received cf (BADDR_TYPE_IPV4 lip lport) (BADDR_TYPE_IPV4 rip rport) data buf = Some ([DevWrite ?pkt], buf')"
    using u f iph c w by (simp add: udpgw_client_handler_received_def BTap_Send_def Let_def)
  moreover have "parse_udp4 cf ?pkt = Some (Some (BADDR_TYPE_IPV4 rip rport, BADDR_TYPE_IPV4 lip lport,
      dv_transparent_dns cf \<and> lip = dv_netif_ipaddr cf \<and> lport = hton16 53, data))"
  proof -
    have p: "?pkt ! 9 = IPV4_PROTOCOL_UDP" using if1(3) by (simp add: nth_append ipv4_header_bytes_def)
    have z: "?h\<lparr>udp_hdr_checksum := 0\<rparr> = ?u" by (simp add: build_udp_header_def hton16_def)
    have d: "udp_check (udp_header_bytes ?h @ data) = Some (Some (?h, data))"
      by (rule built_udp_checked) (use f in simp)
    have i: "ipv4_check ?pkt = Some (Some (iph, udp_header_bytes ?h @ data))"
      by (rule built_ipv4_checked [OF iph]) (use f in simp_all)
    show ?thesis unfolding parse_udp4_def i
      using p c if1 d z by (simp add: BAddr_InitIPv4_def build_udp_header_def)
  qed
  moreover have "ip_version_of ?pkt = 4" using if1(4) by (simp add: ip_version_of_def ipv4_header_bytes_def)
  ultimately show ?thesis using u
    by (intro exI [of _ ?pkt] exI [of _ buf']) (simp add: parse_device_udp_packet_def w)
qed

lemma udpgw_to_device_ipv6:
  assumes u: "dv_udpgw cf" "dv_ip6 cf" and b: "int (length buf) = dv_mtu cf" and f: "int (length data) \<le> dv_mtu cf - 48" "length data \<le> 65527"
    and a: "length lip = 16" "length rip = 16"
  shows "\<exists>pkt buf'. udpgw_client_handler_received cf (BADDR_TYPE_IPV6 lip lport) (BADDR_TYPE_IPV6 rip rport) data buf =
      Some ([DevWrite pkt], buf') \<and> length buf' = length buf \<and> length pkt = 48 + length data \<and>
    (int (length data) \<le> dv_udp_mtu cf \<longrightarrow> parse_device_udp_packet cf pkt =
      Some (Some (BADDR_TYPE_IPV6 rip rport, BADDR_TYPE_IPV6 lip lport, False, data)))"
proof -
  let ?n = "int (length data)"
  let ?u = "build_udp_header rport lport ?n" and ?i = "build_ipv6_header rip lip ?n"
  have if1: "ip6_source_address ?i = rip" "ip6_destination_address ?i = lip" by (simp_all add: build_ipv6_header_def)
  have li: "length (ipv6_header_bytes ?i) = 40" using a by (simp add: build_ipv6_header_def ipv6_header_bytes_def)
  from udp_ip6_checksum_value [of "word_of_int ?n" data rip lip ?u] unat_length_16 [of data] f a obtain c where
    c: "udp_ip6_checksum ?u data (word_of_int ?n) rip lip = Some c" by auto
  let ?h = "?u\<lparr>udp_hdr_checksum := c\<rparr>"
  let ?pkt = "ipv6_header_bytes ?i @ udp_header_bytes ?h @ data"
  from write_packet_ok [of "ipv6_header_bytes ?i" "udp_header_bytes ?h" data buf] b f li obtain buf' where
    w: "write_packet (ipv6_header_bytes ?i) (udp_header_bytes ?h) data buf = Some buf'" "length buf' = length buf"
      "mem_read buf' 0 (48 + ?n) = Some ?pkt" by auto
  have "udpgw_client_handler_received cf (BADDR_TYPE_IPV6 lip lport) (BADDR_TYPE_IPV6 rip rport) data buf = Some ([DevWrite ?pkt], buf')"
    using u f c w by (simp add: udpgw_client_handler_received_def BTap_Send_def Let_def)
  moreover have "parse_udp6 cf ?pkt = Some (Some (BADDR_TYPE_IPV6 rip rport, BADDR_TYPE_IPV6 lip lport, False, data))"
  proof -
    have p: "?pkt ! 6 = IPV6_NEXT_UDP" by (simp add: nth_append ipv6_header_bytes_def build_ipv6_header_def)
    have z: "?h\<lparr>udp_hdr_checksum := 0\<rparr> = ?u" by (simp add: build_udp_header_def hton16_def)
    have d: "udp_check (udp_header_bytes ?h @ data) = Some (Some (?h, data))"
      by (rule built_udp_checked) (use f in simp)
    have i: "ipv6_check ?pkt = Some (Some (?i, udp_header_bytes ?h @ data))"
      by (rule built_ipv6_checked) (use f a in simp_all)
    show ?thesis unfolding parse_udp6_def i
      using p c if1 d z u li by (simp add: BAddr_InitIPv6_def build_udp_header_def)
  qed
  moreover have "ip_version_of ?pkt = 6" by (simp add: ip_version_of_def ipv6_header_bytes_def build_ipv6_header_def)
  ultimately show ?thesis using u li
    by (intro exI [of _ ?pkt] exI [of _ buf']) (simp add: parse_device_udp_packet_def w)
qed

end
