(* ===== verification/Tun2socks_Run.thy ===== *)
theory Tun2socks_Run
  imports Tcp_Relay Tun2socks_Device
begin

text \<open>
  The program around the components: \<open>run\<close>, the handlers of the reactor's other events and the
  teardown of \<open>tun2socks/tun2socks.c\<close>.  \<open>t2s\<close> holds its global state; \<open>t2s_step\<close> is the event loop's
  dispatch to the TCP relay, the udpgw client and the device, and \<open>run\<close> executes a script of events
  between initialisation and teardown, with every \<open>goto\<close> of the source.

  Objects that \<open>run\<close> initialises and frees are named by \<open>resource\<close>: \<open>rs_held\<close> are those that are
  initialised, and freeing one that is not fails.  What the calls into the operating system and lwIP
  return is chosen by \<open>run_env\<close>.
\<close>

section \<open>State and handlers\<close>

record t2s =
  ts_conf :: device_conf
  ts_quitting :: bool
  ts_relay :: relay
  ts_udpgw :: SocksUdpGwClient
  ts_write_buf :: bytes
  ts_lwip_init_job :: bool
  ts_have_netif :: bool
  ts_listener :: bool
  ts_listener_ip6 :: bool
  ts_g_terminate :: bool
  ts_device_out :: "dev_action list"

definition terminate :: "t2s \<Rightarrow> t2s option" where
  "terminate s = do { ASSERT (\<not> ts_quitting s); Some (s\<lparr>ts_quitting := True\<rparr>) }"

definition signal_handler :: "t2s \<Rightarrow> t2s option" where
  "signal_handler s = do { ASSERT (\<not> ts_quitting s); terminate s }"

definition device_error_handler :: "t2s \<Rightarrow> t2s option" where
  "device_error_handler s = do { ASSERT (\<not> ts_quitting s); terminate s }"

definition tcp_timer_handler :: "t2s \<Rightarrow> t2s option" where
  "tcp_timer_handler s = do {
     ASSERT (\<not> ts_quitting s);
     if ts_g_terminate s then terminate s else Some s
   }"

definition terminateTun2SocksNative :: "t2s \<Rightarrow> t2s" where
  "terminateTun2SocksNative s = s\<lparr>ts_g_terminate := True\<rparr>"

text \<open>The results of the calls into lwIP during initialisation; the second listener is for IPv6.\<close>

record lwip_init_env =
  li_netif_add :: bool
  li_tcp_new :: bool
  li_tcp_bind :: bool
  li_tcp_listen :: bool
  li_tcp_new_ip6 :: bool
  li_tcp_bind_ip6 :: bool
  li_tcp_listen_ip6 :: bool

definition lwip_init_job_hadler :: "lwip_init_env \<Rightarrow> t2s \<Rightarrow> t2s option" where
  "lwip_init_job_hadler li s = do {
     ASSERT (\<not> ts_quitting s);
     ASSERT (\<not> ts_have_netif s);
     ASSERT (\<not> ts_listener s);
     ASSERT (\<not> ts_listener_ip6 s);
     let fail = (\<lambda>s. if \<not> ts_quitting s then terminate s else Some s);
     if \<not> li_netif_add li then fail s
     else do {
       let s = s\<lparr>ts_have_netif := True\<rparr>;
       if \<not> li_tcp_new li \<or> \<not> li_tcp_bind li \<or> \<not> li_tcp_listen li then fail s
       else do {
         let s = s\<lparr>ts_listener := True\<rparr>;
         if dv_ip6 (ts_conf s) then
           if \<not> li_tcp_new_ip6 li \<or> \<not> li_tcp_bind_ip6 li \<or> \<not> li_tcp_listen_ip6 li then fail s
           else Some (s\<lparr>ts_listener_ip6 := True\<rparr>)
         else Some s
       }
     }
   }"

text \<open>Packets of the udpgw client for the device.\<close>

fun deliver_all :: "device_conf \<Rightarrow> su_action list \<Rightarrow> bytes \<Rightarrow> (dev_action list \<times> bytes) option" where
  "deliver_all cf [] buf = Some ([], buf)"
| "deliver_all cf (SuReceived l r d # as) buf = do {
     (xs, buf) \<leftarrow> udpgw_client_handler_received cf l r d buf;
     (ys, buf) \<leftarrow> deliver_all cf as buf;
     Some (xs @ ys, buf)
   }"

section \<open>The event loop\<close>

datatype t2s_event =
    LwipInit lwip_init_env
  | TcpTimer
  | DeviceError
  | Signal
  | TerminateRequest
  | DevicePacket "ptr option" bool bool bool bytes
  | NetifOutput "bytes list"
  | Relay relay_event
  | UdpGw su_event

record relay_options =
  ro_print :: "BAddr \<Rightarrow> string"
  ro_username :: "string option"
  ro_append_source :: bool

definition t2s_step :: "realloc \<Rightarrow> relay_options \<Rightarrow> t2s_event \<Rightarrow> t2s \<Rightarrow> t2s option" where
  "t2s_step BRealloc ro e s = (case e of
     LwipInit li \<Rightarrow> lwip_init_job_hadler li (s\<lparr>ts_lwip_init_job := False\<rparr>)
   | TcpTimer \<Rightarrow> tcp_timer_handler s
   | DeviceError \<Rightarrow> device_error_handler s
   | Signal \<Rightarrow> signal_handler s
   | TerminateRequest \<Rightarrow> Some (terminateTun2SocksNative s)
   | DevicePacket malloc flow_ok pbuf_ok input_ok data \<Rightarrow> do {
       (acts, w) \<leftarrow> device_read_handler_send (ts_conf s) (ts_quitting s) malloc flow_ok pbuf_ok input_ok data (ts_udpgw s);
       Some (s\<lparr>ts_udpgw := w, ts_device_out := ts_device_out s @ acts\<rparr>)
     }
   | NetifOutput chain \<Rightarrow> do {
       (acts, buf) \<leftarrow> common_netif_output (ts_conf s) (ts_quitting s) chain (ts_write_buf s);
       Some (s\<lparr>ts_write_buf := buf, ts_device_out := ts_device_out s @ acts\<rparr>)
     }
   | Relay x \<Rightarrow> do {
       w \<leftarrow> relay_step (ro_print ro) (ro_username ro) (ro_append_source ro) x (ts_relay s);
       Some (s\<lparr>ts_relay := w\<rparr>)
     }
   | UdpGw x \<Rightarrow> do {
       (w, out) \<leftarrow> su_step BRealloc x (ts_udpgw s, []);
       (acts, buf) \<leftarrow> deliver_all (ts_conf s) out (ts_write_buf s);
       Some (s\<lparr>ts_udpgw := w, ts_write_buf := buf, ts_device_out := ts_device_out s @ acts\<rparr>)
     })"

text \<open>
  The reactor dispatches nothing after \<open>BReactor_Quit\<close>; lwIP's initialisation is the first job; a
  connection can only be accepted while there is a listener.  The termination flag may be set by
  another thread at any time.
\<close>

definition t2s_legal :: "t2s_event \<Rightarrow> t2s \<Rightarrow> bool" where
  "t2s_legal e s = (case e of
     TerminateRequest \<Rightarrow> True
   | LwipInit li \<Rightarrow> \<not> ts_quitting s \<and> ts_lwip_init_job s
   | DevicePacket malloc flow_ok pbuf_ok input_ok data \<Rightarrow> \<not> ts_quitting s \<and> \<not> ts_lwip_init_job s \<and>
       (case malloc of None \<Rightarrow> True | Some p \<Rightarrow> p \<notin> set (fq_flows_list (ug_send_queue (su_udpgw_client (ts_udpgw s)))))
   | NetifOutput chain \<Rightarrow> \<not> ts_quitting s \<and> \<not> ts_lwip_init_job s \<and> chain \<noteq> []
   | Relay x \<Rightarrow> \<not> ts_quitting s \<and> \<not> ts_lwip_init_job s \<and> relay_legal x (ts_relay s) \<and>
       (case x of Accept _ _ \<Rightarrow> ts_listener s | _ \<Rightarrow> True)
   | UdpGw x \<Rightarrow> \<not> ts_quitting s \<and> \<not> ts_lwip_init_job s \<and> dv_udpgw (ts_conf s) \<and> su_legal x (ts_udpgw s, []) \<and>
       (case x of SuUdpGw (UgSubmit _ _ _ _ _ _) \<Rightarrow> False | _ \<Rightarrow> True)
   | _ \<Rightarrow> \<not> ts_quitting s \<and> \<not> ts_lwip_init_job s)"

fun BReactor_Exec :: "realloc \<Rightarrow> relay_options \<Rightarrow> t2s_event list \<Rightarrow> t2s \<Rightarrow> t2s option" where
  "BReactor_Exec BRealloc ro [] s = Some s"
| "BReactor_Exec BRealloc ro (e # es) s =
     (if ts_quitting s then Some s
      else if t2s_legal e s then do { s \<leftarrow> t2s_step BRealloc ro e s; BReactor_Exec BRealloc ro es s }
      else BReactor_Exec BRealloc ro es s)"

section \<open>Invariant\<close>

definition t2s_inv :: "t2s \<Rightarrow> bool" where
  "t2s_inv s \<longleftrightarrow> relay_inv (ts_relay s) \<and> int (length (ts_write_buf s)) = dv_mtu (ts_conf s) \<and>
     (dv_udpgw (ts_conf s) \<longrightarrow> su_inv (ts_udpgw s) \<and> dv_udp_mtu (ts_conf s) = ug_udp_mtu (su_udpgw_client (ts_udpgw s))) \<and>
     (ts_lwip_init_job s \<longrightarrow> \<not> ts_have_netif s \<and> \<not> ts_listener s \<and> \<not> ts_listener_ip6 s \<and> clients (ts_relay s) = (\<lambda>_. None)) \<and>
     (ts_listener s \<longrightarrow> ts_have_netif s) \<and> (ts_listener_ip6 s \<longrightarrow> ts_listener s)"

lemma received_ok:
  assumes u: "dv_udpgw cf" and b: "int (length buf) = dv_mtu cf" and a: "conaddr_wf \<lparr>local_addr = l, remote_addr = r\<rparr>"
  shows "\<exists>acts buf'. udpgw_client_handler_received cf l r d buf = Some (acts, buf') \<and> length buf' = length buf \<and> length acts \<le> 1"
proof (cases l)
  case (BADDR_TYPE_IPV4 lip lp)
  with a obtain rip rp where r: "r = BADDR_TYPE_IPV4 rip rp" by (cases r) (auto simp: conaddr_wf_def)
  show ?thesis
  proof (cases "int (length d) \<le> dv_mtu cf - 28 \<and> length d \<le> 65507")
    case True
    with udpgw_to_device_ipv4 [OF u b, of d lip lp rip rp] r BADDR_TYPE_IPV4 show ?thesis by auto
  next
    case False
    with u r BADDR_TYPE_IPV4 show ?thesis by (auto simp: udpgw_client_handler_received_def)
  qed
next
  case (BADDR_TYPE_IPV6 lip lp)
  with a obtain rip rp where r: "r = BADDR_TYPE_IPV6 rip rp" "length lip = 16" "length rip = 16" by (cases r) (auto simp: conaddr_wf_def)
  show ?thesis
  proof (cases "dv_ip6 cf \<and> int (length d) \<le> dv_mtu cf - 48 \<and> length d \<le> 65527")
    case True
    with udpgw_to_device_ipv6 [OF u _ b, of d lip rip lp rp] r BADDR_TYPE_IPV6 show ?thesis by auto
  next
    case False
    with u r BADDR_TYPE_IPV6 have "udpgw_client_handler_received cf l r d buf = Some ([], buf)"
      by (auto simp: udpgw_client_handler_received_def Let_def)
    then show ?thesis by simp
  qed
qed (use a in \<open>auto simp: conaddr_wf_def\<close>)

lemma deliver_all_ok:
  assumes u: "dv_udpgw cf"
  shows "int (length buf) = dv_mtu cf \<Longrightarrow> \<forall>x\<in>set out. su_out_ok m x \<Longrightarrow>
    \<exists>acts buf'. deliver_all cf out buf = Some (acts, buf') \<and> length buf' = length buf"
proof (induction out arbitrary: buf)
  case (Cons x out)
  obtain l r d where x: "x = SuReceived l r d" by (cases x)
  with Cons.prems have "conaddr_wf \<lparr>local_addr = l, remote_addr = r\<rparr>" by (simp add: su_out_ok_def)
  from received_ok [OF u Cons.prems(1) this, of d] obtain a b where
    ab: "udpgw_client_handler_received cf l r d buf = Some (a, b)" "length b = length buf" by blast
  with Cons.IH [of b] Cons.prems x show ?case by auto
qed simp

lemma device_packet_ok:
  assumes i: "t2s_inv s" and q: "\<not> ts_quitting s"
    and fresh: "\<And>p. malloc = Some p \<Longrightarrow> p \<notin> set (fq_flows_list (ug_send_queue (su_udpgw_client (ts_udpgw s))))"
  shows "\<exists>acts w. device_read_handler_send (ts_conf s) (ts_quitting s) malloc flow_ok pbuf_ok input_ok data (ts_udpgw s) = Some (acts, w) \<and>
    (dv_udpgw (ts_conf s) \<longrightarrow> su_inv w \<and> ug_udp_mtu (su_udpgw_client w) = ug_udp_mtu (su_udpgw_client (ts_udpgw s)))"
proof (cases "dv_udpgw (ts_conf s)")
  case False
  then show ?thesis using q
    by (simp add: device_read_handler_send_def process_device_udp_packet_def parse_device_udp_packet_def Let_def)
next
  case True
  then have u: "su_inv (ts_udpgw s)" "dv_udp_mtu (ts_conf s) \<le> ug_udp_mtu (su_udpgw_client (ts_udpgw s))"
    using i by (auto simp: t2s_inv_def)
  from device_read_ok [OF u, of malloc flow_ok pbuf_ok input_ok data] fresh obtain acts w where
    w: "device_read_handler_send (ts_conf s) False malloc flow_ok pbuf_ok input_ok data (ts_udpgw s) = Some (DevReadDone # acts, w)"
      "su_inv w" by blast
  have "ug_udp_mtu (su_udpgw_client w) = ug_udp_mtu (su_udpgw_client (ts_udpgw s))"
    using w(1) by (auto simp: device_read_handler_send_def process_device_udp_packet_def SocksUdpGwClient_SubmitPacket_def Let_def
        split: Option.bind_splits option.splits if_splits dest!: submit_mtu)
  with w q show ?thesis by simp
qed

lemma t2s_step_ok:
  assumes i: "t2s_inv s" and l: "t2s_legal e s" and r: "realloc_ok BRealloc"
  shows "\<exists>s'. t2s_step BRealloc ro e s = Some s' \<and> t2s_inv s' \<and> ts_conf s' = ts_conf s"
proof (cases e)
  case (LwipInit li)
  with i l show ?thesis
    by (simp add: t2s_step_def t2s_legal_def lwip_init_job_hadler_def terminate_def t2s_inv_def Let_def)
next
  case (DevicePacket malloc flow_ok pbuf_ok input_ok data)
  with l have q: "\<not> ts_quitting s" "\<And>p. malloc = Some p \<Longrightarrow> p \<notin> set (fq_flows_list (ug_send_queue (su_udpgw_client (ts_udpgw s))))"
    by (auto simp: t2s_legal_def)
  from device_packet_ok [OF i q(1), of malloc flow_ok pbuf_ok input_ok data] q(2) obtain acts w where
    "device_read_handler_send (ts_conf s) (ts_quitting s) malloc flow_ok pbuf_ok input_ok data (ts_udpgw s) = Some (acts, w)"
    "dv_udpgw (ts_conf s) \<longrightarrow> su_inv w \<and> ug_udp_mtu (su_udpgw_client w) = ug_udp_mtu (su_udpgw_client (ts_udpgw s))" by blast
  with i DevicePacket show ?thesis by (auto simp: t2s_step_def t2s_inv_def)
next
  case (NetifOutput chain)
  with l have "chain \<noteq> []" by (simp add: t2s_legal_def)
  moreover have "int (length (ts_write_buf s)) = dv_mtu (ts_conf s)" using i by (simp add: t2s_inv_def)
  ultimately obtain acts buf where "common_netif_output (ts_conf s) (ts_quitting s) chain (ts_write_buf s) = Some (acts, buf)"
    "length buf = length (ts_write_buf s)" using common_netif_output_ok by blast
  with i NetifOutput show ?thesis by (auto simp: t2s_step_def t2s_inv_def)
next
  case (Relay x)
  with l have "relay_legal x (ts_relay s)" "\<not> ts_lwip_init_job s" by (auto simp: t2s_legal_def)
  moreover have "relay_inv (ts_relay s)" using i by (simp add: t2s_inv_def)
  ultimately obtain w where "relay_step (ro_print ro) (ro_username ro) (ro_append_source ro) x (ts_relay s) = Some w" "relay_inv w"
    using relay.step_ok by blast
  with i Relay \<open>\<not> ts_lwip_init_job s\<close> show ?thesis by (auto simp: t2s_step_def t2s_inv_def)
next
  case (UdpGw x)
  with l have lx: "su_legal x (ts_udpgw s, [])" "\<not> ts_lwip_init_job s" "dv_udpgw (ts_conf s)" by (auto simp: t2s_legal_def)
  then have u: "su_inv (ts_udpgw s)" "dv_udp_mtu (ts_conf s) = ug_udp_mtu (su_udpgw_client (ts_udpgw s))" using i by (auto simp: t2s_inv_def)
  from su.step_ok [of BRealloc "(ts_udpgw s, [])" x] r u lx obtain w out where
    w: "su_step BRealloc x (ts_udpgw s, []) = Some (w, out)" "su_inv w" by auto
  from su_step_out [OF u(1) lx(1) w(1)] have o: "ug_udp_mtu (su_udpgw_client w) = ug_udp_mtu (su_udpgw_client (ts_udpgw s))"
    "\<forall>x\<in>set out. su_out_ok (ug_udp_mtu (su_udpgw_client (ts_udpgw s))) x" by auto
  have "int (length (ts_write_buf s)) = dv_mtu (ts_conf s)" using i by (simp add: t2s_inv_def)
  from deliver_all_ok [OF lx(3) this o(2)] obtain acts buf where
    "deliver_all (ts_conf s) out (ts_write_buf s) = Some (acts, buf)" "length buf = length (ts_write_buf s)" by blast
  with i UdpGw w o(1) show ?thesis by (auto simp: t2s_step_def t2s_inv_def simp del: su_step.simps)
qed (use i l in \<open>auto simp: t2s_step_def t2s_legal_def t2s_inv_def tcp_timer_handler_def device_error_handler_def signal_handler_def
    terminate_def terminateTun2SocksNative_def\<close>)

interpretation t2s: event_machine "t2s_step BRealloc ro" t2s_legal "\<lambda>s. realloc_ok BRealloc \<and> t2s_inv s" for BRealloc ro
  using t2s_step_ok by unfold_locales blast

lemma BReactor_Exec_ok:
  "t2s_inv s \<Longrightarrow> realloc_ok BRealloc \<Longrightarrow>
   \<exists>s'. BReactor_Exec BRealloc ro script s = Some s' \<and> t2s_inv s' \<and> ts_conf s' = ts_conf s"
proof (induction script arbitrary: s)
  case (Cons e script)
  show ?case
  proof (cases "ts_quitting s \<or> \<not> t2s_legal e s")
    case True
    with Cons show ?thesis by auto
  next
    case False
    with t2s_step_ok [OF Cons.prems(1) _ Cons.prems(2), of e ro] obtain s1 where
      "t2s_step BRealloc ro e s = Some s1" "t2s_inv s1" "ts_conf s1 = ts_conf s" by blast
    with Cons.IH [of s1] Cons.prems(2) False show ?thesis by auto
  qed
qed simp

section \<open>Freeing the clients\<close>

lemma length_remove1_less: "p \<in> set xs \<Longrightarrow> length (remove1 p xs) < length xs"
  by (induction xs) auto

lemma client_dealloc_shrinks: "client_dealloc p w = Some w' \<Longrightarrow> length (tcp_clients w') < length (tcp_clients w)"
  by (auto simp: client_dealloc_def split: Option.bind_splits intro: length_remove1_less)

lemma client_murder_shrinks: "client_murder p w = Some w' \<Longrightarrow> length (tcp_clients w') < length (tcp_clients w)"
  by (auto simp: client_murder_def DEAD_KILL_def split: Option.bind_splits if_splits dest!: client_dealloc_shrinks)

function free_clients :: "relay \<Rightarrow> relay option" where
  "free_clients w = (case tcp_clients w of [] \<Rightarrow> Some w
     | p # _ \<Rightarrow> do { w \<leftarrow> client_murder p w; free_clients w })"
  by pat_completeness auto
termination
  by (relation "measure (length \<circ> tcp_clients)") (auto dest: client_murder_shrinks)

declare free_clients.simps [simp del]

lemma free_clients_ok:
  "relay_inv w \<Longrightarrow> \<exists>w'. free_clients w = Some w' \<and> relay_inv w' \<and> tcp_clients w' = [] \<and> clients w' = (\<lambda>_. None) \<and> num_clients w' = 0"
proof (induction w rule: free_clients.induct)
  case (1 w)
  show ?case
  proof (cases "tcp_clients w")
    case Nil
    with 1(2) have "clients w = (\<lambda>_. None)" "num_clients w = 0" by (auto simp: relay_inv_def relay_shape_def)
    with Nil 1(2) show ?thesis by (subst free_clients.simps) simp
  next
    case (Cons p ps)
    then have "p \<in> dom (clients w)" using 1(2) by (auto simp: relay_inv_def relay_shape_def)
    then obtain c where "clients w p = Some c" by blast
    from client_murder_ok [OF 1(2) this] obtain w1 where w1: "client_murder p w = Some w1" "relay_inv w1" by blast
    from 1(1) [OF Cons w1] Cons w1 show ?thesis by (subst free_clients.simps) simp
  qed
qed

section \<open>The program\<close>

datatype resource = PasswordFile | Reactor | SignalHandler | Device | ReadInterface | ReadBuffer | UdpGwClientObject | LwipInitJob
  | WriteBuf | TcpTimerObject | Netif | Listener | ListenerIp6

record run_state =
  rs_held :: "resource list"
  rs_acquired :: "resource list"
  rs_released :: "resource list"

definition acquire :: "resource \<Rightarrow> run_state \<Rightarrow> run_state option" where
  "acquire r st = do { ASSERT (r \<notin> set (rs_held st)); Some (st\<lparr>rs_held := r # rs_held st, rs_acquired := rs_acquired st @ [r]\<rparr>) }"

definition release :: "resource \<Rightarrow> run_state \<Rightarrow> run_state option" where
  "release r st = do { ASSERT (r \<in> set (rs_held st)); Some (st\<lparr>rs_held := remove1 r (rs_held st), rs_released := rs_released st @ [r]\<rparr>) }"

definition only_if :: "bool \<Rightarrow> (run_state \<Rightarrow> run_state option) \<Rightarrow> run_state \<Rightarrow> run_state option" where
  "only_if b f st = (if b then f st else Some st)"

text \<open>The options that matter here, after \<open>process_arguments\<close>, and the results of the calls.\<close>

record run_options =
  op_set_signal :: bool
  op_udpgw :: bool
  op_ip6 :: bool
  op_transparent_dns :: bool
  op_netif_ipaddr :: "32 word"
  op_socks_server_addr :: BAddr
  op_auth_info :: "BSocksClient_auth_info list"
  op_udpgw_remote_server_addr :: BAddr
  op_udpgw_connection_buffer_size :: int
  op_relay :: relay_options

record run_env =
  re_network :: bool
  re_process_arguments :: bool
  re_password_file :: bool
  re_reactor :: bool
  re_signal :: bool
  re_tap :: bool
  re_mtu :: int
  re_read_buffer :: bool
  re_udpgw_store :: "ptr \<Rightarrow> fq_flow"
  re_udpgw_cstore :: "ptr \<Rightarrow> UdpGwClient_connection"
  re_udpgw_keepalive :: ptr
  re_udpgw_memory :: SocksUdpGwClient
  re_connector :: bool
  re_write_buf :: "bytes option"

definition DEFAULT_UDPGW_MAX_CONNECTIONS :: int where "DEFAULT_UDPGW_MAX_CONNECTIONS = 256"

definition compute_udp_mtu :: "int \<Rightarrow> bool \<Rightarrow> int" where
  "compute_udp_mtu mtu ip6 =
     (let udp_mtu = mtu - (20 + 8);
          udp_mtu = (if ip6 then let udp_ip6_mtu = mtu - (40 + 8) in if udp_mtu < udp_ip6_mtu then udp_ip6_mtu else udp_mtu
                     else udp_mtu)
      in if udp_mtu < 0 then 0 else udp_mtu)"

text \<open>The cleanup labels of \<open>run\<close>.\<close>

definition fail1 :: "run_state \<Rightarrow> run_state option" where
  "fail1 st = only_if (PasswordFile \<in> set (rs_held st)) (release PasswordFile) st"

definition fail2 :: "run_state \<Rightarrow> run_state option" where
  "fail2 st = release Reactor st \<bind> fail1"

definition fail3 :: "run_state \<Rightarrow> run_state option" where
  "fail3 st = release SignalHandler st \<bind> fail2"

definition fail4 :: "run_state \<Rightarrow> run_state option" where
  "fail4 st = do { st \<leftarrow> release ReadInterface st; st \<leftarrow> release Device st; fail3 st }"

definition fail4a :: "run_state \<Rightarrow> run_state option" where
  "fail4a st = release ReadBuffer st \<bind> fail4"

definition fail5 :: "run_options \<Rightarrow> SocksUdpGwClient \<Rightarrow> run_state \<Rightarrow> run_state option" where
  "fail5 op w st = do {
     st \<leftarrow> release LwipInitJob st;
     st \<leftarrow> (if op_udpgw op then do { SocksUdpGwClient_Free w; release UdpGwClientObject st } else Some st);
     fail4a st
   }"

definition t2s_initial :: "run_options \<Rightarrow> int \<Rightarrow> SocksUdpGwClient \<Rightarrow> bytes \<Rightarrow> t2s" where
  "t2s_initial op mtu w buf = \<lparr>ts_conf = \<lparr>dv_udpgw = op_udpgw op, dv_ip6 = op_ip6 op, dv_transparent_dns = op_transparent_dns op,
       dv_netif_ipaddr = op_netif_ipaddr op, dv_udp_mtu = compute_udp_mtu mtu (op_ip6 op), dv_mtu = mtu\<rparr>,
     ts_quitting = False, ts_relay = relay_start, ts_udpgw = w, ts_write_buf = buf, ts_lwip_init_job = True,
     ts_have_netif = False, ts_listener = False, ts_listener_ip6 = False, ts_g_terminate = False, ts_device_out = []\<rparr>"

text \<open>After the event loop: what lwIP was given is closed, then everything is freed.\<close>

definition teardown :: "run_options \<Rightarrow> t2s \<Rightarrow> run_state \<Rightarrow> run_state option" where
  "teardown op s st = do {
     st \<leftarrow> only_if (ts_have_netif s) (acquire Netif) st;
     st \<leftarrow> only_if (ts_listener s) (acquire Listener) st;
     st \<leftarrow> only_if (ts_listener_ip6 s) (acquire ListenerIp6) st;
     free_clients (ts_relay s);
     st \<leftarrow> only_if (ts_listener_ip6 s) (release ListenerIp6) st;
     st \<leftarrow> only_if (ts_listener s) (release Listener) st;
     st \<leftarrow> only_if (ts_have_netif s) (release Netif) st;
     st \<leftarrow> release TcpTimerObject st;
     st \<leftarrow> release WriteBuf st;
     fail5 op (ts_udpgw s) st
   }"

datatype run_result = Running t2s | Exited run_state

definition init_udpgw :: "run_options \<Rightarrow> run_env \<Rightarrow> SocksUdpGwClient option option" where
  "init_udpgw op re =
     (if op_udpgw op then
        let udp_mtu = compute_udp_mtu (re_mtu re) (op_ip6 op); udpgw_mtu = udpgw_compute_mtu udp_mtu in
        if udpgw_mtu < 0 \<or> udpgw_mtu > PACKETPROTO_MAXPAYLOAD then Some None
        else SocksUdpGwClient_Init (re_udpgw_store re) (re_udpgw_cstore re) (re_udpgw_keepalive re) (su_socks_client (re_udpgw_memory re))
          (re_connector re) udp_mtu DEFAULT_UDPGW_MAX_CONNECTIONS (op_udpgw_connection_buffer_size op)
          (op_socks_server_addr op) (op_auth_info op) (op_udpgw_remote_server_addr op)
      else Some (Some (re_udpgw_memory re)))"

text \<open>From the device on.\<close>

definition run_device :: "realloc \<Rightarrow> run_options \<Rightarrow> run_env \<Rightarrow> t2s_event list \<Rightarrow> run_state \<Rightarrow> run_result option" where
  "run_device BRealloc op re script st =
     (if \<not> re_read_buffer re then map_option Exited (fail4 st)
      else do {
        st \<leftarrow> acquire ReadBuffer st;
        r \<leftarrow> init_udpgw op re;
        case r of None \<Rightarrow> map_option Exited (fail4a st)
        | Some w \<Rightarrow> do {
            st \<leftarrow> only_if (op_udpgw op) (acquire UdpGwClientObject) st;
            st \<leftarrow> acquire LwipInitJob st;
            case re_write_buf re of None \<Rightarrow> map_option Exited (fail5 op w st)
            | Some buf \<Rightarrow> do {
                st \<leftarrow> acquire WriteBuf st;
                st \<leftarrow> acquire TcpTimerObject st;
                s \<leftarrow> BReactor_Exec BRealloc (op_relay op) script (t2s_initial op (re_mtu re) w buf);
                if \<not> ts_quitting s then Some (Running s) else map_option Exited (teardown op s st)
              }
          }
      })"

definition run :: "realloc \<Rightarrow> run_options \<Rightarrow> run_env \<Rightarrow> t2s_event list \<Rightarrow> run_result option" where
  "run BRealloc op re script = do {
     let st = \<lparr>rs_held = [], rs_acquired = [], rs_released = []\<rparr>;
     if \<not> re_network re then map_option Exited (fail1 st)
     else do {
       st \<leftarrow> only_if (re_password_file re) (acquire PasswordFile) st;
       if \<not> re_process_arguments re then map_option Exited (fail1 st)
       else if \<not> re_reactor re then map_option Exited (fail1 st)
       else do {
         st \<leftarrow> acquire Reactor st;
         if op_set_signal op \<and> \<not> re_signal re then map_option Exited (fail2 st)
         else do {
           st \<leftarrow> only_if (op_set_signal op) (acquire SignalHandler) st;
           if \<not> re_tap re then map_option Exited (fail3 st)
           else do {
             st \<leftarrow> acquire Device st;
             st \<leftarrow> acquire ReadInterface st;
             run_device BRealloc op re script st
           }
         }
       }
     }
   }"

section \<open>Every exit frees what was acquired\<close>

text \<open>What earlier processing guarantees: valid addresses when a udpgw is configured, a positive buffer
  size (\<open>parse_arguments\<close>), and allocated memory of the requested size.\<close>

definition run_pre :: "run_options \<Rightarrow> run_env \<Rightarrow> bool" where
  "run_pre op re \<longleftrightarrow> 0 \<le> re_mtu re \<and> (\<forall>buf. re_write_buf re = Some buf \<longrightarrow> int (length buf) = re_mtu re) \<and>
     (op_udpgw op \<longrightarrow> \<not> BAddr_IsInvalid (op_socks_server_addr op) \<and> op_udpgw_remote_server_addr op \<noteq> BADDR_TYPE_NONE \<and>
        BAddr_wf (op_udpgw_remote_server_addr op) \<and> 0 < op_udpgw_connection_buffer_size op \<and>
        (\<forall>ai\<in>set (op_auth_info op). auth_type ai = SOCKS_METHOD_NO_AUTHENTICATION_REQUIRED \<or> auth_type ai = SOCKS_METHOD_USERNAME_PASSWORD))"

lemma compute_udp_mtu_bounds: "0 \<le> compute_udp_mtu mtu ip6" "compute_udp_mtu mtu ip6 = max 0 (mtu - 28)"
  by (simp_all add: compute_udp_mtu_def Let_def)

lemma init_udpgw_ok:
  assumes "run_pre op re"
  shows "\<exists>r. init_udpgw op re = Some r \<and> (\<forall>w. r = Some w \<longrightarrow> op_udpgw op \<longrightarrow>
    su_inv w \<and> ug_udp_mtu (su_udpgw_client w) = compute_udp_mtu (re_mtu re) (op_ip6 op))"
proof (cases "op_udpgw op \<and> \<not> (udpgw_compute_mtu (compute_udp_mtu (re_mtu re) (op_ip6 op)) < 0 \<or>
    udpgw_compute_mtu (compute_udp_mtu (re_mtu re) (op_ip6 op)) > PACKETPROTO_MAXPAYLOAD)")
  case False
  then show ?thesis by (auto simp: init_udpgw_def Let_def)
next
  case True
  let ?u = "compute_udp_mtu (re_mtu re) (op_ip6 op)"
  have "\<exists>w. SocksUdpGwClient_Init (re_udpgw_store re) (re_udpgw_cstore re) (re_udpgw_keepalive re) (su_socks_client (re_udpgw_memory re))
      (re_connector re) ?u DEFAULT_UDPGW_MAX_CONNECTIONS (op_udpgw_connection_buffer_size op)
      (op_socks_server_addr op) (op_auth_info op) (op_udpgw_remote_server_addr op) = Some (Some w) \<and> su_inv w \<and>
      su_have_socks w = re_connector re \<and> ug_udp_mtu (su_udpgw_client w) = ?u"
    by (rule SocksUdpGwClient_Init_ok) (use True assms compute_udp_mtu_bounds(1) in \<open>auto simp: run_pre_def DEFAULT_UDPGW_MAX_CONNECTIONS_def\<close>)
  with True show ?thesis by (auto simp: init_udpgw_def Let_def)
qed

lemma t2s_initial_inv:
  assumes "run_pre op re" "re_write_buf re = Some buf"
    "op_udpgw op \<longrightarrow> su_inv w \<and> ug_udp_mtu (su_udpgw_client w) = compute_udp_mtu (re_mtu re) (op_ip6 op)"
  shows "t2s_inv (t2s_initial op (re_mtu re) w buf)"
  using assms relay_start_inv by (auto simp: t2s_initial_def t2s_inv_def run_pre_def relay_start_def)

definition balanced :: "run_state \<Rightarrow> bool" where
  "balanced st \<longleftrightarrow> rs_held st = [] \<and> rs_released st = rev (rs_acquired st)"

text \<open>The state between the labels: the objects are held in the order in which they were acquired.\<close>

definition stacked :: "resource list \<Rightarrow> run_state \<Rightarrow> bool" where
  "stacked rs st \<longleftrightarrow> rs_held st = rs \<and> distinct rs \<and> (\<exists>done. rs_released st = rev done \<and> rs_acquired st = rev rs @ done)"

lemma stacked_acquire: "stacked rs st \<Longrightarrow> r \<notin> set rs \<Longrightarrow> rs_released st = [] \<Longrightarrow>
    \<exists>st'. acquire r st = Some st' \<and> stacked (r # rs) st' \<and> rs_released st' = []"
  by (auto simp: acquire_def stacked_def)

lemma stacked_release: "stacked (r # rs) st \<Longrightarrow> \<exists>st'. release r st = Some st' \<and> stacked rs st'"
  by (auto simp: release_def stacked_def)

lemma stacked_empty: "stacked [] st \<Longrightarrow> balanced st"
  by (auto simp: stacked_def balanced_def)

abbreviation pw_stack :: "bool \<Rightarrow> resource list" where
  "pw_stack pw \<equiv> if pw then [PasswordFile] else []"

abbreviation tap_stack :: "bool \<Rightarrow> resource list" where
  "tap_stack pw \<equiv> ReadInterface # Device # SignalHandler # Reactor # pw_stack pw"

abbreviation udpgw_stack :: "bool \<Rightarrow> bool \<Rightarrow> resource list" where
  "udpgw_stack u pw \<equiv> LwipInitJob # (if u then [UdpGwClientObject] else []) @ ReadBuffer # tap_stack pw"

lemma fail1_ok: "stacked (pw_stack pw) st \<Longrightarrow> \<exists>st'. fail1 st = Some st' \<and> balanced st'"
  using stacked_release [of PasswordFile "[]" st] stacked_empty
  by (cases pw) (auto simp: fail1_def only_if_def stacked_def)

lemma fail2_ok: "stacked (Reactor # pw_stack pw) st \<Longrightarrow> \<exists>st'. fail2 st = Some st' \<and> balanced st'"
  using stacked_release [of Reactor "pw_stack pw" st] fail1_ok [of pw] by (fastforce simp: fail2_def)

lemma fail3_ok: "stacked (SignalHandler # Reactor # pw_stack pw) st \<Longrightarrow> \<exists>st'. fail3 st = Some st' \<and> balanced st'"
  using stacked_release [of SignalHandler "Reactor # pw_stack pw" st] fail2_ok [of pw] by (fastforce simp: fail3_def)

lemma fail4_ok:
  assumes "stacked (tap_stack pw) st"
  shows "\<exists>st'. fail4 st = Some st' \<and> balanced st'"
proof -
  from stacked_release [OF assms] obtain st1 where s1: "release ReadInterface st = Some st1"
    "stacked (Device # SignalHandler # Reactor # pw_stack pw) st1" by blast
  from stacked_release [OF s1(2)] fail3_ok [of pw] s1(1) show ?thesis by (fastforce simp: fail4_def)
qed

lemma fail4a_ok: "stacked (ReadBuffer # tap_stack pw) st \<Longrightarrow> \<exists>st'. fail4a st = Some st' \<and> balanced st'"
  using stacked_release [of ReadBuffer "tap_stack pw" st] fail4_ok [of pw] by (fastforce simp: fail4a_def)

lemma fail5_ok:
  assumes "stacked (udpgw_stack (op_udpgw op) pw) st" "op_udpgw op \<longrightarrow> su_inv w"
  shows "\<exists>st'. fail5 op w st = Some st' \<and> balanced st'"
proof -
  from stacked_release [OF assms(1)] obtain st1 where s1: "release LwipInitJob st = Some st1"
    "stacked ((if op_udpgw op then [UdpGwClientObject] else []) @ ReadBuffer # tap_stack pw) st1" by blast
  show ?thesis
  proof (cases "op_udpgw op")
    case False
    with s1 fail4a_ok [of pw st1] show ?thesis by (simp add: fail5_def)
  next
    case True
    with s1(2) stacked_release [of UdpGwClientObject "ReadBuffer # tap_stack pw" st1] obtain st2 where
      "release UdpGwClientObject st1 = Some st2" "stacked (ReadBuffer # tap_stack pw) st2" by auto
    with True s1(1) assms(2) SocksUdpGwClient_Free_ok [of w] fail4a_ok [of pw st2] show ?thesis
      by (auto simp: fail5_def)
  qed
qed

lemma stacked_only_if:
  "stacked rs st \<Longrightarrow> r \<notin> set rs \<Longrightarrow> rs_released st = [] \<Longrightarrow>
   \<exists>st'. only_if b (acquire r) st = Some st' \<and> stacked ((if b then [r] else []) @ rs) st' \<and> rs_released st' = []"
  using stacked_acquire [of rs st r] by (auto simp: only_if_def)

lemma stacked_only_if_release:
  "stacked ((if b then [r] else []) @ rs) st \<Longrightarrow> \<exists>st'. only_if b (release r) st = Some st' \<and> stacked rs st'"
  using stacked_release [of r rs st] by (auto simp: only_if_def)

lemma teardown_ok:
  assumes st: "stacked (TcpTimerObject # WriteBuf # udpgw_stack (op_udpgw op) pw) st" "rs_released st = []"
    and i: "t2s_inv s" "dv_udpgw (ts_conf s) = op_udpgw op"
  shows "\<exists>st'. teardown op s st = Some st' \<and> balanced st'"
proof -
  let ?r = "TcpTimerObject # WriteBuf # udpgw_stack (op_udpgw op) pw"
  let ?n = "(if ts_have_netif s then [Netif] else []) @ ?r"
  let ?l = "(if ts_listener s then [Listener] else []) @ ?n"
  from stacked_only_if [OF st(1) _ st(2), of Netif "ts_have_netif s"] obtain s1 where
    s1: "only_if (ts_have_netif s) (acquire Netif) st = Some s1" "stacked ?n s1" "rs_released s1 = []" by auto
  from stacked_only_if [OF s1(2) _ s1(3), of Listener "ts_listener s"] obtain s2 where
    s2: "only_if (ts_listener s) (acquire Listener) s1 = Some s2" "stacked ?l s2" "rs_released s2 = []" by auto
  from stacked_only_if [OF s2(2) _ s2(3), of ListenerIp6 "ts_listener_ip6 s"] obtain s3 where
    s3: "only_if (ts_listener_ip6 s) (acquire ListenerIp6) s2 = Some s3"
      "stacked ((if ts_listener_ip6 s then [ListenerIp6] else []) @ ?l) s3" by auto
  from stacked_only_if_release [OF s3(2)] obtain s4 where
    s4: "only_if (ts_listener_ip6 s) (release ListenerIp6) s3 = Some s4" "stacked ?l s4" by blast
  from stacked_only_if_release [OF s4(2)] obtain s5 where
    s5: "only_if (ts_listener s) (release Listener) s4 = Some s5" "stacked ?n s5" by blast
  from stacked_only_if_release [OF s5(2)] obtain s6 where
    s6: "only_if (ts_have_netif s) (release Netif) s5 = Some s6" "stacked ?r s6" by blast
  from stacked_release [OF s6(2)] obtain s7 where
    s7: "release TcpTimerObject s6 = Some s7" "stacked (WriteBuf # udpgw_stack (op_udpgw op) pw) s7" by blast
  from stacked_release [OF s7(2)] obtain s8 where
    s8: "release WriteBuf s7 = Some s8" "stacked (udpgw_stack (op_udpgw op) pw) s8" by blast
  from fail5_ok [OF s8(2)] i obtain s9 where s9: "fail5 op (ts_udpgw s) s8 = Some s9" "balanced s9" by (auto simp: t2s_inv_def)
  from free_clients_ok [of "ts_relay s"] i obtain rl where "free_clients (ts_relay s) = Some rl" by (auto simp: t2s_inv_def)
  with s1(1) s2(1) s3(1) s4(1) s5(1) s6(1) s7(1) s8(1) s9 show ?thesis by (auto simp: teardown_def)
qed

text \<open>The part of \<open>run\<close> after the device is open.\<close>

lemma run_tail_ok:
  assumes r: "realloc_ok BRealloc" and pre: "run_pre op re"
    and st: "stacked (tap_stack pw) st" "rs_released st = []"
  shows "\<exists>res. run_device BRealloc op re script st = Some res \<and>
    (case res of Running s \<Rightarrow> t2s_inv s \<and> \<not> ts_quitting s | Exited st \<Rightarrow> balanced st)"
proof (cases "re_read_buffer re")
  case False
  with fail4_ok [OF st(1)] show ?thesis by (auto simp: run_device_def)
next
  case True
  from stacked_acquire [OF st(1) _ st(2), of ReadBuffer] obtain s1 where
    s1: "acquire ReadBuffer st = Some s1" "stacked (ReadBuffer # tap_stack pw) s1" "rs_released s1 = []" by auto
  from init_udpgw_ok [OF pre] obtain r0 where r0: "init_udpgw op re = Some r0"
    "\<And>w. r0 = Some w \<Longrightarrow> op_udpgw op \<longrightarrow> su_inv w \<and> ug_udp_mtu (su_udpgw_client w) = compute_udp_mtu (re_mtu re) (op_ip6 op)" by blast
  show ?thesis
  proof (cases r0)
    case None
    with True s1 r0 fail4a_ok [OF s1(2)] show ?thesis by (auto simp: run_device_def)
  next
    case (Some w)
    note w = r0(2) [OF Some]
    from stacked_only_if [OF s1(2) _ s1(3), of UdpGwClientObject "op_udpgw op"] obtain s2 where
      s2: "only_if (op_udpgw op) (acquire UdpGwClientObject) s1 = Some s2"
        "stacked ((if op_udpgw op then [UdpGwClientObject] else []) @ ReadBuffer # tap_stack pw) s2" "rs_released s2 = []" by auto
    from stacked_acquire [OF s2(2) _ s2(3), of LwipInitJob] obtain s3 where
      s3: "acquire LwipInitJob s2 = Some s3" "stacked (udpgw_stack (op_udpgw op) pw) s3" "rs_released s3 = []" by auto
    show ?thesis
    proof (cases "re_write_buf re")
      case None
      with True s1(1) r0(1) Some s2(1) s3(1) fail5_ok [OF s3(2), of w] w show ?thesis by (auto simp: run_device_def)
    next
      case buf: (Some buf)
      from stacked_acquire [OF s3(2) _ s3(3), of WriteBuf] obtain s4 where
        s4: "acquire WriteBuf s3 = Some s4" "stacked (WriteBuf # udpgw_stack (op_udpgw op) pw) s4" "rs_released s4 = []" by auto
      from stacked_acquire [OF s4(2) _ s4(3), of TcpTimerObject] obtain s5 where
        s5: "acquire TcpTimerObject s4 = Some s5" "stacked (TcpTimerObject # WriteBuf # udpgw_stack (op_udpgw op) pw) s5"
          "rs_released s5 = []" by auto
      from BReactor_Exec_ok [OF t2s_initial_inv [OF pre buf w] r, of "op_relay op" script] obtain s where
        s: "BReactor_Exec BRealloc (op_relay op) script (t2s_initial op (re_mtu re) w buf) = Some s" "t2s_inv s"
          "ts_conf s = ts_conf (t2s_initial op (re_mtu re) w buf)" by blast
      have "dv_udpgw (ts_conf s) = op_udpgw op" using s(3) by (simp add: t2s_initial_def)
      with teardown_ok [OF s5(2,3) s(2)] True s1(1) r0(1) Some s2(1) s3(1) buf s4(1) s5(1) s(1,2) show ?thesis
        by (auto simp: run_device_def)
    qed
  qed
qed

lemma run_ok:
  assumes r: "realloc_ok BRealloc" and pre: "run_pre op re" and sig: "op_set_signal op"
  shows "\<exists>res. run BRealloc op re script = Some res \<and> (case res of Running s \<Rightarrow> t2s_inv s \<and> \<not> ts_quitting s | Exited st \<Rightarrow> balanced st)"
proof -
  let ?z = "\<lparr>rs_held = [], rs_acquired = [], rs_released = []\<rparr>"
  have z: "stacked [] ?z" by (simp add: stacked_def)
  have f0: "\<exists>st'. fail1 ?z = Some st' \<and> balanced st'" using fail1_ok [of False ?z] z by simp
  let ?pw = "re_password_file re"
  from stacked_only_if [OF z, of PasswordFile ?pw] obtain s0 where
    s0: "only_if ?pw (acquire PasswordFile) ?z = Some s0" "stacked (pw_stack ?pw) s0" "rs_released s0 = []" by auto
  note f1 = fail1_ok [OF s0(2)]
  from stacked_acquire [OF s0(2) _ s0(3), of Reactor] obtain s1 where
    s1: "acquire Reactor s0 = Some s1" "stacked (Reactor # pw_stack ?pw) s1" "rs_released s1 = []" by auto
  note f2 = fail2_ok [OF s1(2)]
  from stacked_acquire [OF s1(2) _ s1(3), of SignalHandler] obtain s2 where
    s2: "acquire SignalHandler s1 = Some s2" "stacked (SignalHandler # Reactor # pw_stack ?pw) s2" "rs_released s2 = []" by auto
  note f3 = fail3_ok [OF s2(2)]
  from stacked_acquire [OF s2(2) _ s2(3), of Device] obtain s3 where
    s3: "acquire Device s2 = Some s3" "stacked (Device # SignalHandler # Reactor # pw_stack ?pw) s3" "rs_released s3 = []" by auto
  from stacked_acquire [OF s3(2) _ s3(3), of ReadInterface] obtain s4 where
    s4: "acquire ReadInterface s3 = Some s4" "stacked (tap_stack ?pw) s4" "rs_released s4 = []" by auto
  note tail = run_tail_ok [OF r pre s4(2,3), of script]
  consider "\<not> re_network re" | "re_network re" "\<not> re_process_arguments re \<or> \<not> re_reactor re"
    | "re_network re" "re_process_arguments re" "re_reactor re" "\<not> re_signal re"
    | "re_network re" "re_process_arguments re" "re_reactor re" "re_signal re" "\<not> re_tap re"
    | "re_network re" "re_process_arguments re" "re_reactor re" "re_signal re" "re_tap re" by blast
  then show ?thesis
  proof cases
    case 1
    with f0 show ?thesis by (auto simp: run_def)
  next
    case 2
    with s0(1) f1 show ?thesis by (auto simp: run_def)
  next
    case 3
    with s0(1) s1(1) f2 sig show ?thesis by (auto simp: run_def)
  next
    case 4
    with s0(1) s1(1) s2(1) f3 sig show ?thesis by (auto simp: run_def only_if_def)
  next
    case 5
    with s0(1) s1(1) s2(1) s3(1) s4(1) sig
    have "run BRealloc op re script = run_device BRealloc op re script s4"
      by (simp add: run_def only_if_def [of True])
    with tail show ?thesis by simp
  qed
qed

text \<open>Without \<open>set_signal\<close> every way out of the program behind \<open>BReactor_Init\<close> frees a signal handler
  that was never initialised.\<close>

definition no_signal :: "run_state \<Rightarrow> bool" where
  "no_signal st \<longleftrightarrow> SignalHandler \<notin> set (rs_held st)"

lemma bind_NoneI: "(\<And>x. m = Some x \<Longrightarrow> f x = None) \<Longrightarrow> m \<bind> f = None"
  by (cases m) auto

lemma no_signal_release: "release r st = Some st' \<Longrightarrow> no_signal st \<Longrightarrow> no_signal st'"
  by (auto simp: no_signal_def release_def dest: set_remove1_subset [THEN subsetD])

lemma no_signal_acquire: "acquire r st = Some st' \<Longrightarrow> no_signal st \<Longrightarrow> r \<noteq> SignalHandler \<Longrightarrow> no_signal st'"
  by (auto simp: no_signal_def acquire_def)

lemma no_signal_if_release: "only_if b (release r) st = Some st' \<Longrightarrow> no_signal st \<Longrightarrow> no_signal st'"
  using no_signal_release [of r st st'] by (cases b) (simp_all add: only_if_def)

lemma no_signal_if_acquire: "only_if b (acquire r) st = Some st' \<Longrightarrow> no_signal st \<Longrightarrow> r \<noteq> SignalHandler \<Longrightarrow> no_signal st'"
  using no_signal_acquire [of r st st'] by (cases b) (simp_all add: only_if_def)

lemmas no_signal_keeps = no_signal_release no_signal_acquire no_signal_if_release no_signal_if_acquire

lemma no_signal_fail3: "no_signal st \<Longrightarrow> fail3 st = None"
  by (simp add: fail3_def release_def no_signal_def)

lemma no_signal_fail4: "no_signal st \<Longrightarrow> fail4 st = None"
  unfolding fail4_def by (intro bind_NoneI no_signal_fail3) (assumption | erule no_signal_keeps)+

lemma no_signal_fail4a: "no_signal st \<Longrightarrow> fail4a st = None"
  unfolding fail4a_def by (intro bind_NoneI no_signal_fail4) (assumption | erule no_signal_keeps)+

lemma no_signal_fail5:
  assumes "no_signal st"
  shows "fail5 op w st = None"
proof (cases "op_udpgw op")
  case True
  with assms show ?thesis
    by (cases "SocksUdpGwClient_Free w") (auto simp: fail5_def intro!: bind_NoneI no_signal_fail4a elim!: no_signal_keeps)
next
  case False
  with assms show ?thesis by (auto simp: fail5_def intro!: bind_NoneI no_signal_fail4a elim!: no_signal_keeps)
qed

lemma no_signal_teardown: "no_signal st \<Longrightarrow> teardown op s st = None"
  unfolding teardown_def
  by (intro bind_NoneI no_signal_fail5) (assumption | erule no_signal_keeps | simp)+

lemma no_signal_run_device:
  assumes "no_signal st"
  shows "\<forall>st'. run_device BRealloc op re script st \<noteq> Some (Exited st')"
proof -
  show ?thesis
  proof (cases "re_read_buffer re")
    case False
    with no_signal_fail4 [OF assms] show ?thesis by (simp add: run_device_def)
  next
    case True
    show ?thesis
    proof
      fix st'
      show "run_device BRealloc op re script st \<noteq> Some (Exited st')"
      proof
        assume r: "run_device BRealloc op re script st = Some (Exited st')"
        from r True obtain s1 r0 where s1: "acquire ReadBuffer st = Some s1" "init_udpgw op re = Some r0"
          by (auto simp: run_device_def split: Option.bind_splits)
        have n1: "no_signal s1" using no_signal_acquire [OF s1(1) assms] by simp
        from r True s1 no_signal_fail4a [OF n1] obtain w s2 s3 where
          w: "r0 = Some w" "only_if (op_udpgw op) (acquire UdpGwClientObject) s1 = Some s2" "acquire LwipInitJob s2 = Some s3"
          by (cases r0) (auto simp: run_device_def split: Option.bind_splits)
        have n3: "no_signal s3" using no_signal_acquire [OF w(3) no_signal_if_acquire [OF w(2) n1]] by simp
        from r True s1 w no_signal_fail5 [OF n3] obtain buf s4 s5 s where
          b: "re_write_buf re = Some buf" "acquire WriteBuf s3 = Some s4" "acquire TcpTimerObject s4 = Some s5"
            "BReactor_Exec BRealloc (op_relay op) script (t2s_initial op (re_mtu re) w buf) = Some s"
          by (cases "re_write_buf re") (auto simp: run_device_def split: Option.bind_splits)
        have "no_signal s5" using no_signal_acquire [OF b(3) no_signal_acquire [OF b(2) n3]] by simp
        from no_signal_teardown [OF this] r True s1 w b show False
          by (auto simp: run_device_def split: if_splits)
      qed
    qed
  qed
qed

lemma run_without_signal:
  assumes "\<not> op_set_signal op" "re_network re" "re_process_arguments re" "re_reactor re"
  shows "run BRealloc op re script \<noteq> Some (Exited st')"
proof
  let ?z = "\<lparr>rs_held = [], rs_acquired = [], rs_released = []\<rparr>"
  assume r: "run BRealloc op re script = Some (Exited st')"
  have z: "no_signal ?z" by (simp add: no_signal_def)
  from r assms obtain s0 s1 where s: "only_if (re_password_file re) (acquire PasswordFile) ?z = Some s0" "acquire Reactor s0 = Some s1"
    by (auto simp: run_def split: Option.bind_splits)
  have n1: "no_signal s1" using no_signal_acquire [OF s(2) no_signal_if_acquire [OF s(1) z]] by simp
  show False
  proof (cases "re_tap re")
    case False
    with r assms s no_signal_fail3 [OF n1] show ?thesis by (simp add: run_def only_if_def [of False])
  next
    case True
    with r assms s obtain s2 s3 where d: "acquire Device s1 = Some s2" "acquire ReadInterface s2 = Some s3"
      by (auto simp: run_def only_if_def [of False] split: Option.bind_splits)
    have "no_signal s3" using no_signal_acquire [OF d(2) no_signal_acquire [OF d(1) n1]] by simp
    from no_signal_run_device [OF this] r True assms s d show ?thesis by (auto simp: run_def only_if_def [of False])
  qed
qed

end
