(* ===== verification/Tun2socks_Options.thy ===== *)
theory Tun2socks_Options
  imports Addr_Text Logging Tun2socks_Run
begin

text \<open>
  The command line and the options of \<open>tun2socks/tun2socks.c\<close>, the password file reader
  \<open>misc/read_file.h\<close>, and the two ways in: \<open>main\<close> and \<open>runTun2SocksNative\<close>, which the Android library
  uses.  An \<open>int\<close> used as a flag is a truth value and a string that may be \<open>NULL\<close> an optional one.
  The outer \<open>None\<close> is undefined behaviour (a null pointer, a number \<open>atoi\<close> cannot represent), the
  inner one a return of 0.
\<close>

section \<open>Log levels\<close>

definition parse_loglevel :: "string \<Rightarrow> int" where
  "parse_loglevel str =
     (if str = ''none'' then 0
      else if str = ''error'' then BLOG_ERROR
      else if str = ''warning'' then BLOG_WARNING
      else if str = ''notice'' then BLOG_NOTICE
      else if str = ''info'' then BLOG_INFO
      else if str = ''debug'' then BLOG_DEBUG
      else case strtol str of (res, endptr) \<Rightarrow>
        if str \<noteq> [] \<and> endptr = [] \<and> res \<ge> 0 \<and> res \<le> BLOG_DEBUG then res else -1)"

section \<open>Options\<close>

datatype logger = LOGGER_STDOUT | LOGGER_SYSLOG

record options =
  opt_help :: bool
  opt_version :: bool
  opt_logger :: logger
  opt_logger_syslog_facility :: string
  opt_logger_syslog_ident :: string
  opt_loglevel :: int
  opt_loglevels :: "int list"
  opt_tundev :: "string option"
  opt_netif_ipaddr :: "string option"
  opt_netif_netmask :: "string option"
  opt_netif_ip6addr :: "string option"
  opt_socks_server_addr :: "string option"
  opt_username :: "string option"
  opt_password :: "string option"
  opt_password_file :: "string option"
  opt_append_source_to_username :: bool
  opt_udpgw_remote_server_addr :: "string option"
  opt_udpgw_max_connections :: int
  opt_udpgw_connection_buffer_size :: int
  opt_udpgw_transparent_dns :: bool
  opt_tun_fd :: int
  opt_tun_mtu :: int
  opt_set_signal :: bool

definition DEFAULT_UDPGW_CONNECTION_BUFFER_SIZE :: int where
  "DEFAULT_UDPGW_CONNECTION_BUFFER_SIZE = 8"

text \<open>\<open>tun_mtu\<close> keeps its value.\<close>

definition init_arguments :: "string \<Rightarrow> options \<Rightarrow> options" where
  "init_arguments program_name old = \<lparr>
     opt_help = False,
     opt_version = False,
     opt_logger = LOGGER_STDOUT,
     opt_logger_syslog_facility = ''daemon'',
     opt_logger_syslog_ident = program_name,
     opt_loglevel = -1,
     opt_loglevels = replicate BLOG_NUM_CHANNELS (-1),
     opt_tundev = None,
     opt_netif_ipaddr = None,
     opt_netif_netmask = None,
     opt_netif_ip6addr = None,
     opt_socks_server_addr = None,
     opt_username = None,
     opt_password = None,
     opt_password_file = None,
     opt_append_source_to_username = False,
     opt_udpgw_remote_server_addr = None,
     opt_udpgw_max_connections = DEFAULT_UDPGW_MAX_CONNECTIONS,
     opt_udpgw_connection_buffer_size = DEFAULT_UDPGW_CONNECTION_BUFFER_SIZE,
     opt_udpgw_transparent_dns = False,
     opt_tun_fd = 0,
     opt_tun_mtu = opt_tun_mtu old,
     opt_set_signal = True\<rparr>"

text \<open>An option with one argument.\<close>

definition with_argument ::
  "string list \<Rightarrow> (string \<Rightarrow> options option option) \<Rightarrow> (options \<times> string list) option option" where
  "with_argument rest f = (case rest of
     [] \<Rightarrow> Some None
   | a # rest \<Rightarrow> do { r \<leftarrow> f a; Some (case r of None \<Rightarrow> None | Some op \<Rightarrow> Some (op, rest)) })"

abbreviation accept :: "options \<Rightarrow> options option option" where
  "accept op \<equiv> Some (Some op)"

text \<open>The body of the loop: the option \<open>arg\<close>, the arguments after it, and what is left of them.\<close>

definition parse_option :: "string \<Rightarrow> string list \<Rightarrow> options \<Rightarrow> (options \<times> string list) option option" where
  "parse_option arg rest op =
     (if arg = ''--help'' then Some (Some (op\<lparr>opt_help := True\<rparr>, rest))
      else if arg = ''--version'' then Some (Some (op\<lparr>opt_version := True\<rparr>, rest))
      else if arg = ''--logger'' then with_argument rest (\<lambda>arg2.
        if arg2 = ''stdout'' then accept (op\<lparr>opt_logger := LOGGER_STDOUT\<rparr>)
        else if arg2 = ''syslog'' then accept (op\<lparr>opt_logger := LOGGER_SYSLOG\<rparr>)
        else Some None)
      else if arg = ''--syslog-facility'' then with_argument rest (\<lambda>a. accept (op\<lparr>opt_logger_syslog_facility := a\<rparr>))
      else if arg = ''--syslog-ident'' then with_argument rest (\<lambda>a. accept (op\<lparr>opt_logger_syslog_ident := a\<rparr>))
      else if arg = ''--loglevel'' then with_argument rest (\<lambda>a.
        if parse_loglevel a < 0 then Some None else accept (op\<lparr>opt_loglevel := parse_loglevel a\<rparr>))
      else if arg = ''--channel-loglevel'' then
        (case rest of
          a # b # rest \<Rightarrow>
            (let channel = BLogGlobal_GetChannelByName a; loglevel = parse_loglevel b in
             if channel < 0 then Some None
             else if loglevel < 0 then Some None
             else do {
               ls \<leftarrow> mem_write (opt_loglevels op) channel [loglevel];
               Some (Some (op\<lparr>opt_loglevels := ls\<rparr>, rest))
             })
        | _ \<Rightarrow> Some None)
      else if arg = ''--tundev'' then with_argument rest (\<lambda>a. accept (op\<lparr>opt_tundev := Some a\<rparr>))
      else if arg = ''--netif-ipaddr'' then with_argument rest (\<lambda>a. accept (op\<lparr>opt_netif_ipaddr := Some a\<rparr>))
      else if arg = ''--netif-netmask'' then with_argument rest (\<lambda>a. accept (op\<lparr>opt_netif_netmask := Some a\<rparr>))
      else if arg = ''--netif-ip6addr'' then with_argument rest (\<lambda>a. accept (op\<lparr>opt_netif_ip6addr := Some a\<rparr>))
      else if arg = ''--socks-server-addr'' then with_argument rest (\<lambda>a. accept (op\<lparr>opt_socks_server_addr := Some a\<rparr>))
      else if arg = ''--username'' then with_argument rest (\<lambda>a. accept (op\<lparr>opt_username := Some a\<rparr>))
      else if arg = ''--password'' then with_argument rest (\<lambda>a. accept (op\<lparr>opt_password := Some a\<rparr>))
      else if arg = ''--password-file'' then with_argument rest (\<lambda>a. accept (op\<lparr>opt_password_file := Some a\<rparr>))
      else if arg = ''--append-source-to-username'' then Some (Some (op\<lparr>opt_append_source_to_username := True\<rparr>, rest))
      else if arg = ''--udpgw-remote-server-addr'' then with_argument rest (\<lambda>a. accept (op\<lparr>opt_udpgw_remote_server_addr := Some a\<rparr>))
      else if arg = ''--udpgw-max-connections'' then with_argument rest (\<lambda>a. do {
        n \<leftarrow> atoi a;
        if n \<le> 0 then Some None else accept (op\<lparr>opt_udpgw_max_connections := n\<rparr>) })
      else if arg = ''--udpgw-connection-buffer-size'' then with_argument rest (\<lambda>a. do {
        n \<leftarrow> atoi a;
        if n \<le> 0 then Some None else accept (op\<lparr>opt_udpgw_connection_buffer_size := n\<rparr>) })
      else if arg = ''--udpgw-transparent-dns'' then Some (Some (op\<lparr>opt_udpgw_transparent_dns := True\<rparr>, rest))
      else Some None)"

lemma with_argument_shorter: "with_argument rest f = Some (Some (op', rest')) \<Longrightarrow> length rest' < length rest"
  by (auto simp: with_argument_def split: list.splits option.splits Option.bind_splits)

lemma parse_option_shorter: "parse_option arg rest op = Some (Some (op', rest')) \<Longrightarrow> length rest' \<le> length rest"
  unfolding parse_option_def
  by (auto simp: Let_def dest!: with_argument_shorter split: if_splits list.splits Option.bind_splits)

function parse_loop :: "string list \<Rightarrow> options \<Rightarrow> options option option" where
  "parse_loop args op = (case args of
     [] \<Rightarrow> Some (Some op)
   | arg # rest \<Rightarrow> (case parse_option arg rest op of
       None \<Rightarrow> None
     | Some None \<Rightarrow> Some None
     | Some (Some (op, rest)) \<Rightarrow> parse_loop rest op))"
  by pat_completeness auto
termination
  by (relation "measure (\<lambda>(args, op). length args)") (auto dest: parse_option_shorter)

declare parse_loop.simps [simp del]

definition parse_arguments :: "string list \<Rightarrow> options \<Rightarrow> options option option" where
  "parse_arguments argv old =
     (if argv = [] then Some None
      else do {
        r \<leftarrow> parse_loop (tl argv) (init_arguments (hd argv) old);
        case r of None \<Rightarrow> Some None
        | Some op \<Rightarrow>
            if opt_help op \<or> opt_version op then Some (Some op)
            else if opt_netif_ipaddr op = None then Some None
            else if opt_netif_netmask op = None then Some None
            else if opt_socks_server_addr op = None then Some None
            else if opt_username op \<noteq> None \<and> opt_password op = None \<and> opt_password_file op = None then Some None
            else if opt_username op \<noteq> None \<and> opt_password op \<noteq> None \<and> opt_password_file op \<noteq> None then Some None
            else Some (Some op)
      })"

section \<open>Reading the password file\<close>

text \<open>
  An open file is the list of the chunks in which its contents arrive and whether it ends with
  end-of-file or with an error; \<open>fread\<close> returns at most what is asked for and at most one chunk.
\<close>

definition fread :: "nat \<Rightarrow> bytes list \<Rightarrow> bytes \<times> bytes list" where
  "fread n cs = (case cs of [] \<Rightarrow> ([], []) | c # cs \<Rightarrow> if length c \<le> n then (c, cs) else (take n c, drop n c # cs))"

lemma fread_spec:
  assumes "fread n cs = (got, cs')"
  shows "concat cs = got @ concat cs'" "length got \<le> n" "got = [] \<Longrightarrow> [] \<notin> set cs \<Longrightarrow> 0 < n \<Longrightarrow> cs = []"
    "[] \<notin> set cs \<Longrightarrow> [] \<notin> set cs'"
  using assms by (auto simp: fread_def split: list.splits if_splits)

lemma fread_shorter: "(got, cs') = fread n cs \<Longrightarrow> got \<noteq> [] \<Longrightarrow> sum_list (map length cs') < sum_list (map length cs)"
  using fread_spec(1) [of n cs got cs'] by (metis length_concat append_is_Nil_conv length_append less_add_same_cancel2 length_greater_0_conv)

text \<open>\<open>realloc_mem n\<close> is what \<open>realloc\<close> leaves in the new part of a block of size \<open>n\<close>, if it succeeds.\<close>

function read_file_loop :: "(nat \<Rightarrow> bytes option) \<Rightarrow> bool \<Rightarrow> bytes list \<Rightarrow> bytes \<Rightarrow> nat \<Rightarrow> bytes option option" where
  "read_file_loop realloc_mem eof cs buf buf_len =
     (case (if buf_len = length buf then
              if 2 > nat SIZE_MAX div length buf then None
              else map_option (\<lambda>new. buf @ take (length buf) new) (realloc_mem (2 * length buf))
            else Some buf) of
        None \<Rightarrow> Some None
      | Some buf \<Rightarrow> (case fread (length buf - buf_len) cs of (got, cs') \<Rightarrow>
          if got = [] then (if eof \<and> cs' = [] then Some (Some (take buf_len buf)) else Some None)
          else (case mem_write buf (int buf_len) got of
              None \<Rightarrow> None
            | Some buf \<Rightarrow> read_file_loop realloc_mem eof cs' buf (buf_len + length got))))"
  by pat_completeness auto
termination
  by (relation "measure (\<lambda>(realloc_mem, eof, cs, buf, buf_len). sum_list (map length cs))")
    (simp, simp only: in_measure case_prod_conv, rule fread_shorter, assumption+)

declare read_file_loop.simps [simp del]

definition read_file :: "bool \<Rightarrow> bytes option \<Rightarrow> (nat \<Rightarrow> bytes option) \<Rightarrow> bool \<Rightarrow> bytes list \<Rightarrow> bytes option option" where
  "read_file fopen malloc_mem realloc_mem eof cs =
     (if \<not> fopen then Some None
      else case malloc_mem of None \<Rightarrow> Some None
      | Some mem \<Rightarrow> read_file_loop realloc_mem eof cs (take 128 mem) 0)"

text \<open>Allocated blocks have the requested size.\<close>

definition blocks_ok :: "(nat \<Rightarrow> bytes option) \<Rightarrow> bool" where
  "blocks_ok realloc_mem \<longleftrightarrow> (\<forall>n mem. realloc_mem n = Some mem \<longrightarrow> length mem = n)"

lemma read_file_loop_ok:
  assumes "blocks_ok realloc_mem" "buf_len \<le> length buf" "0 < length buf" "[] \<notin> set cs"
  shows "\<exists>r. read_file_loop realloc_mem eof cs buf buf_len = Some r \<and>
    (\<forall>data. r = Some data \<longrightarrow> data = take buf_len buf @ concat cs) \<and>
    (eof \<and> (\<forall>n. 2 * n \<le> nat SIZE_MAX \<longrightarrow> realloc_mem (2 * n) \<noteq> None) \<and> 2 * (buf_len + length (concat cs)) \<le> nat SIZE_MAX \<longrightarrow> r \<noteq> None)"
  using assms
proof (induction realloc_mem eof cs buf buf_len rule: read_file_loop.induct)
  case (1 realloc_mem eof cs buf buf_len)
  let ?grown = "if buf_len = length buf then
              if 2 > nat SIZE_MAX div length buf then None
              else map_option (\<lambda>new. buf @ take (length buf) new) (realloc_mem (2 * length buf))
            else Some buf"
  show ?case
  proof (cases ?grown)
    case None
    then have "buf_len = length buf" by (auto split: if_splits)
    moreover have "2 * length buf \<le> nat SIZE_MAX \<Longrightarrow> \<not> nat SIZE_MAX div length buf < 2"
      using 1(4) by (simp add: not_less less_eq_div_iff_mult_less_eq)
    moreover have "2 * (buf_len + length (concat cs)) \<le> nat SIZE_MAX \<Longrightarrow> 2 * length buf \<le> nat SIZE_MAX" using calculation(1) by simp
    moreover have "\<not> (2 * length buf \<le> nat SIZE_MAX \<and> (\<forall>n. 2 * n \<le> nat SIZE_MAX \<longrightarrow> realloc_mem (2 * n) \<noteq> None))"
      using None calculation(1,2) by (auto split: if_splits)
    ultimately show ?thesis using None by (subst read_file_loop.simps) auto
  next
    case (Some b)
    obtain got cs' where f: "fread (length b - buf_len) cs = (got, cs')" by fastforce
    note fs = fread_spec [OF f]
    have b: "buf_len < length b" "take buf_len b = take buf_len buf" "length b \<le> length buf * 2"
      "length b = length buf \<or> length buf = buf_len"
      using Some 1(2-4) by (auto simp: blocks_ok_def split: if_splits)
    show ?thesis
    proof (cases "got = []")
      case True
      then have "cs = []" using fs(3) 1(5) b(1) by simp
      with True Some f b show ?thesis by (subst read_file_loop.simps) (auto simp: fread_def)
    next
      case False
      let ?b = "take buf_len b @ got @ drop (buf_len + length got) b"
      have w: "mem_write b (int buf_len) got = Some ?b" using fs(2) b(1) by (simp add: mem_write_def)
      have lb: "length ?b = length b" "buf_len + length got \<le> length ?b" "0 < length ?b" using fs(2) b(1) by auto
      have tk: "take (buf_len + length got) ?b = take buf_len buf @ got" using b(1) unfolding b(2) [symmetric] by simp
      have "read_file_loop realloc_mem eof cs buf buf_len = read_file_loop realloc_mem eof cs' ?b (buf_len + length got)"
        using Some f False w by (subst read_file_loop.simps) simp
      then show ?thesis
        using 1(1) [OF Some f [symmetric] False w 1(2) lb(2,3) fs(4) [OF 1(5)]] fs(1) unfolding tk by auto
    qed
  qed
qed

lemma read_file_ok:
  assumes "blocks_ok realloc_mem" "\<And>mem. malloc_mem = Some mem \<Longrightarrow> length mem = 128" "[] \<notin> set cs"
  shows "\<exists>r. read_file fopen malloc_mem realloc_mem eof cs = Some r \<and> (\<forall>data. r = Some data \<longrightarrow> data = concat cs) \<and>
    (fopen \<and> malloc_mem \<noteq> None \<and> eof \<and> (\<forall>n. 2 * n \<le> nat SIZE_MAX \<longrightarrow> realloc_mem (2 * n) \<noteq> None) \<and>
      2 * length (concat cs) \<le> nat SIZE_MAX \<longrightarrow> r \<noteq> None)"
proof (cases "fopen \<and> malloc_mem \<noteq> None")
  case True
  then obtain mem where m: "malloc_mem = Some mem" "length mem = 128" using assms(2) by auto
  from read_file_loop_ok [OF assms(1), of 0 "take 128 mem" cs eof] True m assms(3)
  show ?thesis by (auto simp: read_file_def)
qed (auto simp: read_file_def)

section \<open>Processing the options\<close>

record processed =
  pa_netif_ipaddr :: "32 word"
  pa_netif_netmask :: "32 word"
  pa_netif_ip6addr :: "bytes option"
  pa_socks_server_addr :: BAddr
  pa_socks_auth_info :: "BSocksClient_auth_info list"
  pa_udpgw_remote_server_addr :: BAddr

definition str_bytes :: "string \<Rightarrow> bytes" where
  "str_bytes s = map char_byte s"

text \<open>The address of an interface must be an IPv4 address; \<open>NULL\<close> is not a string.\<close>

definition resolve_ipv4 :: "resolver \<Rightarrow> string option \<Rightarrow> 32 word option option" where
  "resolve_ipv4 getaddrinfo str = do {
     s \<leftarrow> str;
     r \<leftarrow> BIPAddr_Resolve getaddrinfo s False;
     Some (case r of Some (BIPADDR_IPV4 ip) \<Rightarrow> Some ip | _ \<Rightarrow> None)
   }"

text \<open>
  The result also says whether \<open>password_file_contents\<close> has been set; \<open>pw_file\<close> is the result of
  reading the file with a given name.
\<close>

definition process_password :: "(string \<Rightarrow> bytes option) \<Rightarrow> options \<Rightarrow> (bool \<times> BSocksClient_auth_info list option) option" where
  "process_password pw_file op = (case opt_username op of
     None \<Rightarrow> Some (False, Some [BSocksClient_auth_none])
   | Some username \<Rightarrow> (case opt_password op of
       Some password \<Rightarrow> Some (False, Some [BSocksClient_auth_none, BSocksClient_auth_password (str_bytes username) (str_bytes password)])
     | None \<Rightarrow> do {
         name \<leftarrow> opt_password_file op;
         Some (case pw_file name of
             None \<Rightarrow> (False, None)
           | Some contents \<Rightarrow> (True, Some [BSocksClient_auth_none, BSocksClient_auth_password (str_bytes username) contents]))
       }))"

definition process_arguments ::
  "resolver \<Rightarrow> (string \<Rightarrow> bytes option) \<Rightarrow> bytes \<Rightarrow> options \<Rightarrow> (bool \<times> processed option) option" where
  "process_arguments getaddrinfo pw_file netif_ip6addr op = do {
     r1 \<leftarrow> resolve_ipv4 getaddrinfo (opt_netif_ipaddr op);
     case r1 of None \<Rightarrow> Some (False, None) | Some ip \<Rightarrow> do {
     r2 \<leftarrow> resolve_ipv4 getaddrinfo (opt_netif_netmask op);
     case r2 of None \<Rightarrow> Some (False, None) | Some netmask \<Rightarrow> do {
     r3 \<leftarrow> (case opt_netif_ip6addr op of
             None \<Rightarrow> Some (Some None)
           | Some s \<Rightarrow> map_option (map_option Some) (ipaddr6_parse_ipv6_addr s netif_ip6addr));
     case r3 of None \<Rightarrow> Some (False, None) | Some ip6 \<Rightarrow> do {
     socks_str \<leftarrow> opt_socks_server_addr op;
     r4 \<leftarrow> BAddr_Parse2 getaddrinfo socks_str None False;
     case r4 of None \<Rightarrow> Some (False, None) | Some (socks, _) \<Rightarrow> do {
     (pw, r5) \<leftarrow> process_password pw_file op;
     case r5 of None \<Rightarrow> Some (pw, None) | Some auth \<Rightarrow> do {
     r6 \<leftarrow> (case opt_udpgw_remote_server_addr op of
             None \<Rightarrow> Some (Some BADDR_TYPE_NONE)
           | Some s \<Rightarrow> map_option (map_option fst) (BAddr_Parse2 getaddrinfo s None False));
     Some (pw, map_option (\<lambda>udpgw. \<lparr>pa_netif_ipaddr = ip, pa_netif_netmask = netmask, pa_netif_ip6addr = ip6,
       pa_socks_server_addr = socks, pa_socks_auth_info = auth, pa_udpgw_remote_server_addr = udpgw\<rparr>) r6)
     }}}}}}"

section \<open>The program\<close>

text \<open>Before anything else \<open>run\<close> gives every channel its level.\<close>

fun configure_channels :: "int \<Rightarrow> int list \<Rightarrow> int \<Rightarrow> blog_global \<Rightarrow> blog_global option" where
  "configure_channels i [] loglevel g = Some g"
| "configure_channels i (l # ls) loglevel g = do {
     g \<leftarrow> (if l \<ge> 0 then BLog_SetChannelLoglevel i l g
           else if loglevel \<ge> 0 then BLog_SetChannelLoglevel i loglevel g
           else Some g);
     configure_channels (i + 1) ls loglevel g
   }"

definition run_options_of :: "options \<Rightarrow> processed \<Rightarrow> run_options" where
  "run_options_of op pa = \<lparr>op_set_signal = opt_set_signal op, op_udpgw = (opt_udpgw_remote_server_addr op \<noteq> None),
     op_ip6 = (opt_netif_ip6addr op \<noteq> None), op_transparent_dns = opt_udpgw_transparent_dns op,
     op_netif_ipaddr = pa_netif_ipaddr pa, op_socks_server_addr = pa_socks_server_addr pa,
     op_auth_info = pa_socks_auth_info pa, op_udpgw_remote_server_addr = pa_udpgw_remote_server_addr pa,
     op_udpgw_connection_buffer_size = opt_udpgw_connection_buffer_size op,
     op_relay = \<lparr>ro_print = BAddr_Print, ro_username = opt_username op, ro_append_source = opt_append_source_to_username op\<rparr>\<rparr>"

definition no_processed :: processed where
  "no_processed = \<lparr>pa_netif_ipaddr = 0, pa_netif_netmask = 0, pa_netif_ip6addr = None, pa_socks_server_addr = BADDR_TYPE_NONE,
     pa_socks_auth_info = [], pa_udpgw_remote_server_addr = BADDR_TYPE_NONE\<rparr>"

text \<open>
  \<open>run\<close> with its own arguments processing.  With a given file descriptor the device's MTU is the
  option; otherwise it is what the operating system says.
\<close>

definition run_with_options ::
  "realloc \<Rightarrow> resolver \<Rightarrow> (string \<Rightarrow> bytes option) \<Rightarrow> bytes \<Rightarrow> options \<Rightarrow> run_env \<Rightarrow> t2s_event list \<Rightarrow> run_result option" where
  "run_with_options BRealloc getaddrinfo pw_file netif_ip6addr op re script =
     (let re = (if opt_tun_fd op \<noteq> 0 then re\<lparr>re_mtu := opt_tun_mtu op\<rparr> else re) in
      if \<not> re_network re then run BRealloc (run_options_of op no_processed) (re\<lparr>re_password_file := False\<rparr>) script
      else do {
        (pw, r) \<leftarrow> process_arguments getaddrinfo pw_file netif_ip6addr op;
        run BRealloc (run_options_of op (case r of None \<Rightarrow> no_processed | Some pa \<Rightarrow> pa))
          (re\<lparr>re_password_file := pw, re_process_arguments := (r \<noteq> None)\<rparr>) script
      })"

text \<open>The Java side's call.  All its strings but the IPv6 address are there.\<close>

definition native_options :: "int \<Rightarrow> int \<Rightarrow> string \<Rightarrow> string \<Rightarrow> string option \<Rightarrow> string \<Rightarrow> string \<Rightarrow> int \<Rightarrow> options \<Rightarrow> options" where
  "native_options vpn_interface_file_descriptor vpn_interface_mtu vpn_ipv4_address vpn_ipv4_netmask vpn_ipv6_address
     socks_server_address udpgw_server_address udpgw_transparent_dns old =
   (init_arguments ''Psiphon tun2socks'' old)\<lparr>
     opt_tun_fd := vpn_interface_file_descriptor,
     opt_tun_mtu := vpn_interface_mtu,
     opt_netif_ipaddr := Some vpn_ipv4_address,
     opt_netif_netmask := Some vpn_ipv4_netmask,
     opt_netif_ip6addr := vpn_ipv6_address,
     opt_socks_server_addr := Some socks_server_address,
     opt_udpgw_remote_server_addr := Some udpgw_server_address,
     opt_udpgw_transparent_dns := (udpgw_transparent_dns \<noteq> 0),
     opt_set_signal := False,
     opt_loglevel := 2\<rparr>"

section \<open>Accepted options are what the program needs\<close>

definition options_ok :: "options \<Rightarrow> bool" where
  "options_ok op \<longleftrightarrow> 0 < opt_udpgw_connection_buffer_size op \<and> 0 < opt_udpgw_max_connections op \<and>
     -1 \<le> opt_loglevel op \<and> opt_loglevel op \<le> BLOG_DEBUG \<and> length (opt_loglevels op) = BLOG_NUM_CHANNELS \<and>
     list_all (\<lambda>l. -1 \<le> l \<and> l \<le> BLOG_DEBUG) (opt_loglevels op)"

definition options_given :: "options \<Rightarrow> bool" where
  "options_given op \<longleftrightarrow> opt_netif_ipaddr op \<noteq> None \<and> opt_netif_netmask op \<noteq> None \<and> opt_socks_server_addr op \<noteq> None \<and>
     (opt_username op \<noteq> None \<longrightarrow> (opt_password op \<noteq> None) \<noteq> (opt_password_file op \<noteq> None))"

lemma parse_loglevel_range: "-1 \<le> parse_loglevel s \<and> parse_loglevel s \<le> BLOG_DEBUG"
  by (auto simp: parse_loglevel_def blog_levels split: prod.splits)

lemma init_arguments_ok: "options_ok (init_arguments name old)"
  by (simp add: options_ok_def init_arguments_def DEFAULT_UDPGW_CONNECTION_BUFFER_SIZE_def DEFAULT_UDPGW_MAX_CONNECTIONS_def blog_levels
      list_all_length)

lemma with_argument_keeps:
  "with_argument rest f = Some (Some (op', rest')) \<Longrightarrow> (\<And>a op'. f a = Some (Some op') \<Longrightarrow> P op') \<Longrightarrow> P op'"
  by (auto simp: with_argument_def split: list.splits option.splits Option.bind_splits)

lemma list_all_update: "list_all P xs \<Longrightarrow> P x \<Longrightarrow> list_all P (xs[i := x])"
  using set_update_subset_insert [of xs i x] by (auto simp: list_all_iff)

lemma parse_option_ok:
  assumes "options_ok op" "parse_option arg rest op = Some (Some (op', rest'))"
  shows "options_ok op'"
proof (cases "arg = ''--channel-loglevel''")
  case True
  then obtain a b rest2 where r: "rest = a # b # rest2" using assms(2) by (auto simp: parse_option_def split: list.splits)
  let ?c = "BLogGlobal_GetChannelByName a"
  from True assms(2) obtain ls where ls: "0 \<le> ?c" "mem_write (opt_loglevels op) ?c [parse_loglevel b] = Some ls" "op' = op\<lparr>opt_loglevels := ls\<rparr>"
    by (auto simp: parse_option_def r Let_def split: if_splits Option.bind_splits)
  then have "ls = (opt_loglevels op)[nat ?c := parse_loglevel b]"
    by (auto simp: mem_write_def upd_conv_take_nth_drop split: if_splits)
  then show ?thesis using assms(1) ls(3) parse_loglevel_range [of b]
    by (auto simp: options_ok_def list_all_update)
next
  case False
  then show ?thesis using assms parse_loglevel_range unfolding parse_option_def
    by (auto split: if_splits elim!: with_argument_keeps intro: with_argument_keeps simp: options_ok_def split: Option.bind_splits)
qed

lemma parse_loop_ok:
  "parse_loop args op = Some (Some op') \<Longrightarrow> options_ok op \<Longrightarrow> options_ok op'"
proof (induction args op rule: parse_loop.induct)
  case (1 args op)
  then show ?case
    by (subst (asm) (2) parse_loop.simps) (auto split: list.splits option.splits dest: parse_option_ok)
qed

lemma parse_arguments_ok:
  assumes "parse_arguments argv old = Some (Some op)"
  shows "options_ok op" "opt_help op \<or> opt_version op \<or> options_given op"
proof -
  from assms obtain op1 where op1: "parse_loop (tl argv) (init_arguments (hd argv) old) = Some (Some op1)"
    and eq: "op1 = op" "opt_help op \<or> opt_version op \<or> options_given op"
    by (auto simp: parse_arguments_def options_given_def split: if_splits option.splits Option.bind_splits)
  show "options_ok op" using parse_loop_ok [OF op1 init_arguments_ok] eq(1) by simp
  show "opt_help op \<or> opt_version op \<or> options_given op" by (rule eq(2))
qed

text \<open>A number out of the range of \<open>int\<close> is the only way to undefined behaviour.\<close>

lemma with_argument_defined: "(\<And>a. a \<in> set rest \<Longrightarrow> f a \<noteq> None) \<Longrightarrow> with_argument rest f \<noteq> None"
  by (cases rest) (fastforce simp: with_argument_def)+

lemma if_defined: "(c \<Longrightarrow> x \<noteq> None) \<Longrightarrow> (\<not> c \<Longrightarrow> y \<noteq> None) \<Longrightarrow> (if c then x else y) \<noteq> None"
  by simp

lemma parse_option_defined:
  assumes "options_ok op" "\<forall>a\<in>set rest. atoi a \<noteq> None"
  shows "parse_option arg rest op \<noteq> None"
proof (cases "arg = ''--channel-loglevel''")
  case True
  have "\<exists>ls. mem_write (opt_loglevels op) (BLogGlobal_GetChannelByName a) [l] = Some ls" if "\<not> BLogGlobal_GetChannelByName a < 0" for a l
    using that BLogGlobal_GetChannelByName_ok [of a] assms(1) by (auto simp: mem_write_def options_ok_def)
  note w = this
  consider "length rest < 2" | a b rest2 where "rest = a # b # rest2"
    by (cases rest; cases "tl rest") auto
  then show ?thesis
  proof cases
    case 1
    with True show ?thesis by (auto simp: parse_option_def split: list.splits)
  next
    case 2
    show ?thesis using True w [of a "parse_loglevel b"] by (auto simp: parse_option_def Let_def 2)
  qed
next
  case False
  have a: "atoi a \<bind> (\<lambda>n. if n \<le> 0 then Some None else accept (f n)) \<noteq> None" if "a \<in> set rest" for a f
    using assms(2) that by auto
  show ?thesis unfolding parse_option_def by (intro if_defined with_argument_defined a) (simp_all only: False option.distinct, simp_all)
qed

lemma with_argument_subset: "with_argument rest f = Some (Some (op', rest')) \<Longrightarrow> set rest' \<subseteq> set rest"
  by (auto simp: with_argument_def split: list.splits option.splits Option.bind_splits)

lemma parse_option_subset: "parse_option arg rest op = Some (Some (op', rest')) \<Longrightarrow> set rest' \<subseteq> set rest"
  unfolding parse_option_def
  by (auto simp: Let_def dest!: with_argument_subset split: if_splits list.splits Option.bind_splits)

lemma parse_loop_defined:
  "options_ok op \<Longrightarrow> \<forall>a\<in>set args. atoi a \<noteq> None \<Longrightarrow> parse_loop args op \<noteq> None"
proof (induction args op rule: parse_loop.induct)
  case (1 args op)
  show ?case
  proof (cases args)
    case (Cons arg rest)
    from parse_option_defined [OF 1(2), of rest arg] 1(3) Cons obtain r where r: "parse_option arg rest op = Some r" by auto
    show ?thesis
    proof (cases r)
      case (Some p)
      then obtain op1 rest1 where p: "parse_option arg rest op = Some (Some (op1, rest1))" using r by (cases p) simp
      have "parse_loop rest1 op1 \<noteq> None"
        using 1(1) [OF Cons p refl refl parse_option_ok [OF 1(2) p]] parse_option_subset [OF p] 1(3) Cons by auto
      then show ?thesis using Cons p by (subst parse_loop.simps) simp
    qed (use Cons r in \<open>simp add: parse_loop.simps\<close>)
  qed (simp add: parse_loop.simps)
qed

lemma parse_arguments_defined:
  assumes "\<forall>a\<in>set argv. atoi a \<noteq> None"
  shows "parse_arguments argv old \<noteq> None"
proof (cases argv)
  case (Cons prog args)
  then obtain r where "parse_loop args (init_arguments prog old) = Some r"
    using parse_loop_defined [OF init_arguments_ok] assms by fastforce
  then show ?thesis using Cons by (auto simp: parse_arguments_def split: option.splits)
qed (simp add: parse_arguments_def)

text \<open>What \<open>process_arguments\<close> establishes.\<close>

definition processed_ok :: "options \<Rightarrow> processed \<Rightarrow> bool" where
  "processed_ok op pa \<longleftrightarrow> BAddr_wf (pa_socks_server_addr pa) \<and> \<not> BAddr_IsInvalid (pa_socks_server_addr pa) \<and>
     (opt_netif_ip6addr op \<noteq> None \<longleftrightarrow> pa_netif_ip6addr pa \<noteq> None) \<and>
     (\<forall>a. pa_netif_ip6addr pa = Some a \<longrightarrow> length a = 16) \<and>
     (\<forall>ai\<in>set (pa_socks_auth_info pa). auth_type ai = SOCKS_METHOD_NO_AUTHENTICATION_REQUIRED \<or> auth_type ai = SOCKS_METHOD_USERNAME_PASSWORD) \<and>
     (opt_udpgw_remote_server_addr op \<noteq> None \<longrightarrow>
        BAddr_wf (pa_udpgw_remote_server_addr pa) \<and> pa_udpgw_remote_server_addr pa \<noteq> BADDR_TYPE_NONE)"

lemma resolve_ipv4_defined:
  assumes "resolver_ok r" "str \<noteq> None"
  shows "\<exists>x. resolve_ipv4 r str = Some x"
proof -
  obtain s where "str = Some s" using assms(2) by auto
  with BIPAddr_Resolve_ok [OF assms(1), of s False] show ?thesis by (auto simp: resolve_ipv4_def)
qed

lemma process_password_ok:
  assumes "options_given op"
  shows "\<exists>pw r. process_password f op = Some (pw, r) \<and> (pw \<longrightarrow> opt_username op \<noteq> None \<and> opt_password op = None) \<and>
    (\<forall>auth. r = Some auth \<longrightarrow> (\<forall>ai\<in>set auth. auth_type ai = SOCKS_METHOD_NO_AUTHENTICATION_REQUIRED \<or> auth_type ai = SOCKS_METHOD_USERNAME_PASSWORD))"
  using assms
  by (auto simp: process_password_def options_given_def BSocksClient_auth_none_def BSocksClient_auth_password_def split: option.splits)

lemma ip6_option_ok:
  assumes "length buf = 16"
  shows "\<exists>x. (case s of None \<Rightarrow> Some (Some None) | Some s \<Rightarrow> map_option (map_option Some) (ipaddr6_parse_ipv6_addr s buf)) = Some x \<and>
    (\<forall>y. x = Some y \<longrightarrow> (s \<noteq> None \<longleftrightarrow> y \<noteq> None) \<and> (\<forall>a. y = Some a \<longrightarrow> length a = 16))"
proof (cases s)
  case (Some t)
  from ipaddr6_parse_safe [OF assms, of t] Some show ?thesis by auto
qed simp

lemma udpgw_option_ok:
  assumes "resolver_ok r"
  shows "\<exists>x. (case s of None \<Rightarrow> Some (Some BADDR_TYPE_NONE) | Some s \<Rightarrow> map_option (map_option fst) (BAddr_Parse2 r s None False)) = Some x \<and>
    (\<forall>a. x = Some a \<longrightarrow> s \<noteq> None \<longrightarrow> BAddr_wf a \<and> a \<noteq> BADDR_TYPE_NONE)"
proof (cases s)
  case (Some t)
  from BAddr_Parse2_ok [OF assms, of t None False] Some show ?thesis by auto
qed simp

lemma process_arguments_ok:
  assumes r: "resolver_ok getaddrinfo" and op: "options_given op" and buf: "length buf = 16"
  shows "\<exists>pw res. process_arguments getaddrinfo pw_file buf op = Some (pw, res) \<and>
    (pw \<longrightarrow> opt_username op \<noteq> None \<and> opt_password op = None) \<and> (\<forall>pa. res = Some pa \<longrightarrow> processed_ok op pa)"
proof -
  have given: "opt_netif_ipaddr op \<noteq> None" "opt_netif_netmask op \<noteq> None" "opt_socks_server_addr op \<noteq> None"
    using op by (simp_all add: options_given_def)
  obtain r1 r2 where r12: "resolve_ipv4 getaddrinfo (opt_netif_ipaddr op) = Some r1" "resolve_ipv4 getaddrinfo (opt_netif_netmask op) = Some r2"
    using resolve_ipv4_defined [OF r] given by blast
  obtain r3 where r3: "(case opt_netif_ip6addr op of None \<Rightarrow> Some (Some None)
      | Some s \<Rightarrow> map_option (map_option Some) (ipaddr6_parse_ipv6_addr s buf)) = Some r3"
    "\<And>y. r3 = Some y \<Longrightarrow> (opt_netif_ip6addr op \<noteq> None \<longleftrightarrow> y \<noteq> None) \<and> (\<forall>a. y = Some a \<longrightarrow> length a = 16)"
    using ip6_option_ok [OF buf, of "opt_netif_ip6addr op"] by blast
  obtain s where s: "opt_socks_server_addr op = Some s" using given by auto
  obtain r4 where r4: "BAddr_Parse2 getaddrinfo s None False = Some r4" "\<And>a h. r4 = Some (a, h) \<Longrightarrow> BAddr_wf a \<and> a \<noteq> BADDR_TYPE_NONE"
    using BAddr_Parse2_ok [OF r, of s None False] by blast
  obtain pw r5 where r5: "process_password pw_file op = Some (pw, r5)" "pw \<Longrightarrow> opt_username op \<noteq> None \<and> opt_password op = None"
    "\<And>auth. r5 = Some auth \<Longrightarrow> \<forall>ai\<in>set auth. auth_type ai = SOCKS_METHOD_NO_AUTHENTICATION_REQUIRED \<or> auth_type ai = SOCKS_METHOD_USERNAME_PASSWORD"
    using process_password_ok [OF op, of pw_file] by blast
  obtain r6 where r6: "(case opt_udpgw_remote_server_addr op of None \<Rightarrow> Some (Some BADDR_TYPE_NONE)
      | Some s \<Rightarrow> map_option (map_option fst) (BAddr_Parse2 getaddrinfo s None False)) = Some r6"
    "\<And>a. r6 = Some a \<Longrightarrow> opt_udpgw_remote_server_addr op \<noteq> None \<Longrightarrow> BAddr_wf a \<and> a \<noteq> BADDR_TYPE_NONE"
    using udpgw_option_ok [OF r, of "opt_udpgw_remote_server_addr op"] by blast
  note all = r12 r3(1) s r4(1) r5(1) r6(1)
  show ?thesis
  proof (cases "r1 = None \<or> r2 = None \<or> r3 = None \<or> r4 = None")
    case True
    then have "process_arguments getaddrinfo pw_file buf op = Some (False, None)"
      unfolding process_arguments_def by (cases r1; cases r2; cases r3) (simp_all add: all)
    then show ?thesis by auto
  next
    case False
    then obtain ip nm ip6 socks h where e: "r1 = Some ip" "r2 = Some nm" "r3 = Some ip6" "r4 = Some (socks, h)" by auto
    let ?mk = "\<lambda>auth udpgw. \<lparr>pa_netif_ipaddr = ip, pa_netif_netmask = nm, pa_netif_ip6addr = ip6, pa_socks_server_addr = socks,
      pa_socks_auth_info = auth, pa_udpgw_remote_server_addr = udpgw\<rparr>"
    have p: "process_arguments getaddrinfo pw_file buf op =
      Some (pw, case r5 of None \<Rightarrow> None | Some auth \<Rightarrow> map_option (?mk auth) r6)"
      unfolding process_arguments_def by (cases r5) (simp_all add: all e)
    have "processed_ok op (?mk auth udpgw)" if "r5 = Some auth" "r6 = Some udpgw" for auth udpgw
      using r3(2) [OF e(3)] r4(2) [OF e(4)] r5(3) [OF that(1)] r6(2) [OF that(2)] by (simp add: processed_ok_def BAddr_IsInvalid_def)
    then show ?thesis unfolding p using r5(2) by (auto split: option.splits)
  qed
qed

lemma run_pre_of_options:
  assumes "options_ok op" "processed_ok op pa" "0 \<le> re_mtu re" "\<forall>wb. re_write_buf re = Some wb \<longrightarrow> int (length wb) = re_mtu re"
  shows "run_pre (run_options_of op pa) re"
  using assms by (auto simp: run_pre_def run_options_of_def options_ok_def processed_ok_def)

text \<open>With no arguments processed the program does not come to use the options.\<close>

lemma run_early_exit:
  assumes "\<not> (re_network re \<and> re_process_arguments re)" "\<not> re_network re \<longrightarrow> \<not> re_password_file re"
  shows "\<exists>st. run BRealloc op re script = Some (Exited st) \<and> balanced st"
proof -
  let ?z = "\<lparr>rs_held = [], rs_acquired = [], rs_released = []\<rparr>"
  have z: "stacked [] ?z" by (simp add: stacked_def)
  from stacked_only_if [OF z, of PasswordFile "re_password_file re"] obtain s0 where
    s0: "only_if (re_password_file re) (acquire PasswordFile) ?z = Some s0" "stacked (pw_stack (re_password_file re)) s0" by auto
  from fail1_ok [OF s0(2)] fail1_ok [of False ?z] z assms s0(1) show ?thesis
    by (cases "re_network re") (auto simp: run_def)
qed

lemma run_with_options_ok:
  assumes alloc: "realloc_ok BRealloc" and r: "resolver_ok getaddrinfo" and op: "options_given op" "options_ok op" "opt_set_signal op"
    and buf: "length buf = 16" and mtu: "0 \<le> (if opt_tun_fd op \<noteq> 0 then opt_tun_mtu op else re_mtu re)"
      "\<forall>wb. re_write_buf re = Some wb \<longrightarrow> int (length wb) = (if opt_tun_fd op \<noteq> 0 then opt_tun_mtu op else re_mtu re)"
  shows "\<exists>res. run_with_options BRealloc getaddrinfo pw_file buf op re script = Some res \<and>
    (case res of Running s \<Rightarrow> t2s_inv s \<and> \<not> ts_quitting s | Exited st \<Rightarrow> balanced st)"
proof -
  obtain pw rs where p: "process_arguments getaddrinfo pw_file buf op = Some (pw, rs)" "\<And>pa. rs = Some pa \<Longrightarrow> processed_ok op pa"
    using process_arguments_ok [OF r op(1) buf, of pw_file] by blast
  let ?re = "if opt_tun_fd op \<noteq> 0 then re\<lparr>re_mtu := opt_tun_mtu op\<rparr> else re"
  show ?thesis
  proof (cases "re_network ?re")
    case False
    with run_early_exit [of "?re\<lparr>re_password_file := False\<rparr>"] show ?thesis by (fastforce simp: run_with_options_def Let_def)
  next
    case True
    let ?re2 = "?re\<lparr>re_password_file := pw, re_process_arguments := (rs \<noteq> None)\<rparr>"
    have eq: "run_with_options BRealloc getaddrinfo pw_file buf op re script =
      run BRealloc (run_options_of op (case rs of None \<Rightarrow> no_processed | Some pa \<Rightarrow> pa)) ?re2 script"
      using True p(1) unfolding run_with_options_def Let_def by simp
    show ?thesis
    proof (cases rs)
      case None
      have "\<not> (re_network ?re2 \<and> re_process_arguments ?re2)" "\<not> re_network ?re2 \<longrightarrow> \<not> re_password_file ?re2" using None True by simp_all
      from run_early_exit [OF this] show ?thesis unfolding eq by fastforce
    next
      case (Some pa)
      have "run_pre (run_options_of op pa) ?re2" by (rule run_pre_of_options [OF op(2) p(2) [OF Some]]) (use mtu in \<open>auto split: if_splits\<close>)
      from run_ok [OF alloc this] op(3) Some show ?thesis unfolding eq by (simp add: run_options_of_def)
    qed
  qed
qed

section \<open>The Android entry\<close>

lemma native_options_ok:
  "options_given (native_options fd mtu ip nm ip6 socks udpgw dns old)" "options_ok (native_options fd mtu ip nm ip6 socks udpgw dns old)"
  "\<not> opt_set_signal (native_options fd mtu ip nm ip6 socks udpgw dns old)"
  using init_arguments_ok [of "''Psiphon tun2socks''" old]
  by (simp_all add: native_options_def options_given_def options_ok_def init_arguments_def blog_levels)

text \<open>
  With every call into the operating system successful, the Android program runs its event loop:
  until one of the events asks it to quit, the result is a running program in a valid state.
\<close>

lemma run_running:
  assumes alloc: "realloc_ok BRealloc" and pre: "run_pre op re"
    and env: "re_network re" "re_process_arguments re" "re_reactor re" "op_set_signal op \<longrightarrow> re_signal re" "re_tap re" "re_read_buffer re"
    and wb: "re_write_buf re = Some wb" and gw: "init_udpgw op re = Some (Some w)"
  shows "\<exists>s. BReactor_Exec BRealloc (op_relay op) script (t2s_initial op (re_mtu re) w wb) = Some s \<and> t2s_inv s \<and>
    (\<not> ts_quitting s \<longrightarrow> run BRealloc op re script = Some (Running s))"
proof -
  have w: "op_udpgw op \<longrightarrow> su_inv w \<and> ug_udp_mtu (su_udpgw_client w) = compute_udp_mtu (re_mtu re) (op_ip6 op)"
    using init_udpgw_ok [OF pre] gw by auto
  from BReactor_Exec_ok [OF t2s_initial_inv [OF pre wb w] alloc, of "op_relay op" script] obtain s where
    s: "BReactor_Exec BRealloc (op_relay op) script (t2s_initial op (re_mtu re) w wb) = Some s" "t2s_inv s" by blast
  have "run BRealloc op re script = Some (Running s)" if "\<not> ts_quitting s"
    using env wb gw s that
    by (cases "re_password_file re"; cases "op_set_signal op"; cases "op_udpgw op") (simp_all add: run_def run_device_def only_if_def acquire_def Let_def)
  with s show ?thesis by blast
qed

lemma list_update_same: "i < length xs \<Longrightarrow> (map f xs)[i := f (xs ! i)] = map f xs"
  by (metis list_update_id map_update)

lemma configure_channels_ok:
  assumes "bl_inv g" "0 \<le> i" "i + int (length ls) = int BLOG_NUM_CHANNELS" "loglevel \<le> BLOG_DEBUG" "list_all (\<lambda>l. l \<le> BLOG_DEBUG) ls"
  shows "\<exists>g'. configure_channels i ls loglevel g = Some g' \<and> bl_inv g' \<and> bl_logging g' = bl_logging g \<and> bl_out g' = bl_out g \<and>
    (\<forall>k < BLOG_NUM_CHANNELS. snd (bl_channels g' ! k) =
      (if k < nat i then snd (bl_channels g ! k)
       else if ls ! (k - nat i) \<ge> 0 then ls ! (k - nat i) else if loglevel \<ge> 0 then loglevel else snd (bl_channels g ! k)))"
  using assms
proof (induction ls arbitrary: i g)
  case Nil
  then show ?case by auto
next
  case (Cons l ls)
  let ?set = "if l \<ge> 0 then BLog_SetChannelLoglevel i l g else if loglevel \<ge> 0 then BLog_SetChannelLoglevel i loglevel g else Some g"
  let ?v = "if l \<ge> 0 then l else if loglevel \<ge> 0 then loglevel else snd (bl_channels g ! nat i)"
  have len: "length (bl_channels g) = BLOG_NUM_CHANNELS" using Cons.prems(1) by (simp add: bl_inv_def)
  have i: "channel_ok i" using Cons.prems(2,3) by simp
  then have ni: "nat i < BLOG_NUM_CHANNELS" by linarith
  have "\<exists>g1. ?set = Some g1 \<and> bl_inv g1 \<and> bl_logging g1 = bl_logging g \<and> bl_out g1 = bl_out g \<and>
    map snd (bl_channels g1) = (map snd (bl_channels g))[nat i := ?v]"
    using BLog_SetChannelLoglevel_ok [OF Cons.prems(1) i, of l] BLog_SetChannelLoglevel_ok [OF Cons.prems(1) i, of loglevel] Cons.prems(1,4,5) len ni
    by (auto simp: list_update_same)
  then obtain g1 where g1: "?set = Some g1" "bl_inv g1" "bl_logging g1 = bl_logging g" "bl_out g1 = bl_out g"
    "map snd (bl_channels g1) = (map snd (bl_channels g))[nat i := ?v]" by blast
  have len1: "length (bl_channels g1) = BLOG_NUM_CHANNELS" using g1(2) by (simp add: bl_inv_def)
  have ch: "snd (bl_channels g1 ! k) = (if k = nat i then ?v else snd (bl_channels g ! k))" if "k < BLOG_NUM_CHANNELS" for k
    using arg_cong [OF g1(5), of "\<lambda>xs. xs ! k"] that len len1 by (simp add: nth_list_update)
  from Cons.IH [OF g1(2), of "i + 1"] Cons.prems(2-5) obtain g2 where
    g2: "configure_channels (i + 1) ls loglevel g1 = Some g2" "bl_inv g2" "bl_logging g2 = bl_logging g1" "bl_out g2 = bl_out g1"
    "\<And>k. k < BLOG_NUM_CHANNELS \<Longrightarrow> snd (bl_channels g2 ! k) =
      (if k < nat (i + 1) then snd (bl_channels g1 ! k)
       else if ls ! (k - nat (i + 1)) \<ge> 0 then ls ! (k - nat (i + 1)) else if loglevel \<ge> 0 then loglevel else snd (bl_channels g1 ! k))"
    by auto
  have "snd (bl_channels g2 ! k) =
      (if k < nat i then snd (bl_channels g ! k)
       else if (l # ls) ! (k - nat i) \<ge> 0 then (l # ls) ! (k - nat i) else if loglevel \<ge> 0 then loglevel else snd (bl_channels g ! k))"
    if k: "k < BLOG_NUM_CHANNELS" for k
  proof -
    consider "k < nat i" | "k = nat i" | j where "k = nat i + Suc j" by (metis less_imp_Suc_add linorder_neqE_nat add_Suc_right)
    then show ?thesis using Cons.prems(2) g2(5) [OF k] ch [OF k] by cases (simp_all add: nat_add_distrib)
  qed
  with g1 g2 show ?case by (auto simp del: BLOG_NUM_CHANNELS_def)
qed

end
