(* ===== verification/CAvl.thy ===== *)
theory CAvl
  imports Flow_Prelude
begin

text \<open>
  The AVL tree of \<open>structure/CAvl_impl.h\<close>, which holds the running timers of the reactor and, through
  \<open>structure/SAvl_impl.h\<close>, the waiting flows of the fair queue; both without counts, associated values and
  keys.  Entries are linked through members of their own: two children, the parent and the balance.  The
  members are functions from entries, a link is an optional entry, and the side 1 is \<open>True\<close>.  The order of the
  entries is a parameter.

  The loops follow links and would not end in a memory that holds no tree, so they are partial functions;
  theory \<open>CAvl_Tree\<close> shows that they end.
\<close>

section \<open>State\<close>

record 'a cavl =
  av_root :: "'a option"
  av_link :: "'a \<Rightarrow> bool \<Rightarrow> 'a option"
  av_parent :: "'a \<Rightarrow> 'a option"
  av_balance :: "'a \<Rightarrow> int"

definition set_link :: "'a \<Rightarrow> bool \<Rightarrow> 'a option \<Rightarrow> 'a cavl \<Rightarrow> 'a cavl" where
  "set_link x side l t = t\<lparr>av_link := (av_link t)(x := (av_link t x)(side := l))\<rparr>"

definition set_parent :: "'a \<Rightarrow> 'a option \<Rightarrow> 'a cavl \<Rightarrow> 'a cavl" where
  "set_parent x p t = t\<lparr>av_parent := (av_parent t)(x := p)\<rparr>"

definition set_balance :: "'a \<Rightarrow> int \<Rightarrow> 'a cavl \<Rightarrow> 'a cavl" where
  "set_balance x b t = t\<lparr>av_balance := (av_balance t)(x := b)\<rparr>"

text \<open>The parent of an entry, if there is one.\<close>

definition set_parent_of :: "'a option \<Rightarrow> 'a option \<Rightarrow> 'a cavl \<Rightarrow> 'a cavl" where
  "set_parent_of l p t = (case l of None \<Rightarrow> t | Some x \<Rightarrow> set_parent x p t)"

text \<open>A child with its link back.\<close>

definition set_child :: "'a \<Rightarrow> bool \<Rightarrow> 'a option \<Rightarrow> 'a cavl \<Rightarrow> 'a cavl" where
  "set_child x side l t = set_parent_of l (Some x) (set_link x side l t)"

text \<open>The link to an entry, in its parent or the root.\<close>

definition set_link_to :: "'a option \<Rightarrow> 'a \<Rightarrow> 'a option \<Rightarrow> 'a cavl \<Rightarrow> 'a cavl" where
  "set_link_to parent x l t = (case parent of
     None \<Rightarrow> t\<lparr>av_root := l\<rparr>
   | Some p \<Rightarrow> set_link p (av_link t p True = Some x) l t)"

definition OPTNEG :: "int \<Rightarrow> bool \<Rightarrow> int" where
  "OPTNEG a neg = (if neg then - a else a)"

section \<open>Operations\<close>

definition CAvl_Init :: "'a cavl \<Rightarrow> 'a cavl" where
  "CAvl_Init t = t\<lparr>av_root := None\<rparr>"

definition CAvl_IsEmpty :: "'a cavl \<Rightarrow> bool" where
  "CAvl_IsEmpty t \<longleftrightarrow> av_root t = None"

definition CAvl_compare_entries :: "('a \<Rightarrow> 'a \<Rightarrow> int) \<Rightarrow> 'a \<Rightarrow> 'a \<Rightarrow> int option" where
  "CAvl_compare_entries compare node1 node2 = do {
     let res = compare node1 node2;
     ASSERT (res \<ge> -1);
     ASSERT (res \<le> 1);
     Some res
   }"

definition CAvl_check_parent :: "'a option \<Rightarrow> 'a \<Rightarrow> 'a cavl \<Rightarrow> bool" where
  "CAvl_check_parent p c t \<longleftrightarrow> p = av_parent t c \<and>
     (case p of None \<Rightarrow> True | Some q \<Rightarrow> av_link t q False = Some c \<or> av_link t q True = Some c)"

definition CAvl_rotate :: "'a \<Rightarrow> bool \<Rightarrow> 'a option \<Rightarrow> 'a cavl \<Rightarrow> 'a cavl option" where
  "CAvl_rotate r dir r_parent t = do {
     ASSERT (CAvl_check_parent r_parent r t);
     nr \<leftarrow> av_link t r (\<not> dir);
     let t = set_child r (\<not> dir) (av_link t nr dir) t;
     let t = set_link nr dir (Some r) t;
     let t = set_parent nr r_parent t;
     let t = set_link_to r_parent r (Some nr) t;
     Some (set_parent r (Some nr) t)
   }"

partial_function (option) CAvl_subtree_end :: "bool \<Rightarrow> 'a \<Rightarrow> 'a cavl \<Rightarrow> 'a option" where
  "CAvl_subtree_end side n t = (case av_link t n side of None \<Rightarrow> Some n | Some m \<Rightarrow> CAvl_subtree_end side m t)"

definition CAvl_subtree_min :: "'a \<Rightarrow> 'a cavl \<Rightarrow> 'a option" where
  "CAvl_subtree_min = CAvl_subtree_end False"

definition CAvl_subtree_max :: "'a \<Rightarrow> 'a cavl \<Rightarrow> 'a option" where
  "CAvl_subtree_max = CAvl_subtree_end True"

definition CAvl_replace_subtree :: "'a \<Rightarrow> 'a option \<Rightarrow> 'a option \<Rightarrow> 'a cavl \<Rightarrow> 'a cavl option" where
  "CAvl_replace_subtree dest n dest_parent t = do {
     ASSERT (CAvl_check_parent dest_parent dest t);
     let t = set_link_to dest_parent dest n t;
     Some (set_parent_of n (av_parent t dest) t)
   }"

definition CAvl_swap_for_remove :: "'a \<Rightarrow> 'a \<Rightarrow> 'a option \<Rightarrow> 'a option \<Rightarrow> 'a cavl \<Rightarrow> 'a cavl option" where
  "CAvl_swap_for_remove node enode node_parent enode_parent t = do {
     ASSERT (CAvl_check_parent node_parent node t);
     ASSERT (CAvl_check_parent enode_parent enode t);
     let t = (if enode_parent = Some node then
         (let side = (av_link t node True = Some enode);
              c = av_link t node (\<not> side);
              t = set_child node False (av_link t enode False) t;
              t = set_child node True (av_link t enode True) t;
              t = set_parent enode (av_parent t node) t;
              t = set_link_to node_parent node (Some enode) t;
              t = set_link enode side (Some node) t;
              t = set_parent node (Some enode) t
          in set_child enode (\<not> side) c t)
       else
         (let t = set_parent node (av_parent t enode) t;
              t = set_link_to enode_parent enode (Some node) t;
              t = set_parent enode node_parent t;
              t = set_link_to node_parent node (Some enode) t;
              temp = av_link t node False;
              t = set_child node False (av_link t enode False) t;
              t = set_child enode False temp t;
              temp = av_link t node True;
              t = set_child node True (av_link t enode True) t
          in set_child enode True temp t));
     let b = av_balance t node;
     let t = set_balance node (av_balance t enode) t;
     Some (set_balance enode b t)
   }"

text \<open>
  One step of rebalancing: the subtree of \<open>node\<close> at \<open>side\<close> has changed its height by \<open>deltac\<close>.  The result is
  the entry that is now in the place of \<open>node\<close>, and by how much the height of its tree has changed.
\<close>

definition rebalance_node :: "'a \<Rightarrow> bool \<Rightarrow> int \<Rightarrow> 'a cavl \<Rightarrow> ('a \<times> int \<times> 'a cavl) option" where
  "rebalance_node node side deltac t = do {
     let delta = max deltac (OPTNEG (av_balance t node) side) - max 0 (OPTNEG (av_balance t node) side);
     ASSERT (delta \<ge> -1 \<and> delta \<le> 1);
     let t = set_balance node (av_balance t node - OPTNEG deltac side) t;
     if av_balance t node = 2 \<or> av_balance t node = -2 then do {
       let bside = (av_balance t node = 2);
       let bsidef = (if bside then 1 else -1);
       child \<leftarrow> av_link t node bside;
       if av_balance t child * bsidef = 1 then do {
         t \<leftarrow> CAvl_rotate node (\<not> bside) (av_parent t node) t;
         let t = set_balance node 0 t;
         Some (child, delta - 1, set_balance child 0 t)
       }
       else if av_balance t child * bsidef = 0 then do {
         t \<leftarrow> CAvl_rotate node (\<not> bside) (av_parent t node) t;
         let t = set_balance node (1 * bsidef) t;
         Some (child, delta, set_balance child (-1 * bsidef) t)
       }
       else if av_balance t child * bsidef = -1 then do {
         gchild \<leftarrow> av_link t child (\<not> bside);
         t \<leftarrow> CAvl_rotate child bside (Some node) t;
         t \<leftarrow> CAvl_rotate node (\<not> bside) (av_parent t node) t;
         let t = set_balance node (- max 0 (av_balance t gchild * bsidef) * bsidef) t;
         let t = set_balance child (max 0 (- av_balance t gchild * bsidef) * bsidef) t;
         Some (gchild, delta - 1, set_balance gchild 0 t)
       }
       else None
     }
     else Some (node, delta, t)
   }"

partial_function (option) CAvl_rebalance :: "'a \<Rightarrow> bool \<Rightarrow> int \<Rightarrow> 'a cavl \<Rightarrow> 'a cavl option" where
  "CAvl_rebalance node side deltac t = do {
     ASSERT (deltac \<ge> -1 \<and> deltac \<le> 1);
     ASSERT (av_balance t node \<ge> -1 \<and> av_balance t node \<le> 1);
     if deltac = 0 then Some t
     else do {
       (node, delta, t) \<leftarrow> rebalance_node node side deltac t;
       ASSERT (delta \<ge> -1 \<and> delta \<le> 1);
       case av_parent t node of
         None \<Rightarrow> Some t
       | Some node_parent \<Rightarrow> CAvl_rebalance node_parent (av_link t node_parent True = Some node) delta t
     }
   }"

text \<open>The place of a new entry: an entry that compares equal, or the entry and side to link it to.\<close>

partial_function (option) insert_loop :: "('a \<Rightarrow> 'a \<Rightarrow> int) \<Rightarrow> 'a \<Rightarrow> 'a \<Rightarrow> 'a cavl \<Rightarrow> ('a \<times> bool option) option" where
  "insert_loop compare node c t = do {
     comp \<leftarrow> CAvl_compare_entries compare node c;
     if comp = 0 then Some (c, None)
     else (case av_link t c (comp = 1) of
       None \<Rightarrow> Some (c, Some (comp = 1))
     | Some d \<Rightarrow> insert_loop compare node d t)
   }"

definition init_entry :: "'a \<Rightarrow> 'a option \<Rightarrow> 'a cavl \<Rightarrow> 'a cavl" where
  "init_entry node parent t =
     (let t = set_parent node parent t; t = set_link node False None t; t = set_link node True None t in set_balance node 0 t)"

text \<open>The results are those of the function and its output argument.\<close>

definition CAvl_Insert :: "('a \<Rightarrow> 'a \<Rightarrow> int) \<Rightarrow> 'a \<Rightarrow> 'a cavl \<Rightarrow> (bool \<times> 'a option \<times> 'a cavl) option" where
  "CAvl_Insert compare node t = (case av_root t of
     None \<Rightarrow> Some (True, None, init_entry node None (t\<lparr>av_root := Some node\<rparr>))
   | Some root \<Rightarrow> do {
       (c, place) \<leftarrow> insert_loop compare node root t;
       case place of
         None \<Rightarrow> Some (False, Some c, t)
       | Some side \<Rightarrow> do {
           let t = init_entry node (Some c) (set_link c side (Some node) t);
           t \<leftarrow> CAvl_rebalance c side 1 t;
           Some (True, Some c, t)
         }
     })"

definition CAvl_Remove :: "'a \<Rightarrow> 'a cavl \<Rightarrow> 'a cavl option" where
  "CAvl_Remove node t = do {
     ASSERT (av_root t \<noteq> None);
     t \<leftarrow> (case av_link t node False of
         None \<Rightarrow> Some t
       | Some l \<Rightarrow>
           if av_link t node True = None then Some t
           else do {
             max \<leftarrow> CAvl_subtree_max l t;
             CAvl_swap_for_remove node max (av_parent t node) (av_parent t max) t
           });
     ASSERT (av_link t node False = None \<or> av_link t node True = None);
     let child = (if av_link t node False \<noteq> None then av_link t node False else av_link t node True);
     case av_parent t node of
       None \<Rightarrow> CAvl_replace_subtree node child None t
     | Some paren \<Rightarrow> do {
         let side = (av_link t paren True = Some node);
         t \<leftarrow> CAvl_replace_subtree node child (Some paren) t;
         CAvl_rebalance paren side (-1) t
       }
   }"

definition CAvl_GetFirst :: "'a cavl \<Rightarrow> 'a option option" where
  "CAvl_GetFirst t = (case av_root t of None \<Rightarrow> Some None | Some r \<Rightarrow> map_option Some (CAvl_subtree_min r t))"

definition CAvl_GetLast :: "'a cavl \<Rightarrow> 'a option option" where
  "CAvl_GetLast t = (case av_root t of None \<Rightarrow> Some None | Some r \<Rightarrow> map_option Some (CAvl_subtree_max r t))"

text \<open>Up, as long as the entry is the child at the given side.\<close>

partial_function (option) climb :: "bool \<Rightarrow> 'a \<Rightarrow> 'a cavl \<Rightarrow> 'a option option" where
  "climb side node t = (case av_parent t node of
     None \<Rightarrow> Some None
   | Some p \<Rightarrow> if av_link t p side = Some node then climb side p t else Some (Some p))"

definition CAvl_GetNext :: "'a \<Rightarrow> 'a cavl \<Rightarrow> 'a option option" where
  "CAvl_GetNext node t = do {
     ASSERT (av_root t \<noteq> None);
     case av_link t node True of
       Some n \<Rightarrow> map_option Some (CAvl_subtree_min n t)
     | None \<Rightarrow> climb True node t
   }"

definition CAvl_GetPrev :: "'a \<Rightarrow> 'a cavl \<Rightarrow> 'a option option" where
  "CAvl_GetPrev node t = do {
     ASSERT (av_root t \<noteq> None);
     case av_link t node False of
       Some n \<Rightarrow> map_option Some (CAvl_subtree_max n t)
     | None \<Rightarrow> climb False node t
   }"

text \<open>The tree's check of itself; the result is the height.\<close>

partial_function (option) CAvl_verify_recurser :: "('a \<Rightarrow> 'a \<Rightarrow> int) \<Rightarrow> 'a \<Rightarrow> 'a cavl \<Rightarrow> int option" where
  "CAvl_verify_recurser compare n t = do {
     ASSERT (av_balance t n \<ge> -1);
     ASSERT (av_balance t n \<le> 1);
     height_left \<leftarrow> (case av_link t n False of
         None \<Rightarrow> Some 0
       | Some l \<Rightarrow> do {
           ASSERT (av_parent t l = Some n);
           comp \<leftarrow> CAvl_compare_entries compare l n;
           ASSERT (comp = -1);
           CAvl_verify_recurser compare l t
         });
     height_right \<leftarrow> (case av_link t n True of
         None \<Rightarrow> Some 0
       | Some r \<Rightarrow> do {
           ASSERT (av_parent t r = Some n);
           comp \<leftarrow> CAvl_compare_entries compare r n;
           ASSERT (comp = 1);
           CAvl_verify_recurser compare r t
         });
     ASSERT (av_balance t n = height_right - height_left);
     Some (max height_left height_right + 1)
   }"

definition CAvl_Verify :: "('a \<Rightarrow> 'a \<Rightarrow> int) \<Rightarrow> 'a cavl \<Rightarrow> unit option" where
  "CAvl_Verify compare t = (case av_root t of
     None \<Rightarrow> Some ()
   | Some root \<Rightarrow> do {
       ASSERT (av_parent t root = None);
       h \<leftarrow> CAvl_verify_recurser compare root t;
       Some ()
     })"

end
