(* ===== verification/CAvl_Tree.thy ===== *)
theory CAvl_Tree
  imports CAvl
begin

text \<open>
  The memory of theory \<open>CAvl\<close> holds a tree: a tree of entries with balances describes all links, and the
  context of a subtree, a list of frames from it to the root, describes the rest of the memory.  Rotations,
  insertion and removal then change the tree and keep the sequence of its entries.  Nodes are written from
  either side with \<open>bin\<close>, so that mirrored cases of the code are one case here.
\<close>

section \<open>Trees\<close>

datatype 'a avl = Tip | Bin "'a avl" 'a int "'a avl"

fun keys :: "'a avl \<Rightarrow> 'a list" where
  "keys Tip = []"
| "keys (Bin l x b r) = keys l @ x # keys r"

fun height :: "'a avl \<Rightarrow> int" where
  "height Tip = 0"
| "height (Bin l x b r) = 1 + max (height l) (height r)"

fun avl_ok :: "'a avl \<Rightarrow> bool" where
  "avl_ok Tip \<longleftrightarrow> True"
| "avl_ok (Bin l x b r) \<longleftrightarrow> avl_ok l \<and> avl_ok r \<and> b = height r - height l \<and> -1 \<le> b \<and> b \<le> 1"

text \<open>A node with its child at one side first.\<close>

definition bin :: "bool \<Rightarrow> 'a avl \<Rightarrow> 'a \<Rightarrow> int \<Rightarrow> 'a avl \<Rightarrow> 'a avl" where
  "bin s t x b u = (if s then Bin u x b t else Bin t x b u)"

definition sg :: "bool \<Rightarrow> int" where
  "sg s = (if s then 1 else -1)"

lemma sg_simps [simp]: "sg True = 1" "sg False = -1" "sg (\<not> s) = - sg s" "sg s * sg s = 1" "sg s * (sg s * a) = a" "sg s * a = sg s * b \<longleftrightarrow> a = b"
  by (auto simp: sg_def)

lemma sg_cases: "sg s = 1 \<or> sg s = -1"
  by (simp add: sg_def)

lemma bin_flip: "bin (\<not> s) t x b u = bin s u x b t"
  by (simp add: bin_def)

lemma bin_cases: "t = Tip \<or> (\<exists>u x b v. t = bin s u x b v)"
  by (cases t; cases s) (auto simp: bin_def)

lemma height_nonneg: "0 \<le> height t"
  by (induction t) auto

lemma bin_height [simp]: "height (bin s t x b u) = 1 + max (height t) (height u)"
  by (auto simp: bin_def)

lemma bin_ok [simp]: "avl_ok (bin s t x b u) \<longleftrightarrow> avl_ok t \<and> avl_ok u \<and> b = sg s * (height t - height u) \<and> -1 \<le> b \<and> b \<le> 1"
  by (auto simp: bin_def sg_def)

lemma bin_keys: "keys (bin s t x b u) = (if s then keys u @ x # keys t else keys t @ x # keys u)"
  by (simp add: bin_def)

lemma bin_set [simp]: "set (keys (bin s t x b u)) = insert x (set (keys t) \<union> set (keys u))"
  by (auto simp: bin_keys)

lemma bin_distinct [simp]: "distinct (keys (bin s t x b u)) \<longleftrightarrow> distinct (keys t) \<and> distinct (keys u) \<and> x \<notin> set (keys t) \<and>
    x \<notin> set (keys u) \<and> set (keys t) \<inter> set (keys u) = {}"
  by (auto simp: bin_keys)

lemma bin_not_Tip [simp]: "bin s t x b u \<noteq> Tip"
  by (simp add: bin_def)

section \<open>Memory\<close>

fun repr :: "'a cavl \<Rightarrow> 'a option \<Rightarrow> 'a option \<Rightarrow> 'a avl \<Rightarrow> bool" where
  "repr s p l Tip \<longleftrightarrow> l = None"
| "repr s p l (Bin t x b u) \<longleftrightarrow> l = Some x \<and> av_parent s x = p \<and> av_balance s x = b \<and>
     repr s (Some x) (av_link s x False) t \<and> repr s (Some x) (av_link s x True) u"

lemma repr_bin: "repr s p l (bin d t x b u) \<longleftrightarrow> l = Some x \<and> av_parent s x = p \<and> av_balance s x = b \<and>
    repr s (Some x) (av_link s x d) t \<and> repr s (Some x) (av_link s x (\<not> d)) u"
  by (cases d) (auto simp: bin_def)

fun root_of :: "'a avl \<Rightarrow> 'a option" where
  "root_of Tip = None"
| "root_of (Bin t x b u) = Some x"

lemma root_of_bin [simp]: "root_of (bin d t x b u) = Some x"
  by (simp add: bin_def)

lemma repr_root: "repr s p l t \<Longrightarrow> l = root_of t"
  by (cases t) auto

lemma root_of_set: "root_of t = Some x \<Longrightarrow> x \<in> set (keys t)"
  by (cases t) auto

lemma repr_cong:
  "(\<And>x. x \<in> set (keys t) \<Longrightarrow> av_parent s' x = av_parent s x \<and> av_balance s' x = av_balance s x \<and> av_link s' x = av_link s x) \<Longrightarrow>
    repr s' p l t = repr s p l t"
  by (induction t arbitrary: p l) auto

text \<open>A subtree hung below another parent.\<close>

lemma repr_reparent:
  assumes r: "repr s p l t" and d: "distinct (keys t)"
    and same: "\<And>x. x \<in> set (keys t) \<Longrightarrow> av_balance s' x = av_balance s x \<and> av_link s' x = av_link s x"
    and parent: "\<And>x. x \<in> set (keys t) \<Longrightarrow> root_of t \<noteq> Some x \<Longrightarrow> av_parent s' x = av_parent s x"
    and root: "\<And>x. root_of t = Some x \<Longrightarrow> av_parent s' x = p'"
  shows "repr s' p' l t"
proof (cases t)
  case (Bin a x b c)
  have "repr s' (Some x) k a = repr s (Some x) k a" "repr s' (Some x) k c = repr s (Some x) k c" for k
    by (rule repr_cong; use d same parent Bin in fastforce)+
  with r same [of x] root [of x] show ?thesis by (simp add: Bin)
qed (use r in simp)

type_synonym 'a frame = "bool \<times> 'a \<times> int \<times> 'a avl"

fun hole_parent :: "'a frame list \<Rightarrow> 'a option" where
  "hole_parent [] = None"
| "hole_parent ((d, x, b, u) # fs) = Some x"

fun plug :: "'a frame list \<Rightarrow> 'a avl \<Rightarrow> 'a avl" where
  "plug [] t = t"
| "plug ((d, x, b, u) # fs) t = plug fs (bin d t x b u)"

fun ctx :: "'a cavl \<Rightarrow> 'a frame list \<Rightarrow> 'a option \<Rightarrow> bool" where
  "ctx s [] l \<longleftrightarrow> av_root s = l"
| "ctx s ((d, x, b, u) # fs) l \<longleftrightarrow> av_link s x d = l \<and> av_balance s x = b \<and> av_parent s x = hole_parent fs \<and>
     repr s (Some x) (av_link s x (\<not> d)) u \<and> ctx s fs (Some x)"

fun fkeys :: "'a frame list \<Rightarrow> 'a set" where
  "fkeys [] = {}"
| "fkeys ((d, x, b, u) # fs) = insert x (set (keys u) \<union> fkeys fs)"

fun before :: "'a frame list \<Rightarrow> 'a list" where
  "before [] = []"
| "before ((d, x, b, u) # fs) = before fs @ (if d then keys u @ [x] else [])"

fun after :: "'a frame list \<Rightarrow> 'a list" where
  "after [] = []"
| "after ((d, x, b, u) # fs) = (if d then [] else x # keys u) @ after fs"

lemma keys_plug: "keys (plug fs t) = before fs @ keys t @ after fs"
  by (induction fs t rule: plug.induct) (auto simp: bin_keys)

lemma fkeys_set: "fkeys fs = set (before fs) \<union> set (after fs)"
  by (induction fs rule: fkeys.induct) auto

lemma plug_set [simp]: "set (keys (plug fs t)) = fkeys fs \<union> set (keys t)"
  by (auto simp: keys_plug fkeys_set)

lemma plug_append: "plug (fs @ gs) t = plug gs (plug fs t)"
  by (induction fs t rule: plug.induct) auto

definition holds :: "'a cavl \<Rightarrow> 'a avl \<Rightarrow> bool" where
  "holds s t \<longleftrightarrow> repr s None (av_root s) t \<and> distinct (keys t)"

lemma repr_plug: "repr s None (av_root s) (plug fs t) \<longleftrightarrow> (\<exists>l. ctx s fs l \<and> repr s (hole_parent fs) l t)"
  by (induction fs t rule: plug.induct) (auto simp: repr_bin)

definition fdistinct :: "'a frame list \<Rightarrow> bool" where
  "fdistinct fs \<longleftrightarrow> distinct (before fs @ after fs)"

lemma plug_distinct: "distinct (keys (plug fs t)) \<longleftrightarrow> fdistinct fs \<and> distinct (keys t) \<and> fkeys fs \<inter> set (keys t) = {}"
  by (auto simp: keys_plug fkeys_set fdistinct_def)

lemma holds_plug: "holds s (plug fs t) \<longleftrightarrow> ctx s fs (root_of t) \<and> repr s (hole_parent fs) (root_of t) t \<and>
    fdistinct fs \<and> distinct (keys t) \<and> fkeys fs \<inter> set (keys t) = {}"
proof -
  have "(\<exists>l. ctx s fs l \<and> repr s (hole_parent fs) l t) \<longleftrightarrow> ctx s fs (root_of t) \<and> repr s (hole_parent fs) (root_of t) t"
    using repr_root by blast
  then show ?thesis by (simp add: holds_def repr_plug plug_distinct)
qed

lemma fdistinct_Cons: "fdistinct ((d, x, b, u) # fs) \<longleftrightarrow> x \<notin> set (keys u) \<and> x \<notin> fkeys fs \<and> distinct (keys u) \<and>
    set (keys u) \<inter> fkeys fs = {} \<and> fdistinct fs"
  by (cases d; simp add: fdistinct_def fkeys_set; blast)

lemma ctx_cong:
  "(\<And>x. x \<in> fkeys fs \<Longrightarrow> av_parent s' x = av_parent s x \<and> av_balance s' x = av_balance s x \<and> av_link s' x = av_link s x) \<Longrightarrow>
    av_root s' = av_root s \<Longrightarrow> ctx s' fs l = ctx s fs l"
proof (induction fs arbitrary: l rule: fkeys.induct)
  case (2 d x b u fs)
  then show ?case using repr_cong [of u s' s] by simp
qed simp

text \<open>The link of a context to its hole, replaced.\<close>

lemma top_fkeys: "hole_parent fs = Some p \<Longrightarrow> p \<in> fkeys fs"
  by (cases fs) auto

lemma ctx_set_link_to:
  assumes c: "ctx s fs (Some x)" and d: "fdistinct fs" and x: "x \<notin> fkeys fs"
  shows "ctx (set_link_to (hole_parent fs) x l s) fs l"
proof (cases fs)
  case Nil
  then show ?thesis by (simp add: set_link_to_def)
next
  case (Cons f gs)
  obtain dd p b u where f: "f = (dd, p, b, u)" by (cases f) auto
  have side: "(av_link s p True = Some x) = dd"
  proof (cases dd)
    case False
    with c Cons f have "repr s (Some p) (av_link s p True) u" by auto
    with repr_root root_of_set x Cons f have "av_link s p True \<noteq> Some x" by fastforce
    with False show ?thesis by simp
  qed (use c Cons f in simp)
  let ?s = "set_link p dd l s"
  have "ctx ?s gs (Some p) = ctx s gs (Some p)" by (rule ctx_cong) (use d Cons f in \<open>auto simp: set_link_def fdistinct_Cons\<close>)
  moreover have "repr ?s (Some p) (av_link s p (\<not> dd)) u = repr s (Some p) (av_link s p (\<not> dd)) u"
    by (rule repr_cong) (use d Cons f in \<open>auto simp: set_link_def fdistinct_Cons\<close>)
  ultimately have "ctx ?s fs l" using c Cons f by (simp add: set_link_def)
  then show ?thesis using Cons f side by (simp add: set_link_to_def)
qed

section \<open>Rotations and balances\<close>

lemma holds_balance: "holds s (plug fs (bin d t x b u)) \<Longrightarrow> av_balance s x = b" "holds s (plug fs (bin d t x b u)) \<Longrightarrow> av_parent s x = hole_parent fs"
  "holds s (plug fs (bin d t x b u)) \<Longrightarrow> av_link s x d = root_of t" "holds s (plug fs (bin d t x b u)) \<Longrightarrow> av_link s x (\<not> d) = root_of u"
  by (auto simp: holds_plug repr_bin dest: repr_root)

lemma holds_set_balance:
  assumes "holds s (plug fs (bin d t x b u))"
  shows "holds (set_balance x b' s) (plug fs (bin d t x b' u))"
proof -
  let ?s = "set_balance x b' s"
  have f: "av_parent ?s = av_parent s" "av_link ?s = av_link s" "av_root ?s = av_root s" "\<And>y. y \<noteq> x \<Longrightarrow> av_balance ?s y = av_balance s y" "av_balance ?s x = b'"
    by (simp_all add: set_balance_def)
  have n: "x \<notin> fkeys fs" "x \<notin> set (keys t)" "x \<notin> set (keys u)" using assms by (auto simp: holds_plug)
  have "ctx ?s fs l = ctx s fs l" for l by (rule ctx_cong) (use f n in metis)+
  moreover have "repr ?s p l t = repr s p l t" "repr ?s p l u = repr s p l u" for p l by (rule repr_cong; use f n in metis)+
  ultimately show ?thesis using assms f by (simp add: holds_plug repr_bin)
qed

lemma ctx_check_parent: "ctx s fs (Some x) \<Longrightarrow> av_parent s x = hole_parent fs \<Longrightarrow> CAvl_check_parent (hole_parent fs) x s"
  by (cases fs rule: fkeys.cases) (auto simp: CAvl_check_parent_def, (metis (full_types))+)

lemma holds_rotate:
  assumes h: "holds s (plug fs (bin dir A r br (bin dir B nr bn C)))"
  shows "\<exists>s'. CAvl_rotate r dir (hole_parent fs) s = Some s' \<and> holds s' (plug fs (bin dir (bin dir A r br B) nr bn C))"
proof -
  let ?s1 = "set_child r (\<not> dir) (root_of B) s"
  let ?s2 = "set_parent nr (hole_parent fs) (set_link nr dir (Some r) ?s1)"
  let ?s3 = "set_link_to (hole_parent fs) r (Some nr) ?s2"
  let ?s4 = "set_parent r (Some nr) ?s3"
  from h have c: "ctx s fs (Some r)" and d: "fdistinct fs" "distinct (keys A)" "distinct (keys B)" "distinct (keys C)"
    and k: "r \<notin> fkeys fs" "nr \<notin> fkeys fs" "r \<noteq> nr" "r \<notin> set (keys A)" "r \<notin> set (keys B)" "r \<notin> set (keys C)"
      "nr \<notin> set (keys A)" "nr \<notin> set (keys B)" "nr \<notin> set (keys C)"
    and dj: "fkeys fs \<inter> set (keys A) = {}" "fkeys fs \<inter> set (keys B) = {}" "fkeys fs \<inter> set (keys C) = {}"
      "set (keys A) \<inter> set (keys B) = {}" "set (keys A) \<inter> set (keys C) = {}" "set (keys B) \<inter> set (keys C) = {}"
    and m0: "av_parent s r = hole_parent fs" "av_link s r (\<not> dir) = Some nr" "av_link s nr dir = root_of B" "av_balance s r = br" "av_balance s nr = bn"
      "repr s (Some r) (av_link s r dir) A" "repr s (Some nr) (av_link s nr dir) B" "repr s (Some nr) (av_link s nr (\<not> dir)) C"
    by (auto simp: holds_plug repr_bin dest: repr_root)
  note m = m0 [unfolded m0(3)]
  have run: "CAvl_rotate r dir (hole_parent fs) s = Some ?s4"
    using m m0(3) ctx_check_parent [OF c m(1)] by (simp add: CAvl_rotate_def Let_def)
  note upd = set_child_def set_parent_of_def set_link_def set_parent_def
  have B: "root_of B = Some y \<Longrightarrow> y \<in> set (keys B)" for y by (rule root_of_set)
  have same2: "av_parent ?s2 y = av_parent s y \<and> av_balance ?s2 y = av_balance s y \<and> av_link ?s2 y = av_link s y"
    if "y \<noteq> r" "y \<noteq> nr" "root_of B \<noteq> Some y" for y
    using that by (auto simp: upd split: option.splits)
  have root2: "av_root ?s2 = av_root s" by (auto simp: upd split: option.splits)
  have "ctx ?s2 fs (Some r) = ctx s fs (Some r)" by (rule ctx_cong [OF _ root2], rule same2) (use k B dj(2) in blast)+
  then have "ctx ?s2 fs (Some r)" using c by blast
  from ctx_set_link_to [OF this d(1) k(1), of "Some nr"] have c3: "ctx ?s3 fs (Some nr)" .
  have s3: "av_parent ?s3 = av_parent ?s2" "av_balance ?s3 = av_balance ?s2" "y \<notin> fkeys fs \<Longrightarrow> av_link ?s3 y = av_link ?s2 y" for y
    using top_fkeys [of fs] by (auto simp: set_link_to_def set_link_def split: option.splits)
  have same4: "av_parent ?s4 y = av_parent ?s3 y" "av_balance ?s4 = av_balance ?s3" "av_link ?s4 = av_link ?s3" "av_root ?s4 = av_root ?s3" if "y \<noteq> r" for y
    using that by (simp_all add: set_parent_def)
  have "ctx ?s4 fs (Some nr) = ctx ?s3 fs (Some nr)" by (rule ctx_cong) (use k(1) in \<open>auto simp: set_parent_def\<close>)
  then have c4: "ctx ?s4 fs (Some nr)" using c3 by blast
  have out: "av_parent ?s4 y = av_parent s y \<and> av_balance ?s4 y = av_balance s y \<and> av_link ?s4 y = av_link s y"
    if "y \<noteq> r" "y \<noteq> nr" "root_of B \<noteq> Some y" "y \<notin> fkeys fs" for y
    using same2 [OF that(1-3)] s3(1,2) s3(3) [OF that(4)] same4 [OF that(1)] by metis
  have "repr ?s4 p l A = repr s p l A" "repr ?s4 p l C = repr s p l C" for p l
    by (rule repr_cong, rule out; use k dj B in blast)+
  moreover have "repr ?s4 (Some r) (root_of B) B"
  proof (rule repr_reparent [OF m(7) d(3)])
    show "av_balance ?s4 x = av_balance s x \<and> av_link ?s4 x = av_link s x" if "x \<in> set (keys B)" for x
    proof -
      have n: "x \<noteq> r" "x \<noteq> nr" "x \<notin> fkeys fs" using that k dj by blast+
      show ?thesis using s3(2) s3(3) [OF n(3)] same4 [OF n(1)] n by (auto simp: upd split: option.splits)
    qed
    show "av_parent ?s4 x = av_parent s x" if "x \<in> set (keys B)" "root_of B \<noteq> Some x" for x
      using out [of x] that k dj by blast
    show "av_parent ?s4 x = Some r" if "root_of B = Some x" for x
      using that B [OF that] k s3(1) same4 [of x] by (auto simp: upd split: option.splits)
  qed
  moreover have "av_parent ?s4 r = Some nr" "av_link ?s4 r dir = av_link s r dir" "av_link ?s4 r (\<not> dir) = root_of B" "av_balance ?s4 r = br"
    using k m(4) s3(2) s3(3) [of r] by (auto simp: set_parent_def, auto simp: upd split: option.splits)
  moreover have "av_parent ?s4 nr = hole_parent fs" "av_link ?s4 nr dir = Some r" "av_link ?s4 nr (\<not> dir) = av_link s nr (\<not> dir)" "av_balance ?s4 nr = bn"
    using k m(5) s3(1,2) s3(3) [of nr] by (auto simp: set_parent_def, auto simp: upd split: option.splits)
  moreover have "distinct (keys (bin dir (bin dir A r br B) nr bn C))" "fkeys fs \<inter> set (keys (bin dir (bin dir A r br B) nr bn C)) = {}"
    using d(2-4) k dj by auto
  ultimately have "holds ?s4 (plug fs (bin dir (bin dir A r br B) nr bn C))"
    using c4 d(1) m(6,8) unfolding holds_plug repr_bin root_of_bin by presburger
  with run show ?thesis by blast
qed


section \<open>Rebalancing\<close>

lemma OPTNEG_sg: "OPTNEG a side = - sg side * a"
  by (simp add: OPTNEG_def sg_def)

lemma holds_balance_child:
  assumes "holds s (plug fs (bin d (bin e t y c u) x b v))"
  shows "holds (set_balance y c' s) (plug fs (bin d (bin e t y c' u) x b v))" "av_balance s y = c"
    "av_link s y e = root_of t" "av_link s y (\<not> e) = root_of u" "av_link s x d = Some y"
  using holds_set_balance [of s "(d, x, b, v) # fs" e t y c u c'] holds_balance [of s "(d, x, b, v) # fs" e t y c u]
    holds_balance(3) [of s fs d "bin e t y c u"] assms by auto

text \<open>The heavier child is heavier at its outer side, or even: a single rotation.\<close>

lemma single_rotation:
  assumes h: "holds s (plug fs (bin d w x b (bin d B c bc C)))"
  shows "\<exists>s1. CAvl_rotate x d (av_parent s x) s = Some s1 \<and>
    holds (set_balance c bc' (set_balance x b' s1)) (plug fs (bin d (bin d w x b' B) c bc' C))"
proof -
  from holds_rotate [OF h] obtain s1 where s1: "CAvl_rotate x d (hole_parent fs) s = Some s1"
    "holds s1 (plug fs (bin d (bin d w x b B) c bc C))" by blast
  from holds_set_balance [OF holds_balance_child(1) [OF s1(2)]] s1(1) show ?thesis using holds_balance(2) [OF h] by simp
qed

text \<open>It is heavier at its inner side: a double rotation.\<close>

lemma double_rotation:
  assumes h: "holds s (plug fs (bin d (bin d C c bc (bin d B g bg D)) x b w))"
  shows "\<exists>s1 s2. CAvl_rotate c d (Some x) s = Some s1 \<and> CAvl_rotate x (\<not> d) (av_parent s1 x) s1 = Some s2 \<and>
    av_balance s2 g = bg \<and> av_balance (set_balance x bx s2) g = bg \<and>
    holds (set_balance g bg' (set_balance c bc' (set_balance x bx s2))) (plug fs (bin d (bin d C c bc' B) g bg' (bin d D x bx w)))"
proof -
  from holds_rotate [of s "(d, x, b, w) # fs" d C c bc B g bg D] h obtain s1 where
    s1: "CAvl_rotate c d (Some x) s = Some s1" "holds s1 (plug fs (bin d (bin d (bin d C c bc B) g bg D) x b w))" by auto
  then have h1: "holds s1 (plug fs (bin (\<not> d) w x b (bin (\<not> d) D g bg (bin d C c bc B))))" by (simp add: bin_flip)
  from holds_rotate [OF h1] obtain s2 where
    s2: "CAvl_rotate x (\<not> d) (hole_parent fs) s1 = Some s2" "holds s2 (plug fs (bin (\<not> d) (bin (\<not> d) w x b D) g bg (bin d C c bc B)))" by blast
  note h3 = holds_balance_child(1) [OF s2(2), of bx]
  then have h3': "holds (set_balance x bx s2) (plug fs (bin d (bin d C c bc B) g bg (bin d D x bx w)))" by (simp add: bin_flip)
  from holds_set_balance [OF holds_balance_child(1) [OF h3']]
  have "holds (set_balance g bg' (set_balance c bc' (set_balance x bx s2))) (plug fs (bin d (bin d C c bc' B) g bg' (bin d D x bx w)))" .
  with s1(1) s2(1) holds_balance(1) [OF s2(2)] holds_balance(1) [OF h3'] holds_balance(2) [OF h1] show ?thesis by auto
qed

lemma rebalance_node_ok:
  assumes h: "holds s (plug fs (bin side t x b u))" and ok: "avl_ok t" "avl_ok u" and dc: "deltac = 1 \<or> deltac = -1"
    and b: "b = sg side * (height t - deltac - height u)" "-1 \<le> b" "b \<le> 1"
  shows "\<exists>s' x' delta T. rebalance_node x side deltac s = Some (x', delta, s') \<and> holds s' (plug fs T) \<and> avl_ok T \<and> root_of T = Some x' \<and>
    keys T = keys (bin side t x b u) \<and> height T = 1 + max (height t - deltac) (height u) + delta \<and> -1 \<le> delta \<and> delta \<le> 1"
proof -
  let ?e = "height u - (height t - deltac)" and ?b = "sg side * (height t - height u)"
  let ?delta = "max deltac ?e - max 0 ?e"
  let ?s = "set_balance x ?b s"
  have e: "OPTNEG b side = ?e" using b(1) sg_cases [of side] by (auto simp: OPTNEG_sg)
  have b': "b - OPTNEG deltac side = ?b" using b(1) sg_cases [of side] by (auto simp: OPTNEG_sg)
  have delta: "-1 \<le> ?delta" "?delta \<le> 1" using dc by (auto simp: max_def)
  have ab: "av_balance s x = b" using holds_balance(1) [OF h] .
  have h': "holds ?s (plug fs (bin side t x ?b u))" using holds_set_balance [OF h] .
  have bx: "av_balance ?s x = ?b" using holds_balance(1) [OF h'] .
  have range: "-2 \<le> ?b" "?b \<le> 2" using b dc sg_cases [of side] by (auto simp: algebra_simps)
  show ?thesis
  proof (cases "?b = 2 \<or> ?b = -2")
    case False
    then have "rebalance_node x side deltac s = Some (x, ?delta, ?s)"
      using ab e b' delta bx by (simp add: rebalance_node_def Let_def)
    moreover have "avl_ok (bin side t x ?b u)" using ok range False by auto
    ultimately show ?thesis using h' delta
      by (intro exI [of _ ?s] exI [of _ x] exI [of _ ?delta] exI [of _ "bin side t x ?b u"]) (auto simp: bin_keys)
  next
    case True
    define bs where "bs = (?b = 2)"
    have bs: "?b = 2 * sg bs" using True by (auto simp: bs_def)
    obtain ch w where cw: "bin side t x ?b u = bin bs ch x ?b w" "avl_ok ch" "avl_ok w" "height ch = height w + 2"
      "{height t, height u} = {height ch, height w}"
    proof (cases "bs = side")
      case True
      then have "height t = height u + 2" using bs sg_cases [of side] by auto
      with True ok that show thesis by blast
    next
      case False
      then have f: "side = (\<not> bs)" by auto
      then have "height u = height t + 2" using bs sg_cases [of side] by auto
      moreover have "bin side t x ?b u = bin bs u x ?b t" unfolding f by (rule bin_flip)
      ultimately show thesis using ok that by blast
    qed
    have ktu: "keys (bin side t x b u) = keys (bin bs ch x ?b w)" using cw(1) by (metis bin_keys)
    have "ch \<noteq> Tip" using cw(4) height_nonneg [of w] by auto
    with bin_cases [of ch bs] obtain C c bc B where ch: "ch = bin bs C c bc B" by blast
    have hc: "bc = sg bs * (height C - height B)" "-1 \<le> bc" "bc \<le> 1" "avl_ok C" "avl_ok B" using cw(2) ch by auto
    have hh: "max (height C) (height B) = height w + 1" using cw(4) ch by simp
    have hd: "1 + max (height t - deltac) (height u) + ?delta = height w + 3"
      using cw(4,5) dc by (auto simp: doubleton_eq_iff max_def)
    have "\<bar>height t - deltac - height u\<bar> \<le> 1" using b sg_cases [of side] by auto
    then have delta0: "0 \<le> ?delta" using cw(4,5) dc by (auto simp: doubleton_eq_iff max_def)
    have finish: ?thesis if f: "rebalance_node x side deltac s = Some (x', ?delta - k, s')" "holds s' (plug fs T)" "avl_ok T" "root_of T = Some x'"
      "keys T = keys (bin side t x b u)" "height T = height w + 3 - k" "k = 0 \<or> k = 1" for x' k s' T
    proof -
      have "height T = 1 + max (height t - deltac) (height u) + (?delta - k)" using f(6) hd by linarith
      moreover have "-1 \<le> ?delta - k" "?delta - k \<le> 1" using delta delta0 f(7) by linarith+
      ultimately show ?thesis using f(1-5) by blast
    qed
    have hx: "holds ?s (plug fs (bin bs (bin bs C c bc B) x ?b w))" using h' cw(1) ch by simp
    note cf = holds_balance_child(2-5) [OF hx]
    have start: "rebalance_node x side deltac s = (
       if bc * sg bs = 1 then do {
         t \<leftarrow> CAvl_rotate x (\<not> bs) (av_parent ?s x) ?s;
         Some (c, ?delta - 1, set_balance c 0 (set_balance x 0 t))
       }
       else if bc * sg bs = 0 then do {
         t \<leftarrow> CAvl_rotate x (\<not> bs) (av_parent ?s x) ?s;
         Some (c, ?delta, set_balance c (- sg bs) (set_balance x (sg bs) t))
       }
       else if bc * sg bs = -1 then do {
         g \<leftarrow> root_of B;
         t \<leftarrow> CAvl_rotate c bs (Some x) ?s;
         t \<leftarrow> CAvl_rotate x (\<not> bs) (av_parent t x) t;
         let t = set_balance x (- max 0 (av_balance t g * sg bs) * sg bs) t;
         let t = set_balance c (max 0 (- av_balance t g * sg bs) * sg bs) t;
         Some (g, ?delta - 1, set_balance g 0 t)
       }
       else None)"
      using ab e b' delta bx True cf by (simp add: rebalance_node_def Let_def bs_def [symmetric] sg_def [symmetric])
    have hx': "holds ?s (plug fs (bin (\<not> bs) w x ?b (bin (\<not> bs) B c bc C)))" using hx by (simp add: bin_flip)
    have bcs: "bc * sg bs = height C - height B" using hc(1) by (simp add: mult.commute)
    have "height C = height B + 1 \<or> height C = height B \<or> height B = height C + 1"
      using hc(1-3) sg_cases [of bs] by auto
    then consider (one) "height C = height B + 1" | (even) "height C = height B" | (inner) "height B = height C + 1"
      by blast
    then show ?thesis
    proof cases
      case one
      from single_rotation [OF hx', of 0 0] obtain s1 where s1: "CAvl_rotate x (\<not> bs) (av_parent ?s x) ?s = Some s1"
        "holds (set_balance c 0 (set_balance x 0 s1)) (plug fs (bin (\<not> bs) (bin (\<not> bs) w x 0 B) c 0 C))" by blast
      let ?T = "bin (\<not> bs) (bin (\<not> bs) w x 0 B) c 0 C"
      have "rebalance_node x side deltac s = Some (c, ?delta - 1, set_balance c 0 (set_balance x 0 s1))"
        unfolding start bcs using one s1(1) by simp
      moreover have "avl_ok ?T" "height ?T = height w + 2" using one hh hc cw(3) by auto
      moreover have "keys ?T = keys (bin side t x b u)" unfolding ktu ch by (auto simp: bin_keys)
      ultimately show ?thesis using s1(2) by (intro finish [of c 1 _ ?T]) simp_all
    next
      case even
      from single_rotation [OF hx', of "- sg bs" "sg bs"] obtain s1 where s1: "CAvl_rotate x (\<not> bs) (av_parent ?s x) ?s = Some s1"
        "holds (set_balance c (- sg bs) (set_balance x (sg bs) s1)) (plug fs (bin (\<not> bs) (bin (\<not> bs) w x (sg bs) B) c (- sg bs) C))" by blast
      let ?T = "bin (\<not> bs) (bin (\<not> bs) w x (sg bs) B) c (- sg bs) C"
      have "rebalance_node x side deltac s = Some (c, ?delta, set_balance c (- sg bs) (set_balance x (sg bs) s1))"
        unfolding start bcs using even s1(1) by simp
      moreover have "avl_ok ?T" "height ?T = height w + 3" using even hh hc cw(3) sg_cases [of bs] by auto
      moreover have "keys ?T = keys (bin side t x b u)" unfolding ktu ch by (auto simp: bin_keys)
      ultimately show ?thesis using s1(2) by (intro finish [of c 0 _ ?T]) simp_all
    next
      case inner
      have "B \<noteq> Tip" using inner height_nonneg [of C] by auto
      with bin_cases [of B bs] obtain B' g bg D where B: "B = bin bs B' g bg D" by blast
      have hB: "avl_ok B'" "avl_ok D" "bg = sg bs * (height B' - height D)" "-1 \<le> bg" "bg \<le> 1" using hc(5) B by auto
      have hw: "height C = height w" "max (height B') (height D) = height w" using inner hh B by (auto simp: max_def split: if_splits)
      let ?bx = "- max 0 (bg * sg bs) * sg bs" and ?bc = "max 0 (- bg * sg bs) * sg bs"
      have "holds ?s (plug fs (bin bs (bin bs C c bc (bin bs B' g bg D)) x ?b w))" using hx B by simp
      from double_rotation [OF this, of ?bx 0 ?bc] obtain s1 s2 where s12: "CAvl_rotate c bs (Some x) ?s = Some s1"
        "CAvl_rotate x (\<not> bs) (av_parent s1 x) s1 = Some s2" "av_balance s2 g = bg" "av_balance (set_balance x ?bx s2) g = bg"
        "holds (set_balance g 0 (set_balance c ?bc (set_balance x ?bx s2))) (plug fs (bin bs (bin bs C c ?bc B') g 0 (bin bs D x ?bx w)))" by blast
      let ?T = "bin bs (bin bs C c ?bc B') g 0 (bin bs D x ?bx w)"
      have "root_of B = Some g" using B by simp
      then have "rebalance_node x side deltac s = Some (g, ?delta - 1, set_balance g 0 (set_balance c ?bc (set_balance x ?bx s2)))"
        unfolding start bcs using inner s12 by (simp add: Let_def)
      moreover have bgs: "bg * sg bs = height B' - height D" using hB(3) by (simp add: mult.commute)
      have "- 1 \<le> height B' - height D" "height B' - height D \<le> 1" using hB(4,5) bgs sg_cases [of bs] by auto
      then have "avl_ok ?T" "height ?T = height w + 2" using hB hc cw(3) hw sg_cases [of bs] by (auto simp: bgs max_def split: if_splits)
      moreover have "keys ?T = keys (bin side t x b u)" unfolding ktu ch B by (auto simp: bin_keys)
      ultimately show ?thesis using s12(5) by (intro finish [of g 1 _ ?T]) simp_all
    qed
  qed
qed


text \<open>A context whose balances are right for a subtree of a given height.\<close>

fun frames_ok :: "'a frame list \<Rightarrow> int \<Rightarrow> bool" where
  "frames_ok [] h \<longleftrightarrow> True"
| "frames_ok ((d, x, b, u) # fs) h \<longleftrightarrow> avl_ok u \<and> b = sg d * (h - height u) \<and> -1 \<le> b \<and> b \<le> 1 \<and> frames_ok fs (1 + max h (height u))"

lemma plug_ok: "avl_ok (plug fs t) \<longleftrightarrow> avl_ok t \<and> frames_ok fs (height t)"
  by (induction fs t rule: plug.induct) auto

lemma holds_side:
  assumes "holds s (plug ((d, x, b, u) # fs) t)" "root_of t = Some y"
  shows "(av_link s x True = Some y) = d"
proof -
  have l: "av_link s x d = Some y" "av_link s x (\<not> d) = root_of u"
    using holds_balance(3,4) [of s fs d t x b u] assms by simp_all
  have "distinct (keys (bin d t x b u))" using assms(1) by (simp add: holds_plug)
  then have "root_of u \<noteq> Some y" using root_of_set [OF assms(2)] root_of_set [of u y] by auto
  with l show ?thesis by (cases d) auto
qed

lemma CAvl_rebalance_ok:
  assumes "holds s (plug ((side, x, b, u) # fs) t)" "avl_ok t" "frames_ok ((side, x, b, u) # fs) (height t - deltac)" "-1 \<le> deltac" "deltac \<le> 1"
  shows "\<exists>s' T. CAvl_rebalance x side deltac s = Some s' \<and> holds s' T \<and> avl_ok T \<and> keys T = keys (plug ((side, x, b, u) # fs) t)"
  using assms
proof (induction fs arbitrary: s side x b u t deltac)
  case Nil
  have bx: "av_balance s x = b" using holds_balance(1) [of s "[]" side t x b u] Nil.prems(1) by simp
  show ?case
  proof (cases "deltac = 0")
    case True
    with Nil bx show ?thesis by (subst CAvl_rebalance.simps) (auto simp: plug_ok)
  next
    case False
    then have dc: "deltac = 1 \<or> deltac = -1" using Nil.prems(4,5) by auto
    from rebalance_node_ok [of s "[]" side t x b u deltac] Nil.prems dc obtain s' x' delta T where
      r: "rebalance_node x side deltac s = Some (x', delta, s')" "holds s' T" "avl_ok T" "root_of T = Some x'"
        "keys T = keys (bin side t x b u)" "-1 \<le> delta" "delta \<le> 1" by auto
    have "av_parent s' x' = None" using r(2,4) by (cases T) (auto simp: holds_def)
    with r bx Nil.prems False show ?thesis by (subst CAvl_rebalance.simps) auto
  qed
next
  case (Cons f fs)
  obtain d y c v where f: "f = (d, y, c, v)" by (cases f) auto
  have bx: "av_balance s x = b" using holds_balance(1) [of s "f # fs" side t x b u] Cons.prems(1) by simp
  show ?case
  proof (cases "deltac = 0")
    case True
    with Cons.prems bx show ?thesis by (subst CAvl_rebalance.simps) (auto simp: plug_ok f)
  next
    case False
    then have dc: "deltac = 1 \<or> deltac = -1" using Cons.prems(4,5) by auto
    from rebalance_node_ok [of s "f # fs" side t x b u deltac] Cons.prems dc obtain s' x' delta T where
      r: "rebalance_node x side deltac s = Some (x', delta, s')" "holds s' (plug (f # fs) T)" "avl_ok T" "root_of T = Some x'"
        "keys T = keys (bin side t x b u)" "height T = 1 + max (height t - deltac) (height u) + delta" "-1 \<le> delta" "delta \<le> 1" by auto
    have p: "av_parent s' x' = Some y" using r(2,4) by (cases T) (auto simp: holds_plug repr_bin f)
    have side: "(av_link s' y True = Some x') = d" using holds_side r(2,4) f by metis
    have "frames_ok ((d, y, c, v) # fs) (height T - delta)" using Cons.prems(3) r(6) f by simp
    from Cons.IH [OF r(2) [unfolded f] r(3) this r(7,8)] obtain s2 T2 where
      s2: "CAvl_rebalance y d delta s' = Some s2" "holds s2 T2" "avl_ok T2" "keys T2 = keys (plug ((d, y, c, v) # fs) T)" by blast
    have "CAvl_rebalance x side deltac s = Some s2"
      using r(1,7,8) p side s2(1) bx Cons.prems False by (subst CAvl_rebalance.simps) auto
    moreover have "keys T2 = keys (plug ((side, x, b, u) # f # fs) t)" unfolding s2(4) f by (simp add: keys_plug bin_keys r(5))
    ultimately show ?thesis using s2(2,3) by blast
  qed
qed

section \<open>A new entry\<close>

lemma init_entry_holds:
  assumes h: "holds s (plug ((d, y, b, u) # gs) Tip)" and x: "x \<notin> set (keys (plug ((d, y, b, u) # gs) Tip))"
  shows "holds (init_entry x (Some y) (set_link y d (Some x) s)) (plug ((d, y, b, u) # gs) (Bin Tip x 0 Tip))"
proof -
  let ?s = "init_entry x (Some y) (set_link y d (Some x) s)"
  from h have y: "y \<notin> fkeys gs" "y \<notin> set (keys u)" and m: "ctx s ((d, y, b, u) # gs) None" and fd: "fdistinct ((d, y, b, u) # gs)"
    by (auto simp: holds_plug repr_bin fdistinct_Cons)
  from x have xy: "x \<noteq> y" "x \<notin> fkeys gs" "x \<notin> set (keys u)" by auto
  note upd = init_entry_def set_link_def set_parent_def set_balance_def Let_def
  have "ctx ?s gs (Some y) = ctx s gs (Some y)" by (rule ctx_cong) (use y xy in \<open>auto simp: upd\<close>)
  moreover have "repr ?s p l u = repr s p l u" for p l by (rule repr_cong) (use y xy in \<open>auto simp: upd\<close>)
  moreover have "av_link ?s y d = Some x" "av_link ?s y (\<not> d) = av_link s y (\<not> d)" "av_parent ?s y = av_parent s y" "av_balance ?s y = av_balance s y"
    "av_parent ?s x = Some y" "av_balance ?s x = 0" "av_link ?s x False = None" "av_link ?s x True = None" using xy by (auto simp: upd)
  ultimately show ?thesis unfolding holds_plug using m fd xy by simp
qed

section \<open>Removal\<close>

lemma focus: "x \<in> set (keys t) \<Longrightarrow> \<exists>fs l b r. t = plug fs (Bin l x b r)"
proof (induction t)
  case (Bin t1 y c t2)
  consider "x = y" | "x \<in> set (keys t1)" | "x \<in> set (keys t2)" using Bin.prems by auto
  then show ?case
  proof cases
    case 1
    then show ?thesis by (intro exI [of _ "[]"]) auto
  next
    case 2
    with Bin.IH(1) obtain fs l b r where "t1 = plug fs (Bin l x b r)" by blast
    then have "Bin t1 y c t2 = plug (fs @ [(False, y, c, t2)]) (Bin l x b r)" by (simp add: plug_append bin_def)
    then show ?thesis by blast
  next
    case 3
    with Bin.IH(2) obtain fs l b r where "t2 = plug fs (Bin l x b r)" by blast
    then have "Bin t1 y c t2 = plug (fs @ [(True, y, c, t1)]) (Bin l x b r)" by (simp add: plug_append bin_def)
    then show ?thesis by blast
  qed
qed simp

lemma after_append: "after (fs @ gs) = after fs @ after gs"
  by (induction fs rule: after.induct) auto

lemma before_append: "before (fs @ gs) = before gs @ before fs"
  by (induction fs rule: before.induct) auto

text \<open>The last entry of a subtree, and the first.\<close>

lemma subtree_max_ok:
  "repr s p (Some n) t \<Longrightarrow> \<exists>gs a m bm. CAvl_subtree_end True n s = Some m \<and> t = plug gs (Bin a m bm Tip) \<and> after gs = []"
proof (induction t arbitrary: p n)
  case (Bin l x b r)
  show ?case
  proof (cases r)
    case Tip
    with Bin.prems show ?thesis by (subst CAvl_subtree_end.simps) (auto intro!: exI [of _ "[]"])
  next
    case (Bin r1 y c r2)
    with Bin.prems have y: "av_link s x True = Some y" "repr s (Some x) (Some y) r" "n = x" by auto
    from Bin.IH(2) [OF y(2)] obtain gs a m bm where
      g: "CAvl_subtree_end True y s = Some m" "r = plug gs (Bin a m bm Tip)" "after gs = []" by blast
    then have "Bin l x b r = plug (gs @ [(True, x, b, l)]) (Bin a m bm Tip)" "after (gs @ [(True, x, b, l)]) = []"
      by (simp_all add: plug_append bin_def after_append)
    moreover have "CAvl_subtree_end True n s = Some m" using y g(1) by (subst CAvl_subtree_end.simps) simp
    ultimately show ?thesis by blast
  qed
qed simp

lemma subtree_min_ok: "repr s p (Some n) t \<Longrightarrow> CAvl_subtree_end False n s = Some (hd (keys t))"
proof (induction t arbitrary: p n)
  case (Bin l x b r)
  show ?case
  proof (cases l)
    case Tip
    with Bin.prems show ?thesis by (subst CAvl_subtree_end.simps) auto
  next
    case (Bin l1 y c l2)
    with Bin.prems have y: "av_link s x False = Some y" "repr s (Some x) (Some y) l" "n = x" by auto
    have "keys l \<noteq> []" using Bin by simp
    with Bin.IH(1) [OF y(2)] y(1,3) show ?thesis by (subst CAvl_subtree_end.simps) simp
  qed
qed simp

text \<open>A subtree replaced by the only child of its root.\<close>

lemma replace_ok:
  assumes h: "holds s (plug fs (bin d a x b Tip))"
  shows "\<exists>s'. CAvl_replace_subtree x (root_of a) (hole_parent fs) s = Some s' \<and> holds s' (plug fs a)"
proof -
  from h have c: "ctx s fs (Some x)" and dj: "fdistinct fs" "distinct (keys a)" "x \<notin> fkeys fs" "fkeys fs \<inter> set (keys a) = {}"
    and m: "av_parent s x = hole_parent fs" "repr s (Some x) (root_of a) a"
    using holds_balance [OF h] by (auto simp: holds_plug repr_bin)
  let ?s1 = "set_link_to (hole_parent fs) x (root_of a) s"
  let ?s2 = "set_parent_of (root_of a) (hole_parent fs) ?s1"
  have p1: "av_parent ?s1 = av_parent s" "av_balance ?s1 = av_balance s" "y \<notin> fkeys fs \<Longrightarrow> av_link ?s1 y = av_link s y" for y
    using top_fkeys [of fs] by (auto simp: set_link_to_def set_link_def split: option.splits)
  have run: "CAvl_replace_subtree x (root_of a) (hole_parent fs) s = Some ?s2"
    using ctx_check_parent [OF c m(1)] by (simp add: CAvl_replace_subtree_def p1 m(1))
  have ra: "root_of a = Some y \<Longrightarrow> y \<in> set (keys a)" for y by (rule root_of_set)
  have s2: "av_balance ?s2 = av_balance ?s1" "av_link ?s2 = av_link ?s1" "av_root ?s2 = av_root ?s1"
    "root_of a \<noteq> Some y \<Longrightarrow> av_parent ?s2 y = av_parent ?s1 y" for y
    by (auto simp: set_parent_of_def set_parent_def split: option.splits)
  have "ctx ?s2 fs (root_of a) = ctx ?s1 fs (root_of a)"
  proof (rule ctx_cong)
    show "av_parent ?s2 y = av_parent ?s1 y \<and> av_balance ?s2 y = av_balance ?s1 y \<and> av_link ?s2 y = av_link ?s1 y" if "y \<in> fkeys fs" for y
    proof -
      have "root_of a \<noteq> Some y" using ra [of y] dj(4) that by blast
      from s2(4) [OF this] s2(1,2) show ?thesis by simp
    qed
  qed (rule s2(3))
  then have "ctx ?s2 fs (root_of a)" using ctx_set_link_to [OF c dj(1,3)] by blast
  moreover have "repr ?s2 (hole_parent fs) (root_of a) a"
  proof (rule repr_reparent [OF m(2) dj(2)])
    show "av_balance ?s2 y = av_balance s y \<and> av_link ?s2 y = av_link s y" if "y \<in> set (keys a)" for y
    proof -
      have "y \<notin> fkeys fs" using that dj(4) by blast
      from p1(3) [OF this] p1(2) s2(1,2) show ?thesis by simp
    qed
    show "av_parent ?s2 y = av_parent s y" if "y \<in> set (keys a)" "root_of a \<noteq> Some y" for y using s2(4) [OF that(2)] p1(1) by simp
    show "av_parent ?s2 y = hole_parent fs" if "root_of a = Some y" for y using that by (simp add: set_parent_of_def set_parent_def)
  qed
  ultimately show ?thesis using run dj unfolding holds_plug by blast
qed

subsection \<open>Swapping two entries\<close>

text \<open>Links and parents are inverse.\<close>

lemma repr_link:
  "repr s p l t \<Longrightarrow> z \<in> set (keys t) \<Longrightarrow> av_link s z d = Some y \<Longrightarrow> y \<in> set (keys t) \<and> av_parent s y = Some z"
proof (induction t arbitrary: p l)
  case (Bin a x b c)
  have "av_link s x d = Some y \<Longrightarrow> (y \<in> set (keys a) \<or> y \<in> set (keys c)) \<and> av_parent s y = Some x"
    using Bin.prems(1) by (cases d; cases a; cases c) auto
  with Bin show ?case by auto
qed simp

lemma repr_parent:
  "repr s p l t \<Longrightarrow> z \<in> set (keys t) \<Longrightarrow> (root_of t = Some z \<and> av_parent s z = p) \<or>
    (\<exists>q\<in>set (keys t). av_parent s z = Some q \<and> (\<exists>d. av_link s q d = Some z))"
proof (induction t arbitrary: p l)
  case (Bin a x b c)
  have r: "av_link s x False = root_of a" "av_link s x True = root_of c" using Bin.prems(1) by (auto dest: repr_root)
  consider "z = x" | "z \<in> set (keys a)" | "z \<in> set (keys c)" using Bin.prems by auto
  then show ?case
  proof cases
    case 1
    with Bin.prems(1) show ?thesis by simp
  next
    case 2
    from Bin.prems(1) have "repr s (Some x) (av_link s x False) a" by simp
    from Bin.IH(1) [OF this 2] r(1) show ?thesis by auto
  next
    case 3
    from Bin.prems(1) have "repr s (Some x) (av_link s x True) c" by simp
    from Bin.IH(2) [OF this 3] r(2) show ?thesis by auto
  qed
qed simp

lemma repr_sides: "repr s p l t \<Longrightarrow> distinct (keys t) \<Longrightarrow> z \<in> set (keys t) \<Longrightarrow> av_link s z d = Some y \<Longrightarrow> av_link s z (\<not> d) \<noteq> Some y"
proof (induction t arbitrary: p l)
  case (Bin a x b c)
  have r: "av_link s x False = root_of a" "av_link s x True = root_of c" using Bin.prems(1) by (auto dest: repr_root)
  have "av_link s x d = Some y \<Longrightarrow> av_link s x (\<not> d) \<noteq> Some y"
    using r root_of_set [of a y] root_of_set [of c y] Bin.prems(2) by (cases d) auto
  with Bin show ?case by auto
qed simp

text \<open>Entries renamed, balances kept in place.\<close>

fun rename :: "('a \<Rightarrow> 'a) \<Rightarrow> 'a avl \<Rightarrow> 'a avl" where
  "rename f Tip = Tip"
| "rename f (Bin a x b c) = Bin (rename f a) (f x) b (rename f c)"

lemma rename_id: "(\<And>x. x \<in> set (keys t) \<Longrightarrow> f x = x) \<Longrightarrow> rename f t = t"
  by (induction t) auto

lemma rename_bin: "rename f (bin d t x b u) = bin d (rename f t) (f x) b (rename f u)"
  by (simp add: bin_def)

lemma rename_plug: "(\<And>x. x \<in> fkeys fs \<Longrightarrow> f x = x) \<Longrightarrow> rename f (plug fs t) = plug fs (rename f t)"
  by (induction fs t rule: plug.induct) (auto simp: rename_bin rename_id)

lemma keys_rename: "keys (rename f t) = map f (keys t)"
  by (induction t) auto

lemma repr_rename:
  "repr s p l t \<Longrightarrow> (\<And>z. z \<in> set (keys t) \<Longrightarrow> av_parent s' (f z) = map_option f (av_parent s z) \<and> av_balance s' (f z) = av_balance s z \<and>
      (\<forall>d. av_link s' (f z) d = map_option f (av_link s z d))) \<Longrightarrow>
    repr s' (map_option f p) (map_option f l) (rename f t)"
proof (induction t arbitrary: p l)
  case (Bin a x b c)
  from Bin.IH(1) [of "Some x" "av_link s x False"] Bin.IH(2) [of "Some x" "av_link s x True"] Bin.prems show ?case by auto
qed simp

definition exchange :: "'a \<Rightarrow> 'a \<Rightarrow> 'a \<Rightarrow> 'a" where
  "exchange x m z = (if z = x then m else if z = m then x else z)"

lemma map_exchange: "l \<noteq> Some x \<Longrightarrow> l \<noteq> Some m \<Longrightarrow> map_option (exchange x m) l = l"
  by (cases l) (auto simp: exchange_def)

text \<open>What the updates change, member by member.\<close>

lemma link_upd:
  "av_link (set_child x d l t) z e = (if z = x \<and> e = d then l else av_link t z e)"
  "av_link (set_link x d l t) z e = (if z = x \<and> e = d then l else av_link t z e)"
  "av_link (set_link_to p x l t) z e = (if p = Some z \<and> e = (av_link t z True = Some x) then l else av_link t z e)"
  "av_link (set_parent x p t) = av_link t" "av_link (set_balance x b t) = av_link t"
  by (auto simp: set_child_def set_parent_of_def set_link_to_def set_link_def set_parent_def set_balance_def split: option.splits)

lemma parent_upd:
  "av_parent (set_child x d l t) z = (if l = Some z then Some x else av_parent t z)"
  "av_parent (set_link x d l t) = av_parent t" "av_parent (set_link_to p x l t) = av_parent t"
  "av_parent (set_parent x p t) z = (if z = x then p else av_parent t z)" "av_parent (set_balance x b t) = av_parent t"
  by (auto simp: set_child_def set_parent_of_def set_link_to_def set_link_def set_parent_def set_balance_def split: option.splits)

lemma root_upd:
  "av_root (set_child x d l t) = av_root t" "av_root (set_link x d l t) = av_root t"
  "av_root (set_link_to p x l t) = (if p = None then l else av_root t)"
  "av_root (set_parent x p t) = av_root t" "av_root (set_balance x b t) = av_root t"
  by (auto simp: set_child_def set_parent_of_def set_link_to_def set_link_def set_parent_def set_balance_def split: option.splits)

lemma balance_upd:
  "av_balance (set_child x d l t) = av_balance t" "av_balance (set_link x d l t) = av_balance t"
  "av_balance (set_link_to p x l t) = av_balance t" "av_balance (set_parent x p t) = av_balance t"
  "av_balance (set_balance x b t) z = (if z = x then b else av_balance t z)"
  by (auto simp: set_child_def set_parent_of_def set_link_to_def set_link_def set_parent_def set_balance_def split: option.splits)

lemmas cavl_upd = link_upd parent_upd root_upd balance_upd

text \<open>The exchange of two entries that are not parent and child.\<close>

lemma swap_apart:
  assumes q: "av_parent s m = Some q" "q \<noteq> x" "q \<noteq> m" and ne: "x \<noteq> m" "av_parent s x \<noteq> Some m" "av_parent s x \<noteq> Some x" "av_parent s x \<noteq> Some q"
    and ck: "CAvl_check_parent (av_parent s x) x s" "CAvl_check_parent (Some q) m s"
  shows "\<exists>s'. CAvl_swap_for_remove x m (av_parent s x) (av_parent s m) s = Some s' \<and>
    av_root s' = (if av_parent s x = None then Some m else av_root s) \<and>
    (\<forall>z. av_balance s' z = (if z = m then av_balance s x else if z = x then av_balance s m else av_balance s z)) \<and>
    (\<forall>z d. av_link s' z d = (if z = m then av_link s x d else if z = x then av_link s m d
      else if z = q \<and> d = (av_link s q True = Some m) then Some x
      else if av_parent s x = Some z \<and> d = (av_link s z True = Some x) then Some m else av_link s z d)) \<and>
    (\<forall>z. av_parent s' z = (if av_link s x True = Some z then Some m else if av_link s m True = Some z then Some x
      else if av_link s x False = Some z then Some m else if av_link s m False = Some z then Some x
      else if z = m then av_parent s x else if z = x then Some q else av_parent s z))"
proof -
  let ?t1 = "set_link_to (Some q) m (Some x) (set_parent x (Some q) s)"
  let ?t2 = "set_link_to (av_parent s x) x (Some m) (set_parent m (av_parent s x) ?t1)"
  have l2: "av_link ?t2 x d = av_link s x d" "av_link ?t2 m d = av_link s m d" for d using q ne by (auto simp: cavl_upd)
  let ?t3 = "set_child m False (av_link s x False) (set_child x False (av_link s m False) ?t2)"
  have l3: "av_link ?t3 x True = av_link s x True" "av_link ?t3 m True = av_link s m True" using q ne by (simp_all add: cavl_upd)
  let ?t4 = "set_child m True (av_link s x True) (set_child x True (av_link s m True) ?t3)"
  have b4: "av_balance ?t4 = av_balance s" by (simp add: cavl_upd)
  let ?s = "set_balance m (av_balance s x) (set_balance x (av_balance s m) ?t4)"
  have "CAvl_swap_for_remove x m (av_parent s x) (av_parent s m) s = Some ?s"
    using q(2) ck by (simp add: CAvl_swap_for_remove_def q(1) Let_def l2 l3 b4)
  moreover have "av_root ?s = (if av_parent s x = None then Some m else av_root s)" by (simp add: cavl_upd)
  moreover have "av_balance ?s z = (if z = m then av_balance s x else if z = x then av_balance s m else av_balance s z)" for z
    by (simp add: cavl_upd)
  moreover have "av_link ?s z d = (if z = m then av_link s x d else if z = x then av_link s m d
      else if z = q \<and> d = (av_link s q True = Some m) then Some x
      else if av_parent s x = Some z \<and> d = (av_link s z True = Some x) then Some m else av_link s z d)" for z d
    using q ne by (cases "z = m"; cases "z = x"; cases d) (auto simp: cavl_upd)
  moreover have "av_parent ?s z = (if av_link s x True = Some z then Some m else if av_link s m True = Some z then Some x
      else if av_link s x False = Some z then Some m else if av_link s m False = Some z then Some x
      else if z = m then av_parent s x else if z = x then Some q else av_parent s z)" for z
    by (simp add: cavl_upd)
  ultimately show ?thesis by blast
qed

text \<open>The exchange of an entry and its left child.\<close>

lemma swap_child:
  assumes q: "av_parent s m = Some x" "av_link s x False = Some m" "av_link s x True \<noteq> Some m"
    and ne: "x \<noteq> m" "av_parent s x \<noteq> Some m" "av_parent s x \<noteq> Some x" "av_link s m False \<noteq> Some x" "av_link s m True \<noteq> Some x"
    and ck: "CAvl_check_parent (av_parent s x) x s" "CAvl_check_parent (Some x) m s"
  shows "\<exists>s'. CAvl_swap_for_remove x m (av_parent s x) (av_parent s m) s = Some s' \<and>
    av_root s' = (if av_parent s x = None then Some m else av_root s) \<and>
    (\<forall>z. av_balance s' z = (if z = m then av_balance s x else if z = x then av_balance s m else av_balance s z)) \<and>
    (\<forall>z d. av_link s' z d = (if z = m then (if d then av_link s x True else Some x) else if z = x then av_link s m d
      else if av_parent s x = Some z \<and> d = (av_link s z True = Some x) then Some m else av_link s z d)) \<and>
    (\<forall>z. av_parent s' z = (if av_link s x True = Some z then Some m else if z = x then Some m else if z = m then av_parent s x
      else if av_link s m False = Some z \<or> av_link s m True = Some z then Some x else av_parent s z))"
proof -
  let ?t1 = "set_child x True (av_link s m True) (set_child x False (av_link s m False) s)"
  have l1: "av_link (set_child x False (av_link s m False) s) m True = av_link s m True" "av_parent ?t1 x = av_parent s x"
    using ne by (auto simp: cavl_upd)
  let ?t2 = "set_link_to (av_parent s x) x (Some m) (set_parent m (av_parent s x) ?t1)"
  let ?t3 = "set_child m True (av_link s x True) (set_parent x (Some m) (set_link m False (Some x) ?t2))"
  have b3: "av_balance ?t3 = av_balance s" by (simp add: cavl_upd)
  let ?s = "set_balance m (av_balance s x) (set_balance x (av_balance s m) ?t3)"
  have "CAvl_swap_for_remove x m (av_parent s x) (av_parent s m) s = Some ?s"
    using q(3) ck by (simp add: CAvl_swap_for_remove_def q(1) Let_def l1 b3)
  moreover have "av_root ?s = (if av_parent s x = None then Some m else av_root s)" by (simp add: cavl_upd)
  moreover have "av_balance ?s z = (if z = m then av_balance s x else if z = x then av_balance s m else av_balance s z)" for z
    by (simp add: cavl_upd)
  moreover have "av_link ?s z d = (if z = m then (if d then av_link s x True else Some x) else if z = x then av_link s m d
      else if av_parent s x = Some z \<and> d = (av_link s z True = Some x) then Some m else av_link s z d)" for z d
    using ne by (cases "z = m"; cases "z = x"; cases d) (auto simp: cavl_upd)
  moreover have "av_parent ?s z = (if av_link s x True = Some z then Some m else if z = x then Some m else if z = m then av_parent s x
      else if av_link s m False = Some z \<or> av_link s m True = Some z then Some x else av_parent s z)" for z
    using ne by (auto simp: cavl_upd)
  ultimately show ?thesis by blast
qed

lemma swap_ok:
  assumes h: "holds s (plug fs (Bin (plug gs (Bin a m bm Tip)) x b r))"
  shows "\<exists>s'. CAvl_swap_for_remove x m (av_parent s x) (av_parent s m) s = Some s' \<and> holds s' (plug fs (Bin (plug gs (Bin a x bm Tip)) m b r))"
proof -
  let ?T = "plug fs (Bin (plug gs (Bin a m bm Tip)) x b r)" and ?f = "exchange x m"
  let ?K = "set (keys ?T)"
  have rp: "repr s None (av_root s) ?T" and dT: "distinct (keys ?T)" using h by (auto simp: holds_def)
  note link = repr_link [OF rp] and sides = repr_sides [OF rp dT]
  have par: "(av_root s = Some z \<and> av_parent s z = None) \<or> (\<exists>q\<in>?K. av_parent s z = Some q \<and> (\<exists>d. av_link s q d = Some z))" if "z \<in> ?K" for z
    using repr_parent [OF rp that] repr_root [OF rp] by auto
  have inK: "x \<in> ?K" "m \<in> ?K" by auto
  have dj: "x \<noteq> m" "x \<notin> fkeys fs" "m \<notin> fkeys fs" "x \<notin> fkeys gs" "m \<notin> fkeys gs" "x \<notin> set (keys a)" "m \<notin> set (keys a)"
    "x \<notin> set (keys r)" "m \<notin> set (keys r)" "fkeys fs \<inter> fkeys gs = {}"
    using dT by (auto simp: plug_distinct)
  have f: "?f x = m" "?f m = x" "z \<noteq> x \<Longrightarrow> z \<noteq> m \<Longrightarrow> ?f z = z" for z by (auto simp: exchange_def)
  have "rename ?f (plug fs u) = plug fs (rename ?f u)" "rename ?f (plug gs u) = plug gs (rename ?f u)" "rename ?f a = a" "rename ?f r = r" for u
    by (rule rename_plug rename_id; use dj f(3) in metis)+
  then have target: "rename ?f ?T = plug fs (Bin (plug gs (Bin a x bm Tip)) m b r)" by (simp add: f)
  have finish: "holds s' (plug fs (Bin (plug gs (Bin a x bm Tip)) m b r))"
    if "av_root s' = map_option ?f (av_root s)" "\<And>z. z \<in> ?K \<Longrightarrow> av_balance s' (?f z) = av_balance s z"
      "\<And>z. z \<in> ?K \<Longrightarrow> av_parent s' (?f z) = map_option ?f (av_parent s z)" "\<And>z d. z \<in> ?K \<Longrightarrow> av_link s' (?f z) d = map_option ?f (av_link s z d)" for s'
  proof -
    have "repr s' None (av_root s') (rename ?f ?T)" using repr_rename [OF rp, of s' ?f] that by simp
    moreover have "distinct (keys (rename ?f ?T))" using dT by (auto simp: keys_rename distinct_map inj_on_def exchange_def split: if_splits)
    ultimately show ?thesis unfolding target by (simp add: holds_def)
  qed
  let ?hs = "gs @ (False, x, b, r) # fs"
  have hm: "holds s (plug ?hs (bin False a m bm Tip))" and hx: "holds s (plug fs (bin False (plug gs (Bin a m bm Tip)) x b r))"
    using h by (simp_all add: plug_append bin_def)
  note px = holds_balance(2) [OF hx] and pm = holds_balance(2) [OF hm]
  have lm: "av_link s m True = None" "av_link s m False = root_of a" using holds_balance(3,4) [OF hm] by simp_all
  have lx: "av_link s x True = root_of r" "av_link s x False = root_of (plug gs (Bin a m bm Tip))" using holds_balance(3,4) [OF hx] by simp_all
  have pxn: "av_parent s x \<noteq> Some x" "av_parent s x \<noteq> Some m" using px top_fkeys [of fs] dj(2,3) by auto
  have ck: "CAvl_check_parent (av_parent s x) x s" "CAvl_check_parent (av_parent s m) m s"
    unfolding px pm using hx hm ctx_check_parent px pm by (auto simp: holds_plug)
  have up: "av_parent s y = Some z \<and> y \<in> ?K" if "z \<in> ?K" "av_link s z d = Some y" for y z d using link [OF that] by blast
  have down: "\<exists>d. av_link s q d = Some z" if "z \<in> ?K" "av_parent s z = Some q" for z q using par [OF that(1)] that(2) by auto
  have root: "av_root s = Some z \<Longrightarrow> av_parent s z = None" for z using rp by (cases ?T) auto
  have rx: "(if av_parent s x = None then Some m else av_root s) = map_option ?f (av_root s)"
  proof (cases "av_parent s x")
    case None
    then show ?thesis using par [OF inK(1)] f(1) by simp
  next
    case (Some p)
    then have "av_root s \<noteq> Some x" "av_root s \<noteq> Some m" using root [of x] root [of m] pm by (cases gs rule: fkeys.cases; auto)+
    with Some show ?thesis by (simp add: map_exchange)
  qed
  have lmn: "av_link s m d \<noteq> Some x" "av_link s m d \<noteq> Some m" for d using lm root_of_set [of a] dj(6,7) by (cases d; auto)+
  have lxn: "av_link s x True \<noteq> Some x" "av_link s x True \<noteq> Some m" using lx(1) root_of_set [of r] dj(8,9) by auto
  have lzx: "av_parent s x = Some z" if "z \<in> ?K" "av_link s z d = Some x" for z d using up [OF that] by blast
  have dx: "av_link s z d = Some x \<longleftrightarrow> d = (av_link s z True = Some x)" if "z \<in> ?K" "av_parent s x = Some z" for z d
    using down [OF inK(1) that(2)] sides [OF that(1)] by (cases d) (metis (full_types))+
  show ?thesis
  proof (cases gs)
    case Nil
    have pm': "av_parent s m = Some x" using pm Nil by simp
    have lx': "av_link s x False = Some m" using lx(2) Nil by simp
    from swap_child [OF pm' lx' lxn(2) dj(1) pxn(2,1) lmn(1) lmn(1) ck(1) ck(2) [unfolded pm']] obtain s' where
      s': "CAvl_swap_for_remove x m (av_parent s x) (av_parent s m) s = Some s'"
      "av_root s' = (if av_parent s x = None then Some m else av_root s)"
      "\<And>z. av_balance s' z = (if z = m then av_balance s x else if z = x then av_balance s m else av_balance s z)"
      "\<And>z d. av_link s' z d = (if z = m then (if d then av_link s x True else Some x) else if z = x then av_link s m d
        else if av_parent s x = Some z \<and> d = (av_link s z True = Some x) then Some m else av_link s z d)"
      "\<And>z. av_parent s' z = (if av_link s x True = Some z then Some m else if z = x then Some m else if z = m then av_parent s x
        else if av_link s m False = Some z \<or> av_link s m True = Some z then Some x else av_parent s z)" by blast
    have lzm: "z = x" if "z \<in> ?K" "av_link s z d = Some m" for z d using up [OF that] pm' by simp
    have "holds s' (plug fs (Bin (plug gs (Bin a x bm Tip)) m b r))"
    proof (rule finish)
      show "av_root s' = map_option ?f (av_root s)" using s'(2) rx by simp
      show "av_balance s' (?f z) = av_balance s z" for z using s'(3) dj(1) by (simp add: exchange_def)
      fix z assume z: "z \<in> ?K"
      consider (x) "z = x" | (m) "z = m" | (other) "z \<noteq> x" "z \<noteq> m" by blast
      then show "av_parent s' (?f z) = map_option ?f (av_parent s z)"
      proof cases
        case x
        then show ?thesis using s'(5) [of m] dj(1) lxn map_exchange [OF pxn] by (simp add: f)
      next
        case m
        then show ?thesis using s'(5) [of x] lxn pm' by (simp add: f)
      next
        case other
        have "av_parent s z = Some x \<longleftrightarrow> av_link s x True = Some z"
          using down [OF z, of x] up [OF inK(1), of _ z] lx' other by (metis (full_types) option.inject)
        moreover have "av_parent s z = Some m \<longleftrightarrow> av_link s m False = Some z"
          using down [OF z, of m] up [OF inK(2), of _ z] lm by (metis (full_types) option.distinct(1))
        ultimately show ?thesis using s'(5) [of z] other dj(1) lm(1) map_exchange [of "av_parent s z" x m] by (auto simp: f)
      qed
      from \<open>z \<in> ?K\<close> show "av_link s' (?f z) d = map_option ?f (av_link s z d)" for d
      proof (cases "z = x \<or> z = m")
        case True
        then show ?thesis using s'(4) [of m d] s'(4) [of x d] lmn [of d] lxn lx' dj(1) map_exchange [of _ x m] by (cases d) (auto simp: f)
      next
        case False
        then have "av_link s z d \<noteq> Some m" using lzm [OF z] by blast
        then show ?thesis using False s'(4) [of z d] lzx [OF z, of d] dx [OF z, of d] map_exchange [of "av_link s z d" x m]
          by (cases "av_link s z d = Some x") (auto simp: f)
      qed
    qed
    with s'(1) show ?thesis by blast
  next
    case (Cons g gs')
    obtain q where q: "av_parent s m = Some q" "q \<in> fkeys gs" using pm Cons by (cases g) auto
    have qn: "q \<noteq> x" "q \<noteq> m" "av_parent s x \<noteq> Some q" using q(2) dj top_fkeys [of fs q] px by auto
    have qK: "q \<in> ?K" using q(2) by simp
    from swap_apart [OF q(1) qn(1,2) dj(1) pxn(2,1) qn(3) ck(1) ck(2) [unfolded q(1)]] obtain s' where
      s': "CAvl_swap_for_remove x m (av_parent s x) (av_parent s m) s = Some s'"
      "av_root s' = (if av_parent s x = None then Some m else av_root s)"
      "\<And>z. av_balance s' z = (if z = m then av_balance s x else if z = x then av_balance s m else av_balance s z)"
      "\<And>z d. av_link s' z d = (if z = m then av_link s x d else if z = x then av_link s m d
        else if z = q \<and> d = (av_link s q True = Some m) then Some x
        else if av_parent s x = Some z \<and> d = (av_link s z True = Some x) then Some m else av_link s z d)"
      "\<And>z. av_parent s' z = (if av_link s x True = Some z then Some m else if av_link s m True = Some z then Some x
        else if av_link s x False = Some z then Some m else if av_link s m False = Some z then Some x
        else if z = m then av_parent s x else if z = x then Some q else av_parent s z)" by blast
    have lxm: "av_link s x d \<noteq> Some m" "av_link s x d \<noteq> Some x" for d
      using up [OF inK(1), of d m] up [OF inK(1), of d x] q(1) qn(1) pxn(1) by auto
    have dq: "av_link s q d = Some m \<longleftrightarrow> d = (av_link s q True = Some m)" for d
      using down [OF inK(2) q(1)] sides [OF qK] by (cases d) (metis (full_types))+
    have lzm: "z = q" if "z \<in> ?K" "av_link s z d = Some m" for z d using up [OF that] q(1) by simp
    have "holds s' (plug fs (Bin (plug gs (Bin a x bm Tip)) m b r))"
    proof (rule finish)
      show "av_root s' = map_option ?f (av_root s)" using s'(2) rx by simp
      show "av_balance s' (?f z) = av_balance s z" for z using s'(3) dj(1) by (simp add: exchange_def)
      fix z assume z: "z \<in> ?K"
      consider (x) "z = x" | (m) "z = m" | (other) "z \<noteq> x" "z \<noteq> m" by blast
      then show "av_parent s' (?f z) = map_option ?f (av_parent s z)"
      proof cases
        case x
        then show ?thesis using s'(5) [of m] lxm lmn map_exchange [OF pxn] by (simp add: f)
      next
        case m
        then show ?thesis using s'(5) [of x] lxm lmn dj(1) q(1) f(3) [OF qn(1,2)] by (simp add: f)
      next
        case other
        have "av_parent s z = Some x \<longleftrightarrow> av_link s x True = Some z \<or> av_link s x False = Some z"
          using down [OF z, of x] up [OF inK(1), of _ z] by (metis (full_types))
        moreover have "av_parent s z = Some m \<longleftrightarrow> av_link s m False = Some z"
          using down [OF z, of m] up [OF inK(2), of _ z] lm by (metis (full_types) option.distinct(1))
        ultimately show ?thesis using s'(5) [of z] other dj(1) lm(1) map_exchange [of "av_parent s z" x m] by (auto simp: f)
      qed
      show "av_link s' (?f z) d = map_option ?f (av_link s z d)" for d
      proof (cases "z = x \<or> z = m")
        case True
        then show ?thesis using s'(4) [of m d] s'(4) [of x d] lmn [of d] lxm [of d] dj(1) map_exchange [of _ x m] by (auto simp: f)
      next
        case False
        then have fz: "?f z = z" and l: "av_link s' z d = (if z = q \<and> d = (av_link s q True = Some m) then Some x
          else if av_parent s x = Some z \<and> d = (av_link s z True = Some x) then Some m else av_link s z d)" using s'(4) [of z d] f(3) by auto
        consider (tom) "av_link s z d = Some m" | (tox) "av_link s z d = Some x" | (no) "av_link s z d \<noteq> Some x" "av_link s z d \<noteq> Some m" by blast
        then show ?thesis
        proof cases
          case tom
          with lzm [OF z tom] dq [of d] l show ?thesis unfolding fz by (simp add: f)
        next
          case tox
          with lzx [OF z tox] qn(3) dx [OF z, of d] l show ?thesis by (auto simp: fz f)
        next
          case no
          have "\<not> (z = q \<and> d = (av_link s q True = Some m))" using no(2) dq [of d] by blast
          moreover have "\<not> (av_parent s x = Some z \<and> d = (av_link s z True = Some x))" using no(1) dx [OF z, of d] by blast
          ultimately show ?thesis unfolding fz l map_exchange [OF no] by argo
        qed
      qed
    qed
    with s'(1) show ?thesis by blast
  qed
qed

subsection \<open>The whole operation\<close>

lemma height_plug_cong: "height t = height u \<Longrightarrow> height (plug fs t) = height (plug fs u)"
  by (induction fs arbitrary: t u rule: fkeys.induct) auto

text \<open>The removal of an entry with at most one child.\<close>

lemma remove_single:
  assumes h: "holds s (plug fs (bin d a x b Tip))" and ok: "avl_ok (plug fs (bin d a x b Tip))"
  shows "\<exists>s' T. (case av_parent s x of None \<Rightarrow> CAvl_replace_subtree x (root_of a) None s
     | Some p \<Rightarrow> CAvl_replace_subtree x (root_of a) (Some p) s \<bind> CAvl_rebalance p (av_link s p True = Some x) (-1)) = Some s' \<and>
     holds s' T \<and> avl_ok T \<and> keys T = keys (plug fs a)"
proof -
  from replace_ok [OF h] obtain s1 where s1: "CAvl_replace_subtree x (root_of a) (hole_parent fs) s = Some s1" "holds s1 (plug fs a)" by blast
  have p: "av_parent s x = hole_parent fs" using holds_balance(2) [OF h] .
  have oka: "avl_ok a" "frames_ok fs (height a + 1)" using ok height_nonneg [of a] by (auto simp: plug_ok max_def add.commute split: if_splits)
  show ?thesis
  proof (cases fs)
    case Nil
    then show ?thesis using s1 p oka by auto
  next
    case (Cons f gs)
    obtain e y c u where f: "f = (e, y, c, u)" by (cases f) auto
    have side: "(av_link s y True = Some x) = e" using holds_side [of s e y c u gs "bin d a x b Tip" x] h Cons f by simp
    from CAvl_rebalance_ok [of s1 e y c u gs a "-1"] s1(2) oka Cons f obtain s2 T where
      "CAvl_rebalance y e (-1) s1 = Some s2" "holds s2 T" "avl_ok T" "keys T = keys (plug fs a)" by auto
    then show ?thesis using s1(1) p side Cons f by auto
  qed
qed

theorem CAvl_Remove_ok:
  assumes h: "holds s t" and ok: "avl_ok t" and x: "x \<in> set (keys t)"
  shows "\<exists>s' t'. CAvl_Remove x s = Some s' \<and> holds s' t' \<and> avl_ok t' \<and> keys t' = remove1 x (keys t)"
proof -
  from focus [OF x] obtain fs l b r where t: "t = plug fs (Bin l x b r)" by blast
  have d: "x \<notin> set (before fs)" "x \<notin> set (keys l)" using h unfolding t holds_def keys_plug by auto
  have hx: "holds s (plug fs (bin False l x b r))" using h t by (simp add: bin_def)
  have lk: "av_link s x False = root_of l" "av_link s x True = root_of r" using holds_balance(3,4) [OF hx] by simp_all
  have root: "av_root s \<noteq> None" using h x unfolding holds_def by (cases t) auto
  have kt: "remove1 x (keys t) = before fs @ keys l @ keys r @ after fs" using d unfolding t keys_plug by (simp add: remove1_append)
  show ?thesis
  proof (cases "l = Tip \<or> r = Tip")
    case True
    then obtain e a where e: "plug fs (Bin l x b r) = plug fs (bin e a x b Tip)" "root_of a = (if root_of l \<noteq> None then root_of l else root_of r)"
      "keys a = keys l @ keys r"
    proof
      assume "l = Tip"
      then show thesis using that [of True r] by (auto simp: bin_def)
    next
      assume "r = Tip"
      then show thesis using that [of False l] by (cases l) (auto simp: bin_def)
    qed
    from remove_single [of s fs e a x b] h ok t e(1) obtain s' T where
      s': "(case av_parent s x of None \<Rightarrow> CAvl_replace_subtree x (root_of a) None s
        | Some p \<Rightarrow> CAvl_replace_subtree x (root_of a) (Some p) s \<bind> CAvl_rebalance p (av_link s p True = Some x) (-1)) = Some s'"
      "holds s' T" "avl_ok T" "keys T = keys (plug fs a)" by auto
    have "CAvl_Remove x s = Some s'"
      using s'(1) root lk True unfolding e(2) by (auto simp: CAvl_Remove_def Let_def split: option.splits)
    then show ?thesis using s'(2-4) e(3) kt by (auto simp: keys_plug)
  next
    case False
    then obtain n where n: "root_of l = Some n" "root_of r \<noteq> None" by (cases l; cases r) auto
    have "repr s (Some x) (Some n) l" using hx n(1) lk(1) by (simp add: holds_plug repr_bin)
    from subtree_max_ok [OF this] obtain gs a m bm where
      m: "CAvl_subtree_max n s = Some m" "l = plug gs (Bin a m bm Tip)" "after gs = []" unfolding CAvl_subtree_max_def by blast
    from swap_ok [of s fs gs a m bm x b r] h t m(2) obtain s1 where
      s1: "CAvl_swap_for_remove x m (av_parent s x) (av_parent s m) s = Some s1" "holds s1 (plug fs (Bin (plug gs (Bin a x bm Tip)) m b r))" by auto
    let ?hs = "gs @ (False, m, b, r) # fs"
    have h1: "holds s1 (plug ?hs (bin False a x bm Tip))" using s1(2) by (simp add: plug_append bin_def)
    have "avl_ok (plug ?hs (bin False a x bm Tip))" using ok height_plug_cong [of "Bin a m bm Tip" "Bin a x bm Tip" gs] unfolding t m(2) by (auto simp: plug_append bin_def plug_ok)
    from remove_single [OF h1 this] obtain s' T where
      s': "(case av_parent s1 x of None \<Rightarrow> CAvl_replace_subtree x (root_of a) None s1
        | Some p \<Rightarrow> CAvl_replace_subtree x (root_of a) (Some p) s1 \<bind> CAvl_rebalance p (av_link s1 p True = Some x) (-1)) = Some s'"
      "holds s' T" "avl_ok T" "keys T = keys (plug ?hs a)" by blast
    have lx: "av_link s1 x False = root_of a" "av_link s1 x True = None" using holds_balance(3,4) [OF h1] by simp_all
    have "CAvl_Remove x s = Some s'"
      using s'(1) root lk n m(1) s1(1) lx by (auto simp: CAvl_Remove_def Let_def split: option.splits if_splits)
    moreover have "keys T = remove1 x (keys t)"
      unfolding s'(4) kt m(2) using m(3) by (simp add: keys_plug before_append after_append)
    ultimately show ?thesis using s'(2,3) by blast
  qed
qed

section \<open>Walking\<close>

lemma keys_Tip [simp]: "keys t = [] \<longleftrightarrow> t = Tip"
  by (cases t) auto

lemma CAvl_IsEmpty_ok: "holds s t \<Longrightarrow> CAvl_IsEmpty s \<longleftrightarrow> keys t = []"
  by (cases t) (auto simp: holds_def CAvl_IsEmpty_def)

lemma CAvl_GetFirst_ok: "holds s t \<Longrightarrow> CAvl_GetFirst s = Some (if keys t = [] then None else Some (hd (keys t)))"
  using subtree_min_ok [of s None _ t] by (cases t) (auto simp: holds_def CAvl_GetFirst_def CAvl_subtree_min_def)

lemma CAvl_GetLast_ok:
  assumes "holds s t"
  shows "CAvl_GetLast s = Some (if keys t = [] then None else Some (last (keys t)))"
proof (cases t)
  case Tip
  with assms show ?thesis by (simp add: holds_def CAvl_GetLast_def)
next
  case (Bin l x b r)
  with assms have r: "av_root s = Some x" "repr s None (Some x) t" by (auto simp: holds_def)
  from subtree_max_ok [OF r(2)] obtain gs a m bm where m: "CAvl_subtree_end True x s = Some m" "t = plug gs (Bin a m bm Tip)" "after gs = []" by blast
  then have "last (keys t) = m" by (simp add: keys_plug)
  with r(1) m(1) Bin show ?thesis by (simp add: CAvl_GetLast_def CAvl_subtree_max_def)
qed

lemma holds_side_False:
  assumes "holds s (plug ((d, x, b, u) # fs) t)" "root_of t = Some y"
  shows "(av_link s x False = Some y) = (\<not> d)"
proof -
  have l: "av_link s x d = Some y" "av_link s x (\<not> d) = root_of u"
    using holds_balance(3,4) [of s fs d t x b u] assms by simp_all
  have "distinct (keys (bin d t x b u))" using assms(1) by (simp add: holds_plug)
  then have "root_of u \<noteq> Some y" using root_of_set [OF assms(2)] root_of_set [of u y] by auto
  with l show ?thesis by (cases d) auto
qed

lemma climb_ok:
  assumes "holds s (plug fs t)" "root_of t = Some z"
  shows "climb True z s = Some (if after fs = [] then None else Some (hd (after fs)))"
    "climb False z s = Some (if before fs = [] then None else Some (last (before fs)))"
  using assms
proof (induction fs arbitrary: t z)
  case Nil
  {
    case 1
    then have "av_parent s z = None" by (cases t) (auto simp: holds_def)
    then show ?case by (subst climb.simps) simp
  next
    case 2
    then have "av_parent s z = None" by (cases t) (auto simp: holds_def)
    then show ?case by (subst climb.simps) simp
  }
next
  case (Cons f fs)
  obtain d y b u where f: "f = (d, y, b, u)" by (cases f) auto
  {
    case 1
    then have p: "av_parent s z = Some y" "holds s (plug fs (bin d t y b u))" by (cases t; auto simp: holds_plug repr_bin f)+
    from holds_side [of s d y b u fs t z] 1 f have "(av_link s y True = Some z) = d" by simp
    with Cons.IH(1) [OF p(2)] p(1) f show ?case by (subst climb.simps) simp
  next
    case 2
    then have p: "av_parent s z = Some y" "holds s (plug fs (bin d t y b u))" by (cases t; auto simp: holds_plug repr_bin f)+
    from holds_side_False [of s d y b u fs t z] 2 f have "(av_link s y False = Some z) = (\<not> d)" by simp
    with Cons.IH(2) [OF p(2)] p(1) f show ?case by (subst climb.simps) simp
  }
qed

lemma CAvl_GetNext_ok:
  assumes h: "holds s t" and k: "keys t = xs @ x # ys"
  shows "CAvl_GetNext x s = Some (if ys = [] then None else Some (hd ys))" "CAvl_GetPrev x s = Some (if xs = [] then None else Some (last xs))"
proof -
  from focus [of x t] k obtain fs l b r where t: "t = plug fs (Bin l x b r)" by auto
  have "distinct (keys t)" using h by (simp add: holds_def)
  then have n: "x \<notin> set xs" "x \<notin> set ys" unfolding k by auto
  have ys: "ys = keys r @ after fs" "xs = before fs @ keys l"
    using append_Cons_eq_iff [OF n, of "before fs @ keys l" "keys r @ after fs"] k t by (simp_all add: keys_plug)
  have hx: "holds s (plug fs (bin False l x b r))" using h t by (simp add: bin_def)
  have lk: "av_link s x True = root_of r" "av_link s x False = root_of l" using holds_balance(3,4) [OF hx] by simp_all
  have root: "av_root s \<noteq> None" using h k by (cases t) (auto simp: holds_def)
  have rr: "repr s (Some x) (root_of r) r" "repr s (Some x) (root_of l) l" using hx lk by (simp_all add: holds_plug repr_bin)
  show "CAvl_GetNext x s = Some (if ys = [] then None else Some (hd ys))"
  proof (cases r)
    case Tip
    then show ?thesis using climb_ok(1) [of s fs "Bin l x b r" x] h t lk root ys by (simp add: CAvl_GetNext_def)
  next
    case (Bin r1 y c r2)
    then show ?thesis using subtree_min_ok [of s "Some x" y r] rr lk root ys by (cases "keys r1") (simp_all add: CAvl_GetNext_def CAvl_subtree_min_def)
  qed
  show "CAvl_GetPrev x s = Some (if xs = [] then None else Some (last xs))"
  proof (cases l)
    case Tip
    then show ?thesis using climb_ok(2) [of s fs "Bin l x b r" x] h t lk root ys by (simp add: CAvl_GetPrev_def)
  next
    case (Bin l1 y c l2)
    then have "repr s (Some x) (Some y) l" using rr by simp
    from subtree_max_ok [OF this] obtain gs a m bm where m: "CAvl_subtree_end True y s = Some m" "l = plug gs (Bin a m bm Tip)" "after gs = []" by blast
    then have "last (keys l) = m" "keys l \<noteq> []" by (simp_all add: keys_plug)
    then show ?thesis using Bin m(1) lk root ys by (simp add: CAvl_GetPrev_def CAvl_subtree_max_def)
  qed
qed

section \<open>Entries in order\<close>

text \<open>The comparison of entries: by their keys, so that different entries may compare equal.\<close>

locale key_order =
  fixes compare :: "'a \<Rightarrow> 'a \<Rightarrow> int"
  assumes range: "compare a b = -1 \<or> compare a b = 0 \<or> compare a b = 1"
    and refl: "compare a a = 0"
    and equal: "compare a b = 0 \<Longrightarrow> compare a c = compare b c"
    and swap: "compare a b = 1 \<longleftrightarrow> compare b a = -1"
    and trans: "compare a b = -1 \<Longrightarrow> compare b c = -1 \<Longrightarrow> compare a c = -1"
begin

abbreviation less :: "'a \<Rightarrow> 'a \<Rightarrow> bool" where
  "less a b \<equiv> compare a b = -1"

lemma less_irrefl: "\<not> less a a"
  using refl [of a] by simp

lemma less_not_equal: "less a b \<Longrightarrow> compare a b \<noteq> 0" "less a b \<Longrightarrow> compare b a \<noteq> 0"
  using swap [of b a] by auto

lemma less_asym: "less a b \<Longrightarrow> \<not> less b a"
  using trans less_irrefl by blast

lemma compare_entries: "CAvl_compare_entries compare a b = Some (compare a b)"
  using range [of a b] by (auto simp: CAvl_compare_entries_def)

text \<open>A list in order is determined by its entries.\<close>

lemma sorted_unique: "sorted_wrt less xs \<Longrightarrow> sorted_wrt less ys \<Longrightarrow> set xs = set ys \<Longrightarrow> xs = ys"
proof (induction xs arbitrary: ys)
  case (Cons x xs)
  then obtain y zs where ys: "ys = y # zs" by (cases ys) auto
  have "x = y"
  proof (rule ccontr)
    assume "x \<noteq> y"
    moreover have "y \<in> set (x # xs)" "x \<in> set (y # zs)" using Cons.prems(3) ys by auto
    ultimately have "y \<in> set xs" "x \<in> set zs" by auto
    then have "less x y" "less y x" using Cons.prems(1,2) ys by auto
    then show False using less_asym by blast
  qed
  moreover have "x \<notin> set xs" "y \<notin> set zs" using Cons.prems ys less_irrefl by auto
  ultimately have "set xs = set zs" using Cons.prems(3) ys by (simp add: insert_ident)
  with Cons \<open>x = y\<close> ys show ?case by simp
qed simp

lemma sorted_distinct: "sorted_wrt less xs \<Longrightarrow> distinct xs"
  by (induction xs) (auto simp: less_irrefl)

text \<open>Everything that compares as the search expects is on the side where it goes.\<close>

definition between :: "'a frame list \<Rightarrow> 'a \<Rightarrow> bool" where
  "between fs x \<longleftrightarrow> (\<forall>y\<in>set (before fs). less y x) \<and> (\<forall>y\<in>set (after fs). less x y)"

lemma insert_loop_ok:
  assumes "holds s (plug fs t)" "sorted_wrt less (keys (plug fs t))" "between fs x" "root_of t = Some c"
  shows "if \<exists>y\<in>set (keys t). compare x y = 0 then \<exists>y\<in>set (keys t). compare x y = 0 \<and> insert_loop compare x c s = Some (y, None)
    else \<exists>d y b u gs. insert_loop compare x c s = Some (y, Some d) \<and> plug fs t = plug ((d, y, b, u) # gs) Tip \<and> between ((d, y, b, u) # gs) x"
  using assms
proof (induction t arbitrary: fs c)
  case (Bin l y b r)
  let ?t = "Bin l y b r"
  have c: "c = y" using Bin.prems(4) by simp
  have lr: "\<forall>z\<in>set (keys l). less z y" "\<forall>z\<in>set (keys r). less y z" using Bin.prems(2) by (auto simp: keys_plug sorted_wrt_append)
  consider (eq) "compare x y = 0" | (lt) "less x y" | (gt) "compare x y = 1" using range [of x y] by auto
  then show ?case
  proof cases
    case eq
    then have "insert_loop compare x c s = Some (y, None)" by (subst insert_loop.simps) (simp add: c compare_entries)
    with eq show ?thesis by auto
  next
    case lt
    have nr: "\<forall>z\<in>set (keys r). compare x z \<noteq> 0" "compare x y \<noteq> 0" using lr lt trans less_not_equal by blast+
    let ?f = "(False, y, b, r)"
    have t: "plug fs ?t = plug (?f # fs) l" by (simp add: bin_def)
    have bt: "between (?f # fs) x" using Bin.prems(3) lt lr trans by (auto simp: between_def)
    have lk: "av_link s y False = root_of l" using Bin.prems(1) by (auto simp: holds_plug dest: repr_root)
    have step: "insert_loop compare x c s = (case root_of l of None \<Rightarrow> Some (y, Some False) | Some d \<Rightarrow> insert_loop compare x d s)"
      using lt nr by (subst insert_loop.simps) (simp add: c compare_entries lk split: option.split)
    show ?thesis
    proof (cases l)
      case Tip
      then show ?thesis unfolding step t using bt nr by auto
    next
      case (Bin l1 z b1 r1)
      with Bin.IH(1) [of "?f # fs" z] Bin.prems(1,2) bt t nr step show ?thesis by (auto split: if_splits)
    qed
  next
    case gt
    then have gt': "less y x" using swap by blast
    have nl: "\<forall>z\<in>set (keys l). compare x z \<noteq> 0" "compare x y \<noteq> 0" using lr gt' trans less_not_equal by blast+
    let ?f = "(True, y, b, l)"
    have t: "plug fs ?t = plug (?f # fs) r" by (simp add: bin_def)
    have bt: "between (?f # fs) x" using Bin.prems(3) gt' lr trans by (auto simp: between_def)
    have lk: "av_link s y True = root_of r" using Bin.prems(1) by (auto simp: holds_plug dest: repr_root)
    have step: "insert_loop compare x c s = (case root_of r of None \<Rightarrow> Some (y, Some True) | Some d \<Rightarrow> insert_loop compare x d s)"
      using gt nl by (subst insert_loop.simps) (simp add: c compare_entries lk split: option.split)
    show ?thesis
    proof (cases r)
      case Tip
      then show ?thesis unfolding step t using bt nl by auto
    next
      case (Bin l1 z b1 r1)
      with Bin.IH(2) [of "?f # fs" z] Bin.prems(1,2) bt t nl step show ?thesis by (auto split: if_splits)
    qed
  qed
qed simp

lemma sorted_plug_insert:
  assumes "sorted_wrt less (keys (plug fs Tip))" "between fs x"
  shows "sorted_wrt less (keys (plug fs (Bin Tip x b Tip)))"
  using assms by (auto simp: keys_plug between_def sorted_wrt_append)

theorem CAvl_Insert_ok:
  assumes h: "holds s t" and ok: "avl_ok t" and so: "sorted_wrt less (keys t)"
  shows "if \<exists>y\<in>set (keys t). compare x y = 0 then \<exists>y\<in>set (keys t). compare x y = 0 \<and> CAvl_Insert compare x s = Some (False, Some y, s)
    else \<exists>out s' t'. CAvl_Insert compare x s = Some (True, out, s') \<and> holds s' t' \<and> avl_ok t' \<and> sorted_wrt less (keys t') \<and>
      set (keys t') = insert x (set (keys t))"
proof (cases t)
  case Tip
  let ?s = "init_entry x None (s\<lparr>av_root := Some x\<rparr>)"
  have "av_root s = None" using h Tip by (simp add: holds_def)
  moreover have "holds ?s (Bin Tip x 0 Tip)"
    by (simp add: holds_def init_entry_def set_link_def set_parent_def set_balance_def)
  ultimately show ?thesis unfolding Tip by (auto simp: CAvl_Insert_def intro!: exI [of _ ?s] exI [of _ "Bin Tip x 0 Tip"])
next
  case (Bin l c b r)
  have root: "av_root s = Some c" using h Bin by (simp add: holds_def)
  have bt: "between [] x" by (simp add: between_def)
  note loop = insert_loop_ok [of s "[]" t x c, simplified plug.simps, OF h so bt]
  show ?thesis
  proof (cases "\<exists>y\<in>set (keys t). compare x y = 0")
    case True
    with loop Bin have "\<exists>y\<in>set (keys t). compare x y = 0 \<and> insert_loop compare x c s = Some (y, None)" by simp
    with True root show ?thesis by (auto simp: CAvl_Insert_def)
  next
    case False
    then have xn: "x \<notin> set (keys t)" using refl by blast
    from False loop Bin obtain d y bb u gs where p: "insert_loop compare x c s = Some (y, Some d)" "t = plug ((d, y, bb, u) # gs) Tip"
      "between ((d, y, bb, u) # gs) x" by auto
    let ?fs = "(d, y, bb, u) # gs" and ?s = "init_entry x (Some y) (set_link y d (Some x) s)"
    have h1: "holds ?s (plug ?fs (Bin Tip x 0 Tip))" by (rule init_entry_holds) (use h p(2) xn in auto)
    have "frames_ok ?fs (height (Bin Tip x 0 Tip) - 1)" using ok unfolding p(2) plug_ok by simp
    from CAvl_rebalance_ok [OF h1 _ this] obtain s' T where
      T: "CAvl_rebalance y d 1 ?s = Some s'" "holds s' T" "avl_ok T" "keys T = keys (plug ?fs (Bin Tip x 0 Tip))" by auto
    have "sorted_wrt less (keys T)" unfolding T(4) by (rule sorted_plug_insert) (use so p(2,3) in auto)
    moreover have "set (keys T) = insert x (set (keys t))" unfolding T(4) p(2) by auto
    ultimately show ?thesis using False T(1-3) root p(1) by (auto simp: CAvl_Insert_def Let_def)
  qed
qed

text \<open>The tree's check of itself accepts.\<close>

lemma verify_recurser_ok:
  "repr s p (Some n) t \<Longrightarrow> avl_ok t \<Longrightarrow> sorted_wrt less (keys t) \<Longrightarrow> CAvl_verify_recurser compare n s = Some (height t)"
proof (induction t arbitrary: p n)
  case (Bin l x b r)
  have so: "sorted_wrt less (keys l)" "sorted_wrt less (keys r)" "\<forall>y\<in>set (keys l). less y x" "\<forall>y\<in>set (keys r). less x y"
    using Bin.prems(3) by (auto simp: sorted_wrt_append)
  have left: "(case av_link s x False of None \<Rightarrow> Some 0
       | Some l \<Rightarrow> do { ASSERT (av_parent s l = Some x); comp \<leftarrow> CAvl_compare_entries compare l x; ASSERT (comp = -1); CAvl_verify_recurser compare l s }) = Some (height l)"
  proof (cases l)
    case (Bin l1 y c l2)
    with Bin.prems(1) have y: "av_link s x False = Some y" "repr s (Some x) (Some y) l" "av_parent s y = Some x" by auto
    from Bin.IH(1) [OF y(2)] Bin.prems(2) so(1,3) y Bin show ?thesis by (auto simp: compare_entries)
  qed (use Bin.prems(1) in simp)
  have right: "(case av_link s x True of None \<Rightarrow> Some 0
       | Some l \<Rightarrow> do { ASSERT (av_parent s l = Some x); comp \<leftarrow> CAvl_compare_entries compare l x; ASSERT (comp = 1); CAvl_verify_recurser compare l s }) = Some (height r)"
  proof (cases r)
    case (Bin r1 y c r2)
    with Bin.prems(1) have y: "av_link s x True = Some y" "repr s (Some x) (Some y) r" "av_parent s y = Some x" by auto
    have "compare y x = 1" using so(4) Bin swap by simp
    with Bin.IH(2) [OF y(2)] Bin.prems(2) so(2) y Bin show ?thesis by (auto simp: compare_entries)
  qed (use Bin.prems(1) in simp)
  have n: "n = x" "av_balance s x = b" using Bin.prems(1) by auto
  show ?case using Bin.prems(2) n(2) unfolding n(1) by (subst CAvl_verify_recurser.simps) (simp add: left right)
qed simp

lemma CAvl_Verify_ok: "holds s t \<Longrightarrow> avl_ok t \<Longrightarrow> sorted_wrt less (keys t) \<Longrightarrow> CAvl_Verify compare s = Some ()"
  using verify_recurser_ok [of s None _ t] by (cases t) (auto simp: holds_def CAvl_Verify_def)

end

text \<open>Entries that are told apart: only an entry itself compares equal to it.\<close>

locale entry_order = key_order +
  assumes same: "compare a b = 0 \<longleftrightarrow> a = b"
begin

lemma present: "(\<exists>y\<in>S. compare x y = 0) \<longleftrightarrow> x \<in> S"
  using same by auto

end

end
