(* ===== verification/Reactor.thy ===== *)
theory Reactor
  imports Pending Event_Machine Net_Addr
begin

text \<open>
  The reactor (\<open>system/BReactor_badvpn.c\<close> with epoll, and \<open>system/BTime.h\<close>): jobs, timers, file
  descriptors and limits.  The pending jobs are the group of theory \<open>Pending\<close>.  The tree of running
  timers is the list of its elements in its order, and linked lists are lists; timers, file descriptors
  and limits live in partial stores, where absent memory has not been initialised.  A file descriptor's
  \<open>epoll_returned_ptr\<close> is the index of the result that points to it.

  One iteration of \<open>BReactor_Exec\<close> returns what it dispatched; the handler's own calls are further
  events of the machine.  What the clock and \<open>epoll_wait\<close> return are arguments.
\<close>

section \<open>Time\<close>

definition INT64_MAX :: int where "INT64_MAX = 9223372036854775807"

definition INT64_MIN :: int where "INT64_MIN = - 9223372036854775808"

definition is_int64 :: "int \<Rightarrow> bool" where
  "is_int64 x \<longleftrightarrow> INT64_MIN \<le> x \<and> x \<le> INT64_MAX"

definition add_int64_overflows :: "int \<Rightarrow> int \<Rightarrow> int" where
  "add_int64_overflows a b =
     (if (a < 0) \<noteq> (b < 0) then 0
      else if a < 0 then - (if a < INT64_MIN - b then 1 else 0)
      else (if a > INT64_MAX - b then 1 else 0))"

text \<open>A signed operation whose result does not fit is undefined.\<close>

definition int64 :: "int \<Rightarrow> int option" where
  "int64 x = (if is_int64 x then Some x else None)"

definition btime_add :: "int \<Rightarrow> int \<Rightarrow> int option" where
  "btime_add t1 t2 =
     (let overflows = add_int64_overflows t1 t2 in
      if overflows \<noteq> 0 then Some (if overflows > 0 then INT64_MAX else INT64_MIN)
      else int64 (t1 + t2))"

record btime_global =
  bt_initialized :: bool
  bt_start_time :: int
  bt_use_gettimeofday :: bool

text \<open>Seconds with nanoseconds, or with microseconds, in milliseconds.\<close>

definition timespec_ms :: "int \<times> int \<Rightarrow> int" where
  "timespec_ms ts = fst ts * 1000 + snd ts div 1000000"

definition timeval_ms :: "int \<times> int \<Rightarrow> int" where
  "timeval_ms tv = fst tv * 1000 + snd tv div 1000"

text \<open>\<open>mclk\<close> is the result of \<open>clock_gettime\<close>, \<open>tod\<close> that of \<open>gettimeofday\<close>.\<close>

definition BTime_Init :: "(int \<times> int) option \<Rightarrow> int \<times> int \<Rightarrow> btime_global \<Rightarrow> btime_global option" where
  "BTime_Init mclk tod g = do {
     ASSERT (\<not> bt_initialized g);
     Some (case mclk of
       None \<Rightarrow> g\<lparr>bt_start_time := timeval_ms tod, bt_use_gettimeofday := True, bt_initialized := True\<rparr>
     | Some ts \<Rightarrow> g\<lparr>bt_start_time := timespec_ms ts, bt_use_gettimeofday := False, bt_initialized := True\<rparr>)
   }"

definition btime_gettime :: "int \<times> int \<Rightarrow> int \<times> int \<Rightarrow> btime_global \<Rightarrow> int option" where
  "btime_gettime mclk tod g = do {
     ASSERT (bt_initialized g);
     Some (if bt_use_gettimeofday g then timeval_ms tod else timespec_ms mclk - bt_start_time g)
   }"

section \<open>State\<close>

datatype timer_state = TIMER_STATE_INACTIVE | TIMER_STATE_RUNNING | TIMER_STATE_EXPIRED

record 'h BSmallTimer =
  tm_handler :: 'h
  tm_absTime :: int
  tm_state :: timer_state
  tm_is_small :: bool
  tm_msTime :: int

type_synonym events = "32 word"

record 'h BFileDescriptor =
  fd_fd :: int
  fd_handler :: 'h
  fd_active :: bool
  fd_waitEvents :: events
  fd_epoll_returned_ptr :: "nat option"

record BReactorLimit =
  lm_limit :: int
  lm_count :: int

record 'h BReactor =
  rx_exiting :: bool
  rx_exit_code :: int
  rx_pending_jobs :: "'h BPendingGroup"
  rx_timers_tree :: "ptr list"
  rx_timers_expired_list :: "ptr list"
  rx_active_limits_list :: "ptr list"
  rx_epoll_results :: "(ptr option \<times> events) list"
  rx_epoll_results_pos :: nat
  rx_d_fds_counter :: int
  rx_d_limits_ctr :: int
  rx_timer :: "ptr \<rightharpoonup> 'h BSmallTimer"
  rx_fd :: "ptr \<rightharpoonup> 'h BFileDescriptor"
  rx_limit :: "ptr \<rightharpoonup> BReactorLimit"

definition BREACTOR_READ :: events where "BREACTOR_READ = 1"

definition BREACTOR_WRITE :: events where "BREACTOR_WRITE = 2"

definition BREACTOR_ERROR :: events where "BREACTOR_ERROR = 4"

definition BREACTOR_HUP :: events where "BREACTOR_HUP = 8"

definition EPOLLIN :: events where "EPOLLIN = 1"

definition EPOLLOUT :: events where "EPOLLOUT = 4"

definition EPOLLERR :: events where "EPOLLERR = 8"

definition EPOLLHUP :: events where "EPOLLHUP = 16"

definition BSYSTEM_MAX_RESULTS :: nat where "BSYSTEM_MAX_RESULTS = 64"

section \<open>Timers\<close>

definition compare_timers :: "(ptr \<Rightarrow> int) \<Rightarrow> ptr \<Rightarrow> ptr \<Rightarrow> int" where
  "compare_timers absTime t1 t2 =
     (let cmp = B_COMPARE (absTime t1) (absTime t2) in if cmp \<noteq> 0 then cmp else B_COMPARE t1 t2)"

abbreviation abs_time :: "'h BReactor \<Rightarrow> ptr \<Rightarrow> int" where
  "abs_time r t \<equiv> tm_absTime (the (rx_timer r t))"

text \<open>Insertion into the tree fails for an element that compares equal to one that is there.\<close>

fun timers_insert :: "(ptr \<Rightarrow> int) \<Rightarrow> ptr \<Rightarrow> ptr list \<Rightarrow> ptr list option" where
  "timers_insert absTime t [] = Some [t]"
| "timers_insert absTime t (u # us) =
     (if compare_timers absTime t u = 0 then None
      else if compare_timers absTime t u < 0 then Some (t # u # us)
      else map_option ((#) u) (timers_insert absTime t us))"

definition BSmallTimer_Init :: "ptr \<Rightarrow> 'h \<Rightarrow> 'h BReactor \<Rightarrow> 'h BReactor" where
  "BSmallTimer_Init t handler r = r\<lparr>rx_timer := (rx_timer r)(t \<mapsto>
     \<lparr>tm_handler = handler, tm_absTime = 0, tm_state = TIMER_STATE_INACTIVE, tm_is_small = True, tm_msTime = 0\<rparr>)\<rparr>"

definition BTimer_Init :: "ptr \<Rightarrow> int \<Rightarrow> 'h \<Rightarrow> 'h BReactor \<Rightarrow> 'h BReactor" where
  "BTimer_Init t msTime handler r = r\<lparr>rx_timer := (rx_timer r)(t \<mapsto>
     \<lparr>tm_handler = handler, tm_absTime = 0, tm_state = TIMER_STATE_INACTIVE, tm_is_small = False, tm_msTime = msTime\<rparr>)\<rparr>"

definition BSmallTimer_IsRunning :: "ptr \<Rightarrow> 'h BReactor \<Rightarrow> bool option" where
  "BSmallTimer_IsRunning t r = do { tm \<leftarrow> rx_timer r t; Some (tm_state tm \<noteq> TIMER_STATE_INACTIVE) }"

definition set_timer_state :: "ptr \<Rightarrow> timer_state \<Rightarrow> 'h BReactor \<Rightarrow> 'h BReactor option" where
  "set_timer_state t st r = do { tm \<leftarrow> rx_timer r t; Some (r\<lparr>rx_timer := (rx_timer r)(t \<mapsto> tm\<lparr>tm_state := st\<rparr>)\<rparr>) }"

definition BReactor_RemoveSmallTimer :: "ptr \<Rightarrow> 'h BReactor \<Rightarrow> 'h BReactor option" where
  "BReactor_RemoveSmallTimer t r = do {
     tm \<leftarrow> rx_timer r t;
     case tm_state tm of
       TIMER_STATE_INACTIVE \<Rightarrow> Some r
     | TIMER_STATE_EXPIRED \<Rightarrow> do {
         ASSERT (t \<in> set (rx_timers_expired_list r));
         set_timer_state t TIMER_STATE_INACTIVE (r\<lparr>rx_timers_expired_list := remove1 t (rx_timers_expired_list r)\<rparr>)
       }
     | TIMER_STATE_RUNNING \<Rightarrow> do {
         ASSERT (t \<in> set (rx_timers_tree r));
         set_timer_state t TIMER_STATE_INACTIVE (r\<lparr>rx_timers_tree := remove1 t (rx_timers_tree r)\<rparr>)
       }
   }"

datatype timer_mode = BTIMER_SET_ABSOLUTE | BTIMER_SET_RELATIVE

definition BReactor_SetSmallTimer :: "int \<Rightarrow> ptr \<Rightarrow> timer_mode \<Rightarrow> int \<Rightarrow> 'h BReactor \<Rightarrow> 'h BReactor option" where
  "BReactor_SetSmallTimer now t mode time r = do {
     r \<leftarrow> BReactor_RemoveSmallTimer t r;
     time \<leftarrow> (case mode of BTIMER_SET_RELATIVE \<Rightarrow> btime_add now time | BTIMER_SET_ABSOLUTE \<Rightarrow> Some time);
     tm \<leftarrow> rx_timer r t;
     let r = r\<lparr>rx_timer := (rx_timer r)(t \<mapsto> tm\<lparr>tm_absTime := time, tm_state := TIMER_STATE_RUNNING\<rparr>)\<rparr>;
     tree \<leftarrow> timers_insert (abs_time r) t (rx_timers_tree r);
     Some (r\<lparr>rx_timers_tree := tree\<rparr>)
   }"

definition BReactor_SetTimer :: "int \<Rightarrow> ptr \<Rightarrow> 'h BReactor \<Rightarrow> 'h BReactor option" where
  "BReactor_SetTimer now t r = do { tm \<leftarrow> rx_timer r t; BReactor_SetSmallTimer now t BTIMER_SET_RELATIVE (tm_msTime tm) r }"

definition BReactor_SetTimerAfter :: "int \<Rightarrow> ptr \<Rightarrow> int \<Rightarrow> 'h BReactor \<Rightarrow> 'h BReactor option" where
  "BReactor_SetTimerAfter now t after r = BReactor_SetSmallTimer now t BTIMER_SET_RELATIVE after r"

definition BReactor_SetTimerAbsolute :: "int \<Rightarrow> ptr \<Rightarrow> int \<Rightarrow> 'h BReactor \<Rightarrow> 'h BReactor option" where
  "BReactor_SetTimerAbsolute now t time r = BReactor_SetSmallTimer now t BTIMER_SET_ABSOLUTE time r"

definition BReactor_RemoveTimer :: "ptr \<Rightarrow> 'h BReactor \<Rightarrow> 'h BReactor option" where
  "BReactor_RemoveTimer t r = BReactor_RemoveSmallTimer t r"

text \<open>The first timer of the tree goes to the end of the expired list.\<close>

definition expire_first :: "'h BReactor \<Rightarrow> 'h BReactor option" where
  "expire_first r = (case rx_timers_tree r of
     [] \<Rightarrow> None
   | t # ts \<Rightarrow> set_timer_state t TIMER_STATE_EXPIRED
       (r\<lparr>rx_timers_tree := ts, rx_timers_expired_list := rx_timers_expired_list r @ [t]\<rparr>))"

lemma expire_first_shorter: "expire_first r = Some r' \<Longrightarrow> length (rx_timers_tree r') < length (rx_timers_tree r)"
  by (auto simp: expire_first_def set_timer_state_def split: list.splits Option.bind_splits)

function move_expired_timers :: "int \<Rightarrow> bool \<Rightarrow> 'h BReactor \<Rightarrow> (bool \<times> 'h BReactor) option" where
  "move_expired_timers now moved r = (case rx_timers_tree r of
     [] \<Rightarrow> Some (moved, r)
   | t # _ \<Rightarrow> (case rx_timer r t of
       None \<Rightarrow> None
     | Some tm \<Rightarrow>
         if tm_state tm \<noteq> TIMER_STATE_RUNNING then None
         else if tm_absTime tm > now then Some (moved, r)
         else (case expire_first r of None \<Rightarrow> None | Some r \<Rightarrow> move_expired_timers now True r)))"
  by pat_completeness auto
termination
  by (relation "measure (\<lambda>(now, moved, r). length (rx_timers_tree r))") (auto dest: expire_first_shorter)

declare move_expired_timers.simps [simp del]

function move_equal_timers :: "int \<Rightarrow> 'h BReactor \<Rightarrow> 'h BReactor option" where
  "move_equal_timers first_time r = (case rx_timers_tree r of
     [] \<Rightarrow> Some r
   | t # _ \<Rightarrow> (case rx_timer r t of
       None \<Rightarrow> None
     | Some tm \<Rightarrow>
         if tm_state tm \<noteq> TIMER_STATE_RUNNING \<or> tm_absTime tm < first_time then None
         else if tm_absTime tm > first_time then Some r
         else (case expire_first r of None \<Rightarrow> None | Some r \<Rightarrow> move_equal_timers first_time r)))"
  by pat_completeness auto
termination
  by (relation "measure (\<lambda>(now, r). length (rx_timers_tree r))") (auto dest: expire_first_shorter)

declare move_equal_timers.simps [simp del]

definition move_first_timers :: "'h BReactor \<Rightarrow> 'h BReactor option" where
  "move_first_timers r = (case rx_timers_tree r of
     [] \<Rightarrow> None
   | t # _ \<Rightarrow> do {
       tm \<leftarrow> rx_timer r t;
       ASSERT (tm_state tm = TIMER_STATE_RUNNING);
       r \<leftarrow> expire_first r;
       move_equal_timers (tm_absTime tm) r
     })"

section \<open>File descriptors\<close>

definition BFileDescriptor_Init :: "ptr \<Rightarrow> int \<Rightarrow> 'h \<Rightarrow> 'h BReactor \<Rightarrow> 'h BReactor" where
  "BFileDescriptor_Init b fd handler r = r\<lparr>rx_fd := (rx_fd r)(b \<mapsto>
     \<lparr>fd_fd = fd, fd_handler = handler, fd_active = False, fd_waitEvents = 0, fd_epoll_returned_ptr = None\<rparr>)\<rparr>"

text \<open>\<open>epoll_ctl\<close> may fail when a descriptor is added; its failure otherwise is fatal.\<close>

definition BReactor_AddFileDescriptor :: "bool \<Rightarrow> ptr \<Rightarrow> 'h BReactor \<Rightarrow> (bool \<times> 'h BReactor) option" where
  "BReactor_AddFileDescriptor epoll_ctl b r = do {
     f \<leftarrow> rx_fd r b;
     ASSERT (\<not> fd_active f);
     if \<not> epoll_ctl then Some (False, r)
     else do {
       c \<leftarrow> DebugCounter_Increment (rx_d_fds_counter r);
       Some (True, r\<lparr>rx_fd := (rx_fd r)(b \<mapsto> f\<lparr>fd_epoll_returned_ptr := None, fd_active := True, fd_waitEvents := 0\<rparr>),
         rx_d_fds_counter := c\<rparr>)
     }
   }"

definition BReactor_RemoveFileDescriptor :: "bool \<Rightarrow> ptr \<Rightarrow> 'h BReactor \<Rightarrow> 'h BReactor option" where
  "BReactor_RemoveFileDescriptor epoll_ctl b r = do {
     f \<leftarrow> rx_fd r b;
     ASSERT (fd_active f);
     c \<leftarrow> DebugCounter_Decrement (rx_d_fds_counter r);
     ASSERT epoll_ctl;
     let r = r\<lparr>rx_fd := (rx_fd r)(b \<mapsto> f\<lparr>fd_active := False\<rparr>), rx_d_fds_counter := c\<rparr>;
     case fd_epoll_returned_ptr f of
       None \<Rightarrow> Some r
     | Some i \<Rightarrow> do {
         ASSERT (i < length (rx_epoll_results r));
         Some (r\<lparr>rx_epoll_results := (rx_epoll_results r)[i := (None, snd (rx_epoll_results r ! i))]\<rparr>)
       }
   }"

unbundle bit_operations_syntax

definition BReactor_SetFileDescriptorEvents :: "bool \<Rightarrow> ptr \<Rightarrow> events \<Rightarrow> 'h BReactor \<Rightarrow> 'h BReactor option" where
  "BReactor_SetFileDescriptorEvents epoll_ctl b events r = do {
     f \<leftarrow> rx_fd r b;
     ASSERT (fd_active f);
     ASSERT (events AND NOT (BREACTOR_READ OR BREACTOR_WRITE) = 0);
     if fd_waitEvents f = events then Some r
     else do {
       ASSERT epoll_ctl;
       Some (r\<lparr>rx_fd := (rx_fd r)(b \<mapsto> f\<lparr>fd_waitEvents := events\<rparr>)\<rparr>)
     }
   }"

text \<open>The events registered with epoll for a descriptor.\<close>

definition epoll_interest :: "events \<Rightarrow> events" where
  "epoll_interest events =
     (if events AND BREACTOR_READ \<noteq> 0 then EPOLLIN else 0) OR (if events AND BREACTOR_WRITE \<noteq> 0 then EPOLLOUT else 0)"

text \<open>The events reported to the handler of a descriptor.\<close>

definition report_events :: "events \<Rightarrow> events \<Rightarrow> events" where
  "report_events waitEvents ev =
     (if waitEvents AND BREACTOR_READ \<noteq> 0 \<and> ev AND EPOLLIN \<noteq> 0 then BREACTOR_READ else 0) OR
     (if waitEvents AND BREACTOR_WRITE \<noteq> 0 \<and> ev AND EPOLLOUT \<noteq> 0 then BREACTOR_WRITE else 0) OR
     (if ev AND EPOLLERR \<noteq> 0 then BREACTOR_ERROR else 0) OR
     (if ev AND EPOLLHUP \<noteq> 0 then BREACTOR_HUP else 0)"

fun set_epoll_fd_pointers :: "nat \<Rightarrow> (ptr option \<times> events) list \<Rightarrow> (ptr \<rightharpoonup> 'h BFileDescriptor) \<Rightarrow> (ptr \<rightharpoonup> 'h BFileDescriptor) option" where
  "set_epoll_fd_pointers i [] fds = Some fds"
| "set_epoll_fd_pointers i ((p, ev) # res) fds = do {
     b \<leftarrow> p;
     f \<leftarrow> fds b;
     ASSERT (fd_active f);
     ASSERT (fd_epoll_returned_ptr f = None);
     set_epoll_fd_pointers (i + 1) res (fds(b \<mapsto> f\<lparr>fd_epoll_returned_ptr := Some i\<rparr>))
   }"

section \<open>Limits\<close>

definition BReactorLimit_Init :: "ptr \<Rightarrow> int \<Rightarrow> 'h BReactor \<Rightarrow> 'h BReactor option" where
  "BReactorLimit_Init l limit r = do {
     ASSERT (limit > 0);
     c \<leftarrow> DebugCounter_Increment (rx_d_limits_ctr r);
     Some (r\<lparr>rx_limit := (rx_limit r)(l \<mapsto> \<lparr>lm_limit = limit, lm_count = 0\<rparr>), rx_d_limits_ctr := c\<rparr>)
   }"

definition BReactorLimit_Free :: "ptr \<Rightarrow> 'h BReactor \<Rightarrow> 'h BReactor option" where
  "BReactorLimit_Free l r = do {
     m \<leftarrow> rx_limit r l;
     c \<leftarrow> DebugCounter_Decrement (rx_d_limits_ctr r);
     let r = r\<lparr>rx_limit := (rx_limit r)(l := None), rx_d_limits_ctr := c\<rparr>;
     if lm_count m > 0 then do {
       ASSERT (l \<in> set (rx_active_limits_list r));
       Some (r\<lparr>rx_active_limits_list := remove1 l (rx_active_limits_list r)\<rparr>)
     } else Some r
   }"

definition BReactorLimit_Increment :: "ptr \<Rightarrow> 'h BReactor \<Rightarrow> (bool \<times> 'h BReactor) option" where
  "BReactorLimit_Increment l r = do {
     m \<leftarrow> rx_limit r l;
     if lm_count m \<ge> lm_limit m then Some (False, r)
     else do {
       let r = r\<lparr>rx_limit := (rx_limit r)(l \<mapsto> m\<lparr>lm_count := lm_count m + 1\<rparr>)\<rparr>;
       Some (True, if lm_count m + 1 = 1 then r\<lparr>rx_active_limits_list := rx_active_limits_list r @ [l]\<rparr> else r)
     }
   }"

definition BReactorLimit_SetLimit :: "ptr \<Rightarrow> int \<Rightarrow> 'h BReactor \<Rightarrow> 'h BReactor option" where
  "BReactorLimit_SetLimit l limit r = do {
     m \<leftarrow> rx_limit r l;
     ASSERT (limit > 0);
     Some (r\<lparr>rx_limit := (rx_limit r)(l \<mapsto> m\<lparr>lm_limit := limit\<rparr>)\<rparr>)
   }"

fun reset_limits :: "ptr list \<Rightarrow> (ptr \<rightharpoonup> BReactorLimit) \<Rightarrow> (ptr \<rightharpoonup> BReactorLimit) option" where
  "reset_limits [] lims = Some lims"
| "reset_limits (l # ls) lims = do {
     m \<leftarrow> lims l;
     ASSERT (lm_count m > 0);
     reset_limits ls (lims(l \<mapsto> m\<lparr>lm_count := 0\<rparr>))
   }"

section \<open>The event loop\<close>

text \<open>
  A return of \<open>epoll_wait\<close>: an interruption, a timeout, each with the clock read afterwards, or
  results.
\<close>

datatype epoll_outcome = Interrupted int | TimedOut int | Ready "(ptr \<times> events) list"

text \<open>
  The inner loop; \<open>timeout\<close> is \<open>timeout_abs\<close> with the last clock reading, when there is one.  The
  result is whether it has ended: with no further outcome the program is still waiting.
\<close>

fun wait_loop :: "epoll_outcome list \<Rightarrow> (int \<times> int) option \<Rightarrow> 'h BReactor \<Rightarrow> (bool \<times> 'h BReactor) option" where
  "wait_loop [] timeout r = Some (False, r)"
| "wait_loop (out # outs) timeout r = do {
     rel \<leftarrow> (case timeout of None \<Rightarrow> Some 0 | Some (timeout_abs, now) \<Rightarrow> int64 (timeout_abs - now));
     let trunc = (if timeout \<noteq> None \<and> rel > INT32_MAX then INT32_MAX else rel);
     let again = (\<lambda>now. case timeout of
         None \<Rightarrow> wait_loop outs None r
       | Some (timeout_abs, _) \<Rightarrow>
           if now \<ge> timeout_abs then map_option (Pair True) (move_first_timers r)
           else wait_loop outs (Some (timeout_abs, now)) r);
     case out of
       Interrupted now \<Rightarrow> again now
     | TimedOut now \<Rightarrow> do {
         ASSERT (timeout \<noteq> None);
         if trunc = rel then map_option (Pair True) (move_first_timers r) else again now
       }
     | Ready res \<Rightarrow> do {
         ASSERT (length res \<le> BSYSTEM_MAX_RESULTS);
         let results = map (\<lambda>(b, ev). (Some b, ev)) res;
         fds \<leftarrow> set_epoll_fd_pointers 0 results (rx_fd r);
         Some (True, r\<lparr>rx_epoll_results := results, rx_fd := fds\<rparr>)
       }
   }"

definition wait_for_events :: "int \<Rightarrow> epoll_outcome list \<Rightarrow> 'h BReactor \<Rightarrow> (bool \<times> 'h BReactor) option" where
  "wait_for_events now outs r = do {
     jobs \<leftarrow> BPendingGroup_HasJobs (rx_pending_jobs r);
     ASSERT (\<not> jobs);
     ASSERT (rx_timers_expired_list r = []);
     ASSERT (rx_epoll_results_pos r = length (rx_epoll_results r));
     let r = r\<lparr>rx_epoll_results := [], rx_epoll_results_pos := 0\<rparr>;
     (moved, timeout, r) \<leftarrow> (case rx_timers_tree r of
         [] \<Rightarrow> Some (False, None, r)
       | t # _ \<Rightarrow> do {
           tm \<leftarrow> rx_timer r t;
           ASSERT (tm_state tm = TIMER_STATE_RUNNING);
           (moved, r) \<leftarrow> move_expired_timers now False r;
           Some (moved, Some (tm_absTime tm, now), r)
         });
     if moved then Some (True, r)
     else do {
       (ended, r) \<leftarrow> wait_loop outs timeout r;
       if \<not> ended then Some (False, r)
       else do {
         lims \<leftarrow> reset_limits (rx_active_limits_list r) (rx_limit r);
         Some (True, r\<lparr>rx_limit := lims, rx_active_limits_list := []\<rparr>)
       }
     }
   }"

datatype 'h dispatch = DJob 'h | DTimer ptr 'h | DFd ptr 'h events | DNone | DWaited | DWaiting

text \<open>One iteration of the loop.\<close>

definition BReactor_Exec_once :: "int \<Rightarrow> epoll_outcome list \<Rightarrow> 'h BReactor \<Rightarrow> ('h dispatch \<times> 'h BReactor) option" where
  "BReactor_Exec_once now outs r = do {
     ASSERT (\<not> rx_exiting r);
     jobs \<leftarrow> BPendingGroup_HasJobs (rx_pending_jobs r);
     if jobs then do {
       (h, g) \<leftarrow> BPendingGroup_ExecuteJob (rx_pending_jobs r);
       Some (DJob h, r\<lparr>rx_pending_jobs := g\<rparr>)
     }
     else case rx_timers_expired_list r of
       t # ts \<Rightarrow> do {
         tm \<leftarrow> rx_timer r t;
         ASSERT (tm_state tm = TIMER_STATE_EXPIRED);
         r \<leftarrow> set_timer_state t TIMER_STATE_INACTIVE (r\<lparr>rx_timers_expired_list := ts\<rparr>);
         Some (DTimer t (tm_handler tm), r)
       }
     | [] \<Rightarrow>
         if rx_epoll_results_pos r < length (rx_epoll_results r) then do {
           let i = rx_epoll_results_pos r;
           let event = rx_epoll_results r ! i;
           let r = r\<lparr>rx_epoll_results_pos := i + 1\<rparr>;
           case fst event of
             None \<Rightarrow> Some (DNone, r)
           | Some b \<Rightarrow> do {
               f \<leftarrow> rx_fd r b;
               ASSERT (fd_active f);
               ASSERT (fd_epoll_returned_ptr f = Some i);
               let r = r\<lparr>rx_fd := (rx_fd r)(b \<mapsto> f\<lparr>fd_epoll_returned_ptr := None\<rparr>)\<rparr>;
               let events = report_events (fd_waitEvents f) (snd event);
               Some (if events = 0 then DNone else DFd b (fd_handler f) events, r)
             }
         }
         else do {
           (ended, r) \<leftarrow> wait_for_events now outs r;
           Some (if ended then DWaited else DWaiting, r)
         }
   }"

definition BReactor_Quit :: "int \<Rightarrow> 'h BReactor \<Rightarrow> 'h BReactor" where
  "BReactor_Quit code r = r\<lparr>rx_exiting := True, rx_exit_code := code\<rparr>"

text \<open>One iteration of the loop that runs jobs until a given one is next: that one is next, or a job has run.\<close>

definition BReactor_Synchronize_once :: "ptr \<Rightarrow> 'h BReactor \<Rightarrow> (bool \<times> 'h dispatch \<times> 'h BReactor) option" where
  "BReactor_Synchronize_once ref r = do {
     ASSERT (\<not> rx_exiting r);
     jobs \<leftarrow> BPendingGroup_HasJobs (rx_pending_jobs r);
     ASSERT jobs;
     top \<leftarrow> BPendingGroup_PeekJob (rx_pending_jobs r);
     if top = Some ref then Some (True, DNone, r)
     else do {
       (h, g) \<leftarrow> BPendingGroup_ExecuteJob (rx_pending_jobs r);
       Some (False, DJob h, r\<lparr>rx_pending_jobs := g\<rparr>)
     }
   }"

definition BReactor_Init :: "bool \<Rightarrow> 'h BReactor \<Rightarrow> (bool \<times> 'h BReactor) option" where
  "BReactor_Init epoll_create r = do {
     let r = r\<lparr>rx_exiting := False, rx_pending_jobs := BPendingGroup_Init (rx_pending_jobs r), rx_timers_tree := [],
       rx_timers_expired_list := [], rx_active_limits_list := []\<rparr>;
     if \<not> epoll_create then do {
       g \<leftarrow> BPendingGroup_Free (rx_pending_jobs r);
       Some (False, r\<lparr>rx_pending_jobs := g\<rparr>)
     }
     else Some (True, r\<lparr>rx_epoll_results := [], rx_epoll_results_pos := 0, rx_d_fds_counter := 0, rx_d_limits_ctr := 0\<rparr>)
   }"

definition BReactor_Free :: "bool \<Rightarrow> 'h BReactor \<Rightarrow> 'h BReactor option" where
  "BReactor_Free close r = do {
     jobs \<leftarrow> BPendingGroup_HasJobs (rx_pending_jobs r);
     ASSERT (\<not> jobs);
     ASSERT (rx_timers_tree r = []);
     ASSERT (rx_timers_expired_list r = []);
     ASSERT (rx_active_limits_list r = []);
     DebugCounter_Free (rx_d_fds_counter r);
     DebugCounter_Free (rx_d_limits_ctr r);
     ASSERT close;
     g \<leftarrow> BPendingGroup_Free (rx_pending_jobs r);
     Some (r\<lparr>rx_pending_jobs := g\<rparr>)
   }"

end
