(* ===== verification/Reactor_Run.thy ===== *)
theory Reactor_Run
  imports Reactor
begin

text \<open>
  The reactor's invariant and what its users can rely on: timers are dispatched in the order of their
  times and never early, removed descriptors and timers are never dispatched, and everything that is
  ready is dispatched before the reactor waits again.
\<close>

section \<open>Time\<close>

lemmas int64_defs = is_int64_def INT64_MAX_def INT64_MIN_def

lemma btime_add_saturates:
  assumes "is_int64 a" "is_int64 b"
  shows "btime_add a b = Some (max INT64_MIN (min INT64_MAX (a + b)))"
  using assms by (auto simp: btime_add_def add_int64_overflows_def int64_def int64_defs Let_def)

section \<open>Invariants\<close>

definition tless :: "(ptr \<Rightarrow> int) \<Rightarrow> ptr \<Rightarrow> ptr \<Rightarrow> bool" where
  "tless at a b \<longleftrightarrow> at a < at b \<or> at a = at b \<and> a < b"

lemma compare_timers_less: "compare_timers at a b < 0 \<longleftrightarrow> tless at a b" "compare_timers at a b = 0 \<longleftrightarrow> a = b"
  by (auto simp: compare_timers_def tless_def B_COMPARE_def Let_def)

lemma tless_trans: "tless at a b \<Longrightarrow> tless at b c \<Longrightarrow> tless at a c"
  by (auto simp: tless_def)

lemma tless_linear: "a \<noteq> b \<Longrightarrow> \<not> tless at a b \<Longrightarrow> tless at b a"
  by (auto simp: tless_def)

definition timers_inv :: "(ptr \<rightharpoonup> 'h BSmallTimer) \<Rightarrow> ptr list \<Rightarrow> ptr list \<Rightarrow> bool" where
  "timers_inv tm tree ex \<longleftrightarrow> distinct (tree @ ex) \<and>
     (\<forall>t. t \<in> set tree \<longleftrightarrow> (\<exists>x. tm t = Some x \<and> tm_state x = TIMER_STATE_RUNNING)) \<and>
     (\<forall>t. t \<in> set ex \<longleftrightarrow> (\<exists>x. tm t = Some x \<and> tm_state x = TIMER_STATE_EXPIRED)) \<and>
     sorted_wrt (tless (\<lambda>t. tm_absTime (the (tm t)))) tree \<and> sorted_wrt (tless (\<lambda>t. tm_absTime (the (tm t)))) ex \<and>
     (\<forall>t x. tm t = Some x \<longrightarrow> is_int64 (tm_absTime x) \<and> is_int64 (tm_msTime x))"

definition fds_inv :: "(ptr \<rightharpoonup> 'h BFileDescriptor) \<Rightarrow> (ptr option \<times> events) list \<Rightarrow> nat \<Rightarrow> int \<Rightarrow> bool" where
  "fds_inv fds res pos ctr \<longleftrightarrow> pos \<le> length res \<and>
     (\<forall>i b. pos \<le> i \<and> i < length res \<and> fst (res ! i) = Some b \<longrightarrow>
        (\<exists>f. fds b = Some f \<and> fd_active f \<and> fd_epoll_returned_ptr f = Some i)) \<and>
     (\<forall>b f i. fds b = Some f \<and> fd_active f \<and> fd_epoll_returned_ptr f = Some i \<longrightarrow>
        pos \<le> i \<and> i < length res \<and> fst (res ! i) = Some b) \<and>
     finite {b. \<exists>f. fds b = Some f \<and> fd_active f} \<and> 0 \<le> ctr \<and>
     (ctr = int (card {b. \<exists>f. fds b = Some f \<and> fd_active f}) \<or> ctr = INT32_MAX)"

definition limits_inv :: "(ptr \<rightharpoonup> BReactorLimit) \<Rightarrow> ptr list \<Rightarrow> int \<Rightarrow> bool" where
  "limits_inv lims act ctr \<longleftrightarrow> distinct act \<and>
     (\<forall>l. l \<in> set act \<longleftrightarrow> (\<exists>m. lims l = Some m \<and> lm_count m > 0)) \<and>
     (\<forall>l m. lims l = Some m \<longrightarrow> lm_count m \<ge> 0 \<and> lm_limit m > 0) \<and>
     finite (dom lims) \<and> 0 \<le> ctr \<and> (ctr = int (card (dom lims)) \<or> ctr = INT32_MAX)"

definition rx_inv :: "int \<Rightarrow> 'h BReactor \<Rightarrow> bool" where
  "rx_inv clock r \<longleftrightarrow> (\<exists>js. pending_models (rx_pending_jobs r) js) \<and>
     timers_inv (rx_timer r) (rx_timers_tree r) (rx_timers_expired_list r) \<and>
     fds_inv (rx_fd r) (rx_epoll_results r) (rx_epoll_results_pos r) (rx_d_fds_counter r) \<and>
     limits_inv (rx_limit r) (rx_active_limits_list r) (rx_d_limits_ctr r) \<and>
     0 \<le> clock \<and> clock \<le> INT64_MAX \<and> (\<forall>t\<in>set (rx_timers_expired_list r). abs_time r t \<le> clock)"

text \<open>Counters of objects that come and go.\<close>

lemma counter_up:
  assumes "0 \<le> c" "c = int (card S) \<or> c = INT32_MAX" "finite S" "x \<notin> S"
  shows "\<exists>c'. DebugCounter_Increment c = Some c' \<and> 0 \<le> c' \<and> (c' = int (card (insert x S)) \<or> c' = INT32_MAX)"
  using assms by (auto simp: DebugCounter_Increment_def INT32_MAX_def)

lemma counter_down:
  assumes "0 \<le> c" "c = int (card S) \<or> c = INT32_MAX" "finite S" "x \<in> S"
  shows "\<exists>c'. DebugCounter_Decrement c = Some c' \<and> 0 \<le> c' \<and> (c' = int (card (S - {x})) \<or> c' = INT32_MAX)"
proof -
  have "0 < card S" using assms(3,4) by (auto simp: card_gt_0_iff)
  then have "0 < c" using assms(2) by (auto simp: INT32_MAX_def)
  moreover have "int (card (S - {x})) = int (card S) - 1" using assms(3,4) \<open>0 < card S\<close> by (simp add: of_nat_diff)
  ultimately show ?thesis using assms(2) by (auto simp: DebugCounter_Decrement_def INT32_MAX_def)
qed

section \<open>Timers\<close>

lemma sorted_tless_cong:
  "(\<And>t. t \<in> set xs \<Longrightarrow> f t = g t) \<Longrightarrow> sorted_wrt (tless f) xs = sorted_wrt (tless g) xs"
  by (induction xs) (auto simp: tless_def)

lemma sorted_wrt_remove1: "sorted_wrt P xs \<Longrightarrow> sorted_wrt P (remove1 x xs)"
  by (induction xs) (auto dest: notin_set_remove1 [THEN contrapos_pp])

lemma timers_insert_ok:
  assumes "sorted_wrt (tless at) xs" "t \<notin> set xs"
  shows "\<exists>ys. timers_insert at t xs = Some ys \<and> sorted_wrt (tless at) ys \<and> set ys = insert t (set xs) \<and> distinct ys = distinct xs"
  using assms
proof (induction xs)
  case (Cons u us)
  then have ne: "t \<noteq> u" and s: "sorted_wrt (tless at) us" by auto
  show ?case
  proof (cases "tless at t u")
    case True
    then have "\<forall>v\<in>set us. tless at t v" using Cons.prems(1) tless_trans by auto
    with True ne Cons.prems show ?thesis by (auto simp: compare_timers_less)
  next
    case False
    from Cons.IH [OF s] Cons.prems(2) obtain ys where ys: "timers_insert at t us = Some ys" "sorted_wrt (tless at) ys"
      "set ys = insert t (set us)" "distinct ys = distinct us" by auto
    have "tless at u t" using tless_linear [OF ne False] .
    with ys False ne Cons.prems show ?thesis by (auto simp: compare_timers_less)
  qed
qed simp

lemma sorted_tless_upd:
  assumes "\<And>u. u \<in> set xs \<Longrightarrow> u \<noteq> t \<or> (\<exists>x. tm t = Some x \<and> tm_absTime y = tm_absTime x)"
  shows "sorted_wrt (tless (\<lambda>u. tm_absTime (the ((tm(t \<mapsto> y)) u)))) xs = sorted_wrt (tless (\<lambda>u. tm_absTime (the (tm u)))) xs"
  by (rule sorted_tless_cong) (use assms in force)

lemma timers_inv_deactivate:
  assumes inv: "timers_inv tm tree ex" and t: "tm t = Some x"
  shows "timers_inv (tm(t \<mapsto> x\<lparr>tm_state := TIMER_STATE_INACTIVE\<rparr>)) (remove1 t tree) (remove1 t ex)"
proof -
  have d: "distinct tree" "distinct ex" "set tree \<inter> set ex = {}" using inv by (auto simp: timers_inv_def)
  have s: "sorted_wrt (tless (\<lambda>u. tm_absTime (the ((tm(t \<mapsto> x\<lparr>tm_state := TIMER_STATE_INACTIVE\<rparr>)) u)))) xs =
    sorted_wrt (tless (\<lambda>u. tm_absTime (the (tm u)))) xs" for xs
    by (rule sorted_tless_upd) (use t in auto)
  show ?thesis unfolding timers_inv_def s using inv d t
    by (auto simp: timers_inv_def set_remove1_eq sorted_wrt_remove1)
qed

lemma timers_inv_activate:
  assumes inv: "timers_inv tm tree ex" and t: "tm t = Some x" "tm_state x = TIMER_STATE_INACTIVE" and time: "is_int64 time"
  defines "tm' \<equiv> tm(t \<mapsto> x\<lparr>tm_absTime := time, tm_state := TIMER_STATE_RUNNING\<rparr>)"
  shows "\<exists>tree'. timers_insert (\<lambda>u. tm_absTime (the (tm' u))) t tree = Some tree' \<and> timers_inv tm' tree' ex"
proof -
  have n: "t \<notin> set tree" "t \<notin> set ex" using inv t by (auto simp: timers_inv_def)
  have s: "sorted_wrt (tless (\<lambda>u. tm_absTime (the (tm' u)))) tree" "sorted_wrt (tless (\<lambda>u. tm_absTime (the (tm' u)))) ex"
    unfolding tm'_def using n inv sorted_tless_upd [of tree t tm] sorted_tless_upd [of ex t tm] unfolding timers_inv_def by (metis, metis)
  from timers_insert_ok [OF s(1) n(1)] obtain ys where ys: "timers_insert (\<lambda>u. tm_absTime (the (tm' u))) t tree = Some ys"
    "sorted_wrt (tless (\<lambda>u. tm_absTime (the (tm' u)))) ys" "set ys = insert t (set tree)" "distinct ys = distinct tree" by blast
  have "timers_inv tm' ys ex"
    unfolding timers_inv_def using inv s(2) ys(2-4) n t time by (auto simp: timers_inv_def tm'_def)
  with ys(1) show ?thesis by blast
qed

lemma timers_inv_expire:
  assumes inv: "timers_inv tm (t # ts) ex" and before: "\<forall>u\<in>set ex. tless (\<lambda>u. tm_absTime (the (tm u))) u t"
  shows "\<exists>x. tm t = Some x \<and> tm_state x = TIMER_STATE_RUNNING \<and> timers_inv (tm(t \<mapsto> x\<lparr>tm_state := TIMER_STATE_EXPIRED\<rparr>)) ts (ex @ [t])"
proof -
  obtain x where x: "tm t = Some x" "tm_state x = TIMER_STATE_RUNNING" using inv unfolding timers_inv_def by (metis list.set_intros(1))
  have s: "sorted_wrt (tless (\<lambda>u. tm_absTime (the ((tm(t \<mapsto> x\<lparr>tm_state := TIMER_STATE_EXPIRED\<rparr>)) u)))) xs =
    sorted_wrt (tless (\<lambda>u. tm_absTime (the (tm u)))) xs" for xs
    by (rule sorted_tless_upd) (use x in auto)
  have "timers_inv (tm(t \<mapsto> x\<lparr>tm_state := TIMER_STATE_EXPIRED\<rparr>)) ts (ex @ [t])"
    unfolding timers_inv_def s using inv before x by (auto simp: timers_inv_def sorted_wrt_append)
  with x show ?thesis by blast
qed

lemma timers_inv_fresh:
  assumes inv: "timers_inv tm tree ex" and t: "t \<notin> set tree" "t \<notin> set ex" and x: "tm_state x = TIMER_STATE_INACTIVE"
    "is_int64 (tm_absTime x)" "is_int64 (tm_msTime x)"
  shows "timers_inv (tm(t \<mapsto> x)) tree ex"
proof -
  have s: "sorted_wrt (tless (\<lambda>u. tm_absTime (the ((tm(t \<mapsto> x)) u)))) xs = sorted_wrt (tless (\<lambda>u. tm_absTime (the (tm u)))) xs" if "t \<notin> set xs" for xs
    by (rule sorted_tless_upd) (use that in auto)
  show ?thesis unfolding timers_inv_def s [OF t(1)] s [OF t(2)] using inv t x by (auto simp: timers_inv_def)
qed

section \<open>Operations on timers\<close>

lemma rx_invD:
  assumes "rx_inv clock r"
  shows "\<exists>js. pending_models (rx_pending_jobs r) js" "timers_inv (rx_timer r) (rx_timers_tree r) (rx_timers_expired_list r)"
    "fds_inv (rx_fd r) (rx_epoll_results r) (rx_epoll_results_pos r) (rx_d_fds_counter r)"
    "limits_inv (rx_limit r) (rx_active_limits_list r) (rx_d_limits_ctr r)" "0 \<le> clock" "clock \<le> INT64_MAX"
    "\<And>t. t \<in> set (rx_timers_expired_list r) \<Longrightarrow> abs_time r t \<le> clock"
  using assms unfolding rx_inv_def by blast+

lemma rx_inv_later: "rx_inv clock r \<Longrightarrow> clock \<le> clock' \<Longrightarrow> clock' \<le> INT64_MAX \<Longrightarrow> rx_inv clock' r"
  unfolding rx_inv_def by (meson order_trans)

text \<open>What operations on timers leave alone.\<close>

definition rx_untimed :: "'h BReactor \<Rightarrow> 'h BReactor" where
  "rx_untimed r = r\<lparr>rx_timer := Map.empty, rx_timers_tree := [], rx_timers_expired_list := []\<rparr>"

lemma rx_untimed_eqs:
  assumes "rx_untimed r' = rx_untimed r"
  shows "rx_pending_jobs r' = rx_pending_jobs r" "rx_fd r' = rx_fd r" "rx_epoll_results r' = rx_epoll_results r"
    "rx_epoll_results_pos r' = rx_epoll_results_pos r" "rx_d_fds_counter r' = rx_d_fds_counter r" "rx_limit r' = rx_limit r"
    "rx_active_limits_list r' = rx_active_limits_list r" "rx_d_limits_ctr r' = rx_d_limits_ctr r" "rx_exiting r' = rx_exiting r"
  using assms by (cases r; cases r'; simp add: rx_untimed_def)+

lemma rx_inv_timers:
  assumes "rx_inv clock r" "rx_untimed r' = rx_untimed r" "timers_inv (rx_timer r') (rx_timers_tree r') (rx_timers_expired_list r')"
    "\<And>t. t \<in> set (rx_timers_expired_list r') \<Longrightarrow> abs_time r' t \<le> clock"
  shows "rx_inv clock r'"
  using rx_invD [OF assms(1)] rx_untimed_eqs [OF assms(2)] assms(3,4) unfolding rx_inv_def by simp

lemma BReactor_RemoveSmallTimer_ok:
  assumes inv: "rx_inv clock r" and t: "rx_timer r t = Some x"
  shows "\<exists>r'. BReactor_RemoveSmallTimer t r = Some r' \<and> rx_inv clock r' \<and> rx_untimed r' = rx_untimed r \<and>
    rx_timer r' = (rx_timer r)(t \<mapsto> x\<lparr>tm_state := TIMER_STATE_INACTIVE\<rparr>) \<and>
    rx_timers_tree r' = remove1 t (rx_timers_tree r) \<and> rx_timers_expired_list r' = remove1 t (rx_timers_expired_list r)"
proof -
  note ti = rx_invD(2) [OF inv]
  let ?r = "r\<lparr>rx_timer := (rx_timer r)(t \<mapsto> x\<lparr>tm_state := TIMER_STATE_INACTIVE\<rparr>),
    rx_timers_tree := remove1 t (rx_timers_tree r), rx_timers_expired_list := remove1 t (rx_timers_expired_list r)\<rparr>"
  have mem: "t \<in> set (rx_timers_tree r) \<longleftrightarrow> tm_state x = TIMER_STATE_RUNNING" "t \<in> set (rx_timers_expired_list r) \<longleftrightarrow> tm_state x = TIMER_STATE_EXPIRED"
    using ti t by (auto simp: timers_inv_def)
  have "BReactor_RemoveSmallTimer t r = Some ?r"
    using t mem by (cases "tm_state x") (simp_all add: BReactor_RemoveSmallTimer_def set_timer_state_def remove1_idem fun_upd_idem)
  moreover have "rx_inv clock ?r"
  proof (rule rx_inv_timers [OF inv])
    show "timers_inv (rx_timer ?r) (rx_timers_tree ?r) (rx_timers_expired_list ?r)" using timers_inv_deactivate [OF ti t] by simp
    show "abs_time ?r u \<le> clock" if "u \<in> set (rx_timers_expired_list ?r)" for u
      using rx_invD(7) [OF inv, of u] that t set_remove1_subset [of t "rx_timers_expired_list r"] by (cases "u = t") auto
  qed (simp add: rx_untimed_def)
  ultimately show ?thesis by (auto simp: rx_untimed_def)
qed

text \<open>The time a timer is set to, cut to the range of times.\<close>

definition due_time :: "timer_mode \<Rightarrow> int \<Rightarrow> int \<Rightarrow> int" where
  "due_time mode now time =
     (case mode of BTIMER_SET_RELATIVE \<Rightarrow> max INT64_MIN (min INT64_MAX (now + time)) | BTIMER_SET_ABSOLUTE \<Rightarrow> time)"

lemma BReactor_SetSmallTimer_ok:
  assumes inv: "rx_inv clock r" and t: "rx_timer r t = Some x" and now: "is_int64 now" "is_int64 time"
  shows "\<exists>r'. BReactor_SetSmallTimer now t mode time r = Some r' \<and> rx_inv clock r' \<and> rx_untimed r' = rx_untimed r \<and>
    rx_timer r' = (rx_timer r)(t \<mapsto> x\<lparr>tm_absTime := due_time mode now time, tm_state := TIMER_STATE_RUNNING\<rparr>) \<and>
    set (rx_timers_tree r') = insert t (set (rx_timers_tree r)) \<and> rx_timers_expired_list r' = remove1 t (rx_timers_expired_list r)"
proof -
  from BReactor_RemoveSmallTimer_ok [OF inv t] obtain r1 where r1: "BReactor_RemoveSmallTimer t r = Some r1" "rx_inv clock r1"
    "rx_untimed r1 = rx_untimed r" "rx_timer r1 = (rx_timer r)(t \<mapsto> x\<lparr>tm_state := TIMER_STATE_INACTIVE\<rparr>)"
    "rx_timers_tree r1 = remove1 t (rx_timers_tree r)" "rx_timers_expired_list r1 = remove1 t (rx_timers_expired_list r)" by blast
  have m: "(case mode of BTIMER_SET_RELATIVE \<Rightarrow> btime_add now time | BTIMER_SET_ABSOLUTE \<Rightarrow> Some time) = Some (due_time mode now time)"
    using btime_add_saturates [OF now] by (cases mode) (simp_all add: due_time_def)
  have a: "is_int64 (due_time mode now time)" using now(2) by (cases mode) (auto simp: due_time_def int64_defs)
  let ?x = "x\<lparr>tm_state := TIMER_STATE_INACTIVE\<rparr>"
  have t1: "rx_timer r1 t = Some ?x" using r1(4) by simp
  from timers_inv_activate [OF rx_invD(2) [OF r1(2)] t1 _ a] obtain tree where
    tree: "timers_insert (\<lambda>u. tm_absTime (the (((rx_timer r1)(t \<mapsto> ?x\<lparr>tm_absTime := due_time mode now time, tm_state := TIMER_STATE_RUNNING\<rparr>)) u))) t (rx_timers_tree r1) = Some tree"
      "timers_inv ((rx_timer r1)(t \<mapsto> ?x\<lparr>tm_absTime := due_time mode now time, tm_state := TIMER_STATE_RUNNING\<rparr>)) tree (rx_timers_expired_list r1)" by auto
  let ?r = "r1\<lparr>rx_timer := (rx_timer r1)(t \<mapsto> ?x\<lparr>tm_absTime := due_time mode now time, tm_state := TIMER_STATE_RUNNING\<rparr>), rx_timers_tree := tree\<rparr>"
  have n: "t \<notin> set (rx_timers_expired_list r1)" "t \<notin> set (rx_timers_tree r1)" using rx_invD(2) [OF r1(2)] t1 by (auto simp: timers_inv_def)
  have eq: "BReactor_SetSmallTimer now t mode time r = Some ?r"
    unfolding BReactor_SetSmallTimer_def using r1(1) m t1 tree(1) by (simp cong: if_cong)
  have "rx_inv clock ?r"
  proof (rule rx_inv_timers [OF r1(2)])
    show "timers_inv (rx_timer ?r) (rx_timers_tree ?r) (rx_timers_expired_list ?r)" using tree(2) by simp
    show "abs_time ?r u \<le> clock" if "u \<in> set (rx_timers_expired_list ?r)" for u
      using rx_invD(7) [OF r1(2), of u] that n by (cases "u = t") auto
  qed (simp add: rx_untimed_def)
  moreover have "set tree = insert t (set (rx_timers_tree r))"
  proof -
    have "\<forall>u. u \<in> set tree \<longleftrightarrow> u = t \<or> u \<in> set (rx_timers_tree r1)"
      using tree(2) rx_invD(2) [OF r1(2)] unfolding timers_inv_def by (auto split: if_splits)
    moreover have "distinct (rx_timers_tree r)" using rx_invD(2) [OF inv] by (simp add: timers_inv_def)
    ultimately show ?thesis using r1(5) by auto
  qed
  ultimately show ?thesis using eq r1(3,4,6) by (auto simp: rx_untimed_def)
qed

section \<open>Expiry\<close>

definition times_kept :: "'h BReactor \<Rightarrow> 'h BReactor \<Rightarrow> bool" where
  "times_kept r' r \<longleftrightarrow> rx_untimed r' = rx_untimed r \<and> abs_time r' = abs_time r"

lemma times_kept_trans: "times_kept c b \<Longrightarrow> times_kept b a \<Longrightarrow> times_kept c a"
  by (simp add: times_kept_def)

text \<open>Timers that expired before those still running.\<close>

definition expired_first :: "'h BReactor \<Rightarrow> bool" where
  "expired_first r \<longleftrightarrow> timers_inv (rx_timer r) (rx_timers_tree r) (rx_timers_expired_list r) \<and>
     (\<forall>u\<in>set (rx_timers_expired_list r). \<forall>v\<in>set (rx_timers_tree r). tless (abs_time r) u v)"

lemma expire_first_ok:
  assumes inv: "expired_first r" and tree: "rx_timers_tree r = t # ts"
  shows "\<exists>x r'. rx_timer r t = Some x \<and> tm_state x = TIMER_STATE_RUNNING \<and> expire_first r = Some r' \<and> expired_first r' \<and> times_kept r' r \<and>
    rx_timers_tree r' = ts \<and> rx_timers_expired_list r' = rx_timers_expired_list r @ [t]"
proof -
  have ti: "timers_inv (rx_timer r) (t # ts) (rx_timers_expired_list r)" using inv tree by (simp add: expired_first_def)
  from timers_inv_expire [OF ti] inv tree obtain x where x: "rx_timer r t = Some x" "tm_state x = TIMER_STATE_RUNNING"
    "timers_inv ((rx_timer r)(t \<mapsto> x\<lparr>tm_state := TIMER_STATE_EXPIRED\<rparr>)) ts (rx_timers_expired_list r @ [t])" by (auto simp: expired_first_def)
  let ?r = "r\<lparr>rx_timers_tree := ts, rx_timers_expired_list := rx_timers_expired_list r @ [t],
    rx_timer := (rx_timer r)(t \<mapsto> x\<lparr>tm_state := TIMER_STATE_EXPIRED\<rparr>)\<rparr>"
  have e: "expire_first r = Some ?r" using x(1) by (simp add: expire_first_def set_timer_state_def tree)
  have k: "abs_time ?r = abs_time r" using x(1) by (auto simp: fun_eq_iff)
  then have kept: "times_kept ?r r" by (simp add: times_kept_def rx_untimed_def)
  have "\<forall>v\<in>set ts. tless (abs_time r) t v" using ti by (simp add: timers_inv_def)
  then have "expired_first ?r" unfolding expired_first_def k using x(3) inv tree by (auto simp: expired_first_def)
  then show ?thesis using e x(1,2) kept by auto
qed

lemma move_expired_timers_ok:
  assumes "expired_first r"
  shows "\<exists>r'. move_expired_timers now moved r = Some (moved \<or> takeWhile (\<lambda>t. abs_time r t \<le> now) (rx_timers_tree r) \<noteq> [], r') \<and>
    expired_first r' \<and> times_kept r' r \<and> rx_timers_tree r' = dropWhile (\<lambda>t. abs_time r t \<le> now) (rx_timers_tree r) \<and>
    rx_timers_expired_list r' = rx_timers_expired_list r @ takeWhile (\<lambda>t. abs_time r t \<le> now) (rx_timers_tree r)"
  using assms
proof (induction "rx_timers_tree r" arbitrary: r moved)
  case Nil
  then show ?case by (subst move_expired_timers.simps) (simp add: times_kept_def)
next
  case (Cons t ts)
  from expire_first_ok [OF Cons.prems Cons.hyps(2) [symmetric]] obtain x r1 where
    r1: "rx_timer r t = Some x" "tm_state x = TIMER_STATE_RUNNING" "expire_first r = Some r1" "expired_first r1" "times_kept r1 r"
      "rx_timers_tree r1 = ts" "rx_timers_expired_list r1 = rx_timers_expired_list r @ [t]" by blast
  show ?case
  proof (cases "tm_absTime x > now")
    case True
    then show ?thesis using r1(1,2) Cons.prems Cons.hyps(2) [symmetric] by (subst move_expired_timers.simps) (simp add: times_kept_def)
  next
    case False
    have k: "\<And>u. abs_time r1 u = abs_time r u" using r1(5) by (simp add: times_kept_def fun_eq_iff)
    from Cons.hyps(1) [OF r1(6) [symmetric] r1(4), of True] obtain r2 where
      r2: "move_expired_timers now True r1 = Some (True, r2)" "expired_first r2" "times_kept r2 r1"
        "rx_timers_tree r2 = dropWhile (\<lambda>t. abs_time r t \<le> now) ts"
        "rx_timers_expired_list r2 = rx_timers_expired_list r @ t # takeWhile (\<lambda>t. abs_time r t \<le> now) ts"
      unfolding k r1(6,7) by auto
    have "move_expired_timers now moved r = Some (True, r2)"
      using r1(1,2,3) r2(1) False Cons.hyps(2) [symmetric] by (subst move_expired_timers.simps) simp
    then show ?thesis using r2(2,4,5) times_kept_trans [OF r2(3) r1(5)] r1(1) False Cons.hyps(2) [symmetric] by simp
  qed
qed

lemma move_equal_timers_ok:
  assumes "expired_first r" "\<forall>t\<in>set (rx_timers_tree r). first_time \<le> abs_time r t"
  shows "\<exists>r'. move_equal_timers first_time r = Some r' \<and> expired_first r' \<and> times_kept r' r \<and>
    rx_timers_tree r' = dropWhile (\<lambda>t. abs_time r t \<le> first_time) (rx_timers_tree r) \<and>
    rx_timers_expired_list r' = rx_timers_expired_list r @ takeWhile (\<lambda>t. abs_time r t \<le> first_time) (rx_timers_tree r)"
  using assms
proof (induction "rx_timers_tree r" arbitrary: r)
  case Nil
  then show ?case by (subst move_equal_timers.simps) (simp add: times_kept_def)
next
  case (Cons t ts)
  from expire_first_ok [OF Cons.prems(1) Cons.hyps(2) [symmetric]] obtain x r1 where
    r1: "rx_timer r t = Some x" "tm_state x = TIMER_STATE_RUNNING" "expire_first r = Some r1" "expired_first r1" "times_kept r1 r"
      "rx_timers_tree r1 = ts" "rx_timers_expired_list r1 = rx_timers_expired_list r @ [t]" by blast
  have ge: "first_time \<le> tm_absTime x" using Cons.prems(2) Cons.hyps(2) [symmetric] r1(1) by simp
  show ?case
  proof (cases "tm_absTime x > first_time")
    case True
    then show ?thesis using r1(1,2) Cons.prems(1) Cons.hyps(2) [symmetric] by (subst move_equal_timers.simps) (simp add: times_kept_def)
  next
    case False
    have k: "\<And>u. abs_time r1 u = abs_time r u" using r1(5) by (simp add: times_kept_def fun_eq_iff)
    have "\<forall>t\<in>set (rx_timers_tree r1). first_time \<le> abs_time r1 t" unfolding k r1(6) using Cons.prems(2) Cons.hyps(2) [symmetric] by simp
    from Cons.hyps(1) [OF r1(6) [symmetric] r1(4) this] obtain r2 where
      r2: "move_equal_timers first_time r1 = Some r2" "expired_first r2" "times_kept r2 r1"
        "rx_timers_tree r2 = dropWhile (\<lambda>t. abs_time r t \<le> first_time) ts"
        "rx_timers_expired_list r2 = rx_timers_expired_list r @ t # takeWhile (\<lambda>t. abs_time r t \<le> first_time) ts"
      unfolding k r1(6,7) by auto
    have "move_equal_timers first_time r = Some r2"
      using r1(1,2,3) r2(1) False ge Cons.hyps(2) [symmetric] by (subst move_equal_timers.simps) simp
    then show ?thesis using r2(2,4,5) times_kept_trans [OF r2(3) r1(5)] r1(1) False Cons.hyps(2) [symmetric] by simp
  qed
qed

lemma move_first_timers_ok:
  assumes inv: "expired_first r" and tree: "rx_timers_tree r = t # ts"
  shows "\<exists>r'. move_first_timers r = Some r' \<and> expired_first r' \<and> times_kept r' r \<and>
    rx_timers_tree r' = dropWhile (\<lambda>u. abs_time r u \<le> abs_time r t) (rx_timers_tree r) \<and>
    rx_timers_expired_list r' = rx_timers_expired_list r @ takeWhile (\<lambda>u. abs_time r u \<le> abs_time r t) (rx_timers_tree r)"
proof -
  from expire_first_ok [OF inv tree] obtain x r1 where
    r1: "rx_timer r t = Some x" "tm_state x = TIMER_STATE_RUNNING" "expire_first r = Some r1" "expired_first r1" "times_kept r1 r"
      "rx_timers_tree r1 = ts" "rx_timers_expired_list r1 = rx_timers_expired_list r @ [t]" by blast
  have k: "\<And>u. abs_time r1 u = abs_time r u" using r1(5) by (simp add: times_kept_def fun_eq_iff)
  have "\<forall>u\<in>set (rx_timers_tree r1). tm_absTime x \<le> abs_time r1 u" unfolding k r1(6)
    using inv tree r1(1) by (auto simp: expired_first_def timers_inv_def tless_def)
  from move_equal_timers_ok [OF r1(4) this] obtain r2 where
    r2: "move_equal_timers (tm_absTime x) r1 = Some r2" "expired_first r2" "times_kept r2 r1"
      "rx_timers_tree r2 = dropWhile (\<lambda>u. abs_time r u \<le> tm_absTime x) ts"
      "rx_timers_expired_list r2 = rx_timers_expired_list r @ t # takeWhile (\<lambda>u. abs_time r u \<le> tm_absTime x) ts"
    unfolding k r1(6,7) by auto
  have "move_first_timers r = Some r2" using r1(1,2,3) r2(1) by (simp add: move_first_timers_def tree)
  then show ?thesis using r2(2,4,5) times_kept_trans [OF r2(3) r1(5)] r1(1) by (simp add: tree)
qed

section \<open>File descriptors\<close>

abbreviation active_fds :: "(ptr \<rightharpoonup> 'h BFileDescriptor) \<Rightarrow> ptr set" where
  "active_fds fds \<equiv> {b. \<exists>f. fds b = Some f \<and> fd_active f}"

lemma active_fds_upd: "active_fds (fds(b \<mapsto> f)) = (if fd_active f then insert b (active_fds fds) else active_fds fds - {b})"
  by auto

lemma fds_invD:
  assumes "fds_inv fds res pos ctr"
  shows "pos \<le> length res"
    "\<And>i b. pos \<le> i \<Longrightarrow> i < length res \<Longrightarrow> fst (res ! i) = Some b \<Longrightarrow> \<exists>f. fds b = Some f \<and> fd_active f \<and> fd_epoll_returned_ptr f = Some i"
    "\<And>b f i. fds b = Some f \<Longrightarrow> fd_active f \<Longrightarrow> fd_epoll_returned_ptr f = Some i \<Longrightarrow> pos \<le> i \<and> i < length res \<and> fst (res ! i) = Some b"
    "finite (active_fds fds)" "0 \<le> ctr" "ctr = int (card (active_fds fds)) \<or> ctr = INT32_MAX"
  using assms unfolding fds_inv_def by blast+

lemma fds_invI:
  assumes "pos \<le> length res"
    "\<And>i b. pos \<le> i \<Longrightarrow> i < length res \<Longrightarrow> fst (res ! i) = Some b \<Longrightarrow> \<exists>f. fds b = Some f \<and> fd_active f \<and> fd_epoll_returned_ptr f = Some i"
    "\<And>b f i. fds b = Some f \<Longrightarrow> fd_active f \<Longrightarrow> fd_epoll_returned_ptr f = Some i \<Longrightarrow> pos \<le> i \<and> i < length res \<and> fst (res ! i) = Some b"
    "finite (active_fds fds)" "0 \<le> ctr" "ctr = int (card (active_fds fds)) \<or> ctr = INT32_MAX"
  shows "fds_inv fds res pos ctr"
  using assms unfolding fds_inv_def by blast

lemma fds_inv_done:
  assumes "fds_inv fds res (length res) ctr"
  shows "fds_inv fds [] 0 ctr"
proof -
  note d = fds_invD [OF assms]
  have "False" if "fds b = Some f" "fd_active f" "fd_epoll_returned_ptr f = Some i" for b f i using d(3) [OF that] by linarith
  then show ?thesis using d(4-6) by (intro fds_invI) auto
qed

lemma fds_inv_add:
  assumes inv: "fds_inv fds res pos ctr" and b: "b \<notin> active_fds fds" and f: "fd_active f" "fd_epoll_returned_ptr f = None"
  shows "\<exists>ctr'. DebugCounter_Increment ctr = Some ctr' \<and> fds_inv (fds(b \<mapsto> f)) res pos ctr'"
proof -
  note d = fds_invD [OF inv]
  from counter_up [OF d(5,6,4) b] obtain ctr' where c: "DebugCounter_Increment ctr = Some ctr'" "0 \<le> ctr'"
    "ctr' = int (card (insert b (active_fds fds))) \<or> ctr' = INT32_MAX" by blast
  have "fds_inv (fds(b \<mapsto> f)) res pos ctr'"
  proof (rule fds_invI)
    fix i a
    assume "pos \<le> i" "i < length res" "fst (res ! i) = Some a"
    then show "\<exists>g. (fds(b \<mapsto> f)) a = Some g \<and> fd_active g \<and> fd_epoll_returned_ptr g = Some i" using d(2) [of i a] b by auto
  next
    fix a g i
    assume "(fds(b \<mapsto> f)) a = Some g" "fd_active g" "fd_epoll_returned_ptr g = Some i"
    then show "pos \<le> i \<and> i < length res \<and> fst (res ! i) = Some a" using d(3) [of a g i] f by (auto split: if_splits)
  qed (use d c f active_fds_upd [of fds b f] in auto)
  with c(1) show ?thesis by blast
qed

lemma fds_inv_remove:
  assumes inv: "fds_inv fds res pos ctr" and f: "fds b = Some f" "fd_active f" and g: "\<not> fd_active g"
  defines "res' \<equiv> (case fd_epoll_returned_ptr f of None \<Rightarrow> res | Some i \<Rightarrow> res[i := (None, snd (res ! i))])"
  shows "\<exists>ctr'. DebugCounter_Decrement ctr = Some ctr' \<and> fds_inv (fds(b \<mapsto> g)) res' pos ctr' \<and> (\<forall>i. fd_epoll_returned_ptr f = Some i \<longrightarrow> i < length res)"
proof -
  note d = fds_invD [OF inv]
  have b: "b \<in> active_fds fds" using f by simp
  from counter_down [OF d(5,6,4) b] obtain ctr' where c: "DebugCounter_Decrement ctr = Some ctr'" "0 \<le> ctr'"
    "ctr' = int (card (active_fds fds - {b})) \<or> ctr' = INT32_MAX" by blast
  have len: "length res' = length res" by (simp add: res'_def split: option.splits)
  have nb: "fst (res' ! i) \<noteq> Some b" if "pos \<le> i" "i < length res" for i
    using d(2) [of i b] d(3) [OF f] f that by (auto simp: res'_def nth_list_update split: option.splits if_splits)
  have keep: "fst (res' ! i) = Some a \<longleftrightarrow> fst (res ! i) = Some a" if "pos \<le> i" "i < length res" "a \<noteq> b" for i a
    using d(3) [OF f] that by (auto simp: res'_def nth_list_update split: option.splits)
  have "fds_inv (fds(b \<mapsto> g)) res' pos ctr'"
  proof (rule fds_invI)
    fix i a
    assume i: "pos \<le> i" "i < length res'" "fst (res' ! i) = Some a"
    then have "a \<noteq> b" using nb len by auto
    then show "\<exists>h. (fds(b \<mapsto> g)) a = Some h \<and> fd_active h \<and> fd_epoll_returned_ptr h = Some i" using d(2) [of i a] keep i len by auto
  next
    fix a h i
    assume h: "(fds(b \<mapsto> g)) a = Some h" "fd_active h" "fd_epoll_returned_ptr h = Some i"
    then have "a \<noteq> b" using g by auto
    then show "pos \<le> i \<and> i < length res' \<and> fst (res' ! i) = Some a" using d(3) [of a h i] keep h len by auto
  qed (use d c g len active_fds_upd [of fds b g] in auto)
  moreover have "\<forall>i. fd_epoll_returned_ptr f = Some i \<longrightarrow> i < length res" using d(3) [OF f] by blast
  ultimately show ?thesis using c(1) by blast
qed

lemma fds_inv_same:
  assumes inv: "fds_inv fds res pos ctr" and f: "fds b = Some f" "fd_active g = fd_active f" "fd_epoll_returned_ptr g = fd_epoll_returned_ptr f"
  shows "fds_inv (fds(b \<mapsto> g)) res pos ctr"
proof (rule fds_invI)
  note d = fds_invD [OF inv]
  have a: "active_fds (fds(b \<mapsto> g)) = active_fds fds" using f by auto
  show "finite (active_fds (fds(b \<mapsto> g)))" "ctr = int (card (active_fds (fds(b \<mapsto> g)))) \<or> ctr = INT32_MAX" unfolding a using d by blast+
  show "pos \<le> length res" "0 \<le> ctr" by (rule d)+
  show "\<exists>h. (fds(b \<mapsto> g)) a = Some h \<and> fd_active h \<and> fd_epoll_returned_ptr h = Some i"
    if "pos \<le> i" "i < length res" "fst (res ! i) = Some a" for i a using d(2) [OF that] f by auto
  show "pos \<le> i \<and> i < length res \<and> fst (res ! i) = Some a"
    if "(fds(b \<mapsto> g)) a = Some h" "fd_active h" "fd_epoll_returned_ptr h = Some i" for a h i using d(3) [of a] f that by (cases "a = b") auto
qed

lemma fds_inv_inactive:
  assumes inv: "fds_inv fds res pos ctr" and b: "b \<notin> active_fds fds" "\<not> fd_active g"
  shows "fds_inv (fds(b \<mapsto> g)) res pos ctr"
proof (rule fds_invI)
  note d = fds_invD [OF inv]
  have a: "active_fds (fds(b \<mapsto> g)) = active_fds fds" using b by auto
  show "finite (active_fds (fds(b \<mapsto> g)))" "ctr = int (card (active_fds (fds(b \<mapsto> g)))) \<or> ctr = INT32_MAX" unfolding a using d by blast+
  show "pos \<le> length res" "0 \<le> ctr" by (rule d)+
  show "\<exists>h. (fds(b \<mapsto> g)) a = Some h \<and> fd_active h \<and> fd_epoll_returned_ptr h = Some i"
    if "pos \<le> i" "i < length res" "fst (res ! i) = Some a" for i a using d(2) [OF that] b by auto
  show "pos \<le> i \<and> i < length res \<and> fst (res ! i) = Some a"
    if "(fds(b \<mapsto> g)) a = Some h" "fd_active h" "fd_epoll_returned_ptr h = Some i" for a h i using d(3) [of a] b that by (cases "a = b") auto
qed

text \<open>The kernel returns registered descriptors, each once.\<close>

lemma set_epoll_fd_pointers_ok:
  assumes "distinct (map fst res)" "\<forall>b\<in>fst ` set res. \<exists>f. fds b = Some f \<and> fd_active f \<and> fd_epoll_returned_ptr f = None"
  shows "\<exists>fds'. set_epoll_fd_pointers k (map (\<lambda>(b, ev). (Some b, ev)) res) fds = Some fds' \<and>
    (\<forall>b. b \<notin> fst ` set res \<longrightarrow> fds' b = fds b) \<and>
    (\<forall>i<length res. \<exists>f. fds (fst (res ! i)) = Some f \<and> fds' (fst (res ! i)) = Some (f\<lparr>fd_epoll_returned_ptr := Some (k + i)\<rparr>))"
  using assms
proof (induction res arbitrary: k fds)
  case (Cons a res)
  obtain b ev where a: "a = (b, ev)" by (cases a)
  from Cons.prems(2) a obtain f where f: "fds b = Some f" "fd_active f" "fd_epoll_returned_ptr f = None" by auto
  let ?fds = "fds(b \<mapsto> f\<lparr>fd_epoll_returned_ptr := Some k\<rparr>)"
  have nb: "b \<notin> fst ` set res" using Cons.prems(1) a by auto
  have "\<forall>c\<in>fst ` set res. \<exists>f. ?fds c = Some f \<and> fd_active f \<and> fd_epoll_returned_ptr f = None" using Cons.prems(2) nb by auto
  note here = this
  have dist: "distinct (map fst res)" using Cons.prems(1) by simp
  from Cons.IH [OF dist here, of "k + 1"] obtain fds' where
    fds': "set_epoll_fd_pointers (k + 1) (map (\<lambda>(b, ev). (Some b, ev)) res) ?fds = Some fds'" "\<And>c. c \<notin> fst ` set res \<Longrightarrow> fds' c = ?fds c"
    "\<And>i. i < length res \<Longrightarrow> \<exists>g. ?fds (fst (res ! i)) = Some g \<and> fds' (fst (res ! i)) = Some (g\<lparr>fd_epoll_returned_ptr := Some (k + 1 + i)\<rparr>)" by blast
  have "\<exists>g. fds (fst ((a # res) ! i)) = Some g \<and> fds' (fst ((a # res) ! i)) = Some (g\<lparr>fd_epoll_returned_ptr := Some (k + i)\<rparr>)"
    if i: "i < length (a # res)" for i
  proof (cases i)
    case 0
    then show ?thesis using f(1) fds'(2) [OF nb] a by simp
  next
    case (Suc j)
    then have j: "j < length res" using i by simp
    then have "fst (res ! j) \<noteq> b" using nb by (metis image_eqI nth_mem)
    then show ?thesis using fds'(3) [OF j] Suc by simp
  qed
  moreover have "fds' c = fds c" if "c \<notin> fst ` set (a # res)" for c using fds'(2) [of c] that a by auto
  ultimately show ?case using fds'(1) f a by auto
qed simp

section \<open>Limits\<close>

lemma reset_limits_ok:
  assumes "distinct act" "\<forall>l\<in>set act. \<exists>m. lims l = Some m \<and> lm_count m > 0"
  shows "reset_limits act lims = Some (\<lambda>l. if l \<in> set act then map_option (\<lambda>m. m\<lparr>lm_count := 0\<rparr>) (lims l) else lims l)"
  using assms
proof (induction act arbitrary: lims)
  case (Cons l ls)
  from Cons.prems(2) obtain m where m: "lims l = Some m" "lm_count m > 0" by auto
  have "distinct ls" "\<forall>k\<in>set ls. \<exists>x. (lims(l \<mapsto> m\<lparr>lm_count := 0\<rparr>)) k = Some x \<and> lm_count x > 0" using Cons.prems by auto
  note ih = Cons.IH [OF this]
  have eq: "(\<lambda>k. if k \<in> set ls then map_option (\<lambda>m. m\<lparr>lm_count := 0\<rparr>) ((lims(l \<mapsto> m\<lparr>lm_count := 0\<rparr>)) k) else (lims(l \<mapsto> m\<lparr>lm_count := 0\<rparr>)) k) =
    (\<lambda>k. if k \<in> set (l # ls) then map_option (\<lambda>m. m\<lparr>lm_count := 0\<rparr>) (lims k) else lims k)"
    using Cons.prems(1) m by (intro ext) auto
  have "reset_limits (l # ls) lims = reset_limits ls (lims(l \<mapsto> m\<lparr>lm_count := 0\<rparr>))" using m by simp
  then show ?case unfolding ih eq .
qed simp

lemma limits_inv_reset:
  assumes "limits_inv lims act ctr"
  shows "\<exists>lims'. reset_limits act lims = Some lims' \<and> limits_inv lims' [] ctr \<and> dom lims' = dom lims"
proof -
  let ?l = "\<lambda>l. if l \<in> set act then map_option (\<lambda>m. m\<lparr>lm_count := 0\<rparr>) (lims l) else lims l"
  have "reset_limits act lims = Some ?l" using assms by (intro reset_limits_ok) (auto simp: limits_inv_def)
  moreover have d: "dom ?l = dom lims" by (auto simp: dom_def)
  moreover have "limits_inv ?l [] ctr"
    unfolding limits_inv_def d using assms by (auto simp: limits_inv_def split: if_splits)
  ultimately show ?thesis by blast
qed

lemma limits_inv_upd:
  assumes "limits_inv lims act ctr" "lims l = Some m" "lm_count m' \<ge> 0" "lm_limit m' > 0"
  shows "limits_inv (lims(l \<mapsto> m')) (if lm_count m' > 0 then if lm_count m > 0 then act else act @ [l] else remove1 l act) ctr"
proof -
  have "dom (lims(l \<mapsto> m')) = dom lims" using assms(2) by auto
  then show ?thesis using assms unfolding limits_inv_def by (auto simp: insert_absorb)
qed

section \<open>Waiting\<close>

text \<open>
  What \<open>epoll_wait\<close> and the clock may return: the clock does not go back, a timeout does not come
  early, and results are registered descriptors, each at most once.
\<close>

fun outs_ok :: "'h BReactor \<Rightarrow> (int \<times> int) option \<Rightarrow> epoll_outcome list \<Rightarrow> bool" where
  "outs_ok r timeout [] \<longleftrightarrow> True"
| "outs_ok r None (Interrupted n # outs) \<longleftrightarrow> outs_ok r None outs"
| "outs_ok r (Some (a, now)) (Interrupted n # outs) \<longleftrightarrow> now \<le> n \<and> n \<le> INT64_MAX \<and> (n < a \<longrightarrow> outs_ok r (Some (a, n)) outs)"
| "outs_ok r None (TimedOut n # outs) \<longleftrightarrow> False"
| "outs_ok r (Some (a, now)) (TimedOut n # outs) \<longleftrightarrow>
     now + min (a - now) INT32_MAX \<le> n \<and> n \<le> INT64_MAX \<and> (n < a \<longrightarrow> outs_ok r (Some (a, n)) outs)"
| "outs_ok r timeout (Ready res # outs) \<longleftrightarrow>
     res \<noteq> [] \<and> length res \<le> BSYSTEM_MAX_RESULTS \<and> distinct (map fst res) \<and> fst ` set res \<subseteq> active_fds (rx_fd r)"

text \<open>The time at which the wait ends.\<close>

fun outs_clock :: "int \<Rightarrow> (int \<times> int) option \<Rightarrow> epoll_outcome list \<Rightarrow> int" where
  "outs_clock clock None outs = clock"
| "outs_clock clock (Some (a, now)) [] = now"
| "outs_clock clock (Some (a, now)) (Ready res # outs) = now"
| "outs_clock clock (Some (a, now)) (Interrupted n # outs) = (if n < a then outs_clock clock (Some (a, n)) outs else n)"
| "outs_clock clock (Some (a, now)) (TimedOut n # outs) = (if n < a then outs_clock clock (Some (a, n)) outs else n)"

definition rx_rest :: "'h BReactor \<Rightarrow> bool \<times> int \<times> 'h BPendingGroup \<times> ptr list \<times> (ptr \<rightharpoonup> BReactorLimit) \<times> int \<times> int" where
  "rx_rest r = (rx_exiting r, rx_exit_code r, rx_pending_jobs r, rx_active_limits_list r, rx_limit r, rx_d_fds_counter r, rx_d_limits_ctr r)"

lemma rx_rest_untimed: "rx_untimed r' = rx_untimed r \<Longrightarrow> rx_rest r' = rx_rest r"
  by (cases r; cases r') (simp add: rx_untimed_def rx_rest_def)

definition waiting :: "(int \<times> int) option \<Rightarrow> 'h BReactor \<Rightarrow> bool" where
  "waiting timeout r \<longleftrightarrow> expired_first r \<and> rx_timers_expired_list r = [] \<and> rx_epoll_results r = [] \<and> rx_epoll_results_pos r = 0 \<and>
     fds_inv (rx_fd r) [] 0 (rx_d_fds_counter r) \<and>
     (case timeout of None \<Rightarrow> rx_timers_tree r = []
      | Some (a, now) \<Rightarrow> 0 \<le> now \<and> now < a \<and> a \<le> INT64_MAX \<and> (\<exists>t ts. rx_timers_tree r = t # ts \<and> abs_time r t = a))"

definition waited :: "int \<Rightarrow> 'h BReactor \<Rightarrow> 'h BReactor \<Rightarrow> bool" where
  "waited clock r' r \<longleftrightarrow> expired_first r' \<and> fds_inv (rx_fd r') (rx_epoll_results r') (rx_epoll_results_pos r') (rx_d_fds_counter r') \<and>
     rx_rest r' = rx_rest r \<and> abs_time r' = abs_time r \<and> (\<forall>t\<in>set (rx_timers_expired_list r'). abs_time r' t \<le> clock)"

lemma waiting_waited: "waiting timeout r \<Longrightarrow> waited clock r r"
  by (auto simp: waiting_def waited_def)

lemma waiting_fires:
  assumes w: "waiting (Some (a, now)) r" and c: "a \<le> clock"
  shows "\<exists>r'. move_first_timers r = Some r' \<and> waited clock r' r \<and> rx_timers_expired_list r' \<noteq> [] \<and> rx_epoll_results_pos r' = 0"
proof -
  from w obtain t ts where t: "rx_timers_tree r = t # ts" "abs_time r t = a" by (auto simp: waiting_def)
  from w move_first_timers_ok [OF _ t(1)] obtain r' where r': "move_first_timers r = Some r'" "expired_first r'" "times_kept r' r"
    "rx_timers_expired_list r' = takeWhile (\<lambda>u. abs_time r u \<le> a) (t # ts)" unfolding t(2) by (auto simp: waiting_def t(1))
  have u: "rx_untimed r' = rx_untimed r" "\<And>t. abs_time r' t = abs_time r t" using r'(3) by (simp_all add: times_kept_def fun_eq_iff)
  have "\<forall>u\<in>set (rx_timers_expired_list r'). abs_time r' u \<le> clock" unfolding r'(4) u(2) using c by (auto dest: set_takeWhileD)
  then have "waited clock r' r"
    using r'(2,3) w rx_untimed_eqs [OF u(1)] rx_rest_untimed [OF u(1)] by (auto simp: waited_def times_kept_def waiting_def)
  then show ?thesis using r'(1,4) t(2) rx_untimed_eqs(4) [OF u(1)] w by (auto simp: waiting_def)
qed

lemma waiting_ready:
  assumes w: "waiting timeout r" and res: "res \<noteq> []" "distinct (map fst res)" "fst ` set res \<subseteq> active_fds (rx_fd r)"
  shows "\<exists>fds. set_epoll_fd_pointers 0 (map (\<lambda>(b, ev). (Some b, ev)) res) (rx_fd r) = Some fds \<and>
    waited clock (r\<lparr>rx_epoll_results := map (\<lambda>(b, ev). (Some b, ev)) res, rx_fd := fds\<rparr>) r"
proof -
  let ?res = "map (\<lambda>(b, ev). (Some b, ev)) res"
  have f: "fds_inv (rx_fd r) [] 0 (rx_d_fds_counter r)" using w by (simp add: waiting_def)
  note d = fds_invD [OF f]
  have "\<forall>b\<in>fst ` set res. \<exists>f. rx_fd r b = Some f \<and> fd_active f \<and> fd_epoll_returned_ptr f = None"
  proof
    fix b
    assume "b \<in> fst ` set res"
    with res(3) obtain f where f: "rx_fd r b = Some f" "fd_active f" by auto
    with d(3) [of b f] show "\<exists>f. rx_fd r b = Some f \<and> fd_active f \<and> fd_epoll_returned_ptr f = None" by (cases "fd_epoll_returned_ptr f") auto
  qed
  from set_epoll_fd_pointers_ok [OF res(2) this, of 0] obtain fds where fds: "set_epoll_fd_pointers 0 ?res (rx_fd r) = Some fds"
    "\<And>b. b \<notin> fst ` set res \<Longrightarrow> fds b = rx_fd r b"
    "\<And>i. i < length res \<Longrightarrow> \<exists>f. rx_fd r (fst (res ! i)) = Some f \<and> fds (fst (res ! i)) = Some (f\<lparr>fd_epoll_returned_ptr := Some i\<rparr>)" by auto
  have nth: "fst (?res ! i) = Some (fst (res ! i))" if "i < length res" for i using that by (simp add: case_prod_beta)
  have mem: "\<exists>i<length res. b = fst (res ! i)" if "b \<in> fst ` set res" for b using that by (auto simp: in_set_conv_nth) (metis fst_conv)
  have act: "active_fds fds = active_fds (rx_fd r)"
  proof (intro set_eqI)
    fix b
    show "b \<in> active_fds fds \<longleftrightarrow> b \<in> active_fds (rx_fd r)"
    proof (cases "b \<in> fst ` set res")
      case True
      with mem obtain i where "i < length res" "b = fst (res ! i)" by blast
      with fds(3) [of i] show ?thesis by auto
    qed (simp add: fds(2))
  qed
  have "fds_inv fds ?res 0 (rx_d_fds_counter r)"
  proof (rule fds_invI)
    show "finite (active_fds fds)" "rx_d_fds_counter r = int (card (active_fds fds)) \<or> rx_d_fds_counter r = INT32_MAX" unfolding act using d by blast+
    show "\<exists>f. fds b = Some f \<and> fd_active f \<and> fd_epoll_returned_ptr f = Some i" if "i < length ?res" "fst (?res ! i) = Some b" for i b
    proof -
      have i: "i < length res" "b = fst (res ! i)" using that nth [of i] by auto
      then have "b \<in> fst ` set res" by simp
      then have "b \<in> active_fds (rx_fd r)" using res(3) by (rule subsetD [rotated])
      then show ?thesis using fds(3) [OF i(1)] unfolding i(2) [symmetric] by auto
    qed
    show "0 \<le> i \<and> i < length ?res \<and> fst (?res ! i) = Some b" if "fds b = Some f" "fd_active f" "fd_epoll_returned_ptr f = Some i" for b f i
    proof (cases "b \<in> fst ` set res")
      case True
      with mem obtain j where j: "j < length res" "b = fst (res ! j)" by blast
      with fds(3) [of j] that have "i = j" by auto
      with j nth show ?thesis by simp
    next
      case False
      then show ?thesis using d(3) [of b f i] that fds(2) by auto
    qed
  qed (use d in auto)
  then show ?thesis using fds(1) w by (auto simp: waited_def waiting_def expired_first_def rx_rest_def)
qed

lemma outs_clock_later:
  assumes "outs_ok r timeout outs" "case timeout of None \<Rightarrow> True | Some (a, now) \<Rightarrow> clock \<le> now \<and> now \<le> INT64_MAX \<and> now < a" "clock \<le> INT64_MAX"
  shows "clock \<le> outs_clock clock timeout outs \<and> outs_clock clock timeout outs \<le> INT64_MAX"
  using assms
proof (induction clock timeout outs rule: outs_clock.induct)
  case (5 clock a now n outs)
  then show ?case by (cases "n < a") (auto simp: INT32_MAX_def min_def split: if_splits)
qed auto

lemma wait_loop_ok:
  assumes "waiting timeout r" "outs_ok r timeout outs"
  shows "\<exists>ended r'. wait_loop outs timeout r = Some (ended, r') \<and> waited (outs_clock clock timeout outs) r' r \<and>
    (if ended then rx_timers_expired_list r' \<noteq> [] \<or> rx_epoll_results r' \<noteq> [] else r' = r) \<and> rx_epoll_results_pos r' = 0"
  using assms
proof (induction outs arbitrary: timeout)
  case Nil
  then show ?case using waiting_waited [OF Nil.prems(1)] by (auto simp: waiting_def)
next
  case (Cons out outs)
  have pos: "rx_epoll_results_pos r = 0" using Cons.prems(1) by (simp add: waiting_def)
  show ?case
  proof (cases out)
    case (Ready res)
    with Cons.prems(2) have res: "res \<noteq> []" "length res \<le> BSYSTEM_MAX_RESULTS" "distinct (map fst res)" "fst ` set res \<subseteq> active_fds (rx_fd r)"
      by (cases timeout; auto)+
    have rel: "\<exists>rel. (case timeout of None \<Rightarrow> Some 0 | Some (a, now) \<Rightarrow> int64 (a - now)) = Some rel"
      using Cons.prems(1) by (auto simp: waiting_def int64_def int64_defs split: option.splits prod.splits)
    from waiting_ready [OF Cons.prems(1) res(1,3,4)] obtain fds where
      "set_epoll_fd_pointers 0 (map (\<lambda>(b, ev). (Some b, ev)) res) (rx_fd r) = Some fds"
      "waited (outs_clock clock timeout (out # outs)) (r\<lparr>rx_epoll_results := map (\<lambda>(b, ev). (Some b, ev)) res, rx_fd := fds\<rparr>) r" by blast
    with Ready res rel pos show ?thesis by auto
  next
    case again: (Interrupted n)
    show ?thesis
    proof (cases timeout)
      case None
      with Cons.IH [of None] Cons.prems again show ?thesis by (auto simp: Let_def)
    next
      case (Some p)
      then obtain a now where to: "timeout = Some (a, now)" by (cases p) auto
      have i: "int64 (a - now) = Some (a - now)" "now \<le> n" "n \<le> INT64_MAX" "0 \<le> now"
        using Cons.prems again to by (auto simp: waiting_def int64_def int64_defs)
      show ?thesis
      proof (cases "n < a")
        case True
        then have "waiting (Some (a, n)) r" "outs_ok r (Some (a, n)) outs" using Cons.prems again to i by (auto simp: waiting_def)
        from Cons.IH [OF this] True i again to show ?thesis by (auto simp: Let_def)
      next
        case False
        with waiting_fires [of a now r n] Cons.prems(1) to obtain r' where
          r': "move_first_timers r = Some r'" "waited n r' r" "rx_timers_expired_list r' \<noteq> []" "rx_epoll_results_pos r' = 0" by auto
        have "wait_loop (out # outs) timeout r = Some (True, r')" using False i(1) r'(1) by (simp add: again to Let_def)
        moreover have "outs_clock clock timeout (out # outs) = n" using False by (simp add: again to)
        ultimately show ?thesis using r'(2-4) by (intro exI [of _ True] exI [of _ r']) simp
      qed
    qed
  next
    case timed: (TimedOut n)
    then obtain a now where to: "timeout = Some (a, now)" using Cons.prems(2) by (cases timeout) auto
    have i: "int64 (a - now) = Some (a - now)" "now + min (a - now) INT32_MAX \<le> n" "n \<le> INT64_MAX" "0 \<le> now"
      using Cons.prems timed to by (auto simp: waiting_def int64_def int64_defs)
    show ?thesis
    proof (cases "n < a")
      case True
      then have "waiting (Some (a, n)) r" "outs_ok r (Some (a, n)) outs"
        using Cons.prems timed to i by (auto simp: waiting_def INT32_MAX_def min_def split: if_splits)
      moreover have "a - now > INT32_MAX" using True i(2) by (simp add: min_def split: if_splits)
      ultimately show ?thesis using Cons.IH [of "Some (a, n)"] True i timed to by (auto simp: Let_def)
    next
      case False
      with waiting_fires [of a now r n] Cons.prems(1) to obtain r' where
        r': "move_first_timers r = Some r'" "waited n r' r" "rx_timers_expired_list r' \<noteq> []" "rx_epoll_results_pos r' = 0" by auto
      have "wait_loop (out # outs) timeout r = Some (True, r')"
        using False i(1) r'(1) by (cases "a - now > INT32_MAX") (simp_all add: timed to Let_def)
      moreover have "outs_clock clock timeout (out # outs) = n" using False by (simp add: timed to)
      ultimately show ?thesis using r'(2-4) by (intro exI [of _ True] exI [of _ r']) simp
    qed
  qed
qed

section \<open>The event loop\<close>

text \<open>Nothing is left to be dispatched.\<close>

definition rx_idle :: "'h BReactor \<Rightarrow> bool" where
  "rx_idle r \<longleftrightarrow> BPendingGroup_HasJobs (rx_pending_jobs r) = Some False \<and> rx_timers_expired_list r = [] \<and>
     rx_epoll_results_pos r = length (rx_epoll_results r)"

definition rx_timeout :: "int \<Rightarrow> 'h BReactor \<Rightarrow> (int \<times> int) option" where
  "rx_timeout now r = (case rx_timers_tree r of [] \<Rightarrow> None | t # _ \<Rightarrow> Some (abs_time r t, now))"

text \<open>A wait finds timers that have expired already.\<close>

definition rx_overdue :: "int \<Rightarrow> 'h BReactor \<Rightarrow> bool" where
  "rx_overdue now r \<longleftrightarrow> (case rx_timers_tree r of [] \<Rightarrow> False | t # _ \<Rightarrow> abs_time r t \<le> now)"

definition wait_clock :: "int \<Rightarrow> int \<Rightarrow> epoll_outcome list \<Rightarrow> 'h BReactor \<Rightarrow> int" where
  "wait_clock clock now outs r = (if rx_overdue now r then now else outs_clock clock (rx_timeout now r) outs)"

lemma rx_inv_waiting:
  assumes inv: "rx_inv clock r" and idle: "rx_idle r" and now: "clock \<le> now" "now \<le> INT64_MAX" and over: "\<not> rx_overdue now r"
  shows "waiting (rx_timeout now r) (r\<lparr>rx_epoll_results := [], rx_epoll_results_pos := 0\<rparr>)"
proof -
  note d = rx_invD [OF inv]
  have fd: "fds_inv (rx_fd r) [] 0 (rx_d_fds_counter r)"
    using fds_inv_done d(3) idle by (metis rx_idle_def)
  have "is_int64 (abs_time r t)" if "rx_timers_tree r = t # ts" for t ts
    using d(2) that unfolding timers_inv_def by (metis list.set_intros(1) option.sel)
  then show ?thesis using d(2,5) fd idle now over
    by (auto simp: waiting_def expired_first_def rx_idle_def rx_timeout_def rx_overdue_def is_int64_def split: list.splits)
qed

lemma waited_inv:
  assumes inv: "rx_inv clock r" and w: "waited clock' r' r0" and same: "rx_rest r0 = rx_rest r" "abs_time r0 = abs_time r"
    and c: "clock \<le> clock'" "clock' \<le> INT64_MAX"
  shows "rx_inv clock' r'"
proof -
  note d = rx_invD [OF inv]
  have "rx_rest r' = rx_rest r" using w same by (simp add: waited_def)
  then have e: "rx_pending_jobs r' = rx_pending_jobs r" "rx_limit r' = rx_limit r" "rx_active_limits_list r' = rx_active_limits_list r"
    "rx_d_limits_ctr r' = rx_d_limits_ctr r" by (simp_all add: rx_rest_def)
  have "0 \<le> clock'" using d(5) c(1) by simp
  then show ?thesis unfolding rx_inv_def e using d(1,4) w c(2) unfolding waited_def expired_first_def by blast
qed

lemma wait_for_events_ok:
  assumes inv: "rx_inv clock r" and idle: "rx_idle r" and now: "clock \<le> now" "now \<le> INT64_MAX"
    and outs: "\<not> rx_overdue now r \<Longrightarrow> outs_ok r (rx_timeout now r) outs"
  shows "\<exists>ended r'. wait_for_events now outs r = Some (ended, r') \<and> rx_inv (wait_clock clock now outs r) r' \<and>
    rx_exiting r' = rx_exiting r \<and> rx_pending_jobs r' = rx_pending_jobs r \<and>
    (ended \<longrightarrow> rx_timers_expired_list r' \<noteq> [] \<or> rx_epoll_results_pos r' < length (rx_epoll_results r'))"
proof -
  let ?r = "r\<lparr>rx_epoll_results := [], rx_epoll_results_pos := 0\<rparr>"
  note d = rx_invD [OF inv]
  have jobs: "BPendingGroup_HasJobs (rx_pending_jobs r) = Some False" "rx_timers_expired_list r = []"
    "rx_epoll_results_pos r = length (rx_epoll_results r)" using idle by (simp_all add: rx_idle_def)
  have ef: "expired_first ?r" using d(2) jobs(2) by (simp add: expired_first_def)
  have fd: "fds_inv (rx_fd r) [] 0 (rx_d_fds_counter r)"
    using fds_inv_done d(3) jobs(3) by metis
  show ?thesis
  proof (cases "rx_overdue now r")
    case True
    then obtain t ts where t: "rx_timers_tree r = t # ts" "abs_time r t \<le> now" by (auto simp: rx_overdue_def split: list.splits)
    obtain x where x: "rx_timer r t = Some x" "tm_state x = TIMER_STATE_RUNNING"
      using d(2) t(1) unfolding timers_inv_def by (metis list.set_intros(1))
    from move_expired_timers_ok [OF ef, of now False] obtain r' where
      r': "move_expired_timers now False ?r = Some (True, r')" "expired_first r'" "times_kept r' ?r"
        "rx_timers_expired_list r' = takeWhile (\<lambda>t. abs_time r t \<le> now) (t # ts)" using t jobs(2) by auto
    have u: "rx_untimed r' = rx_untimed ?r" "\<And>t. abs_time r' t = abs_time r t" using r'(3) by (simp_all add: times_kept_def fun_eq_iff)
    have "\<forall>u\<in>set (rx_timers_expired_list r'). abs_time r' u \<le> now" unfolding r'(4) u(2) by (auto dest: set_takeWhileD)
    then have "rx_inv now r'" using r'(2) rx_untimed_eqs [OF u(1)] d fd now by (auto simp: rx_inv_def expired_first_def)
    moreover have "wait_for_events now outs r = Some (True, r')"
      using jobs t(1) x r'(1) by (simp add: wait_for_events_def)
    ultimately show ?thesis using True r'(4) t(2) rx_untimed_eqs [OF u(1)] by (auto simp: wait_clock_def)
  next
    case False
    note w = rx_inv_waiting [OF inv idle now False]
    have "outs_ok ?r (rx_timeout now r) outs"
    proof -
      have "outs_ok ?r to outs = outs_ok r to outs" for to by (induction r to outs rule: outs_ok.induct) auto
      then show ?thesis using outs [OF False] by simp
    qed
    from wait_loop_ok [OF w this, of clock] obtain ended r' where
      r': "wait_loop outs (rx_timeout now r) ?r = Some (ended, r')" "waited (outs_clock clock (rx_timeout now r) outs) r' ?r"
        "if ended then rx_timers_expired_list r' \<noteq> [] \<or> rx_epoll_results r' \<noteq> [] else r' = ?r" "rx_epoll_results_pos r' = 0" by blast
    let ?c = "outs_clock clock (rx_timeout now r) outs"
    have c: "clock \<le> ?c" "?c \<le> INT64_MAX"
      using outs_clock_later [OF outs [OF False], of clock] now d(6) False by (auto simp: rx_timeout_def rx_overdue_def split: list.splits)
    have rest: "rx_rest ?r = rx_rest r" by (simp add: rx_rest_def)
    have inv': "rx_inv ?c r'" by (rule waited_inv [OF inv r'(2) rest _ c]) simp
    have same: "rx_rest r' = rx_rest r" using r'(2) rest by (simp add: waited_def)
    have m: "(case rx_timers_tree ?r of [] \<Rightarrow> Some (False, None, ?r) | t # _ \<Rightarrow> do {
           tm \<leftarrow> rx_timer ?r t;
           ASSERT (tm_state tm = TIMER_STATE_RUNNING);
           (moved, r) \<leftarrow> move_expired_timers now False ?r;
           Some (moved, Some (tm_absTime tm, now), r)
         }) = Some (False, rx_timeout now r, ?r)"
    proof (cases "rx_timers_tree r")
      case (Cons t ts)
      then obtain x where x: "rx_timer r t = Some x" "tm_state x = TIMER_STATE_RUNNING"
        using d(2) unfolding timers_inv_def by (metis list.set_intros(1))
      have "move_expired_timers now False ?r = Some (False, ?r)"
        using Cons x False by (subst move_expired_timers.simps) (simp add: rx_overdue_def)
      then show ?thesis using Cons x by (simp add: rx_timeout_def)
    qed (simp add: rx_timeout_def)
    show ?thesis
    proof (cases ended)
      case ended: False
      have "wait_for_events now outs r = Some (False, r')"
        unfolding wait_for_events_def Let_def m using jobs r'(1) ended by simp
      then show ?thesis using inv' same False by (auto simp: wait_clock_def rx_rest_def)
    next
      case ended: True
      have lim: "limits_inv (rx_limit r') (rx_active_limits_list r') (rx_d_limits_ctr r')" using rx_invD(4) [OF inv'] .
      from limits_inv_reset [OF lim] obtain lims where
        lims: "reset_limits (rx_active_limits_list r') (rx_limit r') = Some lims" "limits_inv lims [] (rx_d_limits_ctr r')" by blast
      let ?e = "r'\<lparr>rx_limit := lims, rx_active_limits_list := []\<rparr>"
      have "wait_for_events now outs r = Some (True, ?e)"
        unfolding wait_for_events_def Let_def m using jobs r'(1) ended lims(1) by simp
      moreover have "rx_inv ?c ?e" using inv' lims(2) by (simp add: rx_inv_def)
      moreover have "rx_timers_expired_list ?e \<noteq> [] \<or> rx_epoll_results_pos ?e < length (rx_epoll_results ?e)" using r'(3,4) ended by auto
      ultimately show ?thesis using same False by (auto simp: wait_clock_def rx_rest_def)
    qed
  qed
qed

text \<open>
  What one iteration may dispatch: the top job; without jobs, the first expired timer, which is due and the
  earliest of those; without those, the next result whose descriptor is still registered, with events it
  waits for or an error.  It waits when nothing is left.
\<close>

definition dispatch_ok :: "int \<Rightarrow> 'h BReactor \<Rightarrow> 'h dispatch \<Rightarrow> bool" where
  "dispatch_ok clock r disp \<longleftrightarrow> (case disp of
     DJob h \<Rightarrow> (\<exists>p js. pending_models (rx_pending_jobs r) (p # js) \<and> h = job_handler (rx_pending_jobs r) p)
   | DTimer t h \<Rightarrow> BPendingGroup_HasJobs (rx_pending_jobs r) = Some False \<and>
       (\<exists>x. rx_timer r t = Some x \<and> tm_state x = TIMER_STATE_EXPIRED \<and> h = tm_handler x \<and> tm_absTime x \<le> clock) \<and>
       t \<in> set (rx_timers_expired_list r) \<and> (\<forall>u\<in>set (rx_timers_expired_list r). abs_time r t \<le> abs_time r u)
   | DFd b h ev \<Rightarrow> BPendingGroup_HasJobs (rx_pending_jobs r) = Some False \<and> rx_timers_expired_list r = [] \<and> (\<exists>f. rx_fd r b = Some f \<and> fd_active f \<and> h = fd_handler f \<and> ev \<noteq> 0 \<and>
       (\<exists>e. (Some b, e) \<in> set (drop (rx_epoll_results_pos r) (rx_epoll_results r)) \<and> ev = report_events (fd_waitEvents f) e))
   | DNone \<Rightarrow> \<not> rx_idle r
   | _ \<Rightarrow> rx_idle r)"

definition exec_clock :: "int \<Rightarrow> int \<Rightarrow> epoll_outcome list \<Rightarrow> 'h BReactor \<Rightarrow> int" where
  "exec_clock clock now outs r = (if rx_idle r then wait_clock clock now outs r else clock)"

definition exec_legal :: "int \<Rightarrow> int \<Rightarrow> epoll_outcome list \<Rightarrow> 'h BReactor \<Rightarrow> bool" where
  "exec_legal clock now outs r \<longleftrightarrow> \<not> rx_exiting r \<and>
     (rx_idle r \<longrightarrow> clock \<le> now \<and> now \<le> INT64_MAX \<and> (rx_overdue now r \<or> outs_ok r (rx_timeout now r) outs))"

lemma rx_inv_fds:
  assumes "rx_inv clock r" "fds_inv fds res pos ctr"
  shows "rx_inv clock (r\<lparr>rx_fd := fds, rx_epoll_results := res, rx_epoll_results_pos := pos, rx_d_fds_counter := ctr\<rparr>)"
  using assms by (simp add: rx_inv_def)

lemma fds_inv_skip:
  assumes inv: "fds_inv fds res pos ctr" and i: "pos < length res" "fst (res ! pos) = None"
  shows "fds_inv fds res (pos + 1) ctr"
proof (rule fds_invI)
  note d = fds_invD [OF inv]
  show "pos + 1 \<le> length res" using i by simp
  show "\<exists>f. fds b = Some f \<and> fd_active f \<and> fd_epoll_returned_ptr f = Some j" if "pos + 1 \<le> j" "j < length res" "fst (res ! j) = Some b" for j b
    using d(2) [of j b] that by simp
  show "pos + 1 \<le> j \<and> j < length res \<and> fst (res ! j) = Some b" if "fds b = Some f" "fd_active f" "fd_epoll_returned_ptr f = Some j" for b f j
    using d(3) [OF that] i by (cases "j = pos") auto
qed (use fds_invD [OF inv] in auto)

lemma fds_inv_take:
  assumes inv: "fds_inv fds res pos ctr" and i: "pos < length res" "fst (res ! pos) = Some b" and f: "fds b = Some f"
  shows "fds_inv (fds(b \<mapsto> f\<lparr>fd_epoll_returned_ptr := None\<rparr>)) res (pos + 1) ctr"
proof (rule fds_invI)
  note d = fds_invD [OF inv]
  have fa: "fd_active f" "fd_epoll_returned_ptr f = Some pos" using d(2) [of pos b] i f by auto
  have a: "active_fds (fds(b \<mapsto> f\<lparr>fd_epoll_returned_ptr := None\<rparr>)) = active_fds fds" using f fa by auto
  show "finite (active_fds (fds(b \<mapsto> f\<lparr>fd_epoll_returned_ptr := None\<rparr>)))"
    "ctr = int (card (active_fds (fds(b \<mapsto> f\<lparr>fd_epoll_returned_ptr := None\<rparr>)))) \<or> ctr = INT32_MAX" unfolding a using d by blast+
  show "pos + 1 \<le> length res" using i by simp
  show "0 \<le> ctr" by (rule d)
  show "\<exists>g. (fds(b \<mapsto> f\<lparr>fd_epoll_returned_ptr := None\<rparr>)) c = Some g \<and> fd_active g \<and> fd_epoll_returned_ptr g = Some j"
    if "pos + 1 \<le> j" "j < length res" "fst (res ! j) = Some c" for j c
    using d(2) [of j c] that f fa by (cases "c = b") auto
  show "pos + 1 \<le> j \<and> j < length res \<and> fst (res ! j) = Some c"
    if "(fds(b \<mapsto> f\<lparr>fd_epoll_returned_ptr := None\<rparr>)) c = Some g" "fd_active g" "fd_epoll_returned_ptr g = Some j" for c g j
    using d(3) [of c g j] that i by (cases "c = b"; cases "j = pos") auto
qed

lemma BReactor_Exec_once_ok:
  assumes inv: "rx_inv clock r" and legal: "exec_legal clock now outs r"
  shows "\<exists>disp r'. BReactor_Exec_once now outs r = Some (disp, r') \<and> rx_inv (exec_clock clock now outs r) r' \<and> dispatch_ok clock r disp \<and>
    rx_exiting r' = rx_exiting r"
proof -
  note d = rx_invD [OF inv]
  have ex: "\<not> rx_exiting r" using legal by (simp add: exec_legal_def)
  obtain js where js: "pending_models (rx_pending_jobs r) js" using d(1) by blast
  note has = BPendingGroup_HasJobs_models [OF js]
  show ?thesis
  proof (cases js)
    case (Cons p js')
    from BPendingGroup_ExecuteJob_models [OF js [unfolded Cons]] obtain g where
      g: "BPendingGroup_ExecuteJob (rx_pending_jobs r) = Some (job_handler (rx_pending_jobs r) p, g)" "pending_models g js'" by blast
    have "rx_inv clock (r\<lparr>rx_pending_jobs := g\<rparr>)" using inv g(2) by (auto simp: rx_inv_def)
    then show ?thesis using has g Cons js ex by (auto simp: BReactor_Exec_once_def dispatch_ok_def exec_clock_def rx_idle_def)
  next
    case Nil
    show ?thesis
    proof (cases "rx_timers_expired_list r")
      case (Cons t ts)
      from d(2) Cons obtain x where x: "rx_timer r t = Some x" "tm_state x = TIMER_STATE_EXPIRED"
        unfolding timers_inv_def by (metis list.set_intros(1))
      let ?r = "r\<lparr>rx_timers_expired_list := ts, rx_timer := (rx_timer r)(t \<mapsto> x\<lparr>tm_state := TIMER_STATE_INACTIVE\<rparr>)\<rparr>"
      have "distinct (rx_timers_tree r @ rx_timers_expired_list r)" using d(2) unfolding timers_inv_def by blast
      then have nt: "t \<notin> set (rx_timers_tree r)" using Cons by simp
      have "rx_inv clock ?r"
      proof (rule rx_inv_timers [OF inv])
        show "timers_inv (rx_timer ?r) (rx_timers_tree ?r) (rx_timers_expired_list ?r)"
          using timers_inv_deactivate [OF d(2) x(1)] Cons nt by (simp add: remove1_idem)
        show "abs_time ?r u \<le> clock" if "u \<in> set (rx_timers_expired_list ?r)" for u
          using d(7) [of u] that x(1) Cons by (cases "u = t") auto
      qed (simp add: rx_untimed_def)
      moreover have "BReactor_Exec_once now outs r = Some (DTimer t (tm_handler x), ?r)"
        using has Nil Cons x ex by (simp add: BReactor_Exec_once_def set_timer_state_def)
      moreover have "dispatch_ok clock r (DTimer t (tm_handler x))"
        using d(2) d(7) [of t] Cons x has Nil by (auto simp: dispatch_ok_def timers_inv_def tless_def)
      ultimately show ?thesis using Cons by (auto simp: exec_clock_def rx_idle_def)
    next
      case ne: Nil
      show ?thesis
      proof (cases "rx_epoll_results_pos r < length (rx_epoll_results r)")
        case True
        let ?i = "rx_epoll_results_pos r"
        have clk: "exec_clock clock now outs r = clock" using True by (simp add: exec_clock_def rx_idle_def)
        show ?thesis
        proof (cases "fst (rx_epoll_results r ! ?i)")
          case None
          from rx_inv_fds [OF inv fds_inv_skip [OF d(3) True None]] have "rx_inv clock (r\<lparr>rx_epoll_results_pos := ?i + 1\<rparr>)" by simp
          then show ?thesis using has Nil ne True None ex by (simp add: BReactor_Exec_once_def clk dispatch_ok_def rx_idle_def)
        next
          case (Some b)
          from fds_invD(2) [OF d(3) _ True Some] obtain f where f: "rx_fd r b = Some f" "fd_active f" "fd_epoll_returned_ptr f = Some ?i" by auto
          let ?ev = "report_events (fd_waitEvents f) (snd (rx_epoll_results r ! ?i))"
          let ?disp = "if ?ev = 0 then DNone else DFd b (fd_handler f) ?ev"
          let ?r = "r\<lparr>rx_epoll_results_pos := ?i + 1, rx_fd := (rx_fd r)(b \<mapsto> f\<lparr>fd_epoll_returned_ptr := None\<rparr>)\<rparr>"
          have "BReactor_Exec_once now outs r = Some (?disp, ?r)"
            using has Nil ne True Some f ex by (simp add: BReactor_Exec_once_def Let_def)
          moreover have "rx_inv clock ?r" using rx_inv_fds [OF inv fds_inv_take [OF d(3) True Some f(1)]] by (simp add: rx_inv_def)
          moreover have "(Some b, snd (rx_epoll_results r ! ?i)) \<in> set (drop ?i (rx_epoll_results r))"
            using True Some by (metis Cons_nth_drop_Suc list.set_intros(1) prod.collapse)
          then have "dispatch_ok clock r ?disp" using f has Nil ne True by (auto simp: dispatch_ok_def rx_idle_def)
          ultimately show ?thesis using ex by (auto simp: clk)
        qed
      next
        case False
        then have idle: "rx_idle r" using has Nil ne fds_invD(1) [OF d(3)] by (simp add: rx_idle_def)
        have "clock \<le> now" "now \<le> INT64_MAX" "\<not> rx_overdue now r \<Longrightarrow> outs_ok r (rx_timeout now r) outs"
          using legal idle by (auto simp: exec_legal_def)
        from wait_for_events_ok [OF inv idle this] obtain ended r' where
          r': "wait_for_events now outs r = Some (ended, r')" "rx_inv (wait_clock clock now outs r) r'" "rx_exiting r' = rx_exiting r" by blast
        have "BReactor_Exec_once now outs r = Some (if ended then DWaited else DWaiting, r')"
          using has Nil ne False r'(1) ex by (simp add: BReactor_Exec_once_def)
        then show ?thesis using r'(2,3) idle by (auto simp: exec_clock_def dispatch_ok_def)
      qed
    qed
  qed
qed

section \<open>The reactor and its users\<close>

text \<open>
  Between two iterations handlers call the reactor in any order.  Objects must be initialised before
  use, not be initialised again while in use, and the kernel accepts changes to registered descriptors.
\<close>

datatype 'h rx_event =
    Iterate int "epoll_outcome list"
  | InitTimer ptr int bool 'h
  | SetTimer ptr timer_mode int
  | UnsetTimer ptr
  | InitFd ptr int 'h
  | AddFd ptr bool
  | RemoveFd ptr
  | FdEvents ptr events
  | InitLimit ptr int
  | FreeLimit ptr
  | UseLimit ptr
  | ChangeLimit ptr int
  | InitJob ptr 'h
  | FreeJob ptr
  | SetJob ptr
  | UnsetJob ptr
  | Quit int

record 'h rxm =
  rxm_reactor :: "'h BReactor"
  rxm_clock :: int
  rxm_log :: "(int \<times> 'h dispatch) list"

definition rx_step :: "'h rx_event \<Rightarrow> 'h rxm \<Rightarrow> 'h rxm option" where
  "rx_step e m = (let r = rxm_reactor m; put = map_option (\<lambda>r. m\<lparr>rxm_reactor := r\<rparr>) in case e of
     Iterate now outs \<Rightarrow> do {
       (disp, r') \<leftarrow> BReactor_Exec_once now outs r;
       let c = exec_clock (rxm_clock m) now outs r;
       Some (m\<lparr>rxm_reactor := r', rxm_clock := c, rxm_log := rxm_log m @ [(c, disp)]\<rparr>)
     }
   | InitTimer t ms small h \<Rightarrow> put (Some (if small then BSmallTimer_Init t h r else BTimer_Init t ms h r))
   | SetTimer t mode time \<Rightarrow> put (BReactor_SetSmallTimer (rxm_clock m) t mode time r)
   | UnsetTimer t \<Rightarrow> put (BReactor_RemoveSmallTimer t r)
   | InitFd b fd h \<Rightarrow> put (Some (BFileDescriptor_Init b fd h r))
   | AddFd b ok \<Rightarrow> put (map_option snd (BReactor_AddFileDescriptor ok b r))
   | RemoveFd b \<Rightarrow> put (BReactor_RemoveFileDescriptor True b r)
   | FdEvents b ev \<Rightarrow> put (BReactor_SetFileDescriptorEvents True b ev r)
   | InitLimit l n \<Rightarrow> put (BReactorLimit_Init l n r)
   | FreeLimit l \<Rightarrow> put (BReactorLimit_Free l r)
   | UseLimit l \<Rightarrow> put (map_option snd (BReactorLimit_Increment l r))
   | ChangeLimit l n \<Rightarrow> put (BReactorLimit_SetLimit l n r)
   | InitJob p h \<Rightarrow> put (map_option (\<lambda>g. r\<lparr>rx_pending_jobs := g\<rparr>) (BPending_Init p h (rx_pending_jobs r)))
   | FreeJob p \<Rightarrow> put (map_option (\<lambda>g. r\<lparr>rx_pending_jobs := g\<rparr>) (BPending_Free p (rx_pending_jobs r)))
   | SetJob p \<Rightarrow> put (map_option (\<lambda>g. r\<lparr>rx_pending_jobs := g\<rparr>) (BPending_Set p (rx_pending_jobs r)))
   | UnsetJob p \<Rightarrow> put (map_option (\<lambda>g. r\<lparr>rx_pending_jobs := g\<rparr>) (BPending_Unset p (rx_pending_jobs r)))
   | Quit code \<Rightarrow> put (Some (BReactor_Quit code r)))"

definition rx_legal :: "'h rx_event \<Rightarrow> 'h rxm \<Rightarrow> bool" where
  "rx_legal e m = (let r = rxm_reactor m in case e of
     Iterate now outs \<Rightarrow> exec_legal (rxm_clock m) now outs r
   | InitTimer t ms small h \<Rightarrow> is_int64 ms \<and> t \<notin> set (rx_timers_tree r) \<and> t \<notin> set (rx_timers_expired_list r)
   | SetTimer t mode time \<Rightarrow> t \<in> dom (rx_timer r) \<and> is_int64 time
   | UnsetTimer t \<Rightarrow> t \<in> dom (rx_timer r)
   | InitFd b fd h \<Rightarrow> b \<notin> active_fds (rx_fd r)
   | AddFd b ok \<Rightarrow> b \<in> dom (rx_fd r) \<and> b \<notin> active_fds (rx_fd r)
   | RemoveFd b \<Rightarrow> b \<in> active_fds (rx_fd r)
   | FdEvents b ev \<Rightarrow> b \<in> active_fds (rx_fd r) \<and> ev AND NOT (BREACTOR_READ OR BREACTOR_WRITE) = 0
   | InitLimit l n \<Rightarrow> l \<notin> dom (rx_limit r) \<and> n > 0
   | FreeLimit l \<Rightarrow> l \<in> dom (rx_limit r)
   | UseLimit l \<Rightarrow> l \<in> dom (rx_limit r)
   | ChangeLimit l n \<Rightarrow> l \<in> dom (rx_limit r) \<and> n > 0
   | InitJob p h \<Rightarrow> \<not> job_d_obj (rx_pending_jobs r) p
   | FreeJob p \<Rightarrow> job_d_obj (rx_pending_jobs r) p
   | SetJob p \<Rightarrow> job_d_obj (rx_pending_jobs r) p
   | UnsetJob p \<Rightarrow> job_d_obj (rx_pending_jobs r) p
   | Quit code \<Rightarrow> True)"

definition rxm_inv :: "'h rxm \<Rightarrow> bool" where
  "rxm_inv m \<longleftrightarrow> rx_inv (rxm_clock m) (rxm_reactor m)"

lemma rx_inv_limits:
  assumes "rx_inv clock r" "limits_inv lims act ctr"
  shows "rx_inv clock (r\<lparr>rx_limit := lims, rx_active_limits_list := act, rx_d_limits_ctr := ctr\<rparr>)"
  using assms by (simp add: rx_inv_def)

lemma rx_inv_jobs:
  assumes "rx_inv clock r" "pending_models g js"
  shows "rx_inv clock (r\<lparr>rx_pending_jobs := g\<rparr>)"
  using assms by (auto simp: rx_inv_def)

lemma BReactorLimit_ok:
  assumes inv: "rx_inv clock r"
  shows "l \<notin> dom (rx_limit r) \<Longrightarrow> n > 0 \<Longrightarrow> \<exists>r'. BReactorLimit_Init l n r = Some r' \<and> rx_inv clock r'"
    "l \<in> dom (rx_limit r) \<Longrightarrow> \<exists>r'. BReactorLimit_Free l r = Some r' \<and> rx_inv clock r'"
    "l \<in> dom (rx_limit r) \<Longrightarrow> \<exists>ok r'. BReactorLimit_Increment l r = Some (ok, r') \<and> rx_inv clock r'"
    "l \<in> dom (rx_limit r) \<Longrightarrow> n > 0 \<Longrightarrow> \<exists>r'. BReactorLimit_SetLimit l n r = Some r' \<and> rx_inv clock r'"
proof -
  note li = rx_invD(4) [OF inv]
  let ?S = "dom (rx_limit r)"
  have c: "0 \<le> rx_d_limits_ctr r" "rx_d_limits_ctr r = int (card ?S) \<or> rx_d_limits_ctr r = INT32_MAX" "finite ?S" using li by (auto simp: limits_inv_def)
  show "\<exists>r'. BReactorLimit_Init l n r = Some r' \<and> rx_inv clock r'" if l: "l \<notin> ?S" and n: "n > 0"
  proof -
    from counter_up [OF c l] obtain c' where c': "DebugCounter_Increment (rx_d_limits_ctr r) = Some c'" "0 \<le> c'"
      "c' = int (card (insert l ?S)) \<or> c' = INT32_MAX" by blast
    have "l \<notin> set (rx_active_limits_list r)" using li l by (auto simp: limits_inv_def)
    then have "limits_inv ((rx_limit r)(l \<mapsto> \<lparr>lm_limit = n, lm_count = 0\<rparr>)) (rx_active_limits_list r) c'"
      using li n c'(2,3) by (auto simp: limits_inv_def)
    from rx_inv_limits [OF inv this] c'(1) n show ?thesis by (simp add: BReactorLimit_Init_def)
  qed
  assume l: "l \<in> ?S"
  then obtain m where m: "rx_limit r l = Some m" by blast
  have mem: "l \<in> set (rx_active_limits_list r) \<longleftrightarrow> lm_count m > 0" "0 \<le> lm_count m" "0 < lm_limit m" using li m by (auto simp: limits_inv_def)
  show "\<exists>r'. BReactorLimit_Free l r = Some r' \<and> rx_inv clock r'"
  proof -
    from counter_down [OF c l] obtain c' where c': "DebugCounter_Decrement (rx_d_limits_ctr r) = Some c'" "0 \<le> c'"
      "c' = int (card (?S - {l})) \<or> c' = INT32_MAX" by blast
    have dm: "dom ((rx_limit r)(l := None)) = ?S - {l}" by auto
    have "limits_inv ((rx_limit r)(l := None)) (remove1 l (rx_active_limits_list r)) c'"
      unfolding limits_inv_def dm using li c' by (auto simp: limits_inv_def set_remove1_eq)
    from rx_inv_limits [OF inv this] c'(1) m mem(1) show ?thesis
      by (cases "lm_count m > 0") (auto simp: BReactorLimit_Free_def remove1_idem Let_def rx_inv_def)
  qed
  show "\<exists>ok r'. BReactorLimit_Increment l r = Some (ok, r') \<and> rx_inv clock r'"
  proof (cases "lm_count m \<ge> lm_limit m")
    case True
    then show ?thesis using m inv by (auto simp: BReactorLimit_Increment_def)
  next
    case False
    from limits_inv_upd [OF li m, of "m\<lparr>lm_count := lm_count m + 1\<rparr>"] mem
    have "limits_inv ((rx_limit r)(l \<mapsto> m\<lparr>lm_count := lm_count m + 1\<rparr>))
      (if lm_count m > 0 then rx_active_limits_list r else rx_active_limits_list r @ [l]) (rx_d_limits_ctr r)" by simp
    from rx_inv_limits [OF inv this] False m mem(2) show ?thesis
      by (cases "lm_count m > 0") (auto simp: BReactorLimit_Increment_def Let_def)
  qed
  show "\<exists>r'. BReactorLimit_SetLimit l n r = Some r' \<and> rx_inv clock r'" if n: "n > 0"
  proof -
    have "limits_inv ((rx_limit r)(l \<mapsto> m\<lparr>lm_limit := n\<rparr>)) (rx_active_limits_list r) (rx_d_limits_ctr r)"
      using limits_inv_upd [OF li m, of "m\<lparr>lm_limit := n\<rparr>"] mem n by (cases "lm_count m > 0") (auto simp: remove1_idem)
    from rx_inv_limits [OF inv this] m n show ?thesis by (simp add: BReactorLimit_SetLimit_def)
  qed
qed

lemma BReactor_fd_ok:
  assumes inv: "rx_inv clock r"
  shows "b \<notin> active_fds (rx_fd r) \<Longrightarrow> rx_inv clock (BFileDescriptor_Init b fd h r)"
    "b \<in> dom (rx_fd r) \<Longrightarrow> b \<notin> active_fds (rx_fd r) \<Longrightarrow> \<exists>res r'. BReactor_AddFileDescriptor ok b r = Some (res, r') \<and> rx_inv clock r'"
    "b \<in> active_fds (rx_fd r) \<Longrightarrow> \<exists>r'. BReactor_RemoveFileDescriptor True b r = Some r' \<and> rx_inv clock r' \<and> b \<notin> active_fds (rx_fd r')"
    "b \<in> active_fds (rx_fd r) \<Longrightarrow> ev AND NOT (BREACTOR_READ OR BREACTOR_WRITE) = 0 \<Longrightarrow>
      \<exists>r'. BReactor_SetFileDescriptorEvents True b ev r = Some r' \<and> rx_inv clock r'"
proof -
  note fi = rx_invD(3) [OF inv]
  show "rx_inv clock (BFileDescriptor_Init b fd h r)" if "b \<notin> active_fds (rx_fd r)"
    using rx_inv_fds [OF inv fds_inv_inactive [OF fi that]] by (simp add: BFileDescriptor_Init_def)
  show "\<exists>res r'. BReactor_AddFileDescriptor ok b r = Some (res, r') \<and> rx_inv clock r'" if b: "b \<in> dom (rx_fd r)" "b \<notin> active_fds (rx_fd r)"
  proof -
    from b obtain f where f: "rx_fd r b = Some f" "\<not> fd_active f" by auto
    let ?f = "f\<lparr>fd_epoll_returned_ptr := None, fd_active := True, fd_waitEvents := 0\<rparr>"
    from fds_inv_add [OF fi b(2), of ?f] obtain c where "DebugCounter_Increment (rx_d_fds_counter r) = Some c"
      "fds_inv ((rx_fd r)(b \<mapsto> ?f)) (rx_epoll_results r) (rx_epoll_results_pos r) c" by auto
    with rx_inv_fds [OF inv this(2)] f inv show ?thesis by (cases ok) (auto simp: BReactor_AddFileDescriptor_def)
  qed
  show "\<exists>r'. BReactor_RemoveFileDescriptor True b r = Some r' \<and> rx_inv clock r' \<and> b \<notin> active_fds (rx_fd r')" if b: "b \<in> active_fds (rx_fd r)"
  proof -
    from b obtain f where f: "rx_fd r b = Some f" "fd_active f" by auto
    from fds_inv_remove [OF fi f, of "f\<lparr>fd_active := False\<rparr>"] obtain c where c: "DebugCounter_Decrement (rx_d_fds_counter r) = Some c"
      "fds_inv ((rx_fd r)(b \<mapsto> f\<lparr>fd_active := False\<rparr>))
        (case fd_epoll_returned_ptr f of None \<Rightarrow> rx_epoll_results r | Some i \<Rightarrow> (rx_epoll_results r)[i := (None, snd (rx_epoll_results r ! i))])
        (rx_epoll_results_pos r) c" "\<forall>i. fd_epoll_returned_ptr f = Some i \<longrightarrow> i < length (rx_epoll_results r)" by auto
    show ?thesis
      using rx_inv_fds [OF inv c(2)] c(1,3) f
      by (cases "fd_epoll_returned_ptr f") (simp_all add: BReactor_RemoveFileDescriptor_def Let_def rx_inv_def)
  qed
  show "\<exists>r'. BReactor_SetFileDescriptorEvents True b ev r = Some r' \<and> rx_inv clock r'"
    if b: "b \<in> active_fds (rx_fd r)" and ev: "ev AND NOT (BREACTOR_READ OR BREACTOR_WRITE) = 0"
  proof -
    from b obtain f where f: "rx_fd r b = Some f" "fd_active f" by auto
    from rx_inv_fds [OF inv fds_inv_same [OF fi f(1), of "f\<lparr>fd_waitEvents := ev\<rparr>"]] f ev inv
    show ?thesis by (cases "fd_waitEvents f = ev") (simp_all add: BReactor_SetFileDescriptorEvents_def)
  qed
qed

lemma init_timer_ok:
  assumes inv: "rx_inv clock r" and t: "t \<notin> set (rx_timers_tree r)" "t \<notin> set (rx_timers_expired_list r)" and ms: "is_int64 ms"
  shows "rx_inv clock (BSmallTimer_Init t h r)" "rx_inv clock (BTimer_Init t ms h r)"
proof -
  have "rx_inv clock (r\<lparr>rx_timer := (rx_timer r)(t \<mapsto> x)\<rparr>)"
    if x: "tm_state x = TIMER_STATE_INACTIVE" "is_int64 (tm_absTime x)" "is_int64 (tm_msTime x)" for x
  proof (rule rx_inv_timers [OF inv])
    show "abs_time (r\<lparr>rx_timer := (rx_timer r)(t \<mapsto> x)\<rparr>) u \<le> clock"
      if "u \<in> set (rx_timers_expired_list (r\<lparr>rx_timer := (rx_timer r)(t \<mapsto> x)\<rparr>))" for u
      using rx_invD(7) [OF inv, of u] that t by (cases "u = t") auto
  qed (use timers_inv_fresh [OF rx_invD(2) [OF inv] t x] in \<open>simp_all add: rx_untimed_def\<close>)
  then show "rx_inv clock (BSmallTimer_Init t h r)" "rx_inv clock (BTimer_Init t ms h r)"
    using ms by (simp_all add: BSmallTimer_Init_def BTimer_Init_def int64_defs)
qed

lemma rx_job_ok:
  assumes inv: "rx_inv clock r"
  defines "put \<equiv> map_option (\<lambda>g. r\<lparr>rx_pending_jobs := g\<rparr>)"
  shows "\<not> job_d_obj (rx_pending_jobs r) p \<Longrightarrow> \<exists>r'. put (BPending_Init p h (rx_pending_jobs r)) = Some r' \<and> rx_inv clock r'"
    "job_d_obj (rx_pending_jobs r) p \<Longrightarrow> \<exists>r'. put (BPending_Free p (rx_pending_jobs r)) = Some r' \<and> rx_inv clock r'"
    "job_d_obj (rx_pending_jobs r) p \<Longrightarrow> \<exists>r'. put (BPending_Set p (rx_pending_jobs r)) = Some r' \<and> rx_inv clock r'"
    "job_d_obj (rx_pending_jobs r) p \<Longrightarrow> \<exists>r'. put (BPending_Unset p (rx_pending_jobs r)) = Some r' \<and> rx_inv clock r'"
proof -
  obtain js where js: "pending_models (rx_pending_jobs r) js" using rx_invD(1) [OF inv] by blast
  show "\<exists>r'. put (BPending_Init p h (rx_pending_jobs r)) = Some r' \<and> rx_inv clock r'" if "\<not> job_d_obj (rx_pending_jobs r) p"
    using BPending_Init_models [OF js that, of h] rx_inv_jobs [OF inv] by (auto simp: put_def)
  assume v: "job_d_obj (rx_pending_jobs r) p"
  show "\<exists>r'. put (BPending_Free p (rx_pending_jobs r)) = Some r' \<and> rx_inv clock r'"
    using BPending_Free_models [OF js v] rx_inv_jobs [OF inv] by (auto simp: put_def)
  show "\<exists>r'. put (BPending_Set p (rx_pending_jobs r)) = Some r' \<and> rx_inv clock r'"
    using BPending_Set_models [OF js v] rx_inv_jobs [OF inv] by (auto simp: put_def)
  show "\<exists>r'. put (BPending_Unset p (rx_pending_jobs r)) = Some r' \<and> rx_inv clock r'"
    using BPending_Unset_models [OF js v] rx_inv_jobs [OF inv] by (auto simp: put_def)
qed

lemma rx_step_ok:
  assumes inv: "rxm_inv m" and legal: "rx_legal e m"
  shows "\<exists>m'. rx_step e m = Some m' \<and> rxm_inv m'"
proof -
  let ?r = "rxm_reactor m" and ?c = "rxm_clock m"
  have i: "rx_inv ?c ?r" using inv by (simp add: rxm_inv_def)
  have c: "is_int64 ?c" using rx_invD(5,6) [OF i] by (simp add: int64_defs)
  have put: "\<exists>m'. map_option (\<lambda>r. m\<lparr>rxm_reactor := r\<rparr>) x = Some m' \<and> rxm_inv m'" if "\<exists>r'. x = Some r' \<and> rx_inv ?c r'" for x
    using that by (auto simp: rxm_inv_def)
  have snd: "\<exists>r'. map_option snd x = Some r' \<and> rx_inv ?c r'" if "\<exists>a r'. x = Some (a, r') \<and> rx_inv ?c r'" for x :: "(bool \<times> 'a BReactor) option"
    using that by auto
  note steps = put rx_step_def rx_legal_def Let_def
  show ?thesis
  proof (cases e)
    case (Iterate now outs)
    with BReactor_Exec_once_ok [OF i] legal show ?thesis by (fastforce simp: steps rxm_inv_def)
  next
    case (InitTimer t ms small h)
    with init_timer_ok [OF i, of t ms h] legal show ?thesis by (cases small) (auto simp: steps rxm_inv_def)
  next
    case (SetTimer t mode time)
    with legal obtain x where "rx_timer ?r t = Some x" "is_int64 time" by (auto simp: steps)
    with BReactor_SetSmallTimer_ok [OF i this(1) c this(2), of mode] SetTimer show ?thesis unfolding rx_step_def Let_def by (auto simp: rxm_inv_def)
  next
    case (UnsetTimer t)
    with legal obtain x where "rx_timer ?r t = Some x" by (auto simp: steps)
    with BReactor_RemoveSmallTimer_ok [OF i this] UnsetTimer show ?thesis unfolding rx_step_def Let_def by (auto simp: rxm_inv_def)
  next
    case (Quit code)
    with i show ?thesis by (simp add: rx_step_def BReactor_Quit_def rxm_inv_def rx_inv_def)
  next
    case (InitFd b fd h)
    with legal BReactor_fd_ok(1) [OF i, of b fd h] show ?thesis by (simp add: steps rxm_inv_def)
  next
    case (AddFd b ok)
    with legal put [OF snd [OF BReactor_fd_ok(2) [OF i, of b ok]]] show ?thesis by (simp add: rx_step_def rx_legal_def Let_def)
  next
    case (RemoveFd b)
    with legal put BReactor_fd_ok(3) [OF i, of b] show ?thesis by (fastforce simp: rx_step_def rx_legal_def Let_def)
  next
    case (FdEvents b ev)
    with legal put [OF BReactor_fd_ok(4) [OF i, of b ev]] show ?thesis by (simp add: rx_step_def rx_legal_def Let_def)
  next
    case (InitLimit l n)
    with legal put [OF BReactorLimit_ok(1) [OF i, of l n]] show ?thesis by (simp add: rx_step_def rx_legal_def Let_def)
  next
    case (FreeLimit l)
    with legal put [OF BReactorLimit_ok(2) [OF i, of l]] show ?thesis by (simp add: rx_step_def rx_legal_def Let_def)
  next
    case (UseLimit l)
    with legal put [OF snd [OF BReactorLimit_ok(3) [OF i, of l]]] show ?thesis by (simp add: rx_step_def rx_legal_def Let_def)
  next
    case (ChangeLimit l n)
    with legal put [OF BReactorLimit_ok(4) [OF i, of l n]] show ?thesis by (simp add: rx_step_def rx_legal_def Let_def)
  next
    case (InitJob p h)
    with legal put [OF rx_job_ok(1) [OF i, of p h]] show ?thesis by (simp add: rx_step_def rx_legal_def Let_def)
  next
    case (FreeJob p)
    with legal put [OF rx_job_ok(2) [OF i, of p]] show ?thesis by (simp add: rx_step_def rx_legal_def Let_def)
  next
    case (SetJob p)
    with legal put [OF rx_job_ok(3) [OF i, of p]] show ?thesis by (simp add: rx_step_def rx_legal_def Let_def)
  next
    case (UnsetJob p)
    with legal put [OF rx_job_ok(4) [OF i, of p]] show ?thesis by (simp add: rx_step_def rx_legal_def Let_def)
  qed
qed

interpretation rx: event_machine rx_step rx_legal rxm_inv
  by unfold_locales (rule rx_step_ok)


section \<open>From the start, until idle\<close>

text \<open>The memory of a program that has set nothing up yet, and a reactor initialised in it.\<close>

definition rx_fresh :: "'h BReactor \<Rightarrow> bool" where
  "rx_fresh r \<longleftrightarrow> (\<forall>p. \<not> job_d_obj (rx_pending_jobs r) p) \<and> rx_timer r = (\<lambda>_. None) \<and> rx_fd r = (\<lambda>_. None) \<and> rx_limit r = (\<lambda>_. None)"

lemma BReactor_Init_ok:
  assumes "rx_fresh r" "0 \<le> clock" "clock \<le> INT64_MAX"
  shows "\<exists>r'. BReactor_Init True r = Some (True, r') \<and> rx_inv clock r' \<and> \<not> rx_exiting r'"
  using assms BPendingGroup_Init_models [of "rx_pending_jobs r"]
  by (auto simp: BReactor_Init_def rx_fresh_def rx_inv_def timers_inv_def fds_inv_def limits_inv_def)

definition rx_start :: "int \<Rightarrow> 'h BReactor \<Rightarrow> 'h rxm" where
  "rx_start clock r = \<lparr>rxm_reactor = r, rxm_clock = clock, rxm_log = []\<rparr>"

lemma rx_start_inv: "rx_fresh r0 \<Longrightarrow> BReactor_Init True r0 = Some (True, r) \<Longrightarrow> 0 \<le> clock \<Longrightarrow> clock \<le> INT64_MAX \<Longrightarrow> rxm_inv (rx_start clock r)"
  using BReactor_Init_ok [of r0 clock] by (auto simp: rx_start_def rxm_inv_def)

lemma pending_jobs_set:
  assumes "pending_models g js"
  shows "{p. job_d_obj g p \<and> job_pending g p} = set js" "card {p. job_d_obj g p \<and> job_pending g p} = length js"
proof -
  show s: "{p. job_d_obj g p \<and> job_pending g p} = set js" using pending_modelsD(4,5) [OF assms] by auto
  show "card {p. job_d_obj g p \<and> job_pending g p} = length js" unfolding s using pending_modelsD(3) [OF assms] by (rule distinct_card)
qed

text \<open>What is left to be dispatched before the reactor waits.\<close>

definition rx_work :: "'h BReactor \<Rightarrow> int" where
  "rx_work r = int (card {p. job_d_obj (rx_pending_jobs r) p \<and> job_pending (rx_pending_jobs r) p} + length (rx_timers_expired_list r) +
     (length (rx_epoll_results r) - rx_epoll_results_pos r))"

lemma Exec_once_work:
  assumes inv: "rx_inv clock r" and busy: "\<not> rx_idle r" and s: "BReactor_Exec_once now outs r = Some (disp, r')"
  shows "rx_work r' = rx_work r - 1"
proof -
  obtain js where js: "pending_models (rx_pending_jobs r) js" using rx_invD(1) [OF inv] by blast
  note has = BPendingGroup_HasJobs_models [OF js]
  show ?thesis
  proof (cases js)
    case (Cons p js')
    from BPendingGroup_ExecuteJob_models [OF js [unfolded Cons]] obtain g where
      g: "BPendingGroup_ExecuteJob (rx_pending_jobs r) = Some (job_handler (rx_pending_jobs r) p, g)" "pending_models g js'" by blast
    have "r' = r\<lparr>rx_pending_jobs := g\<rparr>" using s has Cons g(1) by (simp add: BReactor_Exec_once_def split: if_splits)
    then show ?thesis using pending_jobs_set(2) [OF js] pending_jobs_set(2) [OF g(2)] Cons by (simp add: rx_work_def)
  next
    case Nil
    have "rx_epoll_results_pos r \<le> length (rx_epoll_results r)" using fds_invD(1) [OF rx_invD(3) [OF inv]] .
    then show ?thesis using s has Nil busy
      by (auto simp: BReactor_Exec_once_def rx_work_def rx_idle_def set_timer_state_def Let_def
        split: if_splits list.splits Option.bind_splits option.splits)
  qed
qed

text \<open>The iterations up to the next wait.\<close>

definition rx_dispatches :: "'h rx_event \<Rightarrow> 'h rxm \<Rightarrow> bool" where
  "rx_dispatches e m \<longleftrightarrow> (\<exists>now outs. e = Iterate now outs) \<and> rx_legal e m \<and> \<not> rx_idle (rxm_reactor m)"

lemma rx_dispatches_step:
  assumes inv: "rxm_inv m" and d: "rx_dispatches e m"
  shows "\<exists>m'. rx_step e m = Some m' \<and> rxm_inv m' \<and> rx_exiting (rxm_reactor m') = rx_exiting (rxm_reactor m) \<and>
    rxm_clock m' = rxm_clock m \<and> rx_work (rxm_reactor m') = rx_work (rxm_reactor m) - 1"
proof -
  from d obtain now outs where e: "e = Iterate now outs" and busy: "\<not> rx_idle (rxm_reactor m)" and l: "rx_legal e m"
    by (auto simp: rx_dispatches_def)
  have i: "rx_inv (rxm_clock m) (rxm_reactor m)" using inv by (simp add: rxm_inv_def)
  have "exec_legal (rxm_clock m) now outs (rxm_reactor m)" using l e by (simp add: rx_legal_def)
  from BReactor_Exec_once_ok [OF i this] obtain disp r' where r': "BReactor_Exec_once now outs (rxm_reactor m) = Some (disp, r')"
    "rx_inv (exec_clock (rxm_clock m) now outs (rxm_reactor m)) r'" "rx_exiting r' = rx_exiting (rxm_reactor m)" by blast
  with Exec_once_work [OF i busy r'(1)] busy show ?thesis by (simp add: e rx_step_def rxm_inv_def exec_clock_def)
qed

interpretation rxd: draining_machine rx_step rx_dispatches "\<lambda>m. rxm_inv m \<and> \<not> rx_exiting (rxm_reactor m)"
    "\<lambda>m. rx_idle (rxm_reactor m)" "\<lambda>m. rx_work (rxm_reactor m)"
proof
  fix m :: "'a rxm" and e
  assume i: "rxm_inv m \<and> \<not> rx_exiting (rxm_reactor m)"
  then show "rx_dispatches e m \<Longrightarrow> \<exists>m'. rx_step e m = Some m' \<and> rxm_inv m' \<and> \<not> rx_exiting (rxm_reactor m')"
    using rx_dispatches_step [of m e] by auto
  show "\<not> rx_idle (rxm_reactor m) \<Longrightarrow> \<exists>e. rx_dispatches e m"
    using i by (intro exI [of _ "Iterate 0 []"]) (simp add: rx_dispatches_def rx_legal_def exec_legal_def)
  show "rx_dispatches e m \<Longrightarrow> rx_step e m = Some m' \<Longrightarrow> rx_work (rxm_reactor m') < rx_work (rxm_reactor m)" for m'
    using rx_dispatches_step [of m e] i by auto
qed (simp add: rx_work_def)


section \<open>Removed descriptors are silent\<close>

lemma set_timer_state_fd: "set_timer_state t st r = Some r' \<Longrightarrow> rx_fd r' = rx_fd r"
  by (auto simp: set_timer_state_def split: Option.bind_splits)

lemma expire_first_fd: "expire_first r = Some r' \<Longrightarrow> rx_fd r' = rx_fd r"
  by (auto simp: expire_first_def dest: set_timer_state_fd split: list.splits)

lemma move_expired_timers_fd: "move_expired_timers now moved r = Some (m, r') \<Longrightarrow> rx_fd r' = rx_fd r"
proof (induction now moved r rule: move_expired_timers.induct)
  case (1 now moved r)
  have "(\<And>t ts x r2. rx_timers_tree r = t # ts \<Longrightarrow> rx_timer r t = Some x \<Longrightarrow> expire_first r = Some r2 \<Longrightarrow>
    move_expired_timers now True r2 = Some (m, r') \<Longrightarrow> tm_state x = TIMER_STATE_RUNNING \<Longrightarrow> tm_absTime x \<le> now \<Longrightarrow> rx_fd r' = rx_fd r)"
    using "1.IH" expire_first_fd by (metis linorder_not_less)
  with "1.prems" show ?case by (subst (asm) move_expired_timers.simps) (auto split: list.splits option.splits if_splits)
qed

lemma move_equal_timers_fd: "move_equal_timers now r = Some r' \<Longrightarrow> rx_fd r' = rx_fd r"
proof (induction now r rule: move_equal_timers.induct)
  case (1 now r)
  have "(\<And>t ts x r2. rx_timers_tree r = t # ts \<Longrightarrow> rx_timer r t = Some x \<Longrightarrow> expire_first r = Some r2 \<Longrightarrow>
    move_equal_timers now r2 = Some r' \<Longrightarrow> tm_state x = TIMER_STATE_RUNNING \<Longrightarrow> tm_absTime x = now \<Longrightarrow> rx_fd r' = rx_fd r)"
    using "1.IH" expire_first_fd by (metis order_less_irrefl)
  with "1.prems" show ?case by (subst (asm) move_equal_timers.simps) (auto split: list.splits option.splits if_splits)
qed

lemma move_first_timers_fd: "move_first_timers r = Some r' \<Longrightarrow> rx_fd r' = rx_fd r"
  by (auto simp: move_first_timers_def dest!: expire_first_fd move_equal_timers_fd split: list.splits Option.bind_splits)

definition fd_registered :: "(ptr \<rightharpoonup> 'h BFileDescriptor) \<Rightarrow> ptr \<Rightarrow> bool" where
  "fd_registered fds b \<longleftrightarrow> b \<in> active_fds fds"

lemma fd_registered_upd: "fds b = Some f \<Longrightarrow> fd_active g = fd_active f \<Longrightarrow> fd_registered (fds(b \<mapsto> g)) = fd_registered fds"
  by (auto simp: fd_registered_def fun_eq_iff)

lemma set_epoll_fd_pointers_active: "set_epoll_fd_pointers i res fds = Some fds' \<Longrightarrow> fd_registered fds' = fd_registered fds"
proof (induction res arbitrary: i fds)
  case (Cons e res)
  then obtain b f where b: "fds b = Some f" and s: "set_epoll_fd_pointers (i + 1) res (fds(b \<mapsto> f\<lparr>fd_epoll_returned_ptr := Some i\<rparr>)) = Some fds'"
    by (cases e) (auto split: Option.bind_splits if_splits)
  show ?case using Cons.IH [OF s] b by (auto simp: fd_registered_def fun_eq_iff)
qed simp

lemma wait_loop_active: "wait_loop outs timeout r = Some (ended, r') \<Longrightarrow> fd_registered (rx_fd r') = fd_registered (rx_fd r)"
proof (induction outs arbitrary: timeout)
  case (Cons out outs)
  then show ?case
    by (auto simp: Let_def split: Option.bind_splits option.splits epoll_outcome.splits if_splits prod.splits
      dest: set_epoll_fd_pointers_active move_first_timers_fd)
qed simp

lemma Exec_once_active:
  assumes "BReactor_Exec_once now outs r = Some (disp, r')"
  shows "fd_registered (rx_fd r') = fd_registered (rx_fd r)"
proof -
  have w: "fd_registered (rx_fd r2) = fd_registered (rx_fd r)" if "wait_for_events now outs r = Some (ended, r2)" for ended r2
    using that unfolding wait_for_events_def
    by (auto simp: Let_def split: Option.bind_splits list.splits if_splits prod.splits
      dest!: move_expired_timers_fd wait_loop_active)
  show ?thesis using assms unfolding BReactor_Exec_once_def
    by (auto simp: Let_def split: Option.bind_splits list.splits option.splits if_splits prod.splits
      dest: set_timer_state_fd w simp: fd_registered_upd)
qed

text \<open>A descriptor that is not registered stays so, and is not dispatched, until it is registered.\<close>

lemma rx_step_unregistered:
  assumes inv: "rxm_inv m" and l: "rx_legal e m" and s: "rx_step e m = Some m'" and b: "\<not> fd_registered (rx_fd (rxm_reactor m)) b" and ne: "e \<noteq> AddFd b True"
  shows "\<not> fd_registered (rx_fd (rxm_reactor m')) b \<and> (\<exists>ds. rxm_log m' = rxm_log m @ ds \<and> (\<forall>c h ev. (c, DFd b h ev) \<notin> set ds))"
proof -
  have i: "rx_inv (rxm_clock m) (rxm_reactor m)" using inv by (simp add: rxm_inv_def)
  have other: ?thesis if "rxm_log m' = rxm_log m" "\<not> fd_registered (rx_fd (rxm_reactor m')) b" using that by simp
  show ?thesis
  proof (cases e)
    case (Iterate now outs)
    with l have "exec_legal (rxm_clock m) now outs (rxm_reactor m)" by (simp add: rx_legal_def)
    from BReactor_Exec_once_ok [OF i this] obtain disp r' where d: "BReactor_Exec_once now outs (rxm_reactor m) = Some (disp, r')"
      "dispatch_ok (rxm_clock m) (rxm_reactor m) disp" by blast
    have "\<forall>h ev. disp \<noteq> DFd b h ev" using d(2) b by (auto simp: dispatch_ok_def fd_registered_def)
    then show ?thesis using s d(1) Exec_once_active [OF d(1)] b by (auto simp: Iterate rx_step_def Let_def)
  qed (use s b ne in \<open>auto intro!: other simp: rx_step_def Let_def BSmallTimer_Init_def BTimer_Init_def BReactor_SetSmallTimer_def BReactor_RemoveSmallTimer_def
      BFileDescriptor_Init_def BReactor_AddFileDescriptor_def BReactor_RemoveFileDescriptor_def BReactor_SetFileDescriptorEvents_def
      BReactorLimit_Init_def BReactorLimit_Free_def BReactorLimit_Increment_def BReactorLimit_SetLimit_def BReactor_Quit_def fd_registered_def
      split: Option.bind_splits if_splits option.splits timer_state.splits timer_mode.splits dest!: set_timer_state_fd\<close>)
qed

lemma rx_run_unregistered:
  assumes "rxm_inv m" "run_events rx_step rx_legal es m = Some m'" "\<not> fd_registered (rx_fd (rxm_reactor m)) b" "AddFd b True \<notin> set es"
  shows "\<exists>ds. rxm_log m' = rxm_log m @ ds \<and> (\<forall>c h ev. (c, DFd b h ev) \<notin> set ds)"
  using assms
proof (induction es arbitrary: m)
  case (Cons e es)
  then obtain m1 where m1: "rx_legal e m" "rx_step e m = Some m1" "run_events rx_step rx_legal es m1 = Some m'"
    by (auto split: Option.bind_splits)
  from rx_step_unregistered [OF Cons.prems(1) m1(1,2) Cons.prems(3)] Cons.prems(4) obtain ds where
    u: "\<not> fd_registered (rx_fd (rxm_reactor m1)) b" "rxm_log m1 = rxm_log m @ ds" "\<forall>c h ev. (c, DFd b h ev) \<notin> set ds" by auto
  have "rxm_inv m1" using rx_step_ok [OF Cons.prems(1) m1(1)] m1(2) by simp
  from Cons.IH [OF this m1(3) u(1)] Cons.prems(4) u(2,3) show ?case by fastforce
qed simp


text \<open>Memory for examples.\<close>

definition ex_rx_memory :: "nat BReactor" where
  "ex_rx_memory = \<lparr>rx_exiting = False, rx_exit_code = 0,
     rx_pending_jobs = \<lparr>pg_jobs = \<lparr>sl_first = None, sl_next = (\<lambda>_. None), sl_prev = (\<lambda>_. None)\<rparr>, pending_ctr = 0, pg_d_obj = False,
       job_handler = (\<lambda>_. 0), job_pending = (\<lambda>_. False), job_d_obj = (\<lambda>_. False)\<rparr>,
     rx_timers_tree = [], rx_timers_expired_list = [], rx_active_limits_list = [], rx_epoll_results = [], rx_epoll_results_pos = 0,
     rx_d_fds_counter = 0, rx_d_limits_ctr = 0, rx_timer = (\<lambda>_. None), rx_fd = (\<lambda>_. None), rx_limit = (\<lambda>_. None)\<rparr>"

definition ex_rx :: "nat BReactor" where
  "ex_rx = snd (the (BReactor_Init True ex_rx_memory))"

lemma ex_rx_init: "rx_fresh ex_rx_memory" "BReactor_Init True ex_rx_memory = Some (True, ex_rx)"
  by (simp_all add: rx_fresh_def ex_rx_memory_def ex_rx_def BReactor_Init_def)


definition ex_rx_events :: "nat rx_event list" where
  "ex_rx_events = [InitTimer 1 0 True 7, SetTimer 1 BTIMER_SET_RELATIVE 100, InitFd 2 5 8, AddFd 2 True, FdEvents 2 BREACTOR_READ,
     Iterate 10 [Ready [(2, EPOLLIN)]]]"

lemmas ex_rx_simps = rx_step_def rx_legal_def rx_start_def Let_def BSmallTimer_Init_def BReactor_SetSmallTimer_def BReactor_RemoveSmallTimer_def
  BFileDescriptor_Init_def BReactor_AddFileDescriptor_def BReactor_SetFileDescriptorEvents_def BReactor_RemoveFileDescriptor_def BReactor_Exec_once_def
  wait_for_events_def exec_legal_def exec_clock_def wait_clock_def rx_idle_def rx_overdue_def rx_timeout_def move_expired_timers.simps
  btime_add_def add_int64_overflows_def int64_def int64_defs DebugCounter_Increment_def DebugCounter_Decrement_def INT32_MAX_def BREACTOR_READ_def
  BREACTOR_WRITE_def BSYSTEM_MAX_RESULTS_def EPOLLIN_def BPendingGroup_HasJobs_def SLinkedList_IsEmpty_def

lemma ex_rx_eq:
  "ex_rx = ex_rx_memory\<lparr>rx_pending_jobs := (rx_pending_jobs ex_rx_memory)\<lparr>pg_d_obj := True\<rparr>\<rparr>"
  by (simp_all add: ex_rx_def ex_rx_memory_def BReactor_Init_def BPendingGroup_Init_def SLinkedList_Init_def BPendingGroup_HasJobs_def SLinkedList_IsEmpty_def)

definition ex_rx_state :: "nat rxm" where
  "ex_rx_state = \<lparr>rxm_reactor = ex_rx\<lparr>rx_timers_tree := [1], rx_epoll_results := [(Some 2, EPOLLIN)], rx_d_fds_counter := 1,
        rx_timer := [1 \<mapsto> \<lparr>tm_handler = 7, tm_absTime = 100, tm_state = TIMER_STATE_RUNNING, tm_is_small = True, tm_msTime = 0\<rparr>],
        rx_fd := [2 \<mapsto> \<lparr>fd_fd = 5, fd_handler = 8, fd_active = True, fd_waitEvents = BREACTOR_READ, fd_epoll_returned_ptr = Some 0\<rparr>]\<rparr>,
      rxm_clock = 10, rxm_log = [(10, DWaited)]\<rparr>"

lemma ex_rx_run: "run_events rx_step rx_legal ex_rx_events (rx_start 0 ex_rx) = Some ex_rx_state"
  by (simp add: ex_rx_events_def ex_rx_state_def ex_rx_simps ex_rx_eq ex_rx_memory_def)

end
