(* ===== verification/Ordered_Trees.thy ===== *)
theory Ordered_Trees
  imports CAvl_Tree Fair_Queue Reactor_Run
begin

text \<open>
  The reactor and the fair queue are modelled with the sequence of a tree's entries in place of the tree.
  Here the AVL tree is shown to implement that: for an order of entries, the operations of the tree
  simulate those of the list in order.  The locale \<open>entry_order\<close> is interpreted with \<open>compare_timers\<close> and
  \<open>compare_flows\<close>, the comparisons with which the code instantiates the tree.
\<close>

section \<open>The tree and its sequence\<close>

text \<open>Insertion into a sequence in order; it fails for an entry that is there.\<close>

fun list_insert :: "('a \<Rightarrow> 'a \<Rightarrow> int) \<Rightarrow> 'a \<Rightarrow> 'a list \<Rightarrow> 'a list option" where
  "list_insert compare x [] = Some [x]"
| "list_insert compare x (y # ys) =
     (if compare x y = 0 then None
      else if compare x y < 0 then Some (x # y # ys)
      else map_option ((#) y) (list_insert compare x ys))"

definition cavl_rel :: "('a \<Rightarrow> 'a \<Rightarrow> int) \<Rightarrow> 'a cavl \<Rightarrow> 'a list \<Rightarrow> bool" where
  "cavl_rel compare s xs \<longleftrightarrow> (\<exists>t. holds s t \<and> avl_ok t \<and> keys t = xs) \<and> sorted_wrt (\<lambda>a b. compare a b = -1) xs"

lemma cavl_rel_Init: "cavl_rel compare (CAvl_Init s) []"
  by (auto simp: cavl_rel_def CAvl_Init_def holds_def intro!: exI [of _ Tip])

context key_order
begin

lemma list_insert_present: "sorted_wrt less xs \<Longrightarrow> \<exists>y\<in>set xs. compare x y = 0 \<Longrightarrow> list_insert compare x xs = None"
proof (induction xs)
  case (Cons y ys)
  show ?case
  proof (cases "compare x y = 0")
    case False
    with Cons.prems obtain z where z: "z \<in> set ys" "compare x z = 0" by auto
    then have "less y z" using Cons.prems(1) by simp
    then have "compare x y = 1" using equal [OF z(2), of y] swap by simp
    with Cons z show ?thesis by auto
  qed simp
qed simp

lemma list_insert_new:
  "sorted_wrt less xs \<Longrightarrow> \<forall>y\<in>set xs. compare x y \<noteq> 0 \<Longrightarrow> \<exists>ys. list_insert compare x xs = Some ys \<and> sorted_wrt less ys \<and> set ys = insert x (set xs)"
proof (induction xs)
  case (Cons y ys)
  then obtain zs where zs: "list_insert compare x ys = Some zs" "sorted_wrt less zs" "set zs = insert x (set ys)" by auto
  have "compare x y \<noteq> 0" using Cons.prems(2) by simp
  then consider "less x y" | "compare x y = 1" "less y x" using range [of x y] swap by blast
  then show ?case
  proof cases
    case 1
    with Cons.prems trans show ?thesis by auto
  next
    case 2
    with Cons.prems zs show ?thesis by auto
  qed
qed simp

theorem insert_refines:
  assumes "cavl_rel compare s xs"
  shows "case list_insert compare x xs of
      None \<Rightarrow> (\<exists>y\<in>set xs. compare x y = 0 \<and> CAvl_Insert compare x s = Some (False, Some y, s))
    | Some ys \<Rightarrow> (\<exists>out s'. CAvl_Insert compare x s = Some (True, out, s') \<and> cavl_rel compare s' ys)"
proof -
  from assms obtain t where t: "holds s t" "avl_ok t" "keys t = xs" "sorted_wrt less (keys t)" by (auto simp: cavl_rel_def)
  note ok = CAvl_Insert_ok [OF t(1,2,4), of x]
  show ?thesis
  proof (cases "\<exists>y\<in>set xs. compare x y = 0")
    case True
    then show ?thesis using ok list_insert_present [OF t(4)] t(3) by simp
  next
    case False
    from list_insert_new [OF t(4) [unfolded t(3)], of x] False obtain ys where
      ys: "list_insert compare x xs = Some ys" "sorted_wrt less ys" "set ys = insert x (set xs)" by blast
    from ok False t(3) obtain out s' t' where
      s': "CAvl_Insert compare x s = Some (True, out, s')" "holds s' t'" "avl_ok t'" "sorted_wrt less (keys t')" "set (keys t') = insert x (set xs)" by auto
    have "keys t' = ys" using sorted_unique [OF s'(4) ys(2)] s'(5) ys(3) by simp
    then show ?thesis using ys(1,2) s' by (auto simp: cavl_rel_def)
  qed
qed

theorem remove_refines:
  assumes "cavl_rel compare s xs" "x \<in> set xs"
  shows "\<exists>s'. CAvl_Remove x s = Some s' \<and> cavl_rel compare s' (remove1 x xs)"
proof -
  from assms obtain t where t: "holds s t" "avl_ok t" "keys t = xs" "sorted_wrt less (keys t)" by (auto simp: cavl_rel_def)
  have "sorted_wrt less (remove1 x xs)" using sorted_wrt_remove1 [OF t(4), of x] unfolding t(3) .
  moreover from CAvl_Remove_ok [OF t(1,2), of x] assms(2) obtain s' t' where
    "CAvl_Remove x s = Some s'" "holds s' t'" "avl_ok t'" "keys t' = remove1 x xs" unfolding t(3) by blast
  ultimately show ?thesis unfolding cavl_rel_def by blast
qed

lemma first_refines:
  assumes "cavl_rel compare s xs"
  shows "CAvl_IsEmpty s \<longleftrightarrow> xs = []" "CAvl_GetFirst s = Some (if xs = [] then None else Some (hd xs))"
    "CAvl_GetLast s = Some (if xs = [] then None else Some (last xs))" "CAvl_Verify compare s = Some ()"
proof -
  from assms obtain t where t: "holds s t" "avl_ok t" "keys t = xs" "sorted_wrt less (keys t)" by (auto simp: cavl_rel_def)
  show "CAvl_IsEmpty s \<longleftrightarrow> xs = []" using CAvl_IsEmpty_ok [OF t(1)] unfolding t(3) .
  show "CAvl_GetFirst s = Some (if xs = [] then None else Some (hd xs))" using CAvl_GetFirst_ok [OF t(1)] unfolding t(3) .
  show "CAvl_GetLast s = Some (if xs = [] then None else Some (last xs))" using CAvl_GetLast_ok [OF t(1)] unfolding t(3) .
  show "CAvl_Verify compare s = Some ()" by (rule CAvl_Verify_ok [OF t(1,2,4)])
qed

lemma next_refines:
  assumes "cavl_rel compare s (as @ x # bs)"
  shows "CAvl_GetNext x s = Some (if bs = [] then None else Some (hd bs))" "CAvl_GetPrev x s = Some (if as = [] then None else Some (last as))"
proof -
  from assms obtain t where t: "holds s t" "keys t = as @ x # bs" unfolding cavl_rel_def by blast
  show "CAvl_GetNext x s = Some (if bs = [] then None else Some (hd bs))" by (rule CAvl_GetNext_ok(1) [OF t])
  show "CAvl_GetPrev x s = Some (if as = [] then None else Some (last as))" by (rule CAvl_GetNext_ok(2) [OF t])
qed

end

section \<open>Height\<close>

lemma height_pos: "t \<noteq> Tip \<Longrightarrow> 0 < height t"
proof (cases t)
  case (Bin l x b r)
  then show ?thesis using height_nonneg [of l] by simp
qed simp

lemma avl_height_bound: "avl_ok t \<Longrightarrow> 2 ^ nat (height t) \<le> (length (keys t) + 1) ^ 2"
proof (induction t)
  case (Bin l x b r)
  define n where "n = nat (min (height l) (height r))"
  have h: "height l \<ge> 0" "height r \<ge> 0" by (rule height_nonneg)+
  have "nat (height (Bin l x b r)) \<le> n + 2" using Bin.prems h by (auto simp: n_def min_def max_def)
  then have "(2::nat) ^ nat (height (Bin l x b r)) \<le> 4 * 2 ^ n"
    using power_increasing [of "nat (height (Bin l x b r))" "n + 2" "2::nat"] by simp
  moreover have le: "(2::nat) ^ n \<le> (length (keys l) + 1) ^ 2" "(2::nat) ^ n \<le> (length (keys r) + 1) ^ 2"
  proof -
    have "(2::nat) ^ n \<le> 2 ^ nat (height l)" "(2::nat) ^ n \<le> 2 ^ nat (height r)" by (rule power_increasing; simp add: n_def)+
    moreover have "2 ^ nat (height l) \<le> (length (keys l) + 1) ^ 2" "2 ^ nat (height r) \<le> (length (keys r) + 1) ^ 2" using Bin by simp_all
    ultimately show "(2::nat) ^ n \<le> (length (keys l) + 1) ^ 2" "(2::nat) ^ n \<le> (length (keys r) + 1) ^ 2" by linarith+
  qed
  define m where "m = min (length (keys l) + 1) (length (keys r) + 1)"
  have "2 ^ n \<le> m ^ 2" using le by (auto simp: m_def min_def)
  moreover have "(2 * m) ^ 2 \<le> (length (keys (Bin l x b r)) + 1) ^ 2" by (rule power_mono) (auto simp: m_def)
  then have "4 * m ^ 2 \<le> (length (keys (Bin l x b r)) + 1) ^ 2" by (simp add: power2_eq_square)
  ultimately show ?case by linarith
qed simp

section \<open>Sequences of operations\<close>

datatype 'a tree_op = Insert 'a | Remove 'a

text \<open>What a user does with a tree: entries are inserted that are not in it, and removed that are.\<close>

fun cavl_run :: "('a \<Rightarrow> 'a \<Rightarrow> int) \<Rightarrow> 'a tree_op list \<Rightarrow> 'a cavl \<Rightarrow> 'a cavl option" where
  "cavl_run compare [] s = Some s"
| "cavl_run compare (Insert x # ops) s = do {
     (inserted, out, s) \<leftarrow> CAvl_Insert compare x s;
     ASSERT inserted;
     cavl_run compare ops s
   }"
| "cavl_run compare (Remove x # ops) s = do {
     s \<leftarrow> CAvl_Remove x s;
     cavl_run compare ops s
   }"

fun list_run :: "('a \<Rightarrow> 'a \<Rightarrow> int) \<Rightarrow> 'a tree_op list \<Rightarrow> 'a list \<Rightarrow> 'a list option" where
  "list_run compare [] xs = Some xs"
| "list_run compare (Insert x # ops) xs = do {
     xs \<leftarrow> list_insert compare x xs;
     list_run compare ops xs
   }"
| "list_run compare (Remove x # ops) xs = do {
     ASSERT (x \<in> set xs);
     list_run compare ops (remove1 x xs)
   }"

lemma cavl_rel_cong:
  assumes "cavl_rel compare s xs" and "\<And>a b. a \<in> set xs \<Longrightarrow> b \<in> set xs \<Longrightarrow> compare' a b = compare a b"
  shows "cavl_rel compare' s xs"
  using assms by (auto simp: cavl_rel_def intro: sorted_wrt_mono_rel [rotated])

context key_order
begin

theorem run_refines:
  "cavl_rel compare s xs \<Longrightarrow> list_run compare ops xs = Some ys \<Longrightarrow> \<exists>s'. cavl_run compare ops s = Some s' \<and> cavl_rel compare s' ys"
proof (induction ops arbitrary: s xs)
  case (Cons op ops)
  show ?case
  proof (cases op)
    case (Insert x)
    then obtain zs where zs: "list_insert compare x xs = Some zs" "list_run compare ops zs = Some ys"
      using Cons.prems(2) by (auto split: Option.bind_splits)
    then show ?thesis using insert_refines [OF Cons.prems(1), of x] Cons.IH Insert by auto
  next
    case (Remove x)
    then have "x \<in> set xs" "list_run compare ops (remove1 x xs) = Some ys" using Cons.prems(2) by (auto split: Option.bind_splits if_splits)
    then show ?thesis using remove_refines [OF Cons.prems(1), of x] Cons.IH Remove by auto
  qed
qed simp

text \<open>The height is at most twice the logarithm of the size.\<close>

lemma height_refines:
  assumes "cavl_rel compare s xs" "av_root s = Some r"
  shows "\<exists>h. CAvl_verify_recurser compare r s = Some h \<and> 0 < h \<and> 2 ^ nat h \<le> (length xs + 1) ^ 2"
proof -
  from assms obtain t where t: "holds s t" "avl_ok t" "keys t = xs" "sorted_wrt less (keys t)" by (auto simp: cavl_rel_def)
  from t(1) assms(2) have "repr s None (Some r) t" by (simp add: holds_def)
  moreover from this have "0 < height t" using height_pos [of t] by (cases t) simp_all
  ultimately show ?thesis using verify_recurser_ok [OF _ t(2,4)] avl_height_bound [OF t(2)] t(3) by auto
qed

end

section \<open>The trees of the program\<close>

interpretation timers: entry_order "compare_timers at" for at
  by unfold_locales (auto simp: compare_timers_def B_COMPARE_def Let_def split: if_splits)

interpretation flows: entry_order "compare_flows m" for m
  by unfold_locales (auto simp: compare_flows_def Let_def split: if_splits)

lemma timers_insert_list: "timers_insert at x xs = list_insert (compare_timers at) x xs"
  by (induction xs) simp_all

lemma tree_insert_list: "tree_insert m x xs = list_insert (compare_flows m) x xs"
  by (induction xs) simp_all

lemma compare_flows_offset:
  assumes "off \<le> fl_time (fq_flow m a)" "off \<le> fl_time (fq_flow m b)"
    and "fl_time (fq_flow m' a) = fl_time (fq_flow m a) - off" "fl_time (fq_flow m' b) = fl_time (fq_flow m b) - off"
  shows "compare_flows m' a b = compare_flows m a b"
proof -
  have "x - off > y - off \<longleftrightarrow> x > y" if "off \<le> x" "off \<le> y" for x y :: "64 word"
    using that by (simp add: word_less_nat_alt word_le_nat_alt unat_sub less_diff_iff)
  then show ?thesis using assms by (simp add: compare_flows_def)
qed

end
