(* ===== verification/Spec2Isabelle.thy ===== *)
theory Spec2Isabelle
  imports Framed_Channel Tun2socks_Options Ordered_Trees
begin

text \<open>
  A verification development for the tun2socks program of the Psiphon VPN library: the native code under
  \<open>src/app/src/main/jni/badvpn/\<close> that \<open>Android.mk\<close> builds.  The program reads IP packets from
  the VPN's device, ends TCP connections in lwIP and relays their data over SOCKS connections, and sends
  UDP datagrams as framed messages over one SOCKS connection to a udpgw server.

  \<^bold>\<open>How the program is put together.\<close>  A reactor calls handlers and runs queued jobs.  Components pass packets
  and stream data through one-way interfaces, each with one operation outstanding at a time:
    \<^item> device packets (\<open>tun2socks.c\<close>) go to the udpgw client if they are UDP, to lwIP otherwise;
    \<^item> lwIP calls back with accepted connections, received data, acknowledgements and errors (\<open>tun2socks.c\<close>,
      the \<open>client_\<close> functions); each client owns a \<open>BSocksClient\<close>;
    \<^item> the udpgw client (\<open>UdpGwClient.c\<close>) has a \<open>PacketProtoFlow\<close> per connection; a fair queue, an inactivity
      monitor and a connector lead to the stream sender of the current server connection, and a
      \<open>PacketProtoDecoder\<close> takes the answers out of the stream;
    \<^item> \<open>SocksUdpGwClient.c\<close> keeps the SOCKS connection to the udpgw server up.

  \<^bold>\<open>Style of the model.\<close>  Structs are records, unions and event codes are datatypes, pointers are numbers into
  explicit stores, memory is a list of bytes with bounds-checked access.  Functions pass their state
  explicitly.  The result \<open>None\<close> stands for a failed assertion, a null pointer, a use of freed memory or an
  access out of bounds; a C return value 0 is a value of an inner option or a boolean.  Calls to
  neighbours are lists of actions in the order of the code.  What is not in the repository's own code (lwIP, the
  operating system, memory allocation) is a parameter: the answers of a call, or a function with its
  documented contract as a hypothesis (an allocator returns as many bytes as asked for).

  \<^bold>\<open>Theories.\<close>
    \<^item> \<open>Flow_Prelude\<close>: assertions, memory, byte order, shared lemmas.
    \<^item> \<open>Event_Machine\<close>: components between their neighbours as machines with legal events; the locale
      \<open>event_machine\<close> (the invariant holds in every run, and a run only stops at an event that must not
      happen) and its extension \<open>draining_machine\<close> (work that decreases until everything is done).  Every
      component below interprets \<open>event_machine\<close> with its own handlers.
    \<^item> \<open>SLinkedList\<close>, \<open>Pending\<close>: the linked list of \<open>structure/SLinkedList_impl.h\<close> over explicit pointers,
      and the job queue of \<open>base/BPending.c\<close>; refinement to a stack of jobs.
    \<^item> \<open>Flow_Interfaces\<close>: \<open>flow/PacketPassInterface\<close>, \<open>PacketRecvInterface\<close>, \<open>StreamPassInterface\<close>,
      \<open>StreamRecvInterface\<close>; their turn of request, operation, completion, notification is one locale with
      four interpretations.
    \<^item> \<open>Chunk_Buffer\<close>, \<open>Packet_Buffer\<close>: the circular buffer of \<open>structure/ChunkBuffer2.h\<close> and
      \<open>flow/PacketBuffer.c\<close>; refinement to a FIFO queue.
    \<^item> \<open>Packet_Proto\<close>, \<open>Flow_Elements\<close>, \<open>Framed_Channel\<close>: encoder and decoder, stream sender, single packet
      buffer, connector, inactivity monitor, buffer writer and \<open>PacketProtoFlow\<close>; then flow, sender and
      decoder connected by a byte stream.
    \<^item> \<open>Fair_Queue\<close>: \<open>flow/PacketPassFairQueue.c\<close> with its 64-bit virtual times; the tree of waiting flows is the
      list of its elements in its order (see \<open>Ordered_Trees\<close>).
    \<^item> \<open>Net_Addr\<close>, \<open>Socks_Client\<close>: addresses and saturating sizes; the SOCKS5 client of
      \<open>socksclient/BSocksClient.c\<close>.
    \<^item> \<open>UdpGw_Client\<close>, \<open>Socks_UdpGw\<close>: \<open>udpgw_client/UdpGwClient.c\<close> and \<open>tun2socks/SocksUdpGwClient.c\<close>.
    \<^item> \<open>IP_Packets\<close>: IPv4, IPv6 and UDP headers, checks and checksums of \<open>misc/\<close>.
    \<^item> \<open>Tcp_Relay\<close>, \<open>Tun2socks_Device\<close>, \<open>Tun2socks_Run\<close>: \<open>tun2socks.c\<close>, its clients, its device side, and \<open>run()\<close>
      with every exit path, the reactor being a script of events.
    \<^item> \<open>Number_Text\<close>, \<open>Ip6_Text\<close>, \<open>Addr_Text\<close>: numbers (\<open>misc/parse_number.h\<close>), IPv6 addresses (\<open>misc/ipaddr6.h\<close>)
      and addresses with port (\<open>system/BAddr.h\<close>) as text; the resolver is a parameter.
    \<^item> \<open>Logging\<close>: \<open>base/BLog.h\<close>; the three ways to append to a message interpret one locale.
    \<^item> \<open>Tun2socks_Options\<close>: the command line and options of \<open>tun2socks.c\<close>, the password file
      (\<open>misc/read_file.h\<close>), and \<open>runTun2SocksNative\<close>, composed with \<open>run()\<close>.
    \<^item> \<open>Reactor\<close>, \<open>Reactor_Run\<close>: the event loop of \<open>system/BReactor_badvpn.c\<close> with epoll, its timers, descriptors and
      limits, and \<open>system/BTime.h\<close>; the reactor with its users interprets \<open>event_machine\<close>, and its iterations up
      to the next wait \<open>draining_machine\<close>.
    \<^item> \<open>CAvl\<close>, \<open>CAvl_Tree\<close>, \<open>Ordered_Trees\<close>: the AVL tree of \<open>structure/CAvl_impl.h\<close> over linked entries; its loops end
      and its operations refine those of the sequence of its entries, for any order (locale \<open>key_order\<close>); interpreted with
      the comparisons of timers and flows, so that the sequences in the models of the reactor and the fair queue stand for trees.

  \<^bold>\<open>What is shown.\<close>  Safety: no component, and not their composition, ever fails an assertion or touches memory out
  of bounds, whatever its neighbours do within their contracts.  Data: the relay passes bytes in both
  directions unchanged and in order, and closes gracefully; packets through the framed channel arrive
  complete, in order, and eventually; the packet buffer is a FIFO queue.  Options: an accepted command line is
  everything \<open>run()\<close> needs, and the Android entry point runs until it is told to stop.  Protocols: the SOCKS5 client reports
  success only after a correct handshake; udpgw messages and UDP packets on the device are parsed back to
  what was sent.  Resources: clients, connections, buffers and what \<open>run()\<close> acquires are released on all
  paths.  Scheduling: the reactor dispatches jobs, due timers and ready descriptors in order and leaves none.
  Trees: insertion, removal and walks do what an ordered sequence does, at logarithmic height.  Some properties state flaws of the code: the exit of \<open>run()\<close> without a signal handler, a packet
  that is not freed, a shared user name, and UDP checksums of zero.

  \<^bold>\<open>Termination and bounds.\<close>  All loops but those of the AVL tree are total functions: structural recursion, or a measure (the closing of a
  client by the clients left, the search for a connection id by the ids not yet tried, the folding of a
  checksum by its value).  The loops of the AVL tree follow links and are partial functions (not returning is \<open>None\<close>);
  it is shown that they return on every tree.  No fuel is used.  Integers are kept at their width where the code computes with
  them at the edge (virtual times, checksums, ids, lengths in headers); other C integers are \<open>int\<close> with the
  bounds of the invariants.

  \<^bold>\<open>Not modelled.\<close>  lwIP (third party), the socket and signal wrappers (system calls),
  the JNI calls and the Java and Kotlin service, functions that only free memory of single flow
  elements, and the other programs of the badvpn tree, which the library does not build.
\<close>

section \<open>Framing\<close>

text \<open>C9. PacketProtoDecoder inverts the framing: when the bytes delivered so far, in whatever
  pieces, are the frames of the packets \<open>ps\<close>, and the decoder waits for input, it has submitted
  exactly \<open>ps\<close> in order, holds no left-over bytes and has reported no error.\<close>

theorem packet_framing_roundtrip:
  assumes "PacketProtoDecoder_Init malloc mtu = Some (acts, d)"
    and "\<And>n b. 0 \<le> n \<Longrightarrow> malloc n = Some b \<Longrightarrow> int (length b) = n" and "0 \<le> mtu"
    and "run_events dec_step dec_legal es (dec_start d) = Some c"
    and "dc_in c = concat (map pp_encode ps)" and "\<forall>p\<in>set ps. int (length p) \<le> min mtu PACKETPROTO_MAXPAYLOAD"
    and "\<not> dc_sending c"
  shows "dc_out c = ps \<and> \<not> dc_err c \<and> dec_data (dc_dec c) = []"
proof -
  have i: "dec_conf_inv c" and m: "dec_output_mtu (dc_dec c) = min mtu PACKETPROTO_MAXPAYLOAD"
    using dec.run_inv [OF assms(4), of "min mtu PACKETPROTO_MAXPAYLOAD"] dec_start_inv [OF assms(1-3)]
    by (auto simp: dec_start_def)
  show ?thesis
    using dec_conf_frames [OF i] assms(5-7) m by (auto simp: PACKETPROTO_MAXPAYLOAD_def)
qed


theorem packet_framing_roundtrip_witness:
  "\<exists>d c. PacketProtoDecoder_Init (\<lambda>n. Some (replicate (nat n) 0)) 3 = Some ([DecRecv 0 5], d) \<and>
    run_events dec_step dec_legal [Deliver [2, 0, 7], Deliver [8, 0], OutputDone, Deliver [0], OutputDone] (dec_start d) = Some c \<and>
    dc_out c = [[7, 8], []]"
proof -
  let ?m = "\<lambda>n. Some (replicate (nat n) 0) :: bytes option"
  obtain d where d: "PacketProtoDecoder_Init ?m 3 = Some ([DecRecv 0 5], d)"
    "d = \<lparr>dec_output_mtu = 3, dec_buf_size = 5, dec_buf_start = 0, dec_buf_used = 0, dec_buf = [0,0,0,0,0]\<rparr>"
    by (simp add: PacketProtoDecoder_Init_def packetproto_defs numeral_eq_Suc)
  have "case run_events dec_step dec_legal
      [Deliver [2, 0, 7], Deliver [8, 0], OutputDone, Deliver [0], OutputDone] (dec_start d) of None \<Rightarrow> False
    | Some c \<Rightarrow> dc_in c = concat (map pp_encode [[7, 8], []]) \<and> \<not> dc_sending c"
    unfolding d(2) by code_simp
  then obtain c where c: "run_events dec_step dec_legal
      [Deliver [2, 0, 7], Deliver [8, 0], OutputDone, Deliver [0], OutputDone] (dec_start d) = Some c"
    "dc_in c = concat (map pp_encode [[7, 8], []])" "\<not> dc_sending c" by (auto split: option.splits)
  have "dc_out c = [[7, 8], []]"
    by (rule packet_framing_roundtrip [THEN conjunct1, OF d(1) _ _ c(1,2) _ c(3)])
      (auto simp: PACKETPROTO_MAXPAYLOAD_def)
  with d(1) c(1) show ?thesis by blast
qed

text \<open>The decoder handles everything its neighbours may do: from a freshly initialised decoder a
  sequence of events can only fail at an event the neighbours must not produce, never with a failed
  assertion or an access outside the buffer.\<close>

lemma decoder_never_fails:
  assumes "PacketProtoDecoder_Init malloc mtu = Some (acts, d)"
    and "\<And>n b. 0 \<le> n \<Longrightarrow> malloc n = Some b \<Longrightarrow> int (length b) = n" and "0 \<le> mtu"
    and "run_events dec_step dec_legal es (dec_start d) = None"
  shows "\<exists>es1 e es2 c. es = es1 @ e # es2 \<and>
    run_events dec_step dec_legal es1 (dec_start d) = Some c \<and> \<not> dec_legal e c"
  using dec.run_total [of _ _ es] dec_start_inv [OF assms(1-3)] assms(4) by blast

text \<open>The encoder writes the frame of a packet into the memory of the receiver: it asks the
  input for a packet behind the header, and after the input has written \<open>p\<close> there the memory begins
  with the frame of \<open>p\<close>, which is what is reported.\<close>

lemma encoder_writes_frame:
  assumes "enc_output_packet enc = None" and "length p \<le> 65535" and "2 + length p \<le> length mem"
  shows "\<exists>enc1 mem1 mem2 enc2.
    PacketProtoEncoder_output_handler_recv mem enc = Some ([EncRecv 2], enc1) \<and>
    enc_output_packet enc1 = Some mem \<and> mem_write mem 2 p = Some mem1 \<and>
    PacketProtoEncoder_input_handler_done (int (length p)) (enc1\<lparr>enc_output_packet := Some mem1\<rparr>) =
      Some ([EncDone (2 + int (length p)) mem2], enc2) \<and>
    enc_output_packet enc2 = None \<and> length mem2 = length mem \<and>
    mem_read mem2 0 (2 + int (length p)) = Some (pp_encode p)"
  using encoder_frame [OF assms] .

section \<open>Packet buffer\<close>

text \<open>C8. PacketBuffer is a FIFO queue over memory that producer and consumer access in place: in
  every run the packets that came out, each read from the buffer at the moment the consumer finished,
  followed by the queued ones are the packets that went in; the consumer is busy exactly when the
  queue is not empty, and the producer is busy whenever fewer than \<open>num\<close> packets are queued.\<close>

theorem packet_buffer_fifo:
  assumes "PacketBuffer_Init BAllocArray mtu output_mtu num = Some (Some (acts, pb))"
    and "\<And>n s m. 0 \<le> n \<Longrightarrow> 0 \<le> s \<Longrightarrow> BAllocArray n s = Some m \<Longrightarrow> int (length m) = n * s"
    and "block_size * ChunkBuffer2_calc_blocks mtu num \<le> INT_MAX" and "0 \<le> mtu"
    and "run_events pb_step pb_legal es (pb_start pb) = Some c"
  shows "\<exists>q. pc_in c = pc_out c @ q \<and> (pc_send c = None \<longleftrightarrow> q = []) \<and>
    (int (length q) < num \<longrightarrow> pc_recv c \<noteq> None)"
proof -
  from pb.run_inv [OF assms(5)] pb_start_inv [OF assms(1-4)] obtain q where "pb_inv mtu num c q" by blast
  with pb_accepts [OF this] show ?thesis
    by (intro exI [of _ q]) (auto simp: pb_inv_def Let_def split: list.splits)
qed

theorem packet_buffer_fifo_witness:
  "\<exists>pb c q. PacketBuffer_Init (\<lambda>n s. Some (replicate (nat (n * s)) 0)) 4 4 1 = Some (Some ([PbRecv (Some 4)], pb)) \<and>
    run_events pb_step pb_legal [Produced [1, 2], Produced [3], Consumed] (pb_start pb) = Some c \<and>
    pc_in c = pc_out c @ q \<and> (pc_send c = None \<longleftrightarrow> q = [])"
proof -
  let ?a = "\<lambda>n s. Some (replicate (nat (n * s)) 0) :: bytes option"
  have "case PacketBuffer_Init ?a 4 4 1 of Some (Some (as, pb)) \<Rightarrow> as = [PbRecv (Some 4)] \<and>
     run_events pb_step pb_legal [Produced [1, 2], Produced [3], Consumed] (pb_start pb) \<noteq> None | _ \<Rightarrow> False"
    by code_simp
  then obtain pb c where pb: "PacketBuffer_Init ?a 4 4 1 = Some (Some ([PbRecv (Some 4)], pb))"
    "run_events pb_step pb_legal [Produced [1, 2], Produced [3], Consumed] (pb_start pb) = Some c"
    by (auto split: option.splits)
  have "\<exists>q. pc_in c = pc_out c @ q \<and> (pc_send c = None \<longleftrightarrow> q = []) \<and> (int (length q) < 1 \<longrightarrow> pc_recv c \<noteq> None)"
  proof (rule packet_buffer_fifo [OF pb(1) _ _ _ pb(2)])
    show "block_size * ChunkBuffer2_calc_blocks 4 1 \<le> INT_MAX" by code_simp
  qed (auto simp: zero_le_mult_iff)
  then obtain q where "pc_in c = pc_out c @ q" "pc_send c = None \<longleftrightarrow> q = []"
    by (elim exE conjE)
  then show ?thesis
    by (intro exI [of _ pb] exI [of _ c] exI [of _ q] conjI) (rule pb, rule pb, assumption+)
qed

text \<open>PacketBuffer handles every event its neighbours may produce without a failed assertion, a
  second request to a busy neighbour, or an access outside the buffer.\<close>

lemma packet_buffer_never_fails:
  assumes "PacketBuffer_Init BAllocArray mtu output_mtu num = Some (Some (acts, pb))"
    and "\<And>n s m. 0 \<le> n \<Longrightarrow> 0 \<le> s \<Longrightarrow> BAllocArray n s = Some m \<Longrightarrow> int (length m) = n * s"
    and "block_size * ChunkBuffer2_calc_blocks mtu num \<le> INT_MAX" and "0 \<le> mtu"
    and "run_events pb_step pb_legal es (pb_start pb) = None"
  shows "\<exists>es1 e es2 c. es = es1 @ e # es2 \<and>
    run_events pb_step pb_legal es1 (pb_start pb) = Some c \<and> \<not> pb_legal e c"
  using pb.run_total [of _ _ _ es] pb_start_inv [OF assms(1-4)] assms(5) by blast

section \<open>Jobs and interfaces\<close>

text \<open>C34. The job queue is a stack: jobs set one after the other run in the opposite order, before
  everything that was set earlier, and the rest of the queue is left as it was; the pointer
  structure of the list is followed and updated without touching a null pointer.\<close>

theorem jobs_run_lifo:
  assumes "pending_models g js" and "distinct ks" and "\<forall>k\<in>set ks. job_d_obj g k"
  shows "\<exists>g1 g2. set_jobs BPending_Set ks g = Some g1 \<and>
    execute_jobs BPendingGroup_ExecuteJob (length ks) g1 = Some (map (job_handler g) (rev ks), g2) \<and>
    pending_models g2 (filter (\<lambda>j. j \<notin> set ks) js)"
  by (rule bp.lifo [OF assms])

lemma blank_group: "\<exists>g :: 'h BPendingGroup. pending_models g [] \<and> (\<forall>p. \<not> job_d_obj g p)"
proof -
  let ?z = "\<lparr>pg_jobs = \<lparr>sl_first = None, sl_next = (\<lambda>_. None), sl_prev = (\<lambda>_. None)\<rparr>, pending_ctr = 0, pg_d_obj = False,
    job_handler = (\<lambda>_. undefined), job_pending = (\<lambda>_. False), job_d_obj = (\<lambda>_. False)\<rparr> :: 'h BPendingGroup"
  have "pending_models (BPendingGroup_Init ?z) []" by (rule BPendingGroup_Init_models) simp
  then show ?thesis by (intro exI [of _ "BPendingGroup_Init ?z"]) (simp add: BPendingGroup_Init_def)
qed

lemma fresh_interface:
  "\<exists>(i :: 'd PacketPassInterface) (g :: group). ppi_inv i (job_d_obj g) [] \<and> pending_models g [] \<and> ppi_state i = STATE_NONE \<and>
    ppi_mtu i = 5 \<and> ppi_done_handler i"
proof -
  let ?i = "\<lparr>ppi_mtu = 0, ppi_cancel_handler = False, ppi_done_handler = False, ppi_job_operation = 1, ppi_job_operation_data = None,
    ppi_job_operation_len = 0, ppi_job_requestcancel = 2, ppi_job_done = 3, ppi_state = STATE_NONE, ppi_cancel_requested = False\<rparr>
    :: 'd PacketPassInterface"
  from blank_group obtain g :: group where "pending_models g []" "\<forall>p. \<not> job_d_obj g p" by blast
  with PacketPassInterface_Init_inv [of g "[]" 5 ?i 0] show ?thesis by auto
qed

theorem jobs_run_lifo_witness:
  "\<exists>(g :: nat BPendingGroup) g1 g2. set_jobs BPending_Set [1, 2] g = Some g1 \<and>
    execute_jobs BPendingGroup_ExecuteJob 2 g1 = Some ([20, 10], g2)"
proof -
  from blank_group obtain g0 :: "nat BPendingGroup" where m: "pending_models g0 []" "\<forall>p. \<not> job_d_obj g0 p" by blast
  from BPending_Init_models [OF m(1), of 1 10] m(2) obtain g1 :: "nat BPendingGroup" where
    g1: "pending_models g1 []" "job_d_obj g1 1" "\<not> job_d_obj g1 2" "job_handler g1 1 = 10"
    by auto
  from BPending_Init_models [OF g1(1,3), of 20] g1 obtain g :: "nat BPendingGroup" where
    g: "pending_models g []" "job_d_obj g 1" "job_d_obj g 2" "job_handler g 1 = 10" "job_handler g 2 = 20"
    by auto
  have "distinct [1, 2 :: nat]" "\<forall>k\<in>set [1, 2 :: nat]. job_d_obj g k" using g by auto
  from jobs_run_lifo [OF g(1) this] g(4,5) show ?thesis by (auto simp: numeral_2_eq_2)
qed

text \<open>Whoever uses a PacketPassInterface and in whatever way, its operations go round in a fixed
  order: the sender requests, the provider is called, the provider finishes, the sender is told.
  From a state of the interface a run of calls that does not fail an assertion has this order.\<close>

lemma packet_pass_turns:
  assumes "if_run (\<lambda>r. PacketPassInterface_Sender_Send (fst r) (snd r)) PacketPassInterface_job_operation
      (\<lambda>_ :: unit. PacketPassInterface_Done) PacketPassInterface_job_done es s = Some s'"
    and "k < length es"
  shows "ev_index (es ! k) = (st_index (ppi_state (fst s)) + k) mod 4"
  by (rule ppi.run_order [OF assms])

text \<open>A legal packet given to an idle PacketPassInterface is accepted, and its job calls the
  provider without a failed assertion; when the provider is done the second job returns the interface
  to the idle state.  The other pending jobs are untouched in between.\<close>

lemma packet_pass_turn_completes:
  assumes "ppi_inv i (job_d_obj g) js" and "pending_models g js" and "ppi_state i = STATE_NONE"
    and "0 \<le> n" and "n \<le> ppi_mtu i" and "0 < n \<longrightarrow> data \<noteq> None" and "ppi_done_handler i"
  shows "\<exists>i1 g1 i2 g2 js2.
    if_run (\<lambda>r. PacketPassInterface_Sender_Send (fst r) (snd r)) PacketPassInterface_job_operation
      (\<lambda>_ :: unit. PacketPassInterface_Done) PacketPassInterface_job_done [Request (data, n), Start] (i, g) = Some (i1, g1) \<and>
    ppi_state i1 = STATE_BUSY \<and> pending_models g1 js \<and>
    if_run (\<lambda>r. PacketPassInterface_Sender_Send (fst r) (snd r)) PacketPassInterface_job_operation
      (\<lambda>_ :: unit. PacketPassInterface_Done) PacketPassInterface_job_done [Finish (), Complete] (i1, g1) = Some (i2, g2) \<and>
    ppi_state i2 = STATE_NONE \<and> ppi_inv i2 (job_d_obj g2) js2 \<and> pending_models g2 js2"
proof -
  have "ppi_req_ok (data, n) i" using assms(4-7) by (simp add: ppi_req_ok_def)
  from ppi.turn_request_start [OF assms(1-3) this] obtain i1 g1 where
    a: "if_run (\<lambda>r. PacketPassInterface_Sender_Send (fst r) (snd r)) PacketPassInterface_job_operation
      (\<lambda>_ :: unit. PacketPassInterface_Done) PacketPassInterface_job_done [Request (data, n), Start] (i, g) = Some (i1, g1)"
      "ppi_state i1 = STATE_BUSY" "ppi_inv i1 (job_d_obj g1) js" "pending_models g1 js" by blast
  with ppi.turn_finish_complete [OF a(3,4,2), of "()"] show ?thesis by blast
qed

section \<open>The TCP relay\<close>

lemma case_SomeD: "(case r of None \<Rightarrow> False | Some x \<Rightarrow> P x) \<Longrightarrow> \<exists>x. r = Some x \<and> P x"
  by (cases r) auto

text \<open>A connection, memory for a client and answers of lwIP, for the examples below.\<close>

definition ex_pcb :: tcp_pcb where
  "ex_pcb = \<lparr>pcb_held = True, pcb_err = False, pcb_recv = False, pcb_sent = False, pcb_delivered = [], pcb_recved = 0,
     pcb_written = [], pcb_acked = 0\<rparr>"

definition ex_client :: tcp_client where
  "ex_client = \<lparr>dead_client = True, tc_local_addr = BADDR_TYPE_NONE, tc_remote_addr = BADDR_TYPE_NONE, tc_pcb = ex_pcb,
     client_closed = True, tc_buf = [0, 0, 0, 0], buf_used = 9, socks_username = None, socks_client = new_socks_io, socks_up = True,
     socks_closed = True, socks_recv_buf = [0, 0, 0], socks_recv_buf_used = 5, socks_recv_buf_sent = 5, socks_recv_waiting = True,
     socks_recv_tcp_pending = 5\<rparr>"

definition ex_lwip :: lwip where
  "ex_lwip = \<lparr>lw_close = ERR_OK, lw_sndbuf = (\<lambda>_. 2), lw_write = (\<lambda>k. if k = 0 then ERR_OK else ERR_MEM), lw_output = ERR_OK\<rparr>"

definition ex_accept :: relay_event where
  "ex_accept = Accept [] \<lparr>ac_malloc = Some (7, ex_client), ac_concat_ok = True, ac_socks_ok = True,
     ac_local = BADDR_TYPE_IPV4 1 2, ac_remote = BADDR_TYPE_IPV4 3 4, ac_pcb = ex_pcb\<rparr>"

definition ex_up :: "relay_event list" where
  "ex_up = [ex_accept, Socks 7 ex_lwip (SocksEvent BSOCKSCLIENT_EVENT_UP), TcpReceive 7 ex_lwip [] (Some [1, 2, 3])]"

text \<open>C1. The relay loses, duplicates and reorders nothing: after any sequence of events, for every
  client, the bytes accepted from the device are the bytes sent to its SOCKS server followed by the
  content of its buffer, and while the device side is open and the SOCKS side is up the bytes received
  from the server are the bytes written to the device connection followed by the rest of the receive
  buffer.  What has been written is always a prefix of what has been received.\<close>

theorem relay_relays_in_order:
  assumes "run_events (relay_step pr user app) relay_legal es relay_start = Some w" and "clients w p = Some c"
  shows "pcb_delivered (tc_pcb c) = io_sent (socks_client c) @ take (nat (buf_used c)) (tc_buf c) \<and>
    prefix (pcb_written (tc_pcb c)) (io_received (socks_client c)) \<and>
    (\<not> client_closed c \<and> socks_up c \<longrightarrow> io_received (socks_client c) = pcb_written (tc_pcb c) @
       (if socks_recv_buf_used c = - 1 then []
        else drop (nat (socks_recv_buf_sent c)) (take (nat (socks_recv_buf_used c)) (socks_recv_buf c))))"
proof -
  have "relay_inv w" using relay.run_inv [OF assms(1)] relay_start_inv by blast
  then have "cl_inv c" using assms(2) by (simp add: relay_inv_def)
  then show ?thesis unfolding cl_inv_def cl_base_def cl_down_def pending_ok_def srb_rest_def by blast
qed

theorem relay_relays_in_order_witness:
  "\<exists>w c. run_events (relay_step (\<lambda>_. []) None False) relay_legal
      (ex_up @ [Socks 7 ex_lwip (SendDone 2), Socks 7 ex_lwip (RecvDone [4, 5, 6])]) relay_start = Some w \<and>
    clients w 7 = Some c \<and> io_sent (socks_client c) = [1, 2] \<and> pcb_written (tc_pcb c) = [4, 5] \<and>
    pcb_delivered (tc_pcb c) = [1, 2] @ take (nat (buf_used c)) (tc_buf c)"
proof -
  let ?es = "ex_up @ [Socks 7 ex_lwip (SendDone 2), Socks 7 ex_lwip (RecvDone [4, 5, 6])]"
  have "case run_events (relay_step (\<lambda>_. []) None False) relay_legal ?es relay_start of None \<Rightarrow> False
    | Some w \<Rightarrow> (case clients w 7 of None \<Rightarrow> False
      | Some c \<Rightarrow> io_sent (socks_client c) = [1, 2] \<and> pcb_written (tc_pcb c) = [4, 5])" by code_simp
  from case_SomeD [OF this] obtain w where w: "run_events (relay_step (\<lambda>_. []) None False) relay_legal ?es relay_start = Some w"
    "case clients w 7 of None \<Rightarrow> False | Some c \<Rightarrow> io_sent (socks_client c) = [1, 2] \<and> pcb_written (tc_pcb c) = [4, 5]"
    by (elim exE conjE)
  from case_SomeD [OF w(2)] obtain c where
    c: "clients w 7 = Some c" "io_sent (socks_client c) = [1, 2]" "pcb_written (tc_pcb c) = [4, 5]" by blast
  have "pcb_delivered (tc_pcb c) = [1, 2] @ take (nat (buf_used c)) (tc_buf c)"
    using relay_relays_in_order [OF w(1) c(1), THEN conjunct1] c(2) by (simp only:)
  with w(1) c show ?thesis by (intro exI [of _ w] exI [of _ c] conjI)
qed

text \<open>C6. The relay never fails: whatever lwIP and the SOCKS connections do, in any order and for any
  number of clients, no assertion fails, no freed client or closed connection is touched, no operation is
  started twice and no byte outside a buffer is accessed.  A run can only stop at an event the
  neighbours must not produce.\<close>

theorem relay_never_fails:
  assumes "run_events (relay_step pr user app) relay_legal es relay_start = None"
  shows "\<exists>es1 e es2 w. es = es1 @ e # es2 \<and>
    run_events (relay_step pr user app) relay_legal es1 relay_start = Some w \<and> \<not> relay_legal e w"
  using relay.run_total [OF relay_start_inv assms] .

theorem relay_never_fails_witness:
  "\<exists>es1 e es2 w. [Socks 7 ex_lwip (SendDone 2)] = es1 @ e # es2 \<and>
    run_events (relay_step (\<lambda>_. []) None False) relay_legal es1 relay_start = Some w \<and> \<not> relay_legal e w"
  by (rule relay_never_fails) (simp add: relay_start_def socks_can_def)




text \<open>C22. No client is forgotten: a client that is closed towards the device still has buffered data
  and a SOCKS connection that is being established or has a send operation outstanding; a client that
  is closed towards the SOCKS server has a device connection with unacknowledged data and the callback
  for it registered.  So somebody will call back for every client that is left.\<close>

theorem relay_half_closed_waits:
  assumes "run_events (relay_step pr user app) relay_legal es relay_start = Some w" and "clients w p = Some c"
  shows "(client_closed c \<longrightarrow> io_open (socks_client c) \<and> 0 < buf_used c \<and> (socks_up c \<longrightarrow> io_sending (socks_client c) \<noteq> None)) \<and>
    (socks_closed c \<longrightarrow> pcb_held (tc_pcb c) \<and> pcb_sent (tc_pcb c) \<and>
       pcb_acked (tc_pcb c) < int (length (pcb_written (tc_pcb c))))"
proof -
  have "relay_inv w" using relay.run_inv [OF assms(1)] relay_start_inv by blast
  then have "cl_inv c" using assms(2) by (simp add: relay_inv_def)
  from half_closed_waits [OF this] show ?thesis by blast
qed

theorem relay_half_closed_waits_witness:
  "\<exists>w c. run_events (relay_step (\<lambda>_. []) None False) relay_legal (ex_up @ [TcpError 7 ex_lwip]) relay_start = Some w \<and>
    clients w 7 = Some c \<and> client_closed c \<and> 0 < buf_used c"
proof -
  have "case run_events (relay_step (\<lambda>_. []) None False) relay_legal (ex_up @ [TcpError 7 ex_lwip]) relay_start of None \<Rightarrow> False
    | Some w \<Rightarrow> (case clients w 7 of None \<Rightarrow> False | Some c \<Rightarrow> client_closed c)" by code_simp
  from case_SomeD [OF this] obtain w where
    w: "run_events (relay_step (\<lambda>_. []) None False) relay_legal (ex_up @ [TcpError 7 ex_lwip]) relay_start = Some w"
      "case clients w 7 of None \<Rightarrow> False | Some c \<Rightarrow> client_closed c" by (elim exE conjE)
  from case_SomeD [OF w(2)] obtain c where c: "clients w 7 = Some c" "client_closed c" by blast
  from relay_half_closed_waits [OF w(1) c(1)] c have "0 < buf_used c" by blast
  with w(1) c show ?thesis by (intro exI [of _ w] exI [of _ c] conjI)
qed

text \<open>C21. A graceful close loses nothing.  After the device side is closed, a completed send frees the
  client exactly when it was the last of the accepted bytes; after the SOCKS side is closed and all its
  data is queued, an acknowledgement ends the client exactly when it covers the last received byte.\<close>

theorem relay_graceful_close:
  assumes "run_events (relay_step pr user app) relay_legal es relay_start = Some w" and "clients w p = Some c"
  shows "(client_closed c \<and> socks_can p (SendDone n) w \<longrightarrow> (\<exists>w'. socks_do lw p (SendDone n) w = Some w' \<and>
      (clients w' p = None \<longleftrightarrow> int (length (io_sent (socks_client c))) + n = int (length (pcb_delivered (tc_pcb c)))))) \<and>
    (socks_closed c \<and> socks_recv_buf_used c = - 1 \<and> relay_legal (TcpAcked p lw script n) w \<longrightarrow>
      (\<exists>w'. relay_step pr user app (TcpAcked p lw script n) w = Some w' \<and>
        (gone p w' \<longleftrightarrow> pcb_written (tc_pcb c) = io_received (socks_client c) \<and>
           pcb_acked (tc_pcb c) + n = int (length (io_received (socks_client c))))))"
proof -
  have i: "relay_inv w" using relay.run_inv [OF assms(1)] relay_start_inv by blast
  from socks_do_settles [OF relay_inv_client(2,1) [OF i assms(2)], of "SendDone n" lw] flushed_before_free [OF i assms(2)]
    relay.step_ok [OF i, of "TcpAcked p lw script n" pr user app] acked_before_free [OF i assms(2)]
  show ?thesis by blast
qed

theorem relay_graceful_close_witness:
  "\<exists>w c w'. run_events (relay_step (\<lambda>_. []) None False) relay_legal (ex_up @ [TcpError 7 ex_lwip]) relay_start = Some w \<and>
    clients w 7 = Some c \<and> socks_do ex_lwip 7 (SendDone 2) w = Some w' \<and>
    (clients w' 7 = None \<longleftrightarrow> int (length (io_sent (socks_client c))) + 2 = int (length (pcb_delivered (tc_pcb c))))"
proof -
  have "case run_events (relay_step (\<lambda>_. []) None False) relay_legal (ex_up @ [TcpError 7 ex_lwip]) relay_start of None \<Rightarrow> False
    | Some w \<Rightarrow> (case clients w 7 of None \<Rightarrow> False | Some c \<Rightarrow> client_closed c \<and> socks_can 7 (SendDone 2) w)" by code_simp
  from case_SomeD [OF this] obtain w where
    w: "run_events (relay_step (\<lambda>_. []) None False) relay_legal (ex_up @ [TcpError 7 ex_lwip]) relay_start = Some w"
      "case clients w 7 of None \<Rightarrow> False | Some c \<Rightarrow> client_closed c \<and> socks_can 7 (SendDone 2) w" by (elim exE conjE)
  from case_SomeD [OF w(2)] obtain c where c: "clients w 7 = Some c" "client_closed c" "socks_can 7 (SendDone 2) w" by blast
  from mp [OF relay_graceful_close [OF w(1) c(1), of 2 ex_lwip, THEN conjunct1] conjI [OF c(2,3)]] obtain w' where
    w': "socks_do ex_lwip 7 (SendDone 2) w = Some w'"
    "clients w' 7 = None \<longleftrightarrow> int (length (io_sent (socks_client c))) + 2 = int (length (pcb_delivered (tc_pcb c)))" by (elim exE conjE)
  show ?thesis by (intro exI [of _ w] exI [of _ c] exI [of _ w'] conjI w(1) c(1) w')
qed



text \<open>With the option to append the source address to the user name, all SOCKS connections share one
  user name: the connection accepted last determines the name in the authentication data that earlier
  connections, which may still have to authenticate, refer to.\<close>

lemma relay_username_shared:
  assumes "ac_malloc a = Some (p, mem)" and "ac_concat_ok a" and "ac_socks_ok a" and "new_pcb (ac_pcb a)"
    and "run_events (relay_step pr (Some u) True) relay_legal es relay_start = Some w" and "relay_legal (Accept script a) w"
  shows "\<exists>err w'. listener_accept_func pr (Some u) True script a w = Some (err, w') \<and>
    relay_username w' = Some (u @ ''@'' @ pr (ac_remote a)) \<and> (\<forall>q. q \<noteq> p \<longrightarrow> clients w' q = clients w q)"
proof -
  have i: "relay_inv w" using relay.run_inv [OF assms(5)] relay_start_inv by blast
  from accepted_username [OF i assms(6,1-3)] show ?thesis by blast
qed

section \<open>The framed channel\<close>

text \<open>C3. The framed channel delivers: whatever packets are written and however their bytes are split on the way,
  what the decoder has put out is always a beginning of the sequence of packets the flow accepted, with
  no error; and when the buffer and the stream are empty and the decoder is idle, it is all of them.\<close>

theorem channel_delivers:
  assumes "PacketProtoFlow_Init BAllocArray mtu num output_mtu = Some (Some k)"
    and "\<And>n s m. 0 \<le> n \<Longrightarrow> 0 \<le> s \<Longrightarrow> BAllocArray n s = Some m \<Longrightarrow> int (length m) = n * s"
    and "block_size * ChunkBuffer2_calc_blocks (2 + mtu) num \<le> INT_MAX"
    and "PacketStreamSender_Init output_mtu = Some s"
    and "PacketProtoDecoder_Init malloc mtu = Some (acts, d)"
    and "\<And>n b. 0 \<le> n \<Longrightarrow> malloc n = Some b \<Longrightarrow> int (length b) = n"
    and "run_events ch_step ch_legal es (ch_start k s d) = Some c"
  shows "\<not> dc_err (ch_decoder c) \<and> prefix (dc_out (ch_decoder c)) (snd (ch_flow c)) \<and>
    (pc_send (pf_buffer (fst (ch_flow c))) = None \<and> ch_net c = [] \<and> \<not> dc_sending (ch_decoder c) \<longrightarrow>
       dc_out (ch_decoder c) = snd (ch_flow c))"
  using ch_delivers [OF ch.run_inv [OF assms(7) ch_start_inv [OF assms(1-6)]]] .

lemma case_Some2D: "(case x of None \<Rightarrow> False | Some y \<Rightarrow> case y of None \<Rightarrow> False | Some a \<Rightarrow> P a) \<Longrightarrow> \<exists>a. x = Some (Some a) \<and> P a"
  by (auto split: option.splits)

lemma case_Some_pairD: "(case x of None \<Rightarrow> False | Some y \<Rightarrow> case y of (a, b) \<Rightarrow> P a b) \<Longrightarrow> \<exists>a b. x = Some (a, b) \<and> P a b"
  by (auto split: option.splits)

lemma ex_channel:
  "\<exists>k s d. PacketProtoFlow_Init (\<lambda>n s. Some (replicate (nat (n * s)) 0)) 3 1 5 = Some (Some k) \<and>
    PacketStreamSender_Init 5 = Some s \<and>
    PacketProtoDecoder_Init (\<lambda>n. Some (replicate (nat n) 0)) 3 = Some ([DecRecv 0 5], d) \<and>
    (case run_events ch_step ch_legal [ChWrite [7], ChPass, ChTake 1, ChTake 2, ChArrive 2, ChArrive 1, ChHandled] (ch_start k s d) of
       None \<Rightarrow> False
     | Some c \<Rightarrow> snd (ch_flow c) = [[7]] \<and> pc_send (pf_buffer (fst (ch_flow c))) = None \<and> ch_net c = [] \<and>
         \<not> dc_sending (ch_decoder c))"
proof -
  let ?a = "\<lambda>n s. Some (replicate (nat (n * s)) 0) :: bytes option" and ?m = "\<lambda>n. Some (replicate (nat n) 0) :: bytes option"
  have "case PacketProtoFlow_Init ?a 3 1 5 of None \<Rightarrow> False | Some y \<Rightarrow> case y of None \<Rightarrow> False | Some k \<Rightarrow> (case PacketStreamSender_Init 5 of None \<Rightarrow> False | Some s \<Rightarrow>
      (case PacketProtoDecoder_Init ?m 3 of None \<Rightarrow> False | Some (acts, d) \<Rightarrow> acts = [DecRecv 0 5] \<and>
        (case run_events ch_step ch_legal [ChWrite [7], ChPass, ChTake 1, ChTake 2, ChArrive 2, ChArrive 1, ChHandled] (ch_start k s d) of
           None \<Rightarrow> False
         | Some c \<Rightarrow> snd (ch_flow c) = [[7]] \<and> pc_send (pf_buffer (fst (ch_flow c))) = None \<and> ch_net c = [] \<and>
             \<not> dc_sending (ch_decoder c))))" by code_simp
  from case_Some2D [OF this] obtain k where k: "PacketProtoFlow_Init ?a 3 1 5 = Some (Some k)" and
    r: "case PacketStreamSender_Init 5 of None \<Rightarrow> False | Some s \<Rightarrow>
      (case PacketProtoDecoder_Init ?m 3 of None \<Rightarrow> False | Some (acts, d) \<Rightarrow> acts = [DecRecv 0 5] \<and>
        (case run_events ch_step ch_legal [ChWrite [7], ChPass, ChTake 1, ChTake 2, ChArrive 2, ChArrive 1, ChHandled] (ch_start k s d) of
           None \<Rightarrow> False
         | Some c \<Rightarrow> snd (ch_flow c) = [[7]] \<and> pc_send (pf_buffer (fst (ch_flow c))) = None \<and> ch_net c = [] \<and>
             \<not> dc_sending (ch_decoder c)))" by (elim exE conjE)
  from case_SomeD [OF r] k show ?thesis by (elim exE conjE, drule_tac case_Some_pairD, elim exE conjE) (intro exI conjI, assumption+, simp_all only:)
qed

theorem channel_delivers_witness:
  "\<exists>k s d c. PacketProtoFlow_Init (\<lambda>n s. Some (replicate (nat (n * s)) 0)) 3 1 5 = Some (Some k) \<and>
    run_events ch_step ch_legal [ChWrite [7], ChPass, ChTake 1, ChTake 2, ChArrive 2, ChArrive 1, ChHandled] (ch_start k s d) = Some c \<and>
    dc_out (ch_decoder c) = [[7]]"
proof -
  from ex_channel obtain k s d where i: "PacketProtoFlow_Init (\<lambda>n s. Some (replicate (nat (n * s)) 0)) 3 1 5 = Some (Some k)"
    "PacketStreamSender_Init 5 = Some s" "PacketProtoDecoder_Init (\<lambda>n. Some (replicate (nat n) 0)) 3 = Some ([DecRecv 0 5], d)"
    "case run_events ch_step ch_legal [ChWrite [7], ChPass, ChTake 1, ChTake 2, ChArrive 2, ChArrive 1, ChHandled] (ch_start k s d) of
       None \<Rightarrow> False
     | Some c \<Rightarrow> snd (ch_flow c) = [[7]] \<and> pc_send (pf_buffer (fst (ch_flow c))) = None \<and> ch_net c = [] \<and>
         \<not> dc_sending (ch_decoder c)" by (elim exE conjE)
  from case_SomeD [OF i(4)] obtain c where
    c: "run_events ch_step ch_legal [ChWrite [7], ChPass, ChTake 1, ChTake 2, ChArrive 2, ChArrive 1, ChHandled] (ch_start k s d) = Some c"
      "snd (ch_flow c) = [[7]]" "pc_send (pf_buffer (fst (ch_flow c))) = None" "ch_net c = []" "\<not> dc_sending (ch_decoder c)"
    by (elim exE conjE)
  have b: "block_size * ChunkBuffer2_calc_blocks (2 + 3) 1 \<le> INT_MAX" by code_simp
  have "dc_out (ch_decoder c) = snd (ch_flow c)"
    by (rule channel_delivers [OF i(1) _ b i(2,3) _ c(1), THEN conjunct2, THEN conjunct2, THEN mp])
      (auto simp: zero_le_mult_iff c)
  then have "dc_out (ch_decoder c) = [[7]]" by (simp only: c(2))
  with i(1) c(1) show ?thesis by (intro exI [of _ k] exI [of _ s] exI [of _ d] exI [of _ c] conjI)
qed

text \<open>C5. Everything written to the channel arrives: from every state it can get into, the events of the channel
  itself (a packet handed to the sender, bytes taken by the stream, bytes arriving, a packet handled)
  lead to a state in which the decoder has put out all accepted packets, and there is no infinite
  sequence of them: each run is bounded by the work left.\<close>

theorem channel_drains:
  assumes "PacketProtoFlow_Init BAllocArray mtu num output_mtu = Some (Some k)"
    and "\<And>n s m. 0 \<le> n \<Longrightarrow> 0 \<le> s \<Longrightarrow> BAllocArray n s = Some m \<Longrightarrow> int (length m) = n * s"
    and "block_size * ChunkBuffer2_calc_blocks (2 + mtu) num \<le> INT_MAX"
    and "PacketStreamSender_Init output_mtu = Some s"
    and "PacketProtoDecoder_Init malloc mtu = Some (acts, d)"
    and "\<And>n b. 0 \<le> n \<Longrightarrow> malloc n = Some b \<Longrightarrow> int (length b) = n"
    and "run_events ch_step ch_legal es (ch_start k s d) = Some c"
  shows "(\<exists>es' c'. run_events ch_step ch_moves es' c = Some c' \<and> dc_out (ch_decoder c') = snd (ch_flow c)) \<and>
    (\<forall>es' c'. run_events ch_step ch_moves es' c = Some c' \<longrightarrow> int (length es') \<le> ch_work c)"
proof -
  have i: "ch_inv mtu num c" by (rule ch.run_inv [OF assms(7) ch_start_inv [OF assms(1-6)]])
  have "int (length es') \<le> ch_work c" if r: "run_events ch_step ch_moves es' c = Some c'" for es' c'
    using chd.bounded [OF r conjI [OF i refl]] ch_work_nonneg [of mtu num c'] chd.run_inv [OF r conjI [OF i refl]] by linarith
  with chd.drains [OF conjI [OF i refl]] show ?thesis by blast
qed

theorem channel_drains_witness:
  "\<exists>k s d c es' c'. PacketProtoFlow_Init (\<lambda>n s. Some (replicate (nat (n * s)) 0)) 3 1 5 = Some (Some k) \<and>
    run_events ch_step ch_legal [ChWrite [7], ChPass, ChTake 1, ChTake 2, ChArrive 2, ChArrive 1, ChHandled] (ch_start k s d) = Some c \<and>
    run_events ch_step ch_moves es' c = Some c' \<and> dc_out (ch_decoder c') = snd (ch_flow c)"
proof -
  from ex_channel obtain k s d where i: "PacketProtoFlow_Init (\<lambda>n s. Some (replicate (nat (n * s)) 0)) 3 1 5 = Some (Some k)"
    "PacketStreamSender_Init 5 = Some s" "PacketProtoDecoder_Init (\<lambda>n. Some (replicate (nat n) 0)) 3 = Some ([DecRecv 0 5], d)"
    "case run_events ch_step ch_legal [ChWrite [7], ChPass, ChTake 1, ChTake 2, ChArrive 2, ChArrive 1, ChHandled] (ch_start k s d) of
       None \<Rightarrow> False
     | Some c \<Rightarrow> snd (ch_flow c) = [[7]] \<and> pc_send (pf_buffer (fst (ch_flow c))) = None \<and> ch_net c = [] \<and>
         \<not> dc_sending (ch_decoder c)" by (elim exE conjE)
  from case_SomeD [OF i(4)] obtain c where
    c: "run_events ch_step ch_legal [ChWrite [7], ChPass, ChTake 1, ChTake 2, ChArrive 2, ChArrive 1, ChHandled] (ch_start k s d) = Some c"
    by (elim exE conjE)
  have b: "block_size * ChunkBuffer2_calc_blocks (2 + 3) 1 \<le> INT_MAX" by code_simp
  have "\<exists>es' c'. run_events ch_step ch_moves es' c = Some c' \<and> dc_out (ch_decoder c') = snd (ch_flow c)"
    by (rule channel_drains [OF i(1) _ b i(2,3) _ c, THEN conjunct1]) (auto simp: zero_le_mult_iff)
  with i(1) c show ?thesis by (elim exE conjE) (intro exI conjI)
qed

section \<open>SOCKS client\<close>

text \<open>C7. The SOCKS5 handshake: when the client reports that it is up, it has sent exactly a greeting that offers
  the configured methods, the credentials if the server chose them, and the connect request for the
  destination, and the server has accepted each of them, with a complete reply; it has reported
  nothing else before.\<close>

theorem socks_up_means_accepted:
  assumes "BSocksClient_Init ok server ais dest = Some (Some cl)" and "BAddr_wf dest" and "realloc_ok BRealloc"
    and "run_events (sc_step BRealloc) sc_legal es (sc_start cl) = Some g"
    and "\<not> sc_failed g" and "sc_state (sg_cl g) = STATE_UP"
  shows "\<exists>s d rsv atyp addr. sc_authenticated (sc_auth_info (sg_cl g)) s d \<and>
    sg_sent g = s @ [request_msg (sc_dest_addr (sg_cl g))] \<and> sg_rcvd g = d @ [5, 0, rsv, atyp] @ addr \<and>
    atyp \<in> {SOCKS_ATYP_IPV4, SOCKS_ATYP_IPV6} \<and> length addr = reply_addr_len atyp \<and>
    sg_events g = [BSOCKSCLIENT_EVENT_UP]"
  using sc_up_talk [OF conjunct2 [OF sc.run_inv [OF assms(4) conjI [OF assms(3) sc_start_inv [OF assms(1,2)]]]] assms(5,6)] .

definition ex_realloc :: realloc where
  "ex_realloc = (\<lambda>_ n. Some (replicate (nat n) 0))"

lemma ex_realloc_ok: "realloc_ok ex_realloc"
  by (simp add: realloc_ok_def ex_realloc_def)

text \<open>A handshake without authentication, the answers arriving in pieces.\<close>

definition ex_handshake :: "sc_env list" where
  "ex_handshake = [Connected False True, sc_env.SendDone, sc_env.RecvDone [5], sc_env.RecvDone [0], sc_env.SendDone,
     sc_env.RecvDone [5, 0, 0, 1], sc_env.RecvDone [9, 9, 9, 9, 0, 80]]"

definition ex_server :: BAddr where
  "ex_server = BADDR_TYPE_IPV4 0x0100007F 0x3804"

lemma ex_socks:
  "\<exists>cl. BSocksClient_Init True ex_server [BSocksClient_auth_none] ex_server = Some (Some cl) \<and>
    (case run_events (sc_step ex_realloc) sc_legal ex_handshake (sc_start cl) of None \<Rightarrow> False
     | Some g \<Rightarrow> \<not> sc_failed g \<and> sc_state (sg_cl g) = STATE_UP)"
proof (rule case_Some2D)
  show "case BSocksClient_Init True ex_server [BSocksClient_auth_none] ex_server of None \<Rightarrow> False
    | Some y \<Rightarrow> case y of None \<Rightarrow> False
      | Some cl \<Rightarrow> (case run_events (sc_step ex_realloc) sc_legal ex_handshake (sc_start cl) of None \<Rightarrow> False
          | Some g \<Rightarrow> \<not> sc_failed g \<and> sc_state (sg_cl g) = STATE_UP)" by code_simp
qed

lemma ex_server_wf: "BAddr_wf ex_server"
  by (simp add: ex_server_def)

theorem socks_up_means_accepted_witness:
  "\<exists>cl g s d rsv atyp addr. BSocksClient_Init True ex_server [BSocksClient_auth_none] ex_server = Some (Some cl) \<and>
    run_events (sc_step ex_realloc) sc_legal ex_handshake (sc_start cl) = Some g \<and>
    sc_authenticated (sc_auth_info (sg_cl g)) s d \<and> sg_rcvd g = d @ [5, 0, rsv, atyp] @ addr \<and>
    sg_events g = [BSOCKSCLIENT_EVENT_UP]"
proof -
  from ex_socks obtain cl where cl: "BSocksClient_Init True ex_server [BSocksClient_auth_none] ex_server = Some (Some cl)"
    "case run_events (sc_step ex_realloc) sc_legal ex_handshake (sc_start cl) of None \<Rightarrow> False
     | Some g \<Rightarrow> \<not> sc_failed g \<and> sc_state (sg_cl g) = STATE_UP" by (elim exE conjE)
  from case_SomeD [OF cl(2)] obtain g where g: "run_events (sc_step ex_realloc) sc_legal ex_handshake (sc_start cl) = Some g"
    "\<not> sc_failed g" "sc_state (sg_cl g) = STATE_UP" by (elim exE conjE)
  from socks_up_means_accepted [OF cl(1) ex_server_wf ex_realloc_ok g] cl(1) g(1) show ?thesis
    by (elim exE conjE) (intro exI conjI)
qed

text \<open>C30. The SOCKS client survives every server: whatever bytes arrive, in whatever pieces, and whenever the
  connection breaks, no assertion fails and no byte outside the control buffer is touched; a run stops
  only at an event its neighbours must not produce.\<close>

theorem socks_client_never_fails:
  assumes "BSocksClient_Init ok server ais dest = Some (Some cl)" and "BAddr_wf dest" and "realloc_ok BRealloc"
    and "run_events (sc_step BRealloc) sc_legal es (sc_start cl) = None"
  shows "\<exists>es1 e es2 g. es = es1 @ e # es2 \<and> run_events (sc_step BRealloc) sc_legal es1 (sc_start cl) = Some g \<and> \<not> sc_legal e g"
  using sc.run_total [OF conjI [OF assms(3) sc_start_inv [OF assms(1,2)]] assms(4)] .

theorem socks_client_never_fails_witness:
  "\<exists>cl es1 e es2 g. BSocksClient_Init True ex_server [BSocksClient_auth_none] ex_server = Some (Some cl) \<and>
    [sc_env.SendDone] = es1 @ e # es2 \<and> run_events (sc_step ex_realloc) sc_legal es1 (sc_start cl) = Some g \<and> \<not> sc_legal e g"
proof -
  from ex_socks obtain cl where cl: "BSocksClient_Init True ex_server [BSocksClient_auth_none] ex_server = Some (Some cl)" by blast
  have "run_events (sc_step ex_realloc) sc_legal [sc_env.SendDone] (sc_start cl) = None" by (simp add: sc_start_def)
  from socks_client_never_fails [OF cl ex_server_wf ex_realloc_ok this] cl show ?thesis by (elim exE conjE) (intro exI conjI)
qed

text \<open>C31. The SOCKS client does not get stuck and does not leak: unless it has reported an error or is up, it is
  connecting or has a send or receive operation outstanding; and at any time it can be freed, which
  releases the connector, the connection, both interfaces, the sender and the control buffer.\<close>

theorem socks_client_not_stuck:
  assumes "BSocksClient_Init ok server ais dest = Some (Some cl)" and "BAddr_wf dest" and "realloc_ok BRealloc"
    and "run_events (sc_step BRealloc) sc_legal es (sc_start cl) = Some g"
  shows "(sc_failed g \<or> sc_state (sg_cl g) = STATE_UP \<or> sc_state (sg_cl g) = STATE_CONNECTING \<or> sg_send g \<noteq> None \<or> sg_recv g \<noteq> None) \<and>
    (\<exists>cl'. BSocksClient_Free (sg_cl g) = Some cl' \<and> \<not> sc_connector cl' \<and> \<not> sc_con cl' \<and>
      \<not> sc_recv_async cl' \<and> \<not> sc_send_async cl' \<and> \<not> sc_send_sender cl' \<and> sc_buffer cl' = None)"
proof -
  have i: "sc_inv g" using sc.run_inv [OF assms(4) conjI [OF assms(3) sc_start_inv [OF assms(1,2)]]] by blast
  from sc_free [OF i] sc_not_stuck [OF i] show ?thesis by blast
qed

theorem socks_client_not_stuck_witness:
  "\<exists>cl cl'. BSocksClient_Init True ex_server [BSocksClient_auth_none] ex_server = Some (Some cl) \<and>
    BSocksClient_Free (sg_cl (sc_start cl)) = Some cl' \<and> \<not> sc_connector cl'"
proof -
  from ex_socks obtain cl where cl: "BSocksClient_Init True ex_server [BSocksClient_auth_none] ex_server = Some (Some cl)" by blast
  have "run_events (sc_step ex_realloc) sc_legal [] (sc_start cl) = Some (sc_start cl)" by simp
  from socks_client_not_stuck [OF cl ex_server_wf ex_realloc_ok this] cl show ?thesis by blast
qed

section \<open>Fair queue\<close>

text \<open>C19. The fair queue serves the flow that is furthest behind: in every state it can get into, a flow that is
  being sent has a virtual time no greater than that of any waiting flow, the waiting flows are in the
  order of their times, and it never idles while a flow is waiting (unless it is being freed).\<close>

theorem fair_queue_serves_least:
  assumes "PacketPassFairQueue_Init mtu can use w store = Some (Some m0)"
    and "run_events fq_step fq_legal es (m0, []) = Some (m, as)"
  shows "fq_sorted m (fq_queued_tree m) \<and>
    (\<forall>s f. fq_sending_flow m = Some s \<and> f \<in> set (fq_queued_tree m) \<longrightarrow> fq_time m s \<le> fq_time m f) \<and>
    (\<not> fq_freeing m \<and> fq_sending_flow m = None \<and> \<not> fq_schedule_job m \<longrightarrow> fq_queued_tree m = [])"
proof -
  have "fq_inv m" using fq.run_inv [OF assms(2)] fq_Init_inv [OF assms(1)] by simp
  then show ?thesis unfolding fq_inv_def by blast
qed

text \<open>Two flows that both want to send.\<close>

definition ex_flows :: "ptr \<Rightarrow> fq_flow" where
  "ex_flows = (\<lambda>_. \<lparr>fl_time = 0, fl_is_queued = False, fl_data = 0, fl_data_len = 0, fl_handler_busy = False\<rparr>)"

definition ex_traffic :: "fq_event list" where
  "ex_traffic = [FlowInit 1, FlowInit 2, FlowSend 1 11 100, FlowSend 2 12 100]"

lemma ex_queue:
  "\<exists>m0. PacketPassFairQueue_Init 1500 False False 1 ex_flows = Some (Some m0) \<and>
    (case run_events fq_step fq_legal ex_traffic (m0, []) of None \<Rightarrow> False
     | Some y \<Rightarrow> (case y of (m, as) \<Rightarrow> fq_sending_flow m = Some 1 \<and> fq_queued_tree m = [2]))"
proof (rule case_Some2D)
  show "case PacketPassFairQueue_Init 1500 False False 1 ex_flows of None \<Rightarrow> False
    | Some y \<Rightarrow> case y of None \<Rightarrow> False
      | Some m0 \<Rightarrow> (case run_events fq_step fq_legal ex_traffic (m0, []) of None \<Rightarrow> False
          | Some y \<Rightarrow> (case y of (m, as) \<Rightarrow> fq_sending_flow m = Some 1 \<and> fq_queued_tree m = [2]))" by code_simp
qed

theorem fair_queue_serves_least_witness:
  "\<exists>m0 m as. PacketPassFairQueue_Init 1500 False False 1 ex_flows = Some (Some m0) \<and>
    run_events fq_step fq_legal ex_traffic (m0, []) = Some (m, as) \<and> fq_sending_flow m = Some 1 \<and> fq_time m 1 \<le> fq_time m 2"
proof -
  from ex_queue obtain m0 where m0: "PacketPassFairQueue_Init 1500 False False 1 ex_flows = Some (Some m0)"
    "case run_events fq_step fq_legal ex_traffic (m0, []) of None \<Rightarrow> False
     | Some y \<Rightarrow> (case y of (m, as) \<Rightarrow> fq_sending_flow m = Some 1 \<and> fq_queued_tree m = [2])" by (elim exE conjE)
  from case_Some_pairD [OF m0(2)] obtain m as where m: "run_events fq_step fq_legal ex_traffic (m0, []) = Some (m, as)"
    "fq_sending_flow m = Some 1" "fq_queued_tree m = [2]" by (elim exE conjE)
  have "2 \<in> set (fq_queued_tree m)" using m(3) by simp
  with fair_queue_serves_least [OF m0(1) m(1)] m(2) have "fq_time m 1 \<le> fq_time m 2" by blast
  with m0(1) m show ?thesis by (intro exI conjI)
qed



text \<open>The fair queue handles every event its flows and its output may produce, in any order, including
  the creation and removal of flows, without a failed assertion.\<close>

lemma fair_queue_never_fails:
  assumes "PacketPassFairQueue_Init mtu can use w store = Some (Some m0)"
    and "run_events fq_step fq_legal es (m0, []) = None"
  shows "\<exists>es1 e es2 c. es = es1 @ e # es2 \<and> run_events fq_step fq_legal es1 (m0, []) = Some c \<and> \<not> fq_legal e c"
  using fq.run_total [OF _ assms(2)] fq_Init_inv [OF assms(1)] by simp

section \<open>Udpgw client\<close>

lemma ug_reach:
  assumes "UdpGwClient_Init store cstore k udp_mtu max_connections send_buffer_size = Some (Some g0)"
    and "run_events ug_step ug_legal es (g0, []) = Some (g, as)"
  shows "ug_inv g" and "ug_inv g0"
proof -
  from assms(1) have a: "0 \<le> udp_mtu" "0 \<le> udpgw_compute_mtu udp_mtu" "udpgw_compute_mtu udp_mtu \<le> PACKETPROTO_MAXPAYLOAD"
    "0 < max_connections" "0 < send_buffer_size" by (auto simp: UdpGwClient_Init_def split: Option.bind_splits)
  from UdpGwClient_Init_inv [OF a, of store cstore k] assms(1) show i: "ug_inv g0" by auto
  show "ug_inv g" using ug.run_inv [OF assms(2)] i by simp
qed




text \<open>C26. Connection ids are unique and bounded: a new connection gets an id below the maximum that no other
  connection has, the search for it always ends, and the tables by id and by addresses contain exactly
  the connections of the list.\<close>

theorem udpgw_new_connection:
  assumes "UdpGwClient_Init store cstore k udp_mtu max_connections send_buffer_size = Some (Some g0)"
    and "run_events ug_step ug_legal es (g0, []) = Some (g, as)"
    and "ug_num_connections g < ug_max_connections g"
  shows "(\<exists>m. find_unused_conid g = Some (word_of_int m, g\<lparr>ug_next_conid := m\<rparr>) \<and> 0 \<le> m \<and> m < ug_max_connections g \<and>
      ug_by_conid g (word_of_int m) = None) \<and>
    (\<forall>c p. ug_by_conid g c = Some p \<longleftrightarrow> p \<in> set (ug_connections_list g) \<and> co_conid (ug_con g p) = c) \<and>
    (\<forall>a p. ug_by_conaddr g a = Some p \<longleftrightarrow> p \<in> set (ug_connections_list g) \<and> co_conaddr (ug_con g p) = a)"
proof -
  have t: "ug_tables g" "ug_sizes g" using ug_reach(1) [OF assms(1,2)] by (auto simp: ug_inv_def)
  from find_unused_conid_ok [OF t assms(3)] t(1) show ?thesis unfolding ug_tables_def by blast
qed

text \<open>C27. What the server sends is checked: a message is either dropped or delivered to an existing connection, the
  one whose id it carries, with the addresses of that connection and a payload that is the end of the
  message and fits the datagram size.\<close>

theorem udpgw_receives_known:
  assumes "UdpGwClient_Init store cstore k udp_mtu max_connections send_buffer_size = Some (Some g0)"
    and "run_events ug_step ug_legal es (g0, []) = Some (g, as)"
    and "ug_have_server g" and "int (length data) \<le> ug_udpgw_mtu g"
  shows "\<exists>acts g'. recv_interface_handler_send data g = Some (acts, g') \<and>
    (acts = [UgAccept] \<and> g' = g \<or>
     (\<exists>p payload. acts = [UgAccept, UgReceived (local_addr (co_conaddr (ug_con g p))) (remote_addr (co_conaddr (ug_con g p))) payload] \<and>
        p \<in> set (ug_connections_list g) \<and> co_conid (ug_con g p) = le16_of (take 2 (drop 1 data)) \<and>
        int (length payload) \<le> ug_udp_mtu g \<and> suffix payload data))"
  using recv_ok [OF ug_reach(1) [OF assms(1,2)] assms(3,4)] by blast

text \<open>C28. The udpgw client never fails, whatever datagrams come from the device and whatever the server sends, and
  at any time it can be freed, which empties its tables, its queue and its timers.\<close>

theorem udpgw_never_fails:
  assumes "UdpGwClient_Init store cstore k udp_mtu max_connections send_buffer_size = Some (Some g0)"
  shows "(run_events ug_step ug_legal es (g0, []) = None \<longrightarrow>
      (\<exists>es1 e es2 c. es = es1 @ e # es2 \<and> run_events ug_step ug_legal es1 (g0, []) = Some c \<and> \<not> ug_legal e c)) \<and>
    (\<forall>g as. run_events ug_step ug_legal es (g0, []) = Some (g, as) \<longrightarrow>
      (\<exists>g'. UdpGwClient_Free g = Some g' \<and> ug_connections_list g' = [] \<and> fq_flows_list (ug_send_queue g') = [] \<and>
        \<not> fq_schedule_job (ug_send_queue g') \<and> \<not> im_timer (ug_send_monitor g') \<and> ug_send_sender g' = None \<and>
        ug_recv_decoder g' = None \<and> (\<forall>c. ug_by_conid g' c = None) \<and> (\<forall>a. ug_by_conaddr g' a = None)))"
proof -
  have "ug_inv g0" using ug_reach(1) [OF assms, of "[]"] by simp
  with ug.run_total [of "(g0, [])" es] ug_reach(1) [OF assms, of es] UdpGwClient_Free_ok show ?thesis by fastforce
qed

text \<open>A client for two connections, used by one address pair after another.\<close>

definition ex_cons :: "ptr \<Rightarrow> UdpGwClient_connection" where
  "ex_cons = (\<lambda>_. \<lparr>co_conaddr = \<lparr>local_addr = BADDR_TYPE_NONE, remote_addr = BADDR_TYPE_NONE\<rparr>, co_first_flags = 0,
     co_first_data = [], co_first_job = False, co_conid = 0, co_out = None\<rparr>)"

definition ex_client_mtu :: int where
  "ex_client_mtu = 10"

definition ex_pair :: "16 word \<Rightarrow> BAddr" where
  "ex_pair port = BADDR_TYPE_IPV4 0x0201A8C0 port"

definition ex_udp :: "ug_event list" where
  "ex_udp = [UgConnect (\<lambda>n. Some (replicate (nat n) 0)), UgSubmit (Some 5) True (ex_pair 1) (ex_pair 9) False [1, 2],
     UgRefill 5 (replicate 31 0)]"

lemma ex_udpgw:
  "\<exists>g0. UdpGwClient_Init ex_flows ex_cons 1 ex_client_mtu 1 1 = Some (Some g0) \<and>
    (case run_events ug_step ug_legal ex_udp (g0, []) of None \<Rightarrow> False
     | Some y \<Rightarrow> (case y of (g, as) \<Rightarrow> ug_connections_list g = [5] \<and> co_out (ug_con g 5) = Some (replicate 31 0) \<and>
         ug_have_server g \<and> ug_udp_mtu g = 10 \<and> ug_by_conaddr g \<lparr>local_addr = ex_pair 2, remote_addr = ex_pair 9\<rparr> = None \<and>
         ug_num_connections g = ug_max_connections g))"
proof (rule case_Some2D)
  show "case UdpGwClient_Init ex_flows ex_cons 1 ex_client_mtu 1 1 of None \<Rightarrow> False
    | Some y \<Rightarrow> case y of None \<Rightarrow> False
      | Some g0 \<Rightarrow> (case run_events ug_step ug_legal ex_udp (g0, []) of None \<Rightarrow> False
     | Some y \<Rightarrow> (case y of (g, as) \<Rightarrow> ug_connections_list g = [5] \<and> co_out (ug_con g 5) = Some (replicate 31 0) \<and>
         ug_have_server g \<and> ug_udp_mtu g = 10 \<and> ug_by_conaddr g \<lparr>local_addr = ex_pair 2, remote_addr = ex_pair 9\<rparr> = None \<and>
         ug_num_connections g = ug_max_connections g))" by code_simp
qed


lemma ex_udpgwD:
  "\<exists>g0 g as. UdpGwClient_Init ex_flows ex_cons 1 ex_client_mtu 1 1 = Some (Some g0) \<and>
    run_events ug_step ug_legal ex_udp (g0, []) = Some (g, as) \<and> ug_connections_list g = [5] \<and>
    co_out (ug_con g 5) = Some (replicate 31 0) \<and> ug_have_server g \<and> ug_udp_mtu g = 10 \<and>
    ug_by_conaddr g \<lparr>local_addr = ex_pair 2, remote_addr = ex_pair 9\<rparr> = None \<and> ug_num_connections g = ug_max_connections g"
proof -
  from ex_udpgw obtain g0 where g0: "UdpGwClient_Init ex_flows ex_cons 1 ex_client_mtu 1 1 = Some (Some g0)"
    "case run_events ug_step ug_legal ex_udp (g0, []) of None \<Rightarrow> False
     | Some y \<Rightarrow> (case y of (g, as) \<Rightarrow> ug_connections_list g = [5] \<and> co_out (ug_con g 5) = Some (replicate 31 0) \<and>
         ug_have_server g \<and> ug_udp_mtu g = 10 \<and> ug_by_conaddr g \<lparr>local_addr = ex_pair 2, remote_addr = ex_pair 9\<rparr> = None \<and>
         ug_num_connections g = ug_max_connections g)" by (elim exE conjE)
  from case_Some_pairD [OF g0(2)] g0(1) show ?thesis by (elim exE conjE) (intro exI conjI)
qed



theorem udpgw_new_connection_witness:
  "\<exists>g0 m. UdpGwClient_Init ex_flows ex_cons 1 ex_client_mtu 1 1 = Some (Some g0) \<and>
    find_unused_conid g0 = Some (word_of_int m, g0\<lparr>ug_next_conid := m\<rparr>) \<and> 0 \<le> m \<and> m < ug_max_connections g0"
proof -
  from ex_udpgwD obtain g0 where g: "UdpGwClient_Init ex_flows ex_cons 1 ex_client_mtu 1 1 = Some (Some g0)" by (elim exE conjE)
  have "run_events ug_step ug_legal [] (g0, []) = Some (g0, [])" by simp
  moreover have "ug_num_connections g0 < ug_max_connections g0"
    using g by (auto simp: UdpGwClient_Init_def Let_def split: Option.bind_splits option.splits)
  ultimately show ?thesis using udpgw_new_connection [OF g] g by blast
qed

theorem udpgw_receives_known_witness:
  "\<exists>g0 g as acts g'. UdpGwClient_Init ex_flows ex_cons 1 ex_client_mtu 1 1 = Some (Some g0) \<and>
    run_events ug_step ug_legal ex_udp (g0, []) = Some (g, as) \<and> recv_interface_handler_send [0, 7, 7] g = Some (acts, g')"
proof -
  from ex_udpgwD obtain g0 g as where g: "UdpGwClient_Init ex_flows ex_cons 1 ex_client_mtu 1 1 = Some (Some g0)"
    "run_events ug_step ug_legal ex_udp (g0, []) = Some (g, as)" "ug_have_server g" "ug_udp_mtu g = 10" by (elim exE conjE)
  have "int (length [0, 7, 7 :: byte]) \<le> ug_udpgw_mtu g"
    using ug_reach(1) [OF g(1,2)] g(4) by (auto simp: ug_inv_def ug_sizes_def)
  from udpgw_receives_known [OF g(1-3) this] g(1,2) show ?thesis by (elim exE conjE) (intro exI conjI)
qed

theorem udpgw_never_fails_witness:
  "\<exists>g0 g as g'. UdpGwClient_Init ex_flows ex_cons 1 ex_client_mtu 1 1 = Some (Some g0) \<and>
    run_events ug_step ug_legal ex_udp (g0, []) = Some (g, as) \<and> UdpGwClient_Free g = Some g' \<and> ug_connections_list g' = []"
proof -
  from ex_udpgwD obtain g0 g as where g: "UdpGwClient_Init ex_flows ex_cons 1 ex_client_mtu 1 1 = Some (Some g0)"
    "run_events ug_step ug_legal ex_udp (g0, []) = Some (g, as)" by (elim exE conjE)
  from udpgw_never_fails [OF g(1), of ex_udp, THEN conjunct2, rule_format, OF g(2)] g show ?thesis
    by (elim exE conjE) (intro exI conjI)
qed

section \<open>Udpgw over SOCKS\<close>

text \<open>C29. The udpgw connection is always being cared for: either there is a SOCKS connection, being set up or up,
  or the timer for the next attempt runs, never both and never neither; the udpgw client has a server
  exactly when the SOCKS connection is up.  And at any time everything can be freed.\<close>

theorem udpgw_connection_retried:
  assumes "SocksUdpGwClient_Init store cstore k no_socks ok udp_mtu max_connections send_buffer_size server ais remote = Some (Some w0)"
    and "BAddr_wf remote" and "\<forall>ai\<in>set ais. auth_type ai = SOCKS_METHOD_NO_AUTHENTICATION_REQUIRED \<or> auth_type ai = SOCKS_METHOD_USERNAME_PASSWORD"
    and "realloc_ok BRealloc" and "run_events (su_step BRealloc) su_legal es (w0, []) = Some (w, out)"
  shows "su_reconnect_timer w = (\<not> su_have_socks w) \<and>
    ug_have_server (su_udpgw_client w) = (su_have_socks w \<and> su_socks_up w) \<and>
    (\<exists>w'. SocksUdpGwClient_Free w = Some w' \<and> \<not> su_have_socks w' \<and> \<not> su_reconnect_timer w' \<and>
      ug_connections_list (su_udpgw_client w') = [] \<and> fq_flows_list (ug_send_queue (su_udpgw_client w')) = [])"
proof -
  from assms(1) have a: "0 \<le> udp_mtu" "0 \<le> udpgw_compute_mtu udp_mtu" "udpgw_compute_mtu udp_mtu \<le> PACKETPROTO_MAXPAYLOAD"
    "0 < max_connections" "0 < send_buffer_size" "\<not> BAddr_IsInvalid server" "remote \<noteq> BADDR_TYPE_NONE"
    by (auto simp: SocksUdpGwClient_Init_def UdpGwClient_Init_def split: Option.bind_splits)
  from SocksUdpGwClient_Init_ok [OF a assms(2,3), of store cstore k no_socks ok] assms(1) have "su_inv w0" by auto
  with su.run_inv [OF assms(5)] assms(4) have i: "su_inv w" by simp
  then have "su_reconnect_timer w = (\<not> su_have_socks w)" "ug_have_server (su_udpgw_client w) = (su_have_socks w \<and> su_socks_up w)"
    unfolding su_inv_def by blast+
  with SocksUdpGwClient_Free_ok [OF i] show ?thesis by blast
qed

text \<open>A configuration: one SOCKS server without authentication and a udpgw behind it.\<close>

definition ex_no_socks :: sc_config where
  "ex_no_socks = sc_start \<lparr>sc_auth_info = [], sc_dest_addr = BADDR_TYPE_NONE, sc_state = STATE_CONNECTING, sc_buffer = None,
     sc_recv_dest = 0, sc_recv_len = 0, sc_recv_total = 0, sc_connector = False, sc_con = False, sc_recv_async = False,
     sc_send_async = False, sc_send_sender = False\<rparr>"

lemma ex_su:
  "\<exists>w0. SocksUdpGwClient_Init ex_flows ex_cons 1 ex_no_socks True 10 1 1 ex_server [BSocksClient_auth_none] ex_server = Some (Some w0) \<and>
    (case run_events (su_step ex_realloc) su_legal (map (\<lambda>e. SuSocks e (\<lambda>n. Some (replicate (nat n) 0))) ex_handshake) (w0, []) of None \<Rightarrow> False
     | Some y \<Rightarrow> (case y of (w, out) \<Rightarrow> su_socks_up w))"
proof (rule case_Some2D)
  show "case SocksUdpGwClient_Init ex_flows ex_cons 1 ex_no_socks True 10 1 1 ex_server [BSocksClient_auth_none] ex_server of
      None \<Rightarrow> False | Some y \<Rightarrow> case y of None \<Rightarrow> False
      | Some w0 \<Rightarrow> (case run_events (su_step ex_realloc) su_legal (map (\<lambda>e. SuSocks e (\<lambda>n. Some (replicate (nat n) 0))) ex_handshake) (w0, []) of
          None \<Rightarrow> False | Some y \<Rightarrow> (case y of (w, out) \<Rightarrow> su_socks_up w))" by code_simp
qed

theorem udpgw_connection_retried_witness:
  "\<exists>w0 w out. SocksUdpGwClient_Init ex_flows ex_cons 1 ex_no_socks True 10 1 1 ex_server [BSocksClient_auth_none] ex_server = Some (Some w0) \<and>
    run_events (su_step ex_realloc) su_legal (map (\<lambda>e. SuSocks e (\<lambda>n. Some (replicate (nat n) 0))) ex_handshake) (w0, []) = Some (w, out) \<and>
    su_socks_up w \<and> ug_have_server (su_udpgw_client w) = (su_have_socks w \<and> su_socks_up w)"
proof -
  from ex_su obtain w0 where w0: "SocksUdpGwClient_Init ex_flows ex_cons 1 ex_no_socks True 10 1 1 ex_server [BSocksClient_auth_none] ex_server = Some (Some w0)"
    "case run_events (su_step ex_realloc) su_legal (map (\<lambda>e. SuSocks e (\<lambda>n. Some (replicate (nat n) 0))) ex_handshake) (w0, []) of None \<Rightarrow> False
     | Some y \<Rightarrow> (case y of (w, out) \<Rightarrow> su_socks_up w)" by (elim exE conjE)
  from case_Some_pairD [OF w0(2)] obtain w out where
    w: "run_events (su_step ex_realloc) su_legal (map (\<lambda>e. SuSocks e (\<lambda>n. Some (replicate (nat n) 0))) ex_handshake) (w0, []) = Some (w, out)"
      "su_socks_up w" by (elim exE conjE)
  have "\<forall>ai\<in>set [BSocksClient_auth_none]. auth_type ai = SOCKS_METHOD_NO_AUTHENTICATION_REQUIRED \<or> auth_type ai = SOCKS_METHOD_USERNAME_PASSWORD"
    by (simp add: BSocksClient_auth_none_def)
  from udpgw_connection_retried [OF w0(1) ex_server_wf this ex_realloc_ok w(1)]
  have "ug_have_server (su_udpgw_client w) = (su_have_socks w \<and> su_socks_up w)" by (elim conjE)
  with w0(1) w show ?thesis by (intro exI conjI)
qed

section \<open>IP packets\<close>

lemma ipv4_checksum_header_sum:
  "\<exists>c. ipv4_checksum (h\<lparr>ip4_checksum := 0\<rparr>) extra 0 = Some c \<and>
    (be16_sum (ipv4_header_bytes (h\<lparr>ip4_checksum := 0\<rparr>)) + unat (hton16 c)) mod 65535 = 0"
proof -
  have "even (unat (0 :: 16 word))" and "unat (0 :: 16 word) \<le> length extra" by (simp_all only: unat_0 even_zero le0)
  from ipv4_checksum_sum [OF this, of "h\<lparr>ip4_checksum := 0\<rparr>"] show ?thesis
    by (simp only: unat_0 take_0 be16_sum.simps add_0_right)
qed

text \<open>The checksum put into an IPv4 header is correct: with it, the ones' complement sum of the header's 16-bit
  words verifies.\<close>

lemma ipv4_checksum_verifies:
  "\<exists>c. ipv4_checksum (h\<lparr>ip4_checksum := 0\<rparr>) extra 0 = Some c \<and> be16_sum (ipv4_header_bytes (h\<lparr>ip4_checksum := c\<rparr>)) mod 65535 = 0"
  using ipv4_checksum_header_sum [of h extra] by (elim exE conjE) (intro exI conjI, assumption, subst ipv4_header_sum, assumption)

text \<open>C40. The UDP checksum over IPv4 is the complement of the ones' complement sum of pseudo header, header and
  data, so that a receiver's sum verifies.  It is 0 exactly when that sum is a multiple of 65535; the
  code means to replace a zero checksum, which means "no checksum" on the wire, but never does.\<close>

theorem udp_checksum_correct_but_zero:
  assumes "unat n \<le> length payload"
  shows "\<exists>c. udp_checksum h payload n source dest = Some c \<and>
    (be16_sum (udp_pseudo4 source dest (8 + n) @ udp_header_bytes h @ take (unat n) payload) + unat (hton16 c)) mod 65535 = 0 \<and>
    (c = 0 \<longleftrightarrow> be16_sum (udp_pseudo4 source dest (8 + n) @ udp_header_bytes h @ take (unat n) payload) mod 65535 = 0)"
  using udp_checksum_value [OF assms] unfolding checksum_of_def by blast

theorem udp_checksum_correct_but_zero_witness:
  "\<exists>c. udp_checksum \<lparr>udp_source_port = 0, udp_dest_port = 0, udp_length = hton16 10, udp_hdr_checksum = 0\<rparr> [0xFF, 0xDA] 2 0 0 = Some c \<and>
    c = 0"
proof -
  let ?h = "\<lparr>udp_source_port = 0, udp_dest_port = 0, udp_length = hton16 10, udp_hdr_checksum = 0\<rparr>" and ?d = "[0xFF, 0xDA :: byte]"
  have n: "unat (2 :: 16 word) \<le> length ?d" and d: "take (unat (2 :: 16 word)) ?d = ?d" by simp_all
  have "be16_sum (udp_pseudo4 0 0 (8 + 2) @ udp_header_bytes ?h @ ?d) mod 65535 = 0"
    by (simp add: udp_pseudo4_def udp_header_bytes_def le32_bytes_def le16_bytes_def hton16_def)
  with udp_checksum_correct_but_zero [OF n, of ?h 0 0] show ?thesis unfolding d by blast
qed

section \<open>Device packets\<close>


text \<open>C11. A datagram from the udpgw becomes an IPv4 packet that reads back: the packet written to the device carries
  valid header lengths and checksum, and the program's own parser recognises it as the UDP datagram with
  the addresses exchanged and the same data.\<close>

theorem device_ipv4_roundtrip:
  assumes "dv_udpgw cf" and "int (length buf) = dv_mtu cf" and "int (length data) \<le> dv_mtu cf - 28" and "length data \<le> 65507"
  shows "\<exists>pkt buf'. udpgw_client_handler_received cf (BADDR_TYPE_IPV4 lip lport) (BADDR_TYPE_IPV4 rip rport) data buf =
      Some ([DevWrite pkt], buf') \<and> length buf' = length buf \<and> length pkt = 28 + length data \<and>
    (int (length data) \<le> dv_udp_mtu cf \<longrightarrow> parse_device_udp_packet cf pkt =
      Some (Some (BADDR_TYPE_IPV4 rip rport, BADDR_TYPE_IPV4 lip lport,
        dv_transparent_dns cf \<and> lip = dv_netif_ipaddr cf \<and> lport = hton16 53, data)))"
  by (rule udpgw_to_device_ipv4 [OF assms])

definition ex_device :: device_conf where
  "ex_device = \<lparr>dv_udpgw = True, dv_ip6 = True, dv_transparent_dns = False, dv_netif_ipaddr = 0, dv_udp_mtu = 72, dv_mtu = 100\<rparr>"

theorem device_ipv4_roundtrip_witness:
  "\<exists>pkt buf'. udpgw_client_handler_received ex_device (BADDR_TYPE_IPV4 1 2) (BADDR_TYPE_IPV4 3 4) [9, 8] (replicate 100 0) =
      Some ([DevWrite pkt], buf') \<and> length pkt = 30 \<and>
    parse_device_udp_packet ex_device pkt = Some (Some (BADDR_TYPE_IPV4 3 4, BADDR_TYPE_IPV4 1 2, False, [9, 8]))"
  using device_ipv4_roundtrip [of ex_device "replicate 100 0" "[9, 8]" 1 2 3 4] by (auto simp: ex_device_def)

text \<open>The same round trip for IPv6.\<close>

lemma device_ipv6_roundtrip:
  assumes "dv_udpgw cf" and "dv_ip6 cf" and "int (length buf) = dv_mtu cf" and "int (length data) \<le> dv_mtu cf - 48"
    and "length data \<le> 65527" and "length lip = 16" and "length rip = 16"
  shows "\<exists>pkt buf'. udpgw_client_handler_received cf (BADDR_TYPE_IPV6 lip lport) (BADDR_TYPE_IPV6 rip rport) data buf =
      Some ([DevWrite pkt], buf') \<and> length buf' = length buf \<and> length pkt = 48 + length data \<and>
    (int (length data) \<le> dv_udp_mtu cf \<longrightarrow> parse_device_udp_packet cf pkt =
      Some (Some (BADDR_TYPE_IPV6 rip rport, BADDR_TYPE_IPV6 lip lport, False, data)))"
  by (rule udpgw_to_device_ipv6 [OF assms])

text \<open>C33. A packet from lwIP is written to the device whole or not at all: whatever chain of buffers it comes in, the
  device gets the concatenation if it fits the MTU, and nothing otherwise; the copy never leaves the
  write buffer.\<close>

theorem netif_output_whole:
  assumes "chain \<noteq> []" and "int (length buf) = dv_mtu cf"
  shows "\<exists>buf'. common_netif_output cf quitting chain buf =
    Some (if \<not> quitting \<and> int (length (concat chain)) \<le> dv_mtu cf then [DevWrite (concat chain)] else [], buf') \<and>
    length buf' = length buf"
  by (rule common_netif_output_ok [OF assms])

theorem netif_output_whole_witness:
  "\<exists>buf'. common_netif_output ex_device False [[1, 2], [3]] (replicate 100 0) = Some ([DevWrite [1, 2, 3]], buf') \<and> length buf' = 100"
  using netif_output_whole [of "[[1, 2], [3]]" "replicate 100 0" ex_device False] by (simp add: ex_device_def)

section \<open>The program\<close>










text \<open>Without a signal handler, which is how the library starts the program, run() cannot get past the reactor's
  initialisation and return: every way out calls BSignal_Finish for a handler that was never installed,
  whose assertion fails.\<close>

lemma run_without_signal_never_exits:
  assumes "\<not> op_set_signal op" and "re_network re" and "re_process_arguments re" and "re_reactor re"
  shows "run BRealloc op re script \<noteq> Some (Exited st')"
  by (rule run_without_signal [OF assms])

text \<open>The UDP MTU computed by run() is the device MTU less the IPv4 and UDP headers, and 0 if that is negative,
  with and without IPv6: the code's comparison with the IPv6 value never takes effect.\<close>

lemma udp_mtu_value: "compute_udp_mtu mtu ip6 = max 0 (mtu - 28)"
  by (rule compute_udp_mtu_bounds)

section \<open>Options, texts and the log\<close>









text \<open>The Android program runs: with addresses that resolve and every call to the operating system successful,
  whatever events occur, it handles them without failing, its state stays valid, and unless one of them asks it
  to quit, run() is still running in that state.\<close>

lemma native_runs:
  assumes "process_arguments getaddrinfo pw_file netif_ip6addr (native_options fd mtu ip nm ip6 socks udpgw dns old) = Some (pw, Some pa)"
    and "realloc_ok BRealloc" and "resolver_ok getaddrinfo" and "length netif_ip6addr = 16" and "fd \<noteq> 0" and "0 \<le> mtu"
    and "re_network re" and "re_reactor re" and "re_tap re" and "re_read_buffer re"
    and "re_write_buf re = Some wb" and "int (length wb) = mtu"
    and "op = run_options_of (native_options fd mtu ip nm ip6 socks udpgw dns old) pa" and "init_udpgw op (re\<lparr>re_mtu := mtu\<rparr>) = Some (Some w)"
  shows "\<exists>s. BReactor_Exec BRealloc (op_relay op) script (t2s_initial op mtu w wb) = Some s \<and> t2s_inv s \<and>
    (\<not> ts_quitting s \<longrightarrow>
      run_with_options BRealloc getaddrinfo pw_file netif_ip6addr (native_options fd mtu ip nm ip6 socks udpgw dns old) re script = Some (Running s))"
proof -
  let ?o = "native_options fd mtu ip nm ip6 socks udpgw dns old"
  let ?re = "re\<lparr>re_mtu := mtu, re_password_file := pw, re_process_arguments := True\<rparr>"
  note n = native_options_ok [of fd mtu ip nm ip6 socks udpgw dns old]
  have pa: "processed_ok ?o pa" using process_arguments_ok [OF assms(3) n(1) assms(4), of pw_file] assms(1) by auto
  have pre: "run_pre op ?re" unfolding assms(13) by (rule run_pre_of_options [OF n(2) pa]) (use assms(6,11,12) in auto)
  have gw: "init_udpgw op ?re = Some (Some w)" using assms(14) by (simp add: init_udpgw_def Let_def cong: if_cong)
  have fdm: "opt_tun_fd ?o = fd" "opt_tun_mtu ?o = mtu" by (simp_all add: native_options_def)
  have eq: "run_with_options BRealloc getaddrinfo pw_file netif_ip6addr ?o re script = run BRealloc op ?re script"
    using assms(1,5,7) fdm by (simp add: run_with_options_def Let_def assms(13))
  have sig: "op_set_signal op \<longrightarrow> re_signal ?re" using n(3) assms(13) by (simp add: run_options_of_def)
  show ?thesis unfolding eq
    using run_running [OF assms(2) pre _ _ _ sig _ _ _ gw, of wb script] assms(7-11) by simp
qed

text \<open>The log passes on exactly the messages whose level the channel admits: the message that reaches the log
  function is the first 2047 characters of the text, the buffer is empty afterwards and the lock is released.
  Before, options.loglevels and options.loglevel have set the level of every channel.\<close>

lemma log_message_exact:
  assumes "bl_inv g" and "\<not> bl_logging g" and "channel_ok channel" and "level_ok level" and "CHR 0x00 \<notin> set txt"
    and "options_ok op"
  shows "\<exists>g1 g2. configure_channels 0 (opt_loglevels op) (opt_loglevel op) g = Some g1 \<and>
    BLog_LogToChannel channel level txt g1 = Some g2 \<and> bl_inv g2 \<and> \<not> bl_logging g2 \<and>
    bl_out g2 = (let l = opt_loglevels op ! nat channel;
        admitted = (if l \<ge> 0 then l else if opt_loglevel op \<ge> 0 then opt_loglevel op else snd (bl_channels g ! nat channel))
      in if level \<le> admitted then bl_out (call_log_func channel level (take 2047 txt) g1) else bl_out g)"
proof -
  have o: "length (opt_loglevels op) = BLOG_NUM_CHANNELS" "opt_loglevel op \<le> BLOG_DEBUG" "list_all (\<lambda>l. l \<le> BLOG_DEBUG) (opt_loglevels op)"
    using assms(6) by (auto simp: options_ok_def list_all_iff)
  from configure_channels_ok [of g 0 "opt_loglevels op" "opt_loglevel op"] assms(1) o obtain g1 where
    g1: "configure_channels 0 (opt_loglevels op) (opt_loglevel op) g = Some g1" "bl_inv g1" "bl_logging g1 = bl_logging g" "bl_out g1 = bl_out g"
    "\<And>k. k < BLOG_NUM_CHANNELS \<Longrightarrow> snd (bl_channels g1 ! k) = (if opt_loglevels op ! k \<ge> 0 then opt_loglevels op ! k
       else if opt_loglevel op \<ge> 0 then opt_loglevel op else snd (bl_channels g ! k))" by auto
  have k: "nat channel < BLOG_NUM_CHANNELS" using assms(3) by linarith
  have n: "\<not> bl_logging g1" using g1(3) assms(2) by simp
  from BLog_LogToChannel_ok [OF g1(2) n assms(3,4,5)] obtain g2 where g2: "BLog_LogToChannel channel level txt g1 = Some g2" "bl_inv g2"
    "\<not> bl_logging g2" "bl_out g2 = (if level \<le> snd (bl_channels g1 ! nat channel)
      then bl_out (call_log_func channel level (take (nat (LOGBUF_SIZE - 1)) txt) g1) else bl_out g1)" by blast
  show ?thesis using g1(1) g2(1-3) g2(4) unfolding g1(5) [OF k] g1(4) Let_def by (simp add: LOGBUF_SIZE_def)
qed

text \<open>read_file returns the file's contents: whatever the sizes of the pieces in which fread returns it, the
  buffer is never overrun, what is returned on success is the whole contents, and a file of less than half the
  address space is read successfully when the memory is there.\<close>

lemma read_file_exact:
  assumes "blocks_ok realloc_mem" and "length mem = 128" and "[] \<notin> set pieces"
  shows "\<exists>r. read_file True (Some mem) realloc_mem eof pieces = Some r \<and> (\<forall>data. r = Some data \<longrightarrow> data = concat pieces) \<and>
    (eof \<and> (\<forall>n. 2 * n \<le> nat SIZE_MAX \<longrightarrow> realloc_mem (2 * n) \<noteq> None) \<and> 2 * length (concat pieces) \<le> nat SIZE_MAX \<longrightarrow> r = Some (concat pieces))"
  using read_file_ok [OF assms(1) _ assms(3), of "Some mem" True eof] assms(2) by auto

text \<open>C38. The parser of unsigned decimal numbers accepts exactly the non-empty strings of digits whose value fits into
  64 bits, with leading zeros, and returns that value: its comparison of the text with that of the largest number is
  equivalent to the comparison of the values.\<close>

theorem decimal_parser_exact:
  "parse_unsigned_integer_bin str =
     (if str \<noteq> [] \<and> list_all is_digit str \<and> dec_value str < 2 ^ 64 then Some (of_nat (dec_value str)) else None)"
  by (rule parse_unsigned_integer_exact)

text \<open>C37. IPv6 addresses read back: the text printed for an address, with its longest run of zero blocks compressed, is
  parsed to the same address, whatever the memory of the result held before.\<close>

theorem ipv6_text_roundtrip:
  assumes "length addr = 16" and "length out = 16"
  shows "ipaddr6_parse_ipv6_addr (ipaddr6_print_addr addr) out = Some (Some addr)"
  by (rule ipaddr6_roundtrip [OF assms])

theorem ipv6_text_roundtrip_witness:
  "ipaddr6_parse_ipv6_addr (ipaddr6_print_addr [32, 1, 13, 184, 0, 0, 0, 0, 0, 0, 0, 0, 0, 0, 0, 1]) (replicate 16 7) =
     Some (Some [32, 1, 13, 184, 0, 0, 0, 0, 0, 0, 0, 0, 0, 0, 0, 1])"
  by (rule ipv6_text_roundtrip) simp_all

text \<open>Any text is a safe argument of the IPv6 parser: it never writes outside the 16 bytes of the result.\<close>

lemma ipv6_parse_safe:
  assumes "length out = 16"
  shows "\<exists>r. ipaddr6_parse_ipv6_addr name out = Some r \<and> (\<forall>b. r = Some b \<longrightarrow> length b = 16)"
  by (rule ipaddr6_parse_safe [OF assms])

text \<open>IPv4 addresses with port read back: the text BAddr_Print makes is parsed by BAddr_Parse2 to the same address
  and port, if the resolver reads numeric addresses.\<close>

lemma ipv4_address_text_roundtrip:
  assumes "getaddrinfo noresolve AF_INET (BIPAddr_Print (BIPADDR_IPV4 ip)) = Some (le32_bytes ip)"
  shows "BAddr_Parse2 getaddrinfo (BAddr_Print (BADDR_TYPE_IPV4 ip port)) None noresolve = Some (Some (BADDR_TYPE_IPV4 ip port, None))"
  by (rule BAddr_ipv4_roundtrip [where getaddrinfo = getaddrinfo, OF assms])


section \<open>The reactor\<close>

text \<open>C12. The reactor never fails: after its initialisation, whatever timers, descriptors, limits and jobs its users set up
  and take away in whatever order, and whatever epoll returns for the registered descriptors, no assertion fails and no
  object that is not there is used.\<close>

theorem reactor_never_fails:
  assumes "rx_fresh r0" and "BReactor_Init True r0 = Some (True, r)" and "0 \<le> clock" and "clock \<le> INT64_MAX"
    and "run_events rx_step rx_legal es (rx_start clock r) = None"
  shows "\<exists>es1 e es2 m. es = es1 @ e # es2 \<and> run_events rx_step rx_legal es1 (rx_start clock r) = Some m \<and> \<not> rx_legal e m"
  by (rule rx.run_total [OF rx_start_inv [OF assms(1-4)] assms(5)])

theorem reactor_never_fails_witness:
  "run_events rx_step rx_legal (ex_rx_events @ [UnsetTimer 9]) (rx_start 0 ex_rx) = None \<and>
    (\<exists>es1 e es2 m. ex_rx_events @ [UnsetTimer 9] = es1 @ e # es2 \<and>
      run_events rx_step rx_legal es1 (rx_start 0 ex_rx) = Some m \<and> \<not> rx_legal e m)"
proof -
  have n: "run_events rx_step rx_legal (ex_rx_events @ [UnsetTimer 9]) (rx_start 0 ex_rx) = None"
    by (simp add: run_events_append ex_rx_run rx_legal_def ex_rx_state_def)
  from reactor_never_fails [OF ex_rx_init _ _ n] n show ?thesis by (simp add: INT64_MAX_def)
qed







text \<open>A timer's time does not wrap around: a timer set to a time from now is due at that time, or at the last time
  that 64 bits can represent when it is beyond; it runs afterwards whatever it did before.\<close>

lemma timer_time_saturates:
  assumes "rx_fresh r0" and "BReactor_Init True r0 = Some (True, r)" and "0 \<le> clock" and "clock \<le> INT64_MAX"
    and "run_events rx_step rx_legal es (rx_start clock r) = Some m" and "rx_timer (rxm_reactor m) t = Some x" and "is_int64 time"
  shows "\<exists>r' x'. BReactor_SetTimerAfter (rxm_clock m) t time (rxm_reactor m) = Some r' \<and> rx_timer r' t = Some x' \<and>
    tm_absTime x' = max INT64_MIN (min INT64_MAX (rxm_clock m + time)) \<and> BSmallTimer_IsRunning t r' = Some True"
proof -
  have i: "rx_inv (rxm_clock m) (rxm_reactor m)"
    using rx.run_inv [OF assms(5) rx_start_inv [OF assms(1-4)]] by (simp add: rxm_inv_def)
  have "is_int64 (rxm_clock m)" using rx_invD(5,6) [OF i] by (simp add: is_int64_def INT64_MIN_def)
  from BReactor_SetSmallTimer_ok [OF i assms(6) this assms(7), of BTIMER_SET_RELATIVE] show ?thesis
    by (auto simp: BReactor_SetTimerAfter_def BSmallTimer_IsRunning_def due_time_def)
qed

section \<open>The trees\<close>

text \<open>C16. The tree of running timers does what the reactor's model takes it to do: for every tree of timers the AVL
  tree's insertion finds the place in the order of the times, or the timer that is there; removal removes it; the first
  timer is the one that is due first; the tree's check of itself passes; and the tree is not affected by a new time of a
  timer that is not in it.\<close>

theorem timer_tree_refines:
  assumes "cavl_rel (compare_timers absTime) s timers"
  shows "(case timers_insert absTime t timers of
        None \<Rightarrow> t \<in> set timers \<and> CAvl_Insert (compare_timers absTime) t s = Some (False, Some t, s)
      | Some timers' \<Rightarrow> \<exists>out s'. CAvl_Insert (compare_timers absTime) t s = Some (True, out, s') \<and> cavl_rel (compare_timers absTime) s' timers')
    \<and> (t \<in> set timers \<longrightarrow> (\<exists>s'. CAvl_Remove t s = Some s' \<and> cavl_rel (compare_timers absTime) s' (remove1 t timers)))
    \<and> CAvl_GetFirst s = Some (case timers of [] \<Rightarrow> None | u # us \<Rightarrow> Some u)
    \<and> CAvl_Verify (compare_timers absTime) s = Some ()
    \<and> (t \<notin> set timers \<longrightarrow> cavl_rel (compare_timers (absTime(t := time))) s timers)"
proof (intro conjI impI)
  show "case timers_insert absTime t timers of
        None \<Rightarrow> t \<in> set timers \<and> CAvl_Insert (compare_timers absTime) t s = Some (False, Some t, s)
      | Some timers' \<Rightarrow> \<exists>out s'. CAvl_Insert (compare_timers absTime) t s = Some (True, out, s') \<and> cavl_rel (compare_timers absTime) s' timers'"
    using timers.insert_refines [OF assms, of t] by (auto simp: timers_insert_list timers.same split: option.splits)
  show "\<exists>s'. CAvl_Remove t s = Some s' \<and> cavl_rel (compare_timers absTime) s' (remove1 t timers)" if "t \<in> set timers"
    by (rule timers.remove_refines [OF assms that])
  show "CAvl_GetFirst s = Some (case timers of [] \<Rightarrow> None | u # us \<Rightarrow> Some u)"
    using timers.first_refines(2) [OF assms] by (cases timers) simp_all
  show "CAvl_Verify (compare_timers absTime) s = Some ()" by (rule timers.first_refines(4) [OF assms])
  show "cavl_rel (compare_timers (absTime(t := time))) s timers" if "t \<notin> set timers"
    by (rule cavl_rel_cong [OF assms]) (use that in \<open>auto simp: compare_timers_def\<close>)
qed

definition ex_tree :: "nat cavl" where
  "ex_tree = CAvl_Init \<lparr>av_root = None, av_link = \<lambda>_ _. None, av_parent = \<lambda>_. None, av_balance = \<lambda>_. 0\<rparr>"

theorem timer_tree_refines_witness:
  "\<exists>s s'. cavl_run (compare_timers int) [Insert 1, Insert 3, Insert 2] ex_tree = Some s \<and> CAvl_GetFirst s = Some (Some 1) \<and>
    CAvl_Remove 1 s = Some s' \<and> cavl_rel (compare_timers int) s' [2, 3]"
proof -
  have "list_run (compare_timers int) [Insert 1, Insert 3, Insert 2] [] = Some [1, 2, 3]" by code_simp
  from timers.run_refines [OF _ this] cavl_rel_Init obtain s where
    s: "cavl_run (compare_timers int) [Insert 1, Insert 3, Insert 2] ex_tree = Some s" "cavl_rel (compare_timers int) s [1, 2, 3]"
    unfolding ex_tree_def by blast
  from timer_tree_refines [OF s(2), of 1] s(1) show ?thesis by auto
qed

text \<open>C17. The tree of waiting flows does what the fair queue's model takes it to do, in the order of the virtual times:
  insertion, removal and the first flow are those of the sequence in order, and the tree stays in order when all virtual
  times move down by a common offset.\<close>

theorem flow_tree_refines:
  assumes "cavl_rel (compare_flows m) s flows"
  shows "(case tree_insert m f flows of
        None \<Rightarrow> f \<in> set flows \<and> CAvl_Insert (compare_flows m) f s = Some (False, Some f, s)
      | Some flows' \<Rightarrow> \<exists>out s'. CAvl_Insert (compare_flows m) f s = Some (True, out, s') \<and> cavl_rel (compare_flows m) s' flows')
    \<and> (f \<in> set flows \<longrightarrow> (\<exists>s'. CAvl_Remove f s = Some s' \<and> cavl_rel (compare_flows m) s' (remove1 f flows)))
    \<and> (fq_queued_tree m = flows \<longrightarrow> CAvl_GetFirst s = Some (tree_first m))
    \<and> CAvl_Verify (compare_flows m) s = Some ()
    \<and> ((\<forall>g\<in>set flows. off \<le> fl_time (fq_flow m g) \<and> fl_time (fq_flow m' g) = fl_time (fq_flow m g) - off) \<longrightarrow>
        cavl_rel (compare_flows m') s flows)"
proof (intro conjI impI)
  show "case tree_insert m f flows of
        None \<Rightarrow> f \<in> set flows \<and> CAvl_Insert (compare_flows m) f s = Some (False, Some f, s)
      | Some flows' \<Rightarrow> \<exists>out s'. CAvl_Insert (compare_flows m) f s = Some (True, out, s') \<and> cavl_rel (compare_flows m) s' flows'"
    using flows.insert_refines [OF assms, of f] by (auto simp: tree_insert_list flows.same split: option.splits)
  show "\<exists>s'. CAvl_Remove f s = Some s' \<and> cavl_rel (compare_flows m) s' (remove1 f flows)" if "f \<in> set flows"
    by (rule flows.remove_refines [OF assms that])
  show "CAvl_GetFirst s = Some (tree_first m)" if "fq_queued_tree m = flows"
    using flows.first_refines(2) [OF assms] that by (cases flows) (simp_all add: tree_first_def)
  show "CAvl_Verify (compare_flows m) s = Some ()" by (rule flows.first_refines(4) [OF assms])
  show "cavl_rel (compare_flows m') s flows" if "\<forall>g\<in>set flows. off \<le> fl_time (fq_flow m g) \<and> fl_time (fq_flow m' g) = fl_time (fq_flow m g) - off"
    by (rule cavl_rel_cong [OF assms], rule compare_flows_offset) (use that in auto)
qed

definition ex_tree_flows :: "64 word \<Rightarrow> PacketPassFairQueue" where
  "ex_tree_flows off = \<lparr>fq_output_mtu = 10, fq_output_cancel = False, fq_use_cancel = False, fq_packet_weight = 1, fq_sending_flow = None,
     fq_sending_len = 0, fq_previous_flow = None, fq_queued_tree = [2, 1], fq_flows_list = [1, 2, 3],
     fq_flow = \<lambda>f. \<lparr>fl_time = (if f = 1 then 9 else if f = 2 then 4 else 6) - off, fl_is_queued = True, fl_data = 0, fl_data_len = 0, fl_handler_busy = False\<rparr>,
     fq_freeing = False, fq_schedule_job = False\<rparr>"

theorem flow_tree_refines_witness:
  "\<exists>s out s'. cavl_run (compare_flows (ex_tree_flows 0)) [Insert 1, Insert 2] ex_tree = Some s \<and> CAvl_GetFirst s = Some (Some 2) \<and>
    cavl_rel (compare_flows (ex_tree_flows 4)) s [2, 1] \<and>
    CAvl_Insert (compare_flows (ex_tree_flows 0)) 3 s = Some (True, out, s') \<and> cavl_rel (compare_flows (ex_tree_flows 0)) s' [2, 3, 1]"
proof -
  have "list_run (compare_flows (ex_tree_flows 0)) [Insert 1, Insert 2] [] = Some [2, 1]" by code_simp
  from flows.run_refines [OF _ this] cavl_rel_Init obtain s where
    s: "cavl_run (compare_flows (ex_tree_flows 0)) [Insert 1, Insert 2] ex_tree = Some s" "cavl_rel (compare_flows (ex_tree_flows 0)) s [2, 1]"
    unfolding ex_tree_def by blast
  have i: "tree_insert (ex_tree_flows 0) 3 [2, 1] = Some [2, 3, 1]" "tree_first (ex_tree_flows 0) = Some 2" "fq_queued_tree (ex_tree_flows 0) = [2, 1]" by code_simp+
  have off: "\<forall>g\<in>set [2, 1]. 4 \<le> fl_time (fq_flow (ex_tree_flows 0) g) \<and> fl_time (fq_flow (ex_tree_flows 4) g) = fl_time (fq_flow (ex_tree_flows 0) g) - 4"
    by (simp add: ex_tree_flows_def)
  from flow_tree_refines [OF s(2), of 3 4 "ex_tree_flows 4"] off i s(1) show ?thesis by auto
qed

text \<open>C18. Any use of a tree works: entries are inserted and removed without a failed assertion and without following an absent link,
  walking from the first entry gives the entries in order, and the height is at most twice the logarithm of
  their number, here for the timers.\<close>

theorem timer_tree_runs:
  assumes "list_run (compare_timers absTime) ops [] = Some timers"
  shows "\<exists>s'. cavl_run (compare_timers absTime) ops (CAvl_Init s) = Some s'
    \<and> CAvl_GetFirst s' = Some (case timers of [] \<Rightarrow> None | u # us \<Rightarrow> Some u)
    \<and> (\<forall>as t bs. timers = as @ t # bs \<longrightarrow> CAvl_GetNext t s' = Some (case bs of [] \<Rightarrow> None | u # us \<Rightarrow> Some u))
    \<and> (\<forall>r. av_root s' = Some r \<longrightarrow>
         (\<exists>h. CAvl_verify_recurser (compare_timers absTime) r s' = Some h \<and> 0 < h \<and> 2 ^ nat h \<le> (length timers + 1) ^ 2))"
proof -
  from timers.run_refines [OF cavl_rel_Init assms] obtain s' where
    s': "cavl_run (compare_timers absTime) ops (CAvl_Init s) = Some s'" "cavl_rel (compare_timers absTime) s' timers" by blast
  have "CAvl_GetFirst s' = Some (case timers of [] \<Rightarrow> None | u # us \<Rightarrow> Some u)"
    using timers.first_refines(2) [OF s'(2)] by (cases timers) simp_all
  moreover have "CAvl_GetNext t s' = Some (case bs of [] \<Rightarrow> None | u # us \<Rightarrow> Some u)" if "timers = as @ t # bs" for as t bs
    using timers.next_refines(1) [OF s'(2) [unfolded that]] by (cases bs) simp_all
  ultimately show ?thesis using s' timers.height_refines [OF s'(2)] by blast
qed

theorem timer_tree_runs_witness:
  "\<exists>s. cavl_run (compare_timers int) (map Insert [1, 2, 3, 4, 5, 6, 7] @ [Remove 4]) ex_tree = Some s \<and>
    CAvl_GetFirst s = Some (Some 1) \<and> CAvl_GetNext 3 s = Some (Some 5) \<and>
    (\<forall>r. av_root s = Some r \<longrightarrow> (\<exists>h. CAvl_verify_recurser (compare_timers int) r s = Some h \<and> 2 ^ nat h \<le> (7::nat) ^ 2))"
proof -
  have "list_run (compare_timers int) (map Insert [1, 2, 3, 4, 5, 6, 7] @ [Remove 4]) [] = Some [1, 2, 3, 5, 6, 7]" by code_simp
  from timer_tree_runs [OF this, of "\<lparr>av_root = None, av_link = \<lambda>_ _. None, av_parent = \<lambda>_. None, av_balance = \<lambda>_. 0\<rparr>"]
  obtain s where s: "cavl_run (compare_timers int) (map Insert [1, 2, 3, 4, 5, 6, 7] @ [Remove 4]) ex_tree = Some s"
    "CAvl_GetFirst s = Some (Some 1)"
    "\<And>as t bs. [1, 2, 3, 5, 6, 7] = as @ t # bs \<Longrightarrow> CAvl_GetNext t s = Some (case bs of [] \<Rightarrow> None | u # us \<Rightarrow> Some u)"
    "\<forall>r. av_root s = Some r \<longrightarrow> (\<exists>h. CAvl_verify_recurser (compare_timers int) r s = Some h \<and> 0 < h \<and> 2 ^ nat h \<le> (length [1, 2, 3, 5, 6, 7 :: nat] + 1) ^ 2)"
    unfolding ex_tree_def by auto
  have "length [1, 2, 3, 5, 6, 7 :: nat] + 1 = 7" by simp
  with s(4) have "\<forall>r. av_root s = Some r \<longrightarrow> (\<exists>h. CAvl_verify_recurser (compare_timers int) r s = Some h \<and> 2 ^ nat h \<le> (7::nat) ^ 2)" by metis
  with s(1,2) s(3) [of "[1, 2]" 3 "[5, 6, 7]"] show ?thesis by (intro exI [of _ s]) simp
qed

end
